(* ===== verification/Prelude.thy ===== *)
theory Prelude
  imports Main "HOL-Library.Word" "HOL-Library.Monad_Syntax"
begin

text \<open>
  Shared vocabulary of the development: the machine integer types, the packet buffer with its
  bounds-checked accesses, the C conversions between widths, and the generic loop shapes
  (first index that satisfies a test) that several components use.

  A packet buffer is the list of the bytes of its memory block, so its length is the capacity of
  the block. Every access of the C code is a call of \<open>rd\<close>, \<open>wr\<close>, \<open>rdn\<close> or \<open>wrn\<close>; an access outside
  the block is the value \<open>None\<close>, so a lemma that an operation yields \<open>Some\<close> is a memory-safety lemma.
  The host is little-endian (the program targets x86-64), so \<open>htons\<close> and \<open>htonl\<close> swap bytes.
\<close>

unbundle bit_operations_syntax

type_synonym u8 = "8 word"
type_synonym u16 = "16 word"
type_synonym u32 = "32 word"
type_synonym u64 = "64 word"
type_synonym buf = "u8 list"

named_theorems mem_simps "lengths and values of buffer accesses"
named_theorems wf_intros "introduction rules of the well-formedness invariants"

section \<open>Buffer accesses\<close>

definition rd :: "buf \<Rightarrow> nat \<Rightarrow> u8 option" where
  "rd b i = (if i < length b then Some (b ! i) else None)"

definition wr :: "buf \<Rightarrow> nat \<Rightarrow> u8 \<Rightarrow> buf option" where
  "wr b i v = (if i < length b then Some (b[i := v]) else None)"

definition rdn :: "buf \<Rightarrow> nat \<Rightarrow> nat \<Rightarrow> buf option" where
  "rdn b i n = (if i + n \<le> length b then Some (take n (drop i b)) else None)"

definition wrn :: "buf \<Rightarrow> nat \<Rightarrow> buf \<Rightarrow> buf option" where
  "wrn b i bs = (if i + length bs \<le> length b
                 then Some (take i b @ bs @ drop (i + length bs) b) else None)"

text \<open>\<open>memmove\<close> inside one buffer: all bytes are read before any is written.\<close>

definition mem_move :: "buf \<Rightarrow> nat \<Rightarrow> nat \<Rightarrow> nat \<Rightarrow> buf option" where
  "mem_move b dst src n = do { bs \<leftarrow> rdn b src n; wrn b dst bs }"

text \<open>Big-endian fields of two and four bytes.\<close>

definition be16_of :: "u8 \<Rightarrow> u8 \<Rightarrow> u16" where
  "be16_of hi lo = push_bit 8 (ucast hi) OR ucast lo"

definition hi8 :: "u16 \<Rightarrow> u8" where "hi8 w = ucast (drop_bit 8 w)"
definition lo8 :: "u16 \<Rightarrow> u8" where "lo8 w = ucast w"

definition rd_be16 :: "buf \<Rightarrow> nat \<Rightarrow> u16 option" where
  "rd_be16 b i = do { h \<leftarrow> rd b i; l \<leftarrow> rd b (i + 1); Some (be16_of h l) }"

definition wr_be16 :: "buf \<Rightarrow> nat \<Rightarrow> u16 \<Rightarrow> buf option" where
  "wr_be16 b i w = wrn b i [hi8 w, lo8 w]"

text \<open>A four-byte load into a \<open>uint32_t\<close> of the little-endian host, as \<open>memcpy(&ip, p, 4)\<close> does.\<close>

definition le32_of :: "u8 \<Rightarrow> u8 \<Rightarrow> u8 \<Rightarrow> u8 \<Rightarrow> u32" where
  "le32_of a b c d = ucast a OR push_bit 8 (ucast b) OR push_bit 16 (ucast c) OR push_bit 24 (ucast d)"

definition rd_le32 :: "buf \<Rightarrow> nat \<Rightarrow> u32 option" where
  "rd_le32 b i = do { w \<leftarrow> rd b i; x \<leftarrow> rd b (i + 1); y \<leftarrow> rd b (i + 2); z \<leftarrow> rd b (i + 3);
                      Some (le32_of w x y z) }"

definition htonl :: "u32 \<Rightarrow> u32" where
  "htonl w = push_bit 24 (take_bit 8 w) OR push_bit 16 (take_bit 8 (drop_bit 8 w))
             OR push_bit 8 (take_bit 8 (drop_bit 16 w)) OR drop_bit 24 w"

section \<open>C conversions\<close>

text \<open>\<open>size_t\<close> subtraction on the 64-bit host, and the conversions of an integer to \<open>int\<close> and
  to \<open>uint32_t\<close>.\<close>

definition sz_sub :: "nat \<Rightarrow> nat \<Rightarrow> nat" where
  "sz_sub a b = (if b \<le> a then a - b else a + 2 ^ 64 - b)"

definition c_int :: "int \<Rightarrow> int" where
  "c_int x = (let y = x mod 2 ^ 32 in if y < 2 ^ 31 then y else y - 2 ^ 32)"

definition c_u32 :: "int \<Rightarrow> int" where
  "c_u32 x = x mod 2 ^ 32"

lemma sz_sub_le [simp]: "b \<le> a \<Longrightarrow> sz_sub a b = a - b"
  by (simp add: sz_sub_def)

lemma c_int_id [simp]: "- (2 ^ 31) \<le> x \<Longrightarrow> x < 2 ^ 31 \<Longrightarrow> c_int x = x"
proof -
  assume a: "- (2 ^ 31) \<le> x" "x < 2 ^ 31"
  show ?thesis
  proof (cases "0 \<le> x")
    case True
    then show ?thesis using a by (simp add: c_int_def Let_def)
  next
    case False
    then have "x mod 2 ^ 32 = x + 2 ^ 32" using a by (subst mod_add_self2 [symmetric], subst mod_pos_pos_trivial) auto
    then show ?thesis using a False by (simp add: c_int_def Let_def)
  qed
qed

lemma c_u32_id [simp]: "0 \<le> x \<Longrightarrow> x < 2 ^ 32 \<Longrightarrow> c_u32 x = x"
  by (simp add: c_u32_def)

section \<open>Laws of buffer accesses\<close>

lemma rd_Some [simp]: "i < length b \<Longrightarrow> rd b i = Some (b ! i)"
  by (simp add: rd_def)

lemma wr_Some [simp]: "i < length b \<Longrightarrow> wr b i v = Some (b[i := v])"
  by (simp add: wr_def)

lemma rdn_Some [simp]: "i + n \<le> length b \<Longrightarrow> rdn b i n = Some (take n (drop i b))"
  by (simp add: rdn_def)

lemma wrn_Some [simp]:
  "i + length bs \<le> length b \<Longrightarrow> wrn b i bs = Some (take i b @ bs @ drop (i + length bs) b)"
  by (simp add: wrn_def)

lemma rd_eq_Some [mem_simps]: "rd b i = Some v \<longleftrightarrow> i < length b \<and> v = b ! i"
  by (auto simp: rd_def)

lemma wr_eq_Some [mem_simps]: "wr b i v = Some c \<longleftrightarrow> i < length b \<and> c = b[i := v]"
  by (auto simp: wr_def)

lemma rdn_eq_Some [mem_simps]: "rdn b i n = Some c \<longleftrightarrow> i + n \<le> length b \<and> c = take n (drop i b)"
  by (auto simp: rdn_def)

lemma wrn_eq_Some [mem_simps]:
  "wrn b i bs = Some c \<longleftrightarrow> i + length bs \<le> length b \<and> c = take i b @ bs @ drop (i + length bs) b"
  by (auto simp: wrn_def)

lemma rdn_length: "rdn b i n = Some c \<Longrightarrow> length c = n"
  by (auto simp: mem_simps)

lemma wrn_length: "wrn b i bs = Some c \<Longrightarrow> length c = length b"
  by (auto simp: mem_simps)

lemma wr_length: "wr b i v = Some c \<Longrightarrow> length c = length b"
  by (auto simp: mem_simps)

lemma rdn_wrn_same: "wrn b i bs = Some c \<Longrightarrow> rdn c i (length bs) = Some bs"
  by (auto simp: mem_simps)

lemma nth_wrn:
  "wrn b i bs = Some c \<Longrightarrow> k < length b \<Longrightarrow>
   c ! k = (if i \<le> k \<and> k < i + length bs then bs ! (k - i) else b ! k)"
  by (auto simp: mem_simps nth_append min_def)

lemma be16_hi8 [simp]: "hi8 (be16_of h l) = h"
  unfolding hi8_def be16_of_def
  by (rule bit_word_eqI) (auto simp: bit_simps dest: bit_imp_le_length)

lemma be16_lo8 [simp]: "lo8 (be16_of h l) = l"
  unfolding lo8_def be16_of_def
  by (rule bit_word_eqI) (auto simp: bit_simps dest: bit_imp_le_length)

lemma be16_of_hi8_lo8 [simp]: "be16_of (hi8 w) (lo8 w) = w"
  unfolding hi8_def lo8_def be16_of_def
  by (rule bit_word_eqI) (auto simp: bit_simps dest: bit_imp_le_length)

lemma rd_be16_Some [simp]: "Suc i < length b \<Longrightarrow> rd_be16 b i = Some (be16_of (b ! i) (b ! Suc i))"
  by (simp add: rd_be16_def)

lemma wr_be16_Some [simp]: "Suc i < length b \<Longrightarrow>
   wr_be16 b i w = Some (take i b @ [hi8 w, lo8 w] @ drop (i + 2) b)"
  by (simp add: wr_be16_def)

lemma rd_wr_be16: "wr_be16 b i w = Some c \<Longrightarrow> rd_be16 c i = Some w"
  by (auto simp: wr_be16_def mem_simps rd_be16_def nth_append)

lemma bind_Some_iff [mem_simps]:
  "Option.bind m f = Some y \<longleftrightarrow> (\<exists>x. m = Some x \<and> f x = Some y)"
  by (cases m) auto

lemma byte_cases:
  assumes "(n::nat) < 32"
  obtains j where "j < 8" "n = j" | j where "j < 8" "n = 8 + j"
    | j where "j < 8" "n = 16 + j" | j where "j < 8" "n = 24 + j"
proof -
  have "n = 8 * (n div 8) + n mod 8" "n mod 8 < 8" "n div 8 < 4" using assms by auto
  then consider "n div 8 = 0" | "n div 8 = 1" | "n div 8 = 2" | "n div 8 = 3" by arith
  then show ?thesis
    using that [of "n mod 8"] \<open>n = 8 * (n div 8) + n mod 8\<close> \<open>n mod 8 < 8\<close> by cases simp_all
qed

lemma bit_u32_ge: "32 \<le> m \<Longrightarrow> \<not> bit (w :: u32) m"
  by (auto dest: bit_imp_le_length)

lemma htonl_bit:
  "bit (htonl w) n \<longleftrightarrow> n < 32 \<and> bit w (if n < 8 then n + 24 else if n < 16 then n + 8
                                     else if n < 24 then n - 8 else n - 24)"
proof (cases "n < 32")
  case True
  then show ?thesis
    by (cases rule: byte_cases) (simp_all add: htonl_def bit_simps add.commute bit_u32_ge)
next
  case False
  then show ?thesis by (simp add: bit_u32_ge)
qed

lemma htonl_htonl [simp]: "htonl (htonl w) = w"
proof (rule bit_word_eqI)
  fix n assume "n < LENGTH(32)"
  then have "n < 32" by simp
  then show "bit (htonl (htonl w)) n \<longleftrightarrow> bit w n"
    by (cases rule: byte_cases) (simp_all add: htonl_bit add.commute)
qed

lemma htonl_and: "htonl (a AND b) = htonl a AND htonl b"
proof (rule bit_word_eqI)
  fix n assume "n < LENGTH(32)"
  then have "n < 32" by simp
  then show "bit (htonl (a AND b)) n \<longleftrightarrow> bit (htonl a AND htonl b) n"
    by (cases rule: byte_cases) (simp_all add: htonl_bit bit_and_iff)
qed

lemma htonl_eq_iff [simp]: "htonl a = htonl b \<longleftrightarrow> a = b"
  by (metis htonl_htonl)

lemma unat8_less: "unat (w :: u8) < 256"
  using unsigned_less [of w, where ?'a = nat] by simp

lemma unat16_less: "unat (w :: u16) < 65536"
  using unsigned_less [of w, where ?'a = nat] by simp

lemma nth_upd: "j < length xs \<Longrightarrow> xs[i := v] ! j = (if i = j then v else xs ! j)"
  by (cases "i = j") simp_all

section \<open>Loop shapes\<close>

text \<open>\<open>for (i = k; i < n; i++) if (P(a[i])) return i; return -1;\<close>\<close>

fun first_index :: "('a \<Rightarrow> bool) \<Rightarrow> int \<Rightarrow> 'a list \<Rightarrow> int" where
  "first_index P k [] = -1"
| "first_index P k (x # xs) = (if P x then k else first_index P (k + 1) xs)"

lemma first_index_none: "0 \<le> k \<Longrightarrow> first_index P k xs = -1 \<longleftrightarrow> (\<forall>x\<in>set xs. \<not> P x)"
  by (induction xs arbitrary: k) auto

lemma first_index_some:
  "0 \<le> k \<Longrightarrow> first_index P k xs \<noteq> -1 \<Longrightarrow>
   \<exists>n. first_index P k xs = k + int n \<and> n < length xs \<and> P (xs ! n) \<and> (\<forall>j<n. \<not> P (xs ! j))"
proof (induction xs arbitrary: k)
  case (Cons x xs)
  show ?case
  proof (cases "P x")
    case True
    then show ?thesis by (intro exI [of _ 0]) simp
  next
    case False
    have "0 \<le> k + 1" "first_index P (k + 1) xs \<noteq> -1" using Cons.prems False by simp_all
    from Cons.IH [OF this] obtain n where n: "first_index P (k + 1) xs = k + 1 + int n" "n < length xs"
      "P (xs ! n)" "\<forall>j<n. \<not> P (xs ! j)" by blast
    from n False show ?thesis by (intro exI [of _ "Suc n"]) (auto simp: less_Suc_eq_0_disj)
  qed
qed simp

section \<open>Accesses of a buffer given in parts\<close>

lemma rdn_mid: "i = length a \<Longrightarrow> n = length x \<Longrightarrow> rdn (a @ x @ c) i n = Some x"
  by (simp add: rdn_def)

lemma wrn_mid: "i = length a \<Longrightarrow> length y = length x \<Longrightarrow> wrn (a @ x @ c) i y = Some (a @ y @ c)"
  by (simp add: wrn_def)

lemma rd_mid: "i = length a \<Longrightarrow> rd (a @ x # c) i = Some x"
  by (simp add: rd_def)

lemma wr_mid: "i = length a \<Longrightarrow> wr (a @ x # c) i y = Some (a @ y # c)"
  by (simp add: wr_def)

lemma mem_move_right:
  assumes "src = length a" "dst = length a + k" "n = length p" "k \<le> length r"
  shows "mem_move (a @ p @ r) dst src n = Some (a @ take k (p @ r) @ p @ drop k r)"
  using assms by (auto simp: mem_move_def rdn_def wrn_def)

lemma mem_move_left:
  assumes "dst = length a" "src = length a + length j" "n = length p"
  shows "mem_move (a @ j @ p @ r) dst src n = Some (a @ p @ drop (length p) (j @ p) @ r)"
  using assms by (auto simp: mem_move_def rdn_def wrn_def)

text \<open>Every long enough buffer splits into parts of given lengths.\<close>

lemma split_parts:
  assumes "k \<le> length xs"
  obtains a r where "xs = a @ r" "length a = k" "length r = length xs - k"
  using that [of "take k xs" "drop k xs"] assms by simp

lemma split_parts3:
  assumes "k1 + k2 + k3 \<le> length xs"
  obtains a b c r where "xs = a @ b @ c @ r" "length a = k1" "length b = k2" "length c = k3"
    "length r = length xs - (k1 + k2 + k3)"
proof -
  have "k1 \<le> length xs" using assms by linarith
  then obtain a r1 where a: "xs = a @ r1" "length a = k1" "length r1 = length xs - k1" by (rule split_parts)
  have "k2 \<le> length r1" using assms a(3) by linarith
  then obtain b r2 where b: "r1 = b @ r2" "length b = k2" "length r2 = length r1 - k2" by (rule split_parts)
  have "k3 \<le> length r2" using assms a(3) b(3) by linarith
  then obtain c r3 where c: "r2 = c @ r3" "length c = k3" "length r3 = length r2 - k3" by (rule split_parts)
  show thesis
  proof (rule that [of a b c r3])
    show "xs = a @ b @ c @ r3" by (simp only: a(1) b(1) c(1))
    show "length r3 = length xs - (k1 + k2 + k3)" using a(3) b(3) c(3) by linarith
  qed (rule a b c)+
qed

lemma split_parts5:
  assumes "k1 + k2 + k3 + k4 + k5 \<le> length xs"
  obtains a b c d e r where "xs = a @ b @ c @ d @ e @ r" "length a = k1" "length b = k2" "length c = k3"
    "length d = k4" "length e = k5" "length r = length xs - (k1 + k2 + k3 + k4 + k5)"
proof -
  have "k1 + k2 + k3 \<le> length xs" using assms by linarith
  then obtain a b c r1 where a: "xs = a @ b @ c @ r1" "length a = k1" "length b = k2" "length c = k3"
    "length r1 = length xs - (k1 + k2 + k3)" by (rule split_parts3)
  have "k4 \<le> length r1" using assms a(5) by linarith
  then obtain d r2 where d: "r1 = d @ r2" "length d = k4" "length r2 = length r1 - k4" by (rule split_parts)
  have "k5 \<le> length r2" using assms a(5) d(3) by linarith
  then obtain e r3 where e: "r2 = e @ r3" "length e = k5" "length r3 = length r2 - k5" by (rule split_parts)
  show thesis
  proof (rule that [of a b c d e r3])
    show "xs = a @ b @ c @ d @ e @ r3" by (simp only: a(1) d(1) e(1))
    show "length r3 = length xs - (k1 + k2 + k3 + k4 + k5)" using a(5) d(3) e(3) by linarith
  qed (rule a d e)+
qed

lemma mem_move_length: "mem_move b d s n = Some c \<Longrightarrow> length c = length b"
  by (auto simp: mem_move_def mem_simps)

end
