(* ===== verification/Config.thy ===== *)
theory Config
  imports Prelude
begin

text \<open>
  The configuration data of \<open>inc/core/config.h\<close> and the selection functions of \<open>src/db/config.c\<close>:
  CIDR matching, profile selection, the weighted choice of a WAN per flow and the choice of a crypto
  policy. A C array with a count field is the list of its first \<open>count\<close> elements, so a \<open>for\<close> loop up to
  the count is a recursion over the list; an index the C code compares with a count is an \<open>int\<close>.
  IPv4 addresses are the \<open>uint32_t\<close> values of \<open>s_addr\<close> (network order in memory).
\<close>

section \<open>Data\<close>

definition MAX_INTERFACES :: nat where "MAX_INTERFACES = 16"
definition MAX_PROFILE_INTERFACES :: nat where "MAX_PROFILE_INTERFACES = 16"
definition MAX_PROFILES :: nat where "MAX_PROFILES = 32"
definition MAX_CRYPTO_POLICIES :: nat where "MAX_CRYPTO_POLICIES = 128"
definition WAN_REORDER_WINDOW_KB :: int where "WAN_REORDER_WINDOW_KB = 10240"
definition POLICY_PROTO_ANY :: u8 where "POLICY_PROTO_ANY = 0"
definition CRYPTO_MODE_CTR :: int where "CRYPTO_MODE_CTR = 0"
definition CRYPTO_MODE_GCM :: int where "CRYPTO_MODE_GCM = 1"
definition POLICY_ACTION_BYPASS :: int where "POLICY_ACTION_BYPASS = 0"
definition POLICY_ACTION_ENCRYPT_L2 :: int where "POLICY_ACTION_ENCRYPT_L2 = 2"
definition POLICY_ACTION_ENCRYPT_L3 :: int where "POLICY_ACTION_ENCRYPT_L3 = 3"
definition POLICY_ACTION_ENCRYPT_L4 :: int where "POLICY_ACTION_ENCRYPT_L4 = 4"

lemmas policy_consts = POLICY_PROTO_ANY_def CRYPTO_MODE_CTR_def CRYPTO_MODE_GCM_def
  POLICY_ACTION_BYPASS_def POLICY_ACTION_ENCRYPT_L2_def POLICY_ACTION_ENCRYPT_L3_def
  POLICY_ACTION_ENCRYPT_L4_def

record crypto_policy =
  cp_id :: int
  cp_db_id :: int
  cp_priority :: int
  cp_action :: int
  cp_protocol :: u8
  cp_src_port_from :: int
  cp_src_port_to :: int
  cp_dst_port_from :: int
  cp_dst_port_to :: int
  cp_src_any :: bool
  cp_dst_any :: bool
  cp_src_negate :: bool
  cp_dst_negate :: bool
  cp_src_net :: u32
  cp_src_mask :: u32
  cp_dst_net :: u32
  cp_dst_mask :: u32
  cp_crypto_mode :: int
  cp_aes_bits :: int
  cp_nonce_size :: int
  cp_key :: "u8 list"

record profile_config =
  pf_id :: int
  pf_name :: string
  pf_enabled :: bool
  pf_local_indices :: "int list"
  pf_wan_indices :: "int list"
  pf_wan_bandwidth_weight :: "int list"
  pf_policy_indices :: "int list"

record local_config =
  lc_ifname :: string
  lc_ip :: u32
  lc_netmask :: u32
  lc_network :: u32
  lc_src_mac :: "u8 list"
  lc_dst_mac :: "u8 list"
  lc_umem_mb :: u32
  lc_ring_size :: u32
  lc_batch_size :: u32
  lc_frame_size :: u32
  lc_queue_count :: int

record wan_config =
  wc_ifname :: string
  wc_dst_ip :: u32
  wc_src_mac :: "u8 list"
  wc_dst_mac :: "u8 list"
  wc_window_size :: u32
  wc_umem_mb :: u32
  wc_ring_size :: u32
  wc_batch_size :: u32
  wc_frame_size :: u32
  wc_queue_count :: int

record app_config =
  ac_global_frame_size :: u32
  ac_global_batch_size :: u32
  ac_locals :: "local_config list"
  ac_wans :: "wan_config list"
  ac_crypto_enabled :: bool
  ac_crypto_key :: "u8 list"
  ac_encrypt_layer :: int
  ac_fake_ethertype_ipv4 :: u16
  ac_fake_protocol :: u8
  ac_crypto_mode :: int
  ac_nonce_size :: int
  ac_aes_bits :: int
  ac_profiles :: "profile_config list"
  ac_policies :: "crypto_policy list"

section \<open>Masks\<close>

definition ipv4_prefix_to_mask_be :: "int \<Rightarrow> u32" where
  "ipv4_prefix_to_mask_be prefix_len =
     (if prefix_len \<le> 0 then 0
      else if prefix_len \<ge> 32 then htonl 0xFFFFFFFF
      else htonl (push_bit (nat (32 - prefix_len)) 0xFFFFFFFF))"

definition ipv4_mask_be_is_contiguous :: "u32 \<Rightarrow> bool" where
  "ipv4_mask_be_is_contiguous mask_be =
     (let m = htonl mask_be in
      if m = 0 then True else let inv = NOT m in (inv AND (inv + 1)) = 0)"

section \<open>Validation and lookups\<close>

definition umem_ok :: "u32 \<Rightarrow> u32 \<Rightarrow> u32 \<Rightarrow> bool" where
  "umem_ok umem_mb ring_size frame_size =
     (\<not> umem_mb < (ring_size * 2 * frame_size) div (1024 * 1024))"

definition local_valid :: "local_config \<Rightarrow> bool" where
  "local_valid l = (lc_ifname l \<noteq> [] \<and> lc_umem_mb l \<noteq> 0 \<and> lc_ring_size l \<noteq> 0
     \<and> umem_ok (lc_umem_mb l) (lc_ring_size l) (lc_frame_size l))"

definition wan_valid :: "wan_config \<Rightarrow> bool" where
  "wan_valid w = (wc_ifname w \<noteq> [] \<and> wc_umem_mb w \<noteq> 0 \<and> wc_ring_size w \<noteq> 0 \<and> wc_window_size w \<noteq> 0
     \<and> umem_ok (wc_umem_mb w) (wc_ring_size w) (wc_frame_size w))"

definition config_validate :: "app_config \<Rightarrow> int" where
  "config_validate cfg =
     (if ac_global_frame_size cfg = 0 then -1
      else if ac_global_batch_size cfg = 0 then -1
      else if \<not> list_all local_valid (ac_locals cfg) then -1
      else if \<not> list_all wan_valid (ac_wans cfg) then -1
      else 0)"

definition config_find_local_for_ip :: "app_config \<Rightarrow> u32 \<Rightarrow> int" where
  "config_find_local_for_ip cfg dest_ip =
     first_index (\<lambda>l. (dest_ip AND lc_netmask l) = lc_network l) 0 (ac_locals cfg)"

definition cidr_match_with_negate :: "bool \<Rightarrow> bool \<Rightarrow> u32 \<Rightarrow> u32 \<Rightarrow> u32 \<Rightarrow> bool" where
  "cidr_match_with_negate any_flag negate ip net msk =
     (if any_flag then True
      else let in_cidr = ((ip AND msk) = (net AND msk)) in if negate then \<not> in_cidr else in_cidr)"

definition config_select_profile_for_local :: "app_config \<Rightarrow> int \<Rightarrow> int" where
  "config_select_profile_for_local cfg local_idx =
     (if local_idx < 0 \<or> local_idx \<ge> int (length (ac_locals cfg)) then -1
      else first_index (\<lambda>p. pf_enabled p \<and> list_ex (\<lambda>x. x = local_idx) (pf_local_indices p)) 0 (ac_profiles cfg))"

definition config_select_profile_for_wan :: "app_config \<Rightarrow> int \<Rightarrow> int" where
  "config_select_profile_for_wan cfg wan_idx =
     (if wan_idx < 0 \<or> wan_idx \<ge> int (length (ac_wans cfg)) then -1
      else first_index (\<lambda>p. pf_enabled p \<and> list_ex (\<lambda>x. x = wan_idx) (pf_wan_indices p)) 0 (ac_profiles cfg))"

section \<open>Weighted choice of a WAN\<close>

definition flow_hash_u32 :: "u32 \<Rightarrow> u32 \<Rightarrow> u16 \<Rightarrow> u16 \<Rightarrow> u8 \<Rightarrow> u32" where
  "flow_hash_u32 src_ip dst_ip src_port dst_port protocol =
     (let h = src_ip XOR dst_ip XOR push_bit 16 (ucast src_port) XOR ucast dst_port XOR ucast protocol;
          h = h XOR drop_bit 16 h;
          h = h * 0x7feb352d;
          h = h XOR drop_bit 15 h;
          h = h * 0x846ca68b
      in h XOR drop_bit 16 h)"

fun sum_positive :: "int \<Rightarrow> int list \<Rightarrow> int" where
  "sum_positive sumw [] = sumw"
| "sum_positive sumw (w # ws) = sum_positive (if w > 0 then sumw + w else sumw) ws"

text \<open>The slot loop: the WAN index of the first slot whose accumulated weight exceeds \<open>r\<close>.\<close>

fun weighted_slot :: "int \<Rightarrow> int \<Rightarrow> (int \<times> int) list \<Rightarrow> int option" where
  "weighted_slot acc r [] = None"
| "weighted_slot acc r ((idx, w) # ss) =
     (if w \<le> 0 then weighted_slot acc r ss
      else if r < c_u32 (acc + w) then Some idx
      else weighted_slot (acc + w) r ss)"

definition in_wan_range :: "app_config \<Rightarrow> int \<Rightarrow> int" where
  "in_wan_range cfg wan_idx = (if wan_idx < 0 \<or> wan_idx \<ge> int (length (ac_wans cfg)) then -1 else wan_idx)"

definition config_select_wan_for_profile :: "app_config \<Rightarrow> int \<Rightarrow> u32 \<Rightarrow> u32 \<Rightarrow> u16 \<Rightarrow> u16 \<Rightarrow> u8 \<Rightarrow> int" where
  "config_select_wan_for_profile cfg profile_idx src_ip dst_ip src_port dst_port protocol =
     (if profile_idx < 0 \<or> profile_idx \<ge> int (length (ac_profiles cfg)) then -1
      else let p = ac_profiles cfg ! nat profile_idx; n = int (length (pf_wan_indices p)) in
        if n \<le> 0 then -1
        else let h = uint (flow_hash_u32 src_ip dst_ip src_port dst_port protocol);
                 sumw = sum_positive 0 (pf_wan_bandwidth_weight p) in
          if sumw \<le> 0 then in_wan_range cfg (pf_wan_indices p ! nat (h mod c_u32 n))
          else case weighted_slot 0 (h mod c_u32 sumw)
                      (zip (pf_wan_indices p) (pf_wan_bandwidth_weight p)) of
                 Some idx \<Rightarrow> in_wan_range cfg idx
               | None \<Rightarrow> in_wan_range cfg (last (pf_wan_indices p)))"

section \<open>Choice of a crypto policy\<close>

definition port_in_range :: "int \<Rightarrow> int \<Rightarrow> u16 \<Rightarrow> bool" where
  "port_in_range p_from p_to port =
     (if p_from \<ge> 0 \<and> p_to \<ge> 0 then \<not> (uint port < p_from \<or> uint port > p_to) else True)"

definition crypto_policy_match_packet :: "crypto_policy \<Rightarrow> u32 \<Rightarrow> u32 \<Rightarrow> u16 \<Rightarrow> u16 \<Rightarrow> u8 \<Rightarrow> bool" where
  "crypto_policy_match_packet cp src_ip dst_ip src_port dst_port protocol =
     (if \<not> cidr_match_with_negate (cp_src_any cp) (cp_src_negate cp) src_ip (cp_src_net cp) (cp_src_mask cp) then False
      else if \<not> cidr_match_with_negate (cp_dst_any cp) (cp_dst_negate cp) dst_ip (cp_dst_net cp) (cp_dst_mask cp) then False
      else if \<not> port_in_range (cp_src_port_from cp) (cp_src_port_to cp) src_port then False
      else if \<not> port_in_range (cp_dst_port_from cp) (cp_dst_port_to cp) dst_port then False
      else if cp_protocol cp \<noteq> POLICY_PROTO_ANY \<and> cp_protocol cp \<noteq> protocol then False
      else True)"

definition policy_matches_either_way :: "crypto_policy \<Rightarrow> u32 \<Rightarrow> u32 \<Rightarrow> u16 \<Rightarrow> u16 \<Rightarrow> u8 \<Rightarrow> bool" where
  "policy_matches_either_way cp src_ip dst_ip src_port dst_port protocol =
     (if crypto_policy_match_packet cp src_ip dst_ip src_port dst_port protocol then True
      else crypto_policy_match_packet cp dst_ip src_ip dst_port src_port protocol)"

text \<open>One pass over the profile's policy indices. Pass 0 skips the policies with protocol ANY,
  pass 1 the others; the value is the index of the selected policy in the configuration.\<close>

fun policy_pass :: "app_config \<Rightarrow> bool \<Rightarrow> u32 \<Rightarrow> u32 \<Rightarrow> u16 \<Rightarrow> u16 \<Rightarrow> u8 \<Rightarrow> int list \<Rightarrow> nat option" where
  "policy_pass cfg any_pass sip dip sp dp proto [] = None"
| "policy_pass cfg any_pass sip dip sp dp proto (pi # pis) =
     (if pi < 0 \<or> pi \<ge> int (length (ac_policies cfg)) then policy_pass cfg any_pass sip dip sp dp proto pis
      else let cp = ac_policies cfg ! nat pi in
        if (cp_protocol cp = POLICY_PROTO_ANY) \<noteq> any_pass then policy_pass cfg any_pass sip dip sp dp proto pis
        else if policy_matches_either_way cp sip dip sp dp proto then Some (nat pi)
        else policy_pass cfg any_pass sip dip sp dp proto pis)"

definition config_select_crypto_policy :: "app_config \<Rightarrow> int \<Rightarrow> u32 \<Rightarrow> u32 \<Rightarrow> u16 \<Rightarrow> u16 \<Rightarrow> u8 \<Rightarrow> nat option" where
  "config_select_crypto_policy cfg profile_idx src_ip dst_ip src_port dst_port protocol =
     (if profile_idx < 0 \<or> profile_idx \<ge> int (length (ac_profiles cfg)) then None
      else let pis = pf_policy_indices (ac_profiles cfg ! nat profile_idx) in
        case policy_pass cfg False src_ip dst_ip src_port dst_port protocol pis of
          Some i \<Rightarrow> Some i
        | None \<Rightarrow> policy_pass cfg True src_ip dst_ip src_port dst_port protocol pis)"

section \<open>Masks and CIDR membership\<close>

lemma all_ones: "(0xFFFFFFFF::u32) = - 1" by simp
lemma prefix_mask_drop:
  fixes a b :: u32
  assumes "k \<le> 32"
  shows "(a AND push_bit k 0xFFFFFFFF = b AND push_bit k 0xFFFFFFFF) \<longleftrightarrow> drop_bit k a = drop_bit k b"
proof -
  have "(a AND push_bit k 0xFFFFFFFF = b AND push_bit k 0xFFFFFFFF) \<longleftrightarrow> (\<forall>n<32. k \<le> n \<longrightarrow> bit a n = bit b n)"
    unfolding all_ones by (auto simp: bit_eq_iff bit_simps not_less)
  also have "\<dots> \<longleftrightarrow> drop_bit k a = drop_bit k b"
  proof
    assume h: "\<forall>n<32. k \<le> n \<longrightarrow> bit a n = bit b n"
    have "bit a (k + n) = bit b (k + n)" for n
      using h by (cases "k + n < 32") (auto dest: bit_imp_le_length)
    then show "drop_bit k a = drop_bit k b" by (simp add: bit_eq_iff bit_simps)
  next
    assume h: "drop_bit k a = drop_bit k b"
    show "\<forall>n<32. k \<le> n \<longrightarrow> bit a n = bit b n"
    proof (intro allI impI)
      fix n assume "n < 32" "k \<le> n"
      have "bit (drop_bit k a) (n - k) = bit (drop_bit k b) (n - k)" using h by simp
      then show "bit a n = bit b n" using \<open>k \<le> n\<close> by (simp add: bit_simps)
    qed
  qed
  finally show ?thesis .
qed

lemma contig_mask: "k \<le> 32 \<Longrightarrow> NOT (push_bit k (0xFFFFFFFF :: u32)) = mask k"
  unfolding all_ones by (rule bit_word_eqI) (auto simp: bit_simps)

lemma and_mask_zero: "(mask k :: u32) AND (mask k + 1) = 0"
proof -
  have "mask k + 1 = (2 ^ k :: u32)" by (simp add: mask_eq_exp_minus_1)
  then show ?thesis by (simp add: and_exp_eq_0_iff_not_bit bit_mask_iff)
qed

lemma prefix_mask_contiguous: "ipv4_mask_be_is_contiguous (ipv4_prefix_to_mask_be n)"
proof -
  have z: "htonl 0 = 0" by (simp add: htonl_def)
  have "k \<le> 32 \<Longrightarrow> NOT (push_bit k 0xFFFFFFFF) AND (NOT (push_bit k (0xFFFFFFFF :: u32)) + 1) = 0" for k
    by (simp only: contig_mask and_mask_zero)
  then show ?thesis
    by (simp add: ipv4_mask_be_is_contiguous_def ipv4_prefix_to_mask_be_def Let_def z)
qed

lemma and_htonl_eq: "(a AND htonl m = b AND htonl m) \<longleftrightarrow> (htonl a AND m = htonl b AND m)"
  by (metis htonl_and htonl_htonl)

lemma cidr_prefix_match:
  assumes "0 < n" "n \<le> 32"
  shows "cidr_match_with_negate False neg ip net (ipv4_prefix_to_mask_be n) \<longleftrightarrow>
    neg \<noteq> (drop_bit (nat (32 - n)) (htonl ip) = drop_bit (nat (32 - n)) (htonl net))"
proof -
  have e: "ipv4_prefix_to_mask_be n = htonl (push_bit (nat (32 - n)) 0xFFFFFFFF)"
    using assms by (cases "n = 32") (simp_all add: ipv4_prefix_to_mask_be_def)
  have k: "nat (32 - n) \<le> 32" using assms by simp
  show ?thesis
    by (simp add: cidr_match_with_negate_def Let_def e and_htonl_eq prefix_mask_drop [OF k])
qed

section \<open>The weighted choice is proportional\<close>

definition slot_share :: "int \<Rightarrow> (int \<times> int) list \<Rightarrow> nat" where
  "slot_share x ss = sum_list (map (\<lambda>(i, w). if i = x then nat w else 0) ss)"

lemma sum_positive_shift: "sum_positive a ws = a + sum_positive 0 ws"
proof (induction ws arbitrary: a)
  case (Cons w ws)
  show ?case using Cons.IH [of "a + w"] Cons.IH [of w] Cons.IH [of a] by simp
qed simp

lemma sum_positive_ge: "a \<le> sum_positive a ws"
  by (induction ws arbitrary: a) (simp_all, smt (verit))

lemma weighted_slot_card:
  assumes "length idx = length ws" "0 \<le> acc" "sum_positive acc ws < 2 ^ 32"
  shows "card {r. acc \<le> r \<and> r < sum_positive acc ws \<and> weighted_slot acc r (zip idx ws) = Some x}
         = slot_share x (zip idx ws)"
  using assms
proof (induction idx ws arbitrary: acc rule: list_induct2)
  case Nil
  then show ?case by (simp add: slot_share_def)
next
  case (Cons i idx w ws)
  show ?case
  proof (cases "w \<le> 0")
    case True
    with Cons show ?thesis by (simp add: slot_share_def)
  next
    case False
    let ?T = "sum_positive (acc + w) ws"
    have T: "acc + w \<le> ?T" by (rule sum_positive_ge)
    with Cons.prems False have c: "c_u32 (acc + w) = acc + w" by (simp add: c_u32_id)
    let ?R = "{r. acc + w \<le> r \<and> r < ?T \<and> weighted_slot (acc + w) r (zip idx ws) = Some x}"
    let ?L = "{r. acc \<le> r \<and> r < acc + w \<and> i = x}"
    have split: "{r. acc \<le> r \<and> r < ?T \<and> weighted_slot acc r (zip (i # idx) (w # ws)) = Some x} = ?L \<union> ?R"
      using False T by (auto simp: c)
    have fR: "finite ?R" by (rule finite_subset [of _ "{acc + w..<?T}"]) auto
    have L: "?L = (if i = x then {acc..<acc + w} else {})" by auto
    have "card (?L \<union> ?R) = card ?L + card ?R"
      by (rule card_Un_disjoint) (use fR in \<open>auto simp: L\<close>)
    moreover have "card ?R = slot_share x (zip idx ws)"
      using Cons.prems False by (intro Cons.IH) auto
    moreover have "card ?L = (if i = x then nat w else 0)" by (simp add: L)
    moreover have "sum_positive acc (w # ws) = ?T" using False by simp
    ultimately show ?thesis using False by (simp only: split) (simp add: slot_share_def)
  qed
qed

lemma weighted_slot_total:
  "length idx = length ws \<Longrightarrow> 0 \<le> acc \<Longrightarrow> acc \<le> r \<Longrightarrow> r < sum_positive acc ws \<Longrightarrow> sum_positive acc ws < 2 ^ 32
   \<Longrightarrow> \<exists>x. weighted_slot acc r (zip idx ws) = Some x \<and> x \<in> set idx"
proof (induction idx ws arbitrary: acc rule: list_induct2)
  case (Cons i idx w ws)
  have "acc + w \<le> sum_positive (acc + w) ws" by (rule sum_positive_ge)
  then show ?case using Cons.prems Cons.IH [of acc] Cons.IH [of "acc + w"] by (auto simp: c_u32_id)
qed simp

section \<open>A sample configuration for the witnesses\<close>

definition sample_wan :: wan_config where
  "sample_wan = \<lparr> wc_ifname = ''wan0'', wc_dst_ip = 0, wc_src_mac = [2, 0, 0, 0, 0, 1], wc_dst_mac = [2, 0, 0, 0, 0, 2],
     wc_window_size = 10485760, wc_umem_mb = 256, wc_ring_size = 32768, wc_batch_size = 64,
     wc_frame_size = 4096, wc_queue_count = 1 \<rparr>"

definition sample_local :: local_config where
  "sample_local = \<lparr> lc_ifname = ''lan0'', lc_ip = 0x0100A8C0, lc_netmask = 0x00FFFFFF, lc_network = 0x0000A8C0,
     lc_src_mac = [2, 0, 0, 0, 0, 3], lc_dst_mac = [2, 0, 0, 0, 0, 4], lc_umem_mb = 2048,
     lc_ring_size = 262144, lc_batch_size = 64, lc_frame_size = 4096, lc_queue_count = 1 \<rparr>"

definition sample_profile :: profile_config where
  "sample_profile = \<lparr> pf_id = 1, pf_name = ''p'', pf_enabled = True, pf_local_indices = [0],
     pf_wan_indices = [0, 1], pf_wan_bandwidth_weight = [1, 3], pf_policy_indices = [0, 1] \<rparr>"

definition sample_policy :: "int \<Rightarrow> u8 \<Rightarrow> int \<Rightarrow> crypto_policy" where
  "sample_policy i proto act = \<lparr> cp_id = i, cp_db_id = i, cp_priority = 0, cp_action = act, cp_protocol = proto,
     cp_src_port_from = -1, cp_src_port_to = -1, cp_dst_port_from = -1, cp_dst_port_to = -1,
     cp_src_any = True, cp_dst_any = True, cp_src_negate = False, cp_dst_negate = False,
     cp_src_net = 0, cp_src_mask = 0, cp_dst_net = 0, cp_dst_mask = 0,
     cp_crypto_mode = 1, cp_aes_bits = 256, cp_nonce_size = 12, cp_key = replicate 32 7 \<rparr>"

definition sample_config :: app_config where
  "sample_config = \<lparr> ac_global_frame_size = 4096, ac_global_batch_size = 64, ac_locals = [sample_local],
     ac_wans = [sample_wan, sample_wan], ac_crypto_enabled = True, ac_crypto_key = replicate 32 7,
     ac_encrypt_layer = 3, ac_fake_ethertype_ipv4 = 0x88B5, ac_fake_protocol = 99, ac_crypto_mode = 1,
     ac_nonce_size = 12, ac_aes_bits = 256, ac_profiles = [sample_profile],
     ac_policies = [sample_policy 1 0 3, sample_policy 2 6 4] \<rparr>"

lemmas sample_defs = sample_wan_def sample_local_def sample_profile_def sample_policy_def sample_config_def

section \<open>Properties of the selections\<close>

lemma in_wan_range_cases: "in_wan_range cfg x = -1 \<or> (in_wan_range cfg x = x \<and> 0 \<le> x \<and> x < int (length (ac_wans cfg)))"
  by (simp add: in_wan_range_def)

lemma weighted_slot_mem: "weighted_slot acc r ss = Some x \<Longrightarrow> x \<in> fst ` set ss"
  by (induction acc r ss rule: weighted_slot.induct) (auto split: if_splits)

lemma zip_fst_mem: "x \<in> fst ` set (zip xs ys) \<Longrightarrow> x \<in> set xs"
  by (auto dest: set_zip_leftD)

lemma wan_choice_listed:
  assumes "length (pf_wan_indices (ac_profiles cfg ! nat pidx)) \<le> MAX_PROFILE_INTERFACES"
  shows "config_select_wan_for_profile cfg pidx sip dip sp dp proto = -1 \<or>
    (\<exists>x \<in> set (pf_wan_indices (ac_profiles cfg ! nat pidx)).
       config_select_wan_for_profile cfg pidx sip dip sp dp proto = in_wan_range cfg x)"
proof (cases "pidx < 0 \<or> pidx \<ge> int (length (ac_profiles cfg)) \<or> pf_wan_indices (ac_profiles cfg ! nat pidx) = []")
  case True
  then show ?thesis by (auto simp: config_select_wan_for_profile_def)
next
  case False
  define p where "p = ac_profiles cfg ! nat pidx"
  define h where "h = uint (flow_hash_u32 sip dip sp dp proto)"
  define ws where "ws = weighted_slot 0 (h mod c_u32 (sum_positive 0 (pf_wan_bandwidth_weight p)))
    (zip (pf_wan_indices p) (pf_wan_bandwidth_weight p))"
  have n: "c_u32 (int (length (pf_wan_indices p))) = int (length (pf_wan_indices p))"
    using assms by (simp add: c_u32_id p_def MAX_PROFILE_INTERFACES_def)
  have m: "nat (h mod int (length (pf_wan_indices p))) < length (pf_wan_indices p)"
    using False by (simp add: nat_less_iff p_def)
  have v: "config_select_wan_for_profile cfg pidx sip dip sp dp proto =
    (if sum_positive 0 (pf_wan_bandwidth_weight p) \<le> 0
     then in_wan_range cfg (pf_wan_indices p ! nat (h mod int (length (pf_wan_indices p))))
     else case ws of Some idx \<Rightarrow> in_wan_range cfg idx | None \<Rightarrow> in_wan_range cfg (last (pf_wan_indices p)))"
    using False n unfolding ws_def h_def p_def by (simp add: config_select_wan_for_profile_def Let_def)
  have w: "ws = Some x \<Longrightarrow> x \<in> set (pf_wan_indices p)" for x
    unfolding ws_def by (auto dest!: weighted_slot_mem zip_fst_mem)
  have l: "last (pf_wan_indices p) \<in> set (pf_wan_indices p)" using False by (simp add: p_def)
  show ?thesis unfolding v p_def [symmetric] using m w l by (auto split: option.splits intro: nth_mem)
qed

text \<open>The function \<open>config_select_wan_for_profile\<close> yields -1 or a WAN that the profile lists and that exists in
  the configuration, for every flow and whatever weights the profile carries.\<close>

lemma wan_selection_allowed:
  assumes "length (pf_wan_indices (ac_profiles cfg ! nat pidx)) \<le> MAX_PROFILE_INTERFACES"
  shows "config_select_wan_for_profile cfg pidx sip dip sp dp proto = -1 \<or>
    (config_select_wan_for_profile cfg pidx sip dip sp dp proto
       \<in> set (pf_wan_indices (ac_profiles cfg ! nat pidx)) \<and>
     0 \<le> config_select_wan_for_profile cfg pidx sip dip sp dp proto \<and>
     config_select_wan_for_profile cfg pidx sip dip sp dp proto < int (length (ac_wans cfg)))"
  using wan_choice_listed [OF assms, of sip dip sp dp proto] in_wan_range_cases [of cfg] by metis

text \<open>The weighted choice is proportional: when the positive weights of a profile sum to \<open>W\<close>, the
  WAN is a function of the flow hash modulo \<open>W\<close>, and of the \<open>W\<close> residues exactly as many lead to a WAN
  as the sum of the weights of its slots.\<close>

lemma wan_selection_proportional:
  assumes "0 \<le> pidx" "pidx < int (length (ac_profiles cfg))"
    and "p = ac_profiles cfg ! nat pidx"
    and "length (pf_wan_indices p) = length (pf_wan_bandwidth_weight p)"
    and "W = sum_positive 0 (pf_wan_bandwidth_weight p)" "0 < W" "W < 2 ^ 31"
  shows "(\<exists>x \<in> set (pf_wan_indices p).
       weighted_slot 0 (uint (flow_hash_u32 sip dip sp dp proto) mod W)
         (zip (pf_wan_indices p) (pf_wan_bandwidth_weight p)) = Some x \<and>
       config_select_wan_for_profile cfg pidx sip dip sp dp proto = in_wan_range cfg x) \<and>
    card {r. 0 \<le> r \<and> r < W \<and>
       weighted_slot 0 r (zip (pf_wan_indices p) (pf_wan_bandwidth_weight p)) = Some w}
     = slot_share w (zip (pf_wan_indices p) (pf_wan_bandwidth_weight p))"
proof -
  let ?h = "uint (flow_hash_u32 sip dip sp dp proto)"
  have "\<exists>x. weighted_slot 0 (?h mod W) (zip (pf_wan_indices p) (pf_wan_bandwidth_weight p)) = Some x
      \<and> x \<in> set (pf_wan_indices p)"
    by (rule weighted_slot_total) (use assms in auto)
  then obtain x where x: "weighted_slot 0 (?h mod W) (zip (pf_wan_indices p) (pf_wan_bandwidth_weight p)) = Some x"
    "x \<in> set (pf_wan_indices p)" by blast
  have ne: "pf_wan_indices p \<noteq> []" using x(2) by auto
  have "config_select_wan_for_profile cfg pidx sip dip sp dp proto = in_wan_range cfg x"
    using assms x ne by (simp add: config_select_wan_for_profile_def Let_def c_u32_id not_le)
  moreover have "card {r. 0 \<le> r \<and> r < W \<and>
       weighted_slot 0 r (zip (pf_wan_indices p) (pf_wan_bandwidth_weight p)) = Some w}
     = slot_share w (zip (pf_wan_indices p) (pf_wan_bandwidth_weight p))"
    unfolding assms(5) by (rule weighted_slot_card) (use assms in auto)
  ultimately show ?thesis using x by blast
qed

definition policy_listed :: "app_config \<Rightarrow> int \<Rightarrow> bool" where
  "policy_listed cfg pi = (0 \<le> pi \<and> pi < int (length (ac_policies cfg)))"

definition policy_is_any :: "app_config \<Rightarrow> int \<Rightarrow> bool" where
  "policy_is_any cfg pi = (cp_protocol (ac_policies cfg ! nat pi) = POLICY_PROTO_ANY)"

text \<open>The reference order: the listed policies for one protocol first, then the ones for any protocol,
  each group in list order.\<close>

definition specific_first :: "app_config \<Rightarrow> int list \<Rightarrow> int list" where
  "specific_first cfg pis = (let vs = filter (policy_listed cfg) pis in
     filter (\<lambda>pi. \<not> policy_is_any cfg pi) vs @ filter (policy_is_any cfg) vs)"

lemma policy_pass_find:
  "policy_pass cfg ap sip dip sp dp proto pis = map_option nat
     (List.find (\<lambda>pi. policy_matches_either_way (ac_policies cfg ! nat pi) sip dip sp dp proto)
       (filter (\<lambda>pi. policy_is_any cfg pi = ap) (filter (policy_listed cfg) pis)))"
  by (induction pis) (auto simp: policy_listed_def policy_is_any_def Let_def)

lemma find_append: "List.find P (xs @ ys) = (case List.find P xs of Some x \<Rightarrow> Some x | None \<Rightarrow> List.find P ys)"
  by (induction xs) auto

lemma policy_pass_swap:
  "policy_pass cfg ap dip sip dp sp proto pis = policy_pass cfg ap sip dip sp dp proto pis"
  by (induction pis) (auto simp: Let_def policy_matches_either_way_def)

text \<open>The two-pass loop of \<open>config_select_crypto_policy\<close> is a first match over one list: the valid
  policies of the profile for a specific protocol, then its policies for any protocol. It selects
  nothing exactly when no valid policy of the profile matches the flow.\<close>

lemma policy_selection_first_match:
  "config_select_crypto_policy cfg pidx sip dip sp dp proto =
     (if 0 \<le> pidx \<and> pidx < int (length (ac_profiles cfg))
      then map_option nat
        (List.find (\<lambda>pi. policy_matches_either_way (ac_policies cfg ! nat pi) sip dip sp dp proto)
           (specific_first cfg (pf_policy_indices (ac_profiles cfg ! nat pidx))))
      else None)"
  by (auto simp: config_select_crypto_policy_def policy_pass_find specific_first_def Let_def find_append
      split: option.splits)

text \<open>The policy of a flow does not depend on the direction: the packets from A to B and the packets
  from B to A select the same policy, so the receiving side decrypts with the policy that encrypted.\<close>

lemma policy_selection_symmetric:
  "config_select_crypto_policy cfg pidx dip sip dp sp proto
   = config_select_crypto_policy cfg pidx sip dip sp dp proto"
  unfolding config_select_crypto_policy_def policy_pass_swap [of cfg _ dip sip] by (rule refl)


end
