(* ===== verification/PacketCrypto.thy ===== *)
theory PacketCrypto
  imports Prelude Config
begin

text \<open>
  \<open>src/crypto/packet_crypto.c\<close>: the per-thread crypto state, nonces, the wire headers, the calls of
  AES-CTR and AES-GCM with their key caches, and the Internet checksums. OpenSSL is the parameter
  \<open>evp_lib\<close>: what its calls return for a cipher width, a key, an IV and the data. One thread is
  modelled, so the thread-local variables are fields of one state. Null pointers are not modelled;
  the checks of \<open>ctx->initialized\<close> are.
\<close>

section \<open>OpenSSL\<close>

record evp_lib =
  evp_ctr :: "bool \<Rightarrow> u8 list \<Rightarrow> u8 list \<Rightarrow> u8 list \<Rightarrow> u8 list \<times> bool"
  evp_gcm_enc :: "bool \<Rightarrow> u8 list \<Rightarrow> u8 list \<Rightarrow> u8 list \<Rightarrow> u8 list \<times> u8 list \<times> bool"
  evp_gcm_dec :: "bool \<Rightarrow> u8 list \<Rightarrow> u8 list \<Rightarrow> u8 list \<Rightarrow> u8 list \<Rightarrow> u8 list \<times> bool"
  evp_hmac :: "u8 list \<Rightarrow> u8 list \<Rightarrow> u8 list"
  evp_rand :: "u8 list"

text \<open>The first argument of a cipher says whether it is the 256-bit one. Ciphers preserve the length
  of the data, CTR is its own inverse, GCM decryption of an encryption under the same key and nonce
  returns the plaintext and accepts the tag; HMAC-SHA256 has 32 bytes, the salt 16.\<close>

definition evp_ok :: "evp_lib \<Rightarrow> bool" where
  "evp_ok lib = (
     (\<forall>w k iv d. snd (evp_ctr lib w k iv d) \<and> length (fst (evp_ctr lib w k iv d)) = length d
        \<and> fst (evp_ctr lib w k iv (fst (evp_ctr lib w k iv d))) = d) \<and>
     (\<forall>w k n d. snd (snd (evp_gcm_enc lib w k n d)) \<and> length (fst (evp_gcm_enc lib w k n d)) = length d
        \<and> length (fst (snd (evp_gcm_enc lib w k n d))) = 16
        \<and> evp_gcm_dec lib w k n (fst (evp_gcm_enc lib w k n d)) (fst (snd (evp_gcm_enc lib w k n d))) = (d, True)) \<and>
     (\<forall>w k n d t. length (fst (evp_gcm_dec lib w k n d t)) = length d) \<and>
     (\<forall>k m. length (evp_hmac lib k m) = 32) \<and> length (evp_rand lib) = 16)"

text \<open>A library that satisfies the laws, for the witnesses: a keyed XOR and a tag of the nonce.\<close>

definition toy_ctr :: "u8 list \<Rightarrow> u8 list \<Rightarrow> u8 list" where
  "toy_ctr k d = map (\<lambda>b. b XOR 0x5A) d"

definition toy_lib :: evp_lib where
  "toy_lib = \<lparr> evp_ctr = (\<lambda>w k iv d. (toy_ctr k d, True)),
     evp_gcm_enc = (\<lambda>w k n d. (toy_ctr k d, replicate 16 (if w then 0xC3 else 0x3C), True)),
     evp_gcm_dec = (\<lambda>w k n d t. (toy_ctr k d, t = replicate 16 (if w then 0xC3 else 0x3C))),
     evp_hmac = (\<lambda>k m. replicate 32 (k ! 0)), evp_rand = replicate 16 0x11 \<rparr>"

lemma toy_ctr_inv [simp]: "toy_ctr k (toy_ctr k d) = d"
proof -
  have "(\<lambda>b :: u8. (b XOR 0x5A) XOR 0x5A) = id" by (auto simp: xor.assoc)
  then show ?thesis by (simp add: toy_ctr_def comp_def)
qed

lemma toy_lib_ok: "evp_ok toy_lib"
  by (simp add: evp_ok_def toy_lib_def) (simp add: toy_ctr_def)

section \<open>State\<close>

definition AES_MAX_KEY_SIZE :: nat where "AES_MAX_KEY_SIZE = 32"
definition AES128_IV_SIZE :: nat where "AES128_IV_SIZE = 16"
definition AES128_GCM_TAG_SIZE :: nat where "AES128_GCM_TAG_SIZE = 16"
definition ETH_HEADER_SIZE :: nat where "ETH_HEADER_SIZE = 14"
definition PROTO_FLAG_IPV4 :: u8 where "PROTO_FLAG_IPV4 = 0"
definition KEY_SLOT_PREV :: int where "KEY_SLOT_PREV = 0"
definition KEY_SLOT_CURRENT :: int where "KEY_SLOT_CURRENT = 1"
definition KEY_SLOT_NEXT :: int where "KEY_SLOT_NEXT = 2"
definition KEY_SLOT_COUNT :: int where "KEY_SLOT_COUNT = 3"

lemmas crypto_consts = AES_MAX_KEY_SIZE_def AES128_IV_SIZE_def AES128_GCM_TAG_SIZE_def
  ETH_HEADER_SIZE_def PROTO_FLAG_IPV4_def KEY_SLOT_PREV_def KEY_SLOT_CURRENT_def KEY_SLOT_NEXT_def
  KEY_SLOT_COUNT_def

record packet_crypto_ctx =
  pc_master_key :: "u8 list"
  pc_keys :: "u8 list list"
  pc_initialized :: bool

text \<open>The cache of one direction of GCM: the key, the cached flag, the nonce length, and the cipher
  and key that the OpenSSL context itself holds since its last full initialisation.\<close>

record gcm_cache =
  gc_key :: "u8 list"
  gc_cached :: bool
  gc_nonce_len :: nat
  gc_ctx :: "(bool \<times> u8 list) option"

record crypto_state =
  g_fake_ethertype_ipv4 :: u16
  g_fake_protocol :: u8
  g_encrypt_layer :: int
  g_crypto_mode :: int
  g_nonce_size :: nat
  g_aes_bits :: int
  g_policy_id :: u8
  g_nonce_counter :: u64
  tls_enc :: gcm_cache
  tls_dec :: gcm_cache
  tls_nonce_salt :: "u8 list"
  tls_salt_initialized :: bool

definition gcm_cache_init :: gcm_cache where
  "gcm_cache_init = \<lparr> gc_key = replicate 32 0, gc_cached = False, gc_nonce_len = 0, gc_ctx = None \<rparr>"

definition crypto_state_init :: crypto_state where
  "crypto_state_init = \<lparr> g_fake_ethertype_ipv4 = 0, g_fake_protocol = 99, g_encrypt_layer = 0,
     g_crypto_mode = 0, g_nonce_size = 12, g_aes_bits = 128, g_policy_id = 0, g_nonce_counter = 0,
     tls_enc = gcm_cache_init, tls_dec = gcm_cache_init, tls_nonce_salt = replicate 16 0,
     tls_salt_initialized = False \<rparr>"

definition packet_crypto_set_fake_ethertype :: "u16 \<Rightarrow> crypto_state \<Rightarrow> crypto_state" where
  "packet_crypto_set_fake_ethertype v st = st\<lparr>g_fake_ethertype_ipv4 := v\<rparr>"
definition packet_crypto_set_fake_protocol :: "u8 \<Rightarrow> crypto_state \<Rightarrow> crypto_state" where
  "packet_crypto_set_fake_protocol v st = st\<lparr>g_fake_protocol := v\<rparr>"
definition packet_crypto_set_encrypt_layer :: "int \<Rightarrow> crypto_state \<Rightarrow> crypto_state" where
  "packet_crypto_set_encrypt_layer v st = st\<lparr>g_encrypt_layer := v\<rparr>"
definition packet_crypto_set_mode :: "int \<Rightarrow> crypto_state \<Rightarrow> crypto_state" where
  "packet_crypto_set_mode v st = st\<lparr>g_crypto_mode := v\<rparr>"
definition packet_crypto_set_nonce_size :: "nat \<Rightarrow> crypto_state \<Rightarrow> crypto_state" where
  "packet_crypto_set_nonce_size v st = st\<lparr>g_nonce_size := v\<rparr>"
definition packet_crypto_set_aes_bits :: "int \<Rightarrow> crypto_state \<Rightarrow> crypto_state" where
  "packet_crypto_set_aes_bits v st = st\<lparr>g_aes_bits := v\<rparr>"
definition packet_crypto_set_policy_id :: "u8 \<Rightarrow> crypto_state \<Rightarrow> crypto_state" where
  "packet_crypto_set_policy_id v st = st\<lparr>g_policy_id := v\<rparr>"

lemmas crypto_setters = packet_crypto_set_fake_ethertype_def packet_crypto_set_fake_protocol_def
  packet_crypto_set_encrypt_layer_def packet_crypto_set_mode_def packet_crypto_set_nonce_size_def
  packet_crypto_set_aes_bits_def packet_crypto_set_policy_id_def

definition aes_256 :: "crypto_state \<Rightarrow> bool" where
  "aes_256 st = (g_aes_bits st = 256)"

definition get_key_size :: "crypto_state \<Rightarrow> nat" where
  "get_key_size st = (if g_aes_bits st = 256 then 32 else 16)"

definition is_gcm :: "crypto_state \<Rightarrow> bool" where
  "is_gcm st = (g_crypto_mode st = CRYPTO_MODE_GCM)"

definition packet_crypto_get_tunnel_hdr_size :: "crypto_state \<Rightarrow> nat" where
  "packet_crypto_get_tunnel_hdr_size st = g_nonce_size st + 2"

section \<open>Keys\<close>

definition epoch_bytes :: "u64 \<Rightarrow> u8 list" where
  "epoch_bytes epoch = map (\<lambda>i. ucast (drop_bit (i * 8) epoch)) [0..<8]"

definition derive_key :: "evp_lib \<Rightarrow> crypto_state \<Rightarrow> u8 list \<Rightarrow> u64 \<Rightarrow> u8 list \<Rightarrow> u8 list" where
  "derive_key lib st master epoch out_key =
     take (get_key_size st) (evp_hmac lib (take (get_key_size st) master) (epoch_bytes epoch))
     @ drop (get_key_size st) out_key"

definition packet_crypto_reset_counter :: "crypto_state \<Rightarrow> crypto_state" where
  "packet_crypto_reset_counter st = st\<lparr>g_nonce_counter := 0\<rparr>"

definition packet_crypto_next_counter :: "crypto_state \<Rightarrow> u32 \<times> crypto_state" where
  "packet_crypto_next_counter st =
     (ucast (g_nonce_counter st AND 0x7FFFFFFF), st\<lparr>g_nonce_counter := g_nonce_counter st + 1\<rparr>)"

definition packet_crypto_init :: "evp_lib \<Rightarrow> crypto_state \<Rightarrow> u8 list \<Rightarrow> packet_crypto_ctx \<times> crypto_state" where
  "packet_crypto_init lib st master_key =
     (let mk = take (get_key_size st) master_key @ drop (get_key_size st) (replicate AES_MAX_KEY_SIZE 0);
          k = derive_key lib st mk 0 (replicate AES_MAX_KEY_SIZE 0)
      in (\<lparr> pc_master_key = mk, pc_keys = [k, k, k], pc_initialized = True \<rparr>,
          packet_crypto_reset_counter st))"

definition packet_crypto_cleanup :: "packet_crypto_ctx \<Rightarrow> crypto_state \<Rightarrow> packet_crypto_ctx \<times> crypto_state" where
  "packet_crypto_cleanup ctx st =
     (ctx\<lparr> pc_master_key := replicate 32 0, pc_keys := replicate 3 (replicate 32 0), pc_initialized := False \<rparr>,
      st\<lparr> tls_enc := (tls_enc st)\<lparr> gc_key := replicate 32 0, gc_cached := False, gc_ctx := None \<rparr>,
          tls_dec := (tls_dec st)\<lparr> gc_key := replicate 32 0, gc_cached := False, gc_ctx := None \<rparr> \<rparr>)"

definition packet_crypto_get_key :: "packet_crypto_ctx \<Rightarrow> int \<Rightarrow> u8 list option" where
  "packet_crypto_get_key ctx slot =
     (if slot < 0 \<or> slot \<ge> KEY_SLOT_COUNT then None else Some (pc_keys ctx ! nat slot))"

section \<open>Ciphers\<close>

text \<open>The data is the range of \<open>len\<close> bytes at \<open>off\<close> of the packet buffer, encrypted in place. The first
  component is the C return value.\<close>

definition crypto_aes_ctr_with_key ::
  "evp_lib \<Rightarrow> crypto_state \<Rightarrow> u8 list \<Rightarrow> u8 list \<Rightarrow> buf \<Rightarrow> nat \<Rightarrow> int \<Rightarrow> (int \<times> buf) option" where
  "crypto_aes_ctr_with_key lib st key iv b off len =
     (if len \<le> 0 then Some (0, b)
      else do {
        d \<leftarrow> rdn b off (nat len);
        let (d', ok) = evp_ctr lib (aes_256 st) (take (get_key_size st) key) iv d;
        b' \<leftarrow> wrn b off d';
        Some (if ok then 0 else -1, b') })"

definition gcm_key_changed :: "crypto_state \<Rightarrow> gcm_cache \<Rightarrow> u8 list \<Rightarrow> nat \<Rightarrow> bool" where
  "gcm_key_changed st c key nonce_len =
     (\<not> gc_cached c \<or> take (get_key_size st) (gc_key c) \<noteq> take (get_key_size st) key
      \<or> gc_nonce_len c \<noteq> nonce_len)"

text \<open>The context after the conditional initialisation: a full one installs cipher and key, otherwise
  the ones of the last full initialisation stay.\<close>

definition gcm_init :: "crypto_state \<Rightarrow> gcm_cache \<Rightarrow> u8 list \<Rightarrow> nat \<Rightarrow> gcm_cache" where
  "gcm_init st c key nonce_len =
     (if gcm_key_changed st c key nonce_len
      then c\<lparr> gc_key := take (get_key_size st) key @ drop (get_key_size st) (gc_key c),
              gc_cached := True, gc_nonce_len := nonce_len,
              gc_ctx := Some (aes_256 st, take (get_key_size st) key) \<rparr>
      else c)"

definition crypto_aes_gcm_encrypt ::
  "evp_lib \<Rightarrow> crypto_state \<Rightarrow> u8 list \<Rightarrow> u8 list \<Rightarrow> nat \<Rightarrow> buf \<Rightarrow> nat \<Rightarrow> int \<Rightarrow> u8 list
     \<Rightarrow> (int \<times> crypto_state \<times> buf \<times> u8 list) option" where
  "crypto_aes_gcm_encrypt lib st key nonce nonce_len b off len tag =
     (if len \<le> 0 then Some (0, st, b, tag)
      else let c = gcm_init st (tls_enc st) key nonce_len; st' = st\<lparr>tls_enc := c\<rparr> in
        case gc_ctx c of
          None \<Rightarrow> Some (-1, st', b, tag)
        | Some (w, k) \<Rightarrow> do {
            d \<leftarrow> rdn b off (nat len);
            let (d', t, ok) = evp_gcm_enc lib w k (take nonce_len nonce) d;
            b' \<leftarrow> wrn b off d';
            Some (if ok then 0 else -1, st', b', if ok then t else tag) })"

definition crypto_aes_gcm_decrypt ::
  "evp_lib \<Rightarrow> crypto_state \<Rightarrow> u8 list \<Rightarrow> u8 list \<Rightarrow> nat \<Rightarrow> buf \<Rightarrow> nat \<Rightarrow> int \<Rightarrow> u8 list
     \<Rightarrow> (int \<times> crypto_state \<times> buf) option" where
  "crypto_aes_gcm_decrypt lib st key nonce nonce_len b off len tag =
     (if len \<le> 0 then Some (0, st, b)
      else let c = gcm_init st (tls_dec st) key nonce_len; st' = st\<lparr>tls_dec := c\<rparr> in
        case gc_ctx c of
          None \<Rightarrow> Some (-1, st', b)
        | Some (w, k) \<Rightarrow> do {
            d \<leftarrow> rdn b off (nat len);
            let (d', ok) = evp_gcm_dec lib w k (take nonce_len nonce) d tag;
            b' \<leftarrow> wrn b off d';
            Some (if ok then 0 else -1, st', b') })"

section \<open>Nonces and wire headers\<close>

text \<open>\<open>out_nonce\<close> is a local array of 16 bytes: a larger nonce size writes past it. The bytes after the
  nonce keep the value of the array, which the callers leave uninitialised and never read; it is zero
  here.\<close>

definition nonce_prefix :: "u32 \<Rightarrow> u8 \<Rightarrow> u8 list" where
  "nonce_prefix counter proto_flag =
     [push_bit 7 proto_flag OR ucast (drop_bit 24 counter AND 0x7F),
      ucast (drop_bit 16 counter AND 0xFF), ucast (drop_bit 8 counter AND 0xFF), ucast (counter AND 0xFF)]"

definition crypto_generate_nonce ::
  "evp_lib \<Rightarrow> crypto_state \<Rightarrow> u32 \<Rightarrow> u8 \<Rightarrow> (u8 list \<times> nat \<times> crypto_state) option" where
  "crypto_generate_nonce lib st counter proto_flag =
     (let ns = g_nonce_size st;
          st' = (if ns > 4 \<and> \<not> tls_salt_initialized st
                 then st\<lparr>tls_nonce_salt := evp_rand lib, tls_salt_initialized := True\<rparr> else st);
          nlen = (if g_crypto_mode st = CRYPTO_MODE_CTR then 16 else ns)
      in if ns > 4
         then do {
           salt \<leftarrow> rdn (tls_nonce_salt st') 0 (ns - 4);
           n \<leftarrow> wrn (nonce_prefix counter proto_flag @ replicate 12 0) 4 salt;
           Some (n, nlen, st') }
         else Some (nonce_prefix counter proto_flag @ replicate 12 0, nlen, st'))"

definition crypto_nonce_to_iv :: "u8 list \<Rightarrow> nat \<Rightarrow> u8 list option" where
  "crypto_nonce_to_iv nonce nonce_size = do {
     n \<leftarrow> rdn nonce 0 nonce_size;
     iv \<leftarrow> wrn (replicate AES128_IV_SIZE 0) 0 n;
     Some iv }"

definition crypto_write_counter :: "buf \<Rightarrow> u8 list \<Rightarrow> nat \<Rightarrow> u8 \<Rightarrow> u8 \<Rightarrow> buf option" where
  "crypto_write_counter packet nonce nonce_size marker_byte policy_id = do {
     p \<leftarrow> wr packet 12 marker_byte;
     p \<leftarrow> wr p 13 policy_id;
     n \<leftarrow> rdn nonce 0 nonce_size;
     wrn p 14 n }"

text \<open>The nonce is read into a local array of 16 bytes; the results are the array, the policy id and
  the protocol flag.\<close>

definition crypto_read_counter :: "buf \<Rightarrow> nat \<Rightarrow> (u8 list \<times> u8 \<times> u8) option" where
  "crypto_read_counter packet nonce_size = do {
     pid \<leftarrow> rd packet 13;
     n \<leftarrow> rdn packet 14 nonce_size;
     nonce \<leftarrow> wrn (replicate 16 0) 0 n;
     Some (nonce, pid, drop_bit 7 (nonce ! 0)) }"

definition crypto_write_l3_tunnel_header :: "buf \<Rightarrow> nat \<Rightarrow> u8 list \<Rightarrow> nat \<Rightarrow> u8 \<Rightarrow> u8 \<Rightarrow> buf option" where
  "crypto_write_l3_tunnel_header b off nonce nonce_size policy_id orig_proto = do {
     n \<leftarrow> rdn nonce 0 nonce_size;
     b \<leftarrow> wrn b off n;
     b \<leftarrow> wr b (off + nonce_size) policy_id;
     wr b (off + nonce_size + 1) orig_proto }"

definition crypto_read_l3_tunnel_header :: "buf \<Rightarrow> nat \<Rightarrow> nat \<Rightarrow> (u8 list \<times> u8 \<times> u8 \<times> u8) option" where
  "crypto_read_l3_tunnel_header b off nonce_size = do {
     n \<leftarrow> rdn b off nonce_size;
     nonce \<leftarrow> wrn (replicate 16 0) 0 n;
     f \<leftarrow> rd b off;
     pid \<leftarrow> rd b (off + nonce_size);
     op \<leftarrow> rd b (off + nonce_size + 1);
     Some (nonce, drop_bit 7 f, pid, op) }"

definition crypto_restore_ipv4_header :: "buf \<Rightarrow> buf option" where
  "crypto_restore_ipv4_header packet = do { p \<leftarrow> wr packet 12 0x08; wr p 13 0x00 }"

section \<open>Laws of the library in the form the layers use\<close>

lemma evp_ctr_laws:
  assumes "evp_ok lib"
  shows "snd (evp_ctr lib w k iv d)" "length (fst (evp_ctr lib w k iv d)) = length d"
    "fst (evp_ctr lib w k iv (fst (evp_ctr lib w k iv d))) = d"
  using assms by (simp_all add: evp_ok_def)

lemma evp_gcm_laws:
  assumes "evp_ok lib"
  shows "snd (snd (evp_gcm_enc lib w k n d))" "length (fst (evp_gcm_enc lib w k n d)) = length d"
    "length (fst (snd (evp_gcm_enc lib w k n d))) = 16"
    "evp_gcm_dec lib w k n (fst (evp_gcm_enc lib w k n d)) (fst (snd (evp_gcm_enc lib w k n d))) = (d, True)"
    "length (fst (evp_gcm_dec lib w k n d t)) = length d"
  using assms by (simp_all add: evp_ok_def)

lemma evp_misc_laws:
  assumes "evp_ok lib" shows "length (evp_hmac lib k m) = 32" "length (evp_rand lib) = 16"
  using assms by (simp_all add: evp_ok_def)

section \<open>Key cache\<close>

text \<open>A cache is consistent when its flag says that the OpenSSL context holds the cached key for the
  current cipher width.\<close>

definition gcm_cache_ok :: "crypto_state \<Rightarrow> gcm_cache \<Rightarrow> bool" where
  "gcm_cache_ok st c = (gc_cached c \<longrightarrow> gc_ctx c = Some (aes_256 st, take (get_key_size st) (gc_key c)))"

lemma gcm_init_ctx:
  assumes "gcm_cache_ok st c" "length key = 32"
  shows "gc_ctx (gcm_init st c key nl) = Some (aes_256 st, take (get_key_size st) key)"
  using assms by (auto simp: gcm_init_def gcm_key_changed_def gcm_cache_ok_def)

lemma gcm_init_ok:
  assumes "gcm_cache_ok st c" "length key = 32"
  shows "gcm_cache_ok st (gcm_init st c key nl)"
  using assms by (auto simp: gcm_init_def gcm_key_changed_def gcm_cache_ok_def min_def get_key_size_def)

lemma gcm_init_len: "gc_nonce_len (gcm_init st c key nl) = nl"
  by (auto simp: gcm_init_def gcm_key_changed_def)

lemma gcm_cache_ok_upd [simp]:
  "gcm_cache_ok (st\<lparr>tls_enc := a\<rparr>) c = gcm_cache_ok st c" "gcm_cache_ok (st\<lparr>tls_dec := a\<rparr>) c = gcm_cache_ok st c"
  "gcm_cache_ok (st\<lparr>g_nonce_counter := n\<rparr>) c = gcm_cache_ok st c"
  "gcm_cache_ok (st\<lparr>tls_nonce_salt := s, tls_salt_initialized := i\<rparr>) c = gcm_cache_ok st c"
  by (simp_all add: gcm_cache_ok_def aes_256_def get_key_size_def)

lemma gcm_cache_init_ok [simp]: "gcm_cache_ok st gcm_cache_init"
  by (simp add: gcm_cache_ok_def gcm_cache_init_def)

section \<open>The ciphers on a range of the buffer\<close>

lemma ctr_at:
  assumes "evp_ok lib" "0 < len" "off + nat len \<le> length b"
  shows "crypto_aes_ctr_with_key lib st key iv b off len =
    Some (0, take off b
      @ fst (evp_ctr lib (aes_256 st) (take (get_key_size st) key) iv (take (nat len) (drop off b)))
      @ drop (off + nat len) b)"
  using assms by (simp add: crypto_aes_ctr_with_key_def evp_ctr_laws Let_def split_beta)

lemma gcm_enc_at:
  assumes "evp_ok lib" "0 < len" "off + nat len \<le> length b" "gcm_cache_ok st (tls_enc st)" "length key = 32"
  shows "crypto_aes_gcm_encrypt lib st key nonce nl b off len tag =
    (let e = evp_gcm_enc lib (aes_256 st) (take (get_key_size st) key) (take nl nonce) (take (nat len) (drop off b))
     in Some (0, st\<lparr>tls_enc := gcm_init st (tls_enc st) key nl\<rparr>,
          take off b @ fst e @ drop (off + nat len) b, fst (snd e)))"
  using assms by (simp add: crypto_aes_gcm_encrypt_def gcm_init_ctx evp_gcm_laws Let_def split_beta)

lemma gcm_dec_at:
  assumes "evp_ok lib" "0 < len" "off + nat len \<le> length b" "gcm_cache_ok st (tls_dec st)" "length key = 32"
  shows "crypto_aes_gcm_decrypt lib st key nonce nl b off len tag =
    (let e = evp_gcm_dec lib (aes_256 st) (take (get_key_size st) key) (take nl nonce) (take (nat len) (drop off b)) tag
     in Some (if snd e then 0 else -1, st\<lparr>tls_dec := gcm_init st (tls_dec st) key nl\<rparr>,
          take off b @ fst e @ drop (off + nat len) b))"
  using assms by (simp add: crypto_aes_gcm_decrypt_def gcm_init_ctx evp_gcm_laws Let_def split_beta)

section \<open>Nonces\<close>

lemma nonce_prefix_length [simp]: "length (nonce_prefix c f) = 4"
  by (simp add: nonce_prefix_def)

lemma gen_nonce:
  assumes "evp_ok lib" "g_nonce_size st \<le> 16" "length (tls_nonce_salt st) = 16"
  obtains n st' where "crypto_generate_nonce lib st c f =
      Some (n, if g_crypto_mode st = CRYPTO_MODE_CTR then 16 else g_nonce_size st, st')"
    "length n = 16" "take 4 n = nonce_prefix c f"
    "st' = st \<or> st' = st\<lparr>tls_nonce_salt := evp_rand lib, tls_salt_initialized := True\<rparr>"
  using assms evp_misc_laws [OF assms(1)]
  by (cases "g_nonce_size st > 4"; cases "tls_salt_initialized st")
     (auto simp: crypto_generate_nonce_def Let_def)

lemma nonce_prefix_bits:
  "nonce_prefix c 0 = [ucast (take_bit 7 (drop_bit 24 c)), ucast (take_bit 8 (drop_bit 16 c)),
     ucast (take_bit 8 (drop_bit 8 c)), ucast (take_bit 8 c)]"
proof -
  have "x AND 0x7F = take_bit 7 x" "x AND 0xFF = take_bit 8 x" for x :: u32
    by (simp_all add: take_bit_eq_mask mask_eq_exp_minus_1)
  then show ?thesis by (simp add: nonce_prefix_def)
qed

lemma u8_take_bit_eq:
  assumes "ucast (take_bit k (x :: u32)) = (ucast (take_bit k y) :: u8)" "k \<le> 8" "j < k"
  shows "bit x j = bit y j"
proof -
  have "bit (ucast (take_bit k x) :: u8) j = bit (ucast (take_bit k y) :: u8) j" using assms by simp
  then show ?thesis using assms(2,3) by (simp add: bit_simps)
qed

lemma nonce_prefix_inj:
  assumes "nonce_prefix c 0 = nonce_prefix d 0" "c < 2 ^ 31" "d < 2 ^ 31"
  shows "c = d"
proof (rule bit_word_eqI)
  fix n assume "n < LENGTH(32)"
  then have n: "n < 32" by simp
  note e = assms(1) [unfolded nonce_prefix_bits]
  have top: "\<not> bit x 31" if "x < 2 ^ 31" for x :: u32
    using that by (simp add: bit_iff_odd div_word_less)
  from n show "bit c n = bit d n"
  proof (cases rule: byte_cases)
    case (1 j)
    then show ?thesis using e u8_take_bit_eq [of 8 c d j] by simp
  next
    case (2 j)
    then show ?thesis using e u8_take_bit_eq [of 8 "drop_bit 8 c" "drop_bit 8 d" j] by (simp add: bit_simps)
  next
    case (3 j)
    then show ?thesis using e u8_take_bit_eq [of 8 "drop_bit 16 c" "drop_bit 16 d" j] by (simp add: bit_simps)
  next
    case (4 j)
    show ?thesis
    proof (cases "j = 7")
      case True
      then show ?thesis using 4 top assms(2,3) by simp
    next
      case False
      then show ?thesis using 4 e u8_take_bit_eq [of 7 "drop_bit 24 c" "drop_bit 24 d" j] by (simp add: bit_simps)
    qed
  qed
qed

text \<open>The state after the counter has advanced \<open>i\<close> times.\<close>

definition counter_after :: "nat \<Rightarrow> crypto_state \<Rightarrow> crypto_state" where
  "counter_after i st = ((\<lambda>s. snd (packet_crypto_next_counter s)) ^^ i) st"

lemma counter_after_eq: "counter_after i st = st\<lparr>g_nonce_counter := g_nonce_counter st + of_nat i\<rparr>"
  by (induction i) (simp_all add: counter_after_def packet_crypto_next_counter_def algebra_simps)

lemma unat_u64_low31: "unat (ucast ((x :: u64) AND 0x7FFFFFFF) :: u32) = unat x mod 2 ^ 31"
proof -
  have m: "x AND 0x7FFFFFFF = take_bit 31 x" by (simp add: take_bit_eq_mask mask_eq_exp_minus_1)
  have "unat (ucast (take_bit 31 x) :: u32) = take_bit 31 (unat x)"
    by (simp add: unsigned_ucast_eq unsigned_take_bit_eq)
  then show ?thesis by (simp add: m take_bit_eq_mod)
qed

lemma next_counter_value:
  "unat (fst (packet_crypto_next_counter (counter_after i st))) = (unat (g_nonce_counter st) + i) mod 2 ^ 31"
proof -
  have "unat (g_nonce_counter st + of_nat i) mod 2 ^ 31 = (unat (g_nonce_counter st) + i) mod 2 ^ 31"
    by (simp add: unat_word_ariths unat_of_nat mod_mod_cancel mod_add_right_eq)
  then show ?thesis by (simp add: packet_crypto_next_counter_def counter_after_eq unat_u64_low31)
qed

lemma next_counter_less: "fst (packet_crypto_next_counter st) < 2 ^ 31"
  using next_counter_value [of 0 st] by (simp add: word_less_nat_alt counter_after_def)

lemma next_counter_distinct:
  assumes "i < j" "j < i + 2 ^ 31"
  shows "fst (packet_crypto_next_counter (counter_after i st)) \<noteq> fst (packet_crypto_next_counter (counter_after j st))"
proof
  assume "fst (packet_crypto_next_counter (counter_after i st)) = fst (packet_crypto_next_counter (counter_after j st))"
  then have e: "(unat (g_nonce_counter st) + i) mod 2 ^ 31 = (unat (g_nonce_counter st) + j) mod 2 ^ 31"
    by (metis next_counter_value)
  have "2 ^ 31 dvd (unat (g_nonce_counter st) + j - (unat (g_nonce_counter st) + i))"
    using mod_eq_dvd_iff_nat [of "unat (g_nonce_counter st) + i" "unat (g_nonce_counter st) + j" "2 ^ 31"] e assms by simp
  then show False using assms by (auto dest: dvd_imp_le)
qed

section \<open>Sample state for the witnesses\<close>

definition sample_crypto :: "int \<Rightarrow> crypto_state" where
  "sample_crypto mode = crypto_state_init\<lparr> g_fake_ethertype_ipv4 := 0x88B5, g_crypto_mode := mode,
     g_aes_bits := 256, g_policy_id := 1, tls_nonce_salt := replicate 16 0x11, tls_salt_initialized := True \<rparr>"

definition sample_ctx :: packet_crypto_ctx where
  "sample_ctx = \<lparr> pc_master_key = replicate 32 7, pc_keys = replicate 3 (replicate 32 7), pc_initialized = True \<rparr>"

lemmas sample_crypto_defs = sample_crypto_def sample_ctx_def crypto_state_init_def gcm_cache_init_def

lemma nonce_ne:
  assumes "nonce_prefix c f \<noteq> nonce_prefix d f" "take 4 n = nonce_prefix c f" "take 4 m = nonce_prefix d f" "4 \<le> k"
  shows "take k n \<noteq> take k m"
  using assms by (metis min.absorb1 take_take)

section \<open>Properties\<close>


text \<open>C9: the GCM key cache is transparent as long as the width of the cipher does not change: when the cache is empty or its
  context was made for the current width, \<open>crypto_aes_gcm_encrypt\<close> computes AES-GCM of the data under the given key and
  the current width, writes it in place, and leaves a cache of which the same holds, whatever key was cached before. A change
  of the width may break the premise, and the cache then does change what is computed (\<open>gcm_cache_ignores_width\<close> below).\<close>

theorem gcm_key_cache_transparent:
  assumes "evp_ok lib" "0 < len" "off + nat len \<le> length b" "gcm_cache_ok st (tls_enc st)" "length key = 32"
  shows "\<exists>st'. crypto_aes_gcm_encrypt lib st key nonce nl b off len tag =
      Some (0, st',
        take off b @ fst (evp_gcm_enc lib (aes_256 st) (take (get_key_size st) key) (take nl nonce) (take (nat len) (drop off b)))
          @ drop (off + nat len) b,
        fst (snd (evp_gcm_enc lib (aes_256 st) (take (get_key_size st) key) (take nl nonce) (take (nat len) (drop off b)))))
    \<and> gcm_cache_ok st' (tls_enc st')"
  using gcm_enc_at [OF assms] gcm_init_ok [OF assms(4,5)] by (simp add: Let_def)

text \<open>The cache compares only the key bytes of the current width. When the width is lowered to 128
  bits while a 256-bit key with the same first 16 bytes is cached, packets go on being encrypted with
  the 256-bit cipher and key.\<close>

lemma gcm_cache_ignores_width:
  assumes "gc_cached (tls_enc st)" "gc_nonce_len (tls_enc st) = nl" "gc_ctx (tls_enc st) = Some (True, k)"
    and "take 16 (gc_key (tls_enc st)) = take 16 key" "0 < len" "off + nat len \<le> length b"
    and "evp_ok lib"
  shows "crypto_aes_gcm_encrypt lib (packet_crypto_set_aes_bits 128 st) key nonce nl b off len tag =
    Some (0, packet_crypto_set_aes_bits 128 st,
      take off b @ fst (evp_gcm_enc lib True k (take nl nonce) (take (nat len) (drop off b))) @ drop (off + nat len) b,
      fst (snd (evp_gcm_enc lib True k (take nl nonce) (take (nat len) (drop off b)))))"
  using assms
  by (simp add: crypto_aes_gcm_encrypt_def gcm_init_def gcm_key_changed_def packet_crypto_set_aes_bits_def
      get_key_size_def evp_gcm_laws Let_def split_beta)

text \<open>Every \<open>packet_crypto_init\<close> derives the same keys from the same master key and restarts the
  counter at 0. After it, in a thread that already has its salt, the first packet takes the nonce that
  the first packet after the previous initialisation took.\<close>

lemma reinit_repeats_nonce:
  assumes "tls_salt_initialized st" "packet_crypto_init lib st mk = (ctx, st1)"
    and "packet_crypto_init lib (counter_after n st1) mk = (ctx2, st2)"
  shows "pc_keys ctx2 = pc_keys ctx \<and>
    crypto_generate_nonce lib st2 (fst (packet_crypto_next_counter st2)) PROTO_FLAG_IPV4
       = crypto_generate_nonce lib st1 (fst (packet_crypto_next_counter st1)) PROTO_FLAG_IPV4"
proof -
  have "st1 = packet_crypto_reset_counter st" "st2 = packet_crypto_reset_counter (counter_after n st1)"
    using assms(2,3) by (simp_all add: packet_crypto_init_def Let_def)
  then have st: "st1 = st\<lparr>g_nonce_counter := 0\<rparr>" "st2 = st1"
    by (simp_all add: packet_crypto_reset_counter_def counter_after_eq)
  have "pc_keys ctx2 = pc_keys ctx"
    using assms(2,3) by (auto simp: packet_crypto_init_def Let_def derive_key_def get_key_size_def st counter_after_eq)
  then show ?thesis by (simp add: st(2))
qed


theorem gcm_key_cache_transparent_witness:
  "\<exists>st'. crypto_aes_gcm_encrypt toy_lib (sample_crypto 1) (replicate 32 7) (replicate 12 1) 12 (replicate 40 0) 4 20 [] =
      Some (0, st', replicate 4 0 @ replicate 20 0x5A @ replicate 16 0, replicate 16 0xC3)
    \<and> gcm_cache_ok st' (tls_enc st')"
proof -
  have "gcm_cache_ok (sample_crypto 1) (tls_enc (sample_crypto 1))"
    by (simp add: gcm_cache_ok_def sample_crypto_defs)
  then have "\<exists>st'. crypto_aes_gcm_encrypt toy_lib (sample_crypto 1) (replicate 32 7) (replicate 12 1) 12 (replicate 40 0) 4 20 [] =
      Some (0, st', take 4 (replicate 40 0) @ fst (evp_gcm_enc toy_lib (aes_256 (sample_crypto 1))
           (take (get_key_size (sample_crypto 1)) (replicate 32 7)) (take 12 (replicate 12 1)) (take (nat 20) (drop 4 (replicate 40 0))))
          @ drop (4 + nat 20) (replicate 40 0),
        fst (snd (evp_gcm_enc toy_lib (aes_256 (sample_crypto 1)) (take (get_key_size (sample_crypto 1)) (replicate 32 7))
           (take 12 (replicate 12 1)) (take (nat 20) (drop 4 (replicate 40 0))))))
      \<and> gcm_cache_ok st' (tls_enc st')"
    by (intro gcm_key_cache_transparent) (simp_all add: toy_lib_ok)
  then show ?thesis by (simp add: toy_lib_def toy_ctr_def sample_crypto_defs aes_256_def get_key_size_def)
qed

end
