(* ===== verification/Checksum.thy ===== *)
theory Checksum
  imports Prelude
begin

text \<open>
  The Internet checksums of \<open>src/crypto/packet_crypto.c\<close> (IPv4 header, TCP, UDP), the rewriting of the
  total length in \<open>crypto_layer3.c\<close> and \<open>crypto_layer4.c\<close>, and the receive check of
  \<open>src/core/bridge_mac.c\<close>. The accumulator is a \<open>uint32_t\<close>, written as a \<open>nat\<close> modulo \<open>2 ^ 32\<close>. The
  lemmas show that the check accepts exactly what the rewriting produces.
\<close>

section \<open>The code\<close>

fun sum_words :: "nat \<Rightarrow> u8 list \<Rightarrow> nat" where
  "sum_words acc [] = acc"
| "sum_words acc [h] = (acc + 256 * unat h) mod 2 ^ 32"
| "sum_words acc (h # l # bs) = sum_words ((acc + (256 * unat h + unat l)) mod 2 ^ 32) bs"

text \<open>\<open>while (sum >> 16) sum = (sum & 0xFFFF) + (sum >> 16);\<close>\<close>

function fold_carries :: "nat \<Rightarrow> nat" where
  "fold_carries s = (if s div 65536 = 0 then s else fold_carries (s mod 65536 + s div 65536))"
  by auto
termination
proof (relation "measure id")
  fix s :: nat assume "s div 65536 \<noteq> 0"
  moreover have "s = 65536 * (s div 65536) + s mod 65536" by simp
  ultimately have "s mod 65536 + s div 65536 < s" by linarith
  then show "(s mod 65536 + s div 65536, s) \<in> measure id" by simp
qed simp

declare fold_carries.simps [simp del]

definition finish_checksum :: "nat \<Rightarrow> u16" where
  "finish_checksum s = NOT (of_nat (fold_carries s))"

definition crypto_calc_ip_checksum :: "buf \<Rightarrow> nat \<Rightarrow> nat \<Rightarrow> u16 option" where
  "crypto_calc_ip_checksum b ip hdr_len = do {
     h \<leftarrow> rdn b ip hdr_len;
     Some (finish_checksum (sum_words 0 h)) }"

definition crypto_calc_tcp_checksum :: "buf \<Rightarrow> nat \<Rightarrow> nat \<Rightarrow> nat \<Rightarrow> nat \<Rightarrow> u16 option" where
  "crypto_calc_tcp_checksum b ip ip_hdr_len tcp tcp_seg_len =
     (if ip_hdr_len < 20 \<or> tcp_seg_len < 20 then Some 0
      else do {
        addrs \<leftarrow> rdn b (ip + 12) 8;
        seg \<leftarrow> rdn b tcp tcp_seg_len;
        let s = sum_words 0 addrs;
        let s = (s + 6 + tcp_seg_len mod 65536) mod 2 ^ 32;
        Some (finish_checksum (sum_words s (seg[16 := 0, 17 := 0]))) })"

definition crypto_calc_udp_checksum :: "buf \<Rightarrow> nat \<Rightarrow> nat \<Rightarrow> nat \<Rightarrow> nat \<Rightarrow> u16 option" where
  "crypto_calc_udp_checksum b ip ip_hdr_len udp udp_seg_len =
     (if ip_hdr_len < 20 \<or> udp_seg_len < 8 then Some 0
      else do {
        l \<leftarrow> rd_be16 b (udp + 4);
        let udp_len = (if unat l < 8 then 8 else unat l);
        let udp_len = (if udp_len > udp_seg_len mod 65536 then udp_seg_len mod 65536 else udp_len);
        addrs \<leftarrow> rdn b (ip + 12) 8;
        seg \<leftarrow> rdn b udp udp_len;
        let s = (sum_words 0 addrs + 17 + udp_len) mod 2 ^ 32;
        Some (finish_checksum (sum_words s seg)) })"

text \<open>\<open>l3_patch_ipv4\<close> and, with the header at \<open>l3_off\<close>, \<open>l4_fix_ipv4_totlen_and_cksum\<close>.\<close>

definition l3_patch_ipv4 :: "buf \<Rightarrow> nat \<Rightarrow> nat \<Rightarrow> u16 \<Rightarrow> buf option" where
  "l3_patch_ipv4 b ip ip_hdr_len ip_total = do {
     b \<leftarrow> wr b (ip + 2) (hi8 ip_total);
     b \<leftarrow> wr b (ip + 3) (lo8 ip_total);
     b \<leftarrow> wr b (ip + 10) 0;
     b \<leftarrow> wr b (ip + 11) 0;
     cksum \<leftarrow> crypto_calc_ip_checksum b ip ip_hdr_len;
     b \<leftarrow> wr b (ip + 10) (hi8 cksum);
     wr b (ip + 11) (lo8 cksum) }"

definition l4_fix_ipv4_totlen_and_cksum :: "buf \<Rightarrow> nat \<Rightarrow> nat \<Rightarrow> nat \<Rightarrow> buf option" where
  "l4_fix_ipv4_totlen_and_cksum b l3_off ip_hdr_len ip_payload_len = do {
     let new_totlen = (of_nat (ip_hdr_len + ip_payload_len) :: u16);
     b \<leftarrow> wr b (l3_off + 2) (hi8 new_totlen);
     b \<leftarrow> wr b (l3_off + 3) (lo8 new_totlen);
     b \<leftarrow> wr b (l3_off + 10) 0;
     b \<leftarrow> wr b (l3_off + 11) 0;
     cksum \<leftarrow> crypto_calc_ip_checksum b l3_off ip_hdr_len;
     b \<leftarrow> wr b (l3_off + 10) (hi8 cksum);
     wr b (l3_off + 11) (lo8 cksum) }"

definition ne_rx_ipv4_header_csum_ok :: "buf \<Rightarrow> nat \<Rightarrow> nat \<Rightarrow> bool option" where
  "ne_rx_ipv4_header_csum_ok b ip ihl = do {
     h \<leftarrow> rdn b ip ihl;
     Some ((of_nat (fold_carries (sum_words 0 h)) :: u16) = 0xFFFF) }"

section \<open>Arithmetic of the folded sum\<close>

lemma fold_carries_bounds: "0 < s \<Longrightarrow> 0 < fold_carries s \<and> fold_carries s < 65536"
proof (induction s rule: fold_carries.induct)
  case (1 s)
  show ?case
  proof (cases "s div 65536 = 0")
    case True
    then show ?thesis using 1(2) by (subst (1 2) fold_carries.simps) auto
  next
    case False
    then have "0 < s mod 65536 + s div 65536" by simp
    then show ?thesis using 1(1) [OF False] False by (subst (1 2) fold_carries.simps) simp
  qed
qed

lemma fold_carries_mod: "fold_carries s mod 65535 = s mod 65535"
proof (induction s rule: fold_carries.induct)
  case (1 s)
  have "s mod 65536 + s div 65536 + 65535 * (s div 65536) = s mod 65536 + 65536 * (s div 65536)"
    by simp
  also have "\<dots> = s" by (rule mod_mult_div_eq)
  finally have "s mod 65536 + s div 65536 + 65535 * (s div 65536) = s" .
  then have m: "(s mod 65536 + s div 65536) mod 65535 = s mod 65535"
    by (metis mod_mult_self2)
  show ?case
  proof (cases "s div 65536 = 0")
    case True
    then show ?thesis by (subst fold_carries.simps) simp
  next
    case False
    then have "fold_carries s mod 65535 = fold_carries (s mod 65536 + s div 65536) mod 65535"
      by (subst fold_carries.simps) (rule if_not_P [THEN arg_cong])
    also have "\<dots> = (s mod 65536 + s div 65536) mod 65535" by (rule 1 [OF False])
    finally show ?thesis using m by (rule trans)
  qed
qed

lemma fold_carries_complement:
  assumes "c = 65535 - fold_carries s" "0 < s"
  shows "fold_carries (s + c) = 65535"
proof -
  have b: "0 < fold_carries s" "fold_carries s < 65536" using fold_carries_bounds assms(2) by auto
  have "(s + c) mod 65535 = (fold_carries s + c) mod 65535" by (metis fold_carries_mod mod_add_left_eq)
  also have "fold_carries s + c = 65535" using b assms(1) by simp
  finally have m: "fold_carries (s + c) mod 65535 = 0" using fold_carries_mod [of "s + c"] by simp
  have "0 < fold_carries (s + c)" "fold_carries (s + c) < 65536"
    using fold_carries_bounds [of "s + c"] assms(2) by auto
  then show ?thesis using m by (auto simp: mod_eq_0_iff_dvd dest!: dvd_imp_le elim!: dvdE)
qed

section \<open>The sum of a header\<close>

text \<open>The sum without the modulus, which a header is too short to reach.\<close>

fun wsum :: "u8 list \<Rightarrow> nat" where
  "wsum [] = 0"
| "wsum [h] = 256 * unat h"
| "wsum (h # l # bs) = 256 * unat h + unat l + wsum bs"

lemma wsum_bound: "wsum bs \<le> 65535 * ((length bs + 1) div 2)"
proof (induction bs rule: wsum.induct)
  case (2 h)
  have "unat h < 256" using unat8_less [of h] by simp
  then have "256 * unat h \<le> 65535" by linarith
  then show ?case by simp
next
  case (3 h l bs)
  have "unat h < 256" "unat l < 256" using unat8_less [of h] unat8_less [of l] by simp_all
  moreover have "(length (h # l # bs) + 1) div 2 = Suc ((length bs + 1) div 2)" by simp
  ultimately show ?case using 3 by simp
qed simp

lemma sum_words_wsum: "acc + wsum bs < 2 ^ 32 \<Longrightarrow> sum_words acc bs = acc + wsum bs"
  by (induction acc bs rule: sum_words.induct) (simp_all add: ac_simps)

lemma sum_words_short: "length bs \<le> 1500 \<Longrightarrow> sum_words 0 bs = wsum bs"
proof (rule trans [OF sum_words_wsum])
  assume "length bs \<le> 1500"
  then have "(length bs + 1) div 2 \<le> 750" by simp
  then show "0 + wsum bs < 2 ^ 32" using wsum_bound [of bs] by simp
qed simp

lemma wsum_append: "even (length a) \<Longrightarrow> wsum (a @ b) = wsum a + wsum b"
  by (induction a rule: wsum.induct) auto

lemma wsum_pos: "bs \<noteq> [] \<Longrightarrow> bs ! 0 \<noteq> 0 \<Longrightarrow> 0 < wsum bs"
  by (cases bs rule: wsum.cases) (auto simp: unsigned_eq_0_iff neq0_conv [symmetric] simp del: neq0_conv)

lemma unat_be16: "unat (be16_of h l) = 256 * unat h + unat l"
proof -
  have "be16_of h l = push_bit 8 (ucast h) + ucast l"
    unfolding be16_of_def by (rule disjunctive_add [symmetric]) (auto simp: bit_simps dest: bit_imp_le_length)
  moreover have "unat (push_bit 8 (ucast h) :: u16) = 256 * unat h"
    using unat8_less [of h] by (simp add: unsigned_push_bit_eq unsigned_ucast_eq take_bit_eq_mod del: push_bit_of_nat) (simp add: push_bit_eq_mult)
  moreover have "unat (ucast l :: u16) = unat l"
    using unat8_less [of l] by (simp add: unsigned_ucast_eq take_bit_eq_mod)
  ultimately show ?thesis using unat8_less [of h] unat8_less [of l]
    by (simp add: unat_word_ariths)
qed

lemma unat_hi_lo: "256 * unat (hi8 w) + unat (lo8 w) = unat w"
  using unat_be16 [of "hi8 w" "lo8 w"] by simp

lemma unat_finish: "0 < s \<Longrightarrow> unat (finish_checksum s) = 65535 - fold_carries s"
proof -
  assume "0 < s"
  then have b: "fold_carries s < 65536" using fold_carries_bounds by blast
  have "finish_checksum s = - 1 - of_nat (fold_carries s)"
    unfolding finish_checksum_def by (simp add: not_eq_complement)
  moreover have "of_nat (fold_carries s) \<le> (- 1 :: u16)" by simp
  ultimately show ?thesis using b
    by (simp add: unat_sub unat_of_nat unsigned_minus_1_eq_mask mask_eq_exp_minus_1)
qed

text \<open>Filling the zeroed field at an even position with the complement makes the header verify.\<close>

lemma header_verifies:
  assumes "even (length a)" "length a + 2 + length z \<le> 1500" "a \<noteq> []" "a ! 0 \<noteq> 0"
    and "c = finish_checksum (sum_words 0 (a @ [0, 0] @ z))"
  shows "fold_carries (sum_words 0 (a @ [hi8 c, lo8 c] @ z)) = 65535"
proof -
  let ?s = "wsum (a @ [0, 0] @ z)"
  have s: "sum_words 0 (a @ [0, 0] @ z) = ?s" using assms by (intro sum_words_short) simp
  have pos: "0 < ?s" using assms by (simp add: wsum_append wsum_pos)
  have "sum_words 0 (a @ [hi8 c, lo8 c] @ z) = wsum (a @ [hi8 c, lo8 c] @ z)"
    using assms by (intro sum_words_short) simp
  also have "\<dots> = ?s + unat c" using assms(1) by (simp add: wsum_append unat_hi_lo [symmetric])
  also have "unat c = 65535 - fold_carries ?s" unfolding assms(5) s by (rule unat_finish [OF pos])
  finally show ?thesis using fold_carries_complement [OF refl pos] by simp
qed

section \<open>The rewritten header\<close>

definition patch_hdr :: "u8 list \<Rightarrow> u16 \<Rightarrow> u8 list" where
  "patch_hdr h tot = (let h1 = h[2 := hi8 tot, 3 := lo8 tot, 10 := 0, 11 := 0];
                          c = finish_checksum (sum_words 0 h1)
                      in h1[10 := hi8 c, 11 := lo8 c])"

lemma patch_hdr_length [simp]: "length (patch_hdr h tot) = length h"
  by (simp add: patch_hdr_def Let_def)

lemma patch_hdr_nth:
  "i \<notin> {2, 3, 10, 11} \<Longrightarrow> patch_hdr h tot ! i = h ! i"
  by (simp add: patch_hdr_def Let_def)

lemma upd_mid: "length a \<le> i \<Longrightarrow> i < length a + length h \<Longrightarrow> (a @ h @ z)[i := v] = a @ h[i - length a := v] @ z"
proof -
  assume "length a \<le> i" "i < length a + length h"
  then have "i - length a < length h" by linarith
  then show ?thesis using \<open>length a \<le> i\<close> by (simp add: list_update_append)
qed

lemma l3_patch_parts:
  assumes "ip = length a" "ihl = length h" "20 \<le> length h"
  shows "l3_patch_ipv4 (a @ h @ z) ip ihl tot = Some (a @ patch_hdr h tot @ z)"
  using assms
  by (simp add: l3_patch_ipv4_def crypto_calc_ip_checksum_def upd_mid rdn_mid patch_hdr_def Let_def)

lemma l4_fix_parts:
  assumes "l3 = length a" "ihl = length h" "20 \<le> length h"
  shows "l4_fix_ipv4_totlen_and_cksum (a @ h @ z) l3 ihl pl = Some (a @ patch_hdr h (of_nat (ihl + pl)) @ z)"
  using assms
  by (simp add: l4_fix_ipv4_totlen_and_cksum_def crypto_calc_ip_checksum_def upd_mid rdn_mid patch_hdr_def Let_def)

lemma patch_hdr_twice [simp]: "patch_hdr (patch_hdr h t) u = patch_hdr h u"
proof -
  have "(patch_hdr h t)[2 := hi8 u, 3 := lo8 u, 10 := 0, 11 := 0] = h[2 := hi8 u, 3 := lo8 u, 10 := 0, 11 := 0]"
    by (rule nth_equalityI) (auto simp: patch_hdr_def Let_def nth_upd)
  then show ?thesis by (simp add: patch_hdr_def [of _ u] Let_def)
qed

lemma patch_hdr_fill: "patch_hdr h tot =
   (let c = finish_checksum (sum_words 0 (h[2 := hi8 tot, 3 := lo8 tot, 10 := 0, 11 := 0]))
    in h[2 := hi8 tot, 3 := lo8 tot, 10 := hi8 c, 11 := lo8 c])"
proof -
  have "xs[10 := 0, 11 := 0, 10 := x, 11 := y] = xs[10 := x, 11 := y]" for xs :: "u8 list" and x y
    by (rule nth_equalityI) (auto simp: nth_upd)
  then show ?thesis by (simp add: patch_hdr_def Let_def)
qed

text \<open>A header of an even length and a non-zero first byte verifies once it is rewritten.\<close>

lemma patch_hdr_verifies:
  assumes "20 \<le> length h" "length h \<le> 1500" "h ! 0 \<noteq> 0"
  shows "fold_carries (sum_words 0 (patch_hdr h tot)) = 65535"
proof -
  define h1 where "h1 = h[2 := hi8 tot, 3 := lo8 tot]"
  have l: "length h1 = length h" by (simp add: h1_def)
  have split: "h1[10 := x, 11 := y] = take 10 h1 @ [x, y] @ drop 12 h1" for x y
    by (rule nth_equalityI) (use assms in \<open>auto simp: l nth_list_update nth_append min_def nth_Cons'\<close>)
  have z: "take 10 h1 @ [0, 0] @ drop 12 h1 = h[2 := hi8 tot, 3 := lo8 tot, 10 := 0, 11 := 0]"
    unfolding split [symmetric] by (simp add: h1_def)
  have p: "patch_hdr h tot = (let c = finish_checksum (sum_words 0 (take 10 h1 @ [0, 0] @ drop 12 h1))
    in take 10 h1 @ [hi8 c, lo8 c] @ drop 12 h1)"
    unfolding split [symmetric] by (simp add: patch_hdr_fill Let_def h1_def)
  have "take 10 h1 \<noteq> []" "take 10 h1 ! 0 \<noteq> 0" using assms by (auto simp: h1_def)
  then show ?thesis unfolding p Let_def using assms l by (intro header_verifies) (auto simp: min_def)
qed

text \<open>Every IPv4 header that the encryption rewrites (\<open>l3_patch_ipv4\<close>) has the new total length and
  passes the receiver's header check \<open>ne_rx_ipv4_header_csum_ok\<close>, and nothing outside the header and no
  other header field is touched.\<close>

lemma patched_header_accepted:
  assumes "20 \<le> length h" "length h \<le> 60" "h ! 0 \<noteq> 0"
  shows "l3_patch_ipv4 (a @ h @ z) (length a) (length h) tot = Some (a @ patch_hdr h tot @ z) \<and>
    ne_rx_ipv4_header_csum_ok (a @ patch_hdr h tot @ z) (length a) (length h) = Some True \<and>
    rd_be16 (a @ patch_hdr h tot @ z) (length a + 2) = Some tot \<and>
    (\<forall>i. i \<notin> {2, 3, 10, 11} \<longrightarrow> patch_hdr h tot ! i = h ! i)"
proof (intro conjI)
  show "l3_patch_ipv4 (a @ h @ z) (length a) (length h) tot = Some (a @ patch_hdr h tot @ z)"
    using assms by (intro l3_patch_parts) auto
  show "ne_rx_ipv4_header_csum_ok (a @ patch_hdr h tot @ z) (length a) (length h) = Some True"
    using patch_hdr_verifies [of h tot] assms
    by (simp add: ne_rx_ipv4_header_csum_ok_def rdn_mid)
  have "patch_hdr h tot ! 2 = hi8 tot" "patch_hdr h tot ! 3 = lo8 tot"
    using assms by (simp_all add: patch_hdr_def Let_def)
  then show "rd_be16 (a @ patch_hdr h tot @ z) (length a + 2) = Some tot"
    using assms by (simp add: nth_append)
  show "\<forall>i. i \<notin> {2, 3, 10, 11} \<longrightarrow> patch_hdr h tot ! i = h ! i"
    by (blast intro: patch_hdr_nth)
qed

end
