(* ===== verification/LayerCommon.thy ===== *)
theory LayerCommon
  imports PacketCrypto Checksum
begin

text \<open>
  The code that the three encryption layers (\<open>crypto_layer2.c\<close>, \<open>crypto_layer3.c\<close>, \<open>crypto_layer4.c\<close>)
  repeat: the encryption of a range in the current mode, the place of the GCM tag, the loop over the
  key slots that decrypts a range, and the four-byte fragment tag; with the lemmas that a range sealed
  by one state is opened by another with the same keys.
\<close>

section \<open>Sealing a range\<close>

definition gcm_tag_len :: "crypto_state \<Rightarrow> nat" where
  "gcm_tag_len st = (if is_gcm st then AES128_GCM_TAG_SIZE else 0)"

text \<open>Encryption of \<open>len\<close> bytes at \<open>off\<close> in place: GCM with a tag, or CTR with the IV of the nonce.\<close>

definition seal_range ::
  "evp_lib \<Rightarrow> crypto_state \<Rightarrow> u8 list \<Rightarrow> u8 list \<Rightarrow> nat \<Rightarrow> buf \<Rightarrow> nat \<Rightarrow> int
     \<Rightarrow> (int \<times> crypto_state \<times> buf \<times> u8 list) option" where
  "seal_range lib st key nonce nonce_len b off len =
     (if is_gcm st then crypto_aes_gcm_encrypt lib st key nonce nonce_len b off len (replicate 16 0)
      else do {
        iv \<leftarrow> crypto_nonce_to_iv nonce (g_nonce_size st);
        (rc, b) \<leftarrow> crypto_aes_ctr_with_key lib st key iv b off len;
        Some (rc, st, b, []) })"

definition put_tag :: "crypto_state \<Rightarrow> buf \<Rightarrow> nat \<Rightarrow> u8 list \<Rightarrow> buf option" where
  "put_tag st b off tag = (if is_gcm st then wrn b off tag else Some b)"

section \<open>Opening a range\<close>

definition open_range ::
  "evp_lib \<Rightarrow> crypto_state \<Rightarrow> u8 list \<Rightarrow> u8 list \<Rightarrow> nat \<Rightarrow> buf \<Rightarrow> nat \<Rightarrow> int \<Rightarrow> u8 list
     \<Rightarrow> (int \<times> crypto_state \<times> buf) option" where
  "open_range lib st key nonce nonce_len b off len tag =
     (if is_gcm st then crypto_aes_gcm_decrypt lib st key nonce nonce_len b off len tag
      else do {
        iv \<leftarrow> crypto_nonce_to_iv nonce (g_nonce_size st);
        (rc, b) \<leftarrow> crypto_aes_ctr_with_key lib st key iv b off len;
        Some (rc, st, b) })"

text \<open>The loop over \<open>key_order\<close>. \<open>k\<close> is the loop counter, \<open>backup\<close> the saved ciphertext when it fits the
  2048-byte local array, \<open>verify\<close> the check of the decrypted bytes that layer 3 makes in CTR mode. The
  first component says whether a key succeeded.\<close>

fun try_keys ::
  "evp_lib \<Rightarrow> packet_crypto_ctx \<Rightarrow> u8 list \<Rightarrow> nat \<Rightarrow> nat \<Rightarrow> nat \<Rightarrow> u8 list \<Rightarrow> u8 list option \<Rightarrow> (buf \<Rightarrow> bool option)
     \<Rightarrow> nat \<Rightarrow> int list \<Rightarrow> crypto_state \<Rightarrow> buf \<Rightarrow> (bool \<times> crypto_state \<times> buf) option" where
  "try_keys lib ctx nonce nonce_len off enc_len tag backup verify k [] st b = Some (False, st, b)"
| "try_keys lib ctx nonce nonce_len off enc_len tag backup verify k (slot # slots) st b =
     (case packet_crypto_get_key ctx slot of
        None \<Rightarrow> try_keys lib ctx nonce nonce_len off enc_len tag backup verify (k + 1) slots st b
      | Some key \<Rightarrow> do {
          b \<leftarrow> (case backup of Some bk \<Rightarrow> if k > 0 then wrn b off bk else Some b | None \<Rightarrow> Some b);
          (rc, st, b) \<leftarrow> open_range lib st key nonce nonce_len b off (c_int (int enc_len)) tag;
          if rc \<noteq> 0 then try_keys lib ctx nonce nonce_len off enc_len tag backup verify (k + 1) slots st b
          else do {
            good \<leftarrow> (if is_gcm st then Some True else verify b);
            if good then Some (True, st, b)
            else try_keys lib ctx nonce nonce_len off enc_len tag backup verify (k + 1) slots st b } })"

definition key_order :: "int list" where
  "key_order = [KEY_SLOT_CURRENT, KEY_SLOT_PREV, KEY_SLOT_NEXT]"

text \<open>What follows the headers: the ciphertext length, or a packet too short for its tag.\<close>

definition split_tag :: "crypto_state \<Rightarrow> buf \<Rightarrow> nat \<Rightarrow> nat \<Rightarrow> (nat \<times> u8 list) option option" where
  "split_tag st b enc_off total_after =
     (if is_gcm st then
        (if total_after < AES128_GCM_TAG_SIZE then Some None
         else do {
           tag \<leftarrow> rdn b (enc_off + (total_after - AES128_GCM_TAG_SIZE)) AES128_GCM_TAG_SIZE;
           Some (Some (total_after - AES128_GCM_TAG_SIZE, tag)) })
      else Some (Some (total_after, replicate 16 0)))"

definition take_backup :: "buf \<Rightarrow> nat \<Rightarrow> nat \<Rightarrow> u8 list option option" where
  "take_backup b enc_off enc_len =
     (if enc_len \<le> 2048 then do { bk \<leftarrow> rdn b enc_off enc_len; Some (Some bk) } else Some None)"

section \<open>Fragment tags\<close>

definition FRAG_HDR_SIZE :: nat where "FRAG_HDR_SIZE = 4"

definition write_frag_tag :: "buf \<Rightarrow> nat \<Rightarrow> u16 \<Rightarrow> u8 \<Rightarrow> buf option" where
  "write_frag_tag b off pkt_id frag_index = do {
     b \<leftarrow> wr b off (hi8 pkt_id);
     b \<leftarrow> wr b (off + 1) (lo8 pkt_id);
     b \<leftarrow> wr b (off + 2) frag_index;
     wr b (off + 3) 0 }"

definition read_frag_tag :: "buf \<Rightarrow> nat \<Rightarrow> (u16 \<times> u8) option" where
  "read_frag_tag b off = do {
     h \<leftarrow> rd b off;
     l \<leftarrow> rd b (off + 1);
     i \<leftarrow> rd b (off + 2);
     Some (be16_of h l, i) }"

section \<open>What sealing and opening compute\<close>

text \<open>The ciphertext and the tag of a plaintext in a state, and the ranges they are written to.\<close>

definition iv_of :: "crypto_state \<Rightarrow> u8 list \<Rightarrow> u8 list" where
  "iv_of st nonce = take (g_nonce_size st) nonce @ replicate (16 - g_nonce_size st) 0"

definition cipher_text :: "evp_lib \<Rightarrow> crypto_state \<Rightarrow> u8 list \<Rightarrow> u8 list \<Rightarrow> u8 list \<Rightarrow> u8 list" where
  "cipher_text lib st key nonce d =
     (if is_gcm st
      then fst (evp_gcm_enc lib (aes_256 st) (take (get_key_size st) key) (take (g_nonce_size st) nonce) d)
      else fst (evp_ctr lib (aes_256 st) (take (get_key_size st) key) (iv_of st nonce) d))"

definition cipher_tag :: "evp_lib \<Rightarrow> crypto_state \<Rightarrow> u8 list \<Rightarrow> u8 list \<Rightarrow> u8 list \<Rightarrow> u8 list" where
  "cipher_tag lib st key nonce d =
     (if is_gcm st
      then fst (snd (evp_gcm_enc lib (aes_256 st) (take (get_key_size st) key) (take (g_nonce_size st) nonce) d))
      else [])"

text \<open>Two states that agree on what the ciphers depend on.\<close>

definition same_cipher :: "crypto_state \<Rightarrow> crypto_state \<Rightarrow> bool" where
  "same_cipher s t = (g_crypto_mode s = g_crypto_mode t \<and> g_nonce_size s = g_nonce_size t
     \<and> g_aes_bits s = g_aes_bits t)"

text \<open>A state and context in which a layer can work.\<close>

definition crypto_ready :: "crypto_state \<Rightarrow> packet_crypto_ctx \<Rightarrow> bool" where
  "crypto_ready st ctx = (pc_initialized ctx \<and> length (pc_keys ctx) = 3 \<and> (\<forall>k \<in> set (pc_keys ctx). length k = 32)
     \<and> g_nonce_size st \<le> 16 \<and> length (tls_nonce_salt st) = 16
     \<and> (g_crypto_mode st = CRYPTO_MODE_CTR \<or> g_crypto_mode st = CRYPTO_MODE_GCM)
     \<and> gcm_cache_ok st (tls_enc st) \<and> gcm_cache_ok st (tls_dec st))"

lemma nonce_to_iv: "g_nonce_size st \<le> 16 \<Longrightarrow> length nonce = 16 \<Longrightarrow>
  crypto_nonce_to_iv nonce (g_nonce_size st) = Some (iv_of st nonce)"
  by (simp add: crypto_nonce_to_iv_def iv_of_def AES128_IV_SIZE_def)

lemma cipher_text_length [simp]: "evp_ok lib \<Longrightarrow> length (cipher_text lib st key nonce d) = length d"
  by (simp add: cipher_text_def evp_ctr_laws evp_gcm_laws)

lemma cipher_tag_length [simp]: "evp_ok lib \<Longrightarrow> length (cipher_tag lib st key nonce d) = gcm_tag_len st"
  by (simp add: cipher_tag_def gcm_tag_len_def evp_gcm_laws AES128_GCM_TAG_SIZE_def)

lemma seal_range_parts:
  assumes "evp_ok lib" "gcm_cache_ok st (tls_enc st)" "length key = 32" "g_nonce_size st \<le> 16" "length nonce = 16"
    and "nl = g_nonce_size st \<or> \<not> is_gcm st" "d \<noteq> []" "length d < 2 ^ 31" "off = length a" "len = int (length d)"
  shows "\<exists>c. seal_range lib st key nonce nl (a @ d @ z) off len =
    Some (0, st\<lparr>tls_enc := c\<rparr>, a @ cipher_text lib st key nonce d @ z, cipher_tag lib st key nonce d)
    \<and> gcm_cache_ok st c"
proof (cases "is_gcm st")
  case True
  have "0 < len" using assms by simp
  then show ?thesis using True assms gcm_init_ok [OF assms(2,3), of nl]
    by (intro exI [of _ "gcm_init st (tls_enc st) key nl"])
       (simp add: seal_range_def gcm_enc_at Let_def cipher_text_def cipher_tag_def)
next
  case False
  have "0 < len" using assms by simp
  moreover have "st = st\<lparr>tls_enc := tls_enc st\<rparr>" by simp
  ultimately show ?thesis using False assms
    by (intro exI [of _ "tls_enc st"])
       (simp add: seal_range_def nonce_to_iv ctr_at cipher_text_def cipher_tag_def)
qed

lemma same_cipher_eqs:
  assumes "same_cipher s t"
  shows "is_gcm t = is_gcm s" "g_nonce_size t = g_nonce_size s" "aes_256 t = aes_256 s"
    "get_key_size t = get_key_size s" "gcm_tag_len t = gcm_tag_len s" "iv_of t n = iv_of s n"
    "g_crypto_mode t = g_crypto_mode s"
  using assms by (simp_all add: same_cipher_def is_gcm_def aes_256_def get_key_size_def gcm_tag_len_def iv_of_def)

lemma open_range_parts:
  assumes "evp_ok lib" "same_cipher s t" "gcm_cache_ok t (tls_dec t)" "length key = 32" "g_nonce_size t \<le> 16"
    and "length nonce = 16" "nl = g_nonce_size t \<or> \<not> is_gcm t" "take (g_nonce_size t) nonce = take (g_nonce_size t) n0"
    and "d \<noteq> []" "off = length a" "len = int (length d)" "tag = cipher_tag lib s key n0 d \<or> \<not> is_gcm t"
  shows "\<exists>c. open_range lib t key nonce nl (a @ cipher_text lib s key n0 d @ z) off len tag =
    Some (0, t\<lparr>tls_dec := c\<rparr>, a @ d @ z) \<and> gcm_cache_ok t c"
proof (cases "is_gcm t")
  case True
  have "0 < len" using assms by simp
  then show ?thesis using True assms gcm_init_ok [OF assms(3,4), of nl] same_cipher_eqs [OF assms(2)]
    by (intro exI [of _ "gcm_init t (tls_dec t) key nl"])
       (simp add: open_range_def gcm_dec_at Let_def cipher_text_def cipher_tag_def evp_gcm_laws)
next
  case False
  have "0 < len" using assms by simp
  moreover have "t = t\<lparr>tls_dec := tls_dec t\<rparr>" by simp
  moreover have "iv_of t nonce = iv_of s n0" using assms same_cipher_eqs [OF assms(2)] by (simp add: iv_of_def)
  ultimately show ?thesis using False assms same_cipher_eqs [OF assms(2)]
    by (intro exI [of _ "tls_dec t"])
       (simp add: open_range_def nonce_to_iv ctr_at cipher_text_def evp_ctr_laws)
qed

lemma try_keys_first:
  assumes "packet_crypto_get_key ctx slot = Some key"
    and "open_range lib t key nonce nl b off (c_int (int enc_len)) tag = Some (0, t', b')"
    and "is_gcm t = is_gcm t'" "\<not> is_gcm t \<Longrightarrow> verify b' = Some True"
  shows "try_keys lib ctx nonce nl off enc_len tag backup verify 0 (slot # slots) t b = Some (True, t', b')"
  using assms by (cases "is_gcm t") (auto split: option.splits)

lemma current_key:
  assumes "crypto_ready st ctx"
  shows "packet_crypto_get_key ctx KEY_SLOT_CURRENT = Some (pc_keys ctx ! 1)" "length (pc_keys ctx ! 1) = 32"
  using assms by (auto simp: packet_crypto_get_key_def crypto_ready_def KEY_SLOT_CURRENT_def KEY_SLOT_COUNT_def)

lemma split_tag_parts:
  assumes "evp_ok lib" "off = length a" "length ct = n" "tot = n + gcm_tag_len st"
  shows "\<exists>t. split_tag st (a @ ct @ cipher_tag lib st key nonce d @ z) off tot = Some (Some (n, t))
     \<and> (t = cipher_tag lib st key nonce d \<or> \<not> is_gcm st)"
proof (cases "is_gcm st")
  case True
  have "rdn ((a @ ct) @ cipher_tag lib st key nonce d @ z) (length a + n) 16 = Some (cipher_tag lib st key nonce d)"
    using assms True by (intro rdn_mid) (simp_all add: gcm_tag_len_def AES128_GCM_TAG_SIZE_def)
  then show ?thesis using assms True by (simp add: split_tag_def gcm_tag_len_def AES128_GCM_TAG_SIZE_def)
qed (use assms in \<open>simp add: split_tag_def gcm_tag_len_def\<close>)

lemma take_backup_parts: "off = length a \<Longrightarrow> n = length d \<Longrightarrow> \<exists>bk. take_backup (a @ d @ z) off n = Some bk"
  by (simp add: take_backup_def)

lemma frag_tag_parts:
  assumes "off = length a" "length x = 4"
  shows "write_frag_tag (a @ x @ z) off pkt_id idx = Some (a @ [hi8 pkt_id, lo8 pkt_id, idx, 0] @ z)"
proof -
  from assms(2) obtain p q r s where "x = [p, q, r, s]" by (auto simp: length_Suc_conv eval_nat_numeral)
  then show ?thesis using assms(1) by (simp add: write_frag_tag_def list_update_append)
qed

lemma read_frag_tag_parts:
  "off = length a \<Longrightarrow> read_frag_tag (a @ [hi8 pkt_id, lo8 pkt_id, idx, r] @ z) off = Some (pkt_id, idx)"
  by (simp add: read_frag_tag_def nth_append)

lemma put_tag_parts:
  assumes "evp_ok lib" "off = length a" "gcm_tag_len st \<le> length z"
  shows "put_tag st (a @ z) off (cipher_tag lib st key nonce d) =
    Some (a @ cipher_tag lib st key nonce d @ drop (gcm_tag_len st) z)"
  using assms cipher_tag_length [OF assms(1), of st key nonce d]
  by (cases "is_gcm st") (simp_all add: put_tag_def gcm_tag_len_def cipher_tag_def)

text \<open>What the ciphers compute does not depend on the caches, the counter or the salt.\<close>

lemma cipher_upd [simp]:
  "cipher_text lib (s\<lparr>tls_enc := q\<rparr>) k n d = cipher_text lib s k n d"
  "cipher_tag lib (s\<lparr>tls_enc := q\<rparr>) k n d = cipher_tag lib s k n d"
  "gcm_tag_len (s\<lparr>tls_enc := q\<rparr>) = gcm_tag_len s"
  "gcm_tag_len (s\<lparr>tls_dec := q\<rparr>) = gcm_tag_len s"
  "is_gcm (s\<lparr>tls_enc := q\<rparr>) = is_gcm s"
  "is_gcm (s\<lparr>tls_dec := q\<rparr>) = is_gcm s"
  by (simp_all add: cipher_text_def cipher_tag_def is_gcm_def aes_256_def get_key_size_def iv_of_def gcm_tag_len_def)

lemma crypto_ready_upd:
  "crypto_ready s ctx \<Longrightarrow> gcm_cache_ok s q \<Longrightarrow> crypto_ready (s\<lparr>tls_enc := q\<rparr>) ctx"
  "crypto_ready s ctx \<Longrightarrow> gcm_cache_ok s q \<Longrightarrow> crypto_ready (s\<lparr>tls_dec := q\<rparr>) ctx"
  by (simp_all add: crypto_ready_def)

lemma same_cipher_upd [simp]:
  "same_cipher a (s\<lparr>tls_enc := q\<rparr>) = same_cipher a s" "same_cipher a (s\<lparr>tls_dec := q\<rparr>) = same_cipher a s"
  by (simp_all add: same_cipher_def)

lemma same_cipher_text:
  assumes "same_cipher s t"
  shows "cipher_text lib t k n d = cipher_text lib s k n d" "cipher_tag lib t k n d = cipher_tag lib s k n d"
  using same_cipher_eqs [OF assms] by (simp_all add: cipher_text_def cipher_tag_def)

lemma gcm_or_ctr: "crypto_ready st ctx \<Longrightarrow> \<not> is_gcm st \<longleftrightarrow> g_crypto_mode st = CRYPTO_MODE_CTR"
  by (auto simp: crypto_ready_def is_gcm_def policy_consts)

text \<open>Sealing in a ready state, with the nonce length the generator chose, and the tag placed after it.\<close>

lemma seal_ready:
  assumes "evp_ok lib" "crypto_ready s ctx" "length n = 16" "d \<noteq> []" "length d < 2 ^ 31" "off = length a"
    and "nl = (if g_crypto_mode s = CRYPTO_MODE_CTR then 16 else g_nonce_size s)"
  obtains q where "seal_range lib s (pc_keys ctx ! 1) n nl (a @ d @ z) off (int (length d)) =
      Some (0, s\<lparr>tls_enc := q\<rparr>, a @ cipher_text lib s (pc_keys ctx ! 1) n d @ z, cipher_tag lib s (pc_keys ctx ! 1) n d)"
    "crypto_ready (s\<lparr>tls_enc := q\<rparr>) ctx"
proof -
  have "\<exists>q. seal_range lib s (pc_keys ctx ! 1) n nl (a @ d @ z) off (int (length d)) =
      Some (0, s\<lparr>tls_enc := q\<rparr>, a @ cipher_text lib s (pc_keys ctx ! 1) n d @ z, cipher_tag lib s (pc_keys ctx ! 1) n d)
      \<and> gcm_cache_ok s q"
    using assms current_key [OF assms(2)] gcm_or_ctr [OF assms(2)]
    by (intro seal_range_parts) (auto simp: crypto_ready_def)
  then show ?thesis using that crypto_ready_upd(1) [OF assms(2)] by blast
qed

text \<open>Opening what a state with the same cipher parameters sealed.\<close>

lemma open_ready:
  assumes "evp_ok lib" "crypto_ready t ctx" "same_cipher s t" "length n = 16" "length n0 = 16"
    and "take (g_nonce_size t) n = take (g_nonce_size t) n0" "d \<noteq> []" "off = length a"
    and "nl = (if is_gcm t then g_nonce_size t else AES128_IV_SIZE)"
    and "tag = cipher_tag lib s (pc_keys ctx ! 1) n0 d \<or> \<not> is_gcm t"
  obtains q where "open_range lib t (pc_keys ctx ! 1) n nl (a @ cipher_text lib s (pc_keys ctx ! 1) n0 d @ z) off
      (int (length d)) tag = Some (0, t\<lparr>tls_dec := q\<rparr>, a @ d @ z)"
    "crypto_ready (t\<lparr>tls_dec := q\<rparr>) ctx"
proof -
  have "\<exists>q. open_range lib t (pc_keys ctx ! 1) n nl (a @ cipher_text lib s (pc_keys ctx ! 1) n0 d @ z) off
      (int (length d)) tag = Some (0, t\<lparr>tls_dec := q\<rparr>, a @ d @ z) \<and> gcm_cache_ok t q"
    by (rule open_range_parts [OF assms(1,3)])
       (use assms current_key [OF assms(2)] in \<open>auto simp: crypto_ready_def\<close>)
  then show ?thesis using that crypto_ready_upd(2) [OF assms(2)] by blast
qed

text \<open>The nonce of an encryption and the state after taking it.\<close>

lemma next_nonce:
  assumes "evp_ok lib" "crypto_ready st ctx"
  obtains c n s where "packet_crypto_next_counter st = (c, st\<lparr>g_nonce_counter := g_nonce_counter st + 1\<rparr>)"
    "crypto_generate_nonce lib (st\<lparr>g_nonce_counter := g_nonce_counter st + 1\<rparr>) c PROTO_FLAG_IPV4 =
      Some (n, if g_crypto_mode st = CRYPTO_MODE_CTR then 16 else g_nonce_size st, s)"
    "length n = 16" "crypto_ready s ctx" "same_cipher st s" "g_fake_ethertype_ipv4 s = g_fake_ethertype_ipv4 st"
    "g_policy_id s = g_policy_id st" "g_fake_protocol s = g_fake_protocol st" "take 4 n = nonce_prefix c 0"
    "c < 2 ^ 31" "tls_enc s = tls_enc st" "tls_dec s = tls_dec st"
proof -
  define st' where "st' = st\<lparr>g_nonce_counter := g_nonce_counter st + 1\<rparr>"
  obtain c where c: "packet_crypto_next_counter st = (c, st')" "c < 2 ^ 31"
    using next_counter_less [of st] by (simp add: packet_crypto_next_counter_def st'_def)
  have r: "crypto_ready st' ctx" using assms(2) by (simp add: crypto_ready_def st'_def)
  then obtain n s where n: "crypto_generate_nonce lib st' c PROTO_FLAG_IPV4 =
      Some (n, if g_crypto_mode st' = CRYPTO_MODE_CTR then 16 else g_nonce_size st', s)"
    "length n = 16" "take 4 n = nonce_prefix c PROTO_FLAG_IPV4"
    "s = st' \<or> s = st'\<lparr>tls_nonce_salt := evp_rand lib, tls_salt_initialized := True\<rparr>"
    using gen_nonce [OF assms(1), of st' c PROTO_FLAG_IPV4] by (auto simp: crypto_ready_def)
  have "crypto_ready s ctx"
    using n(4) r evp_misc_laws [OF assms(1)] by (auto simp: crypto_ready_def)
  moreover have "same_cipher st s" using n(4) by (auto simp: same_cipher_def st'_def)
  ultimately show ?thesis using that [of c n s] c n by (auto simp: st'_def PROTO_FLAG_IPV4_def)
qed

section \<open>Sample states\<close>

lemma sample_ready: "crypto_ready (sample_crypto 1) sample_ctx" "crypto_ready (sample_crypto 0) sample_ctx"
  by (simp_all add: crypto_ready_def sample_crypto_defs gcm_cache_ok_def policy_consts)

lemma sample_crypto_sel [simp]:
  "g_nonce_size (sample_crypto m) = 12" "g_fake_ethertype_ipv4 (sample_crypto m) = 0x88B5"
  "g_crypto_mode (sample_crypto m) = m" "g_aes_bits (sample_crypto m) = 256" "g_policy_id (sample_crypto m) = 1"
  "g_fake_protocol (sample_crypto m) = 99" "is_gcm (sample_crypto m) = (m = 1)"
  "gcm_tag_len (sample_crypto m) = (if m = 1 then 16 else 0)"
  "same_cipher (sample_crypto m) (sample_crypto m)"
  by (simp_all add: sample_crypto_defs is_gcm_def gcm_tag_len_def AES128_GCM_TAG_SIZE_def policy_consts same_cipher_def)

lemma sample_ctx_sel [simp]: "pc_initialized sample_ctx" "length (pc_keys sample_ctx) = 3"
  by (simp_all add: sample_ctx_def)

lemma toy_cipher_text: "cipher_text toy_lib s k n d = map (\<lambda>b. b XOR 0x5A) d"
  by (simp add: cipher_text_def toy_lib_def toy_ctr_def)

text \<open>A plausible IPv4 header and payload.\<close>

definition sample_ip :: "u8 list" where
  "sample_ip = [0x45, 0, 0, 40, 0, 1, 0, 0, 64, 6, 0, 0, 10, 0, 0, 1, 10, 0, 0, 2,
                0, 80, 1, 187, 0, 0, 0, 1, 0, 0, 0, 0, 0x50, 2, 16, 0, 0, 0, 0, 0]"

lemma sample_ip_facts [simp]: "length sample_ip = 40" "sample_ip ! 0 = 0x45" "sample_ip \<noteq> []"
  by (simp_all add: sample_ip_def)

section \<open>Tunnel headers\<close>

lemma write_tunnel_parts:
  assumes "off = length a" "length x = ns + 2" "length n = 16" "ns \<le> 16"
  shows "crypto_write_l3_tunnel_header (a @ x @ z) off n ns p q = Some (a @ take ns n @ [p, q] @ z)"
proof -
  obtain u v where "drop ns x = [u, v]"
  proof
    show "drop ns x = [x ! ns, x ! (ns + 1)]"
      using assms(2) by (intro nth_equalityI) (auto simp: less_2_cases_iff)
  qed
  then have x: "x = take ns x @ [u, v]" by (metis append_take_drop_id)
  have l: "length (take ns x) = ns" using assms(2) by simp
  have "wrn (a @ take ns x @ [u, v] @ z) off (take ns n) = Some (a @ take ns n @ [u, v] @ z)"
    using assms l by (intro wrn_mid) simp_all
  moreover have "wr (a @ take ns n @ [u, v] @ z) (off + ns) p = Some (a @ take ns n @ [p, v] @ z)"
    using wr_mid [of "off + ns" "a @ take ns n" u "v # z" p] assms by simp
  moreover have "wr (a @ take ns n @ [p, v] @ z) (off + ns + 1) q = Some (a @ take ns n @ [p, q] @ z)"
    using wr_mid [of "off + ns + 1" "a @ take ns n @ [p]" v z q] assms by simp
  ultimately have "crypto_write_l3_tunnel_header (a @ take ns x @ [u, v] @ z) off n ns p q = Some (a @ take ns n @ [p, q] @ z)"
    using assms(1,3,4) unfolding crypto_write_l3_tunnel_header_def
    by (simp del: append_assoc append.simps wrn_Some wr_Some)
  then show ?thesis using x by (metis append_assoc)
qed

text \<open>The steps by which layers 3 and 4 insert a tunnel: encrypt in place, shift, tag, header.\<close>

lemma tunnel_steps:
  assumes "evp_ok lib" "crypto_ready s ctx" "length n = 16" "d \<noteq> []" "length d < 2 ^ 31" "off = length a"
    and "nl = (if g_crypto_mode s = CRYPTO_MODE_CTR then 16 else g_nonce_size s)" "K = pc_keys ctx ! 1"
    and "k = g_nonce_size s + 2" "k + gcm_tag_len s \<le> length r" "tn = gcm_tag_len s"
  obtains q b1 b2 where
    "seal_range lib s K n nl (a @ d @ r) off (int (length d)) = Some (0, s\<lparr>tls_enc := q\<rparr>, a @ cipher_text lib s K n d @ r, cipher_tag lib s K n d)"
    "mem_move (a @ cipher_text lib s K n d @ r) (off + k) off (length d) = Some b1"
    "put_tag (s\<lparr>tls_enc := q\<rparr>) b1 (off + k + length d) (cipher_tag lib s K n d) = Some b2"
    "\<And>p x. crypto_write_l3_tunnel_header b2 off n (g_nonce_size s) p x
       = Some (a @ take (g_nonce_size s) n @ [p, x] @ cipher_text lib s K n d @ cipher_tag lib s K n d @ drop (k + tn) r)"
    "crypto_ready (s\<lparr>tls_enc := q\<rparr>) ctx"
proof -
  let ?ct = "cipher_text lib s K n d"
  let ?tg = "cipher_tag lib s K n d"
  define j where "j = take k (?ct @ r)"
  have j: "length j = k" using assms by (simp add: j_def)
  obtain q where q: "seal_range lib s K n nl (a @ d @ r) off (int (length d)) =
      Some (0, s\<lparr>tls_enc := q\<rparr>, a @ ?ct @ r, ?tg)" "crypto_ready (s\<lparr>tls_enc := q\<rparr>) ctx"
    by (rule seal_ready [OF assms(1-3), of d off a nl r, folded assms(8)]) (use assms in auto)
  have "mem_move (a @ ?ct @ r) (off + k) off (length d) = Some (a @ j @ ?ct @ drop k r)"
    unfolding j_def by (rule mem_move_right) (use assms in simp_all)
  moreover have "put_tag (s\<lparr>tls_enc := q\<rparr>) (a @ j @ ?ct @ drop k r) (off + k + length d) ?tg
      = Some (a @ j @ ?ct @ ?tg @ drop (k + tn) r)"
    using put_tag_parts [OF assms(1), of "off + k + length d" "a @ j @ ?ct" "s\<lparr>tls_enc := q\<rparr>" "drop k r" K n d] assms j
    by (simp add: add.commute)
  moreover have "crypto_write_l3_tunnel_header (a @ j @ ?ct @ ?tg @ drop (k + tn) r) off n (g_nonce_size s) p x
       = Some (a @ take (g_nonce_size s) n @ [p, x] @ ?ct @ ?tg @ drop (k + tn) r)" for p x
    by (rule write_tunnel_parts) (use assms j in \<open>auto simp: crypto_ready_def\<close>)
  ultimately show thesis using that q by blast
qed

text \<open>Reading the nonce back from a tunnel header.\<close>

lemma read_nonce_parts:
  assumes "off = length a" "length n = 16" "ns \<le> 16"
  shows "rdn (a @ take ns n @ z) off ns = Some (take ns n)"
    "wrn (replicate 16 0) 0 (take ns n) = Some (take ns n @ replicate (16 - ns) 0)"
  using assms by (simp_all add: rdn_mid)

lemma nonce_first_bit:
  assumes "take 4 n = nonce_prefix c 0"
  shows "(n ! 0) AND 0x80 = 0"
proof -
  have "n ! 0 = nonce_prefix c 0 ! 0" using arg_cong [OF assms, of "\<lambda>l. l ! 0"] by simp
  then have "n ! 0 = ucast (take_bit 7 (drop_bit 24 c))" by (simp add: nonce_prefix_bits)
  then have "\<not> bit (n ! 0) 7" by (simp add: bit_simps)
  then have "(n ! 0) AND 2 ^ 7 = 0" using and_exp_eq_0_iff_not_bit [of "n ! 0" 7] by blast
  then show ?thesis by simp
qed

text \<open>What decryption makes of the part of a packet after its tunnel header; shared by whole packets and
  fragments, which differ in the bytes \<open>x\<close> between nonce and ciphertext.\<close>

lemma tunnel_open:
  assumes "evp_ok lib" "crypto_ready t ctx" "same_cipher s t" "length n = 16" "d \<noteq> []" "length d < 2 ^ 30"
    and "K = pc_keys ctx ! 1" "off = length a" "enc = off + g_nonce_size t + length x" "b = a @ take (g_nonce_size t) n @ x
       @ cipher_text lib s K n d @ cipher_tag lib s K n d @ z"
    and "\<not> is_gcm t \<Longrightarrow> verify (a @ take (g_nonce_size t) n @ x @ d @ cipher_tag lib s K n d @ z) = Some True"
  obtains n2 tag bk q rest where
    "rdn b off (g_nonce_size t) = Some (take (g_nonce_size t) n)"
    "wrn (replicate 16 0) 0 (take (g_nonce_size t) n) = Some n2"
    "split_tag t b enc (length d + gcm_tag_len t) = Some (Some (length d, tag))"
    "take_backup b enc (length d) = Some bk"
    "try_keys lib ctx n2 (if is_gcm t then g_nonce_size t else AES128_IV_SIZE) enc (length d) tag bk verify 0 key_order t b
       = Some (True, t\<lparr>tls_dec := q\<rparr>, a @ take (g_nonce_size t) n @ x @ d @ cipher_tag lib s K n d @ z)"
    "mem_move (a @ take (g_nonce_size t) n @ x @ d @ cipher_tag lib s K n d @ z) off enc (length d) = Some (a @ d @ rest)"
    "crypto_ready (t\<lparr>tls_dec := q\<rparr>) ctx"
    "length rest = length z + gcm_tag_len t + g_nonce_size t + length x"
proof -
  let ?ns = "g_nonce_size t"
  have ns: "?ns \<le> 16" using assms(2) by (simp add: crypto_ready_def)
  define nn where "nn = take ?ns n"
  define n2 where "n2 = nn @ replicate (16 - ?ns) 0"
  define ct where "ct = cipher_text lib s K n d"
  define tg where "tg = cipher_tag lib s K n d"
  define j where "j = nn @ x"
  note sc = same_cipher_eqs [OF assms(3)]
  note key = current_key [OF assms(2), folded assms(7)]
  have lens: "length (a @ j) = enc" "length ct = length d" "length tg = gcm_tag_len t" "length nn = ?ns" "length n2 = 16"
    "length j = ?ns + length x"
    using assms ns sc by (simp_all add: nn_def n2_def tg_def ct_def j_def)
  have b: "b = (a @ j) @ ct @ tg @ z" by (simp add: assms(10) j_def nn_def ct_def tg_def)
  have n2: "take ?ns n2 = take ?ns n" using assms ns by (simp add: n2_def nn_def)
  have r1: "rdn b off ?ns = Some (take ?ns n)"
    unfolding assms(10) by (rule read_nonce_parts(1)) (use assms ns in simp_all)
  have r2: "wrn (replicate 16 0) 0 (take ?ns n) = Some n2"
    unfolding n2_def nn_def by (rule read_nonce_parts(2)) (use assms ns in simp_all)
  obtain tag where tag: "split_tag t b enc (length d + gcm_tag_len t) = Some (Some (length d, tag))"
    "tag = tg \<or> \<not> is_gcm t"
    using split_tag_parts [OF assms(1), of enc "a @ j" ct "length d" "length d + gcm_tag_len t" t K n d z] lens
      same_cipher_text(2) [OF assms(3), of lib K n d]
    unfolding b tg_def by auto
  obtain bk where bk: "take_backup b enc (length d) = Some bk"
    using take_backup_parts [of enc "a @ j" "length d" ct "tg @ z"] lens by (auto simp: b)
  obtain q where q: "open_range lib t K n2 (if is_gcm t then ?ns else AES128_IV_SIZE) b enc (int (length d)) tag
      = Some (0, t\<lparr>tls_dec := q\<rparr>, (a @ j) @ d @ tg @ z)" "crypto_ready (t\<lparr>tls_dec := q\<rparr>) ctx"
    unfolding b ct_def assms(7)
    by (rule open_ready [OF assms(1-3) lens(5) assms(4) n2, of d enc "a @ j" "if is_gcm t then ?ns else AES128_IV_SIZE" tag "tg @ z"])
       (use assms lens tag in \<open>auto simp: tg_def\<close>)
  have cl: "c_int (int (length d)) = int (length d)" using assms(6) by (simp add: c_int_id)
  have tk: "try_keys lib ctx n2 (if is_gcm t then ?ns else AES128_IV_SIZE) enc (length d) tag bk verify 0 key_order t b
      = Some (True, t\<lparr>tls_dec := q\<rparr>, (a @ j) @ d @ tg @ z)"
    unfolding key_order_def by (rule try_keys_first [OF key(1)]) (use q(1) cl assms(11) in \<open>simp_all add: j_def nn_def tg_def\<close>)
  have mv: "mem_move (a @ j @ d @ tg @ z) off enc (length d) = Some (a @ d @ drop (length d) (j @ d) @ tg @ z)"
    using lens assms(8) by (intro mem_move_left) simp_all
  have rl: "length (drop (length d) (j @ d) @ tg @ z) = length z + gcm_tag_len t + ?ns + length x"
    using lens by simp
  show thesis
    by (rule that [OF r1 r2 tag(1) bk tk [unfolded j_def nn_def tg_def append_assoc] mv [unfolded j_def nn_def tg_def append_assoc] q(2)
          rl [unfolded j_def nn_def tg_def append_assoc]])
qed

end
