(* ===== verification/Layer2.thy ===== *)
theory Layer2
  imports LayerCommon
begin

text \<open>
  \<open>src/crypto/crypto_layer2.c\<close>: everything after the Ethernet header is encrypted; the EtherType is
  replaced by the high byte of the fake EtherType and the policy id, and the nonce follows it. A
  fragment carries the magic byte \<open>0x5B\<close> and a four-byte tag between nonce and ciphertext.
\<close>

definition L2_FRAG_MAGIC :: u8 where "L2_FRAG_MAGIC = 0x5B"
definition MIN_ETH_PKT :: nat where "MIN_ETH_PKT = ETH_HEADER_SIZE + 8"

lemmas l2_consts = L2_FRAG_MAGIC_def MIN_ETH_PKT_def FRAG_HDR_SIZE_def ETH_HEADER_SIZE_def AES128_GCM_TAG_SIZE_def
  AES128_IV_SIZE_def

definition l2_enc_start_offset :: "nat \<Rightarrow> nat" where
  "l2_enc_start_offset nonce_size = ETH_HEADER_SIZE + nonce_size"

definition l2_frag_enc_start_offset :: "nat \<Rightarrow> nat" where
  "l2_frag_enc_start_offset nonce_size = ETH_HEADER_SIZE + nonce_size + 1 + FRAG_HDR_SIZE"

definition pkt_is_ipv4_eth :: "buf \<Rightarrow> bool option" where
  "pkt_is_ipv4_eth packet = do { et \<leftarrow> rd_be16 packet 12; Some (et = 0x0800) }"

definition verify_ipv4_after_decrypt :: "buf \<Rightarrow> nat \<Rightarrow> nat \<Rightarrow> bool option" where
  "verify_ipv4_after_decrypt b off len =
     (if len < 20 then Some False
      else do {
        ttl \<leftarrow> rd b (off + 8);
        proto \<leftarrow> rd b (off + 9);
        if ttl = 0 then Some False
        else Some (proto \<in> {1, 2, 6, 17, 47, 50, 51, 58, 89, 132}) })"

definition l2_fake_marker_byte :: "crypto_state \<Rightarrow> buf \<Rightarrow> u8 option option" where
  "l2_fake_marker_byte st packet = do {
     v4 \<leftarrow> pkt_is_ipv4_eth packet;
     Some (if \<not> v4 then None
           else if g_fake_ethertype_ipv4 st = 0 then None
           else Some (hi8 (g_fake_ethertype_ipv4 st))) }"

definition l2_has_fake_marker :: "crypto_state \<Rightarrow> buf \<Rightarrow> bool option" where
  "l2_has_fake_marker st packet =
     (if g_fake_ethertype_ipv4 st = 0 then Some False
      else do { m \<leftarrow> rd packet 12; Some (m = hi8 (g_fake_ethertype_ipv4 st)) })"

definition crypto_layer2_wire_eth_len :: nat where
  "crypto_layer2_wire_eth_len = ETH_HEADER_SIZE"

definition crypto_layer2_frag_meta_len :: "crypto_state \<Rightarrow> nat" where
  "crypto_layer2_frag_meta_len st = g_nonce_size st + 1 + FRAG_HDR_SIZE + gcm_tag_len st"

definition crypto_layer2_encrypt ::
  "evp_lib \<Rightarrow> packet_crypto_ctx \<Rightarrow> crypto_state \<Rightarrow> buf \<Rightarrow> nat \<Rightarrow> (int \<times> crypto_state \<times> buf) option" where
  "crypto_layer2_encrypt lib ctx st packet pkt_len =
     (if \<not> pc_initialized ctx \<or> pkt_len < MIN_ETH_PKT then Some (-1, st, packet)
      else do {
        v4 \<leftarrow> pkt_is_ipv4_eth packet;
        if \<not> v4 then Some (c_int (int pkt_len), st, packet)
        else do {
          marker \<leftarrow> l2_fake_marker_byte st packet;
          case marker of
            None \<Rightarrow> Some (c_int (int pkt_len), st, packet)
          | Some marker_byte \<Rightarrow> do {
              let l2_enc_start = l2_enc_start_offset (g_nonce_size st);
              let (counter, st1) = packet_crypto_next_counter st;
              (nonce, nonce_len, st2) \<leftarrow> crypto_generate_nonce lib st1 counter PROTO_FLAG_IPV4;
              key \<leftarrow> packet_crypto_get_key ctx KEY_SLOT_CURRENT;
              let payload_len = sz_sub pkt_len ETH_HEADER_SIZE;
              packet \<leftarrow> mem_move packet l2_enc_start ETH_HEADER_SIZE payload_len;
              packet \<leftarrow> crypto_write_counter packet nonce (g_nonce_size st) marker_byte (g_policy_id st);
              (rc, st3, packet, tag) \<leftarrow> seal_range lib st2 key nonce nonce_len packet l2_enc_start (c_int (int payload_len));
              if rc \<noteq> 0 then Some (-1, st3, packet)
              else do {
                packet \<leftarrow> put_tag st3 packet (l2_enc_start + payload_len) tag;
                Some (c_int (int (pkt_len + g_nonce_size st + gcm_tag_len st)), st3, packet) } } } })"

definition crypto_layer2_decrypt ::
  "evp_lib \<Rightarrow> packet_crypto_ctx \<Rightarrow> crypto_state \<Rightarrow> buf \<Rightarrow> nat \<Rightarrow> (int \<times> crypto_state \<times> buf) option" where
  "crypto_layer2_decrypt lib ctx st packet pkt_len =
     (if \<not> pc_initialized ctx then Some (-1, st, packet)
      else let nonce_size = g_nonce_size st; l2_enc_start = l2_enc_start_offset nonce_size in
      if pkt_len < l2_enc_start then Some (-1, st, packet)
      else do {
        marked \<leftarrow> l2_has_fake_marker st packet;
        if \<not> marked then Some (c_int (int pkt_len), st, packet)
        else do {
        is_frag \<leftarrow> (if pkt_len \<ge> ETH_HEADER_SIZE + nonce_size + 1
                   then do { m \<leftarrow> rd packet (ETH_HEADER_SIZE + nonce_size); Some (m = L2_FRAG_MAGIC) }
                   else Some False);
        if is_frag then Some (c_int (int pkt_len), st, packet)
        else do {
        (nonce, policy_id, proto_flag) \<leftarrow> crypto_read_counter packet nonce_size;
        let nonce_len = (if is_gcm st then nonce_size else AES128_IV_SIZE);
        parts \<leftarrow> split_tag st packet l2_enc_start (sz_sub pkt_len l2_enc_start);
        case parts of
          None \<Rightarrow> Some (-1, st, packet)
        | Some (enc_len, tag) \<Rightarrow> do {
            key \<leftarrow> packet_crypto_get_key ctx KEY_SLOT_CURRENT;
            (rc, st, packet) \<leftarrow> open_range lib st key nonce nonce_len packet l2_enc_start (c_int (int enc_len)) tag;
            if rc \<noteq> 0 then Some (-1, st, packet)
            else do {
              good \<leftarrow> (if is_gcm st then Some True else verify_ipv4_after_decrypt packet l2_enc_start enc_len);
              if \<not> good then Some (-1, st, packet)
              else do {
                w0 \<leftarrow> rd packet l2_enc_start;
                w1 \<leftarrow> rd packet (l2_enc_start + 1);
                packet \<leftarrow> crypto_restore_ipv4_header packet;
                if w0 = 0x08 \<and> w1 = 0x00
                then do {
                  packet \<leftarrow> mem_move packet ETH_HEADER_SIZE (l2_enc_start + 2) (sz_sub enc_len 2);
                  Some (c_int (int (ETH_HEADER_SIZE + sz_sub enc_len 2)), st, packet) }
                else do {
                  packet \<leftarrow> mem_move packet ETH_HEADER_SIZE l2_enc_start enc_len;
                  Some (c_int (int (ETH_HEADER_SIZE + enc_len)), st, packet) } } } } } } })"

text \<open>The result of the fragment encryption is the return code, the output buffer and its length. The
  buffer \<open>out_buf\<close> is written only up to \<open>out_max\<close>, its capacity.\<close>

definition crypto_layer2_encrypt_fragment_single ::
  "evp_lib \<Rightarrow> packet_crypto_ctx \<Rightarrow> crypto_state \<Rightarrow> buf \<Rightarrow> buf \<Rightarrow> u16 \<Rightarrow> u8 \<Rightarrow> buf \<Rightarrow> nat \<Rightarrow> nat
     \<Rightarrow> (int \<times> crypto_state \<times> buf \<times> nat) option" where
  "crypto_layer2_encrypt_fragment_single lib ctx st eth_hdr enc_plain pkt_id frag_index out_buf out_max out_len =
     (if \<not> pc_initialized ctx then Some (-1, st, out_buf, out_len)
      else if enc_plain = [] then Some (-1, st, out_buf, out_len)
      else do {
        v4 \<leftarrow> pkt_is_ipv4_eth eth_hdr;
        if \<not> v4 then Some (-1, st, out_buf, out_len)
        else do {
        let nonce_size = g_nonce_size st;
        let enc_off = l2_frag_enc_start_offset nonce_size;
        let need = enc_off + length enc_plain + gcm_tag_len st;
        if need > out_max then Some (-1, st, out_buf, out_len)
        else do {
        hdr \<leftarrow> rdn eth_hdr 0 ETH_HEADER_SIZE;
        out_buf \<leftarrow> wrn out_buf 0 hdr;
        marker \<leftarrow> l2_fake_marker_byte st eth_hdr;
        case marker of
          None \<Rightarrow> Some (-1, st, out_buf, out_len)
        | Some marker_byte \<Rightarrow> do {
            let (counter, st1) = packet_crypto_next_counter st;
            (nonce, nonce_len, st2) \<leftarrow> crypto_generate_nonce lib st1 counter PROTO_FLAG_IPV4;
            key \<leftarrow> packet_crypto_get_key ctx KEY_SLOT_CURRENT;
            out_buf \<leftarrow> crypto_write_counter out_buf nonce nonce_size marker_byte (g_policy_id st);
            out_buf \<leftarrow> wr out_buf (ETH_HEADER_SIZE + nonce_size) L2_FRAG_MAGIC;
            out_buf \<leftarrow> write_frag_tag out_buf (ETH_HEADER_SIZE + nonce_size + 1) pkt_id frag_index;
            out_buf \<leftarrow> wrn out_buf enc_off enc_plain;
            (rc, st3, out_buf, tag) \<leftarrow> seal_range lib st2 key nonce nonce_len out_buf enc_off (c_int (int (length enc_plain)));
            if rc \<noteq> 0 then Some (-1, st3, out_buf, out_len)
            else do {
              out_buf \<leftarrow> put_tag st3 out_buf (enc_off + length enc_plain) tag;
              Some (0, st3, out_buf, need) } } } } })"

definition crypto_layer2_decrypt_fragment ::
  "evp_lib \<Rightarrow> packet_crypto_ctx \<Rightarrow> crypto_state \<Rightarrow> buf \<Rightarrow> nat \<Rightarrow> u16 \<Rightarrow> u8
     \<Rightarrow> (int \<times> crypto_state \<times> buf \<times> u16 \<times> u8) option" where
  "crypto_layer2_decrypt_fragment lib ctx st packet pkt_len pkt_id0 frag_index0 =
     (if \<not> pc_initialized ctx then Some (-1, st, packet, pkt_id0, frag_index0)
      else let nonce_size = g_nonce_size st; enc_off = l2_frag_enc_start_offset nonce_size in
      if pkt_len < enc_off then Some (-1, st, packet, pkt_id0, frag_index0)
      else do {
        marked \<leftarrow> l2_has_fake_marker st packet;
        if \<not> marked then Some (-1, st, packet, pkt_id0, frag_index0)
        else do {
        m \<leftarrow> rd packet (ETH_HEADER_SIZE + nonce_size);
        if m \<noteq> L2_FRAG_MAGIC then Some (-1, st, packet, pkt_id0, frag_index0)
        else do {
        (pkt_id, frag_index) \<leftarrow> read_frag_tag packet (ETH_HEADER_SIZE + nonce_size + 1);
        (nonce, policy_id, proto_flag) \<leftarrow> crypto_read_counter packet nonce_size;
        let nonce_len = (if is_gcm st then nonce_size else AES128_IV_SIZE);
        parts \<leftarrow> split_tag st packet enc_off (sz_sub pkt_len enc_off);
        case parts of
          None \<Rightarrow> Some (-1, st, packet, pkt_id, frag_index)
        | Some (enc_len, tag) \<Rightarrow> do {
            backup \<leftarrow> take_backup packet enc_off enc_len;
            (found, st, packet) \<leftarrow> try_keys lib ctx nonce nonce_len enc_off enc_len tag backup (\<lambda>_. Some True) 0
                                   key_order st packet;
            if \<not> found then Some (-1, st, packet, pkt_id, frag_index)
            else do {
              packet \<leftarrow> mem_move packet ETH_HEADER_SIZE enc_off enc_len;
              Some (c_int (int (ETH_HEADER_SIZE + enc_len)), st, packet, pkt_id, frag_index) } } } } })"

lemma is_v4_parts: "length h = 12 \<Longrightarrow> pkt_is_ipv4_eth (h @ [8, 0] @ z) = Some True"
  by (simp add: pkt_is_ipv4_eth_def nth_append be16_of_def)

lemma write_counter_parts:
  assumes "length h = 12" "length n = 16" "ns \<le> 16" "length j = ns"
  shows "crypto_write_counter (h @ [x, y] @ j @ z) n ns m p = Some (h @ [m, p] @ take ns n @ z)"
  using assms by (simp add: crypto_write_counter_def list_update_append)

lemma read_counter_parts:
  assumes "length h = 12" "length n = 16" "ns \<le> 16"
  shows "crypto_read_counter (h @ [m, p] @ take ns n @ z) ns =
    Some (take ns n @ replicate (16 - ns) 0, p, drop_bit 7 ((take ns n @ replicate (16 - ns) 0) ! 0))"
  using assms by (simp add: crypto_read_counter_def nth_append)

lemma l2_encrypt_parts:
  assumes "evp_ok lib" "crypto_ready st ctx" "g_fake_ethertype_ipv4 st \<noteq> 0"
    and "length h = 12" "8 \<le> length d" "length d < 2 ^ 30"
    and "g_nonce_size st + gcm_tag_len st \<le> length r"
  shows "\<exists>s n key. crypto_layer2_encrypt lib ctx st (h @ [8, 0] @ d @ r) (14 + length d) =
      Some (int (14 + length d + g_nonce_size st + gcm_tag_len st), s,
        h @ [hi8 (g_fake_ethertype_ipv4 st), g_policy_id st] @ take (g_nonce_size st) n
          @ cipher_text lib s key n d @ cipher_tag lib s key n d @ drop (g_nonce_size st + gcm_tag_len st) r)
    \<and> crypto_ready s ctx \<and> same_cipher st s \<and> length n = 16 \<and> key = pc_keys ctx ! 1
    \<and> take 4 n = nonce_prefix (fst (packet_crypto_next_counter st)) 0"
proof -
  let ?ns = "g_nonce_size st"
  obtain c n s where n: "packet_crypto_next_counter st = (c, st\<lparr>g_nonce_counter := g_nonce_counter st + 1\<rparr>)"
    "crypto_generate_nonce lib (st\<lparr>g_nonce_counter := g_nonce_counter st + 1\<rparr>) c PROTO_FLAG_IPV4 =
      Some (n, if g_crypto_mode st = CRYPTO_MODE_CTR then 16 else ?ns, s)"
    "length n = 16" "crypto_ready s ctx" "same_cipher st s" "take 4 n = nonce_prefix c 0"
    by (rule next_nonce [OF assms(1,2)])
  define K where "K = pc_keys ctx ! 1"
  note key = current_key [OF assms(2), folded K_def]
  note sc = same_cipher_eqs [OF n(5)]
  have ns: "?ns \<le> 16" using assms(2) by (simp add: crypto_ready_def)
  have tl: "gcm_tag_len s = gcm_tag_len st" by (simp add: sc)
  define nl where "nl = (if g_crypto_mode st = CRYPTO_MODE_CTR then 16 else ?ns)"
  define j where "j = take ?ns (d @ r)"
  have j: "length j = ?ns" using assms by (simp add: j_def)
  define r1 where "r1 = drop ?ns r"
  define h2 where "h2 = h @ [hi8 (g_fake_ethertype_ipv4 st), g_policy_id st] @ take ?ns n"
  have move: "mem_move (h @ [8, 0] @ d @ r) (14 + ?ns) 14 (length d) =
      Some (h @ [8, 0] @ j @ d @ r1)"
    using mem_move_right [of 14 "h @ [8, 0]" "14 + ?ns" ?ns "length d" d r] assms by (simp add: r1_def j_def)
  have wc: "crypto_write_counter (h @ [8, 0] @ j @ d @ r1) n ?ns (hi8 (g_fake_ethertype_ipv4 st)) (g_policy_id st)
      = Some (h2 @ d @ r1)"
    using assms n ns j unfolding h2_def by (subst write_counter_parts) auto
  have h2: "length h2 = 14 + ?ns" using assms n ns by (simp add: h2_def)
  obtain q where q: "seal_range lib s K n nl (h2 @ d @ r1)
       (14 + ?ns) (int (length d)) = Some (0, s\<lparr>tls_enc := q\<rparr>,
       h2 @ cipher_text lib s K n d @ r1, cipher_tag lib s K n d)"
    "crypto_ready (s\<lparr>tls_enc := q\<rparr>) ctx"
    by (rule seal_ready [OF assms(1) n(4,3), folded K_def, of d "14 + ?ns" h2 nl r1])
       (use assms h2 sc in \<open>auto simp: nl_def\<close>)
  let ?s = "s\<lparr>tls_enc := q\<rparr>"
  have pt: "put_tag ?s (h2 @ cipher_text lib s K n d @ r1)
       (14 + ?ns + length d) (cipher_tag lib s K n d) =
     Some (h2 @ cipher_text lib s K n d @ cipher_tag lib s K n d @ drop (?ns + gcm_tag_len s) r)"
    using put_tag_parts [OF assms(1), of "14 + ?ns + length d" "h2 @ cipher_text lib s K n d" ?s r1
        K n d] assms h2 tl
    by (simp add: r1_def add.commute)
  have v4: "pkt_is_ipv4_eth (h @ [8, 0] @ d @ r) = Some True" using is_v4_parts [OF assms(4)] by simp
  have mk: "l2_fake_marker_byte st (h @ [8, 0] @ d @ r) = Some (Some (hi8 (g_fake_ethertype_ipv4 st)))"
    using assms(3) v4 by (simp add: l2_fake_marker_byte_def)
  have mv: "mem_move (h @ [8, 0] @ d @ r) (l2_enc_start_offset ?ns) ETH_HEADER_SIZE (sz_sub (14 + length d) ETH_HEADER_SIZE) =
      Some (h @ [8, 0] @ j @ d @ r1)"
    using move by (simp add: l2_enc_start_offset_def ETH_HEADER_SIZE_def)
  have cl: "c_int (int (length d)) = int (length d)" "g_nonce_size st \<le> 16" "gcm_tag_len st \<le> 16"
    using assms(6) ns by (simp_all add: c_int_id gcm_tag_len_def AES128_GCM_TAG_SIZE_def)
  have "crypto_layer2_encrypt lib ctx st (h @ [8, 0] @ d @ r) (14 + length d) =
      Some (int (14 + length d + ?ns + gcm_tag_len st), ?s,
        h2 @ cipher_text lib s K n d @ cipher_tag lib s K n d
           @ drop (?ns + gcm_tag_len st) r)"
    using assms(2,5,6) cl
    unfolding crypto_layer2_encrypt_def v4 mk mv
    by (simp del: append_assoc append.simps add: n(1) n(2) [folded nl_def] key wc l2_enc_start_offset_def ETH_HEADER_SIZE_def MIN_ETH_PKT_def q pt tl
        crypto_ready_def mv move c_int_id Let_def)
  moreover have "crypto_ready ?s ctx" by (rule q(2))
  moreover have "same_cipher st ?s" using n(5) by simp
  ultimately show ?thesis using n(1,3,6) unfolding h2_def
    by (intro exI [of _ ?s] exI [of _ n] exI [of _ K]) (simp add: K_def)
qed

text \<open>The IPv4 packets that \<open>verify_ipv4_after_decrypt\<close> accepts.\<close>

definition l2_plain_ok :: "u8 list \<Rightarrow> bool" where
  "l2_plain_ok d = (20 \<le> length d \<and> d ! 8 \<noteq> 0 \<and> d ! 9 \<in> {1, 2, 6, 17, 47, 50, 51, 58, 89, 132})"

lemma verify_ipv4_parts: "off = length a \<Longrightarrow> l2_plain_ok d \<Longrightarrow>
  verify_ipv4_after_decrypt (a @ d @ z) off (length d) = Some True"
  by (simp add: verify_ipv4_after_decrypt_def l2_plain_ok_def nth_append)

lemma restore_parts: "length h = 12 \<Longrightarrow> crypto_restore_ipv4_header (h @ [x, y] @ z) = Some (h @ [8, 0] @ z)"
  by (simp add: crypto_restore_ipv4_header_def list_update_append)

lemma l2_decrypt_parts:
  assumes "evp_ok lib" "crypto_ready t ctx" "same_cipher s t"
    and "g_fake_ethertype_ipv4 t \<noteq> 0" "m = hi8 (g_fake_ethertype_ipv4 t)"
    and "length h = 12" "length n = 16" "d \<noteq> []" "length d < 2 ^ 30"
    and "K = pc_keys ctx ! 1" "ct = cipher_text lib s K n d" "ct ! 0 \<noteq> L2_FRAG_MAGIC"
    and "is_gcm t \<or> l2_plain_ok d" "d ! 0 \<noteq> 8"
  shows "\<exists>t' rest. crypto_layer2_decrypt lib ctx t
      (h @ [m, p] @ take (g_nonce_size t) n @ ct @ cipher_tag lib s K n d @ z)
      (14 + g_nonce_size t + length d + gcm_tag_len t)
    = Some (int (14 + length d), t', h @ [8, 0] @ d @ rest) \<and> crypto_ready t' ctx"
proof -
  let ?ns = "g_nonce_size t"
  have ns: "?ns \<le> 16" "pc_initialized ctx" using assms(2) by (auto simp: crypto_ready_def)
  note sc = same_cipher_eqs [OF assms(3)]
  note key = current_key [OF assms(2), folded assms(10)]
  define nn where "nn = take ?ns n"
  define n2 where "n2 = nn @ replicate (16 - ?ns) 0"
  define a where "a = h @ [m, p] @ nn"
  define nl where "nl = (if is_gcm t then ?ns else AES128_IV_SIZE)"
  define tg where "tg = cipher_tag lib s K n d"
  define rest where "rest = drop (length d) (nn @ d) @ tg @ z"
  have lens: "length a = 14 + ?ns" "length ct = length d" "length tg = gcm_tag_len t" "length nn = ?ns" "length n2 = 16"
    using assms ns sc by (simp_all add: a_def nn_def n2_def tg_def)
  have n2: "take ?ns n2 = take ?ns n" using assms ns by (simp add: n2_def nn_def)
  define b where "b = a @ ct @ tg @ z"
  have rc: "crypto_read_counter b ?ns = Some (n2, p, drop_bit 7 (n2 ! 0))"
    unfolding b_def a_def n2_def nn_def using read_counter_parts [OF assms(6,7) ns(1), of m p "ct @ tg @ z"] by simp
  obtain tag where tag: "split_tag t b (14 + ?ns) (length d + gcm_tag_len t) = Some (Some (length d, tag))"
    "tag = tg \<or> \<not> is_gcm t"
    using split_tag_parts [OF assms(1), of "14 + ?ns" a ct "length d" "length d + gcm_tag_len t" t K n d z] lens
      same_cipher_text(2) [OF assms(3), of lib K n d]
    unfolding b_def tg_def by auto
  obtain q where q: "open_range lib t K n2 nl b (14 + ?ns) (int (length d)) tag
      = Some (0, t\<lparr>tls_dec := q\<rparr>, a @ d @ tg @ z)" "crypto_ready (t\<lparr>tls_dec := q\<rparr>) ctx"
    unfolding b_def assms(11)
    by (rule open_ready [OF assms(1-3) lens(5) assms(7) n2, of d "14 + ?ns" a nl tag "tg @ z", folded assms(10)])
       (use assms lens tag in \<open>auto simp: nl_def tg_def\<close>)
  have mv: "mem_move (h @ [8, 0] @ nn @ d @ tg @ z) 14 (14 + ?ns) (length d)
      = Some (h @ [8, 0] @ d @ rest)"
    using mem_move_left [of 14 "h @ [8, 0]" "14 + ?ns" nn "length d" d "tg @ z"] assms(6) lens by (simp add: rest_def)
  have rs: "crypto_restore_ipv4_header (a @ d @ tg @ z) = Some (h @ [8, 0] @ nn @ d @ tg @ z)"
    using restore_parts [OF assms(6), of m p "nn @ d @ tg @ z"] by (simp add: a_def)
  have mk: "l2_has_fake_marker t b = Some True"
    using assms by (simp add: l2_has_fake_marker_def b_def a_def nth_append)
  have fr: "rd b (14 + ?ns) = Some (ct ! 0)" "ct \<noteq> []"
    using lens assms(8) by (auto simp: b_def nth_append)
  have w: "rd (a @ d @ tg @ z) (14 + ?ns) = Some (d ! 0)" "\<exists>y. rd (a @ d @ tg @ z) (14 + ?ns + 1) = Some y"
    using lens assms(8,13) by (auto simp: nth_append rd_def gcm_tag_len_def AES128_GCM_TAG_SIZE_def l2_plain_ok_def)
  then obtain y where y: "rd (a @ d @ tg @ z) (14 + ?ns + 1) = Some y" by blast
  have vr: "is_gcm t \<or> verify_ipv4_after_decrypt (a @ d @ tg @ z) (14 + ?ns) (length d) = Some True"
    using verify_ipv4_parts [of "14 + ?ns" a d] lens assms(13) by auto
  have cl: "c_int (int (length d)) = int (length d)" "c_int (int (14 + length d)) = int (14 + length d)"
    using assms(9) by (simp_all add: c_int_id)
  have "crypto_layer2_decrypt lib ctx t b (14 + ?ns + length d + gcm_tag_len t)
    = Some (int (14 + length d), t\<lparr>tls_dec := q\<rparr>, h @ [8, 0] @ d @ rest)"
    using vr assms(12,14) ns fr
    unfolding crypto_layer2_decrypt_def Let_def nl_def [symmetric] l2_enc_start_offset_def ETH_HEADER_SIZE_def
    by (auto simp del: append_assoc append.simps One_nat_def rd_Some
        simp: key mk rc tag q w y [simplified] rs mv cl cl [simplified])
  then show ?thesis using q(2) unfolding b_def a_def nn_def tg_def by auto
qed

section \<open>Properties of whole packets\<close>

text \<open>Layer 2 encryption of an IPv4 frame in a buffer with room for nonce and tag stays inside the
  buffer, succeeds, keeps the MAC addresses, replaces the EtherType by the marker and the policy id,
  and lays out nonce, ciphertext and tag after it; the nonce starts with the packet counter.\<close>

lemma l2_encrypt_layout:
  assumes "evp_ok lib" "crypto_ready st ctx" "g_fake_ethertype_ipv4 st \<noteq> 0"
    and "length h = 12" "8 \<le> length d" "length d < 2 ^ 30" "g_nonce_size st + gcm_tag_len st \<le> length r"
  shows "\<exists>s n. crypto_layer2_encrypt lib ctx st (h @ [8, 0] @ d @ r) (14 + length d) =
      Some (int (14 + length d + g_nonce_size st + gcm_tag_len st), s,
        h @ [hi8 (g_fake_ethertype_ipv4 st), g_policy_id st] @ take (g_nonce_size st) n
          @ cipher_text lib s (pc_keys ctx ! 1) n d @ cipher_tag lib s (pc_keys ctx ! 1) n d
          @ drop (g_nonce_size st + gcm_tag_len st) r)
    \<and> crypto_ready s ctx \<and> take 4 n = nonce_prefix (fst (packet_crypto_next_counter st)) 0"
  using l2_encrypt_parts [OF assms] by blast

text \<open>C6: layer 2 decryption inverts encryption for the sealed frames that do not look like a fragment: what one thread
  encrypts, a thread with the same keys and cipher parameters decrypts to the original frame, provided that the first
  ciphertext byte is not the fragment magic 0x5B, that the first payload byte is not 8, and that in CTR mode the payload passes
  the plausibility check. A frame whose ciphertext happens to start with 0x5B, one in 256, is taken for a fragment and not
  decrypted; the theorem says nothing about it.\<close>

theorem l2_decrypt_inverts_encrypt:
  assumes "evp_ok lib" "crypto_ready st ctx" "crypto_ready t ctx" "same_cipher st t"
    and "g_fake_ethertype_ipv4 st \<noteq> 0" "g_fake_ethertype_ipv4 t = g_fake_ethertype_ipv4 st"
    and "length h = 12" "8 \<le> length d" "length d < 2 ^ 30" "g_nonce_size st + gcm_tag_len st \<le> length r"
    and "is_gcm st \<or> l2_plain_ok d" "d ! 0 \<noteq> 8"
    and "crypto_layer2_encrypt lib ctx st (h @ [8, 0] @ d @ r) (14 + length d) = Some (len, s, b)"
    and "b ! (14 + g_nonce_size st) \<noteq> L2_FRAG_MAGIC"
  shows "\<exists>t' rest. crypto_layer2_decrypt lib ctx t b (nat len) = Some (int (14 + length d), t', h @ [8, 0] @ d @ rest)"
proof -
  obtain s' n K where e: "crypto_layer2_encrypt lib ctx st (h @ [8, 0] @ d @ r) (14 + length d) =
      Some (int (14 + length d + g_nonce_size st + gcm_tag_len st), s',
        h @ [hi8 (g_fake_ethertype_ipv4 st), g_policy_id st] @ take (g_nonce_size st) n
          @ cipher_text lib s' K n d @ cipher_tag lib s' K n d @ drop (g_nonce_size st + gcm_tag_len st) r)"
    "same_cipher st s'" "length n = 16" "K = pc_keys ctx ! 1"
    using l2_encrypt_parts [OF assms(1,2,5,7-10)] by blast
  have sc: "same_cipher s' t" using e(2) assms(4) by (simp add: same_cipher_def)
  note q = same_cipher_eqs [OF assms(4)]
  have b: "b = h @ [hi8 (g_fake_ethertype_ipv4 st), g_policy_id st] @ take (g_nonce_size t) n
          @ cipher_text lib s' K n d @ cipher_tag lib s' K n d @ drop (g_nonce_size st + gcm_tag_len st) r"
    and len: "nat len = 14 + g_nonce_size t + length d + gcm_tag_len t"
    using assms(13) e(1) q by auto
  have "g_nonce_size t \<le> 16" using assms(3) by (simp add: crypto_ready_def)
  then have "length (take (g_nonce_size t) n) = g_nonce_size t" "cipher_text lib s' K n d \<noteq> []"
    using e(3) assms(8) cipher_text_length [OF assms(1), of s' K n d] by auto
  then have "b ! (14 + g_nonce_size st) = cipher_text lib s' K n d ! 0"
    unfolding b using q assms(7) by (auto simp: nth_append)
  then have nm: "cipher_text lib s' K n d ! 0 \<noteq> L2_FRAG_MAGIC" using assms(14) by simp
  have "g_fake_ethertype_ipv4 t \<noteq> 0" "hi8 (g_fake_ethertype_ipv4 st) = hi8 (g_fake_ethertype_ipv4 t)" "d \<noteq> []"
    "is_gcm t \<or> l2_plain_ok d"
    using assms q by auto
  from l2_decrypt_parts [OF assms(1,3) sc this(1,2) assms(7) e(3) this(3) assms(9) e(4) refl nm this(4) assms(12)]
  show ?thesis unfolding b len by blast
qed

text \<open>A defect of the format: when the first ciphertext byte of an encrypted packet happens to be
  the fragment magic \<open>0x5B\<close>, decryption takes the packet for a fragment and returns it unchanged, as
  ciphertext, with a success code.\<close>

lemma l2_magic_collision_not_decrypted:
  assumes "pc_initialized ctx" "g_fake_ethertype_ipv4 t \<noteq> 0" "pkt_len \<le> length b" "pkt_len < 2 ^ 31"
    and "14 + g_nonce_size t + 1 \<le> pkt_len" "b ! 12 = hi8 (g_fake_ethertype_ipv4 t)"
    and "b ! (14 + g_nonce_size t) = L2_FRAG_MAGIC"
  shows "crypto_layer2_decrypt lib ctx t b pkt_len = Some (int pkt_len, t, b)"
  using assms
  by (simp add: crypto_layer2_decrypt_def l2_has_fake_marker_def l2_enc_start_offset_def ETH_HEADER_SIZE_def Let_def)

text \<open>An unauthenticated short packet reaches an out-of-bounds move. In GCM mode a packet that ends
  with its tag has ciphertext length 0, which \<open>crypto_aes_gcm_decrypt\<close> accepts without checking the
  tag; when the tag starts with 08 00, the move of \<open>enc_len - 2\<close> bytes has a length of
  \<open>2 ^ 64 - 2\<close>, beyond any buffer.\<close>

lemma l2_empty_gcm_payload_faults:
  assumes "pc_initialized ctx" "length (pc_keys ctx) = 3" "is_gcm t" "g_nonce_size t \<le> 16"
    and "g_fake_ethertype_ipv4 t \<noteq> 0" "b ! 12 = hi8 (g_fake_ethertype_ipv4 t)"
    and "pkt_len = 14 + g_nonce_size t + 16" "pkt_len \<le> length b" "length b < 2 ^ 63"
    and "b ! (14 + g_nonce_size t) = 0x08" "b ! (14 + g_nonce_size t + 1) = 0x00"
  shows "crypto_layer2_decrypt lib ctx t b pkt_len = None"
proof -
  let ?ns = "g_nonce_size t"
  obtain n p f where rc: "crypto_read_counter b ?ns = Some (n, p, f)"
    using assms by (simp add: crypto_read_counter_def)
  obtain tag where tag: "split_tag t b (14 + ?ns) 16 = Some (Some (0, tag))"
    using assms by (simp add: split_tag_def AES128_GCM_TAG_SIZE_def)
  have key: "packet_crypto_get_key ctx KEY_SLOT_CURRENT = Some (pc_keys ctx ! 1)"
    by (simp add: packet_crypto_get_key_def KEY_SLOT_CURRENT_def KEY_SLOT_COUNT_def)
  have op: "open_range lib t k n nl b off (c_int (int 0)) tag = Some (0, t, b)" for k nl off
    using assms(3) by (simp add: open_range_def crypto_aes_gcm_decrypt_def)
  have "crypto_restore_ipv4_header b = Some (b[12 := 8, 13 := 0])"
    using assms by (simp add: crypto_restore_ipv4_header_def)
  moreover have "mem_move (b[12 := 8, 13 := 0]) 14 (14 + ?ns + 2) (sz_sub 0 2) = None"
    using assms by (simp add: mem_move_def sz_sub_def rdn_def)
  ultimately show ?thesis
    using assms rc tag key op
    by (simp add: crypto_layer2_decrypt_def l2_has_fake_marker_def l2_enc_start_offset_def ETH_HEADER_SIZE_def
        L2_FRAG_MAGIC_def Let_def)
qed

section \<open>Witnesses\<close>

theorem l2_decrypt_inverts_encrypt_witness:
  "\<exists>len s b t' rest.
     crypto_layer2_encrypt toy_lib sample_ctx (sample_crypto 1) (replicate 12 2 @ [8, 0] @ sample_ip @ replicate 28 0) (14 + length sample_ip)
       = Some (len, s, b) \<and>
     crypto_layer2_decrypt toy_lib sample_ctx (sample_crypto 1) b (nat len)
       = Some (int (14 + length sample_ip), t', replicate 12 2 @ [8, 0] @ sample_ip @ rest)"
proof -
  obtain s n K where e: "crypto_layer2_encrypt toy_lib sample_ctx (sample_crypto 1)
      (replicate 12 2 @ [8, 0] @ sample_ip @ replicate 28 0) (14 + length sample_ip) =
      Some (int (14 + length sample_ip + 12 + 16), s, replicate 12 2 @ [hi8 0x88B5, 1] @ take 12 n @ cipher_text toy_lib s K n sample_ip
         @ cipher_tag toy_lib s K n sample_ip @ drop 28 (replicate 28 0))" "length n = 16"
    using l2_encrypt_parts [OF toy_lib_ok sample_ready(1), of "replicate 12 2" sample_ip "replicate 28 0"] by auto
  have "(replicate 12 2 @ [hi8 0x88B5, 1] @ take 12 n @ cipher_text toy_lib s K n sample_ip
         @ cipher_tag toy_lib s K n sample_ip @ drop 28 (replicate 28 0)) ! (14 + g_nonce_size (sample_crypto 1)) \<noteq> L2_FRAG_MAGIC"
    using e(2) by (simp add: nth_append toy_cipher_text L2_FRAG_MAGIC_def)
  from l2_decrypt_inverts_encrypt [OF toy_lib_ok sample_ready(1) sample_ready(1) _ _ _ _ _ _ _ _ _ e(1) this]
  show ?thesis using e(1) by auto
qed

section \<open>Fragments\<close>

lemma write_counter_over:
  assumes "length h = 14" "length n = 16" "length j = ns" "ns \<le> 16"
  shows "crypto_write_counter (h @ j @ z) n ns m p = Some (take 12 h @ [m, p] @ take ns n @ z)"
proof -
  obtain x y where h: "h = take 12 h @ [x, y]"
  proof -
    have "drop 12 h = [h ! 12, h ! 13]" using assms(1) by (intro nth_equalityI) (auto simp: less_2_cases_iff)
    then have "h = take 12 h @ [h ! 12, h ! 13]" by (metis append_take_drop_id)
    then show ?thesis using that by blast
  qed
  have "crypto_write_counter (take 12 h @ [x, y] @ j @ z) n ns m p = Some (take 12 h @ [m, p] @ take ns n @ z)"
    by (rule write_counter_parts) (use assms in simp_all)
  then show ?thesis using h by (metis append_assoc)
qed

lemma l2_encrypt_fragment_parts:
  assumes "evp_ok lib" "crypto_ready st ctx" "g_fake_ethertype_ipv4 st \<noteq> 0"
    and "length h = 12" "d \<noteq> []" "length d < 2 ^ 30" "out_max \<le> length out"
    and "14 + g_nonce_size st + 5 + length d + gcm_tag_len st \<le> out_max"
  shows "\<exists>s n K rest. crypto_layer2_encrypt_fragment_single lib ctx st (h @ [8, 0] @ e) d pkt_id idx out out_max ol =
      Some (0, s, h @ [hi8 (g_fake_ethertype_ipv4 st), g_policy_id st] @ take (g_nonce_size st) n @ [L2_FRAG_MAGIC]
         @ [hi8 pkt_id, lo8 pkt_id, idx, 0] @ cipher_text lib s K n d @ cipher_tag lib s K n d @ rest,
         14 + g_nonce_size st + 5 + length d + gcm_tag_len st)
    \<and> crypto_ready s ctx \<and> same_cipher st s \<and> length n = 16 \<and> K = pc_keys ctx ! 1
    \<and> take 4 n = nonce_prefix (fst (packet_crypto_next_counter st)) 0 \<and> length rest + (14 + g_nonce_size st + 5 + length d + gcm_tag_len st) = length out"
proof -
  let ?ns = "g_nonce_size st"
  obtain c n s where n: "packet_crypto_next_counter st = (c, st\<lparr>g_nonce_counter := g_nonce_counter st + 1\<rparr>)"
    "crypto_generate_nonce lib (st\<lparr>g_nonce_counter := g_nonce_counter st + 1\<rparr>) c PROTO_FLAG_IPV4 =
      Some (n, if g_crypto_mode st = CRYPTO_MODE_CTR then 16 else ?ns, s)"
    "length n = 16" "crypto_ready s ctx" "same_cipher st s" "take 4 n = nonce_prefix c 0"
    by (rule next_nonce [OF assms(1,2)])
  define K where "K = pc_keys ctx ! 1"
  define nl where "nl = (if g_crypto_mode st = CRYPTO_MODE_CTR then 16 else ?ns)"
  define mk where "mk = hi8 (g_fake_ethertype_ipv4 st)"
  note key = current_key [OF assms(2), folded K_def]
  note sc = same_cipher_eqs [OF n(5)]
  have ns: "?ns \<le> 16" "pc_initialized ctx" using assms(2) by (auto simp: crypto_ready_def)
  have "14 + ?ns + 1 + 4 + length d \<le> length out" using assms by simp
  then obtain o0 o1 o2 o3 o4 o5 where o: "out = o0 @ o1 @ o2 @ o3 @ o4 @ o5" "length o0 = 14" "length o1 = ?ns"
    "length o2 = 1" "length o3 = 4" "length o4 = length d" "length o5 = length out - (14 + ?ns + 1 + 4 + length d)"
    by (rule split_parts5)
  from o(4) obtain o2' where o2: "o2 = [o2']" by (auto simp: length_Suc_conv)
  define w where "w = h @ [mk, g_policy_id st] @ take ?ns n @ [L2_FRAG_MAGIC] @ [hi8 pkt_id, lo8 pkt_id, idx, 0]"
  have w: "length w = 19 + ?ns" using assms n ns by (simp add: w_def)
  have rh: "rdn (h @ [8, 0] @ e) 0 14 = Some (h @ [8, 0])" using assms(4) by simp
  have s1: "wrn out 0 (h @ [8, 0]) = Some ((h @ [8, 0]) @ o1 @ o2 @ o3 @ o4 @ o5)"
    unfolding o(1) using assms(4) o(2) by simp
  have s2: "crypto_write_counter ((h @ [8, 0]) @ o1 @ o2 @ o3 @ o4 @ o5) n ?ns mk (g_policy_id st)
     = Some (h @ [mk, g_policy_id st] @ take ?ns n @ o2 @ o3 @ o4 @ o5)"
    using write_counter_over [of "h @ [8, 0]" n o1 ?ns "o2 @ o3 @ o4 @ o5" mk "g_policy_id st"] assms(4) n(3) o(3) ns by simp
  have s3: "wr (h @ [mk, g_policy_id st] @ take ?ns n @ o2 @ o3 @ o4 @ o5) (14 + ?ns) L2_FRAG_MAGIC
     = Some (h @ [mk, g_policy_id st] @ take ?ns n @ [L2_FRAG_MAGIC] @ o3 @ o4 @ o5)"
    using wr_mid [of "14 + ?ns" "h @ [mk, g_policy_id st] @ take ?ns n" o2' "o3 @ o4 @ o5" L2_FRAG_MAGIC] assms(4) n(3) ns
    by (simp add: o2)
  have s4: "write_frag_tag (h @ [mk, g_policy_id st] @ take ?ns n @ [L2_FRAG_MAGIC] @ o3 @ o4 @ o5) (15 + ?ns) pkt_id idx
     = Some (w @ o4 @ o5)"
    using frag_tag_parts [of "15 + ?ns" "h @ [mk, g_policy_id st] @ take ?ns n @ [L2_FRAG_MAGIC]" o3 "o4 @ o5" pkt_id idx]
      assms(4) n(3) ns o(5) by (simp add: w_def)
  have s5: "wrn (w @ o4 @ o5) (19 + ?ns) d = Some (w @ d @ o5)"
    using w o(6) by (intro wrn_mid) simp_all
  obtain q where q: "seal_range lib s K n nl (w @ d @ o5) (19 + ?ns) (int (length d)) =
      Some (0, s\<lparr>tls_enc := q\<rparr>, w @ cipher_text lib s K n d @ o5, cipher_tag lib s K n d)"
    "crypto_ready (s\<lparr>tls_enc := q\<rparr>) ctx"
    by (rule seal_ready [OF assms(1) n(4,3), folded K_def, of d "19 + ?ns" w nl o5])
       (use assms w sc in \<open>auto simp: nl_def\<close>)
  let ?s = "s\<lparr>tls_enc := q\<rparr>"
  have pt: "put_tag ?s (w @ cipher_text lib s K n d @ o5) (19 + ?ns + length d) (cipher_tag lib s K n d)
     = Some (w @ cipher_text lib s K n d @ cipher_tag lib s K n d @ drop (gcm_tag_len st) o5)"
    using put_tag_parts [OF assms(1), of "19 + ?ns + length d" "w @ cipher_text lib s K n d" ?s o5 K n d] assms w o(7) sc
    by simp
  have mkr: "l2_fake_marker_byte st (h @ [8, 0] @ e) = Some (Some mk)"
    using assms(3) is_v4_parts [OF assms(4), of e] by (simp add: l2_fake_marker_byte_def mk_def)
  have cl: "c_int (int (length d)) = int (length d)" using assms(6) by (simp add: c_int_id)
  have nd: "\<not> out_max < 14 + ?ns + 1 + 4 + length d + gcm_tag_len st" "\<not> out_max < 19 + ?ns + length d + gcm_tag_len st"
    using assms(8) by simp_all
  have off: "l2_frag_enc_start_offset ?ns = 19 + ?ns"
    by (simp add: l2_frag_enc_start_offset_def ETH_HEADER_SIZE_def FRAG_HDR_SIZE_def)
  have "crypto_layer2_encrypt_fragment_single lib ctx st (h @ [8, 0] @ e) d pkt_id idx out out_max ol =
      Some (0, ?s, w @ cipher_text lib s K n d @ cipher_tag lib s K n d @ drop (gcm_tag_len st) o5,
        19 + ?ns + length d + gcm_tag_len st)"
    using ns(2) assms(5) is_v4_parts [OF assms(4), of e] nd
    unfolding crypto_layer2_encrypt_fragment_single_def Let_def off
    by (simp del: append_assoc append.simps One_nat_def rdn_Some wrn_Some wr_Some
        add: ETH_HEADER_SIZE_def rh s1 mkr n(1) n(2) [folded nl_def] key s2 s3 s4 s5 cl q(1) pt)
  moreover have "length (drop (gcm_tag_len st) o5) + (14 + ?ns + 5 + length d + gcm_tag_len st) = length out"
    using o(7) assms(7,8) by simp
  ultimately show ?thesis using q(2) n(1,3,5,6)
    by (intro exI [of _ ?s] exI [of _ n] exI [of _ K] exI [of _ "drop (gcm_tag_len st) o5"])
       (simp add: w_def mk_def K_def add.commute add.left_commute)
qed

lemma l2_decrypt_fragment_parts:
  assumes "evp_ok lib" "crypto_ready t ctx" "same_cipher s t"
    and "g_fake_ethertype_ipv4 t \<noteq> 0" "m = hi8 (g_fake_ethertype_ipv4 t)"
    and "length h = 12" "length n = 16" "d \<noteq> []" "length d < 2 ^ 30"
    and "K = pc_keys ctx ! 1"
  shows "\<exists>t' rest. crypto_layer2_decrypt_fragment lib ctx t
      (h @ [m, p] @ take (g_nonce_size t) n @ [L2_FRAG_MAGIC] @ [hi8 pkt_id, lo8 pkt_id, idx, 0]
         @ cipher_text lib s K n d @ cipher_tag lib s K n d @ z)
      (14 + g_nonce_size t + 5 + length d + gcm_tag_len t) i0 x0
    = Some (int (14 + length d), t', h @ [m, p] @ d @ rest, pkt_id, idx) \<and> crypto_ready t' ctx"
proof -
  let ?ns = "g_nonce_size t"
  have ns: "?ns \<le> 16" "pc_initialized ctx" using assms(2) by (auto simp: crypto_ready_def)
  note sc = same_cipher_eqs [OF assms(3)]
  note key = current_key [OF assms(2), folded assms(10)]
  define nl where "nl = (if is_gcm t then ?ns else AES128_IV_SIZE)"
  define nn where "nn = take ?ns n"
  define n2 where "n2 = nn @ replicate (16 - ?ns) 0"
  define ct where "ct = cipher_text lib s K n d"
  define tg where "tg = cipher_tag lib s K n d"
  define fh where "fh = nn @ [L2_FRAG_MAGIC] @ [hi8 pkt_id, lo8 pkt_id, idx, 0]"
  define a where "a = h @ [m, p] @ fh"
  define b where "b = a @ ct @ tg @ z"
  have lens: "length a = 19 + ?ns" "length ct = length d" "length tg = gcm_tag_len t" "length nn = ?ns" "length n2 = 16"
    "length fh = 5 + ?ns"
    using assms ns sc by (simp_all add: a_def nn_def n2_def tg_def ct_def fh_def)
  have n2: "take ?ns n2 = take ?ns n" using assms ns by (simp add: n2_def nn_def)
  have rc: "crypto_read_counter b ?ns = Some (n2, p, drop_bit 7 (n2 ! 0))"
    unfolding b_def a_def fh_def n2_def nn_def
    using read_counter_parts [OF assms(6,7) ns(1), of m p "[L2_FRAG_MAGIC] @ [hi8 pkt_id, lo8 pkt_id, idx, 0] @ ct @ tg @ z"] by simp
  have mk: "l2_has_fake_marker t b = Some True"
    using assms by (simp add: l2_has_fake_marker_def b_def a_def nth_append)
  have fm: "rd b (14 + ?ns) = Some L2_FRAG_MAGIC"
    using rd_mid [of "14 + ?ns" "h @ [m, p] @ nn" L2_FRAG_MAGIC "[hi8 pkt_id, lo8 pkt_id, idx, 0] @ ct @ tg @ z"] assms(6) lens
    by (simp add: b_def a_def fh_def)
  have ft: "read_frag_tag b (15 + ?ns) = Some (pkt_id, idx)"
    using read_frag_tag_parts [of "15 + ?ns" "h @ [m, p] @ nn @ [L2_FRAG_MAGIC]" pkt_id idx 0 "ct @ tg @ z"] assms(6) lens
    by (simp add: b_def a_def fh_def)
  obtain tag where tag: "split_tag t b (19 + ?ns) (length d + gcm_tag_len t) = Some (Some (length d, tag))"
    "tag = tg \<or> \<not> is_gcm t"
    using split_tag_parts [OF assms(1), of "19 + ?ns" a ct "length d" "length d + gcm_tag_len t" t K n d z] lens
      same_cipher_text(2) [OF assms(3), of lib K n d]
    unfolding b_def tg_def by auto
  obtain bk where bk: "take_backup b (19 + ?ns) (length d) = Some bk"
    using take_backup_parts [of "19 + ?ns" a "length d" ct "tg @ z"] lens by (auto simp: b_def)
  obtain q where q: "open_range lib t K n2 nl b (19 + ?ns) (int (length d)) tag
      = Some (0, t\<lparr>tls_dec := q\<rparr>, a @ d @ tg @ z)" "crypto_ready (t\<lparr>tls_dec := q\<rparr>) ctx"
    unfolding b_def ct_def assms(10)
    by (rule open_ready [OF assms(1-3) lens(5) assms(7) n2, of d "19 + ?ns" a nl tag "tg @ z"])
       (use assms lens tag in \<open>auto simp: nl_def tg_def\<close>)
  have cl: "c_int (int (length d)) = int (length d)" "c_int (int (14 + length d)) = int (14 + length d)"
    using assms(9) by (simp_all add: c_int_id)
  have tk: "try_keys lib ctx n2 nl (19 + ?ns) (length d) tag bk (\<lambda>_. Some True) 0 key_order t b
      = Some (True, t\<lparr>tls_dec := q\<rparr>, a @ d @ tg @ z)"
    unfolding key_order_def by (rule try_keys_first [OF key(1)]) (use q cl in simp_all)
  have mv: "mem_move (a @ d @ tg @ z) 14 (19 + ?ns) (length d)
      = Some (h @ [m, p] @ d @ drop (length d) (fh @ d) @ tg @ z)"
    using mem_move_left [of 14 "h @ [m, p]" "19 + ?ns" fh "length d" d "tg @ z"] assms(6) lens
    by (simp add: a_def)
  have off: "l2_frag_enc_start_offset ?ns = 19 + ?ns"
    by (simp add: l2_frag_enc_start_offset_def ETH_HEADER_SIZE_def FRAG_HDR_SIZE_def)
  have pl: "14 + ?ns + 5 + length d + gcm_tag_len t = 19 + ?ns + (length d + gcm_tag_len t)" by simp
  have "crypto_layer2_decrypt_fragment lib ctx t b (14 + ?ns + 5 + length d + gcm_tag_len t) i0 x0
    = Some (int (14 + length d), t\<lparr>tls_dec := q\<rparr>, h @ [m, p] @ d @ drop (length d) (fh @ d) @ tg @ z, pkt_id, idx)"
    using ns
    unfolding crypto_layer2_decrypt_fragment_def Let_def nl_def [symmetric] off ETH_HEADER_SIZE_def pl
    by (simp del: append_assoc append.simps One_nat_def rd_Some drop_append
        add: mk fm ft rc tag bk tk mv cl cl [simplified])
  then show ?thesis using q(2) unfolding b_def a_def fh_def nn_def ct_def tg_def by auto
qed

text \<open>Fragments at layer 2 round-trip: a fragment payload encrypted by
  \<open>crypto_layer2_encrypt_fragment_single\<close> into any large enough buffer is decrypted by a thread with the
  same keys to the same payload, packet id and fragment index.\<close>

lemma l2_fragment_roundtrip:
  assumes "evp_ok lib" "crypto_ready st ctx" "crypto_ready t ctx" "same_cipher st t"
    and "g_fake_ethertype_ipv4 st \<noteq> 0" "g_fake_ethertype_ipv4 t = g_fake_ethertype_ipv4 st"
    and "length h = 12" "d \<noteq> []" "length d < 2 ^ 30" "out_max \<le> length out"
    and "14 + g_nonce_size st + 5 + length d + gcm_tag_len st \<le> out_max"
  shows "\<exists>s b len t' rest. crypto_layer2_encrypt_fragment_single lib ctx st (h @ [8, 0] @ e) d pkt_id idx out out_max ol
       = Some (0, s, b, len) \<and> len \<le> out_max \<and> length b = length out \<and>
     crypto_layer2_decrypt_fragment lib ctx t b len i0 x0
       = Some (int (14 + length d), t', h @ [hi8 (g_fake_ethertype_ipv4 st), g_policy_id st] @ d @ rest, pkt_id, idx)"
proof -
  obtain s n K rest where e: "crypto_layer2_encrypt_fragment_single lib ctx st (h @ [8, 0] @ e) d pkt_id idx out out_max ol =
      Some (0, s, h @ [hi8 (g_fake_ethertype_ipv4 st), g_policy_id st] @ take (g_nonce_size st) n @ [L2_FRAG_MAGIC]
         @ [hi8 pkt_id, lo8 pkt_id, idx, 0] @ cipher_text lib s K n d @ cipher_tag lib s K n d @ rest,
         14 + g_nonce_size st + 5 + length d + gcm_tag_len st)"
    "same_cipher st s" "length n = 16" "K = pc_keys ctx ! 1"
    "length rest + (14 + g_nonce_size st + 5 + length d + gcm_tag_len st) = length out"
    using l2_encrypt_fragment_parts [OF assms(1,2,5,7-11)] by blast
  have sc: "same_cipher s t" using e(2) assms(4) by (simp add: same_cipher_def)
  note q = same_cipher_eqs [OF assms(4)] same_cipher_eqs [OF sc]
  have f: "g_fake_ethertype_ipv4 t \<noteq> 0" "hi8 (g_fake_ethertype_ipv4 st) = hi8 (g_fake_ethertype_ipv4 t)" using assms by auto
  have ns: "g_nonce_size t \<le> 16" using assms(3) by (simp add: crypto_ready_def)
  from l2_decrypt_fragment_parts [OF assms(1,3) sc f assms(7) e(3) assms(8,9) e(4), of "g_policy_id st" pkt_id idx rest i0 x0]
  obtain t' rest' where "crypto_layer2_decrypt_fragment lib ctx t
      (h @ [hi8 (g_fake_ethertype_ipv4 st), g_policy_id st] @ take (g_nonce_size st) n @ [L2_FRAG_MAGIC] @ [hi8 pkt_id, lo8 pkt_id, idx, 0]
         @ cipher_text lib s K n d @ cipher_tag lib s K n d @ rest)
      (14 + g_nonce_size st + 5 + length d + gcm_tag_len st) i0 x0
    = Some (int (14 + length d), t', h @ [hi8 (g_fake_ethertype_ipv4 st), g_policy_id st] @ d @ rest', pkt_id, idx)"
    unfolding q by blast
  moreover have "length (h @ [hi8 (g_fake_ethertype_ipv4 st), g_policy_id st] @ take (g_nonce_size st) n @ [L2_FRAG_MAGIC] @ [hi8 pkt_id, lo8 pkt_id, idx, 0]
         @ cipher_text lib s K n d @ cipher_tag lib s K n d @ rest) = length out"
    using e(3,5) assms(1,7) ns q by simp
  ultimately show ?thesis using e(1) assms(11) by blast
qed

end
