(* ===== verification/Layer3.thy ===== *)
theory Layer3
  imports LayerCommon
begin

text \<open>
  \<open>src/crypto/crypto_layer3.c\<close>: the IP payload is encrypted behind a tunnel header of nonce, policy id
  and original protocol; the protocol field carries the fake protocol. Decryption recomputes the TCP or
  UDP checksum. A fragment has the magic byte \<open>0x5C\<close> in place of the original protocol.
\<close>

definition IPV4_PROTO_OFF :: nat where "IPV4_PROTO_OFF = ETH_HEADER_SIZE + 9"
definition IPV4_TOTLEN_OFF :: nat where "IPV4_TOTLEN_OFF = ETH_HEADER_SIZE + 2"
definition CRYPTO_L3_FRAG_MAGIC :: u8 where "CRYPTO_L3_FRAG_MAGIC = 0x5C"

lemmas l3_consts = IPV4_PROTO_OFF_def IPV4_TOTLEN_OFF_def ETH_HEADER_SIZE_def

definition pkt_is_ipv4 :: "buf \<Rightarrow> nat \<Rightarrow> bool option" where
  "pkt_is_ipv4 packet pkt_len =
     (if pkt_len < ETH_HEADER_SIZE + 20 then Some False
      else do { et \<leftarrow> rd_be16 packet 12; Some (et = 0x0800) })"

definition ipv4_hdr_len_at :: "buf \<Rightarrow> nat \<Rightarrow> nat \<Rightarrow> int option" where
  "ipv4_hdr_len_at packet pkt_len l3_off =
     (if pkt_len < l3_off + 20 then Some (-1)
      else do {
        x \<leftarrow> rd packet l3_off;
        let ihl = unat (x AND 0x0F) * 4;
        if ihl < 20 \<or> pkt_len < l3_off + ihl then Some (-1) else Some (int ihl) })"

definition l3_is_frag_tunnel :: "buf \<Rightarrow> nat \<Rightarrow> nat \<Rightarrow> bool option" where
  "l3_is_frag_tunnel b off nonce_size = do { m \<leftarrow> rd b (off + nonce_size + 1); Some (m = CRYPTO_L3_FRAG_MAGIC) }"

definition l3_write_tunnel_header_frag :: "buf \<Rightarrow> nat \<Rightarrow> u8 list \<Rightarrow> nat \<Rightarrow> u8 \<Rightarrow> buf option" where
  "l3_write_tunnel_header_frag b off nonce nonce_size policy_id =
     crypto_write_l3_tunnel_header b off nonce nonce_size policy_id CRYPTO_L3_FRAG_MAGIC"

definition verify_decrypted_payload :: "nat \<Rightarrow> nat \<Rightarrow> u8 \<Rightarrow> buf \<Rightarrow> bool option" where
  "verify_decrypted_payload off len orig_proto b =
     (if orig_proto = 6 \<or> orig_proto = 17 then
        (if len < 4 then Some False
         else do {
           src_port \<leftarrow> rd_be16 b off;
           dst_port \<leftarrow> rd_be16 b (off + 2);
           Some (\<not> (src_port = 0 \<and> dst_port = 0)) })
      else Some True)"

definition crypto_layer3_frag_meta_len :: "crypto_state \<Rightarrow> nat" where
  "crypto_layer3_frag_meta_len st = packet_crypto_get_tunnel_hdr_size st + FRAG_HDR_SIZE + gcm_tag_len st"

definition crypto_layer3_encrypt ::
  "evp_lib \<Rightarrow> packet_crypto_ctx \<Rightarrow> crypto_state \<Rightarrow> buf \<Rightarrow> nat \<Rightarrow> (int \<times> crypto_state \<times> buf) option" where
  "crypto_layer3_encrypt lib ctx st packet pkt_len =
     (if \<not> pc_initialized ctx \<or> pkt_len < ETH_HEADER_SIZE + 8 then Some (-1, st, packet)
      else do {
        v4 \<leftarrow> pkt_is_ipv4 packet pkt_len;
        if \<not> v4 then Some (c_int (int pkt_len), st, packet)
        else do {
        ihl \<leftarrow> ipv4_hdr_len_at packet pkt_len ETH_HEADER_SIZE;
        if ihl < 0 then Some (-1, st, packet)
        else do {
        let ip_hdr_len = nat ihl;
        let tunnel_off = ETH_HEADER_SIZE + ip_hdr_len;
        let nonce_size = g_nonce_size st;
        is_frag \<leftarrow> (if pkt_len \<ge> tunnel_off + nonce_size + 2 then l3_is_frag_tunnel packet tunnel_off nonce_size
                   else Some False);
        if is_frag then Some (c_int (int pkt_len), st, packet)
        else do {
        let tunnel_hdr_size = packet_crypto_get_tunnel_hdr_size st;
        orig_proto \<leftarrow> rd packet IPV4_PROTO_OFF;
        let payload_len = sz_sub pkt_len tunnel_off;
        let (counter, st1) = packet_crypto_next_counter st;
        (nonce, nonce_len, st2) \<leftarrow> crypto_generate_nonce lib st1 counter PROTO_FLAG_IPV4;
        key \<leftarrow> packet_crypto_get_key ctx KEY_SLOT_CURRENT;
        (rc, st3, packet, tag) \<leftarrow> seal_range lib st2 key nonce nonce_len packet tunnel_off (c_int (int payload_len));
        if rc \<noteq> 0 then Some (-1, st3, packet)
        else do {
          packet \<leftarrow> mem_move packet (tunnel_off + tunnel_hdr_size) tunnel_off payload_len;
          packet \<leftarrow> put_tag st3 packet (tunnel_off + tunnel_hdr_size + payload_len) tag;
          packet \<leftarrow> crypto_write_l3_tunnel_header packet tunnel_off nonce nonce_size (g_policy_id st) orig_proto;
          packet \<leftarrow> wr packet IPV4_PROTO_OFF (g_fake_protocol st);
          let total_overhead = tunnel_hdr_size + gcm_tag_len st;
          old_totlen \<leftarrow> rd_be16 packet IPV4_TOTLEN_OFF;
          packet \<leftarrow> l3_patch_ipv4 packet ETH_HEADER_SIZE ip_hdr_len (old_totlen + of_nat total_overhead);
          Some (c_int (int (pkt_len + total_overhead)), st3, packet) } } } } })"

text \<open>The transport checksum that decryption recomputes.\<close>

definition l3_fix_transport :: "buf \<Rightarrow> nat \<Rightarrow> nat \<Rightarrow> u8 \<Rightarrow> buf option" where
  "l3_fix_transport packet ip_hdr_len dec_pkt_len orig_proto =
     (let transport_off = ETH_HEADER_SIZE + ip_hdr_len; seg_len = sz_sub dec_pkt_len transport_off in
      if dec_pkt_len > transport_off then
        (if orig_proto = 6 then
           (if seg_len \<ge> 20 then do {
              packet \<leftarrow> wr packet (transport_off + 16) 0;
              packet \<leftarrow> wr packet (transport_off + 17) 0;
              c \<leftarrow> crypto_calc_tcp_checksum packet ETH_HEADER_SIZE ip_hdr_len transport_off seg_len;
              packet \<leftarrow> wr packet (transport_off + 16) (hi8 c);
              wr packet (transport_off + 17) (lo8 c) }
            else Some packet)
         else if orig_proto = 17 then
           (if seg_len \<ge> 8 then do {
              packet \<leftarrow> wr packet (transport_off + 6) 0;
              packet \<leftarrow> wr packet (transport_off + 7) 0;
              c \<leftarrow> crypto_calc_udp_checksum packet ETH_HEADER_SIZE ip_hdr_len transport_off seg_len;
              packet \<leftarrow> wr packet (transport_off + 6) (hi8 c);
              wr packet (transport_off + 7) (lo8 c) }
            else Some packet)
         else Some packet)
      else Some packet)"

definition crypto_layer3_decrypt ::
  "evp_lib \<Rightarrow> packet_crypto_ctx \<Rightarrow> crypto_state \<Rightarrow> buf \<Rightarrow> nat \<Rightarrow> (int \<times> crypto_state \<times> buf) option" where
  "crypto_layer3_decrypt lib ctx st packet pkt_len =
     (if \<not> pc_initialized ctx \<or> pkt_len < ETH_HEADER_SIZE + 8 then Some (-1, st, packet)
      else do {
        v4 \<leftarrow> pkt_is_ipv4 packet pkt_len;
        if \<not> v4 then Some (c_int (int pkt_len), st, packet)
        else do {
        ihl \<leftarrow> ipv4_hdr_len_at packet pkt_len ETH_HEADER_SIZE;
        if ihl < 0 then Some (c_int (int pkt_len), st, packet)
        else do {
        let ip_hdr_len = nat ihl;
        let tunnel_off = ETH_HEADER_SIZE + ip_hdr_len;
        let tunnel_hdr_size = packet_crypto_get_tunnel_hdr_size st;
        let nonce_size = g_nonce_size st;
        if pkt_len < tunnel_off + tunnel_hdr_size then Some (c_int (int pkt_len), st, packet)
        else do {
        is_frag \<leftarrow> l3_is_frag_tunnel packet tunnel_off nonce_size;
        if is_frag then Some (c_int (int pkt_len), st, packet)
        else do {
        proto \<leftarrow> rd packet IPV4_PROTO_OFF;
        if proto \<noteq> g_fake_protocol st then Some (c_int (int pkt_len), st, packet)
        else do {
        (nonce, proto_flag, policy_id, orig_proto) \<leftarrow> crypto_read_l3_tunnel_header packet tunnel_off nonce_size;
        packet \<leftarrow> wr packet IPV4_PROTO_OFF orig_proto;
        let nonce_len = (if is_gcm st then nonce_size else AES128_IV_SIZE);
        let enc_off = tunnel_off + tunnel_hdr_size;
        parts \<leftarrow> split_tag st packet enc_off (sz_sub pkt_len enc_off);
        case parts of
          None \<Rightarrow> Some (-1, st, packet)
        | Some (enc_len, tag) \<Rightarrow> do {
            backup \<leftarrow> take_backup packet enc_off enc_len;
            let total_overhead = tunnel_hdr_size + gcm_tag_len st;
            (found, st, packet) \<leftarrow> try_keys lib ctx nonce nonce_len enc_off enc_len tag backup
                                   (verify_decrypted_payload enc_off enc_len orig_proto) 0 key_order st packet;
            if \<not> found then Some (-1, st, packet)
            else do {
              packet \<leftarrow> mem_move packet tunnel_off enc_off enc_len;
              packet \<leftarrow> wr packet IPV4_PROTO_OFF orig_proto;
              old_totlen \<leftarrow> rd_be16 packet IPV4_TOTLEN_OFF;
              packet \<leftarrow> l3_patch_ipv4 packet ETH_HEADER_SIZE ip_hdr_len (old_totlen - of_nat total_overhead);
              let dec_pkt_len = sz_sub pkt_len total_overhead;
              packet \<leftarrow> l3_fix_transport packet ip_hdr_len dec_pkt_len orig_proto;
              Some (c_int (int dec_pkt_len), st, packet) } } } } } } } })"

definition crypto_layer3_encrypt_fragment_single ::
  "evp_lib \<Rightarrow> packet_crypto_ctx \<Rightarrow> crypto_state \<Rightarrow> buf \<Rightarrow> buf \<Rightarrow> nat \<Rightarrow> buf \<Rightarrow> u16 \<Rightarrow> u8 \<Rightarrow> buf \<Rightarrow> nat \<Rightarrow> nat
     \<Rightarrow> (int \<times> crypto_state \<times> buf \<times> nat) option" where
  "crypto_layer3_encrypt_fragment_single lib ctx st eth_hdr ip_hdr ip_hdr_len enc_plain pkt_id frag_index
       out_buf out_max out_len =
     (if \<not> pc_initialized ctx then Some (-1, st, out_buf, out_len)
      else if enc_plain = [] \<or> ip_hdr_len < 20 then Some (-1, st, out_buf, out_len)
      else do {
        let nonce_size = g_nonce_size st;
        let tunnel_hdr_size = packet_crypto_get_tunnel_hdr_size st;
        let tunnel_off = ETH_HEADER_SIZE + ip_hdr_len;
        let enc_off = tunnel_off + tunnel_hdr_size + FRAG_HDR_SIZE;
        let need = enc_off + length enc_plain + gcm_tag_len st;
        if need > out_max then Some (-1, st, out_buf, out_len)
        else do {
        eh \<leftarrow> rdn eth_hdr 0 ETH_HEADER_SIZE;
        out_buf \<leftarrow> wrn out_buf 0 eh;
        ih \<leftarrow> rdn ip_hdr 0 ip_hdr_len;
        out_buf \<leftarrow> wrn out_buf ETH_HEADER_SIZE ih;
        out_buf \<leftarrow> wr out_buf IPV4_PROTO_OFF (g_fake_protocol st);
        let (counter, st1) = packet_crypto_next_counter st;
        (nonce, nonce_len, st2) \<leftarrow> crypto_generate_nonce lib st1 counter PROTO_FLAG_IPV4;
        key \<leftarrow> packet_crypto_get_key ctx KEY_SLOT_CURRENT;
        out_buf \<leftarrow> l3_write_tunnel_header_frag out_buf tunnel_off nonce nonce_size (g_policy_id st);
        out_buf \<leftarrow> write_frag_tag out_buf (tunnel_off + tunnel_hdr_size) pkt_id frag_index;
        out_buf \<leftarrow> wrn out_buf enc_off enc_plain;
        (rc, st3, out_buf, tag) \<leftarrow> seal_range lib st2 key nonce nonce_len out_buf enc_off (c_int (int (length enc_plain)));
        if rc \<noteq> 0 then Some (-1, st3, out_buf, out_len)
        else do {
          out_buf \<leftarrow> put_tag st3 out_buf (enc_off + length enc_plain) tag;
          let ip_payload_len = tunnel_hdr_size + FRAG_HDR_SIZE + length enc_plain + gcm_tag_len st;
          out_buf \<leftarrow> l3_patch_ipv4 out_buf ETH_HEADER_SIZE ip_hdr_len (of_nat (ip_hdr_len + ip_payload_len));
          Some (0, st3, out_buf, need) } } })"

definition crypto_layer3_decrypt_fragment ::
  "evp_lib \<Rightarrow> packet_crypto_ctx \<Rightarrow> crypto_state \<Rightarrow> buf \<Rightarrow> nat \<Rightarrow> u16 \<Rightarrow> u8
     \<Rightarrow> (int \<times> crypto_state \<times> buf \<times> u16 \<times> u8) option" where
  "crypto_layer3_decrypt_fragment lib ctx st packet pkt_len pkt_id0 frag_index0 =
     (if \<not> pc_initialized ctx then Some (-1, st, packet, pkt_id0, frag_index0)
      else do {
        v4 \<leftarrow> pkt_is_ipv4 packet pkt_len;
        if \<not> v4 then Some (-1, st, packet, pkt_id0, frag_index0)
        else do {
        ihl \<leftarrow> ipv4_hdr_len_at packet pkt_len ETH_HEADER_SIZE;
        if ihl < 0 then Some (-1, st, packet, pkt_id0, frag_index0)
        else do {
        let ip_hdr_len = nat ihl;
        proto \<leftarrow> rd packet IPV4_PROTO_OFF;
        if proto \<noteq> g_fake_protocol st then Some (-1, st, packet, pkt_id0, frag_index0)
        else do {
        let tunnel_off = ETH_HEADER_SIZE + ip_hdr_len;
        let nonce_size = g_nonce_size st;
        let tunnel_hdr_size = packet_crypto_get_tunnel_hdr_size st;
        let enc_off = tunnel_off + tunnel_hdr_size + FRAG_HDR_SIZE;
        if pkt_len < enc_off then Some (-1, st, packet, pkt_id0, frag_index0)
        else do {
        is_frag \<leftarrow> l3_is_frag_tunnel packet tunnel_off nonce_size;
        if \<not> is_frag then Some (-1, st, packet, pkt_id0, frag_index0)
        else do {
        (pkt_id, frag_index) \<leftarrow> read_frag_tag packet (tunnel_off + tunnel_hdr_size);
        n \<leftarrow> rdn packet tunnel_off nonce_size;
        nonce \<leftarrow> wrn (replicate 16 0) 0 n;
        let nonce_len = (if is_gcm st then nonce_size else AES128_IV_SIZE);
        parts \<leftarrow> split_tag st packet enc_off (sz_sub pkt_len enc_off);
        case parts of
          None \<Rightarrow> Some (-1, st, packet, pkt_id, frag_index)
        | Some (enc_len, tag) \<Rightarrow> do {
            backup \<leftarrow> take_backup packet enc_off enc_len;
            (found, st, packet) \<leftarrow> try_keys lib ctx nonce nonce_len enc_off enc_len tag backup (\<lambda>_. Some True) 0
                                   key_order st packet;
            if \<not> found then Some (-1, st, packet, pkt_id, frag_index)
            else do {
              packet \<leftarrow> mem_move packet tunnel_off enc_off enc_len;
              packet \<leftarrow> l3_patch_ipv4 packet ETH_HEADER_SIZE ip_hdr_len (of_nat (ip_hdr_len + enc_len));
              Some (c_int (int (tunnel_off + enc_len)), st, packet, pkt_id, frag_index) } } } } } } } })"

section \<open>Packets in parts\<close>

definition l3_hdr_ok :: "u8 list \<Rightarrow> bool" where
  "l3_hdr_ok h = (20 \<le> length h \<and> unat (h ! 0 AND 0x0F) * 4 = length h)"

definition eth14_ipv4 :: "u8 list \<Rightarrow> bool" where
  "eth14_ipv4 e = (length e = 14 \<and> be16_of (e ! 12) (e ! 13) = 0x0800)"

lemma l3_locate_parts:
  assumes "eth14_ipv4 e" "l3_hdr_ok h" "14 + length h \<le> n"
  shows "pkt_is_ipv4 (e @ h @ z) n = Some True" "ipv4_hdr_len_at (e @ h @ z) n 14 = Some (int (length h))"
    "rd (e @ h @ z) 23 = Some (h ! 9)" "rd_be16 (e @ h @ z) 16 = Some (be16_of (h ! 2) (h ! 3))"
proof -
  have "rd (e @ h @ z) 14 = Some (h ! 0)" using assms by (auto simp: eth14_ipv4_def l3_hdr_ok_def rd_def nth_append)
  then show "ipv4_hdr_len_at (e @ h @ z) n 14 = Some (int (length h))"
    using assms by (simp add: ipv4_hdr_len_at_def l3_hdr_ok_def Let_def)
qed (use assms in \<open>simp_all add: pkt_is_ipv4_def eth14_ipv4_def l3_hdr_ok_def nth_append ETH_HEADER_SIZE_def\<close>)

lemma l3_hdr_ok_upd [simp]: "l3_hdr_ok (patch_hdr h t) = l3_hdr_ok h" "l3_hdr_ok (h[9 := v]) = l3_hdr_ok h"
  by (simp_all add: l3_hdr_ok_def patch_hdr_nth)

lemma patch_hdr_proto [simp]:
  assumes "20 \<le> length h"
  shows "patch_hdr ((patch_hdr (h[9 := f]) u)[9 := h ! 9]) t = patch_hdr h t"
proof -
  have "((patch_hdr (h[9 := f]) u)[9 := h ! 9])[2 := hi8 t, 3 := lo8 t, 10 := 0, 11 := 0]
      = h[2 := hi8 t, 3 := lo8 t, 10 := 0, 11 := 0]"
    using assms by (intro nth_equalityI) (auto simp: patch_hdr_def Let_def nth_upd)
  then show ?thesis by (simp add: patch_hdr_def [of _ t] Let_def)
qed

lemma patch_hdr_totlen: "20 \<le> length h \<Longrightarrow> be16_of (patch_hdr h t ! 2) (patch_hdr h t ! 3) = t"
  by (simp add: patch_hdr_def Let_def)

section \<open>The recomputed transport checksum\<close>

definition tcp_sum :: "u8 list \<Rightarrow> u8 list \<Rightarrow> u16" where
  "tcp_sum h d = finish_checksum
     (sum_words ((sum_words 0 (take 8 (drop 12 h)) + 6 + length d mod 65536) mod 2 ^ 32) (d[16 := 0, 17 := 0]))"

definition udp_sum :: "u8 list \<Rightarrow> u8 list \<Rightarrow> u16" where
  "udp_sum h d =
     (let l = unat (be16_of (d ! 4) (d ! 5)); l1 = (if l < 8 then 8 else l);
          n = (if l1 > length d mod 65536 then length d mod 65536 else l1)
      in finish_checksum (sum_words ((sum_words 0 (take 8 (drop 12 h)) + 17 + n) mod 2 ^ 32) (take n d)))"

definition fix_seg :: "u8 list \<Rightarrow> u8 list \<Rightarrow> u8 \<Rightarrow> u8 list" where
  "fix_seg h d p =
     (if p = 6 \<and> 20 \<le> length d then let d0 = d[16 := 0, 17 := 0]; c = tcp_sum h d0 in d0[16 := hi8 c, 17 := lo8 c]
      else if p = 17 \<and> 8 \<le> length d then let d0 = d[6 := 0, 7 := 0]; c = udp_sum h d0 in d0[6 := hi8 c, 7 := lo8 c]
      else d)"

lemma fix_seg_length [simp]: "length (fix_seg h d p) = length d"
  by (simp add: fix_seg_def Let_def)

text \<open>Only the two bytes of the checksum field can change.\<close>

lemma fix_seg_nth: "i \<notin> {6, 7, 16, 17} \<Longrightarrow> fix_seg h d p ! i = d ! i"
  by (simp add: fix_seg_def Let_def)

lemma rdn_addrs: "length e = 14 \<Longrightarrow> 20 \<le> length h \<Longrightarrow> rdn (e @ h @ z) 26 8 = Some (take 8 (drop 12 h))"
  by (simp add: rdn_def)

lemma fix_transport_parts:
  assumes "length e = 14" "20 \<le> length h" "n = 14 + length h + length d"
  shows "l3_fix_transport (e @ h @ d @ z) (length h) n p = Some (e @ h @ fix_seg h d p @ z)"
proof -
  define a where "a = e @ h"
  define T where "T = 14 + length h"
  have a: "length a = T" using assms by (simp add: a_def T_def)
  have ad: "rdn (a @ x) 26 8 = Some (take 8 (drop 12 h))" for x
    using rdn_addrs [OF assms(1,2), of x] by (simp add: a_def)
  have seg: "rdn (a @ d' @ z) T k = Some (take k d')" if "k \<le> length d'" for d' k
    using that a by (simp add: rdn_def)
  have up: "wr (a @ d' @ z) (T + i) v = Some (a @ d'[i := v] @ z)" if "i < length d'" for d' i v
    using that a by (simp add: list_update_append)
  have be: "rd_be16 (a @ d' @ z) (T + i) = Some (be16_of (d' ! i) (d' ! Suc i))" if "Suc i < length d'" for d' i
    using that a by (simp add: nth_append)
  have tcp: "crypto_calc_tcp_checksum (a @ d' @ z) 14 (length h) T (length d') = Some (tcp_sum h d')" if "20 \<le> length d'" for d'
    using that assms(2) ad seg [of "length d'" d'] by (simp add: crypto_calc_tcp_checksum_def tcp_sum_def Let_def)
  have udp: "crypto_calc_udp_checksum (a @ d' @ z) 14 (length h) T (length d') = Some (udp_sum h d')" if "8 \<le> length d'" for d'
  proof -
    have m: "length d' mod 65536 \<le> length d'" by simp
    show ?thesis using that assms(2) ad be [of 4 d'] m
      by (simp add: crypto_calc_udp_checksum_def udp_sum_def Let_def seg)
  qed
  have n: "n = T + length d" by (simp add: assms(3) T_def)
  have "l3_fix_transport (a @ d @ z) (length h) n p = Some (a @ fix_seg h d p @ z)"
    unfolding l3_fix_transport_def ETH_HEADER_SIZE_def T_def [symmetric] n
    using tcp [of "d[16 := 0, 17 := 0]"] udp [of "d[6 := 0, 7 := 0]"]
    by (auto simp: Let_def fix_seg_def up simp del: append_assoc append.simps wr_Some)
  then show ?thesis by (simp add: a_def)
qed

section \<open>Encryption and decryption of packets in parts\<close>

definition l3_enc_hdr :: "crypto_state \<Rightarrow> u8 list \<Rightarrow> u8 list" where
  "l3_enc_hdr st h = patch_hdr (h[9 := g_fake_protocol st])
     (be16_of (h ! 2) (h ! 3) + of_nat (g_nonce_size st + 2 + gcm_tag_len st))"

text \<open>The payload does not look like a fragment tunnel to the check at the start of encryption.\<close>

definition l3_no_magic :: "nat \<Rightarrow> u8 list \<Rightarrow> bool" where
  "l3_no_magic ns d = (ns + 2 \<le> length d \<longrightarrow> d ! (ns + 1) \<noteq> CRYPTO_L3_FRAG_MAGIC)"

lemma l3_encrypt_parts:
  assumes "evp_ok lib" "crypto_ready st ctx" "eth14_ipv4 e" "l3_hdr_ok h" "d \<noteq> []" "length h + length d < 2 ^ 29"
    and "l3_no_magic (g_nonce_size st) d" "g_nonce_size st + 2 + gcm_tag_len st \<le> length r"
  shows "\<exists>s n K. crypto_layer3_encrypt lib ctx st (e @ h @ d @ r) (14 + length h + length d) =
      Some (int (14 + length h + length d + (g_nonce_size st + 2 + gcm_tag_len st)), s,
        e @ l3_enc_hdr st h @ take (g_nonce_size st) n @ [g_policy_id st, h ! 9]
          @ cipher_text lib s K n d @ cipher_tag lib s K n d @ drop (g_nonce_size st + 2 + gcm_tag_len st) r)
    \<and> crypto_ready s ctx \<and> same_cipher st s \<and> length n = 16 \<and> K = pc_keys ctx ! 1
    \<and> take 4 n = nonce_prefix (fst (packet_crypto_next_counter st)) 0"
proof -
  let ?ns = "g_nonce_size st"
  obtain c n s where n: "packet_crypto_next_counter st = (c, st\<lparr>g_nonce_counter := g_nonce_counter st + 1\<rparr>)"
    "crypto_generate_nonce lib (st\<lparr>g_nonce_counter := g_nonce_counter st + 1\<rparr>) c PROTO_FLAG_IPV4 =
      Some (n, if g_crypto_mode st = CRYPTO_MODE_CTR then 16 else ?ns, s)"
    "length n = 16" "crypto_ready s ctx" "same_cipher st s" "take 4 n = nonce_prefix c 0"
    by (rule next_nonce [OF assms(1,2)])
  define K where "K = pc_keys ctx ! 1"
  define nl where "nl = (if g_crypto_mode st = CRYPTO_MODE_CTR then 16 else ?ns)"
  define a where "a = e @ h"
  define T where "T = 14 + length h"
  define k2 where "k2 = packet_crypto_get_tunnel_hdr_size st"
  define ov where "ov = k2 + gcm_tag_len st"
  have k2: "k2 = ?ns + 2" by (simp add: k2_def packet_crypto_get_tunnel_hdr_size_def)
  note key = current_key [OF assms(2), folded K_def]
  note sc = same_cipher_eqs [OF n(5)]
  have ini: "pc_initialized ctx" "?ns \<le> 16" using assms(2) by (auto simp: crypto_ready_def)
  have el: "length e = 14" "20 \<le> length h" using assms(3,4) by (simp_all add: eth14_ipv4_def l3_hdr_ok_def)
  have a: "length a = T" using el by (simp add: a_def T_def)
  obtain q b1 b2 where t: "seal_range lib s K n nl (a @ d @ r) T (int (length d)) =
      Some (0, s\<lparr>tls_enc := q\<rparr>, a @ cipher_text lib s K n d @ r, cipher_tag lib s K n d)"
    "mem_move (a @ cipher_text lib s K n d @ r) (T + k2) T (length d) = Some b1"
    "put_tag (s\<lparr>tls_enc := q\<rparr>) b1 (T + k2 + length d) (cipher_tag lib s K n d) = Some b2"
    "\<And>p x. crypto_write_l3_tunnel_header b2 T n (g_nonce_size s) p x
       = Some (a @ take (g_nonce_size s) n @ [p, x] @ cipher_text lib s K n d @ cipher_tag lib s K n d @ drop (k2 + gcm_tag_len s) r)"
    "crypto_ready (s\<lparr>tls_enc := q\<rparr>) ctx"
    by (rule tunnel_steps [OF assms(1) n(4,3) assms(5), of T a nl K k2 r "gcm_tag_len s"])
       (use assms a n sc in \<open>auto simp: nl_def K_def k2\<close>)
  let ?s = "s\<lparr>tls_enc := q\<rparr>"
  define z where "z = take ?ns n @ [g_policy_id st, h ! 9] @ cipher_text lib s K n d @ cipher_tag lib s K n d @ drop ov r"
  have wh: "crypto_write_l3_tunnel_header b2 T n ?ns (g_policy_id st) (h ! 9) = Some (a @ z)"
    using t(4) sc by (simp add: z_def ov_def)
  note loc = l3_locate_parts [OF assms(3,4), of "T + length d", folded T_def]
  have ar: "e @ h @ d @ r = a @ d @ r" by (simp add: a_def)
  have wp: "wr (a @ z) 23 (g_fake_protocol st) = Some (e @ h[9 := g_fake_protocol st] @ z)"
    using el by (simp add: a_def list_update_append)
  have tot: "rd_be16 (e @ h[9 := g_fake_protocol st] @ z) 16 = Some (be16_of (h ! 2) (h ! 3))"
    using el by (simp add: nth_append)
  have pt: "l3_patch_ipv4 (e @ h[9 := g_fake_protocol st] @ z) 14 (length h) (be16_of (h ! 2) (h ! 3) + of_nat ov)
      = Some (e @ l3_enc_hdr st h @ z)"
    using el by (subst l3_patch_parts) (simp_all add: l3_enc_hdr_def ov_def k2)
  have fr: "T + length d \<ge> T + ?ns + 2 \<Longrightarrow> l3_is_frag_tunnel (a @ d @ r) T ?ns = Some False"
  proof -
    assume "T + length d \<ge> T + ?ns + 2"
    then have "?ns + 2 \<le> length d" by simp
    then show ?thesis using assms(7) a by (simp add: l3_is_frag_tunnel_def l3_no_magic_def nth_append)
  qed
  have sz: "sz_sub (T + length d) T = length d" by simp
  have cl: "c_int (int (length d)) = int (length d)" "c_int (int (T + length d + ov)) = int (T + length d + ov)"
    using assms(6) ini by (simp_all add: c_int_id T_def ov_def k2 gcm_tag_len_def AES128_GCM_TAG_SIZE_def)
  have "crypto_layer3_encrypt lib ctx st (a @ d @ r) (T + length d) = Some (int (T + length d + ov), ?s, e @ l3_enc_hdr st h @ z)"
    using ini(1) el fr
    unfolding crypto_layer3_encrypt_def Let_def l3_consts k2_def [symmetric] ov_def [symmetric]
    by (simp del: append_assoc append.simps One_nat_def of_nat_add rd_Some wr_Some rd_be16_Some
        add: loc [of "d @ r", unfolded ar] T_def [symmetric] sz n(1) n(2) [folded nl_def] key cl t(1-3) wh wp tot pt)
      (simp add: T_def)
  then show ?thesis using t(5) n(1,3,5,6) unfolding ar [symmetric]
    by (intro exI [of _ ?s] exI [of _ n] exI [of _ K]) (simp add: K_def T_def ov_def k2 z_def add.assoc)
qed

text \<open>The plausibility check of CTR mode: a TCP or UDP payload has four bytes of ports, not all zero.\<close>

definition l3_plain_ok :: "u8 \<Rightarrow> u8 list \<Rightarrow> bool" where
  "l3_plain_ok p d = (p = 6 \<or> p = 17 \<longrightarrow> 4 \<le> length d \<and>
     \<not> (be16_of (d ! 0) (d ! 1) = 0 \<and> be16_of (d ! 2) (d ! 3) = 0))"

lemma verify_payload_parts:
  assumes "off = length a" "l3_plain_ok p d"
  shows "verify_decrypted_payload off (length d) p (a @ d @ z) = Some True"
  using assms by (auto simp: verify_decrypted_payload_def l3_plain_ok_def nth_append numeral_2_eq_2 numeral_3_eq_3)

lemma l3_decrypt_parts:
  assumes "evp_ok lib" "crypto_ready t ctx" "same_cipher s t" "length n = 16" "d \<noteq> []"
    and "length h + length d < 2 ^ 29" "K = pc_keys ctx ! 1" "eth14_ipv4 e" "l3_hdr_ok h"
    and "h ! 9 = g_fake_protocol t" "op \<noteq> CRYPTO_L3_FRAG_MAGIC" "is_gcm t \<or> l3_plain_ok op d"
  shows "\<exists>t' rest. crypto_layer3_decrypt lib ctx t
      (e @ h @ take (g_nonce_size t) n @ [p, op] @ cipher_text lib s K n d @ cipher_tag lib s K n d @ z)
      (14 + length h + (g_nonce_size t + 2 + gcm_tag_len t) + length d)
    = Some (int (14 + length h + length d), t',
        e @ patch_hdr (h[9 := op]) (be16_of (h ! 2) (h ! 3) - of_nat (g_nonce_size t + 2 + gcm_tag_len t))
          @ fix_seg (patch_hdr (h[9 := op]) (be16_of (h ! 2) (h ! 3) - of_nat (g_nonce_size t + 2 + gcm_tag_len t))) d op @ rest)
    \<and> g_fake_protocol t' = g_fake_protocol t \<and> length rest = g_nonce_size t + 2 + gcm_tag_len t + length z"
proof -
  let ?ns = "g_nonce_size t"
  let ?h = "h[9 := op]"
  define a where "a = e @ h"
  define a1 where "a1 = e @ ?h"
  define x where "x = cipher_text lib s K n d @ cipher_tag lib s K n d @ z"
  define b where "b = a1 @ take ?ns n @ [p, op] @ x"
  define T where "T = 14 + length h"
  define k2 where "k2 = packet_crypto_get_tunnel_hdr_size t"
  define ov where "ov = k2 + gcm_tag_len t"
  define nl where "nl = (if is_gcm t then ?ns else AES128_IV_SIZE)"
  define U where "U = be16_of (h ! 2) (h ! 3) - of_nat ov"
  have k2: "k2 = ?ns + 2" by (simp add: k2_def packet_crypto_get_tunnel_hdr_size_def)
  have ini: "pc_initialized ctx" "?ns \<le> 16" using assms(2) by (auto simp: crypto_ready_def)
  have el: "length e = 14" "20 \<le> length h" using assms(8,9) by (simp_all add: eth14_ipv4_def l3_hdr_ok_def)
  have a: "length a1 = T" "length a = T" using el by (simp_all add: a1_def a_def T_def)
  have vf: "\<not> is_gcm t \<Longrightarrow> verify_decrypted_payload (T + k2) (length d) op
     (a1 @ take ?ns n @ [p, op] @ d @ cipher_tag lib s K n d @ z) = Some True"
    using verify_payload_parts [of "T + k2" "a1 @ take ?ns n @ [p, op]" op d "cipher_tag lib s K n d @ z"] assms(4,12) a ini k2 by simp
  obtain n2 tag bk q rest where o: "rdn b T ?ns = Some (take ?ns n)" "wrn (replicate 16 0) 0 (take ?ns n) = Some n2"
    "split_tag t b (T + k2) (length d + gcm_tag_len t) = Some (Some (length d, tag))"
    "take_backup b (T + k2) (length d) = Some bk"
    "try_keys lib ctx n2 nl (T + k2) (length d) tag bk (verify_decrypted_payload (T + k2) (length d) op) 0 key_order t b
       = Some (True, t\<lparr>tls_dec := q\<rparr>, a1 @ take ?ns n @ [p, op] @ d @ cipher_tag lib s K n d @ z)"
    "mem_move (a1 @ take ?ns n @ [p, op] @ d @ cipher_tag lib s K n d @ z) T (T + k2) (length d) = Some (a1 @ d @ rest)"
    "crypto_ready (t\<lparr>tls_dec := q\<rparr>) ctx"
    unfolding nl_def
    by (rule tunnel_open [OF assms(1-5) _ assms(7), of T a1 "T + k2" "[p, op]" b z "verify_decrypted_payload (T + k2) (length d) op"])
       (use assms(6) a vf in \<open>auto simp: b_def k2 x_def\<close>)
  define b0 where "b0 = a @ take ?ns n @ [p, op] @ x"
  have rdop: "rd b0 (T + ?ns + 1) = Some op"
    using rd_mid [of "T + ?ns + 1" "a @ take ?ns n @ [p]" op x] a assms(4) ini by (simp add: b0_def)
  have fr: "l3_is_frag_tunnel b0 T ?ns = Some False"
    using rdop assms(11) unfolding l3_is_frag_tunnel_def by simp
  have "rdn b0 T ?ns = Some (take ?ns n)"
    unfolding b0_def by (rule read_nonce_parts(1)) (use a assms(4) ini in simp_all)
  moreover have "\<exists>f. rd b0 T = Some f" using a by (simp add: b0_def x_def rd_def)
  moreover have "rd b0 (T + ?ns) = Some p"
    using rd_mid [of "T + ?ns" "a @ take ?ns n" p "op # x"] a assms(4) ini by (simp add: b0_def)
  ultimately obtain f where hd: "crypto_read_l3_tunnel_header b0 T ?ns = Some (n2, drop_bit 7 f, p, op)"
    using rdop o(2) unfolding crypto_read_l3_tunnel_header_def by fastforce
  have wp: "wr b0 23 op = Some b" using el by (simp add: b0_def b_def a_def a1_def list_update_append)
  note loc = l3_locate_parts [OF assms(8,9), of "T + (ov + length d)" "take ?ns n @ [p, op] @ x", folded T_def]
  have b0e: "e @ h @ take ?ns n @ [p, op] @ x = b0" by (simp add: b0_def a_def)
  have wp2: "wr (a1 @ d @ rest) 23 op = Some (a1 @ d @ rest)"
    using el by (simp add: a1_def list_update_append)
  have tot: "rd_be16 (a1 @ d @ rest) 16 = Some (be16_of (h ! 2) (h ! 3))" using el by (simp add: a1_def nth_append)
  have pt: "l3_patch_ipv4 (a1 @ d @ rest) 14 (length h) U = Some (e @ patch_hdr ?h U @ d @ rest)"
    using el unfolding a1_def append_assoc by (intro l3_patch_parts) simp_all
  have ft: "l3_fix_transport (e @ patch_hdr ?h U @ d @ rest) (length h) (T + length d) op
      = Some (e @ patch_hdr ?h U @ fix_seg (patch_hdr ?h U) d op @ rest)"
    using fix_transport_parts [of e "patch_hdr ?h U" "T + length d" d rest op] el by (simp add: T_def)
  have sz: "sz_sub (T + (ov + length d)) (T + k2) = length d + gcm_tag_len t" "\<not> ov + length d < k2"
    "sz_sub (T + (ov + length d)) ov = T + length d"
    by (simp_all add: ov_def)
  have cl: "c_int (int (T + length d)) = int (T + length d)" using assms(6) by (simp add: c_int_id T_def)
  have big: "\<not> T + (ov + length d) < 14 + 8" using el by (simp add: T_def)
  have "crypto_layer3_decrypt lib ctx t b0 (T + (ov + length d)) = Some (int (T + length d), t\<lparr>tls_dec := q\<rparr>,
      e @ patch_hdr ?h U @ fix_seg (patch_hdr ?h U) d op @ rest)"
    using ini(1) big assms(10)
    unfolding crypto_layer3_decrypt_def Let_def l3_consts k2_def [symmetric] ov_def [symmetric] nl_def [symmetric]
    by (simp del: append_assoc append.simps One_nat_def of_nat_add rd_Some wr_Some rd_be16_Some rdn_Some wrn_Some not_less add_2_eq_Suc'
        add: loc [unfolded b0e] T_def [symmetric] fr hd wp o(3-6) sz wp2 tot U_def [symmetric] pt ft cl)
  moreover have "T + (ov + length d) = 14 + length h + (?ns + 2 + gcm_tag_len t) + length d" by (simp add: T_def ov_def k2)
  moreover have "g_fake_protocol (t\<lparr>tls_dec := q\<rparr>) = g_fake_protocol t" by simp
  moreover have "gcm_tag_len s = gcm_tag_len t" using same_cipher_eqs [OF assms(3)] by simp
  then have "length rest = ?ns + 2 + gcm_tag_len t + length z"
    using mem_move_length [OF o(6)] assms(1,4) ini by simp
  ultimately show ?thesis unfolding b0_def a_def x_def T_def U_def ov_def k2 append_assoc by (metis (no_types))
qed

section \<open>Properties\<close>

text \<open>Layer 3 encryption of an IPv4 packet in a buffer with room for its overhead stays inside the
  buffer and succeeds; the header gets the fake protocol, the enlarged total length and a valid
  checksum, and the tunnel header keeps the original protocol.\<close>

lemma l3_encrypt_layout:
  assumes "evp_ok lib" "crypto_ready st ctx" "eth14_ipv4 e" "l3_hdr_ok h" "d \<noteq> []" "length h + length d < 2 ^ 29"
    and "l3_no_magic (g_nonce_size st) d" "g_nonce_size st + 2 + gcm_tag_len st \<le> length r"
  shows "\<exists>s n. crypto_layer3_encrypt lib ctx st (e @ h @ d @ r) (14 + length h + length d) =
      Some (int (14 + length h + length d + (g_nonce_size st + 2 + gcm_tag_len st)), s,
        e @ l3_enc_hdr st h @ take (g_nonce_size st) n @ [g_policy_id st, h ! 9]
          @ cipher_text lib s (pc_keys ctx ! 1) n d @ cipher_tag lib s (pc_keys ctx ! 1) n d
          @ drop (g_nonce_size st + 2 + gcm_tag_len st) r)
    \<and> take 4 n = nonce_prefix (fst (packet_crypto_next_counter st)) 0"
  using l3_encrypt_parts [OF assms] by blast

text \<open>The round trip over a wire: what follows the Ethernet header is kept, the header and the memory behind
  the frame may differ at the receiver.\<close>

lemma l3_wire:
  assumes "evp_ok lib" "crypto_ready st ctx" "crypto_ready t ctx" "same_cipher st t" "g_fake_protocol t = g_fake_protocol st"
    and "eth14_ipv4 e" "l3_hdr_ok h" "d \<noteq> []" "length h + length d < 2 ^ 29"
    and "l3_no_magic (g_nonce_size st) d" "g_nonce_size st + 2 + gcm_tag_len st \<le> length r"
    and "h ! 9 \<noteq> CRYPTO_L3_FRAG_MAGIC" "is_gcm t \<or> l3_plain_ok (h ! 9) d"
    and "h = patch_hdr h (be16_of (h ! 2) (h ! 3))"
  shows "\<exists>s n y.
      crypto_layer3_encrypt lib ctx st (e @ h @ d @ r) (14 + length h + length d) =
        Some (int (14 + length h + length d + (g_nonce_size st + 2 + gcm_tag_len st)), s,
          e @ l3_enc_hdr st h @ take (g_nonce_size st) n @ [g_policy_id st, h ! 9] @ y
            @ drop (g_nonce_size st + 2 + gcm_tag_len st) r) \<and>
      length n = 16 \<and> length y = length d + gcm_tag_len st \<and>
      (\<forall>e' z. eth14_ipv4 e' \<longrightarrow> (\<exists>t' rest.
         crypto_layer3_decrypt lib ctx t (e' @ l3_enc_hdr st h @ take (g_nonce_size st) n @ [g_policy_id st, h ! 9] @ y @ z)
          (14 + length h + length d + (g_nonce_size st + 2 + gcm_tag_len st))
        = Some (int (14 + length h + length d), t', e' @ h @ fix_seg h d (h ! 9) @ rest)
          \<and> g_fake_protocol t' = g_fake_protocol t \<and> length rest = g_nonce_size st + 2 + gcm_tag_len st + length z))"
proof -
  let ?ov = "g_nonce_size st + 2 + gcm_tag_len st"
  define H where "H = l3_enc_hdr st h"
  have hl: "20 \<le> length h" using assms(7) by (simp add: l3_hdr_ok_def)
  obtain s n K where e: "crypto_layer3_encrypt lib ctx st (e @ h @ d @ r) (14 + length h + length d) =
      Some (int (14 + length h + length d + ?ov), s,
        e @ H @ take (g_nonce_size st) n @ [g_policy_id st, h ! 9] @ cipher_text lib s K n d @ cipher_tag lib s K n d @ drop ?ov r)"
    "same_cipher st s" "length n = 16" "K = pc_keys ctx ! 1"
    unfolding H_def using l3_encrypt_parts [OF assms(1,2,6-11)] by blast
  have sc: "same_cipher s t" using e(2) assms(4) by (simp add: same_cipher_def)
  note q = same_cipher_eqs [OF assms(4)]
  define y where "y = cipher_text lib s K n d @ cipher_tag lib s K n d"
  have y: "length y = length d + gcm_tag_len st"
    using assms(1) same_cipher_eqs [OF e(2)] by (simp add: y_def)
  have H: "length H = length h" "l3_hdr_ok H" "H ! 9 = g_fake_protocol t" "length H + length d < 2 ^ 29"
    "be16_of (H ! 2) (H ! 3) = be16_of (h ! 2) (h ! 3) + of_nat ?ov"
    using assms(5,7,9) hl by (simp_all add: H_def l3_enc_hdr_def patch_hdr_nth patch_hdr_totlen)
  have restored: "patch_hdr (H[9 := h ! 9]) (be16_of (H ! 2) (H ! 3) - of_nat (g_nonce_size t + 2 + gcm_tag_len t)) = h"
    unfolding H(5) q add_diff_cancel_right' unfolding H_def l3_enc_hdr_def patch_hdr_proto [OF hl] by (rule assms(14) [symmetric])
  have d: "\<exists>t' rest. crypto_layer3_decrypt lib ctx t (e' @ H @ take (g_nonce_size st) n @ [g_policy_id st, h ! 9] @ y @ z)
      (14 + length h + length d + ?ov) = Some (int (14 + length h + length d), t', e' @ h @ fix_seg h d (h ! 9) @ rest)
      \<and> g_fake_protocol t' = g_fake_protocol t \<and> length rest = ?ov + length z"
    if e': "eth14_ipv4 e'" for e' z
  proof -
    obtain t' rest where "crypto_layer3_decrypt lib ctx t
        (e' @ H @ take (g_nonce_size t) n @ [g_policy_id st, h ! 9] @ cipher_text lib s K n d @ cipher_tag lib s K n d @ z)
        (14 + length H + (g_nonce_size t + 2 + gcm_tag_len t) + length d)
      = Some (int (14 + length H + length d), t',
          e' @ patch_hdr (H[9 := h ! 9]) (be16_of (H ! 2) (H ! 3) - of_nat (g_nonce_size t + 2 + gcm_tag_len t))
            @ fix_seg (patch_hdr (H[9 := h ! 9]) (be16_of (H ! 2) (H ! 3) - of_nat (g_nonce_size t + 2 + gcm_tag_len t))) d (h ! 9) @ rest)"
      "g_fake_protocol t' = g_fake_protocol t" "length rest = g_nonce_size t + 2 + gcm_tag_len t + length z"
      using l3_decrypt_parts [OF assms(1,3) sc e(3) assms(8) H(4) e(4) e' H(2,3) assms(12,13)] by blast
    then show ?thesis unfolding restored using q H(1) by (auto simp: y_def add.commute add.left_commute)
  qed
  have e1: "crypto_layer3_encrypt lib ctx st (e @ h @ d @ r) (14 + length h + length d) =
      Some (int (14 + length h + length d + ?ov), s,
        e @ H @ take (g_nonce_size st) n @ [g_policy_id st, h ! 9] @ y @ drop ?ov r)"
    using e(1) by (simp only: y_def append_assoc)
  show ?thesis using e1 e(3) y d unfolding H_def by blast
qed

text \<open>C5: layer 3 decryption inverts encryption: header and payload come back, the TCP or UDP checksum
  recomputed over the restored packet. A packet whose IP and transport checksums were the ones this
  code computes is restored byte for byte.\<close>

theorem l3_decrypt_inverts_encrypt:
  assumes "evp_ok lib" "crypto_ready st ctx" "crypto_ready t ctx" "same_cipher st t" "g_fake_protocol t = g_fake_protocol st"
    and "eth14_ipv4 e" "l3_hdr_ok h" "d \<noteq> []" "length h + length d < 2 ^ 29"
    and "l3_no_magic (g_nonce_size st) d" "g_nonce_size st + 2 + gcm_tag_len st \<le> length r"
    and "h ! 9 \<noteq> CRYPTO_L3_FRAG_MAGIC" "is_gcm t \<or> l3_plain_ok (h ! 9) d"
    and "h = patch_hdr h (be16_of (h ! 2) (h ! 3))"
  shows "\<exists>len s b t' rest.
      crypto_layer3_encrypt lib ctx st (e @ h @ d @ r) (14 + length h + length d) = Some (len, s, b) \<and>
      crypto_layer3_decrypt lib ctx t b (nat len)
        = Some (int (14 + length h + length d), t', e @ h @ fix_seg h d (h ! 9) @ rest)"
proof -
  obtain s n y where w: "crypto_layer3_encrypt lib ctx st (e @ h @ d @ r) (14 + length h + length d) =
      Some (int (14 + length h + length d + (g_nonce_size st + 2 + gcm_tag_len st)), s,
        e @ l3_enc_hdr st h @ take (g_nonce_size st) n @ [g_policy_id st, h ! 9] @ y
          @ drop (g_nonce_size st + 2 + gcm_tag_len st) r)"
    "\<forall>e' z. eth14_ipv4 e' \<longrightarrow> (\<exists>t' rest.
       crypto_layer3_decrypt lib ctx t (e' @ l3_enc_hdr st h @ take (g_nonce_size st) n @ [g_policy_id st, h ! 9] @ y @ z)
        (14 + length h + length d + (g_nonce_size st + 2 + gcm_tag_len st))
      = Some (int (14 + length h + length d), t', e' @ h @ fix_seg h d (h ! 9) @ rest))"
    using l3_wire [OF assms] by (metis (no_types))
  then show ?thesis using assms(6) by (metis nat_int)
qed

text \<open>A plaintext leak: \<open>crypto_layer3_encrypt\<close> looks for the fragment magic in the cleartext packet.
  When byte \<open>nonce_size + 1\<close> of the IP payload is \<open>0x5C\<close>, the packet is returned unencrypted, with a
  success code and without consuming a nonce.\<close>

lemma l3_magic_byte_leaves_plaintext:
  assumes "pc_initialized ctx" "eth14_ipv4 e" "l3_hdr_ok h" "length h + length d < 2 ^ 29"
    and "g_nonce_size st + 2 \<le> length d" "d ! (g_nonce_size st + 1) = CRYPTO_L3_FRAG_MAGIC"
  shows "crypto_layer3_encrypt lib ctx st (e @ h @ d @ r) (14 + length h + length d)
       = Some (int (14 + length h + length d), st, e @ h @ d @ r)"
proof -
  have el: "length e = 14" "20 \<le> length h" using assms(2,3) by (simp_all add: eth14_ipv4_def l3_hdr_ok_def)
  have "rd (e @ h @ d @ r) (14 + length h + g_nonce_size st + 1) = Some (d ! (g_nonce_size st + 1))"
    using el assms(5) by (simp add: rd_def nth_append)
  then have "l3_is_frag_tunnel (e @ h @ d @ r) (14 + length h) (g_nonce_size st) = Some True"
    using assms(6) unfolding l3_is_frag_tunnel_def by simp
  moreover have "c_int (int (14 + length h + length d)) = int (14 + length h + length d)"
    using assms(4) by (simp add: c_int_id)
  ultimately show ?thesis
    using assms(1,5) el l3_locate_parts [OF assms(2,3), of "14 + length h + length d" "d @ r"]
    by (simp add: crypto_layer3_encrypt_def Let_def ETH_HEADER_SIZE_def del: of_nat_add rd_Some)
qed

theorem l3_decrypt_inverts_encrypt_witness:
  "\<exists>len s b t' rest.
      crypto_layer3_encrypt toy_lib sample_ctx (sample_crypto 0)
        ((replicate 12 2 @ [8, 0]) @ patch_hdr (take 20 sample_ip) 40 @ drop 20 sample_ip @ replicate 30 0)
        (14 + length (patch_hdr (take 20 sample_ip) 40) + length (drop 20 sample_ip)) = Some (len, s, b) \<and>
      crypto_layer3_decrypt toy_lib sample_ctx (sample_crypto 0) b (nat len)
        = Some (int (14 + length (patch_hdr (take 20 sample_ip) 40) + length (drop 20 sample_ip)), t',
            (replicate 12 2 @ [8, 0]) @ patch_hdr (take 20 sample_ip) 40
              @ fix_seg (patch_hdr (take 20 sample_ip) 40) (drop 20 sample_ip) (patch_hdr (take 20 sample_ip) 40 ! 9) @ rest)"
proof (rule l3_decrypt_inverts_encrypt [OF toy_lib_ok sample_ready(2) sample_ready(2)])
  show "patch_hdr (take 20 sample_ip) 40 = patch_hdr (patch_hdr (take 20 sample_ip) 40)
      (be16_of (patch_hdr (take 20 sample_ip) 40 ! 2) (patch_hdr (take 20 sample_ip) 40 ! 3))"
    by (simp add: patch_hdr_totlen)
qed (simp_all add: l3_hdr_ok_def eth14_ipv4_def be16_of_def nth_append l3_no_magic_def CRYPTO_L3_FRAG_MAGIC_def
       patch_hdr_nth l3_plain_ok_def, simp_all add: sample_ip_def)

end
