(* ===== verification/Layer4.thy ===== *)
theory Layer4
  imports LayerCommon
begin

text \<open>
  \<open>src/crypto/crypto_layer4.c\<close>: the transport ports stay in clear; everything after the first four
  bytes of the transport header is encrypted behind a tunnel header of nonce, policy id and magic.
  IPv4 may follow one or two 802.1Q tags. The \<open>size_t\<close> subtractions wrap (\<open>sz_sub\<close>).
\<close>

definition L4_WIRE_PORT_LEN :: nat where "L4_WIRE_PORT_LEN = 4"
definition CRYPTO_L4_TUNNEL_MAGIC :: u8 where "CRYPTO_L4_TUNNEL_MAGIC = 0xA5"
definition CRYPTO_L4_FRAG_MAGIC :: u8 where "CRYPTO_L4_FRAG_MAGIC = 0x5A"

lemmas l4_consts = L4_WIRE_PORT_LEN_def CRYPTO_L4_TUNNEL_MAGIC_def CRYPTO_L4_FRAG_MAGIC_def

text \<open>\<open>l4_write_tunnel_header\<close> and \<open>l4_write_tunnel_header_frag\<close> differ in the magic byte.\<close>

definition l4_write_tunnel_header :: "buf \<Rightarrow> nat \<Rightarrow> u8 list \<Rightarrow> nat \<Rightarrow> u8 \<Rightarrow> buf option" where
  "l4_write_tunnel_header b off nonce nonce_size policy_id =
     crypto_write_l3_tunnel_header b off nonce nonce_size policy_id CRYPTO_L4_TUNNEL_MAGIC"

definition l4_write_tunnel_header_frag :: "buf \<Rightarrow> nat \<Rightarrow> u8 list \<Rightarrow> nat \<Rightarrow> u8 \<Rightarrow> buf option" where
  "l4_write_tunnel_header_frag b off nonce nonce_size policy_id =
     crypto_write_l3_tunnel_header b off nonce nonce_size policy_id CRYPTO_L4_FRAG_MAGIC"

definition l4_is_tunnel_header :: "buf \<Rightarrow> nat \<Rightarrow> nat \<Rightarrow> bool option" where
  "l4_is_tunnel_header b off nonce_size = do {
     m \<leftarrow> rd b (off + nonce_size + 1);
     if m \<noteq> CRYPTO_L4_TUNNEL_MAGIC then Some False
     else do { f \<leftarrow> rd b off; Some ((f AND 0x80) = 0) } }"

definition get_transport_hdr_size :: "buf \<Rightarrow> nat \<Rightarrow> u8 \<Rightarrow> nat \<Rightarrow> int option" where
  "get_transport_hdr_size b off ip_proto remaining =
     (if ip_proto = 6 then
        (if remaining < 20 then Some (-1)
         else do {
           x \<leftarrow> rd b (off + 12);
           let data_off = unat (drop_bit 4 x) * 4;
           if data_off < 20 \<or> data_off > remaining then Some (-1) else Some (int data_off) })
      else if ip_proto = 17 then (if remaining < 8 then Some (-1) else Some 8)
      else Some (-1))"

definition crypto_eth_ipv4_offset :: "buf \<Rightarrow> nat \<Rightarrow> int option" where
  "crypto_eth_ipv4_offset pkt pkt_len =
     (if pkt_len < 14 then Some (-1)
      else do {
        et \<leftarrow> rd_be16 pkt 12;
        if et = 0x0800 then Some 14
        else if et = 0x8100 then
          (if pkt_len < 18 then Some (-1)
           else do {
             et \<leftarrow> rd_be16 pkt 16;
             if et = 0x0800 then Some 18
             else if et = 0x8100 \<and> pkt_len \<ge> 22 then do {
               et \<leftarrow> rd_be16 pkt 20;
               if et = 0x0800 then Some 22 else Some (-1) }
             else Some (-1) })
        else Some (-1) })"

definition ip_ihl :: "buf \<Rightarrow> nat \<Rightarrow> nat option" where
  "ip_ihl b off = do { x \<leftarrow> rd b off; Some (unat (x AND 0x0F) * 4) }"

text \<open>The result is the tunnel offset and, when the packet has one, the transport offset.\<close>

definition crypto_layer4_tunnel_off_ipv4 :: "buf \<Rightarrow> nat \<Rightarrow> (int \<times> nat option) option" where
  "crypto_layer4_tunnel_off_ipv4 pkt pkt_len = do {
     l3 \<leftarrow> crypto_eth_ipv4_offset pkt pkt_len;
     if l3 < 0 then Some (-1, None)
     else let l3_off = nat l3 in
     if pkt_len < l3_off + 20 then Some (-1, None)
     else do {
       ip_hdr_len \<leftarrow> ip_ihl pkt l3_off;
       if ip_hdr_len < 20 then Some (-1, None)
       else Some (int (l3_off + ip_hdr_len + L4_WIRE_PORT_LEN), Some (l3_off + ip_hdr_len)) } }"

text \<open>The checks that encryption and decryption share: the IPv4 offset, the protocol and the header
  length, or the value returned early.\<close>

definition l4_locate :: "buf \<Rightarrow> nat \<Rightarrow> int \<Rightarrow> (int + nat \<times> u8 \<times> nat) option" where
  "l4_locate packet pkt_len not_ip = do {
     l3 \<leftarrow> crypto_eth_ipv4_offset packet pkt_len;
     if l3 < 0 then Some (Inl not_ip)
     else let l3_off = nat l3 in
     if pkt_len < l3_off + 20 then Some (Inl (-1))
     else do {
       ip_proto \<leftarrow> rd packet (l3_off + 9);
       if ip_proto \<noteq> 6 \<and> ip_proto \<noteq> 17 then Some (Inl not_ip)
       else do {
         ip_hdr_len \<leftarrow> ip_ihl packet l3_off;
         if ip_hdr_len < 20 then Some (Inl (-1))
         else Some (Inr (l3_off, ip_proto, ip_hdr_len)) } } }"

definition crypto_layer4_encrypt ::
  "evp_lib \<Rightarrow> packet_crypto_ctx \<Rightarrow> crypto_state \<Rightarrow> buf \<Rightarrow> nat \<Rightarrow> (int \<times> crypto_state \<times> buf) option" where
  "crypto_layer4_encrypt lib ctx st packet pkt_len =
     (if \<not> pc_initialized ctx then Some (-1, st, packet)
      else do {
        loc \<leftarrow> l4_locate packet pkt_len (c_int (int pkt_len));
        case loc of
          Inl rc \<Rightarrow> Some (rc, st, packet)
        | Inr (l3_off, ip_proto, ip_hdr_len) \<Rightarrow> do {
            let transport_off = l3_off + ip_hdr_len;
            let remaining = sz_sub pkt_len transport_off;
            ths \<leftarrow> get_transport_hdr_size packet transport_off ip_proto remaining;
            if ths < 0 then Some (c_int (int pkt_len), st, packet)
            else do {
            let plain_off = transport_off + L4_WIRE_PORT_LEN;
            let plain_len = sz_sub pkt_len plain_off;
            if plain_len = 0 then Some (c_int (int pkt_len), st, packet)
            else do {
            let tunnel_hdr_size = packet_crypto_get_tunnel_hdr_size st;
            let (counter, st1) = packet_crypto_next_counter st;
            (nonce, nonce_len, st2) \<leftarrow> crypto_generate_nonce lib st1 counter PROTO_FLAG_IPV4;
            key \<leftarrow> packet_crypto_get_key ctx KEY_SLOT_CURRENT;
            let enc_off = plain_off + tunnel_hdr_size;
            (rc, st3, packet, tag) \<leftarrow> seal_range lib st2 key nonce nonce_len packet plain_off (c_int (int plain_len));
            if rc \<noteq> 0 then Some (-1, st3, packet)
            else do {
              packet \<leftarrow> mem_move packet enc_off plain_off plain_len;
              packet \<leftarrow> put_tag st3 packet (enc_off + plain_len) tag;
              packet \<leftarrow> l4_write_tunnel_header packet plain_off nonce (g_nonce_size st) (g_policy_id st);
              let total_overhead = tunnel_hdr_size + gcm_tag_len st;
              packet \<leftarrow> l4_fix_ipv4_totlen_and_cksum packet l3_off ip_hdr_len (L4_WIRE_PORT_LEN + total_overhead + plain_len);
              Some (c_int (int (pkt_len + total_overhead)), st3, packet) } } } } })"

definition crypto_layer4_decrypt ::
  "evp_lib \<Rightarrow> packet_crypto_ctx \<Rightarrow> crypto_state \<Rightarrow> buf \<Rightarrow> nat \<Rightarrow> (int \<times> crypto_state \<times> buf) option" where
  "crypto_layer4_decrypt lib ctx st packet pkt_len =
     (if \<not> pc_initialized ctx then Some (-1, st, packet)
      else do {
        loc \<leftarrow> l4_locate packet pkt_len (c_int (int pkt_len));
        case loc of
          Inl rc \<Rightarrow> Some (rc, st, packet)
        | Inr (l3_off, ip_proto, ip_hdr_len) \<Rightarrow> do {
            let nonce_size = g_nonce_size st;
            let tunnel_hdr_size = packet_crypto_get_tunnel_hdr_size st;
            let tunnel_off = l3_off + ip_hdr_len + L4_WIRE_PORT_LEN;
            tunnel \<leftarrow> (if pkt_len < tunnel_off + tunnel_hdr_size then Some False
                     else l4_is_tunnel_header packet tunnel_off nonce_size);
            if \<not> tunnel then Some (c_int (int pkt_len), st, packet)
            else do {
            n \<leftarrow> rdn packet tunnel_off nonce_size;
            nonce \<leftarrow> wrn (replicate 16 0) 0 n;
            let nonce_len = (if is_gcm st then nonce_size else AES128_IV_SIZE);
            let enc_off = tunnel_off + tunnel_hdr_size;
            parts \<leftarrow> split_tag st packet enc_off (sz_sub pkt_len enc_off);
            case parts of
              None \<Rightarrow> Some (-1, st, packet)
            | Some (enc_len, tag) \<Rightarrow> do {
                backup \<leftarrow> take_backup packet enc_off enc_len;
                (found, st, packet) \<leftarrow> try_keys lib ctx nonce nonce_len enc_off enc_len tag backup (\<lambda>_. Some True) 0
                                       key_order st packet;
                if \<not> found then Some (-1, st, packet)
                else do {
                  packet \<leftarrow> mem_move packet tunnel_off enc_off enc_len;
                  packet \<leftarrow> l4_fix_ipv4_totlen_and_cksum packet l3_off ip_hdr_len (L4_WIRE_PORT_LEN + enc_len);
                  Some (c_int (int (tunnel_off + enc_len)), st, packet) } } } } })"

definition crypto_layer4_encrypt_fragment_single ::
  "evp_lib \<Rightarrow> packet_crypto_ctx \<Rightarrow> crypto_state \<Rightarrow> buf \<Rightarrow> buf \<Rightarrow> nat \<Rightarrow> buf \<Rightarrow> buf \<Rightarrow> u16 \<Rightarrow> u8 \<Rightarrow> buf \<Rightarrow> nat \<Rightarrow> nat
     \<Rightarrow> (int \<times> crypto_state \<times> buf \<times> nat) option" where
  "crypto_layer4_encrypt_fragment_single lib ctx st eth_hdr ip_hdr ip_hdr_len wire_ports enc_plain pkt_id frag_index
       out_buf out_max out_len =
     (if \<not> pc_initialized ctx then Some (-1, st, out_buf, out_len)
      else if enc_plain = [] then Some (-1, st, out_buf, out_len)
      else do {
        let tunnel_hdr_size = packet_crypto_get_tunnel_hdr_size st;
        let total_overhead = tunnel_hdr_size + FRAG_HDR_SIZE + gcm_tag_len st;
        let need = 14 + ip_hdr_len + L4_WIRE_PORT_LEN + total_overhead + length enc_plain;
        if need > out_max then Some (-1, st, out_buf, out_len)
        else do {
        eh \<leftarrow> rdn eth_hdr 0 14;
        out_buf \<leftarrow> wrn out_buf 0 eh;
        ih \<leftarrow> rdn ip_hdr 0 ip_hdr_len;
        out_buf \<leftarrow> wrn out_buf 14 ih;
        wp \<leftarrow> rdn wire_ports 0 L4_WIRE_PORT_LEN;
        out_buf \<leftarrow> wrn out_buf (14 + ip_hdr_len) wp;
        let (counter, st1) = packet_crypto_next_counter st;
        (nonce, nonce_len, st2) \<leftarrow> crypto_generate_nonce lib st1 counter PROTO_FLAG_IPV4;
        key \<leftarrow> packet_crypto_get_key ctx KEY_SLOT_CURRENT;
        let tunnel_off = 14 + ip_hdr_len + L4_WIRE_PORT_LEN;
        let enc_off = tunnel_off + tunnel_hdr_size + FRAG_HDR_SIZE;
        out_buf \<leftarrow> wrn out_buf enc_off enc_plain;
        out_buf \<leftarrow> l4_write_tunnel_header_frag out_buf tunnel_off nonce (g_nonce_size st) (g_policy_id st);
        out_buf \<leftarrow> write_frag_tag out_buf (tunnel_off + tunnel_hdr_size) pkt_id frag_index;
        (rc, st3, out_buf, tag) \<leftarrow> seal_range lib st2 key nonce nonce_len out_buf enc_off (c_int (int (length enc_plain)));
        if rc \<noteq> 0 then Some (-1, st3, out_buf, out_len)
        else do {
          out_buf \<leftarrow> put_tag st3 out_buf (enc_off + length enc_plain) tag;
          out_buf \<leftarrow> l4_fix_ipv4_totlen_and_cksum out_buf 14 ip_hdr_len
                      (L4_WIRE_PORT_LEN + total_overhead + length enc_plain);
          Some (0, st3, out_buf, enc_off + length enc_plain + gcm_tag_len st) } } })"

definition crypto_layer4_decrypt_fragment ::
  "evp_lib \<Rightarrow> packet_crypto_ctx \<Rightarrow> crypto_state \<Rightarrow> buf \<Rightarrow> nat \<Rightarrow> u16 \<Rightarrow> u8
     \<Rightarrow> (int \<times> crypto_state \<times> buf \<times> u16 \<times> u8) option" where
  "crypto_layer4_decrypt_fragment lib ctx st packet pkt_len pkt_id0 frag_index0 =
     (if \<not> pc_initialized ctx then Some (-1, st, packet, pkt_id0, frag_index0)
      else do {
        loc \<leftarrow> l4_locate packet pkt_len (-1);
        case loc of
          Inl rc \<Rightarrow> Some (rc, st, packet, pkt_id0, frag_index0)
        | Inr (l3_off, ip_proto, ip_hdr_len) \<Rightarrow> do {
            let nonce_size = g_nonce_size st;
            let tunnel_hdr_size = packet_crypto_get_tunnel_hdr_size st;
            let tunnel_off = l3_off + ip_hdr_len + L4_WIRE_PORT_LEN;
            if pkt_len < tunnel_off + tunnel_hdr_size + FRAG_HDR_SIZE then Some (-1, st, packet, pkt_id0, frag_index0)
            else do {
            m \<leftarrow> rd packet (tunnel_off + nonce_size + 1);
            if m \<noteq> CRYPTO_L4_FRAG_MAGIC then Some (-1, st, packet, pkt_id0, frag_index0)
            else do {
            (pkt_id, frag_index) \<leftarrow> read_frag_tag packet (tunnel_off + tunnel_hdr_size);
            n \<leftarrow> rdn packet tunnel_off nonce_size;
            nonce \<leftarrow> wrn (replicate 16 0) 0 n;
            let nonce_len = (if is_gcm st then nonce_size else AES128_IV_SIZE);
            let enc_off = tunnel_off + tunnel_hdr_size + FRAG_HDR_SIZE;
            parts \<leftarrow> split_tag st packet enc_off (sz_sub pkt_len enc_off);
            case parts of
              None \<Rightarrow> Some (-1, st, packet, pkt_id, frag_index)
            | Some (enc_len, tag) \<Rightarrow> do {
                backup \<leftarrow> take_backup packet enc_off enc_len;
                (found, st, packet) \<leftarrow> try_keys lib ctx nonce nonce_len enc_off enc_len tag backup (\<lambda>_. Some True) 0
                                       key_order st packet;
                if \<not> found then Some (-1, st, packet, pkt_id, frag_index)
                else do {
                  packet \<leftarrow> mem_move packet tunnel_off enc_off enc_len;
                  packet \<leftarrow> l4_fix_ipv4_totlen_and_cksum packet l3_off ip_hdr_len (L4_WIRE_PORT_LEN + enc_len);
                  Some (c_int (int (tunnel_off + enc_len)), st, packet, pkt_id, frag_index) } } } } } })"

section \<open>Packets in parts\<close>

lemma rd_append: "i < length a \<Longrightarrow> rd (a @ z) i = rd a i"
  by (simp add: rd_def nth_append)

lemma rd_be16_append: "Suc i < length a \<Longrightarrow> rd_be16 (a @ z) i = rd_be16 a i"
  by (simp add: nth_append)

text \<open>An Ethernet header, with or without VLAN tags, that announces IPv4.\<close>

definition eth_ipv4 :: "u8 list \<Rightarrow> bool" where
  "eth_ipv4 e = (crypto_eth_ipv4_offset e (length e) = Some (int (length e)))"

lemma eth_ipv4_append:
  assumes "eth_ipv4 e" "length e \<le> n"
  shows "crypto_eth_ipv4_offset (e @ z) n = Some (int (length e))"
proof -
  have l: "length e = 14 \<or> length e = 18 \<or> length e = 22"
    using assms(1) unfolding eth_ipv4_def crypto_eth_ipv4_offset_def
    by (auto split: if_splits simp: bind_Some_iff)
  then show ?thesis
    using assms unfolding eth_ipv4_def crypto_eth_ipv4_offset_def
    by (auto split: if_splits simp: nth_append)
qed

text \<open>An IPv4 header of a TCP or UDP packet, and the transport bytes the code accepts.\<close>

definition l4_hdr_ok :: "u8 list \<Rightarrow> bool" where
  "l4_hdr_ok h = (20 \<le> length h \<and> unat (h ! 0 AND 0x0F) * 4 = length h \<and> h ! 9 \<in> {6, 17})"

definition l4_transport_ok :: "u8 \<Rightarrow> u8 list \<Rightarrow> bool" where
  "l4_transport_ok p x = (case get_transport_hdr_size x 0 p (length x) of Some k \<Rightarrow> 0 \<le> k | None \<Rightarrow> False)"

lemma l4_transport_parts:
  assumes "l4_transport_ok p x" "off = length a"
  shows "\<exists>k\<ge>0. get_transport_hdr_size (a @ x @ z) off p (length x) = Some k"
  using assms by (auto simp: l4_transport_ok_def get_transport_hdr_size_def nth_append Let_def split: option.splits if_splits)

lemma l4_locate_parts:
  assumes "eth_ipv4 e" "l4_hdr_ok h" "length e + length h \<le> n"
  shows "l4_locate (e @ h @ z) n x = Some (Inr (length e, h ! 9, length h))"
proof -
  have "crypto_eth_ipv4_offset (e @ h @ z) n = Some (int (length e))"
    using eth_ipv4_append [OF assms(1)] assms(3) by simp
  moreover have "rd (e @ h @ z) (length e + 9) = Some (h ! 9)" "rd (e @ h @ z) (length e) = Some (h ! 0)"
    using assms(2) by (auto simp: l4_hdr_ok_def nth_append rd_def)
  ultimately show ?thesis using assms by (auto simp: l4_locate_def ip_ihl_def l4_hdr_ok_def simp del: rd_Some)
qed

lemma l4_hdr_ok_patch [simp]: "l4_hdr_ok (patch_hdr h t) = l4_hdr_ok h"
  by (simp add: l4_hdr_ok_def patch_hdr_nth)

lemma l4_encrypt_parts:
  assumes "evp_ok lib" "crypto_ready st ctx" "eth_ipv4 e" "l4_hdr_ok h" "length q4 = 4"
    and "l4_transport_ok (h ! 9) (q4 @ d)" "d \<noteq> []" "length e + length h + length d < 2 ^ 30"
    and "g_nonce_size st + 2 + gcm_tag_len st \<le> length r"
  shows "\<exists>s n K. crypto_layer4_encrypt lib ctx st (e @ h @ q4 @ d @ r) (length e + length h + 4 + length d) =
      Some (int (length e + length h + 4 + length d + g_nonce_size st + 2 + gcm_tag_len st), s,
        e @ patch_hdr h (of_nat (length h + 4 + (g_nonce_size st + 2 + gcm_tag_len st) + length d)) @ q4
          @ take (g_nonce_size st) n @ [g_policy_id st, CRYPTO_L4_TUNNEL_MAGIC]
          @ cipher_text lib s K n d @ cipher_tag lib s K n d @ drop (g_nonce_size st + 2 + gcm_tag_len st) r)
    \<and> crypto_ready s ctx \<and> same_cipher st s \<and> length n = 16 \<and> K = pc_keys ctx ! 1
    \<and> take 4 n = nonce_prefix (fst (packet_crypto_next_counter st)) 0"
proof -
  let ?ns = "g_nonce_size st"
  obtain c n s where n: "packet_crypto_next_counter st = (c, st\<lparr>g_nonce_counter := g_nonce_counter st + 1\<rparr>)"
    "crypto_generate_nonce lib (st\<lparr>g_nonce_counter := g_nonce_counter st + 1\<rparr>) c PROTO_FLAG_IPV4 =
      Some (n, if g_crypto_mode st = CRYPTO_MODE_CTR then 16 else ?ns, s)"
    "length n = 16" "crypto_ready s ctx" "same_cipher st s" "take 4 n = nonce_prefix c 0"
    by (rule next_nonce [OF assms(1,2)])
  define K where "K = pc_keys ctx ! 1"
  define nl where "nl = (if g_crypto_mode st = CRYPTO_MODE_CTR then 16 else ?ns)"
  define a where "a = e @ h @ q4"
  define pl where "pl = length e + length h + 4"
  define k2 where "k2 = ?ns + 2"
  define ov where "ov = k2 + gcm_tag_len st"
  note key = current_key [OF assms(2), folded K_def]
  note sc = same_cipher_eqs [OF n(5)]
  have ini: "pc_initialized ctx" "?ns \<le> 16" using assms(2) by (auto simp: crypto_ready_def)
  have a: "length a = pl" using assms(5) by (simp add: a_def pl_def)
  have hl: "20 \<le> length h" using assms(4) by (simp add: l4_hdr_ok_def)
  obtain k b1 b2 where t: "seal_range lib s K n nl (a @ d @ r) pl (int (length d)) =
      Some (0, s\<lparr>tls_enc := k\<rparr>, a @ cipher_text lib s K n d @ r, cipher_tag lib s K n d)"
    "mem_move (a @ cipher_text lib s K n d @ r) (pl + k2) pl (length d) = Some b1"
    "put_tag (s\<lparr>tls_enc := k\<rparr>) b1 (pl + k2 + length d) (cipher_tag lib s K n d) = Some b2"
    "\<And>p x. crypto_write_l3_tunnel_header b2 pl n (g_nonce_size s) p x
       = Some (a @ take (g_nonce_size s) n @ [p, x] @ cipher_text lib s K n d @ cipher_tag lib s K n d @ drop (k2 + gcm_tag_len s) r)"
    "crypto_ready (s\<lparr>tls_enc := k\<rparr>) ctx"
    by (rule tunnel_steps [OF assms(1) n(4,3) assms(7), of pl a nl K k2 r "gcm_tag_len s"])
       (use assms a n sc in \<open>auto simp: nl_def K_def k2_def\<close>)
  let ?s = "s\<lparr>tls_enc := k\<rparr>"
  have loc: "l4_locate (e @ h @ q4 @ d @ r) (pl + length d) x = Some (Inr (length e, h ! 9, length h))" for x
    using l4_locate_parts [OF assms(3,4), of "pl + length d" "q4 @ d @ r" x] by (simp add: pl_def)
  obtain kk where th: "get_transport_hdr_size (e @ h @ q4 @ d @ r) (length e + length h) (h ! 9) (4 + length d) = Some kk" "0 \<le> kk"
    using l4_transport_parts [OF assms(6), of "length e + length h" "e @ h" r] assms(5) by auto
  have ar: "e @ h @ q4 @ d @ r = a @ d @ r" by (simp add: a_def)
  have sz: "sz_sub (pl + length d) (length e + length h) = 4 + length d" "sz_sub (pl + length d) pl = length d"
    by (simp_all add: pl_def)
  have fx: "l4_fix_ipv4_totlen_and_cksum (a @ z) (length e) (length h) (4 + ov + length d)
      = Some (e @ patch_hdr h (of_nat (length h + 4 + ov + length d)) @ q4 @ z)" for z
    using l4_fix_parts [of "length e" e "length h" h "q4 @ z" "4 + ov + length d"] hl
    by (simp add: a_def add.assoc)
  have cl: "c_int (int (length d)) = int (length d)"
    "c_int (int (pl + length d + ov)) = int (pl + length d + ov)"
    using assms(8) ini by (simp_all add: c_int_id pl_def ov_def k2_def gcm_tag_len_def AES128_GCM_TAG_SIZE_def)
  have th2: "packet_crypto_get_tunnel_hdr_size st = k2" by (simp add: k2_def packet_crypto_get_tunnel_hdr_size_def)
  have "crypto_layer4_encrypt lib ctx st (a @ d @ r) (pl + length d) =
      Some (int (pl + length d + ov), ?s,
        e @ patch_hdr h (of_nat (length h + 4 + ov + length d)) @ q4
          @ take ?ns n @ [g_policy_id st, CRYPTO_L4_TUNNEL_MAGIC]
          @ cipher_text lib s K n d @ cipher_tag lib s K n d @ drop ov r)"
    using ini(1) assms(7) th(2)
    unfolding crypto_layer4_encrypt_def Let_def L4_WIRE_PORT_LEN_def th2
      l4_write_tunnel_header_def ov_def [symmetric]
    by (simp del: append_assoc append.simps One_nat_def of_nat_add
        add: loc [unfolded ar] th(1) [unfolded ar] sz pl_def [symmetric] n(1) n(2) [folded nl_def] key cl(1) t(1-3)
          t(4) [unfolded sc(2), unfolded sc(5)] fx cl(2) ov_def [symmetric])
  then show ?thesis using t(5) n(1,3,5,6) unfolding ar [symmetric]
    by (intro exI [of _ ?s] exI [of _ n] exI [of _ K]) (simp add: K_def pl_def ov_def k2_def add.assoc)
qed

lemma l4_tunnel_parts:
  assumes "off = length a" "length n = 16" "ns \<le> 16" "0 < ns" "n ! 0 AND 0x80 = 0"
  shows "l4_is_tunnel_header (a @ take ns n @ [p, CRYPTO_L4_TUNNEL_MAGIC] @ z) off ns = Some True"
proof -
  have "rd (a @ take ns n @ [p, CRYPTO_L4_TUNNEL_MAGIC] @ z) (off + ns + 1) = Some CRYPTO_L4_TUNNEL_MAGIC"
    using rd_mid [of "off + ns + 1" "a @ take ns n @ [p]" CRYPTO_L4_TUNNEL_MAGIC z] assms by simp
  moreover have "rd (a @ take ns n @ [p, CRYPTO_L4_TUNNEL_MAGIC] @ z) off = Some (n ! 0)"
    using assms by (simp add: nth_append)
  ultimately show ?thesis using assms(5) unfolding l4_is_tunnel_header_def by simp
qed

lemma l4_decrypt_parts:
  assumes "evp_ok lib" "crypto_ready t ctx" "same_cipher s t" "length n = 16" "d \<noteq> []"
    and "length e + length h + length d < 2 ^ 30" "K = pc_keys ctx ! 1" "eth_ipv4 e" "l4_hdr_ok h" "length q4 = 4"
    and "0 < g_nonce_size t" "n ! 0 AND 0x80 = 0"
  shows "\<exists>t' rest. crypto_layer4_decrypt lib ctx t
      (e @ h @ q4 @ take (g_nonce_size t) n @ [p, CRYPTO_L4_TUNNEL_MAGIC] @ cipher_text lib s K n d @ cipher_tag lib s K n d @ z)
      (length e + length h + 4 + (g_nonce_size t + 2) + length d + gcm_tag_len t)
    = Some (int (length e + length h + 4 + length d), t', e @ patch_hdr h (of_nat (length h + 4 + length d)) @ q4 @ d @ rest)
    \<and> crypto_ready t' ctx"
proof -
  let ?ns = "g_nonce_size t"
  define a where "a = e @ h @ q4"
  define b where "b = a @ take ?ns n @ [p, CRYPTO_L4_TUNNEL_MAGIC] @ cipher_text lib s K n d @ cipher_tag lib s K n d @ z"
  define pl where "pl = length e + length h + 4"
  define k2 where "k2 = packet_crypto_get_tunnel_hdr_size t"
  define nl where "nl = (if is_gcm t then ?ns else AES128_IV_SIZE)"
  have k2: "k2 = ?ns + 2" by (simp add: k2_def packet_crypto_get_tunnel_hdr_size_def)
  have ini: "pc_initialized ctx" "?ns \<le> 16" using assms(2) by (auto simp: crypto_ready_def)
  have a: "length a = pl" using assms(10) by (simp add: a_def pl_def)
  have hl: "20 \<le> length h" using assms(9) by (simp add: l4_hdr_ok_def)
  obtain n2 tag bk q rest where o: "rdn b pl ?ns = Some (take ?ns n)" "wrn (replicate 16 0) 0 (take ?ns n) = Some n2"
    "split_tag t b (pl + k2) (length d + gcm_tag_len t) = Some (Some (length d, tag))"
    "take_backup b (pl + k2) (length d) = Some bk"
    "try_keys lib ctx n2 nl (pl + k2) (length d) tag bk (\<lambda>_. Some True) 0 key_order t b
       = Some (True, t\<lparr>tls_dec := q\<rparr>, a @ take ?ns n @ [p, CRYPTO_L4_TUNNEL_MAGIC] @ d @ cipher_tag lib s K n d @ z)"
    "mem_move (a @ take ?ns n @ [p, CRYPTO_L4_TUNNEL_MAGIC] @ d @ cipher_tag lib s K n d @ z) pl (pl + k2) (length d) = Some (a @ d @ rest)"
    "crypto_ready (t\<lparr>tls_dec := q\<rparr>) ctx"
    unfolding nl_def
    by (rule tunnel_open [OF assms(1-5) _ assms(7), of pl a "pl + k2" "[p, CRYPTO_L4_TUNNEL_MAGIC]" b z "\<lambda>_. Some True"])
       (use assms(6) a in \<open>auto simp: b_def k2\<close>)
  have loc: "l4_locate b (pl + k2 + length d + gcm_tag_len t) x = Some (Inr (length e, h ! 9, length h))" for x
    using l4_locate_parts [OF assms(8,9), of "pl + k2 + length d + gcm_tag_len t"
        "q4 @ take ?ns n @ [p, CRYPTO_L4_TUNNEL_MAGIC] @ cipher_text lib s K n d @ cipher_tag lib s K n d @ z" x]
    by (simp add: pl_def b_def a_def)
  have tun: "l4_is_tunnel_header b pl ?ns = Some True"
    unfolding b_def by (rule l4_tunnel_parts) (use a assms ini in simp_all)
  have fx: "l4_fix_ipv4_totlen_and_cksum (a @ d @ rest) (length e) (length h) (4 + length d)
      = Some (e @ patch_hdr h (of_nat (length h + 4 + length d)) @ q4 @ d @ rest)"
    using l4_fix_parts [of "length e" e "length h" h "q4 @ d @ rest" "4 + length d"] hl by (simp add: a_def add.assoc)
  have sz: "sz_sub (pl + k2 + length d + gcm_tag_len t) (pl + k2) = length d + gcm_tag_len t"
    "\<not> pl + k2 + length d + gcm_tag_len t < pl + k2" "length e + (length h + 4) = pl" by (simp_all add: pl_def)
  have cl: "c_int (int (pl + length d)) = int (pl + length d)"
    using assms(6) by (simp add: c_int_id pl_def)
  have "crypto_layer4_decrypt lib ctx t b (pl + k2 + length d + gcm_tag_len t)
    = Some (int (pl + length d), t\<lparr>tls_dec := q\<rparr>, e @ patch_hdr h (of_nat (length h + 4 + length d)) @ q4 @ d @ rest)"
    using ini(1)
    unfolding crypto_layer4_decrypt_def Let_def L4_WIRE_PORT_LEN_def k2_def [symmetric] nl_def [symmetric]
    by (simp del: append_assoc append.simps One_nat_def of_nat_add rdn_Some wrn_Some not_less
        add: loc pl_def [symmetric] tun o(1-6) sz fx cl)
  then show ?thesis using o(7) unfolding b_def a_def k2 pl_def by auto
qed

section \<open>Properties\<close>

lemma l4_tag_le: "gcm_tag_len st \<le> 16"
  by (simp add: gcm_tag_len_def AES128_GCM_TAG_SIZE_def)

text \<open>Layer 4 encryption of a TCP or UDP packet, with or without VLAN tags, in a buffer with room for
  its overhead stays inside the buffer and succeeds: Ethernet header and ports are kept, the IP header
  gets the new total length and a valid checksum, the tunnel header carries nonce, policy id and magic.\<close>

lemma l4_encrypt_layout:
  assumes "evp_ok lib" "crypto_ready st ctx" "eth_ipv4 e" "l4_hdr_ok h" "length q4 = 4"
    and "l4_transport_ok (h ! 9) (q4 @ d)" "d \<noteq> []" "length e + length h + length d < 2 ^ 30"
    and "g_nonce_size st + 2 + gcm_tag_len st \<le> length r"
  shows "\<exists>s n. crypto_layer4_encrypt lib ctx st (e @ h @ q4 @ d @ r) (length e + length h + 4 + length d) =
      Some (int (length e + length h + 4 + length d + g_nonce_size st + 2 + gcm_tag_len st), s,
        e @ patch_hdr h (of_nat (length h + 4 + (g_nonce_size st + 2 + gcm_tag_len st) + length d)) @ q4
          @ take (g_nonce_size st) n @ [g_policy_id st, CRYPTO_L4_TUNNEL_MAGIC]
          @ cipher_text lib s (pc_keys ctx ! 1) n d @ cipher_tag lib s (pc_keys ctx ! 1) n d
          @ drop (g_nonce_size st + 2 + gcm_tag_len st) r)
    \<and> take 4 n = nonce_prefix (fst (packet_crypto_next_counter st)) 0"
  using l4_encrypt_parts [OF assms] by blast

text \<open>C7: layer 4 decryption inverts encryption: the receiver restores the payload, the ports and the IP
  header with the original total length; a header that already carried that length and the checksum of
  \<open>crypto_calc_ip_checksum\<close> comes back unchanged, so the whole packet is restored.\<close>

theorem l4_decrypt_inverts_encrypt:
  assumes "evp_ok lib" "crypto_ready st ctx" "crypto_ready t ctx" "same_cipher st t" "0 < g_nonce_size t"
    and "eth_ipv4 e" "l4_hdr_ok h" "length q4 = 4" "l4_transport_ok (h ! 9) (q4 @ d)" "d \<noteq> []"
    and "length e + length h + length d < 2 ^ 30" "g_nonce_size st + 2 + gcm_tag_len st \<le> length r"
    and "h = patch_hdr h (of_nat (length h + 4 + length d))"
  shows "\<exists>len s b t' rest.
      crypto_layer4_encrypt lib ctx st (e @ h @ q4 @ d @ r) (length e + length h + 4 + length d) = Some (len, s, b) \<and>
      crypto_layer4_decrypt lib ctx t b (nat len)
        = Some (int (length e + length h + 4 + length d), t', e @ h @ q4 @ d @ rest)"
proof -
  let ?T = "of_nat (length h + 4 + (g_nonce_size st + 2 + gcm_tag_len st) + length d) :: u16"
  obtain s n K where e: "crypto_layer4_encrypt lib ctx st (e @ h @ q4 @ d @ r) (length e + length h + 4 + length d) =
      Some (int (length e + length h + 4 + length d + g_nonce_size st + 2 + gcm_tag_len st), s,
        e @ patch_hdr h ?T @ q4 @ take (g_nonce_size st) n @ [g_policy_id st, CRYPTO_L4_TUNNEL_MAGIC]
          @ cipher_text lib s K n d @ cipher_tag lib s K n d @ drop (g_nonce_size st + 2 + gcm_tag_len st) r)"
    "same_cipher st s" "length n = 16" "K = pc_keys ctx ! 1" "take 4 n = nonce_prefix (fst (packet_crypto_next_counter st)) 0"
    using l4_encrypt_parts [OF assms(1,2,6-12)] by blast
  have sc: "same_cipher s t" using e(2) assms(4) by (simp add: same_cipher_def)
  note q = same_cipher_eqs [OF assms(4)]
  have hp: "l4_hdr_ok (patch_hdr h ?T)" "length e + length (patch_hdr h ?T) + length d < 2 ^ 30"
    using assms(7,11) by simp_all
  obtain t' rest where "crypto_layer4_decrypt lib ctx t
      (e @ patch_hdr h ?T @ q4 @ take (g_nonce_size t) n @ [g_policy_id st, CRYPTO_L4_TUNNEL_MAGIC]
         @ cipher_text lib s K n d @ cipher_tag lib s K n d @ drop (g_nonce_size st + 2 + gcm_tag_len st) r)
      (length e + length (patch_hdr h ?T) + 4 + (g_nonce_size t + 2) + length d + gcm_tag_len t)
    = Some (int (length e + length (patch_hdr h ?T) + 4 + length d), t',
        e @ patch_hdr (patch_hdr h ?T) (of_nat (length (patch_hdr h ?T) + 4 + length d)) @ q4 @ d @ rest)"
    using l4_decrypt_parts [OF assms(1,3) sc e(3) assms(10) hp(2) e(4) assms(6) hp(1) assms(8,5) nonce_first_bit [OF e(5)]] by blast
  moreover have "patch_hdr (patch_hdr h ?T) (of_nat (length (patch_hdr h ?T) + 4 + length d)) = h"
    unfolding patch_hdr_twice patch_hdr_length by (rule assms(13) [symmetric])
  moreover have "nat (int (length e + length h + 4 + length d + g_nonce_size st + 2 + gcm_tag_len st))
      = length e + length (patch_hdr h ?T) + 4 + (g_nonce_size t + 2) + length d + gcm_tag_len t"
    using q by simp
  ultimately show ?thesis using e(1) q(2) by auto
qed

definition sample_eth :: "u8 list" where "sample_eth = replicate 12 2 @ [8, 0]"
definition sample_vlan_eth :: "u8 list" where "sample_vlan_eth = replicate 12 2 @ [0x81, 0, 0, 5, 8, 0]"
definition sample_iphdr :: "u8 list" where
  "sample_iphdr = patch_hdr [0x45, 0, 0, 0, 0, 1, 0, 0, 64, 6, 0, 0, 10, 0, 0, 1, 10, 0, 0, 2] 40"

lemma sample_eth_ok [simp]: "eth_ipv4 sample_eth" "length sample_eth = 14"
  "eth_ipv4 sample_vlan_eth" "length sample_vlan_eth = 18"
  by (simp_all add: sample_eth_def sample_vlan_eth_def eth_ipv4_def crypto_eth_ipv4_offset_def be16_of_def nth_append)

lemma sample_iphdr_ok [simp]: "length sample_iphdr = 20" "sample_iphdr ! 9 = 6" "sample_iphdr ! 0 = 0x45"
  "l4_hdr_ok sample_iphdr" "patch_hdr sample_iphdr 40 = sample_iphdr"
  by (simp_all add: sample_iphdr_def l4_hdr_ok_def patch_hdr_nth)

lemma sample_tcp_ok [simp]: "l4_transport_ok 6 ([0, 80, 1, 187] @ drop 24 sample_ip)"
  by (simp add: l4_transport_ok_def get_transport_hdr_size_def sample_ip_def)

theorem l4_decrypt_inverts_encrypt_witness:
  "\<exists>len s b t' rest.
      crypto_layer4_encrypt toy_lib sample_ctx (sample_crypto 0)
        (sample_eth @ sample_iphdr @ [0, 80, 1, 187] @ drop 24 sample_ip @ replicate 40 0)
        (length sample_eth + length sample_iphdr + 4 + length (drop 24 sample_ip)) = Some (len, s, b) \<and>
      crypto_layer4_decrypt toy_lib sample_ctx (sample_crypto 0) b (nat len)
        = Some (int (length sample_eth + length sample_iphdr + 4 + length (drop 24 sample_ip)), t',
            sample_eth @ sample_iphdr @ [0, 80, 1, 187] @ drop 24 sample_ip @ rest)"
  by (rule l4_decrypt_inverts_encrypt) (simp_all add: toy_lib_ok sample_ready sample_tcp_ok [simplified])

section \<open>Fragments\<close>

lemma l4_encrypt_fragment_parts:
  assumes "evp_ok lib" "crypto_ready st ctx" "length e = 14" "20 \<le> length h" "length q4 = 4"
    and "d \<noteq> []" "length h + length d < 2 ^ 30" "out_max \<le> length out"
    and "14 + length h + 4 + (g_nonce_size st + 2 + 4 + gcm_tag_len st) + length d \<le> out_max"
  shows "\<exists>s n K rest. crypto_layer4_encrypt_fragment_single lib ctx st (e @ z1) (h @ z2) (length h) (q4 @ z3) d pkt_id idx out out_max ol =
      Some (0, s, e @ patch_hdr h (of_nat (length h + (4 + (g_nonce_size st + 2 + 4 + gcm_tag_len st) + length d))) @ q4
         @ take (g_nonce_size st) n @ [g_policy_id st, CRYPTO_L4_FRAG_MAGIC] @ [hi8 pkt_id, lo8 pkt_id, idx, 0]
         @ cipher_text lib s K n d @ cipher_tag lib s K n d @ rest,
         14 + length h + 4 + (g_nonce_size st + 2 + 4 + gcm_tag_len st) + length d)
    \<and> crypto_ready s ctx \<and> same_cipher st s \<and> length n = 16 \<and> K = pc_keys ctx ! 1
    \<and> take 4 n = nonce_prefix (fst (packet_crypto_next_counter st)) 0
    \<and> length rest + (14 + length h + 4 + (g_nonce_size st + 2 + 4 + gcm_tag_len st) + length d) = length out"
proof -
  let ?ns = "g_nonce_size st"
  obtain c n s where n: "packet_crypto_next_counter st = (c, st\<lparr>g_nonce_counter := g_nonce_counter st + 1\<rparr>)"
    "crypto_generate_nonce lib (st\<lparr>g_nonce_counter := g_nonce_counter st + 1\<rparr>) c PROTO_FLAG_IPV4 =
      Some (n, if g_crypto_mode st = CRYPTO_MODE_CTR then 16 else ?ns, s)"
    "length n = 16" "crypto_ready s ctx" "same_cipher st s" "take 4 n = nonce_prefix c 0"
    by (rule next_nonce [OF assms(1,2)])
  define K where "K = pc_keys ctx ! 1"
  define nl where "nl = (if g_crypto_mode st = CRYPTO_MODE_CTR then 16 else ?ns)"
  define k2 where "k2 = packet_crypto_get_tunnel_hdr_size st"
  define T where "T = 14 + length h + 4"
  define ov where "ov = k2 + 4 + gcm_tag_len st"
  have k2: "k2 = ?ns + 2" by (simp add: k2_def packet_crypto_get_tunnel_hdr_size_def)
  note key = current_key [OF assms(2), folded K_def]
  note sc = same_cipher_eqs [OF n(5)]
  have ns: "?ns \<le> 16" "pc_initialized ctx" using assms(2) by (auto simp: crypto_ready_def)
  have "14 + length h + 4 + (k2 + 4) + length d \<le> length out" using assms(8,9) by (simp add: k2)
  then obtain o0 o1 o2 o3 o4 o5 where o: "out = o0 @ o1 @ o2 @ o3 @ o4 @ o5" "length o0 = 14" "length o1 = length h"
    "length o2 = 4" "length o3 = k2 + 4" "length o4 = length d" "length o5 = length out - (14 + length h + 4 + (k2 + 4) + length d)"
    by (rule split_parts5)
  have "k2 \<le> length o3" using o(5) by simp
  then obtain x3 y3 where x3: "o3 = x3 @ y3" "length x3 = k2" "length y3 = length o3 - k2" by (rule split_parts)
  define a where "a = e @ h @ q4"
  define w where "w = a @ take ?ns n @ [g_policy_id st, CRYPTO_L4_FRAG_MAGIC] @ [hi8 pkt_id, lo8 pkt_id, idx, 0]"
  have a: "length a = T" using assms by (simp add: a_def T_def)
  have w: "length w = T + k2 + 4" using a n ns by (simp add: w_def k2)
  have r: "rdn (e @ z1) 0 14 = Some e" "rdn (h @ z2) 0 (length h) = Some h" "rdn (q4 @ z3) 0 4 = Some q4"
    using assms by simp_all
  have s1: "wrn out 0 e = Some (e @ o1 @ o2 @ o3 @ o4 @ o5)"
    unfolding o(1) using assms(3) o(2) by simp
  have s2: "wrn (e @ o1 @ o2 @ o3 @ o4 @ o5) 14 h = Some (e @ h @ o2 @ o3 @ o4 @ o5)"
    using assms(3) o(3) by (intro wrn_mid) simp_all
  have s3: "wrn (e @ h @ o2 @ o3 @ o4 @ o5) (14 + length h) q4 = Some (a @ o3 @ o4 @ o5)"
    using wrn_mid [of "14 + length h" "e @ h" q4 o2 "o3 @ o4 @ o5"] assms(3,5) o(4) by (simp add: a_def)
  have s4: "wrn (a @ o3 @ o4 @ o5) (T + k2 + 4) d = Some (a @ x3 @ y3 @ d @ o5)"
  proof -
    have "wrn ((a @ o3) @ o4 @ o5) (T + k2 + 4) d = Some ((a @ o3) @ d @ o5)"
      by (rule wrn_mid) (simp_all add: a o(5,6))
    then show ?thesis by (simp only: x3(1) append_assoc)
  qed
  have y3: "length y3 = 4" using x3(3) o(5) by linarith
  have s5: "crypto_write_l3_tunnel_header (a @ x3 @ y3 @ d @ o5) T n ?ns (g_policy_id st) CRYPTO_L4_FRAG_MAGIC
      = Some (a @ take ?ns n @ [g_policy_id st, CRYPTO_L4_FRAG_MAGIC] @ y3 @ d @ o5)"
    by (rule write_tunnel_parts) (use a x3(2) n(3) ns k2 in simp_all)
  have s6: "write_frag_tag (a @ take ?ns n @ [g_policy_id st, CRYPTO_L4_FRAG_MAGIC] @ y3 @ d @ o5) (T + k2) pkt_id idx
      = Some (w @ d @ o5)"
    using frag_tag_parts [of "T + k2" "a @ take ?ns n @ [g_policy_id st, CRYPTO_L4_FRAG_MAGIC]" y3 "d @ o5" pkt_id idx]
      a n(3) ns k2 y3 by (simp add: w_def)
  obtain q where q: "seal_range lib s K n nl (w @ d @ o5) (T + k2 + 4) (int (length d)) =
      Some (0, s\<lparr>tls_enc := q\<rparr>, w @ cipher_text lib s K n d @ o5, cipher_tag lib s K n d)"
    "crypto_ready (s\<lparr>tls_enc := q\<rparr>) ctx"
    by (rule seal_ready [OF assms(1) n(4,3), folded K_def, of d "T + k2 + 4" w nl o5])
       (use assms w sc in \<open>auto simp: nl_def\<close>)
  let ?s = "s\<lparr>tls_enc := q\<rparr>"
  define rest where "rest = drop (gcm_tag_len st) o5"
  have o5: "gcm_tag_len st \<le> length o5" using o(7) assms(8,9) k2 by linarith
  have pt: "put_tag ?s (w @ cipher_text lib s K n d @ o5) (T + k2 + 4 + length d) (cipher_tag lib s K n d)
     = Some (w @ cipher_text lib s K n d @ cipher_tag lib s K n d @ rest)"
    using put_tag_parts [OF assms(1), of "T + k2 + 4 + length d" "w @ cipher_text lib s K n d" ?s o5 K n d]
      cipher_text_length [OF assms(1), of s K n d] w o5 sc(5)
    by (simp add: rest_def)
  have fx: "l4_fix_ipv4_totlen_and_cksum (w @ z) 14 (length h) (4 + ov + length d)
      = Some (e @ patch_hdr h (of_nat (length h + (4 + ov + length d))) @ q4 @ take ?ns n
          @ [g_policy_id st, CRYPTO_L4_FRAG_MAGIC] @ [hi8 pkt_id, lo8 pkt_id, idx, 0] @ z)" for z
    using l4_fix_parts [of 14 e "length h" h "q4 @ take ?ns n
          @ [g_policy_id st, CRYPTO_L4_FRAG_MAGIC] @ [hi8 pkt_id, lo8 pkt_id, idx, 0] @ z" "4 + ov + length d"] assms(3,4)
    by (simp add: w_def a_def)
  have cl: "c_int (int (length d)) = int (length d)" using assms(7) by (simp add: c_int_id)
  have nd: "\<not> out_max < T + ov + length d" using assms(9) by (simp add: T_def ov_def k2)
  have need: "T + k2 + 4 + length d + gcm_tag_len st = T + ov + length d" by (simp add: ov_def)
  have "crypto_layer4_encrypt_fragment_single lib ctx st (e @ z1) (h @ z2) (length h) (q4 @ z3) d pkt_id idx out out_max ol =
      Some (0, ?s, e @ patch_hdr h (of_nat (length h + (4 + ov + length d))) @ q4 @ take ?ns n
          @ [g_policy_id st, CRYPTO_L4_FRAG_MAGIC] @ [hi8 pkt_id, lo8 pkt_id, idx, 0]
          @ cipher_text lib s K n d @ cipher_tag lib s K n d @ rest, T + ov + length d)"
    using ns(2) assms(6) nd
    unfolding crypto_layer4_encrypt_fragment_single_def Let_def L4_WIRE_PORT_LEN_def FRAG_HDR_SIZE_def k2_def [symmetric]
      T_def [symmetric] ov_def [symmetric] l4_write_tunnel_header_frag_def
    by (simp del: append_assoc append.simps One_nat_def rdn_Some wrn_Some wr_Some of_nat_add
        add: r s1 n(1) n(2) [folded nl_def] key s2 s3 s4 s5 s6 cl q(1) pt fx need)
  moreover have "length rest + (T + ov + length d) = length out"
    using o(7) assms(8,9) by (simp add: rest_def T_def ov_def k2)
  ultimately show ?thesis using q(2) n(1,3,5,6)
    by (intro exI [of _ ?s] exI [of _ n] exI [of _ K] exI [of _ rest])
       (simp add: K_def T_def ov_def k2 add.assoc)
qed

lemma l4_decrypt_fragment_parts:
  assumes "evp_ok lib" "crypto_ready t ctx" "same_cipher s t" "length n = 16" "d \<noteq> []"
    and "length e + length h + length d < 2 ^ 30" "K = pc_keys ctx ! 1" "eth_ipv4 e" "l4_hdr_ok h" "length q4 = 4"
  shows "\<exists>t' rest. crypto_layer4_decrypt_fragment lib ctx t
      (e @ h @ q4 @ take (g_nonce_size t) n @ [p, CRYPTO_L4_FRAG_MAGIC] @ [hi8 pkt_id, lo8 pkt_id, idx, 0]
          @ cipher_text lib s K n d @ cipher_tag lib s K n d @ z)
      (length e + length h + 4 + (g_nonce_size t + 2 + 4 + gcm_tag_len t) + length d) i0 x0
    = Some (int (length e + length h + 4 + length d), t', e @ patch_hdr h (of_nat (length h + (4 + length d))) @ q4 @ d @ rest,
        pkt_id, idx)
    \<and> crypto_ready t' ctx \<and> same_cipher t t'"
proof -
  let ?ns = "g_nonce_size t"
  define a where "a = e @ h @ q4"
  define x where "x = [p, CRYPTO_L4_FRAG_MAGIC] @ [hi8 pkt_id, lo8 pkt_id, idx, 0]"
  define b where "b = a @ take ?ns n @ x @ cipher_text lib s K n d @ cipher_tag lib s K n d @ z"
  define T where "T = length e + length h + 4"
  define k2 where "k2 = packet_crypto_get_tunnel_hdr_size t"
  define nl where "nl = (if is_gcm t then ?ns else AES128_IV_SIZE)"
  have k2: "k2 = ?ns + 2" by (simp add: k2_def packet_crypto_get_tunnel_hdr_size_def)
  have ini: "pc_initialized ctx" "?ns \<le> 16" using assms(2) by (auto simp: crypto_ready_def)
  have a: "length a = T" using assms(10) by (simp add: a_def T_def)
  have hl: "20 \<le> length h" using assms(9) by (simp add: l4_hdr_ok_def)
  obtain n2 tag bk q rest where o: "rdn b T ?ns = Some (take ?ns n)" "wrn (replicate 16 0) 0 (take ?ns n) = Some n2"
    "split_tag t b (T + k2 + 4) (length d + gcm_tag_len t) = Some (Some (length d, tag))"
    "take_backup b (T + k2 + 4) (length d) = Some bk"
    "try_keys lib ctx n2 nl (T + k2 + 4) (length d) tag bk (\<lambda>_. Some True) 0 key_order t b
       = Some (True, t\<lparr>tls_dec := q\<rparr>, a @ take ?ns n @ x @ d @ cipher_tag lib s K n d @ z)"
    "mem_move (a @ take ?ns n @ x @ d @ cipher_tag lib s K n d @ z) T (T + k2 + 4) (length d) = Some (a @ d @ rest)"
    "crypto_ready (t\<lparr>tls_dec := q\<rparr>) ctx"
    unfolding nl_def
    by (rule tunnel_open [OF assms(1-5) _ assms(7), of T a "T + k2 + 4" x b z "\<lambda>_. Some True"])
       (use assms(6) a in \<open>auto simp: b_def k2 x_def\<close>)
  have loc: "l4_locate b (T + k2 + 4 + (length d + gcm_tag_len t)) y = Some (Inr (length e, h ! 9, length h))" for y
    using l4_locate_parts [OF assms(8,9), of "T + k2 + 4 + (length d + gcm_tag_len t)"
        "q4 @ take ?ns n @ x @ cipher_text lib s K n d @ cipher_tag lib s K n d @ z" y]
    by (simp add: T_def b_def a_def)
  have mg: "rd b (T + ?ns + 1) = Some CRYPTO_L4_FRAG_MAGIC"
    using rd_mid [of "T + ?ns + 1" "a @ take ?ns n @ [p]" CRYPTO_L4_FRAG_MAGIC "[hi8 pkt_id, lo8 pkt_id, idx, 0]
       @ cipher_text lib s K n d @ cipher_tag lib s K n d @ z"] a assms(4) ini by (simp add: b_def x_def)
  have ft: "read_frag_tag b (T + k2) = Some (pkt_id, idx)"
    using read_frag_tag_parts [of "T + k2" "a @ take ?ns n @ [p, CRYPTO_L4_FRAG_MAGIC]" pkt_id idx 0
       "cipher_text lib s K n d @ cipher_tag lib s K n d @ z"] a assms(4) ini by (simp add: b_def x_def k2)
  have fx: "l4_fix_ipv4_totlen_and_cksum (a @ d @ rest) (length e) (length h) (4 + length d)
      = Some (e @ patch_hdr h (of_nat (length h + (4 + length d))) @ q4 @ d @ rest)"
    using l4_fix_parts [of "length e" e "length h" h "q4 @ d @ rest" "4 + length d"] hl by (simp add: a_def)
  have sz: "sz_sub (T + k2 + 4 + (length d + gcm_tag_len t)) (T + k2 + 4) = length d + gcm_tag_len t"
    "\<not> T + k2 + 4 + (length d + gcm_tag_len t) < T + k2 + 4" by simp_all
  have cl: "c_int (int (T + length d)) = int (T + length d)"
    using assms(6) by (simp add: c_int_id T_def)
  have "crypto_layer4_decrypt_fragment lib ctx t b (T + k2 + 4 + (length d + gcm_tag_len t)) i0 x0
    = Some (int (T + length d), t\<lparr>tls_dec := q\<rparr>, e @ patch_hdr h (of_nat (length h + (4 + length d))) @ q4 @ d @ rest, pkt_id, idx)"
    using ini(1)
    unfolding crypto_layer4_decrypt_fragment_def Let_def L4_WIRE_PORT_LEN_def FRAG_HDR_SIZE_def k2_def [symmetric] nl_def [symmetric] loc
      sum.case option.case Option.bind.bind_lunit prod.case T_def [symmetric]
    by (simp del: append_assoc append.simps One_nat_def of_nat_add rdn_Some wrn_Some not_less rd_Some
        add: mg ft o(1-6) sz fx cl)
  moreover have "T + k2 + 4 + (length d + gcm_tag_len t) = length e + length h + 4 + (?ns + 2 + 4 + gcm_tag_len t) + length d"
    by (simp add: T_def k2)
  moreover have "same_cipher t (t\<lparr>tls_dec := q\<rparr>)" by (simp add: same_cipher_def)
  ultimately show ?thesis using o(7) unfolding b_def a_def x_def T_def append_assoc by (metis (no_types))
qed

lemma l4_fragment_cycle:
  assumes "evp_ok lib" "crypto_ready st ctx" "crypto_ready t ctx" "same_cipher st t"
    and "length e = 14" "eth_ipv4 e" "l4_hdr_ok h" "length q4 = 4" "d \<noteq> []" "length h + length d < 2 ^ 29"
    and "out_max \<le> length out"
    and "14 + length h + 4 + (g_nonce_size st + 2 + 4 + gcm_tag_len st) + length d \<le> out_max"
  shows "\<exists>s b len t' rest.
      crypto_layer4_encrypt_fragment_single lib ctx st (e @ z1) (h @ z2) (length h) (q4 @ z3) d pkt_id idx out out_max ol
        = Some (0, s, b, len) \<and> len \<le> out_max \<and> length b = length out \<and>
      crypto_layer4_decrypt_fragment lib ctx t b len i0 x0
        = Some (int (14 + length h + 4 + length d), t', e @ patch_hdr h (of_nat (length h + (4 + length d))) @ q4 @ d @ rest,
            pkt_id, idx) \<and>
      crypto_ready s ctx \<and> same_cipher st s \<and> crypto_ready t' ctx \<and> same_cipher t t'"
proof -
  define T :: u16 where "T = of_nat (length h + (4 + (g_nonce_size st + 2 + 4 + gcm_tag_len st) + length d))"
  define L where "L = 14 + length h + 4 + (g_nonce_size st + 2 + 4 + gcm_tag_len st) + length d"
  have hl: "20 \<le> length h" "length h + length d < 2 ^ 30" using assms(7,10) by (simp_all add: l4_hdr_ok_def)
  obtain s n K rest where e: "crypto_layer4_encrypt_fragment_single lib ctx st (e @ z1) (h @ z2) (length h) (q4 @ z3) d pkt_id idx out out_max ol =
      Some (0, s, e @ patch_hdr h T @ q4 @ take (g_nonce_size st) n @ [g_policy_id st, CRYPTO_L4_FRAG_MAGIC] @ [hi8 pkt_id, lo8 pkt_id, idx, 0]
         @ cipher_text lib s K n d @ cipher_tag lib s K n d @ rest, L)"
    "same_cipher st s" "length n = 16" "K = pc_keys ctx ! 1" "length rest + L = length out" "crypto_ready s ctx"
    using l4_encrypt_fragment_parts [OF assms(1,2,5) hl(1) assms(8,9) hl(2) assms(11,12)] unfolding T_def L_def by blast
  have sc: "same_cipher s t" using e(2) assms(4) by (simp add: same_cipher_def)
  note q = same_cipher_eqs [OF assms(4)] same_cipher_eqs [OF sc]
  have hp: "l4_hdr_ok (patch_hdr h T)" "length e + length (patch_hdr h T) + length d < 2 ^ 30"
    using assms(5,7,10) by simp_all
  obtain t' rest' where "crypto_layer4_decrypt_fragment lib ctx t
      (e @ patch_hdr h T @ q4 @ take (g_nonce_size t) n @ [g_policy_id st, CRYPTO_L4_FRAG_MAGIC] @ [hi8 pkt_id, lo8 pkt_id, idx, 0]
         @ cipher_text lib s K n d @ cipher_tag lib s K n d @ rest)
      (length e + length (patch_hdr h T) + 4 + (g_nonce_size t + 2 + 4 + gcm_tag_len t) + length d) i0 x0
    = Some (int (length e + length (patch_hdr h T) + 4 + length d), t',
        e @ patch_hdr (patch_hdr h T) (of_nat (length (patch_hdr h T) + (4 + length d))) @ q4 @ d @ rest', pkt_id, idx)"
    "crypto_ready t' ctx" "same_cipher t t'"
    using l4_decrypt_fragment_parts [OF assms(1,3) sc e(3) assms(9) hp(2) e(4) assms(6) hp(1) assms(8)] by blast
  moreover have "L = length e + length (patch_hdr h T) + 4 + (g_nonce_size t + 2 + 4 + gcm_tag_len t) + length d"
    using q assms(5) by (simp add: L_def)
  moreover have "length (e @ patch_hdr h T @ q4 @ take (g_nonce_size st) n @ [g_policy_id st, CRYPTO_L4_FRAG_MAGIC] @ [hi8 pkt_id, lo8 pkt_id, idx, 0]
         @ cipher_text lib s K n d @ cipher_tag lib s K n d @ rest) = length out"
    unfolding e(5) [symmetric] L_def using assms(1,2,5,8) e(2,3) same_cipher_eqs [OF e(2)] by (simp add: crypto_ready_def)
  moreover note \<open>crypto_ready t' ctx\<close> \<open>same_cipher t t'\<close> e(6) e(2)
  moreover have "L \<le> out_max" using assms(12) by (simp add: L_def)
  ultimately show ?thesis using e(1) assms(5) unfolding patch_hdr_twice patch_hdr_length q by (metis (no_types))
qed

text \<open>Fragments at layer 4 round-trip: the pieces written by \<open>crypto_layer4_encrypt_fragment_single\<close>
  are decrypted by \<open>crypto_layer4_decrypt_fragment\<close> to the same payload, ports, packet id and index, with
  an IP header whose total length is that of the piece.\<close>

lemma l4_fragment_roundtrip:
  assumes "evp_ok lib" "crypto_ready st ctx" "crypto_ready t ctx" "same_cipher st t"
    and "length e = 14" "eth_ipv4 e" "l4_hdr_ok h" "length q4 = 4" "d \<noteq> []" "length h + length d < 2 ^ 29"
    and "out_max \<le> length out"
    and "14 + length h + 4 + (g_nonce_size st + 2 + 4 + gcm_tag_len st) + length d \<le> out_max"
  shows "\<exists>s b len t' rest.
      crypto_layer4_encrypt_fragment_single lib ctx st (e @ z1) (h @ z2) (length h) (q4 @ z3) d pkt_id idx out out_max ol
        = Some (0, s, b, len) \<and> len \<le> out_max \<and> length b = length out \<and>
      crypto_layer4_decrypt_fragment lib ctx t b len i0 x0
        = Some (int (14 + length h + 4 + length d), t', e @ patch_hdr h (of_nat (length h + (4 + length d))) @ q4 @ d @ rest,
            pkt_id, idx)"
  using l4_fragment_cycle [OF assms] by (metis (no_types))

end
