(* ===== verification/Dispatch.thy ===== *)
theory Dispatch
  imports Layer2 Layer3 Layer4
begin

text \<open>
  \<open>src/crypto/crypto_policy_utils.c\<close> and \<open>src/crypto/crypto_dispatch.c\<close>: how the parameters of a policy
  are installed in the crypto state, how the policy id is found in a received packet, and the choice of
  context and layer for decryption, with the retry under the previous policies after a reload.
\<close>

section \<open>Installing a policy\<close>

definition crypto_apply_default_from_cfg :: "app_config \<Rightarrow> crypto_state \<Rightarrow> crypto_state" where
  "crypto_apply_default_from_cfg cfg st =
     (let st = packet_crypto_set_mode (ac_crypto_mode cfg) st;
          st = packet_crypto_set_aes_bits (ac_aes_bits cfg) st;
          st = packet_crypto_set_nonce_size (nat (ac_nonce_size cfg)) st;
          st = (if ac_encrypt_layer cfg = 3 then packet_crypto_set_fake_protocol (ac_fake_protocol cfg) st else st);
          st = packet_crypto_set_policy_id 0 st
      in packet_crypto_set_encrypt_layer (ac_encrypt_layer cfg) st)"

definition crypto_apply_from_policy :: "crypto_policy \<Rightarrow> crypto_state \<Rightarrow> crypto_state" where
  "crypto_apply_from_policy cp st =
     (let st = packet_crypto_set_mode (cp_crypto_mode cp) st;
          st = packet_crypto_set_aes_bits (cp_aes_bits cp) st;
          st = packet_crypto_set_nonce_size (nat (cp_nonce_size cp)) st;
          st = (if cp_action cp = POLICY_ACTION_ENCRYPT_L2 then packet_crypto_set_encrypt_layer 2 st
                else if cp_action cp = POLICY_ACTION_ENCRYPT_L3 then packet_crypto_set_encrypt_layer 3 st
                else if cp_action cp = POLICY_ACTION_ENCRYPT_L4 then packet_crypto_set_encrypt_layer 4 st
                else st);
          st = (if cp_action cp = POLICY_ACTION_ENCRYPT_L3
                then packet_crypto_set_fake_protocol (if g_fake_protocol st \<noteq> 0 then g_fake_protocol st else 99) st
                else st)
      in packet_crypto_set_policy_id (word_of_int (cp_id cp)) st)"

definition crypto_select_policy_for_local ::
  "app_config \<Rightarrow> int \<Rightarrow> u32 \<Rightarrow> u32 \<Rightarrow> u16 \<Rightarrow> u16 \<Rightarrow> u8 \<Rightarrow> nat option" where
  "crypto_select_policy_for_local cfg local_idx src_ip dst_ip src_port dst_port protocol =
     (let pi = config_select_profile_for_local cfg local_idx in
      if pi < 0 \<or> pi \<ge> int (length (ac_profiles cfg)) then None
      else config_select_crypto_policy cfg pi src_ip dst_ip src_port dst_port protocol)"

section \<open>The encryption layer switch of packet\_crypto.c\<close>

definition packet_encrypt ::
  "evp_lib \<Rightarrow> packet_crypto_ctx \<Rightarrow> crypto_state \<Rightarrow> buf \<Rightarrow> nat \<Rightarrow> (int \<times> crypto_state \<times> buf) option" where
  "packet_encrypt lib ctx st packet pkt_len =
     (if g_encrypt_layer st = 2 then crypto_layer2_encrypt lib ctx st packet pkt_len
      else if g_encrypt_layer st = 3 then crypto_layer3_encrypt lib ctx st packet pkt_len
      else if g_encrypt_layer st = 4 then crypto_layer4_encrypt lib ctx st packet pkt_len
      else Some (-1, st, packet))"

definition packet_decrypt ::
  "evp_lib \<Rightarrow> packet_crypto_ctx \<Rightarrow> crypto_state \<Rightarrow> buf \<Rightarrow> nat \<Rightarrow> (int \<times> crypto_state \<times> buf) option" where
  "packet_decrypt lib ctx st packet pkt_len =
     (if g_encrypt_layer st = 2 then crypto_layer2_decrypt lib ctx st packet pkt_len
      else if g_encrypt_layer st = 3 then crypto_layer3_decrypt lib ctx st packet pkt_len
      else if g_encrypt_layer st = 4 then crypto_layer4_decrypt lib ctx st packet pkt_len
      else Some (-1, st, packet))"

section \<open>Lookup\<close>

text \<open>The table \<open>index_by_action_id[5][256]\<close> is a function of its two indices.\<close>

type_synonym index_table = "nat \<Rightarrow> u8 \<Rightarrow> int"

record crypto_dispatch_ctx =
  dc_base_ctx :: packet_crypto_ctx
  dc_per_policy_ctx :: "packet_crypto_ctx list"
  dc_per_policy_ready :: "bool list"
  dc_policies :: "crypto_policy list"
  dc_index :: index_table
  dc_prev_per_policy_ctx :: "packet_crypto_ctx list"
  dc_prev_per_policy_ready :: "bool list"
  dc_prev_policies :: "crypto_policy list"
  dc_prev_index :: index_table
  dc_prev_grace_active :: bool

definition policy_has_id :: "int \<Rightarrow> u8 \<Rightarrow> crypto_policy \<Rightarrow> bool" where
  "policy_has_id action_layer policy_id cp = (cp_action cp = action_layer \<and> word_of_int (cp_id cp) = policy_id)"

definition lookup_policy_index :: "crypto_policy list \<Rightarrow> index_table \<Rightarrow> int \<Rightarrow> u8 \<Rightarrow> int" where
  "lookup_policy_index policies index action_layer policy_id =
     (let n = int (length policies) in
      if n \<le> 0 then -1
      else let pi = (if 0 \<le> action_layer \<and> action_layer \<le> POLICY_ACTION_ENCRYPT_L4
                     then index (nat action_layer) policy_id else -1) in
        if 0 \<le> pi \<and> pi < n then pi
        else first_index (policy_has_id action_layer policy_id) 0 (take MAX_CRYPTO_POLICIES policies))"

text \<open>The loops over the policies that compare the policy id byte behind the nonce.\<close>

fun l3_scan_policies :: "buf \<Rightarrow> nat \<Rightarrow> nat \<Rightarrow> crypto_policy list \<Rightarrow> u8 option option" where
  "l3_scan_policies pkt pkt_len tunnel_off [] = Some None"
| "l3_scan_policies pkt pkt_len tunnel_off (cp # cps) =
     (if cp_action cp \<noteq> POLICY_ACTION_ENCRYPT_L3 \<or> cp_nonce_size cp \<le> 0
      then l3_scan_policies pkt pkt_len tunnel_off cps
      else let ns = nat (cp_nonce_size cp) in
        if tunnel_off + ns + 1 \<ge> pkt_len then l3_scan_policies pkt pkt_len tunnel_off cps
        else do {
          b \<leftarrow> rd pkt (tunnel_off + ns);
          if b \<noteq> word_of_int (cp_id cp) then l3_scan_policies pkt pkt_len tunnel_off cps
          else Some (Some (word_of_int (cp_id cp))) })"

definition crypto_l3_extract_policy_id :: "app_config \<Rightarrow> crypto_state \<Rightarrow> buf \<Rightarrow> nat \<Rightarrow> u8 option option" where
  "crypto_l3_extract_policy_id cfg st pkt pkt_len =
     (if pkt_len < 14 + 20 then Some None
      else do {
        et \<leftarrow> rd_be16 pkt 12;
        if et \<noteq> 0x0800 then Some None
        else do {
        ip_hdr_len \<leftarrow> ip_ihl pkt 14;
        if ip_hdr_len < 20 \<or> pkt_len < 14 + ip_hdr_len + 1 then Some None
        else do {
        proto \<leftarrow> rd pkt (14 + 9);
        if proto \<noteq> (if g_fake_protocol st = 0 then 99 else g_fake_protocol st) then Some None
        else let tunnel_off = 14 + ip_hdr_len in
          if pkt_len < tunnel_off + packet_crypto_get_tunnel_hdr_size st then Some None
          else l3_scan_policies pkt pkt_len tunnel_off (take MAX_CRYPTO_POLICIES (ac_policies cfg)) } } })"

fun l4_scan_policies :: "buf \<Rightarrow> nat \<Rightarrow> nat \<Rightarrow> crypto_policy list \<Rightarrow> (u8 \<times> int) option option" where
  "l4_scan_policies pkt pkt_len tunnel_off [] = Some None"
| "l4_scan_policies pkt pkt_len tunnel_off (cp # cps) =
     (if cp_action cp \<noteq> POLICY_ACTION_ENCRYPT_L4 \<or> cp_nonce_size cp \<le> 0
      then l4_scan_policies pkt pkt_len tunnel_off cps
      else let ns = nat (cp_nonce_size cp) in
        if tunnel_off + ns + 1 \<ge> pkt_len then l4_scan_policies pkt pkt_len tunnel_off cps
        else do {
          magic \<leftarrow> rd pkt (tunnel_off + ns + 1);
          if magic \<noteq> CRYPTO_L4_TUNNEL_MAGIC \<and> magic \<noteq> CRYPTO_L4_FRAG_MAGIC
          then l4_scan_policies pkt pkt_len tunnel_off cps
          else do {
            b \<leftarrow> rd pkt (tunnel_off + ns);
            if b \<noteq> word_of_int (cp_id cp) then l4_scan_policies pkt pkt_len tunnel_off cps
            else Some (Some (word_of_int (cp_id cp), cp_nonce_size cp)) } })"

definition crypto_l4_extract_policy_id_ipv4 :: "app_config \<Rightarrow> buf \<Rightarrow> nat \<Rightarrow> (u8 \<times> int) option option" where
  "crypto_l4_extract_policy_id_ipv4 cfg pkt pkt_len = do {
     l3 \<leftarrow> crypto_eth_ipv4_offset pkt pkt_len;
     if l3 < 0 then Some None
     else let l3_off = nat l3 in
     if pkt_len < l3_off + 20 then Some None
     else do {
       ip_hdr_len \<leftarrow> ip_ihl pkt l3_off;
       if ip_hdr_len < 20 then Some None
       else if pkt_len < l3_off + ip_hdr_len + 8 then Some None
       else do {
         proto \<leftarrow> rd pkt (l3_off + 9);
         if proto \<noteq> 6 \<and> proto \<noteq> 17 then Some None
         else let tunnel_off = l3_off + ip_hdr_len + L4_WIRE_PORT_LEN in
           if tunnel_off \<ge> pkt_len then Some None
           else l4_scan_policies pkt pkt_len tunnel_off (take MAX_CRYPTO_POLICIES (ac_policies cfg)) } } }"

section \<open>Decryption\<close>

text \<open>A result of the dispatcher: the C return value, the state, the buffer and \<open>*pkt_len\<close>.\<close>

type_synonym dispatch_result = "int \<times> crypto_state \<times> buf \<times> nat"

definition decrypt_layer ::
  "evp_lib \<Rightarrow> int \<Rightarrow> packet_crypto_ctx \<Rightarrow> crypto_state \<Rightarrow> buf \<Rightarrow> nat \<Rightarrow> (int \<times> crypto_state \<times> buf) option" where
  "decrypt_layer lib action_layer ctx st pkt pkt_len =
     (if action_layer = POLICY_ACTION_ENCRYPT_L2 then crypto_layer2_decrypt lib ctx st pkt pkt_len
      else if action_layer = POLICY_ACTION_ENCRYPT_L3 then crypto_layer3_decrypt lib ctx st pkt pkt_len
      else if action_layer = POLICY_ACTION_ENCRYPT_L4 then crypto_layer4_decrypt lib ctx st pkt pkt_len
      else Some (-1, st, pkt))"

text \<open>One attempt with one set of policies: look the id up, check that the context is ready (and, for
  layer 4, the nonce size), install the policy, decrypt; success means the packet became shorter.\<close>

definition try_policy_set ::
  "evp_lib \<Rightarrow> int \<Rightarrow> crypto_policy list \<Rightarrow> packet_crypto_ctx list \<Rightarrow> bool list \<Rightarrow> index_table \<Rightarrow> u8 \<Rightarrow> int option
     \<Rightarrow> crypto_state \<Rightarrow> buf \<Rightarrow> nat \<Rightarrow> (bool \<times> crypto_state \<times> buf \<times> nat) option" where
  "try_policy_set lib action_layer policies ctxs ready index policy_id nonce_size st pkt pkt_len =
     (let pi = lookup_policy_index policies index action_layer policy_id in
      if pi \<ge> 0 \<and> ready ! nat pi \<and>
         (case nonce_size of None \<Rightarrow> True
          | Some ns \<Rightarrow> cp_nonce_size (policies ! nat pi) > 0 \<and> cp_nonce_size (policies ! nat pi) = ns)
      then do {
        (new_len, st, pkt) \<leftarrow> decrypt_layer lib action_layer (ctxs ! nat pi)
                              (crypto_apply_from_policy (policies ! nat pi) st) pkt pkt_len;
        if new_len \<ge> 0 \<and> new_len < c_int (int pkt_len) then Some (True, st, pkt, nat new_len)
        else Some (False, st, pkt, pkt_len) }
      else Some (False, st, pkt, pkt_len))"

definition try_current_then_prev ::
  "evp_lib \<Rightarrow> int \<Rightarrow> crypto_dispatch_ctx \<Rightarrow> u8 \<Rightarrow> int option \<Rightarrow> crypto_state \<Rightarrow> buf \<Rightarrow> nat \<Rightarrow> dispatch_result option" where
  "try_current_then_prev lib action_layer d policy_id nonce_size st pkt pkt_len = do {
     (found, st, pkt, n) \<leftarrow> try_policy_set lib action_layer (dc_policies d) (dc_per_policy_ctx d) (dc_per_policy_ready d)
                            (dc_index d) policy_id nonce_size st pkt pkt_len;
     if found then Some (0, st, pkt, n)
     else if dc_prev_grace_active d \<and> dc_prev_policies d \<noteq> [] then do {
       (found, st, pkt, n) \<leftarrow> try_policy_set lib action_layer (dc_prev_policies d) (dc_prev_per_policy_ctx d)
                              (dc_prev_per_policy_ready d) (dc_prev_index d) policy_id nonce_size st pkt pkt_len;
       if found then Some (0, st, pkt, n) else Some (-1, st, pkt, pkt_len) }
     else Some (-1, st, pkt, pkt_len) }"

text \<open>The loop that layer 2 uses: every ready policy of the layer, in order, on a saved copy.\<close>

fun try_all_policies ::
  "evp_lib \<Rightarrow> int \<Rightarrow> crypto_dispatch_ctx \<Rightarrow> nat \<Rightarrow> bool \<Rightarrow> nat \<Rightarrow> crypto_policy list \<Rightarrow> crypto_state \<Rightarrow> buf \<Rightarrow> nat
     \<Rightarrow> dispatch_result option" where
  "try_all_policies lib action_layer d scratch_sz has_scratch pi [] st pkt pkt_len = Some (-1, st, pkt, pkt_len)"
| "try_all_policies lib action_layer d scratch_sz has_scratch pi (cp # cps) st pkt pkt_len =
     (if cp_action cp \<noteq> action_layer \<or> \<not> dc_per_policy_ready d ! pi
      then try_all_policies lib action_layer d scratch_sz has_scratch (pi + 1) cps st pkt pkt_len
      else if pkt_len > scratch_sz then Some (-1, st, pkt, pkt_len)
      else do {
        saved \<leftarrow> rdn pkt 0 pkt_len;
        (new_len, st, pkt) \<leftarrow> decrypt_layer lib action_layer (dc_per_policy_ctx d ! pi)
                              (crypto_apply_from_policy cp st) pkt pkt_len;
        if new_len < 0 \<or> new_len \<ge> c_int (int pkt_len) then do {
          pkt \<leftarrow> (if has_scratch then wrn pkt 0 saved else Some pkt);
          try_all_policies lib action_layer d scratch_sz has_scratch (pi + 1) cps st pkt pkt_len }
        else Some (0, st, pkt, nat new_len) })"

definition crypto_decrypt_packet_auto_by_action ::
  "evp_lib \<Rightarrow> bool \<Rightarrow> app_config \<Rightarrow> crypto_dispatch_ctx \<Rightarrow> int \<Rightarrow> nat \<Rightarrow> bool \<Rightarrow> crypto_state \<Rightarrow> buf \<Rightarrow> nat
     \<Rightarrow> dispatch_result option" where
  "crypto_decrypt_packet_auto_by_action lib crypto_enabled cfg d action_layer scratch_sz has_scratch st pkt pkt_len =
     (if \<not> crypto_enabled then Some (-1, st, pkt, pkt_len)
      else if ac_policies cfg = [] then do {
        (new_len, st, pkt) \<leftarrow> packet_decrypt lib (dc_base_ctx d) (crypto_apply_default_from_cfg cfg st) pkt pkt_len;
        if new_len < 0 then Some (-1, st, pkt, pkt_len) else Some (0, st, pkt, nat new_len) }
      else if action_layer = POLICY_ACTION_ENCRYPT_L3 then do {
        pid \<leftarrow> crypto_l3_extract_policy_id cfg st pkt pkt_len;
        case pid of
          None \<Rightarrow> Some (0, st, pkt, pkt_len)
        | Some policy_id \<Rightarrow> try_current_then_prev lib action_layer d policy_id None st pkt pkt_len }
      else if action_layer = POLICY_ACTION_ENCRYPT_L4 then do {
        l3 \<leftarrow> crypto_eth_ipv4_offset pkt pkt_len;
        if l3 < 0 then Some (0, st, pkt, pkt_len)
        else do {
        ip_hdr_len \<leftarrow> ip_ihl pkt (nat l3);
        if ip_hdr_len < 20 then Some (0, st, pkt, pkt_len)
        else if pkt_len < nat l3 + ip_hdr_len + 8 then Some (0, st, pkt, pkt_len)
        else do {
        ip_proto \<leftarrow> rd pkt (nat l3 + 9);
        if ip_proto \<noteq> 6 \<and> ip_proto \<noteq> 17 then Some (0, st, pkt, pkt_len)
        else if pkt_len < nat l3 + ip_hdr_len + 4 then Some (0, st, pkt, pkt_len)
        else do {
        pid \<leftarrow> crypto_l4_extract_policy_id_ipv4 cfg pkt pkt_len;
        case pid of
          None \<Rightarrow> Some (0, st, pkt, pkt_len)
        | Some (policy_id, nonce_size) \<Rightarrow>
            try_current_then_prev lib action_layer d policy_id (Some nonce_size) st pkt pkt_len } } } }
      else try_all_policies lib action_layer d scratch_sz has_scratch 0 (take MAX_CRYPTO_POLICIES (ac_policies cfg)) st pkt pkt_len)"

section \<open>Finding the policy of a packet\<close>

lemma apply_policy_sel [simp]:
  "g_nonce_size (crypto_apply_from_policy cp st) = nat (cp_nonce_size cp)"
  "g_policy_id (crypto_apply_from_policy cp st) = word_of_int (cp_id cp)"
  "g_crypto_mode (crypto_apply_from_policy cp st) = cp_crypto_mode cp"
  "g_aes_bits (crypto_apply_from_policy cp st) = cp_aes_bits cp"
  "g_fake_ethertype_ipv4 (crypto_apply_from_policy cp st) = g_fake_ethertype_ipv4 st"
  "tls_enc (crypto_apply_from_policy cp st) = tls_enc st"
  "tls_dec (crypto_apply_from_policy cp st) = tls_dec st"
  "tls_nonce_salt (crypto_apply_from_policy cp st) = tls_nonce_salt st"
  "g_nonce_counter (crypto_apply_from_policy cp st) = g_nonce_counter st"
  by (simp_all add: crypto_apply_from_policy_def crypto_setters Let_def)

lemma apply_policy_fake_protocol:
  "g_fake_protocol st \<noteq> 0 \<Longrightarrow> g_fake_protocol (crypto_apply_from_policy cp st) = g_fake_protocol st"
  by (simp add: crypto_apply_from_policy_def crypto_setters Let_def)

lemma same_cipher_apply: "same_cipher (crypto_apply_from_policy cp s) (crypto_apply_from_policy cp t)"
  by (simp add: same_cipher_def)

text \<open>The layer 3 policies of a list carry different ids and agree on the nonce size.\<close>

definition l3_ids_ok :: "crypto_policy list \<Rightarrow> crypto_policy \<Rightarrow> bool" where
  "l3_ids_ok cps cp = (\<forall>q \<in> set cps. cp_action q = POLICY_ACTION_ENCRYPT_L3 \<longrightarrow> cp_nonce_size q = cp_nonce_size cp)"

lemma l3_scan_finds:
  assumes "cp \<in> set cps" "cp_action cp = POLICY_ACTION_ENCRYPT_L3" "0 < cp_nonce_size cp" "l3_ids_ok cps cp"
    and "off + nat (cp_nonce_size cp) + 1 < n" "rd b (off + nat (cp_nonce_size cp)) = Some (word_of_int (cp_id cp))"
  shows "l3_scan_policies b n off cps = Some (Some (word_of_int (cp_id cp)))"
  using assms
proof (induction cps)
  case (Cons q cps)
  have ns: "cp_action q = POLICY_ACTION_ENCRYPT_L3 \<Longrightarrow> cp_nonce_size q = cp_nonce_size cp"
    using Cons.prems(4) by (simp add: l3_ids_ok_def)
  have tl: "l3_ids_ok cps cp" using Cons.prems(4) by (simp add: l3_ids_ok_def)
  show ?case
  proof (cases "cp = q")
    case True
    then show ?thesis using Cons.prems by (simp add: Let_def)
  next
    case False
    then have "l3_scan_policies b n off cps = Some (Some (word_of_int (cp_id cp)))"
      using Cons tl by simp
    then show ?thesis using Cons.prems(3,5,6) ns by (auto simp: Let_def)
  qed
qed simp

text \<open>The index table points to a policy that has the action and the id.\<close>

definition index_ok :: "crypto_policy list \<Rightarrow> index_table \<Rightarrow> bool" where
  "index_ok cps ix = (\<forall>a id. 0 \<le> ix a id \<longrightarrow> nat (ix a id) < length cps \<longrightarrow>
     policy_has_id (int a) id (cps ! nat (ix a id)))"

lemma lookup_policy_index_sound:
  assumes "index_ok cps ix" "lookup_policy_index cps ix act pid = pi" "pi \<noteq> -1"
  shows "0 \<le> pi \<and> nat pi < length cps \<and> policy_has_id act pid (cps ! nat pi)"
proof (cases "0 \<le> act \<and> act \<le> POLICY_ACTION_ENCRYPT_L4 \<and> 0 \<le> ix (nat act) pid \<and> ix (nat act) pid < int (length cps)")
  case True
  then have "pi = ix (nat act) pid" using assms(2) by (auto simp: lookup_policy_index_def Let_def)
  moreover have "policy_has_id (int (nat act)) pid (cps ! nat (ix (nat act) pid))"
    using assms(1) True unfolding index_ok_def by (metis nat_less_iff)
  ultimately show ?thesis using True by (simp add: nat_less_iff)
next
  case False
  define p where "p = first_index (policy_has_id act pid) 0 (take MAX_CRYPTO_POLICIES cps)"
  have "cps \<noteq> [] \<Longrightarrow> lookup_policy_index cps ix act pid = p"
    using False by (auto simp: lookup_policy_index_def Let_def p_def)
  moreover have "cps = [] \<Longrightarrow> lookup_policy_index cps ix act pid = -1" by (simp add: lookup_policy_index_def)
  ultimately have pi: "pi = p" using assms(2,3) by blast
  obtain n where "p = 0 + int n" "n < length (take MAX_CRYPTO_POLICIES cps)"
    "policy_has_id act pid (take MAX_CRYPTO_POLICIES cps ! n)"
    using first_index_some [of 0 "policy_has_id act pid" "take MAX_CRYPTO_POLICIES cps"] assms(3) pi p_def by auto
  then show ?thesis using pi by simp
qed

lemma lookup_policy_index_complete:
  assumes "cp \<in> set (take MAX_CRYPTO_POLICIES cps)" "policy_has_id act pid cp"
  shows "lookup_policy_index cps ix act pid \<noteq> -1"
proof -
  have "first_index (policy_has_id act pid) 0 (take MAX_CRYPTO_POLICIES cps) \<noteq> -1"
    using first_index_none [of 0 "policy_has_id act pid"] assms by auto
  moreover have "cps \<noteq> []" using assms(1) by auto
  ultimately show ?thesis by (auto simp: lookup_policy_index_def Let_def)
qed

text \<open>The policy lookup of the receive path is sound and complete: from a consistent index table it
  returns a policy of the requested layer with the requested id, and it fails only when there is none
  among the first 128.\<close>

lemma policy_lookup_correct:
  assumes "index_ok cps ix"
  shows "(lookup_policy_index cps ix act pid = -1 \<longrightarrow> \<not> (\<exists>cp \<in> set (take MAX_CRYPTO_POLICIES cps). policy_has_id act pid cp)) \<and>
    (lookup_policy_index cps ix act pid \<noteq> -1 \<longrightarrow>
       0 \<le> lookup_policy_index cps ix act pid \<and> nat (lookup_policy_index cps ix act pid) < length cps \<and>
       policy_has_id act pid (cps ! nat (lookup_policy_index cps ix act pid)))"
  using lookup_policy_index_sound [OF assms] lookup_policy_index_complete by blast

lemma l3_enc_hdr_facts:
  assumes "l3_hdr_ok h"
  shows "length (l3_enc_hdr st h) = length h" "l3_hdr_ok (l3_enc_hdr st h)" "l3_enc_hdr st h ! 9 = g_fake_protocol st"
  using assms by (simp_all add: l3_enc_hdr_def patch_hdr_nth l3_hdr_ok_def)

lemma ip_ihl_parts: "l3_hdr_ok h \<Longrightarrow> length e = off \<Longrightarrow> ip_ihl (e @ h @ z) off = Some (length h)"
  by (auto simp: ip_ihl_def l3_hdr_ok_def rd_def nth_append)

lemma l3_extract_parts:
  assumes "eth14_ipv4 e" "l3_hdr_ok h" "h ! 9 = (if g_fake_protocol t = 0 then 99 else g_fake_protocol t)"
    and "cp \<in> set (take MAX_CRYPTO_POLICIES (ac_policies cfg))" "cp_action cp = POLICY_ACTION_ENCRYPT_L3" "0 < cp_nonce_size cp"
    and "l3_ids_ok (take MAX_CRYPTO_POLICIES (ac_policies cfg)) cp" "length nn = nat (cp_nonce_size cp)"
    and "14 + length h + nat (cp_nonce_size cp) + 1 < n" "14 + length h + (g_nonce_size t + 2) \<le> n"
  shows "crypto_l3_extract_policy_id cfg t (e @ h @ nn @ [word_of_int (cp_id cp), op] @ z) n = Some (Some (word_of_int (cp_id cp)))"
proof -
  define b where "b = e @ h @ nn @ [word_of_int (cp_id cp), op] @ z"
  have el: "length e = 14" "20 \<le> length h" using assms(1,2) by (simp_all add: eth14_ipv4_def l3_hdr_ok_def)
  have et: "rd_be16 b 12 = Some 0x0800" using assms(1) by (simp add: b_def eth14_ipv4_def nth_append)
  have ih: "ip_ihl b 14 = Some (length h)" unfolding b_def by (rule ip_ihl_parts) (use assms(2) el in simp_all)
  have pr: "rd b (14 + 9) = Some (h ! 9)" using el by (simp add: b_def rd_def nth_append)
  have id: "rd b (14 + length h + nat (cp_nonce_size cp)) = Some (word_of_int (cp_id cp))"
    using rd_mid [of "14 + length h + nat (cp_nonce_size cp)" "e @ h @ nn"] el assms(8) by (simp add: b_def)
  have sc: "l3_scan_policies b n (14 + length h) (take MAX_CRYPTO_POLICIES (ac_policies cfg)) = Some (Some (word_of_int (cp_id cp)))"
    by (rule l3_scan_finds [OF assms(4-7) assms(9) id])
  have n: "\<not> n < 34" "\<not> n < 14 + length h + 1" "\<not> n < 14 + length h + (g_nonce_size t + 2)"
    using el assms(9,10) by linarith+
  show ?thesis
    using n el et ih pr assms(3) sc unfolding crypto_l3_extract_policy_id_def b_def [symmetric] Let_def
      packet_crypto_get_tunnel_hdr_size_def
    by (simp del: rd_Some rd_be16_Some)
qed

lemma try_policy_set_hit:
  assumes "lookup_policy_index cps ix act pid = int i" "ready ! i"
    and "ns = None \<or> ns = Some (cp_nonce_size (cps ! i)) \<and> 0 < cp_nonce_size (cps ! i)"
    and "decrypt_layer lib act (ctxs ! i) (crypto_apply_from_policy (cps ! i) st) pkt n = Some (int m, st', pkt')"
    and "m < n" "n < 2 ^ 31"
  shows "try_policy_set lib act cps ctxs ready ix pid ns st pkt n = Some (True, st', pkt', m)"
  using assms by (auto simp: try_policy_set_def c_int_id split: option.splits)

text \<open>A packet encrypted at layer 3 under policy \<open>cp\<close> of the sender is recognised by the receiver, which has
  the policy under index \<open>i\<close> with the same keys, by the id byte in the tunnel header; the dispatcher
  installs the policy, decrypts, and gives the original packet and its length, whatever policy its
  state was left in by the previous packet, whatever Ethernet addresses the frame arrives with and
  whatever lies behind it in memory.\<close>

lemma l3_end_to_end:
  assumes "evp_ok lib" "crypto_ready (crypto_apply_from_policy cp s0) ctx" "crypto_ready (crypto_apply_from_policy cp t0) ctx"
    and "g_fake_protocol s0 \<noteq> 0" "g_fake_protocol t0 = g_fake_protocol s0" "g_nonce_size t0 \<le> nat (cp_nonce_size cp)"
    and "cp_action cp = POLICY_ACTION_ENCRYPT_L3" "0 < cp_nonce_size cp"
    and "ac_policies cfg = dc_policies dc" "i < length (dc_policies dc)" "dc_policies dc ! i = cp" "i < MAX_CRYPTO_POLICIES"
    and "l3_ids_ok (take MAX_CRYPTO_POLICIES (dc_policies dc)) cp"
    and "dc_index dc 3 (word_of_int (cp_id cp)) = int i" "dc_per_policy_ready dc ! i" "dc_per_policy_ctx dc ! i = ctx"
    and "eth14_ipv4 e" "l3_hdr_ok h" "d \<noteq> []" "length h + length d < 2 ^ 29"
    and "l3_no_magic (nat (cp_nonce_size cp)) d"
    and "g_nonce_size (crypto_apply_from_policy cp s0) + 2 + gcm_tag_len (crypto_apply_from_policy cp s0) \<le> length r"
    and "h ! 9 \<noteq> CRYPTO_L3_FRAG_MAGIC" "is_gcm (crypto_apply_from_policy cp t0) \<or> l3_plain_ok (h ! 9) d"
    and "h = patch_hdr h (be16_of (h ! 2) (h ! 3))"
  defines "S \<equiv> crypto_apply_from_policy cp s0" and "ov \<equiv> nat (cp_nonce_size cp) + 2 + gcm_tag_len (crypto_apply_from_policy cp s0)"
  shows "\<exists>s n y.
      crypto_layer3_encrypt lib ctx S (e @ h @ d @ r) (14 + length h + length d) =
        Some (int (14 + length h + length d + ov), s,
          e @ l3_enc_hdr S h @ take (nat (cp_nonce_size cp)) n @ [word_of_int (cp_id cp), h ! 9] @ y @ drop ov r) \<and>
      length n = 16 \<and> length y = length d + gcm_tag_len S \<and>
      (\<forall>e' z. eth14_ipv4 e' \<longrightarrow> (\<exists>t' rest.
         crypto_decrypt_packet_auto_by_action lib True cfg dc POLICY_ACTION_ENCRYPT_L3 scratch_sz hs t0
           (e' @ l3_enc_hdr S h @ take (nat (cp_nonce_size cp)) n @ [word_of_int (cp_id cp), h ! 9] @ y @ z)
           (14 + length h + length d + ov)
        = Some (0, t', e' @ h @ fix_seg h d (h ! 9) @ rest, 14 + length h + length d)
          \<and> g_fake_protocol t' = g_fake_protocol s0 \<and> length rest = ov + length z))"
proof -
  let ?T = "crypto_apply_from_policy cp t0"
  have fp: "g_fake_protocol ?T = g_fake_protocol S" "g_fake_protocol S = g_fake_protocol t0" "g_fake_protocol t0 \<noteq> 0"
    using assms(4,5) by (simp_all add: S_def apply_policy_fake_protocol)
  have gs: "g_policy_id S = word_of_int (cp_id cp)" "g_nonce_size S = nat (cp_nonce_size cp)" by (simp_all add: S_def)
  have nm: "l3_no_magic (g_nonce_size S) d" using assms(21) gs by simp
  have ov: "g_nonce_size S + 2 + gcm_tag_len S = ov" by (simp add: ov_def gs) (simp add: S_def)
  obtain s n y where e: "crypto_layer3_encrypt lib ctx S (e @ h @ d @ r) (14 + length h + length d) =
        Some (int (14 + length h + length d + ov), s,
          e @ l3_enc_hdr S h @ take (nat (cp_nonce_size cp)) n @ [word_of_int (cp_id cp), h ! 9] @ y @ drop ov r)"
    "length n = 16" "length y = length d + gcm_tag_len S"
    "\<And>e' z. eth14_ipv4 e' \<Longrightarrow> \<exists>t' rest. crypto_layer3_decrypt lib ctx ?T
          (e' @ l3_enc_hdr S h @ take (nat (cp_nonce_size cp)) n @ [word_of_int (cp_id cp), h ! 9] @ y @ z)
          (14 + length h + length d + ov) = Some (int (14 + length h + length d), t', e' @ h @ fix_seg h d (h ! 9) @ rest)
          \<and> g_fake_protocol t' = g_fake_protocol ?T \<and> length rest = ov + length z"
    using l3_wire [OF assms(1) assms(2) [folded S_def] assms(3) same_cipher_apply [of cp s0 t0, folded S_def] fp(1) assms(17-20) nm
        assms(22) [folded S_def] assms(23-25), unfolded ov, unfolded gs] by blast
  define L where "L = 14 + length h + length d + ov"
  have ne: "dc_policies dc \<noteq> []" using assms(10) by auto
  have ns: "nat (cp_nonce_size cp) \<le> 16" using assms(2) by (simp add: crypto_ready_def)
  have mem: "cp \<in> set (take MAX_CRYPTO_POLICIES (dc_policies dc))"
    using assms(10-12) by (metis in_set_conv_nth length_take min_less_iff_conj nth_take)
  have hl: "14 + length (l3_enc_hdr S h) + nat (cp_nonce_size cp) + 1 < L"
    "14 + length (l3_enc_hdr S h) + (g_nonce_size t0 + 2) \<le> L"
    using assms(6,19) l3_enc_hdr_facts(1) [OF assms(18), of S] by (auto simp: L_def ov_def)
  have nl: "length (take (nat (cp_nonce_size cp)) n) = nat (cp_nonce_size cp)" using e(2) ns by simp
  have dec: "\<exists>t' rest. crypto_decrypt_packet_auto_by_action lib True cfg dc POLICY_ACTION_ENCRYPT_L3 scratch_sz hs t0
      (e' @ l3_enc_hdr S h @ take (nat (cp_nonce_size cp)) n @ [word_of_int (cp_id cp), h ! 9] @ y @ z) L
      = Some (0, t', e' @ h @ fix_seg h d (h ! 9) @ rest, 14 + length h + length d) \<and> g_fake_protocol t' = g_fake_protocol s0 \<and> length rest = ov + length z"
    if e': "eth14_ipv4 e'" for e' z
  proof -
    define b where "b = e' @ l3_enc_hdr S h @ take (nat (cp_nonce_size cp)) n @ [word_of_int (cp_id cp), h ! 9] @ y @ z"
    obtain t' rest where d: "crypto_layer3_decrypt lib ctx ?T b L
        = Some (int (14 + length h + length d), t', e' @ h @ fix_seg h d (h ! 9) @ rest)" "g_fake_protocol t' = g_fake_protocol ?T" "length rest = ov + length z"
      using e(4) [OF e', of z] unfolding b_def L_def by blast
    have "crypto_l3_extract_policy_id cfg t0 b L = Some (Some (word_of_int (cp_id cp)))"
      unfolding b_def
      by (rule l3_extract_parts)
         (use assms(7-9,13,18) e' fp l3_enc_hdr_facts [OF assms(18), of S] mem hl nl in simp_all)
    moreover have "try_policy_set lib POLICY_ACTION_ENCRYPT_L3 (dc_policies dc) (dc_per_policy_ctx dc) (dc_per_policy_ready dc)
        (dc_index dc) (word_of_int (cp_id cp)) None t0 b L
        = Some (True, t', e' @ h @ fix_seg h d (h ! 9) @ rest, 14 + length h + length d)"
    proof (rule try_policy_set_hit)
      show "lookup_policy_index (dc_policies dc) (dc_index dc) POLICY_ACTION_ENCRYPT_L3 (word_of_int (cp_id cp)) = int i"
        using assms(10,14) ne by (auto simp: lookup_policy_index_def Let_def policy_consts)
      show "decrypt_layer lib POLICY_ACTION_ENCRYPT_L3 (dc_per_policy_ctx dc ! i) (crypto_apply_from_policy (dc_policies dc ! i) t0) b L
          = Some (int (14 + length h + length d), t', e' @ h @ fix_seg h d (h ! 9) @ rest)"
        using d(1) assms(11,16) by (simp add: decrypt_layer_def policy_consts)
      show "14 + length h + length d < L" "L < 2 ^ 31"
        using assms(8,20) ns by (simp_all add: L_def ov_def gcm_tag_len_def AES128_GCM_TAG_SIZE_def)
    qed (use assms in simp_all)
    ultimately have "crypto_decrypt_packet_auto_by_action lib True cfg dc POLICY_ACTION_ENCRYPT_L3 scratch_sz hs t0 b L
          = Some (0, t', e' @ h @ fix_seg h d (h ! 9) @ rest, 14 + length h + length d)"
      using assms(9) ne by (simp add: crypto_decrypt_packet_auto_by_action_def try_current_then_prev_def)
    then show ?thesis using d(2,3) fp assms(5) unfolding b_def by (metis (no_types))
  qed
  show ?thesis using e(1-3) dec unfolding L_def by blast
qed

lemma sample_policy_ready: "crypto_ready (crypto_apply_from_policy (sample_policy 1 0 3) (sample_crypto 1)) sample_ctx"
  by (simp add: crypto_ready_def gcm_cache_ok_def sample_crypto_defs sample_policy_def policy_consts)

end
