(* ===== verification/Fragment.thy ===== *)
theory Fragment
  imports Dispatch
begin

text \<open>
  \<open>inc/core/fragment.h\<close> and \<open>src/core/fragment.c\<close>: a packet too large for the MTU is cut into two
  pieces that are encrypted separately; the receiver keeps the decrypted first piece in a table indexed
  by the packet id until the second arrives. The monotonic clock is the parameter \<open>now\<close>; the C
  buffers \<open>out_buf\<close>, \<open>frag1\<close>, \<open>frag2\<close> are byte lists of the capacity the caller provides, and every
  copy beyond one is \<open>None\<close>. 32-bit subtraction wraps (\<open>u32_sub\<close>).
\<close>

definition FRAG_L4_HDR_SIZE :: nat where "FRAG_L4_HDR_SIZE = 4"
definition FRAG_MTU :: nat where "FRAG_MTU = 1500"
definition FRAG_TABLE_SIZE :: nat where "FRAG_TABLE_SIZE = 4096"
definition FRAG_TIMEOUT_NS :: "64 word" where "FRAG_TIMEOUT_NS = 200 * 1000000"
definition FRAG_DATA_SIZE :: nat where "FRAG_DATA_SIZE = 1600"
definition FRAG_PLAIN_SIZE :: nat where "FRAG_PLAIN_SIZE = 2048"
definition FRAG_JOIN_MAX :: nat where "FRAG_JOIN_MAX = 4096"

lemmas frag_consts = FRAG_L4_HDR_SIZE_def FRAG_MTU_def FRAG_TABLE_SIZE_def FRAG_TIMEOUT_NS_def FRAG_DATA_SIZE_def
  FRAG_PLAIN_SIZE_def FRAG_JOIN_MAX_def

record frag_entry =
  fe_pkt_id :: u16
  fe_data :: buf
  fe_data_len :: nat
  fe_eth_hdr :: buf
  fe_ip_hdr :: buf
  fe_ip_hdr_len :: nat
  fe_orig_proto :: u8
  fe_timestamp :: "64 word"
  fe_valid :: bool

type_synonym frag_table = "frag_entry list"

definition frag_entry_zero :: frag_entry where
  "frag_entry_zero = \<lparr> fe_pkt_id = 0, fe_data = replicate FRAG_DATA_SIZE 0, fe_data_len = 0, fe_eth_hdr = replicate 14 0,
     fe_ip_hdr = replicate 60 0, fe_ip_hdr_len = 0, fe_orig_proto = 0, fe_timestamp = 0, fe_valid = False \<rparr>"

definition frag_table_init :: frag_table where
  "frag_table_init = replicate FRAG_TABLE_SIZE frag_entry_zero"

definition u32_sub :: "nat \<Rightarrow> nat \<Rightarrow> nat" where
  "u32_sub a b = nat ((int a - int b) mod 2 ^ 32)"

lemma u32_sub_le [simp]: "b \<le> a \<Longrightarrow> a < 2 ^ 32 \<Longrightarrow> u32_sub a b = a - b"
  by (simp add: u32_sub_def nat_diff_distrib of_nat_diff [symmetric] del: of_nat_diff)

text \<open>The packet counter is global and atomic; its low 16 bits are the next id.\<close>

definition frag_next_pkt_id :: "64 word \<Rightarrow> u16 \<times> 64 word" where
  "frag_next_pkt_id c = (ucast c, c + 1)"

definition frag_expired :: "64 word \<Rightarrow> frag_entry \<Rightarrow> bool" where
  "frag_expired now e = (now - fe_timestamp e > FRAG_TIMEOUT_NS)"

definition frag_table_gc :: "64 word \<Rightarrow> frag_table \<Rightarrow> frag_table" where
  "frag_table_gc now ft = map (\<lambda>e. if fe_valid e \<and> frag_expired now e then e\<lparr>fe_valid := False\<rparr> else e) ft"

definition frag_need_split :: "crypto_state \<Rightarrow> nat \<Rightarrow> bool" where
  "frag_need_split st pkt_len = (pkt_len + crypto_layer3_frag_meta_len st > FRAG_MTU)"

definition frag_need_split_l4 :: "crypto_state \<Rightarrow> nat \<Rightarrow> bool" where
  "frag_need_split_l4 st pkt_len =
     (pkt_len + (L4_WIRE_PORT_LEN + packet_crypto_get_tunnel_hdr_size st + FRAG_L4_HDR_SIZE
        + (if g_crypto_mode st = 1 then 16 else 0)) > FRAG_MTU)"

definition frag_need_split_l2 :: "crypto_state \<Rightarrow> nat \<Rightarrow> bool" where
  "frag_need_split_l2 st pkt_len = (pkt_len + crypto_layer2_frag_meta_len st > FRAG_MTU)"

definition frag_read_hdr :: "buf \<Rightarrow> nat \<Rightarrow> (u16 \<times> u8) option" where
  "frag_read_hdr b off = do { i \<leftarrow> rd_be16 b off; x \<leftarrow> rd b (off + 2); Some (i, x) }"

definition frag_patch_ipv4 :: "buf \<Rightarrow> nat \<Rightarrow> nat \<Rightarrow> u16 \<Rightarrow> buf option" where
  "frag_patch_ipv4 b off ip_hdr_len ip_total = do {
     b \<leftarrow> wr_be16 b (off + 2) ip_total;
     b \<leftarrow> wr_be16 b (off + 10) 0;
     cksum \<leftarrow> crypto_calc_ip_checksum b off ip_hdr_len;
     wr_be16 b (off + 10) cksum }"

definition frag_require_ipv4 :: "buf \<Rightarrow> nat \<Rightarrow> nat option option" where
  "frag_require_ipv4 pkt pkt_len =
     (if pkt_len < 14 + 20 then Some None
      else do {
        et \<leftarrow> rd_be16 pkt 12;
        if et \<noteq> 0x0800 then Some None
        else do {
          ihl \<leftarrow> ip_ihl pkt 14;
          Some (if ihl < 20 \<or> pkt_len < 14 + ihl then None else Some ihl) } })"

text \<open>The data of the piece is copied first; \<open>eth_off\<close>, \<open>ip_off\<close> and \<open>data_off\<close> are the C pointers.\<close>

definition frag_store_pending ::
  "frag_entry \<Rightarrow> u16 \<Rightarrow> buf \<Rightarrow> nat \<Rightarrow> nat \<Rightarrow> u8 \<Rightarrow> nat \<Rightarrow> nat \<Rightarrow> 64 word \<Rightarrow> (int \<times> frag_entry) option" where
  "frag_store_pending e pkt_id pkt ip_off ip_hdr_len orig_proto data_off data_len now =
     (if data_len > FRAG_DATA_SIZE then Some (-1, e)
      else do {
        d \<leftarrow> rdn pkt data_off data_len;
        data \<leftarrow> wrn (fe_data e) 0 d;
        eh \<leftarrow> rdn pkt 0 14;
        eth \<leftarrow> wrn (fe_eth_hdr e) 0 eh;
        ih \<leftarrow> rdn pkt ip_off ip_hdr_len;
        ip \<leftarrow> wrn (fe_ip_hdr e) 0 ih;
        Some (0, e\<lparr> fe_pkt_id := pkt_id, fe_data_len := data_len, fe_data := data, fe_eth_hdr := eth, fe_ip_hdr := ip,
                   fe_ip_hdr_len := ip_hdr_len, fe_orig_proto := orig_proto, fe_timestamp := now, fe_valid := True \<rparr>) })"

section \<open>Recognising fragments\<close>

text \<open>The loops over the policies compare the magic byte, the policy id and read the fragment header
  (at an offset that layers 3 and 4 compute from the nonce size of the policy installed last, \<open>hdr_off\<close>).\<close>

fun frag_scan ::
  "buf \<Rightarrow> nat \<Rightarrow> int \<Rightarrow> nat \<Rightarrow> u8 \<Rightarrow> nat \<Rightarrow> crypto_policy list \<Rightarrow> (u16 \<times> u8) option option" where
  "frag_scan pkt pkt_len action tunnel_off magic hdr_off [] = Some None"
| "frag_scan pkt pkt_len action tunnel_off magic hdr_off (cp # cps) =
     (if cp_action cp \<noteq> action \<or> cp_nonce_size cp \<le> 0
      then frag_scan pkt pkt_len action tunnel_off magic hdr_off cps
      else let ns = nat (cp_nonce_size cp) in
        if tunnel_off + ns + 1 \<ge> pkt_len then frag_scan pkt pkt_len action tunnel_off magic hdr_off cps
        else do {
          m \<leftarrow> rd pkt (tunnel_off + ns + 1);
          if m \<noteq> magic then frag_scan pkt pkt_len action tunnel_off magic hdr_off cps
          else do {
          i \<leftarrow> rd pkt (tunnel_off + ns);
          if i \<noteq> word_of_int (cp_id cp) then frag_scan pkt pkt_len action tunnel_off magic hdr_off cps
          else do {
            (pkt_id, frag_index) \<leftarrow> frag_read_hdr pkt hdr_off;
            Some (if frag_index > 1 then None else Some (pkt_id, frag_index)) } } })"

definition frag_is_fragment :: "app_config \<Rightarrow> crypto_state \<Rightarrow> buf \<Rightarrow> nat \<Rightarrow> (u16 \<times> u8) option option" where
  "frag_is_fragment cfg st pkt pkt_len = do {
     req \<leftarrow> frag_require_ipv4 pkt pkt_len;
     case req of None \<Rightarrow> Some None
     | Some ip_hdr_len \<Rightarrow> do {
         proto \<leftarrow> rd pkt (14 + 9);
         if proto \<noteq> g_fake_protocol st then Some None
         else let tunnel_hdr_size = packet_crypto_get_tunnel_hdr_size st; tunnel_off = 14 + ip_hdr_len in
         if pkt_len < tunnel_off + tunnel_hdr_size + FRAG_HDR_SIZE then Some None
         else frag_scan pkt pkt_len POLICY_ACTION_ENCRYPT_L3 tunnel_off CRYPTO_L3_FRAG_MAGIC (tunnel_off + tunnel_hdr_size)
                (take MAX_CRYPTO_POLICIES (ac_policies cfg)) } }"

fun frag_scan_l2 :: "buf \<Rightarrow> nat \<Rightarrow> crypto_policy list \<Rightarrow> (u16 \<times> u8) option option" where
  "frag_scan_l2 pkt pkt_len [] = Some None"
| "frag_scan_l2 pkt pkt_len (cp # cps) =
     (if cp_action cp \<noteq> POLICY_ACTION_ENCRYPT_L2 \<or> cp_nonce_size cp \<le> 0 then frag_scan_l2 pkt pkt_len cps
      else let tag_off = 14 + nat (cp_nonce_size cp) in
        if tag_off + 1 + FRAG_HDR_SIZE > pkt_len then frag_scan_l2 pkt pkt_len cps
        else do {
          m \<leftarrow> rd pkt tag_off;
          if m \<noteq> L2_FRAG_MAGIC then frag_scan_l2 pkt pkt_len cps
          else do {
            (pkt_id, frag_index) \<leftarrow> frag_read_hdr pkt (tag_off + 1);
            Some (if frag_index > 1 then None else Some (pkt_id, frag_index)) } })"

definition frag_is_fragment_l2 :: "app_config \<Rightarrow> crypto_state \<Rightarrow> buf \<Rightarrow> nat \<Rightarrow> (u16 \<times> u8) option option" where
  "frag_is_fragment_l2 cfg st pkt pkt_len =
     (if pkt_len < 14 + 4 + 1 + FRAG_HDR_SIZE then Some None
      else if g_fake_ethertype_ipv4 st = 0 then Some None
      else do {
        m \<leftarrow> rd pkt 12;
        if m \<noteq> hi8 (g_fake_ethertype_ipv4 st) then Some None
        else frag_scan_l2 pkt pkt_len (take MAX_CRYPTO_POLICIES (ac_policies cfg)) })"

definition frag_is_fragment_l4 :: "app_config \<Rightarrow> crypto_state \<Rightarrow> buf \<Rightarrow> nat \<Rightarrow> (u16 \<times> u8) option option" where
  "frag_is_fragment_l4 cfg st pkt pkt_len =
     (if pkt_len < 14 + 20 + 8 then Some None
      else do {
        et \<leftarrow> rd_be16 pkt 12;
        if et \<noteq> 0x0800 then Some None
        else do {
        ip_proto \<leftarrow> rd pkt (14 + 9);
        if ip_proto \<noteq> 6 \<and> ip_proto \<noteq> 17 then Some None
        else do {
        ip_hdr_len \<leftarrow> ip_ihl pkt 14;
        if ip_hdr_len < 20 then Some None
        else let tunnel_hdr_size = packet_crypto_get_tunnel_hdr_size st;
                 tunnel_off = 14 + ip_hdr_len + L4_WIRE_PORT_LEN in
        if pkt_len < tunnel_off + tunnel_hdr_size + FRAG_L4_HDR_SIZE then Some None
        else frag_scan pkt pkt_len POLICY_ACTION_ENCRYPT_L4 tunnel_off CRYPTO_L4_FRAG_MAGIC (tunnel_off + tunnel_hdr_size)
               (take MAX_CRYPTO_POLICIES (ac_policies cfg)) } } })"

section \<open>Splitting\<close>

text \<open>A split returns the C value, the packet counter, the crypto state and the two output buffers with
  the lengths written to \<open>*frag1_len\<close> and \<open>*frag2_len\<close>. The local array \<open>frag0_plain\<close> holds the
  concatenation of the pieces copied into it.\<close>

type_synonym split_result = "int \<times> 64 word \<times> crypto_state \<times> (buf \<times> nat) \<times> (buf \<times> nat)"

definition frag_split_and_encrypt ::
  "evp_lib \<Rightarrow> packet_crypto_ctx \<Rightarrow> 64 word \<Rightarrow> crypto_state \<Rightarrow> buf \<Rightarrow> nat \<Rightarrow> buf \<times> nat \<Rightarrow> buf \<times> nat \<Rightarrow> split_result option" where
  "frag_split_and_encrypt lib ctx c st pkt pkt_len f1 f2 =
     (if pkt_len < 14 + 20 + 8 then Some (-1, c, st, f1, f2)
      else do {
        req \<leftarrow> frag_require_ipv4 pkt pkt_len;
        case req of None \<Rightarrow> Some (-1, c, st, f1, f2)
        | Some ip_hdr_len \<Rightarrow> do {
        ip_proto \<leftarrow> rd pkt (14 + 9);
        if ip_proto \<noteq> 6 \<and> ip_proto \<noteq> 17 then Some (-1, c, st, f1, f2)
        else do {
        let ip_payload = 14 + ip_hdr_len;
        let ip_payload_len = pkt_len - 14 - ip_hdr_len;
        ths \<leftarrow> get_transport_hdr_size pkt ip_payload ip_proto ip_payload_len;
        if ths < 0 then Some (-1, c, st, f1, f2)
        else do {
        let transport_hdr_len = nat ths;
        let app_off = ip_payload + transport_hdr_len;
        let app_len = ip_payload_len - transport_hdr_len;
        if app_len = 0 then Some (-1, c, st, f1, f2)
        else do {
        let half1 = app_len div 2;
        let half2 = app_len - half1;
        let (pkt_id, c) = frag_next_pkt_id c;
        if transport_hdr_len + half1 > FRAG_PLAIN_SIZE then Some (-1, c, st, f1, f2)
        else do {
        th \<leftarrow> rdn pkt ip_payload transport_hdr_len;
        ap \<leftarrow> rdn pkt app_off half1;
        (rc, st, b1, l1) \<leftarrow> crypto_layer3_encrypt_fragment_single lib ctx st pkt (drop 14 pkt) ip_hdr_len (th @ ap)
                             pkt_id 0 (fst f1) 2048 (snd f1);
        if rc \<noteq> 0 then Some (-1, c, st, (b1, l1), f2)
        else do {
        ap2 \<leftarrow> rdn pkt (app_off + half1) half2;
        (rc, st, b2, l2) \<leftarrow> crypto_layer3_encrypt_fragment_single lib ctx st pkt (drop 14 pkt) ip_hdr_len ap2
                             pkt_id 1 (fst f2) 2048 (snd f2);
        Some (if rc \<noteq> 0 then -1 else 0, c, st, (b1, l1), (b2, l2)) } } } } } } })"

definition frag_split_and_encrypt_l2 ::
  "evp_lib \<Rightarrow> packet_crypto_ctx \<Rightarrow> 64 word \<Rightarrow> crypto_state \<Rightarrow> buf \<Rightarrow> nat \<Rightarrow> buf \<times> nat \<Rightarrow> buf \<times> nat \<Rightarrow> split_result option" where
  "frag_split_and_encrypt_l2 lib ctx c st pkt pkt_len f1 f2 =
     (if pkt_len < 14 + 20 then Some (-1, c, st, f1, f2)
      else do {
        req \<leftarrow> frag_require_ipv4 pkt pkt_len;
        case req of None \<Rightarrow> Some (-1, c, st, f1, f2)
        | Some ip_hdr_len \<Rightarrow> do {
        ip_proto \<leftarrow> rd pkt (14 + 9);
        let ip_payload = 14 + ip_hdr_len;
        let ip_payload_len = pkt_len - 14 - ip_hdr_len;
        let has_th = (ip_proto = 6 \<or> ip_proto = 17);
        ths \<leftarrow> (if has_th then get_transport_hdr_size pkt ip_payload ip_proto ip_payload_len else Some (-1));
        if has_th \<and> ths < 0 then Some (-1, c, st, f1, f2)
        else do {
        let transport_hdr_len = (if ths \<ge> 0 then nat ths else 0);
        let app_off = ip_payload + transport_hdr_len;
        let app_len = ip_payload_len - transport_hdr_len;
        if app_len = 0 then Some (-1, c, st, f1, f2)
        else do {
        let half1 = app_len div 2;
        let half2 = app_len - half1;
        let (pkt_id, c) = frag_next_pkt_id c;
        if ip_hdr_len + transport_hdr_len + half1 > FRAG_PLAIN_SIZE then Some (-1, c, st, f1, f2)
        else do {
        ih \<leftarrow> rdn pkt 14 ip_hdr_len;
        th \<leftarrow> rdn pkt ip_payload transport_hdr_len;
        ap \<leftarrow> rdn pkt app_off half1;
        (rc, st, b1, l1) \<leftarrow> crypto_layer2_encrypt_fragment_single lib ctx st pkt (ih @ th @ ap) pkt_id 0
                             (fst f1) 2048 (snd f1);
        if rc \<noteq> 0 then Some (-1, c, st, (b1, l1), f2)
        else do {
        ap2 \<leftarrow> rdn pkt (app_off + half1) half2;
        (rc, st, b2, l2) \<leftarrow> crypto_layer2_encrypt_fragment_single lib ctx st pkt ap2 pkt_id 1 (fst f2) 2048 (snd f2);
        Some (if rc \<noteq> 0 then -1 else 0, c, st, (b1, l1), (b2, l2)) } } } } } })"

definition frag_split_and_encrypt_l4 ::
  "evp_lib \<Rightarrow> packet_crypto_ctx \<Rightarrow> 64 word \<Rightarrow> crypto_state \<Rightarrow> buf \<Rightarrow> nat \<Rightarrow> buf \<times> nat \<Rightarrow> buf \<times> nat \<Rightarrow> split_result option" where
  "frag_split_and_encrypt_l4 lib ctx c st pkt pkt_len f1 f2 =
     (if pkt_len < 14 + 20 + 8 then Some (-1, c, st, f1, f2)
      else do {
        et \<leftarrow> rd_be16 pkt 12;
        if et \<noteq> 0x0800 then Some (-1, c, st, f1, f2)
        else do {
        ip_proto \<leftarrow> rd pkt (14 + 9);
        if ip_proto \<noteq> 6 \<and> ip_proto \<noteq> 17 then Some (-1, c, st, f1, f2)
        else do {
        ip_hdr_len \<leftarrow> ip_ihl pkt 14;
        if ip_hdr_len < 20 then Some (-1, c, st, f1, f2)
        else do {
        let transport_off = 14 + ip_hdr_len;
        let remaining = u32_sub pkt_len transport_off;
        ths \<leftarrow> get_transport_hdr_size pkt transport_off ip_proto remaining;
        if ths < 0 then Some (-1, c, st, f1, f2)
        else do {
        let transport_hdr_len = nat ths;
        let app_off = transport_off + transport_hdr_len;
        let app_len = u32_sub pkt_len app_off;
        if app_len = 0 then Some (-1, c, st, f1, f2)
        else do {
        let half1 = app_len div 2;
        let half2 = app_len - half1;
        let (pkt_id, c) = frag_next_pkt_id c;
        if transport_hdr_len + half1 > FRAG_PLAIN_SIZE then Some (-1, c, st, f1, f2)
        else do {
        th \<leftarrow> rdn pkt transport_off transport_hdr_len;
        ap \<leftarrow> rdn pkt app_off half1;
        (rc, st, b1, l1) \<leftarrow> crypto_layer4_encrypt_fragment_single lib ctx st pkt (drop 14 pkt) ip_hdr_len
                             (drop transport_off pkt) (th @ ap) pkt_id 0 (fst f1) 2048 (snd f1);
        if rc \<noteq> 0 then Some (-1, c, st, (b1, l1), f2)
        else do {
        ap2 \<leftarrow> rdn pkt (app_off + half1) half2;
        (rc, st, b2, l2) \<leftarrow> crypto_layer4_encrypt_fragment_single lib ctx st pkt (drop 14 pkt) ip_hdr_len
                             (drop transport_off pkt) ap2 pkt_id 1 (fst f2) 2048 (snd f2);
        Some (if rc \<noteq> 0 then -1 else 0, c, st, (b1, l1), (b2, l2)) } } } } } } } })"

section \<open>Reassembly\<close>

text \<open>A reassembly returns the C value, the table, the output buffer and \<open>*out_len\<close>.\<close>

type_synonym join_result = "int \<times> frag_table \<times> buf \<times> nat"

definition frag_slot :: "u16 \<Rightarrow> nat" where
  "frag_slot pkt_id = unat pkt_id mod FRAG_TABLE_SIZE"

text \<open>The entry check of every second piece: the slot must hold a first piece of the same packet that has
  not timed out; a timed out one is dropped.\<close>

definition frag_first_piece :: "frag_entry \<Rightarrow> u16 \<Rightarrow> 64 word \<Rightarrow> frag_entry option" where
  "frag_first_piece e pkt_id now =
     (if \<not> fe_valid e \<or> fe_pkt_id e \<noteq> pkt_id then Some e
      else if frag_expired now e then Some (e\<lparr>fe_valid := False\<rparr>) else None)"

text \<open>The copies \<open>memcpy(out_buf + off, src, n); off += n;\<close>.\<close>

definition put_at :: "buf \<times> nat \<Rightarrow> u8 list \<Rightarrow> (buf \<times> nat) option" where
  "put_at bo d = do { b \<leftarrow> wrn (fst bo) (snd bo) d; Some (b, snd bo + length d) }"

definition restored_hdr_len :: "buf \<Rightarrow> nat \<Rightarrow> u8 \<Rightarrow> nat \<Rightarrow> nat option" where
  "restored_hdr_len b off proto remaining = do {
     th \<leftarrow> get_transport_hdr_size b off proto remaining;
     Some (if th < 0 then (if proto = 6 then 20 else 8) else nat th) }"

definition frag_try_reassemble ::
  "frag_table \<Rightarrow> 64 word \<Rightarrow> buf \<Rightarrow> nat \<Rightarrow> u16 \<Rightarrow> u8 \<Rightarrow> buf \<Rightarrow> nat \<Rightarrow> join_result option" where
  "frag_try_reassemble ft now pkt pkt_len pkt_id frag_index out out_len = do {
     req \<leftarrow> frag_require_ipv4 pkt pkt_len;
     case req of None \<Rightarrow> Some (-1, ft, out, out_len)
     | Some ip_hdr_len \<Rightarrow> do {
     let payload = 14 + ip_hdr_len;
     let payload_len = pkt_len - 14 - ip_hdr_len;
     let idx = frag_slot pkt_id;
     let entry = ft ! idx;
     if frag_index = 0 then do {
       t6 \<leftarrow> get_transport_hdr_size pkt payload 6 payload_len;
       t17 \<leftarrow> get_transport_hdr_size pkt payload 17 payload_len;
       if t6 < 0 \<and> t17 < 0 then Some (-1, ft, out, out_len)
       else do {
         let orig_proto = (if t6 \<ge> 0 then 6 else 17);
         (rc, entry) \<leftarrow> frag_store_pending entry pkt_id pkt 14 ip_hdr_len orig_proto payload payload_len now;
         Some (if rc \<noteq> 0 then -1 else 0, ft[idx := entry], out, out_len) } }
     else if frag_index = 1 then
       (case frag_first_piece entry pkt_id now of
          Some entry \<Rightarrow> Some (-1, ft[idx := entry], out, out_len)
        | None \<Rightarrow> do {
            let second_len = payload_len;
            let first_len = fe_data_len entry;
            if first_len + second_len > FRAG_JOIN_MAX then Some (-1, ft[idx := entry\<lparr>fe_valid := False\<rparr>], out, out_len)
            else do {
            eh \<leftarrow> rdn (fe_eth_hdr entry) 0 14;
            bo \<leftarrow> put_at (out, 0) eh;
            ih \<leftarrow> rdn (fe_ip_hdr entry) 0 (fe_ip_hdr_len entry);
            (b, off) \<leftarrow> put_at bo ih;
            b \<leftarrow> wr b (14 + 9) (fe_orig_proto entry);
            restored_th \<leftarrow> restored_hdr_len (fe_data entry) 0 (fe_orig_proto entry) first_len;
            th \<leftarrow> rdn (fe_data entry) 0 restored_th;
            bo \<leftarrow> put_at (b, off) th;
            let first_app = first_len - restored_th;
            ap \<leftarrow> rdn (fe_data entry) restored_th first_app;
            bo \<leftarrow> put_at bo ap;
            ap2 \<leftarrow> rdn pkt payload second_len;
            (b, off) \<leftarrow> put_at bo ap2;
            b \<leftarrow> frag_patch_ipv4 b 14 (fe_ip_hdr_len entry) (of_nat (off - 14));
            Some (1, ft[idx := entry\<lparr>fe_valid := False\<rparr>], b, off) } })
     else Some (-1, ft, out, out_len) } }"

definition frag_try_reassemble_l2 ::
  "frag_table \<Rightarrow> 64 word \<Rightarrow> buf \<Rightarrow> nat \<Rightarrow> u16 \<Rightarrow> u8 \<Rightarrow> buf \<Rightarrow> nat \<Rightarrow> join_result option" where
  "frag_try_reassemble_l2 ft now pkt pkt_len pkt_id frag_index out out_len =
     (let wire_eth = crypto_layer2_wire_eth_len in
      if pkt_len < wire_eth + 20 then Some (-1, ft, out, out_len)
      else do {
     let inner_len = pkt_len - wire_eth;
     let idx = frag_slot pkt_id;
     let entry = ft ! idx;
     if frag_index = 0 then do {
       v \<leftarrow> rd pkt wire_eth;
       if inner_len < 20 \<or> drop_bit 4 v \<noteq> 4 then Some (-1, ft, out, out_len)
       else do {
       let ip_hdr_len = unat (v AND 0x0F) * 4;
       if ip_hdr_len < 20 \<or> inner_len < ip_hdr_len then Some (-1, ft, out, out_len)
       else do {
         proto \<leftarrow> rd pkt (wire_eth + 9);
         (rc, entry) \<leftarrow> frag_store_pending entry pkt_id pkt wire_eth ip_hdr_len proto wire_eth inner_len now;
         Some (if rc \<noteq> 0 then -1 else 0, ft[idx := entry], out, out_len) } } }
     else if frag_index = 1 then
       (case frag_first_piece entry pkt_id now of
          Some entry \<Rightarrow> Some (-1, ft[idx := entry], out, out_len)
        | None \<Rightarrow> do {
            let second_len = inner_len;
            let first_len = fe_data_len entry;
            let ihl = fe_ip_hdr_len entry;
            if first_len + second_len > FRAG_JOIN_MAX then Some (-1, ft[idx := entry\<lparr>fe_valid := False\<rparr>], out, out_len)
            else do {
            eh \<leftarrow> rdn (fe_eth_hdr entry) 0 wire_eth;
            bo \<leftarrow> put_at (out, 0) eh;
            restored_th \<leftarrow> restored_hdr_len (fe_data entry) ihl (fe_orig_proto entry) (first_len - ihl);
            ih \<leftarrow> rdn (fe_data entry) 0 ihl;
            bo \<leftarrow> put_at bo ih;
            bo \<leftarrow> (if first_len > ihl then do {
                     th \<leftarrow> rdn (fe_data entry) ihl restored_th;
                     bo \<leftarrow> put_at bo th;
                     ap \<leftarrow> rdn (fe_data entry) (ihl + restored_th) (first_len - ihl - restored_th);
                     put_at bo ap }
                   else Some bo);
            ap2 \<leftarrow> rdn pkt wire_eth second_len;
            (b, off) \<leftarrow> put_at bo ap2;
            b \<leftarrow> frag_patch_ipv4 b wire_eth ihl (of_nat (off - wire_eth));
            b \<leftarrow> wr b 12 0x08;
            b \<leftarrow> wr b 13 0x00;
            Some (1, ft[idx := entry\<lparr>fe_valid := False\<rparr>], b, off) } })
     else Some (-1, ft, out, out_len) })"

definition frag_try_reassemble_l4 ::
  "frag_table \<Rightarrow> 64 word \<Rightarrow> buf \<Rightarrow> nat \<Rightarrow> u16 \<Rightarrow> u8 \<Rightarrow> buf \<Rightarrow> nat \<Rightarrow> join_result option" where
  "frag_try_reassemble_l4 ft now pkt pkt_len pkt_id frag_index out out_len =
     (if pkt_len < 14 + 20 then Some (-1, ft, out, out_len)
      else do {
     et \<leftarrow> rd_be16 pkt 12;
     if et \<noteq> 0x0800 then Some (-1, ft, out, out_len)
     else do {
     ip_hdr_len \<leftarrow> ip_ihl pkt 14;
     let payload = 14 + ip_hdr_len;
     let payload_len = u32_sub (u32_sub pkt_len 14) ip_hdr_len;
     let plain = payload + L4_WIRE_PORT_LEN;
     let plain_len = payload_len - L4_WIRE_PORT_LEN;
     let idx = frag_slot pkt_id;
     let entry = ft ! idx;
     if frag_index = 0 then do {
       proto \<leftarrow> rd pkt (14 + 9);
       (rc, entry) \<leftarrow> frag_store_pending entry pkt_id pkt 14 ip_hdr_len proto plain plain_len now;
       Some (if rc \<noteq> 0 then -1 else 0, ft[idx := entry], out, out_len) }
     else if frag_index = 1 then
       (case frag_first_piece entry pkt_id now of
          Some entry \<Rightarrow> Some (-1, ft[idx := entry], out, out_len)
        | None \<Rightarrow> do {
            let first_plain_len = fe_data_len entry;
            let total_plain = (first_plain_len + plain_len) mod 2 ^ 32;
            if total_plain < 8 \<or> total_plain > FRAG_JOIN_MAX
            then Some (-1, ft[idx := entry\<lparr>fe_valid := False\<rparr>], out, out_len)
            else do {
            eh \<leftarrow> rdn (fe_eth_hdr entry) 0 14;
            bo \<leftarrow> put_at (out, 0) eh;
            ih \<leftarrow> rdn (fe_ip_hdr entry) 0 (fe_ip_hdr_len entry);
            bo \<leftarrow> put_at bo ih;
            restored_th \<leftarrow> restored_hdr_len (fe_data entry) 0 (fe_orig_proto entry) first_plain_len;
            th \<leftarrow> rdn (fe_data entry) 0 restored_th;
            bo \<leftarrow> put_at bo th;
            let first_app = first_plain_len - restored_th;
            ap \<leftarrow> rdn (fe_data entry) restored_th first_app;
            bo \<leftarrow> put_at bo ap;
            ap2 \<leftarrow> rdn pkt plain plain_len;
            (b, off) \<leftarrow> put_at bo ap2;
            b \<leftarrow> frag_patch_ipv4 b 14 (fe_ip_hdr_len entry) (of_nat (off - 14));
            Some (1, ft[idx := entry\<lparr>fe_valid := False\<rparr>], b, off) } })
     else Some (-1, ft, out, out_len) } })"

section \<open>The table and its entries\<close>

definition frag_entry_ok :: "frag_entry \<Rightarrow> bool" where
  "frag_entry_ok e = (length (fe_data e) = FRAG_DATA_SIZE \<and> length (fe_eth_hdr e) = 14 \<and> length (fe_ip_hdr e) = 60
     \<and> (fe_valid e \<longrightarrow> fe_data_len e \<le> FRAG_DATA_SIZE \<and> fe_ip_hdr_len e \<le> 60))"

definition frag_table_ok :: "frag_table \<Rightarrow> bool" where
  "frag_table_ok ft = (length ft = FRAG_TABLE_SIZE \<and> (\<forall>e \<in> set ft. frag_entry_ok e))"

lemma frag_slot_less: "frag_table_ok ft \<Longrightarrow> frag_slot i < length ft"
  by (simp add: frag_table_ok_def frag_slot_def FRAG_TABLE_SIZE_def)

lemma frag_table_nth: "frag_table_ok ft \<Longrightarrow> frag_entry_ok (ft ! frag_slot i)"
  using frag_slot_less [of ft i] by (simp add: frag_table_ok_def)

lemma frag_table_upd: "frag_table_ok ft \<Longrightarrow> frag_entry_ok e \<Longrightarrow> frag_table_ok (ft[i := e])"
  using set_update_subset_insert [of ft i e] by (auto simp: frag_table_ok_def)

lemma frag_table_init_ok: "frag_table_ok frag_table_init"
  by (auto simp: frag_table_ok_def frag_table_init_def frag_entry_ok_def frag_entry_zero_def)

lemma frag_table_gc_ok: "frag_table_ok ft \<Longrightarrow> frag_table_ok (frag_table_gc now ft)"
  by (auto simp: frag_table_ok_def frag_table_gc_def frag_entry_ok_def)

lemma store_pending_ok:
  assumes "frag_store_pending e i pkt ip_off ihl p off n now = Some (rc, e')" "frag_entry_ok e" "ihl \<le> 60"
  shows "frag_entry_ok e'"
  using assms by (auto simp: frag_store_pending_def frag_entry_ok_def mem_simps split: if_splits)

lemma frag_invalidate_ok: "frag_entry_ok e \<Longrightarrow> frag_entry_ok (e\<lparr>fe_valid := False\<rparr>)"
  by (simp add: frag_entry_ok_def)

lemma first_piece_ok: "frag_first_piece e i now = Some e' \<Longrightarrow> frag_entry_ok e \<Longrightarrow> frag_entry_ok e'"
  by (auto simp: frag_first_piece_def frag_invalidate_ok split: if_splits)

text \<open>Four bits of header length give at most 60 bytes.\<close>

lemma ihl_nibble: "unat (x AND 0x0F :: u8) \<le> 15"
proof -
  have "x AND 0x0F \<le> 0x0F" by (rule word_and_le1)
  then show ?thesis by (simp add: word_le_nat_alt)
qed

lemma ihl_bytes: "unat (x AND 0x0F :: u8) * 4 \<le> 60"
  using ihl_nibble [of x] by linarith

lemma ip_ihl_le: "ip_ihl b off = Some n \<Longrightarrow> n \<le> 60"
  using ihl_nibble by (auto simp: ip_ihl_def mem_simps)

lemma frag_require_le: "frag_require_ipv4 b n = Some (Some ihl) \<Longrightarrow> ihl \<le> 60"
  using ip_ihl_le by (fastforce simp: frag_require_ipv4_def mem_simps split: if_splits)

lemma l4_hdr_ok_le: "l4_hdr_ok h \<Longrightarrow> length h \<le> 60"
  using ihl_nibble [of "h ! 0"] by (simp add: l4_hdr_ok_def)

text \<open>What an operation keeps, shown by going through its binds.\<close>

lemma pred_bindI: "(\<And>x. m = Some x \<Longrightarrow> pred_option P (f x)) \<Longrightarrow> pred_option P (Option.bind m f)"
  by (cases m) auto

lemma pred_ifI: "(c \<Longrightarrow> pred_option P x) \<Longrightarrow> (\<not> c \<Longrightarrow> pred_option P y) \<Longrightarrow> pred_option P (if c then x else y)"
  by simp

lemma pred_caseI: "(v = None \<Longrightarrow> pred_option P x) \<Longrightarrow> (\<And>y. v = Some y \<Longrightarrow> pred_option P (f y)) \<Longrightarrow>
  pred_option P (case v of None \<Rightarrow> x | Some y \<Rightarrow> f y)"
  by (cases v) auto

lemma pred_prodI: "(\<And>a b. v = (a, b) \<Longrightarrow> pred_option P (f a b)) \<Longrightarrow> pred_option P (case v of (a, b) \<Rightarrow> f a b)"
  by (cases v) auto

lemmas pred_steps = pred_bindI pred_ifI pred_caseI pred_prodI

abbreviation join_table_ok :: "join_result \<Rightarrow> bool" where
  "join_table_ok res \<equiv> frag_table_ok (fst (snd res))"

lemma reassemble_l4_ok: "frag_table_ok ft \<Longrightarrow> pred_option join_table_ok (frag_try_reassemble_l4 ft now pkt n i x out ol)"
  unfolding frag_try_reassemble_l4_def Let_def
  by (intro pred_steps)
     (auto intro!: frag_table_upd frag_invalidate_ok intro: store_pending_ok first_piece_ok frag_table_nth dest: ip_ihl_le)

lemma reassemble_l2_ok: "frag_table_ok ft \<Longrightarrow> pred_option join_table_ok (frag_try_reassemble_l2 ft now pkt n i x out ol)"
  unfolding frag_try_reassemble_l2_def Let_def
  by (intro pred_steps)
     (auto intro!: frag_table_upd frag_invalidate_ok intro: store_pending_ok [OF _ _ ihl_bytes] first_piece_ok frag_table_nth)

lemma reassemble_l3_ok: "frag_table_ok ft \<Longrightarrow> pred_option join_table_ok (frag_try_reassemble ft now pkt n i x out ol)"
  unfolding frag_try_reassemble_def Let_def
  by (intro pred_steps)
     (auto intro!: frag_table_upd frag_invalidate_ok intro: store_pending_ok first_piece_ok frag_table_nth dest: frag_require_le)

text \<open>Only a first piece makes a handler return 0: the piece is then in the slot of its packet id, live and with the time of
  the call, and no other slot has changed.\<close>

definition stored_piece :: "64 word \<Rightarrow> frag_table \<Rightarrow> frag_table \<Rightarrow> bool" where
  "stored_piece now ft ft' \<longleftrightarrow> (\<exists>i e. frag_slot i < length ft \<and> ft' = ft[frag_slot i := e] \<and>
     fe_valid e \<and> fe_pkt_id e = i \<and> fe_timestamp e = now)"

lemma store_pending_stores:
  assumes "frag_store_pending e i pkt ip_off ihl p off n now = Some (0, e')"
  shows "fe_valid e' \<and> fe_pkt_id e' = i \<and> fe_timestamp e' = now"
  using assms by (auto simp: frag_store_pending_def bind_eq_Some_conv split: if_splits)

lemma reassemble_zero:
  assumes "frag_table_ok ft"
  shows "pred_option (\<lambda>r. fst r = 0 \<longrightarrow> x = 0 \<and> stored_piece now ft (fst (snd r))) (frag_try_reassemble ft now pkt n i x out ol)"
    and "pred_option (\<lambda>r. fst r = 0 \<longrightarrow> x = 0 \<and> stored_piece now ft (fst (snd r))) (frag_try_reassemble_l2 ft now pkt n i x out ol)"
    and "pred_option (\<lambda>r. fst r = 0 \<longrightarrow> x = 0 \<and> stored_piece now ft (fst (snd r))) (frag_try_reassemble_l4 ft now pkt n i x out ol)"
  using frag_slot_less [OF assms, of i]
  unfolding frag_try_reassemble_def frag_try_reassemble_l2_def frag_try_reassemble_l4_def Let_def stored_piece_def
  by (intro pred_steps; auto dest: store_pending_stores)+

section \<open>A first piece in the table, and its second\<close>

definition pending :: "frag_entry \<Rightarrow> u16 \<Rightarrow> u8 list \<Rightarrow> u8 list \<Rightarrow> u8 \<Rightarrow> u8 list \<Rightarrow> 64 word \<Rightarrow> frag_entry" where
  "pending e i eh h p d now = e\<lparr> fe_pkt_id := i, fe_data_len := length d, fe_data := d @ drop (length d) (fe_data e),
     fe_eth_hdr := eh, fe_ip_hdr := h @ drop (length h) (fe_ip_hdr e), fe_ip_hdr_len := length h, fe_orig_proto := p,
     fe_timestamp := now, fe_valid := True \<rparr>"

lemma store_pending_parts:
  assumes "frag_entry_ok e" "length eh = 14" "length h \<le> 60" "length d \<le> FRAG_DATA_SIZE" "off = 14 + length h + length q"
  shows "frag_store_pending e i (eh @ h @ q @ d @ r) 14 (length h) p off (length d) now = Some (0, pending e i eh h p d now)"
proof -
  have "rdn (eh @ h @ q @ d @ r) off (length d) = Some d"
    using rdn_mid [of off "eh @ h @ q" "length d" d r] assms(2,5) by simp
  then show ?thesis using assms by (simp add: frag_store_pending_def frag_entry_ok_def pending_def rdn_mid)
qed

lemma put_at_parts: "length d \<le> length z \<Longrightarrow> off = length a \<Longrightarrow>
  put_at (a @ z, off) d = Some ((a @ d) @ drop (length d) z, off + length d)"
  by (simp add: put_at_def)

lemma put_at_start: "length d \<le> length z \<Longrightarrow> put_at (z, 0) d = Some (d @ drop (length d) z, length d)"
  by (simp add: put_at_def)

lemma wr_be16_upd:
  assumes "Suc i < length b"
  shows "wr_be16 b i v = Some (b[i := hi8 v, Suc i := lo8 v])"
proof -
  have "b[i := x] = take i b @ x # drop (Suc i) b" for x using assms by (simp add: upd_conv_take_nth_drop)
  moreover have "(b[i := x])[Suc i := y] = take i b @ x # y # drop (Suc (Suc i)) b" for x y
    using assms calculation [of x] by (simp add: list_update_append Cons_nth_drop_Suc [symmetric])
  ultimately show ?thesis using assms by (simp add: numeral_2_eq_2)
qed

lemma frag_patch_parts:
  assumes "off = length a" "ihl = length h" "20 \<le> length h"
  shows "frag_patch_ipv4 (a @ h @ z) off ihl tot = Some (a @ patch_hdr h tot @ z)"
  using assms
  by (simp add: frag_patch_ipv4_def wr_be16_upd crypto_calc_ip_checksum_def upd_mid rdn_mid patch_hdr_def Let_def hi8_def lo8_def
      del: wr_be16_Some)

lemma rd_be16_type: "eth14_ipv4 e \<Longrightarrow> rd_be16 (e @ z) 12 = Some 0x0800"
  by (simp add: eth14_ipv4_def nth_append)

lemma l4_join_first:
  assumes "frag_table_ok ft" "eth14_ipv4 e" "l4_hdr_ok h" "length q4 = 4" "length d \<le> FRAG_DATA_SIZE"
  shows "frag_try_reassemble_l4 ft now (e @ h @ q4 @ d @ r) (14 + length h + 4 + length d) i 0 out ol =
    Some (0, ft[frag_slot i := pending (ft ! frag_slot i) i e h (h ! 9) d now], out, ol)"
proof -
  define b where "b = e @ h @ q4 @ d @ r"
  define N where "N = 14 + length h + 4 + length d"
  have el: "length e = 14" "20 \<le> length h" "length h \<le> 60"
    using assms(2,3) l4_hdr_ok_le by (simp_all add: eth14_ipv4_def l4_hdr_ok_def)
  have dl: "length d \<le> 1600" using assms(5) by (simp add: FRAG_DATA_SIZE_def)
  have ih: "ip_ihl b 14 = Some (length h)" "rd b 23 = Some (h ! 9)"
    using assms(3) el by (auto simp: b_def ip_ihl_def l4_hdr_ok_def rd_def nth_append)
  have sp: "frag_store_pending (ft ! frag_slot i) i b 14 (length h) (h ! 9) (18 + length h) (length d) now
      = Some (0, pending (ft ! frag_slot i) i e h (h ! 9) d now)"
    unfolding b_def by (rule store_pending_parts) (use assms el frag_table_nth in auto)
  have ty: "rd_be16 b 12 = Some 0x0800" unfolding b_def by (rule rd_be16_type [OF assms(2)])
  have sz: "u32_sub (u32_sub N 14) (length h) - 4 = length d" "\<not> N < 34"
    using el dl by (simp_all add: N_def)
  show ?thesis
    unfolding b_def [symmetric] N_def [symmetric] frag_try_reassemble_l4_def Let_def L4_WIRE_PORT_LEN_def
    using sz by (simp del: rd_Some rd_be16_Some not_less add: ih sp ty)
qed

lemma transport_hdr_bound:
  "get_transport_hdr_size b off p n = Some k \<Longrightarrow> k \<le> int n"
  by (auto simp: get_transport_hdr_size_def Let_def mem_simps not_less simp del: of_nat_mult split: if_splits)

lemma restored_hdr_parts:
  assumes "l4_transport_ok p d"
  shows "\<exists>k\<le>length d. restored_hdr_len (d @ z) 0 p (length d) = Some k"
proof -
  obtain k where k: "0 \<le> k" "get_transport_hdr_size (d @ z) 0 p (length d) = Some k"
    using l4_transport_parts [OF assms, of 0 "[]" z] by auto
  then show ?thesis using transport_hdr_bound [OF k(2)] by (auto simp: restored_hdr_len_def)
qed

lemma l4_join_second:
  assumes "ft ! frag_slot i = pending e0 i e h p d1 t1" "frag_entry_ok e0" "now - t1 \<le> FRAG_TIMEOUT_NS"
    and "length e = 14" "l4_hdr_ok h" "length d1 \<le> FRAG_DATA_SIZE" "l4_transport_ok p d1"
    and "eth14_ipv4 e'" "l4_hdr_ok h'" "length q4 = 4"
    and "8 \<le> length d1 + length d2" "length d1 + length d2 \<le> FRAG_JOIN_MAX"
    and "14 + length h + (length d1 + length d2) \<le> length out"
  shows "frag_try_reassemble_l4 ft now (e' @ h' @ q4 @ d2 @ r) (14 + length h' + 4 + length d2) i 1 out ol =
    Some (1, ft[frag_slot i := (ft ! frag_slot i)\<lparr>fe_valid := False\<rparr>],
      e @ patch_hdr h (of_nat (length h + (length d1 + length d2))) @ d1 @ d2
        @ drop (14 + length h + (length d1 + length d2)) out,
      14 + length h + (length d1 + length d2))"
proof -
  define b where "b = e' @ h' @ q4 @ d2 @ r"
  define E where "E = ft ! frag_slot i"
  define N where "N = 14 + length h' + 4 + length d2"
  define M where "M = 14 + length h + (length d1 + length d2)"
  have el: "length e' = 14" "20 \<le> length h'" "length h' \<le> 60" "20 \<le> length h" "length h \<le> 60"
    using assms(5,8,9) l4_hdr_ok_le by (simp_all add: eth14_ipv4_def l4_hdr_ok_def)
  have dl: "length d1 \<le> 1600" "length d1 + length d2 \<le> 4096" using assms(6,12) by (simp_all add: FRAG_DATA_SIZE_def FRAG_JOIN_MAX_def)
  have ih: "ip_ihl b 14 = Some (length h')"
    using assms(9) el by (auto simp: b_def ip_ihl_def l4_hdr_ok_def rd_def nth_append)
  have ty: "rd_be16 b 12 = Some 0x0800" unfolding b_def by (rule rd_be16_type [OF assms(8)])
  have sz: "u32_sub (u32_sub N 14) (length h') - 4 = length d2" "\<not> N < 34"
    using el dl by (simp_all add: N_def)
  have fp: "frag_first_piece E i now = None" and E: "fe_data_len E = length d1" "fe_eth_hdr E = e" "fe_orig_proto E = p"
    "fe_ip_hdr E = h @ drop (length h) (fe_ip_hdr e0)" "fe_ip_hdr_len E = length h" "fe_data E = d1 @ drop (length d1) (fe_data e0)"
    using assms(1,3) by (simp_all add: E_def frag_first_piece_def frag_expired_def pending_def)
  obtain k where k: "restored_hdr_len (fe_data E) 0 p (length d1) = Some k" "k \<le> length d1"
    using restored_hdr_parts [OF assms(7)] unfolding E by blast
  have tot: "(length d1 + length d2) mod 4294967296 = length d1 + length d2" using dl by simp
  have rds: "rdn (fe_eth_hdr E) 0 14 = Some e" "rdn (fe_ip_hdr E) 0 (length h) = Some h"
    "rdn (fe_data E) 0 k = Some (take k d1)" "rdn (fe_data E) k (length d1 - k) = Some (drop k d1)"
    "rdn b (18 + length h') (length d2) = Some d2"
    using assms(4,10) el k(2) rdn_mid [of "18 + length h'" "e' @ h' @ q4" "length d2" d2 r]
    by (simp_all add: E b_def)
  define H where "H = 14 + length h"
  define o1 where "o1 = drop H out"
  have lo: "length d1 + length d2 \<le> length o1" "H \<le> length out" "14 \<le> length out" "length h \<le> length (drop 14 out)"
    "drop (length h) (drop 14 out) = o1"
    using assms(13) by (simp_all add: o1_def H_def add.commute)
  have p1: "put_at (out, 0) e = Some (e @ drop 14 out, 14)"
    using put_at_start [of e out] assms(4) lo by simp
  have p2: "put_at (e @ drop 14 out, 14) h = Some ((e @ h) @ o1, H)"
    using put_at_parts [OF lo(4), of 14 e] assms(4) lo(5) by (simp add: H_def)
  have p3: "put_at ((e @ h) @ o1, H) (take k d1) = Some ((e @ h @ take k d1) @ drop k o1, H + k)"
    using put_at_parts [of "take k d1" o1 H "e @ h"] assms(4) k(2) lo(1) by (simp add: H_def)
  have p4: "put_at ((e @ h @ take k d1) @ drop k o1, H + k) (drop k d1) = Some ((e @ h @ d1) @ drop (length d1) o1, H + length d1)"
    using put_at_parts [of "drop k d1" "drop k o1" "H + k" "e @ h @ take k d1"] assms(4) k(2) lo(1) by (simp add: H_def)
  have p5: "put_at ((e @ h @ d1) @ drop (length d1) o1, H + length d1) d2
      = Some (e @ h @ d1 @ d2 @ drop (length d1 + length d2) o1, M)"
    using put_at_parts [of d2 "drop (length d1) o1" "H + length d1" "e @ h @ d1"] assms(4) lo(1)
    by (simp add: H_def M_def add.commute [of "length d2"])
  have pt: "frag_patch_ipv4 (e @ h @ z) 14 (length h) u = Some (e @ patch_hdr h u @ z)" for z u
    by (rule frag_patch_parts) (use assms(4) el in simp_all)
  have lim: "\<not> length d1 + length d2 < 8" "\<not> FRAG_JOIN_MAX < length d1 + length d2" using assms(11,12) by simp_all
  have off: "M - 14 = length h + (length d1 + length d2)" "drop (length d1 + length d2) o1 = drop M out"
    by (simp_all add: M_def o1_def H_def add.commute)
  show ?thesis
    unfolding b_def [symmetric] frag_try_reassemble_l4_def Let_def L4_WIRE_PORT_LEN_def E_def [symmetric] E N_def [symmetric]
      M_def [symmetric]
    using sz lim
    by (simp del: append_assoc of_nat_add rdn_Some rd_be16_Some not_less
        add: ty ih fp tot k(1) [unfolded E] rds [unfolded E] p1 p2 p3 p4 p5 pt off)
qed

lemma transport_shift:
  "off = length a \<Longrightarrow> get_transport_hdr_size (a @ x @ z) off p (length x) = get_transport_hdr_size x 0 p (length x)"
  by (auto simp: get_transport_hdr_size_def rd_def nth_append)

lemma transport_take:
  assumes "get_transport_hdr_size x 0 p (length x) = Some (int k)" "k \<le> m" "m \<le> length x"
  shows "l4_transport_ok p (take m x)"
  using assms
  by (auto simp: l4_transport_ok_def get_transport_hdr_size_def Let_def mem_simps simp del: of_nat_mult split: option.splits if_splits)

lemma transport_hdr_min: "get_transport_hdr_size b off p n = Some (int k) \<Longrightarrow> 8 \<le> k \<and> p \<in> {6, 17}"
  by (auto simp: get_transport_hdr_size_def Let_def mem_simps simp del: of_nat_mult split: if_splits)

lemma eth14_is_eth: "eth14_ipv4 e \<Longrightarrow> eth_ipv4 e"
  by (simp add: eth14_ipv4_def eth_ipv4_def crypto_eth_ipv4_offset_def)

lemma l4_split_parts:
  assumes "eth14_ipv4 e" "l4_hdr_ok h" "get_transport_hdr_size x 0 (h ! 9) (length x) = Some (int k)" "k < length x"
    and "m = k + (length x - k) div 2" "m \<le> FRAG_PLAIN_SIZE" "length h + length x < 2 ^ 29"
    and "crypto_layer4_encrypt_fragment_single lib ctx st (e @ h @ x @ r) (h @ x @ r) (length h) (x @ r) (take m x)
           (fst (frag_next_pkt_id c)) 0 (fst f1) 2048 (snd f1) = Some (0, s1, b1, l1)"
    and "crypto_layer4_encrypt_fragment_single lib ctx s1 (e @ h @ x @ r) (h @ x @ r) (length h) (x @ r) (drop m x)
           (fst (frag_next_pkt_id c)) 1 (fst f2) 2048 (snd f2) = Some (0, s2, b2, l2)"
  shows "frag_split_and_encrypt_l4 lib ctx c st (e @ h @ x @ r) (14 + length h + length x) f1 f2
    = Some (0, c + 1, s2, (b1, l1), (b2, l2))"
proof -
  define b where "b = e @ h @ x @ r"
  define T where "T = 14 + length h"
  define N where "N = T + length x"
  define h1 where "h1 = (length x - k) div 2"
  have el: "length e = 14" "20 \<le> length h" using assms(1,2) by (simp_all add: eth14_ipv4_def l4_hdr_ok_def)
  have kl: "8 \<le> k" "k + h1 < length x" "m = k + h1" "h ! 9 = 6 \<or> h ! 9 = 17"
    using transport_hdr_min [OF assms(3)] assms(4,5) by (auto simp: h1_def)
  have ih: "ip_ihl b 14 = Some (length h)" "rd b 23 = Some (h ! 9)"
    using assms(2) el by (auto simp: b_def ip_ihl_def l4_hdr_ok_def rd_def nth_append)
  have ty: "rd_be16 b 12 = Some 0x0800" unfolding b_def by (rule rd_be16_type [OF assms(1)])
  have th: "get_transport_hdr_size b T (h ! 9) (length x) = Some (int k)"
    using transport_shift [of T "e @ h" x r "h ! 9"] el assms(3) by (simp add: b_def T_def)
  have sz: "u32_sub N T = length x" "u32_sub N (T + k) = length x - k" "\<not> N < 42" "length x - k \<noteq> 0"
    using el kl assms(4,7) by (simp_all add: N_def T_def)
  have rds: "rdn b T k = Some (take k x)" "rdn b (T + k) h1 = Some (take h1 (drop k x))"
    "rdn b (T + k + h1) (length x - (k + h1)) = Some (drop m x)"
    using rdn_mid [of T "e @ h" k "take k x" "drop k x @ r"] rdn_mid [of "T + k" "e @ h @ take k x" h1 "take h1 (drop k x)" "drop m x @ r"]
      rdn_mid [of "T + k + h1" "e @ h @ take m x" "length x - (k + h1)" "drop m x" r] el kl
    by (simp_all add: b_def T_def min_def add.commute)
  have tm: "take k x @ take h1 (drop k x) = take m x" unfolding kl(3) by (simp add: take_add)
  have dr: "drop 14 b = h @ x @ r" "drop T b = x @ r" using el by (simp_all add: b_def T_def)
  have fr: "\<not> FRAG_PLAIN_SIZE < k + h1" using assms(6) kl(3) by simp
  have id: "frag_next_pkt_id c = (fst (frag_next_pkt_id c), c + 1)" by (simp add: frag_next_pkt_id_def)
  define i where "i = fst (frag_next_pkt_id c)"
  show ?thesis
    using assms(4,8,9) kl(4) sz(3) el(2) unfolding b_def [symmetric] T_def [symmetric] N_def [symmetric] frag_split_and_encrypt_l4_def Let_def
      i_def [symmetric]
    by (auto simp del: rdn_Some rd_Some rd_be16_Some not_less
        simp add: sz [unfolded T_def] ty ih th [unfolded T_def] rds [unfolded T_def] tm dr [unfolded T_def] fr h1_def [symmetric] id [folded i_def])
qed


text \<open>C3: the fragments of a layer 4 packet deliver the packet: \<open>frag_split_and_encrypt_l4\<close> cuts it into two
  encrypted pieces; a receiver with the same keys decrypts each, keeps the first in the table, and the second,
  if it comes within the timeout and whatever happened to other slots of the table in between, completes the
  packet: same Ethernet header, same transport bytes, an IP header with the right total length and checksum.\<close>

theorem l4_fragments_deliver_packet:
  assumes "evp_ok lib" "crypto_ready st ctx" "crypto_ready t ctx" "same_cipher st t"
    and "eth14_ipv4 e" "l4_hdr_ok h" "get_transport_hdr_size x 0 (h ! 9) (length x) = Some (int k)" "k < length x"
    and "m = k + (length x - k) div 2" "m \<le> FRAG_DATA_SIZE" "length x \<le> FRAG_JOIN_MAX"
    and "14 + length h + 4 + (g_nonce_size st + 2 + 4 + gcm_tag_len st) + m \<le> 2048" "2048 \<le> length f1" "2048 \<le> length f2"
    and "frag_table_ok ft" "now2 - now1 \<le> FRAG_TIMEOUT_NS" "14 + length h + length x \<le> length out"
  shows "\<exists>s b1 l1 b2 l2 n1 t1 p1 n2 t2 p2 ft1.
      frag_split_and_encrypt_l4 lib ctx c st (e @ h @ x @ r) (14 + length h + length x) (f1, o1) (f2, o2)
        = Some (0, c + 1, s, (b1, l1), (b2, l2)) \<and>
      crypto_layer4_decrypt_fragment lib ctx t b1 l1 0 0 = Some (int n1, t1, p1, fst (frag_next_pkt_id c), 0) \<and>
      crypto_layer4_decrypt_fragment lib ctx t1 b2 l2 0 0 = Some (int n2, t2, p2, fst (frag_next_pkt_id c), 1) \<and>
      frag_try_reassemble_l4 ft now1 p1 n1 (fst (frag_next_pkt_id c)) 0 out ol = Some (0, ft1, out, ol) \<and>
      (\<forall>ft2. ft2 ! frag_slot (fst (frag_next_pkt_id c)) = ft1 ! frag_slot (fst (frag_next_pkt_id c)) \<longrightarrow>
        (\<exists>ft3. frag_try_reassemble_l4 ft2 now2 p2 n2 (fst (frag_next_pkt_id c)) 1 out ol
          = Some (1, ft3, e @ patch_hdr h (of_nat (length h + length x)) @ x @ drop (14 + length h + length x) out,
              14 + length h + length x)))"
proof -
  define i where "i = fst (frag_next_pkt_id c)"
  define q4 where "q4 = take 4 x"
  have el: "length e = 14" "eth_ipv4 e" "20 \<le> length h" "length h \<le> 60"
    using assms(5,6) eth14_is_eth l4_hdr_ok_le by (simp_all add: eth14_ipv4_def l4_hdr_ok_def)
  have k: "8 \<le> k" "m < length x" "k \<le> m" "length x \<le> 4096" "m \<le> 1600" "length x - m \<le> m"
    using transport_hdr_min [OF assms(7)] assms(8-11) by (auto simp: FRAG_JOIN_MAX_def FRAG_DATA_SIZE_def)
  have q4: "length q4 = 4" "q4 @ drop 4 x = x" "take m x \<noteq> []" "drop m x \<noteq> []" using k by (auto simp: q4_def)
  have bd: "length h + length (take m x) < 2 ^ 29"
    "14 + length h + 4 + (g_nonce_size st + 2 + 4 + gcm_tag_len st) + length (take m x) \<le> 2048"
    "length h + length (drop m x) < 2 ^ 29"
    "14 + length h + 4 + (g_nonce_size st + 2 + 4 + gcm_tag_len st) + length (drop m x) \<le> 2048"
    using k el assms(12) by simp_all
  obtain s1 b1 l1 t1 r1 where A: "crypto_layer4_encrypt_fragment_single lib ctx st (e @ h @ x @ r) (h @ x @ r) (length h)
        (q4 @ drop 4 x @ r) (take m x) i 0 f1 2048 o1 = Some (0, s1, b1, l1)"
    "crypto_layer4_decrypt_fragment lib ctx t b1 l1 0 0 = Some (int (14 + length h + 4 + length (take m x)), t1,
        e @ patch_hdr h (of_nat (length h + (4 + length (take m x)))) @ q4 @ take m x @ r1, i, 0)"
    "crypto_ready s1 ctx" "same_cipher st s1" "crypto_ready t1 ctx" "same_cipher t t1"
    using l4_fragment_cycle [OF assms(1-4) el(1,2) assms(6) q4(1,3) bd(1) assms(13) bd(2),
        where ?z1.0 = "h @ x @ r" and ?z2.0 = "x @ r" and ?z3.0 = "drop 4 x @ r"] by blast
  have sc: "same_cipher s1 t1" using A(4,6) assms(4) by (simp add: same_cipher_def)
  note q = same_cipher_eqs [OF A(4)]
  obtain s2 b2 l2 t2 r2 where B: "crypto_layer4_encrypt_fragment_single lib ctx s1 (e @ h @ x @ r) (h @ x @ r) (length h)
        (q4 @ drop 4 x @ r) (drop m x) i 1 f2 2048 o2 = Some (0, s2, b2, l2)"
    "crypto_layer4_decrypt_fragment lib ctx t1 b2 l2 0 0 = Some (int (14 + length h + 4 + length (drop m x)), t2,
        e @ patch_hdr h (of_nat (length h + (4 + length (drop m x)))) @ q4 @ drop m x @ r2, i, 1)"
    using l4_fragment_cycle [OF assms(1) A(3,5) sc el(1,2) assms(6) q4(1,4) bd(3) assms(14) bd(4) [folded q],
        where ?z1.0 = "h @ x @ r" and ?z2.0 = "x @ r" and ?z3.0 = "drop 4 x @ r"] by blast
  have sp: "frag_split_and_encrypt_l4 lib ctx c st (e @ h @ x @ r) (14 + length h + length x) (f1, o1) (f2, o2)
        = Some (0, c + 1, s2, (b1, l1), (b2, l2))"
    by (rule l4_split_parts [OF assms(5-9)])
       (use A(1) B(1) q4(2) k el in \<open>simp_all add: i_def append_assoc [symmetric] FRAG_PLAIN_SIZE_def del: append_assoc\<close>)
  let ?H = "\<lambda>d. patch_hdr h (of_nat (length h + (4 + length d)))"
  let ?E = "pending (ft ! frag_slot i) i e (?H (take m x)) (h ! 9) (take m x) now1"
  have R1: "frag_try_reassemble_l4 ft now1 (e @ ?H (take m x) @ q4 @ take m x @ r1) (14 + length h + 4 + length (take m x)) i 0 out ol
      = Some (0, ft[frag_slot i := ?E], out, ol)"
    using l4_join_first [OF assms(15,5), of "?H (take m x)" q4 "take m x" now1 r1 i out ol] assms(6,10) q4(1) k
    by (simp add: patch_hdr_nth)
  have sl: "ft[frag_slot i := ?E] ! frag_slot i = ?E" using frag_slot_less [OF assms(15)] by simp
  have xl: "length (take m x) + length (drop m x) = length x" "take m x @ drop m x @ z = x @ z" for z
    using k by (simp_all add: append_assoc [symmetric] del: append_assoc)
  have R2: "frag_try_reassemble_l4 ft2 now2 (e @ ?H (drop m x) @ q4 @ drop m x @ r2) (14 + length h + 4 + length (drop m x)) i 1 out ol
      = Some (1, ft2[frag_slot i := (ft2 ! frag_slot i)\<lparr>fe_valid := False\<rparr>],
          e @ patch_hdr h (of_nat (length h + length x)) @ x @ drop (14 + length h + length x) out, 14 + length h + length x)"
    if "ft2 ! frag_slot i = ft[frag_slot i := ?E] ! frag_slot i" for ft2
    using l4_join_second [OF that [unfolded sl] frag_table_nth [OF assms(15)] assms(16) el(1), of "e" "?H (drop m x)" q4 "drop m x" out r2 ol]
      assms(5,6,10,11,17) q4(1) k el transport_take [OF assms(7) k(3)] xl
    by simp
  show ?thesis
    using sp A(2) B(2) R1 R2 unfolding i_def [symmetric] by blast
qed


lemma same_cipher_refl: "same_cipher s s"
  by (simp add: same_cipher_def)

lemma sample_udp_parts: "eth14_ipv4 sample_eth" "l4_hdr_ok (sample_iphdr[9 := 17])"
  by (simp_all add: eth14_ipv4_def sample_eth_def be16_of_def nth_append l4_hdr_ok_def)

theorem l4_fragments_deliver_packet_witness:
  "\<exists>s b1 l1 b2 l2 n1 t1 p1 n2 t2 p2 ft1.
      frag_split_and_encrypt_l4 toy_lib sample_ctx 5 (sample_crypto 1) (sample_eth @ sample_iphdr[9 := 17] @ replicate 100 3 @ [])
          (14 + length (sample_iphdr[9 := 17]) + length (replicate 100 (3 :: u8))) (replicate 2048 0, 0) (replicate 2048 0, 0)
        = Some (0, 5 + 1, s, (b1, l1), (b2, l2)) \<and>
      crypto_layer4_decrypt_fragment toy_lib sample_ctx (sample_crypto 1) b1 l1 0 0 = Some (int n1, t1, p1, fst (frag_next_pkt_id 5), 0) \<and>
      crypto_layer4_decrypt_fragment toy_lib sample_ctx t1 b2 l2 0 0 = Some (int n2, t2, p2, fst (frag_next_pkt_id 5), 1) \<and>
      frag_try_reassemble_l4 frag_table_init 7 p1 n1 (fst (frag_next_pkt_id 5)) 0 (replicate 2048 0) 0
        = Some (0, ft1, replicate 2048 0, 0) \<and>
      (\<forall>ft2. ft2 ! frag_slot (fst (frag_next_pkt_id 5)) = ft1 ! frag_slot (fst (frag_next_pkt_id 5)) \<longrightarrow>
        (\<exists>ft3. frag_try_reassemble_l4 ft2 9 p2 n2 (fst (frag_next_pkt_id 5)) 1 (replicate 2048 0) 0
          = Some (1, ft3, sample_eth @ patch_hdr (sample_iphdr[9 := 17]) (of_nat (length (sample_iphdr[9 := 17]) + length (replicate 100 (3 :: u8))))
              @ replicate 100 3 @ drop (14 + length (sample_iphdr[9 := 17]) + length (replicate 100 (3 :: u8))) (replicate 2048 0),
              14 + length (sample_iphdr[9 := 17]) + length (replicate 100 (3 :: u8)))))"
  by (rule l4_fragments_deliver_packet [OF toy_lib_ok sample_ready(1) sample_ready(1) same_cipher_refl, where k = 8 and m = 54])
     (simp_all add: frag_table_init_ok frag_consts sample_udp_parts get_transport_hdr_size_def
        sample_crypto_defs gcm_tag_len_def is_gcm_def policy_consts AES128_GCM_TAG_SIZE_def)

section \<open>Every sequence of table operations\<close>

text \<open>The tables that arise from \<open>frag_table_init\<close> by garbage collection and arrivals at the three layers.\<close>

inductive frag_reachable :: "frag_table \<Rightarrow> bool" where
  init: "frag_reachable frag_table_init"
| gc: "frag_reachable ft \<Longrightarrow> frag_reachable (frag_table_gc now ft)"
| l2: "frag_reachable ft \<Longrightarrow> frag_try_reassemble_l2 ft now pkt n i x out ol = Some (rc, ft', out', ol') \<Longrightarrow> frag_reachable ft'"
| l3: "frag_reachable ft \<Longrightarrow> frag_try_reassemble ft now pkt n i x out ol = Some (rc, ft', out', ol') \<Longrightarrow> frag_reachable ft'"
| l4: "frag_reachable ft \<Longrightarrow> frag_try_reassemble_l4 ft now pkt n i x out ol = Some (rc, ft', out', ol') \<Longrightarrow> frag_reachable ft'"

lemma frag_reachable_ok: "frag_reachable ft \<Longrightarrow> frag_table_ok ft"
proof (induction rule: frag_reachable.induct)
  case (l2 ft now pkt n i x out ol rc ft' out' ol')
  then show ?case using reassemble_l2_ok [of ft now pkt n i x out ol] by simp
next
  case (l3 ft now pkt n i x out ol rc ft' out' ol')
  then show ?case using reassemble_l3_ok [of ft now pkt n i x out ol] by simp
next
  case (l4 ft now pkt n i x out ol rc ft' out' ol')
  then show ?case using reassemble_l4_ok [of ft now pkt n i x out ol] by simp
qed (simp_all add: frag_table_init_ok frag_table_gc_ok)

text \<open>What a join that delivers a packet (return value 1) says about the table before and after.\<close>

definition joined :: "frag_table \<Rightarrow> 64 word \<Rightarrow> u16 \<Rightarrow> u8 \<Rightarrow> join_result \<Rightarrow> bool" where
  "joined ft now i x res = (fst res = 1 \<longrightarrow> x = 1 \<and> fe_valid (ft ! frag_slot i) \<and> fe_pkt_id (ft ! frag_slot i) = i
     \<and> \<not> frag_expired now (ft ! frag_slot i)
     \<and> fst (snd res) = ft[frag_slot i := (ft ! frag_slot i)\<lparr>fe_valid := False\<rparr>])"

lemma first_piece_None: "frag_first_piece e i now = None \<Longrightarrow> fe_valid e \<and> fe_pkt_id e = i \<and> \<not> frag_expired now e"
  by (auto simp: frag_first_piece_def split: if_splits)

lemma joined_all:
  "pred_option (joined ft now i x) (frag_try_reassemble ft now pkt n i x out ol)"
  "pred_option (joined ft now i x) (frag_try_reassemble_l2 ft now pkt n i x out ol)"
  "pred_option (joined ft now i x) (frag_try_reassemble_l4 ft now pkt n i x out ol)"
  unfolding frag_try_reassemble_def frag_try_reassemble_l2_def frag_try_reassemble_l4_def Let_def
  by (intro pred_steps; auto simp: joined_def dest: first_piece_None)+

text \<open>C4: safety of reassembly over every history of the table: each of the three handlers keeps the entries
  within their arrays, a packet is delivered (return value 1) only when a second piece meets a first piece
  of the same packet id that is valid and not timed out, and the delivery empties the slot, so the same
  second piece cannot deliver again.\<close>

theorem reassembly_safe:
  assumes "frag_reachable ft"
    and "frag_try_reassemble ft now pkt n i x out ol = Some (rc, ft', out', ol')
       \<or> frag_try_reassemble_l2 ft now pkt n i x out ol = Some (rc, ft', out', ol')
       \<or> frag_try_reassemble_l4 ft now pkt n i x out ol = Some (rc, ft', out', ol')"
  shows "frag_reachable ft' \<and> frag_table_ok ft' \<and>
    (rc = 1 \<longrightarrow> x = 1 \<and> fe_valid (ft ! frag_slot i) \<and> fe_pkt_id (ft ! frag_slot i) = i \<and>
       now - fe_timestamp (ft ! frag_slot i) \<le> FRAG_TIMEOUT_NS \<and> \<not> fe_valid (ft' ! frag_slot i))"
proof -
  have r: "frag_reachable ft'" using assms frag_reachable.intros by metis
  have j: "joined ft now i x (rc, ft', out', ol')"
    using assms(2) joined_all [of ft now i x pkt n out ol] by auto
  show ?thesis using r j frag_reachable_ok [OF r] frag_slot_less [OF frag_reachable_ok [OF assms(1)]]
    by (auto simp: joined_def frag_expired_def)
qed


theorem reassembly_safe_witness:
  "\<exists>ft' out' ol'. frag_try_reassemble_l4 frag_table_init 0 (sample_eth @ sample_iphdr @ [0, 80, 1, 187] @ [1, 2, 3] @ [])
      (14 + length sample_iphdr + 4 + length [1, 2, 3 :: u8]) 9 0 [] 0 = Some (0, ft', out', ol') \<and> frag_reachable ft' \<and> frag_table_ok ft'"
proof -
  have "frag_try_reassemble_l4 frag_table_init 0 (sample_eth @ sample_iphdr @ [0, 80, 1, 187] @ [1, 2, 3] @ [])
      (14 + length sample_iphdr + 4 + length [1, 2, 3 :: u8]) 9 0 [] 0 =
    Some (0, frag_table_init[frag_slot 9 := pending (frag_table_init ! frag_slot 9) 9 sample_eth sample_iphdr (sample_iphdr ! 9) [1, 2, 3] 0], [], 0)"
    by (rule l4_join_first) (simp_all add: frag_table_init_ok sample_udp_parts frag_consts)
  then show ?thesis using reassembly_safe [OF frag_reachable.init] by metis
qed

section \<open>The protocol guessed at layer 3\<close>

text \<open>The first piece of a layer 3 datagram carries no protocol (its header shows the fake one), and
  \<open>frag_try_reassemble\<close> guesses it from the decrypted bytes, TCP first: a UDP datagram whose byte 12 (the
  fifth payload byte) reads as a data offset that fits is stored, and later delivered, as TCP.\<close>

lemma l3_reassembly_guesses_tcp:
  assumes "frag_table_ok ft" "eth14_ipv4 e" "l3_hdr_ok h" "length d \<le> FRAG_DATA_SIZE"
    and "20 \<le> length d" "5 \<le> unat (drop_bit 4 (d ! 12))" "unat (drop_bit 4 (d ! 12)) * 4 \<le> length d"
  shows "frag_try_reassemble ft now (e @ h @ d @ r) (14 + length h + length d) i 0 out ol =
    Some (0, ft[frag_slot i := pending (ft ! frag_slot i) i e h 6 d now], out, ol)"
proof -
  define b where "b = e @ h @ d @ r"
  have el: "length e = 14" "20 \<le> length h" "length h \<le> 60"
    using assms(2,3) ihl_bytes [of "h ! 0"] by (simp_all add: eth14_ipv4_def l3_hdr_ok_def)
  have ih: "ip_ihl b 14 = Some (length h)" unfolding b_def by (rule ip_ihl_parts [OF assms(3) el(1)])
  have ty: "rd_be16 b 12 = Some 0x0800" unfolding b_def by (rule rd_be16_type [OF assms(2)])
  have rq: "frag_require_ipv4 b (14 + length h + length d) = Some (Some (length h))"
    using el assms(5) by (simp add: frag_require_ipv4_def ty ih del: rd_be16_Some)
  have th: "get_transport_hdr_size b (14 + length h) 6 (length d) = Some (int (unat (drop_bit 4 (d ! 12)) * 4))"
    using transport_shift [of "14 + length h" "e @ h" d r 6] el assms(5-7) by (simp add: b_def get_transport_hdr_size_def)
  have tu: "get_transport_hdr_size b (14 + length h) 17 (length d) = Some 8"
    using assms(5) by (simp add: get_transport_hdr_size_def)
  have sp: "frag_store_pending (ft ! frag_slot i) i b 14 (length h) 6 (14 + length h) (length d) now
      = Some (0, pending (ft ! frag_slot i) i e h 6 d now)"
    using store_pending_parts [of "ft ! frag_slot i" e h d "14 + length h" "[]" i r 6 now] frag_table_nth [OF assms(1)] el assms(4)
    by (simp add: b_def)
  show ?thesis
    unfolding b_def [symmetric] frag_try_reassemble_def Let_def
    by (simp add: rq th tu sp del: of_nat_mult)
qed

end
