(* ===== verification/BucketMap.thy ===== *)
theory BucketMap
  imports Prelude
begin

text \<open>
  Chained hash tables, as \<open>flow_table.c\<close> and the TCP policy pins of \<open>forwarder.c\<close> build them: an array of
  singly linked lists, searched from the head, extended at the head. A table is a function from the bucket
  number to the list. The locale \<open>keyed_store\<close> is the contract of a store addressed by key; the pins and the
  ARP cache provide it.
\<close>

type_synonym 'e buckets = "nat \<Rightarrow> 'e list"

text \<open>\<open>while (e) { if (P(e)) { f(e); break; } e = e->next; }\<close>\<close>

fun chain_update :: "('e \<Rightarrow> bool) \<Rightarrow> ('e \<Rightarrow> 'e) \<Rightarrow> 'e list \<Rightarrow> 'e list" where
  "chain_update P f [] = []"
| "chain_update P f (e # es) = (if P e then f e # es else e # chain_update P f es)"

text \<open>\<open>while (*pp) { if (P(*pp)) { unlink; break; } pp = &(*pp)->next; }\<close>\<close>

fun chain_remove :: "('e \<Rightarrow> bool) \<Rightarrow> 'e list \<Rightarrow> 'e list" where
  "chain_remove P [] = []"
| "chain_remove P (e # es) = (if P e then es else e # chain_remove P es)"

lemma find_Some_iff_mem: "List.find P es = Some e \<Longrightarrow> e \<in> set es \<and> P e"
  by (induction es) (auto split: if_splits)

lemma find_chain_update:
  assumes "\<And>e. P e \<Longrightarrow> P (f e)"
  shows "List.find P (chain_update P f es) = map_option f (List.find P es)"
  using assms by (induction es) auto

lemma find_chain_update_other:
  assumes "\<And>e. P e \<Longrightarrow> \<not> Q e \<and> \<not> Q (f e)"
  shows "List.find Q (chain_update P f es) = List.find Q es"
  using assms by (induction es) auto

lemma find_chain_remove_other:
  assumes "\<And>e. P e \<Longrightarrow> \<not> Q e"
  shows "List.find Q (chain_remove P es) = List.find Q es"
  using assms by (induction es) auto

lemma set_chain_update: "e \<in> set (chain_update P f es) \<Longrightarrow> e \<in> set es \<or> (\<exists>d \<in> set es. P d \<and> e = f d)"
  by (induction es) (auto split: if_splits)

lemma set_chain_remove: "set (chain_remove P es) \<subseteq> set es"
  by (induction es) auto

lemma chain_update_none: "List.find P es = None \<Longrightarrow> chain_update P f es = es"
  by (induction es) (auto split: if_splits)

text \<open>Chains whose entries have different keys.\<close>

lemma map_chain_update: "(\<And>e. P e \<Longrightarrow> k (f e) = k e) \<Longrightarrow> map k (chain_update P f es) = map k es"
  by (induction es) auto

lemma distinct_chain_remove: "distinct (map k es) \<Longrightarrow> distinct (map k (chain_remove P es))"
  by (induction es) (auto dest: subsetD [OF set_chain_remove])

lemma find_chain_remove_same:
  assumes "distinct (map k es)" "\<And>e. P e \<longleftrightarrow> k e = x"
  shows "List.find P (chain_remove P es) = None"
  using assms(1)
proof (induction es)
  case (Cons e es)
  then show ?case using assms(2) by (auto simp: find_None_iff image_iff)
qed simp

section \<open>A store addressed by key\<close>

text \<open>\<open>get\<close> finds the value of a key, \<open>put\<close> inserts or replaces it when there is \<open>room\<close> for it, and one key's
  operations do not disturb the others.\<close>

locale keyed_store =
  fixes inv :: "'s \<Rightarrow> bool"
    and room :: "'s \<Rightarrow> 'k \<Rightarrow> bool"
    and get :: "'s \<Rightarrow> 'k \<Rightarrow> 'v option"
    and put :: "'s \<Rightarrow> 'k \<Rightarrow> 'v \<Rightarrow> 's"
  assumes put_inv: "inv s \<Longrightarrow> inv (put s k v)"
    and get_put_same: "inv s \<Longrightarrow> room s k \<Longrightarrow> get (put s k v) k = Some v"
    and get_put_other: "inv s \<Longrightarrow> k' \<noteq> k \<Longrightarrow> get (put s k v) k' = get s k'"
    and get_put_full: "inv s \<Longrightarrow> \<not> room s k \<Longrightarrow> get (put s k v) k = get s k"
begin

text \<open>A run of insertions.\<close>

definition puts :: "'s \<Rightarrow> ('k \<times> 'v) list \<Rightarrow> 's" where
  "puts s kvs = foldl (\<lambda>s kv. put s (fst kv) (snd kv)) s kvs"

lemma puts_simps: "puts s [] = s" "puts s (kv # kvs) = puts (put s (fst kv) (snd kv)) kvs"
  by (simp_all add: puts_def)

lemma puts_inv: "inv s \<Longrightarrow> inv (puts s kvs)"
  by (induction kvs arbitrary: s) (simp_all add: puts_simps put_inv)

lemma get_puts_other: "inv s \<Longrightarrow> k \<notin> fst ` set kvs \<Longrightarrow> get (puts s kvs) k = get s k"
  by (induction kvs arbitrary: s) (auto simp: puts_simps put_inv get_put_other)

text \<open>The last value put for a key is the one found, whatever is put for other keys afterwards.\<close>

lemma get_last_put:
  assumes "inv s" "room (puts s before) k" "k \<notin> fst ` set after"
  shows "get (puts s (before @ (k, v) # after)) k = Some v"
proof -
  have "puts s (before @ (k, v) # after) = puts (put (puts s before) k v) after"
    by (simp add: puts_def)
  then show ?thesis
    using assms by (simp add: get_puts_other put_inv puts_inv get_put_same)
qed

lemma get_put: "inv s \<Longrightarrow> get (put s k v) k' = (if k' = k \<and> room s k then Some v else get s k')"
  by (cases "k' = k"; cases "room s k") (simp_all add: get_put_same get_put_other get_put_full)

end

text \<open>Stores that also delete.\<close>

locale deleting_store = keyed_store inv room get put
  for inv :: "'s \<Rightarrow> bool" and room :: "'s \<Rightarrow> 'k \<Rightarrow> bool" and get :: "'s \<Rightarrow> 'k \<Rightarrow> 'v option"
    and put :: "'s \<Rightarrow> 'k \<Rightarrow> 'v \<Rightarrow> 's" +
  fixes del :: "'s \<Rightarrow> 'k \<Rightarrow> 's"
  assumes del_inv: "inv s \<Longrightarrow> inv (del s k)"
    and get_del_same: "inv s \<Longrightarrow> get (del s k) k = None"
    and get_del_other: "inv s \<Longrightarrow> k' \<noteq> k \<Longrightarrow> get (del s k) k' = get s k'"
begin

lemma get_put_del: "inv s \<Longrightarrow> get (del (put s k v) k) k' = (if k' = k then None else get s k')"
  by (simp add: get_del_same get_del_other put_inv get_put_other)

lemma del_then_put: "inv s \<Longrightarrow> room (del s k) k \<Longrightarrow> get (put (del s k) k v) k = Some v"
  by (simp add: del_inv get_put_same)

end

end
