(* ===== verification/FlowTable.thy ===== *)
theory FlowTable
  imports BucketMap Config
begin

text \<open>
  \<open>inc/core/flow_table.h\<close> and \<open>src/core/flow_table.c\<close>: the choice of the WAN for a packet. Flows are kept in
  a chained hash table (a function from the bucket number to the chain); the global sequence number of the
  per-packet round robin and the counter \<open>next_wan\<close> are explicit arguments and results. The clock
  is the parameter \<open>now\<close>; \<open>alloc\<close> says whether \<open>malloc\<close> succeeds. Each operation holds the lock of the
  one bucket it works on, so it is one step.
\<close>

definition FLOW_TABLE_SIZE :: nat where "FLOW_TABLE_SIZE = 16384"
definition FLOW_TIMEOUT_SEC :: "64 word" where "FLOW_TIMEOUT_SEC = 60"

record flow_key =
  fk_src_ip :: u32
  fk_dst_ip :: u32
  fk_src_port :: u16
  fk_dst_port :: u16
  fk_protocol :: u8

record flow_entry =
  fl_key :: flow_key
  fl_byte_count :: u32
  fl_current_wan :: int
  fl_wrr_slot :: int
  fl_last_seen :: "64 word"
  fl_ip_only_key :: bool
  fl_profile_wan_pool :: bool

record flow_table =
  ft_buckets :: "flow_entry buckets"
  ft_wan_count :: int
  ft_windows :: "u32 list"

text \<open>Endpoints in host byte order, smaller first, so both directions of a flow have one key.\<close>

definition normalize_flow_5tuple :: "u32 \<Rightarrow> u32 \<Rightarrow> u16 \<Rightarrow> u16 \<Rightarrow> u32 \<times> u32 \<times> u16 \<times> u16" where
  "normalize_flow_5tuple src_ip dst_ip src_port dst_port =
     (let a = htonl src_ip; b = htonl dst_ip in
      if a > b \<or> (a = b \<and> src_port > dst_port) then (dst_ip, src_ip, dst_port, src_port)
      else (src_ip, dst_ip, src_port, dst_port))"

definition normalize_flow_ips :: "u32 \<Rightarrow> u32 \<Rightarrow> u32 \<times> u32" where
  "normalize_flow_ips src_ip dst_ip = (if htonl src_ip > htonl dst_ip then (dst_ip, src_ip) else (src_ip, dst_ip))"

definition mix_hash :: "u32 \<Rightarrow> nat" where
  "mix_hash h = (let h = h XOR drop_bit 16 h; h = h * 0x85ebca6b; h = h XOR drop_bit 13 h;
                     h = h * 0xc2b2ae35; h = h XOR drop_bit 16 h
                 in unat h mod FLOW_TABLE_SIZE)"

definition flow_hash :: "u32 \<Rightarrow> u32 \<Rightarrow> u16 \<Rightarrow> u16 \<Rightarrow> u8 \<Rightarrow> nat" where
  "flow_hash src_ip dst_ip src_port dst_port protocol =
     mix_hash ((src_ip XOR dst_ip) XOR (push_bit 16 (ucast src_port) OR ucast dst_port) XOR ucast protocol)"

definition flow_hash_ips :: "u32 \<Rightarrow> u32 \<Rightarrow> nat" where
  "flow_hash_ips src_ip dst_ip = mix_hash (src_ip XOR dst_ip)"

text \<open>\<open>flow_table_init\<close> also resets the sequence number of the round robin, which is its second result.\<close>

definition flow_table_init :: "u32 list option \<Rightarrow> int \<Rightarrow> flow_table \<times> 64 word" where
  "flow_table_init windows wan_count =
     (\<lparr> ft_buckets = (\<lambda>_. []), ft_wan_count = wan_count,
        ft_windows = (case windows of Some ws \<Rightarrow> take MAX_INTERFACES ws | None \<Rightarrow> replicate MAX_INTERFACES 0) \<rparr>, 0)"

definition flow_table_cleanup :: "flow_table \<Rightarrow> flow_table" where
  "flow_table_cleanup ft = ft\<lparr> ft_buckets := (\<lambda>_. []) \<rparr>"

text \<open>The round-robin counter is a signed \<open>int\<close> that wraps; the remainder is C's (sign of the dividend).\<close>

definition c_rem :: "int \<Rightarrow> int \<Rightarrow> int" where
  "c_rem a b = (if a < 0 then - ((- a) mod \<bar>b\<bar>) else a mod \<bar>b\<bar>)"

definition get_next_wan :: "32 word \<Rightarrow> int \<Rightarrow> int \<times> 32 word" where
  "get_next_wan next_wan wan_count =
     (if wan_count \<le> 0 then (0, next_wan)
      else let wan = sint next_wan; wan = (if wan < 0 then c_int (- wan) else wan)
           in (c_rem wan wan_count, next_wan + 1))"

definition wan_limit :: "flow_table \<Rightarrow> int \<Rightarrow> u32" where
  "wan_limit ft wan = (if 0 \<le> wan \<and> wan < ft_wan_count ft then ft_windows ft ! nat wan else 0)"

definition next_window :: "flow_table \<Rightarrow> flow_entry \<Rightarrow> flow_entry" where
  "next_window ft e =
     (let cur_limit = wan_limit ft (fl_current_wan e) in
      if cur_limit > 0 \<and> fl_byte_count e \<ge> cur_limit
      then e\<lparr> fl_byte_count := 0, fl_current_wan := c_rem (fl_current_wan e + 1) (ft_wan_count ft) \<rparr> else e)"

definition ip_match :: "u32 \<Rightarrow> u32 \<Rightarrow> flow_entry \<Rightarrow> bool" where
  "ip_match src_ip dst_ip e = (fl_ip_only_key e \<and> fk_src_ip (fl_key e) = src_ip \<and> fk_dst_ip (fl_key e) = dst_ip)"

definition flow_table_get_wan ::
  "bool \<Rightarrow> flow_table \<Rightarrow> 32 word \<Rightarrow> 64 word \<Rightarrow> u32 \<Rightarrow> u32 \<Rightarrow> u16 \<Rightarrow> u16 \<Rightarrow> u8 \<Rightarrow> u32 \<Rightarrow> int \<times> flow_table \<times> 32 word" where
  "flow_table_get_wan alloc ft next_wan now src_ip dst_ip src_port dst_port protocol pkt_len =
     (let (src_ip, dst_ip) = normalize_flow_ips src_ip dst_ip;
          idx = flow_hash_ips src_ip dst_ip;
          chain = ft_buckets ft idx;
          hit = (\<lambda>e. next_window ft (e\<lparr> fl_last_seen := now, fl_byte_count := fl_byte_count e + pkt_len \<rparr>))
      in case List.find (ip_match src_ip dst_ip) chain of
           Some e \<Rightarrow> (fl_current_wan (hit e),
                      ft\<lparr> ft_buckets := (ft_buckets ft)(idx := chain_update (ip_match src_ip dst_ip) hit chain) \<rparr>, next_wan)
         | None \<Rightarrow>
             if \<not> alloc then (0, ft, next_wan)
             else let (wan, next_wan) = get_next_wan next_wan (ft_wan_count ft);
                      e = \<lparr> fl_key = \<lparr> fk_src_ip = src_ip, fk_dst_ip = dst_ip, fk_src_port = src_port,
                                       fk_dst_port = dst_port, fk_protocol = protocol \<rparr>,
                            fl_byte_count = pkt_len, fl_current_wan = wan, fl_wrr_slot = 0, fl_last_seen = now,
                            fl_ip_only_key = True, fl_profile_wan_pool = False \<rparr>
                  in (wan, ft\<lparr> ft_buckets := (ft_buckets ft)(idx := e # chain) \<rparr>, next_wan))"

text \<open>The helpers of the weighted choice. A missing weight array is \<open>None\<close>.\<close>

definition wan_allowed_pos :: "int \<Rightarrow> int list \<Rightarrow> int" where
  "wan_allowed_pos wan allowed = first_index (\<lambda>w. w = wan) 0 allowed"

definition weights_sum_positive :: "int list option \<Rightarrow> int" where
  "weights_sum_positive ws = (case ws of None \<Rightarrow> 0 | Some ws \<Rightarrow> sum_positive 0 ws)"

fun wrr_scan :: "int \<Rightarrow> int \<Rightarrow> (int \<times> int) list \<Rightarrow> int option" where
  "wrr_scan acc s [] = None"
| "wrr_scan acc s ((wan, w) # ss) =
     (if w \<le> 0 then wrr_scan acc s ss
      else if s < acc + w then Some wan
      else wrr_scan (acc + w) s ss)"

definition wrr_slot_to_wan :: "int \<Rightarrow> int list \<Rightarrow> int list option \<Rightarrow> int \<Rightarrow> int" where
  "wrr_slot_to_wan slot allowed ws sumw =
     (case ws of None \<Rightarrow> hd allowed
      | Some weights \<Rightarrow>
          if allowed = [] \<or> sumw \<le> 0 then hd allowed
          else let s = c_rem (c_rem slot sumw + sumw) sumw in
            case wrr_scan 0 s (zip allowed weights) of Some wan \<Rightarrow> wan | None \<Rightarrow> last allowed)"

definition flow_table_pick_wan_per_packet :: "64 word \<Rightarrow> int list \<Rightarrow> int list option \<Rightarrow> int \<times> 64 word" where
  "flow_table_pick_wan_per_packet seq allowed ws =
     (if allowed = [] then (0, seq)
      else if length allowed = 1 then (hd allowed, seq)
      else let sumw = weights_sum_positive ws; n = uint seq in
        (if sumw > 0 \<and> ws \<noteq> None
         then wrr_slot_to_wan (n mod sumw) allowed ws sumw
         else allowed ! nat (n mod int (length allowed)), seq + 1))"

definition flow_match :: "u32 \<Rightarrow> u32 \<Rightarrow> u16 \<Rightarrow> u16 \<Rightarrow> u8 \<Rightarrow> flow_entry \<Rightarrow> bool" where
  "flow_match src_ip dst_ip src_port dst_port protocol e =
     (\<not> fl_ip_only_key e \<and> fl_key e = \<lparr> fk_src_ip = src_ip, fk_dst_ip = dst_ip, fk_src_port = src_port,
                                       fk_dst_port = dst_port, fk_protocol = protocol \<rparr>)"

definition profile_hit :: "flow_table \<Rightarrow> 64 word \<Rightarrow> u32 \<Rightarrow> int list \<Rightarrow> int list option \<Rightarrow> flow_entry \<Rightarrow> flow_entry" where
  "profile_hit ft now pkt_len allowed ws e =
     (let e = (if wan_allowed_pos (fl_current_wan e) allowed < 0
               then e\<lparr> fl_current_wan := hd allowed, fl_byte_count := 0, fl_wrr_slot := 0 \<rparr> else e);
          e = e\<lparr> fl_last_seen := now, fl_byte_count := fl_byte_count e + pkt_len \<rparr>;
          cur_limit = wan_limit ft (fl_current_wan e);
          sumw = weights_sum_positive ws
      in if cur_limit > 0 \<and> fl_byte_count e \<ge> cur_limit then
           (if sumw > 0 \<and> ws \<noteq> None then
              let slot = c_rem (fl_wrr_slot e + 1) sumw in
              e\<lparr> fl_byte_count := 0, fl_wrr_slot := slot, fl_current_wan := wrr_slot_to_wan slot allowed ws sumw \<rparr>
            else
              let pos = wan_allowed_pos (fl_current_wan e) allowed; pos = (if pos < 0 then 0 else pos) in
              e\<lparr> fl_byte_count := 0, fl_current_wan := allowed ! nat ((pos + 1) mod int (length allowed)) \<rparr>)
         else e)"

definition flow_table_get_wan_profile ::
  "bool \<Rightarrow> flow_table \<Rightarrow> 32 word \<Rightarrow> 64 word \<Rightarrow> u32 \<Rightarrow> u32 \<Rightarrow> u16 \<Rightarrow> u16 \<Rightarrow> u8 \<Rightarrow> u32 \<Rightarrow> int list \<Rightarrow> int list option
     \<Rightarrow> int \<times> flow_table \<times> 32 word" where
  "flow_table_get_wan_profile alloc ft next_wan now src_ip dst_ip src_port dst_port protocol pkt_len allowed ws =
     (if allowed = [] then flow_table_get_wan alloc ft next_wan now src_ip dst_ip src_port dst_port protocol pkt_len
      else if length allowed = 1 then (hd allowed, ft, next_wan)
      else let (src_ip, dst_ip, src_port, dst_port) = normalize_flow_5tuple src_ip dst_ip src_port dst_port;
               idx = flow_hash src_ip dst_ip src_port dst_port protocol;
               chain = ft_buckets ft idx;
               this = (\<lambda>e. fl_profile_wan_pool e \<and> flow_match src_ip dst_ip src_port dst_port protocol e);
               hit = profile_hit ft now pkt_len allowed ws
           in case List.find this chain of
                Some e \<Rightarrow> (fl_current_wan (hit e), ft\<lparr> ft_buckets := (ft_buckets ft)(idx := chain_update this hit chain) \<rparr>, next_wan)
              | None \<Rightarrow>
                  if \<not> alloc then (0, ft, next_wan)
                  else let sumw = weights_sum_positive ws;
                           (slot, wan, next_wan) =
                             (if sumw > 0 \<and> ws \<noteq> None then
                                let slot = int idx mod sumw in (slot, wrr_slot_to_wan slot allowed ws sumw, next_wan)
                              else let (pick, next_wan) = get_next_wan next_wan (int (length allowed));
                                       pick = (if pick < 0 then 0 else pick)
                                   in (0, allowed ! nat (pick mod int (length allowed)), next_wan));
                           e = \<lparr> fl_key = \<lparr> fk_src_ip = src_ip, fk_dst_ip = dst_ip, fk_src_port = src_port,
                                            fk_dst_port = dst_port, fk_protocol = protocol \<rparr>,
                                 fl_byte_count = pkt_len, fl_current_wan = wan, fl_wrr_slot = slot, fl_last_seen = now,
                                 fl_ip_only_key = False, fl_profile_wan_pool = True \<rparr>
                       in (wan, ft\<lparr> ft_buckets := (ft_buckets ft)(idx := e # chain) \<rparr>, next_wan))"

definition add_to :: "u32 \<Rightarrow> flow_entry \<Rightarrow> flow_entry" where
  "add_to extra e = e\<lparr> fl_byte_count := fl_byte_count e + extra \<rparr>"

definition add_exact :: "flow_table \<Rightarrow> u32 \<Rightarrow> flow_entry \<Rightarrow> flow_entry" where
  "add_exact ft extra e = (let e = add_to extra e in if fl_profile_wan_pool e then e else next_window ft e)"

text \<open>When both keys fall into one bucket, one walk over the chain updates the address entries it meets until
  it has updated the flow's own entry.\<close>

fun add_both :: "(flow_entry \<Rightarrow> bool) \<Rightarrow> (flow_entry \<Rightarrow> bool) \<Rightarrow> (flow_entry \<Rightarrow> flow_entry) \<Rightarrow> (flow_entry \<Rightarrow> flow_entry)
    \<Rightarrow> flow_entry list \<Rightarrow> flow_entry list" where
  "add_both ip exact f g [] = []"
| "add_both ip exact f g (e # es) =
     (if ip e then f e # add_both ip exact f g es
      else if exact e then g e # es
      else e # add_both ip exact f g es)"

definition flow_table_add_bytes :: "flow_table \<Rightarrow> u32 \<Rightarrow> u32 \<Rightarrow> u16 \<Rightarrow> u16 \<Rightarrow> u8 \<Rightarrow> u32 \<Rightarrow> flow_table" where
  "flow_table_add_bytes ft src_ip dst_ip src_port dst_port protocol extra =
     (let (src_ip, dst_ip, src_port, dst_port) = normalize_flow_5tuple src_ip dst_ip src_port dst_port;
          idx_exact = flow_hash src_ip dst_ip src_port dst_port protocol;
          idx_ip = flow_hash_ips src_ip dst_ip;
          ip = ip_match src_ip dst_ip;
          exact = flow_match src_ip dst_ip src_port dst_port protocol;
          bs = ft_buckets ft
      in if idx_exact = idx_ip
         then ft\<lparr> ft_buckets := bs(idx_exact := add_both ip exact (add_to extra) (add_exact ft extra) (bs idx_exact)) \<rparr>
         else let bs = bs(idx_exact := chain_update exact (add_exact ft extra) (bs idx_exact));
                  bs = bs(idx_ip := chain_update ip (add_to extra) (bs idx_ip))
              in ft\<lparr> ft_buckets := bs \<rparr>)"

definition flow_table_gc :: "64 word \<Rightarrow> flow_table \<Rightarrow> flow_table" where
  "flow_table_gc now ft =
     ft\<lparr> ft_buckets := (\<lambda>i. filter (\<lambda>e. \<not> (now - fl_last_seen e > FLOW_TIMEOUT_SEC)) (ft_buckets ft i)) \<rparr>"

section \<open>Facts about the choice\<close>

lemma normalize_ips_sym: "normalize_flow_ips a b = normalize_flow_ips b a"
  by (auto simp: normalize_flow_ips_def)

lemma normalize_5tuple_sym: "normalize_flow_5tuple a b p q = normalize_flow_5tuple b a q p"
  by (auto simp: normalize_flow_5tuple_def Let_def)

lemma c_rem_mod: "0 \<le> a \<Longrightarrow> 0 < b \<Longrightarrow> c_rem a b = a mod b"
  by (simp add: c_rem_def)

lemma c_rem_bounds: "0 \<le> a \<Longrightarrow> 0 < b \<Longrightarrow> 0 \<le> c_rem a b \<and> c_rem a b < b"
  by (simp add: c_rem_def)

lemma sint32_bounds: "- (2 ^ 31) \<le> sint (w :: 32 word)" "sint (w :: 32 word) < 2 ^ 31"
  using sint_ge [of w] sint_lt [of w] by simp_all

lemma get_next_wan_bounds:
  assumes "0 < n" "sint w \<noteq> - (2 ^ 31)"
  shows "0 \<le> fst (get_next_wan w n) \<and> fst (get_next_wan w n) < n"
proof -
  have "- (2 ^ 31) < sint w" using assms(2) sint32_bounds(1) [of w] by linarith
  then have "0 \<le> (if sint w < 0 then c_int (- sint w) else sint w)" using sint32_bounds(2) [of w] by simp
  then show ?thesis using assms(1) c_rem_bounds by (simp add: get_next_wan_def Let_def)
qed

text \<open>All WAN numbers in the table are in range, and the window array covers them.\<close>

definition flow_table_ok :: "flow_table \<Rightarrow> bool" where
  "flow_table_ok ft = (0 < ft_wan_count ft \<and> ft_wan_count ft \<le> int (length (ft_windows ft)) \<and>
     (\<forall>i. \<forall>e \<in> set (ft_buckets ft i). fl_ip_only_key e \<longrightarrow> 0 \<le> fl_current_wan e \<and> fl_current_wan e < ft_wan_count ft))"

lemma next_window_bounds:
  assumes "0 < ft_wan_count ft" "0 \<le> fl_current_wan e" "fl_current_wan e < ft_wan_count ft"
  shows "0 \<le> fl_current_wan (next_window ft e) \<and> fl_current_wan (next_window ft e) < ft_wan_count ft"
  using assms c_rem_bounds [of "fl_current_wan e + 1" "ft_wan_count ft"] by (simp add: next_window_def Let_def)

lemma next_window_ip [simp]:
  "fl_ip_only_key (next_window ft e) = fl_ip_only_key e" "fl_key (next_window ft e) = fl_key e"
  "fl_last_seen (next_window ft e) = fl_last_seen e" "fl_profile_wan_pool (next_window ft e) = fl_profile_wan_pool e"
  by (simp_all add: next_window_def Let_def)

lemma ip_match_upd [simp]: "ip_match a b (e\<lparr>fl_byte_count := x\<rparr>) = ip_match a b e" "ip_match a b (e\<lparr>fl_last_seen := y\<rparr>) = ip_match a b e"
  "ip_match a b (next_window ft e) = ip_match a b e"
  by (simp_all add: ip_match_def)

lemma flow_table_ok_upd:
  assumes "flow_table_ok ft" "\<And>e. e \<in> set c \<Longrightarrow> fl_ip_only_key e \<Longrightarrow> 0 \<le> fl_current_wan e \<and> fl_current_wan e < ft_wan_count ft"
  shows "flow_table_ok (ft\<lparr>ft_buckets := (ft_buckets ft)(i := c)\<rparr>)"
  using assms by (auto simp: flow_table_ok_def)

lemma chain_ok: "flow_table_ok ft \<Longrightarrow> e \<in> set (ft_buckets ft i) \<Longrightarrow> fl_ip_only_key e \<Longrightarrow>
    0 \<le> fl_current_wan e \<and> fl_current_wan e < ft_wan_count ft"
  by (simp add: flow_table_ok_def)

lemmas chain_bounds = chain_ok [THEN conjunct1] chain_ok [THEN conjunct2]

lemma get_wan_range:
  assumes "flow_table_ok ft" "sint nw \<noteq> - (2 ^ 31)" "flow_table_get_wan alloc ft nw now a b p q pr len = (w, ft', nw')"
  shows "0 \<le> w \<and> w < ft_wan_count ft \<and> flow_table_ok ft' \<and> ft_wan_count ft' = ft_wan_count ft"
proof -
  obtain x y where xy: "normalize_flow_ips a b = (x, y)" by fastforce
  have n: "0 < ft_wan_count ft" using assms(1) by (simp add: flow_table_ok_def)
  let ?i = "flow_hash_ips x y"
  let ?hit = "\<lambda>e. next_window ft (e\<lparr>fl_last_seen := now, fl_byte_count := fl_byte_count e + len\<rparr>)"
  have hit: "0 \<le> fl_current_wan (?hit e) \<and> fl_current_wan (?hit e) < ft_wan_count ft"
    if "e \<in> set (ft_buckets ft ?i)" "fl_ip_only_key e" for e
    using chain_ok [OF assms(1) that] n by (intro next_window_bounds) simp_all
  show ?thesis
  proof (cases "List.find (ip_match x y) (ft_buckets ft ?i)")
    case None
    obtain g h where g: "get_next_wan nw (ft_wan_count ft) = (g, h)" by fastforce
    show ?thesis
      using assms(3) xy None g n get_next_wan_bounds [OF n assms(2)] assms(1) chain_ok [OF assms(1)]
      by (auto simp: flow_table_get_wan_def Let_def split: if_splits intro!: flow_table_ok_upd)
  next
    case (Some e)
    then have e: "e \<in> set (ft_buckets ft ?i)" "fl_ip_only_key e" by (auto dest!: find_Some_iff_mem simp: ip_match_def)
    have "flow_table_ok (ft\<lparr>ft_buckets := (ft_buckets ft)(?i := chain_update (ip_match x y) ?hit (ft_buckets ft ?i))\<rparr>)"
      by (rule flow_table_ok_upd [OF assms(1)])
         (auto dest!: set_chain_update intro: chain_bounds [OF assms(1)] hit [THEN conjunct1] hit [THEN conjunct2] simp: ip_match_def)
    then show ?thesis using assms(3) xy Some hit [OF e] by (auto simp: flow_table_get_wan_def Let_def)
  qed
qed

lemma gc_ok: "flow_table_ok ft \<Longrightarrow> flow_table_ok (flow_table_gc now ft)"
  by (auto simp: flow_table_ok_def flow_table_gc_def)

lemma add_to_sel [simp]: "fl_ip_only_key (add_to x e) = fl_ip_only_key e" "fl_current_wan (add_to x e) = fl_current_wan e"
  "fl_key (add_to x e) = fl_key e" "fl_profile_wan_pool (add_to x e) = fl_profile_wan_pool e"
  by (simp_all add: add_to_def)

lemma add_exact_ip [simp]: "fl_ip_only_key (add_exact ft x e) = fl_ip_only_key e"
  by (simp add: add_exact_def Let_def)

lemma set_add_both: "e \<in> set (add_both ip ex f g es) \<Longrightarrow> e \<in> set es \<or> (\<exists>d \<in> set es. ip d \<and> e = f d) \<or> (\<exists>d \<in> set es. ex d \<and> e = g d)"
  by (induction es) (auto split: if_splits)

lemma add_bytes_ok: "flow_table_ok ft \<Longrightarrow> flow_table_ok (flow_table_add_bytes ft a b p q pr x)"
proof -
  assume ok: "flow_table_ok ft"
  obtain a' b' p' q' where n: "normalize_flow_5tuple a b p q = (a', b', p', q')" by (metis prod_cases4)
  let ?ip = "ip_match a' b'" and ?ex = "flow_match a' b' p' q' pr"
  have c: "0 \<le> fl_current_wan e \<and> fl_current_wan e < ft_wan_count ft"
    if "e \<in> set (chain_update ?ex (add_exact ft x) (ft_buckets ft i)) \<or> e \<in> set (chain_update ?ip (add_to x) (ft_buckets ft i))
        \<or> e \<in> set (chain_update ?ip (add_to x) (chain_update ?ex (add_exact ft x) (ft_buckets ft i)))
        \<or> e \<in> set (add_both ?ip ?ex (add_to x) (add_exact ft x) (ft_buckets ft i))" "fl_ip_only_key e" for e i
    using that by (auto dest!: set_chain_update set_add_both simp: flow_match_def intro: chain_bounds [OF ok])
  show ?thesis
    using ok c unfolding flow_table_add_bytes_def n Let_def prod.case
    by (auto simp: flow_table_ok_def)
qed

lemma add_bytes_count: "ft_wan_count (flow_table_add_bytes ft a b p q pr x) = ft_wan_count ft"
  by (simp add: flow_table_add_bytes_def Let_def split: prod.split)

lemma wrr_scan_mem: "wrr_scan acc s ss = Some w \<Longrightarrow> w \<in> fst ` set ss"
proof (induction ss arbitrary: acc)
  case (Cons a ss)
  obtain wan weight where "a = (wan, weight)" by fastforce
  then show ?case using Cons.prems Cons.IH by (auto split: if_splits)
qed simp

lemma wrr_slot_mem: "allowed \<noteq> [] \<Longrightarrow> wrr_slot_to_wan slot allowed ws sumw \<in> set allowed"
  by (auto simp: wrr_slot_to_wan_def Let_def split: option.split dest!: wrr_scan_mem dest: set_zip_leftD)

lemma profile_hit_mem:
  assumes "allowed \<noteq> []"
  shows "fl_current_wan (profile_hit ft now len allowed ws e) \<in> set allowed"
proof -
  have "i mod int (length allowed) < int (length allowed)" "0 \<le> i mod int (length allowed)" for i using assms by simp_all
  then have n: "allowed ! nat (i mod int (length allowed)) \<in> set allowed" for i by (simp add: nat_less_iff)
  have m: "x \<in> set allowed" if "\<not> wan_allowed_pos x allowed < 0" for x
    using first_index_some [of 0 "\<lambda>w. w = x" allowed] that by (fastforce simp: wan_allowed_pos_def)
  show ?thesis
    using assms n m wrr_slot_mem [OF assms] by (auto simp: profile_hit_def Let_def)
qed

lemma profile_hit_ip [simp]: "fl_ip_only_key (profile_hit ft now len allowed ws e) = fl_ip_only_key e"
  by (simp add: profile_hit_def Let_def)

lemma get_next_wan_counter: "get_next_wan nw n = (w, nw') \<Longrightarrow> nw' = nw \<or> nw' = nw + 1"
  by (auto simp: get_next_wan_def Let_def split: if_splits)

lemma get_wan_counter:
  "flow_table_get_wan alloc ft nw now a b p q pr len = (w, ft', nw') \<Longrightarrow> nw' = nw \<or> nw' = nw + 1"
  by (auto simp: flow_table_get_wan_def Let_def split: prod.splits option.splits if_splits dest!: get_next_wan_counter)

text \<open>Lookups for a profile pick one of the allowed WANs, whatever the counter; only when there is no memory for an entry it is 0.\<close>

lemma get_wan_profile_range:
  assumes "flow_table_ok ft" "allowed \<noteq> []"
    and "flow_table_get_wan_profile alloc ft nw now a b p q pr len allowed ws = (w, ft', nw')"
  shows "(w \<in> set allowed \<or> \<not> alloc \<and> w = 0) \<and> flow_table_ok ft' \<and> ft_wan_count ft' = ft_wan_count ft \<and> (nw' = nw \<or> nw' = nw + 1)"
proof (cases "length allowed = 1")
  case True
  then show ?thesis using assms by (auto simp: flow_table_get_wan_profile_def)
next
  case False
  obtain x y u v where n: "normalize_flow_5tuple a b p q = (x, y, u, v)" by (metis prod_cases4)
  define i where "i = flow_hash x y u v pr"
  define this where "this = (\<lambda>e. fl_profile_wan_pool e \<and> flow_match x y u v pr e)"
  note run = assms(3) [unfolded flow_table_get_wan_profile_def n Let_def prod.case, simplified assms(2) False if_False,
      folded i_def, folded this_def]
  show ?thesis
  proof (cases "List.find this (ft_buckets ft i)")
    case (Some e)
    let ?hit = "profile_hit ft now len allowed ws"
    have "flow_table_ok (ft\<lparr> ft_buckets := (ft_buckets ft)(i := chain_update this ?hit (ft_buckets ft i)) \<rparr>)"
      by (rule flow_table_ok_upd [OF assms(1)])
        (auto dest!: set_chain_update simp: this_def flow_match_def intro: chain_bounds [OF assms(1)])
    then show ?thesis using run Some profile_hit_mem [OF assms(2)] by auto
  next
    case None
    have m: "allowed ! nat (j mod int (length allowed)) \<in> set allowed" for j
      using assms(2) by (simp add: nat_less_iff)
    show ?thesis
      using run None assms(1,2) m wrr_slot_mem [OF assms(2)] get_next_wan_counter [of nw "int (length allowed)"] chain_ok [OF assms(1)]
      by (auto split: if_splits prod.splits intro!: flow_table_ok_upd)
  qed
qed

text \<open>Every operation on the table, and a run of them; a lookup also yields the WAN.\<close>

datatype flow_op =
    GetWan bool "64 word" u32 u32 u16 u16 u8 u32
  | GetWanProfile bool "64 word" u32 u32 u16 u16 u8 u32 "int list" "int list option"
  | AddBytes u32 u32 u16 u16 u8 u32
  | Collect "64 word"

fun flow_do :: "flow_op \<Rightarrow> flow_table \<Rightarrow> 32 word \<Rightarrow> int option \<times> flow_table \<times> 32 word" where
  "flow_do (GetWan alloc now a b p q pr len) ft nw =
     (case flow_table_get_wan alloc ft nw now a b p q pr len of (w, ft, nw) \<Rightarrow> (Some w, ft, nw))"
| "flow_do (GetWanProfile alloc now a b p q pr len allowed ws) ft nw =
     (case flow_table_get_wan_profile alloc ft nw now a b p q pr len allowed ws of (w, ft, nw) \<Rightarrow> (Some w, ft, nw))"
| "flow_do (AddBytes a b p q pr x) ft nw = (None, flow_table_add_bytes ft a b p q pr x, nw)"
| "flow_do (Collect now) ft nw = (None, flow_table_gc now ft, nw)"

fun flow_run :: "flow_op list \<Rightarrow> flow_table \<Rightarrow> 32 word \<Rightarrow> int option list \<times> flow_table \<times> 32 word" where
  "flow_run [] ft nw = ([], ft, nw)"
| "flow_run (op # ops) ft nw =
     (let (r, ft, nw) = flow_do op ft nw; (rs, ft, nw) = flow_run ops ft nw in (r # rs, ft, nw))"

fun is_lookup :: "flow_op \<Rightarrow> bool" where
  "is_lookup (GetWan alloc now a b p q pr len) = True"
| "is_lookup (GetWanProfile alloc now a b p q pr len allowed ws) = True"
| "is_lookup (AddBytes a b p q pr x) = False"
| "is_lookup (Collect now) = False"

text \<open>The WANs of a profile are configured WANs (an invariant of loaded configurations).\<close>

fun flow_op_ok :: "int \<Rightarrow> flow_op \<Rightarrow> bool" where
  "flow_op_ok n (GetWanProfile alloc now a b p q pr len allowed ws) = list_all (\<lambda>w. 0 \<le> w \<and> w < n) allowed"
| "flow_op_ok n op = True"

abbreviation wan_in :: "int \<Rightarrow> int option \<Rightarrow> bool" where
  "wan_in n r \<equiv> (case r of None \<Rightarrow> True | Some w \<Rightarrow> 0 \<le> w \<and> w < n)"

lemma flow_do_ok:
  assumes "flow_table_ok ft" "sint nw \<noteq> - (2 ^ 31)" "flow_op_ok (ft_wan_count ft) op" "flow_do op ft nw = (r, ft', nw')"
  shows "wan_in (ft_wan_count ft) r \<and> flow_table_ok ft' \<and> ft_wan_count ft' = ft_wan_count ft \<and>
    (nw' = nw \<or> is_lookup op \<and> nw' = nw + 1)"
proof -
  have n: "0 < ft_wan_count ft" using assms(1) by (simp add: flow_table_ok_def)
  have get: "wan_in (ft_wan_count ft) (Some w) \<and> flow_table_ok ft1 \<and> ft_wan_count ft1 = ft_wan_count ft \<and> (nw1 = nw \<or> nw1 = nw + 1)"
    if "flow_table_get_wan alloc ft nw now a b p q pr len = (w, ft1, nw1)" for alloc now a b p q pr len w ft1 nw1
    using get_wan_range [OF assms(1,2) that] get_wan_counter [OF that] by simp
  show ?thesis
  proof (cases op)
    case (GetWan alloc now a b p q pr len)
    then show ?thesis using assms(4) get by (auto split: prod.splits)
  next
    case (GetWanProfile alloc now a b p q pr len allowed ws)
    show ?thesis
    proof (cases "allowed = []")
      case True
      then have "flow_table_get_wan_profile alloc ft nw now a b p q pr len allowed ws = flow_table_get_wan alloc ft nw now a b p q pr len"
        by (simp add: flow_table_get_wan_profile_def)
      then show ?thesis using assms(4) GetWanProfile get by (auto split: prod.splits)
    next
      case False
      then show ?thesis
        using assms(3,4) GetWanProfile get_wan_profile_range [OF assms(1) False] n by (fastforce simp: list_all_iff split: prod.splits)
    qed
  next
    case (AddBytes a b p q pr x)
    then show ?thesis using assms(4) add_bytes_ok [OF assms(1)] by (auto simp: add_bytes_count)
  next
    case (Collect now)
    then show ?thesis using assms(4) gc_ok [OF assms(1)] by (auto simp: flow_table_gc_def)
  qed
qed

lemma counter_small: "unat (nw :: 32 word) < 2 ^ 31 \<Longrightarrow> sint nw \<noteq> - (2 ^ 31)"
proof -
  assume a: "unat nw < 2 ^ 31"
  have "uint nw = take_bit 32 (sint nw)" using uint_sint [of nw] by simp
  then have "sint nw = - (2 ^ 31) \<Longrightarrow> unat nw = 2 ^ 31" by (simp add: take_bit_eq_mod unat_eq_nat_uint)
  then show ?thesis using a by linarith
qed

lemma flow_run_ok:
  assumes "flow_table_ok ft" "list_all (flow_op_ok (ft_wan_count ft)) ops" "flow_run ops ft nw = (rs, ft', nw')"
    and "unat nw + length (filter is_lookup ops) \<le> 2 ^ 31"
  shows "list_all (wan_in (ft_wan_count ft)) rs \<and> flow_table_ok ft' \<and> ft_wan_count ft' = ft_wan_count ft"
  using assms
proof (induction ops arbitrary: ft nw rs)
  case (Cons op ops)
  obtain r ft1 nw1 where d: "flow_do op ft nw = (r, ft1, nw1)" by (metis prod_cases3)
  obtain rs2 where run: "flow_run ops ft1 nw1 = (rs2, ft', nw')" "rs = r # rs2"
    using Cons.prems(3) d by (auto simp: Let_def split: prod.splits)
  show ?case
  proof (cases "is_lookup op")
    case True
    then have u: "unat nw < 2 ^ 31" using Cons.prems(4) by simp
    have k: "wan_in (ft_wan_count ft) r \<and> flow_table_ok ft1 \<and> ft_wan_count ft1 = ft_wan_count ft \<and> (nw1 = nw \<or> nw1 = nw + 1)"
      using flow_do_ok [OF Cons.prems(1) counter_small [OF u] _ d] Cons.prems(2) by auto
    have "unat nw1 \<le> unat nw + 1" using k u by (auto simp: unat_plus_if')
    then show ?thesis using Cons.IH [of ft1 nw1 rs2] k run Cons.prems(2,4) True by simp
  next
    case False
    then have "r = None" "flow_table_ok ft1" "ft_wan_count ft1 = ft_wan_count ft" "nw1 = nw"
      using d add_bytes_ok [OF Cons.prems(1)] gc_ok [OF Cons.prems(1)]
      by (cases op; auto simp: add_bytes_count flow_table_gc_def)+
    then show ?thesis using Cons.IH [of ft1 nw rs2] run Cons.prems(2,4) False by simp
  qed
qed auto

lemma flow_run_length: "length (fst (flow_run ops ft nw)) = length ops"
proof (induction ops arbitrary: ft nw)
  case (Cons op ops)
  obtain r ft1 nw1 where d: "flow_do op ft nw = (r, ft1, nw1)" by (metis prod_cases3)
  show ?case using Cons [of ft1 nw1] by (simp add: d case_prod_beta)
qed simp

section \<open>Properties\<close>

text \<open>C25: from \<open>flow_table_init\<close> on, with the counter at its initial 0, every WAN that a lookup yields is an index of the configured
  WANs, whatever lookups (with or without a profile), byte accounting and garbage collections came before and however the windows
  rotate, as long as there have been at most \<open>2^31\<close> lookups; after that the signed counter is negative (\<open>next_wan_overflow\<close>).\<close>

theorem flow_wan_in_range:
  assumes "0 < n" "n \<le> int (length windows)" "n \<le> int MAX_INTERFACES" "list_all (flow_op_ok n) ops"
    and "length (filter is_lookup ops) \<le> 2 ^ 31"
    and "flow_run ops (fst (flow_table_init (Some windows) n)) 0 = (rs, ft, nw)"
  shows "length rs = length ops \<and> list_all (\<lambda>r. case r of None \<Rightarrow> True | Some w \<Rightarrow> 0 \<le> w \<and> w < n) rs \<and> flow_table_ok ft \<and> ft_wan_count ft = n"
proof -
  have "flow_table_ok (fst (flow_table_init (Some windows) n))" "ft_wan_count (fst (flow_table_init (Some windows) n)) = n"
    using assms(1-3) by (simp_all add: flow_table_ok_def flow_table_init_def)
  with flow_run_ok [OF _ _ assms(6)] assms(4,5) flow_run_length [of ops _ 0] assms(6) show ?thesis by (metis add_0 fst_conv unat_0)
qed

definition sample_flow_ops :: "flow_op list" where
  "sample_flow_ops = [GetWan True 0 1 2 80 90 6 100, AddBytes 1 2 80 90 6 950, GetWan True 1 2 1 90 80 6 100,
     GetWanProfile True 2 1 3 80 90 6 100 [1, 0] (Some [3, 1]), Collect 3]"

theorem flow_wan_in_range_witness:
  "list_all (\<lambda>r. case r of None \<Rightarrow> True | Some w \<Rightarrow> 0 \<le> w \<and> w < 2)
     (fst (flow_run sample_flow_ops (fst (flow_table_init (Some [1000, 2000]) 2)) 0)) \<and> length sample_flow_ops = 5"
proof -
  obtain rs ft nw where r: "flow_run sample_flow_ops (fst (flow_table_init (Some [1000, 2000]) 2)) 0 = (rs, ft, nw)"
    by (metis prod_cases3)
  have "list_all (\<lambda>r. case r of None \<Rightarrow> True | Some w \<Rightarrow> 0 \<le> w \<and> w < 2) rs"
    using flow_wan_in_range [OF _ _ _ _ _ r] by (simp add: sample_flow_ops_def MAX_INTERFACES_def)
  then show ?thesis using r by (simp add: sample_flow_ops_def)
qed

text \<open>The counter is a signed \<open>int\<close>: after 2^31 new flows \<open>-wan\<close> is not positive and the index that
  \<open>get_next_wan\<close> yields is negative for every number of WANs that does not divide 2^31.\<close>

lemma next_wan_overflow:
  assumes "sint nw = - (2 ^ 31)" "0 < n" "(2 ^ 31) mod n \<noteq> 0"
  shows "fst (get_next_wan nw n) < 0"
proof -
  have "c_int (2 ^ 31) = - (2 ^ 31)" by (simp add: c_int_def Let_def)
  moreover have "0 < (2 ^ 31) mod n" using assms(2,3) pos_mod_sign [of n "2 ^ 31"] by linarith
  ultimately show ?thesis using assms by (simp add: get_next_wan_def Let_def c_rem_def)
qed

text \<open>The entry the table keeps for a pair of addresses, in either order.\<close>

definition ip_entry :: "flow_table \<Rightarrow> u32 \<Rightarrow> u32 \<Rightarrow> flow_entry option" where
  "ip_entry ft a b = (case normalize_flow_ips a b of (x, y) \<Rightarrow>
     List.find (ip_match x y) (ft_buckets ft (flow_hash_ips x y)))"

lemma get_wan_entry:
  assumes "flow_table_get_wan True ft nw now a b p q pr len = (w, ft', nw')"
  shows "\<exists>e. ip_entry ft' a b = Some e \<and> fl_current_wan e = w \<and>
    ft_wan_count ft' = ft_wan_count ft \<and> ft_windows ft' = ft_windows ft"
proof -
  obtain x y where xy: "normalize_flow_ips a b = (x, y)" by fastforce
  let ?hit = "\<lambda>e. next_window ft (e\<lparr>fl_last_seen := now, fl_byte_count := fl_byte_count e + len\<rparr>)"
  have f: "List.find (ip_match x y) (chain_update (ip_match x y) ?hit c) = map_option ?hit (List.find (ip_match x y) c)" for c
    by (rule find_chain_update) simp
  show ?thesis
  proof (cases "List.find (ip_match x y) (ft_buckets ft (flow_hash_ips x y))")
    case None
    obtain g h where g: "get_next_wan nw (ft_wan_count ft) = (g, h)" by fastforce
    show ?thesis using assms None xy g by (auto simp: flow_table_get_wan_def Let_def ip_entry_def ip_match_def)
  next
    case (Some e)
    then show ?thesis using assms xy f by (auto simp: flow_table_get_wan_def Let_def ip_entry_def)
  qed
qed

lemma get_wan_hit:
  assumes "ip_entry ft a b = Some e"
  shows "fst (flow_table_get_wan alloc ft nw now a b p q pr len) =
      (if 0 < wan_limit ft (fl_current_wan e) \<and> wan_limit ft (fl_current_wan e) \<le> fl_byte_count e + len
       then c_rem (fl_current_wan e + 1) (ft_wan_count ft) else fl_current_wan e)"
proof -
  obtain x y where xy: "normalize_flow_ips a b = (x, y)" by fastforce
  show ?thesis using assms xy
    by (simp add: ip_entry_def flow_table_get_wan_def Let_def next_window_def)
qed

lemma ip_entry_sym: "ip_entry ft a b = ip_entry ft b a"
  by (simp add: ip_entry_def normalize_ips_sym [of a])

text \<open>A pair of hosts stays on one WAN: after a packet was given WAN \<open>w\<close>, the next packet between the two
  hosts, in either direction, on any ports, at any time before the entry is collected, is given the same WAN,
  unless its bytes fill the WAN's window, when it moves to the next WAN in turn.\<close>

lemma flow_sticks_to_wan:
  assumes "flow_table_ok ft" "sint nw \<noteq> - (2 ^ 31)"
    and "flow_table_get_wan True ft nw now a b p q pr len = (w, ft', nw')" "ip_entry ft' a b = Some e"
    and "(x, y) = (a, b) \<or> (x, y) = (b, a)"
  shows "fst (flow_table_get_wan alloc ft' nw2 now2 x y p2 q2 pr2 len2) =
    (if 0 < ft_windows ft ! nat w \<and> ft_windows ft ! nat w \<le> fl_byte_count e + len2 then (w + 1) mod ft_wan_count ft else w)"
proof -
  have r: "0 \<le> w" "w < ft_wan_count ft" using get_wan_range [OF assms(1-3)] by auto
  have e: "fl_current_wan e = w" "ft_wan_count ft' = ft_wan_count ft" "ft_windows ft' = ft_windows ft"
    using get_wan_entry [OF assms(3)] assms(4) by auto
  have "ip_entry ft' x y = Some e" using assms(4,5) ip_entry_sym by auto
  from get_wan_hit [OF this] show ?thesis using r e by (simp add: wan_limit_def c_rem_mod)
qed

definition sample_flow_table :: flow_table where
  "sample_flow_table = fst (flow_table_init (Some [1000, 2000]) 2)"

lemma sample_flow_ok: "flow_table_ok sample_flow_table"
  by (simp add: sample_flow_table_def flow_table_ok_def flow_table_init_def MAX_INTERFACES_def)

section \<open>The weighted round robin per packet\<close>

lemma wrr_scan_weighted:
  assumes "0 \<le> acc" "sum_positive acc (map snd ss) < 2 ^ 32"
  shows "wrr_scan acc s ss = weighted_slot acc s ss"
  using assms
proof (induction ss arbitrary: acc)
  case (Cons a ss)
  obtain i w where a: "a = (i, w)" by fastforce
  have "acc + w \<le> sum_positive (acc + w) (map snd ss)" by (rule sum_positive_ge)
  then show ?case using Cons a by (cases "w \<le> 0") (simp_all add: c_u32_id)
qed simp

lemma slot_to_wan:
  assumes "length allowed = length weights" "0 \<le> s" "s < sum_positive 0 weights" "sum_positive 0 weights < 2 ^ 31"
  shows "\<exists>x \<in> set allowed. weighted_slot 0 s (zip allowed weights) = Some x \<and>
    wrr_slot_to_wan s allowed (Some weights) (sum_positive 0 weights) = x"
proof -
  obtain x where x: "weighted_slot 0 s (zip allowed weights) = Some x" "x \<in> set allowed"
    using weighted_slot_total [of allowed weights 0 s] assms by auto
  have "c_rem (c_rem s (sum_positive 0 weights) + sum_positive 0 weights) (sum_positive 0 weights) = s"
    using assms by (simp add: c_rem_mod)
  then show ?thesis using x wrr_scan_weighted [of 0 "zip allowed weights" s] assms
    by (auto simp: wrr_slot_to_wan_def Let_def)
qed

text \<open>The picks of \<open>n\<close> consecutive packets.\<close>

fun pick_run :: "nat \<Rightarrow> 64 word \<Rightarrow> int list \<Rightarrow> int list option \<Rightarrow> int list" where
  "pick_run 0 seq allowed ws = []"
| "pick_run (Suc n) seq allowed ws =
     (case flow_table_pick_wan_per_packet seq allowed ws of (w, seq) \<Rightarrow> w # pick_run n seq allowed ws)"

lemma pick_run_map:
  assumes "length allowed = length weights" "2 \<le> length allowed" "0 < sum_positive 0 weights" "sum_positive 0 weights < 2 ^ 31"
    and "uint seq + int n \<le> 2 ^ 64"
  shows "pick_run n seq allowed (Some weights) =
    map (\<lambda>i. the (weighted_slot 0 ((uint seq + int i) mod sum_positive 0 weights) (zip allowed weights))) [0..<n]"
  using assms(5)
proof (induction n arbitrary: seq)
  case (Suc n)
  let ?W = "sum_positive 0 weights"
  have "0 \<le> uint seq mod ?W" "uint seq mod ?W < ?W" using assms(3) by simp_all
  then obtain x where x: "weighted_slot 0 (uint seq mod ?W) (zip allowed weights) = Some x"
    "wrr_slot_to_wan (uint seq mod ?W) allowed (Some weights) ?W = x"
    using slot_to_wan [OF assms(1) _ _ assms(4)] by metis
  have p: "flow_table_pick_wan_per_packet seq allowed (Some weights) = (x, seq + 1)"
    using assms(2,3) x(2) by (auto simp: flow_table_pick_wan_per_packet_def weights_sum_positive_def Let_def)
  show ?case
  proof (cases n)
    case 0
    then show ?thesis using p x(1) by simp
  next
    case (Suc m)
    then have "uint (seq + 1) = uint seq + 1" using Suc.prems by (simp add: uint_plus_if_size word_size)
    then show ?thesis using p x(1) Suc.IH [of "seq + 1"] Suc.prems
      by (simp add: upt_conv_Cons map_Suc_upt [symmetric] add.assoc del: upt_Suc)
  qed
qed simp

lemma card_mod_shift:
  assumes "0 < W"
  shows "card {i. i < nat W \<and> P ((s + int i) mod W)} = card {r. 0 \<le> r \<and> r < W \<and> P r}"
proof (rule bij_betw_same_card [where f = "\<lambda>i. (s + int i) mod W"], unfold bij_betw_def, intro conjI)
  show "inj_on (\<lambda>i. (s + int i) mod W) {i. i < nat W \<and> P ((s + int i) mod W)}"
  proof (rule inj_onI)
    fix i j assume ij: "i \<in> {i. i < nat W \<and> P ((s + int i) mod W)}" "j \<in> {i. i < nat W \<and> P ((s + int i) mod W)}"
      "(s + int i) mod W = (s + int j) mod W"
    have "W dvd (s + int i) - (s + int j)" using ij(3) mod_eq_dvd_iff by blast
    then have "W dvd int i - int j" by simp
    moreover have "\<bar>int i - int j\<bar> < W" using ij(1,2) assms by auto
    ultimately show "i = j" using dvd_imp_le_int [of "int i - int j" W] assms by fastforce
  qed
  show "(\<lambda>i. (s + int i) mod W) ` {i. i < nat W \<and> P ((s + int i) mod W)} = {r. 0 \<le> r \<and> r < W \<and> P r}"
  proof (intro equalityI subsetI)
    fix r assume "r \<in> {r. 0 \<le> r \<and> r < W \<and> P r}"
    then have r: "0 \<le> r" "r < W" "P r" by auto
    define i where "i = nat ((r - s) mod W)"
    have "int i = (r - s) mod W" using assms by (simp add: i_def)
    then have "(s + int i) mod W = r" using r by (simp add: mod_add_right_eq)
    moreover have "i < nat W" using assms by (simp add: i_def)
    ultimately show "r \<in> (\<lambda>i. (s + int i) mod W) ` {i. i < nat W \<and> P ((s + int i) mod W)}" using r(3) by force
  qed (use assms in auto)
qed

text \<open>The per-packet round robin is proportional: over any run of as many packets as the sum \<open>W\<close> of the
  positive weights, starting anywhere in the sequence, each WAN is picked exactly as often as its weight says,
  and only allowed WANs are picked.\<close>

lemma packet_round_robin_proportional:
  assumes "length allowed = length weights" "2 \<le> length allowed" "W = sum_positive 0 weights" "0 < W" "W < 2 ^ 31"
    and "uint seq + W \<le> 2 ^ 64"
  shows "count_list (pick_run (nat W) seq allowed (Some weights)) x = slot_share x (zip allowed weights) \<and>
    set (pick_run (nat W) seq allowed (Some weights)) \<subseteq> set allowed"
proof
  let ?f = "\<lambda>i. the (weighted_slot 0 ((uint seq + int i) mod W) (zip allowed weights))"
  have b: "0 \<le> (uint seq + int i) mod W" "(uint seq + int i) mod W < W" for i using assms(4) by simp_all
  have d: "\<exists>y \<in> set allowed. weighted_slot 0 ((uint seq + int i) mod W) (zip allowed weights) = Some y" for i
    using slot_to_wan [OF assms(1) b(1), of i] b(2) [of i] assms(5) unfolding assms(3) by metis
  have run: "pick_run (nat W) seq allowed (Some weights) = map ?f [0..<nat W]"
    using pick_run_map [OF assms(1,2), of seq "nat W"] assms(3-6) by simp
  have "count_list (map ?f [0..<nat W]) x = card {i. i < nat W \<and> ?f i = x}"
    by (simp add: count_list_eq_length_filter filter_map comp_def distinct_card [symmetric] eq_commute [of x])
  also have "\<dots> = card {i. i < nat W \<and> weighted_slot 0 ((uint seq + int i) mod W) (zip allowed weights) = Some x}"
    using d by (metis option.sel)
  also have "\<dots> = card {r. 0 \<le> r \<and> r < W \<and> weighted_slot 0 r (zip allowed weights) = Some x}"
    by (rule card_mod_shift [OF assms(4)])
  also have "\<dots> = slot_share x (zip allowed weights)"
    using weighted_slot_card [OF assms(1), of 0 x] assms(3,5) by simp
  finally show "count_list (pick_run (nat W) seq allowed (Some weights)) x = slot_share x (zip allowed weights)"
    unfolding run .
  show "set (pick_run (nat W) seq allowed (Some weights)) \<subseteq> set allowed"
    unfolding run using d by (auto simp del: upt_conv_Nil) (metis option.sel)
qed

end
