(* ===== verification/PolicyPin.thy ===== *)
theory PolicyPin
  imports FlowTable
begin

text \<open>
  The TCP policy pins of \<open>src/core/forwarder.c\<close>: a chained table that remembers, per TCP connection, the index
  of the policy under which the connection was opened. \<open>now\<close> is the monotonic clock, \<open>alloc\<close> the
  result of \<open>calloc\<close>; \<open>enabled\<close> is \<open>crypto_enabled\<close>. The policies and the ready flags are those of the running
  configuration. Keys are normalised so that both directions of a connection share one pin.
\<close>

definition TCP_POLICY_PIN_TIMEOUT_SEC :: "64 word" where "TCP_POLICY_PIN_TIMEOUT_SEC = 120"

type_synonym pin_key = "u32 \<times> u32 \<times> u16 \<times> u16"

record tcp_policy_pin_entry =
  pin_key_of :: pin_key
  pin_policy_pi :: int
  pin_last_seen :: "64 word"

record pin_table =
  pins_inited :: bool
  pins :: "tcp_policy_pin_entry buckets"

definition tcp_policy_pin_normalize_tuple :: "u32 \<Rightarrow> u32 \<Rightarrow> u16 \<Rightarrow> u16 \<Rightarrow> pin_key" where
  "tcp_policy_pin_normalize_tuple src_ip dst_ip src_port dst_port =
     (let a = htonl src_ip; b = htonl dst_ip in
      if a > b \<or> (a = b \<and> src_port > dst_port) then (dst_ip, src_ip, dst_port, src_port)
      else (src_ip, dst_ip, src_port, dst_port))"

definition tcp_policy_pin_hash :: "pin_key \<Rightarrow> nat" where
  "tcp_policy_pin_hash k = (case k of (src_ip, dst_ip, src_port, dst_port) \<Rightarrow>
     mix_hash ((src_ip XOR dst_ip) XOR (push_bit 16 (ucast src_port) OR ucast dst_port) XOR 6))"

definition tcp_policy_pin_init :: "pin_table \<Rightarrow> pin_table" where
  "tcp_policy_pin_init t = (if pins_inited t then t else \<lparr> pins_inited = True, pins = (\<lambda>_. []) \<rparr>)"

definition tcp_policy_pin_cleanup :: "pin_table \<Rightarrow> pin_table" where
  "tcp_policy_pin_cleanup t = (if \<not> pins_inited t then t else \<lparr> pins_inited = False, pins = (\<lambda>_. []) \<rparr>)"

definition tcp_policy_pin_clear_all :: "pin_table \<Rightarrow> pin_table" where
  "tcp_policy_pin_clear_all t = (if \<not> pins_inited t then t else t\<lparr> pins := (\<lambda>_. []) \<rparr>)"

definition tcp_policy_pin_gc :: "bool \<Rightarrow> 64 word \<Rightarrow> pin_table \<Rightarrow> pin_table" where
  "tcp_policy_pin_gc enabled now t =
     (if \<not> pins_inited t \<or> \<not> enabled \<or> now = 0 then t
      else t\<lparr> pins := (\<lambda>i. filter (\<lambda>e. \<not> (now - pin_last_seen e > TCP_POLICY_PIN_TIMEOUT_SEC)) (pins t i)) \<rparr>)"

definition pin_match :: "pin_key \<Rightarrow> tcp_policy_pin_entry \<Rightarrow> bool" where
  "pin_match k e = (pin_key_of e = k)"

text \<open>The three operations on the chain of a key, used below by the functions of the source.\<close>

definition pin_find :: "pin_table \<Rightarrow> pin_key \<Rightarrow> tcp_policy_pin_entry option" where
  "pin_find t k = List.find (pin_match k) (pins t (tcp_policy_pin_hash k))"

definition pin_store :: "64 word \<Rightarrow> pin_table \<Rightarrow> pin_key \<Rightarrow> int \<Rightarrow> pin_table" where
  "pin_store now t k pi =
     (let idx = tcp_policy_pin_hash k; chain = pins t idx in
      t\<lparr> pins := (pins t)(idx :=
        (if pin_find t k \<noteq> None
         then chain_update (pin_match k) (\<lambda>e. e\<lparr> pin_policy_pi := pi, pin_last_seen := now \<rparr>) chain
         else \<lparr> pin_key_of = k, pin_policy_pi = pi, pin_last_seen = now \<rparr> # chain)) \<rparr>)"

definition pin_delete :: "pin_table \<Rightarrow> pin_key \<Rightarrow> pin_table" where
  "pin_delete t k = t\<lparr> pins := (pins t)(tcp_policy_pin_hash k := chain_remove (pin_match k) (pins t (tcp_policy_pin_hash k))) \<rparr>"

definition tcp_policy_pin_set ::
  "bool \<Rightarrow> bool \<Rightarrow> 64 word \<Rightarrow> pin_table \<Rightarrow> u32 \<Rightarrow> u32 \<Rightarrow> u16 \<Rightarrow> u16 \<Rightarrow> int \<Rightarrow> pin_table" where
  "tcp_policy_pin_set enabled alloc now t src_ip dst_ip src_port dst_port policy_pi =
     (if \<not> enabled \<or> \<not> pins_inited t then t
      else if policy_pi < 0 \<or> policy_pi \<ge> int MAX_CRYPTO_POLICIES then t
      else let k = tcp_policy_pin_normalize_tuple src_ip dst_ip src_port dst_port in
        if pin_find t k = None \<and> \<not> alloc then t else pin_store now t k policy_pi)"

definition tcp_policy_pin_remove :: "bool \<Rightarrow> pin_table \<Rightarrow> u32 \<Rightarrow> u32 \<Rightarrow> u16 \<Rightarrow> u16 \<Rightarrow> pin_table" where
  "tcp_policy_pin_remove enabled t src_ip dst_ip src_port dst_port =
     (if \<not> enabled \<or> \<not> pins_inited t then t
      else pin_delete t (tcp_policy_pin_normalize_tuple src_ip dst_ip src_port dst_port))"

definition pin_usable :: "crypto_policy list \<Rightarrow> bool list \<Rightarrow> int \<Rightarrow> bool" where
  "pin_usable policies ready pi =
     (0 \<le> pi \<and> pi < int (length policies) \<and> pi < int MAX_CRYPTO_POLICIES \<and>
      (cp_action (policies ! nat pi) = POLICY_ACTION_BYPASS \<or> ready ! nat pi))"

definition tcp_policy_pin_lookup ::
  "bool \<Rightarrow> crypto_policy list \<Rightarrow> bool list \<Rightarrow> 64 word \<Rightarrow> pin_table \<Rightarrow> u32 \<Rightarrow> u32 \<Rightarrow> u16 \<Rightarrow> u16
     \<Rightarrow> nat option \<times> pin_table" where
  "tcp_policy_pin_lookup enabled policies ready now t src_ip dst_ip src_port dst_port =
     (if \<not> enabled \<or> \<not> pins_inited t then (None, t)
      else let k = tcp_policy_pin_normalize_tuple src_ip dst_ip src_port dst_port; idx = tcp_policy_pin_hash k in
        case pin_find t k of
          None \<Rightarrow> (None, t)
        | Some e \<Rightarrow>
            if pin_usable policies ready (pin_policy_pi e)
            then (Some (nat (pin_policy_pi e)),
                  t\<lparr> pins := (pins t)(idx := chain_update (pin_match k) (\<lambda>e. e\<lparr> pin_last_seen := now \<rparr>) (pins t idx)) \<rparr>)
            else (None, pin_delete t k))"

section \<open>The pins are a store addressed by connection\<close>

definition pins_ok :: "pin_table \<Rightarrow> bool" where
  "pins_ok t = (\<forall>i. distinct (map pin_key_of (pins t i)))"

definition pin_get :: "pin_table \<Rightarrow> pin_key \<Rightarrow> int option" where
  "pin_get t k = map_option pin_policy_pi (pin_find t k)"

lemma pin_match_eq: "pin_match k e \<longleftrightarrow> pin_key_of e = k"
  by (simp add: pin_match_def)

lemma pin_find_upd:
  "pin_find (t\<lparr>pins := (pins t)(tcp_policy_pin_hash k := c)\<rparr>) k' =
     (if tcp_policy_pin_hash k' = tcp_policy_pin_hash k then List.find (pin_match k') c else pin_find t k')"
  by (simp add: pin_find_def)

lemma pins_ok_upd: "pins_ok t \<Longrightarrow> distinct (map pin_key_of c) \<Longrightarrow> pins_ok (t\<lparr>pins := (pins t)(i := c)\<rparr>)"
  by (simp add: pins_ok_def)

lemma find_None_key: "List.find (pin_match k) c = None \<Longrightarrow> k \<notin> pin_key_of ` set c"
  by (auto simp: find_None_iff pin_match_def)

lemma pin_store_ok:
  assumes "pins_ok t"
  shows "pins_ok (pin_store now t k pi)"
proof -
  have "map pin_key_of (chain_update (pin_match k) (\<lambda>e. e\<lparr>pin_policy_pi := pi, pin_last_seen := now\<rparr>) c) = map pin_key_of c" for c
    by (rule map_chain_update) simp
  then show ?thesis using assms find_None_key
    by (auto simp: pin_store_def Let_def pin_find_def pins_ok_def)
qed

lemma pin_delete_ok: "pins_ok t \<Longrightarrow> pins_ok (pin_delete t k)"
  unfolding pin_delete_def by (rule pins_ok_upd) (auto simp: pins_ok_def distinct_chain_remove)

lemma pin_get_store_same: "pin_get (pin_store now t k pi) k = Some pi"
proof -
  let ?f = "\<lambda>e. e\<lparr>pin_policy_pi := pi, pin_last_seen := now\<rparr>"
  have "List.find (pin_match k) (chain_update (pin_match k) ?f c) = map_option ?f (List.find (pin_match k) c)" for c
    by (rule find_chain_update) (simp add: pin_match_def)
  then show ?thesis
    by (auto simp: pin_get_def pin_store_def Let_def pin_find_def pin_match_def split: option.splits)
qed

lemma pin_get_store_other: "k' \<noteq> k \<Longrightarrow> pin_get (pin_store now t k pi) k' = pin_get t k'"
proof -
  assume a: "k' \<noteq> k"
  have "List.find (pin_match k') (chain_update (pin_match k) (\<lambda>e. e\<lparr>pin_policy_pi := pi, pin_last_seen := now\<rparr>) c)
      = List.find (pin_match k') c" for c
    by (rule find_chain_update_other) (use a in \<open>auto simp: pin_match_def\<close>)
  then show ?thesis using a
    by (auto simp: pin_get_def pin_store_def Let_def pin_find_def pin_match_def)
qed

lemma pin_get_delete_same: "pins_ok t \<Longrightarrow> pin_get (pin_delete t k) k = None"
  using find_chain_remove_same [of pin_key_of "pins t (tcp_policy_pin_hash k)" "pin_match k" k]
  by (simp add: pin_get_def pin_delete_def pin_find_upd pins_ok_def pin_match_def)

lemma pin_get_delete_other: "k' \<noteq> k \<Longrightarrow> pin_get (pin_delete t k) k' = pin_get t k'"
  using find_chain_remove_other [of "pin_match k" "pin_match k'" "pins t (tcp_policy_pin_hash k)"]
  by (auto simp: pin_get_def pin_delete_def pin_find_def pin_match_def)

interpretation pin_tab: deleting_store pins_ok "\<lambda>_ _. True" pin_get "pin_store now" pin_delete for now
  by unfold_locales
     (simp_all add: pin_store_ok pin_get_store_same pin_get_store_other pin_delete_ok pin_get_delete_same pin_get_delete_other)

section \<open>Properties\<close>

lemma pin_normalize_sym: "tcp_policy_pin_normalize_tuple a b p q = tcp_policy_pin_normalize_tuple b a q p"
  by (auto simp: tcp_policy_pin_normalize_tuple_def Let_def)

lemma pin_set_cases:
  "tcp_policy_pin_set enabled alloc now t a b p q pi = t \<or>
   tcp_policy_pin_set enabled alloc now t a b p q pi = pin_store now t (tcp_policy_pin_normalize_tuple a b p q) pi"
  by (auto simp: tcp_policy_pin_set_def Let_def)

lemma pin_store_inited: "pins_inited (pin_store now t k pi) = pins_inited t"
  by (simp add: pin_store_def Let_def)

lemma pin_set_facts:
  assumes "pins_ok t" "pins_inited t"
  shows "pins_ok (tcp_policy_pin_set enabled alloc now t a b p q pi)"
    "pins_inited (tcp_policy_pin_set enabled alloc now t a b p q pi)"
    "k \<noteq> tcp_policy_pin_normalize_tuple a b p q \<Longrightarrow> pin_get (tcp_policy_pin_set enabled alloc now t a b p q pi) k = pin_get t k"
  using pin_set_cases [of enabled alloc now t a b p q pi] assms
  by (metis pin_tab.put_inv, metis pin_store_inited, metis pin_tab.get_put_other)

text \<open>Pins that other packets set.\<close>

definition pin_others :: "64 word \<Rightarrow> pin_table \<Rightarrow> (u32 \<times> u32 \<times> u16 \<times> u16 \<times> int) list \<Rightarrow> pin_table" where
  "pin_others now = foldl (\<lambda>t (a, b, p, q, pi). tcp_policy_pin_set True True now t a b p q pi)"

lemma pin_others_facts:
  assumes "pins_ok t" "pins_inited t" "\<forall>(a, b, p, q, pi) \<in> set os. tcp_policy_pin_normalize_tuple a b p q \<noteq> k"
  shows "pins_ok (pin_others now t os) \<and> pins_inited (pin_others now t os) \<and> pin_get (pin_others now t os) k = pin_get t k"
  using assms
proof (induction os arbitrary: t)
  case (Cons o1 os)
  obtain a b p q pi where o1: "o1 = (a, b, p, q, pi)" by (metis prod_cases5)
  let ?t = "tcp_policy_pin_set True True now t a b p q pi"
  have "pins_ok ?t" "pins_inited ?t" "pin_get ?t k = pin_get t k"
    using Cons.prems pin_set_facts(1,2) [OF Cons.prems(1,2), of True True now a b p q pi]
      pin_set_facts(3) [OF Cons.prems(1,2), of k a b p q True True now pi] o1 by auto
  then show ?case using Cons.IH [of ?t] Cons.prems(3) o1 by (simp add: pin_others_def)
qed (simp add: pin_others_def)

lemma pin_lookup_get:
  assumes "pins_inited t" "pin_get t (tcp_policy_pin_normalize_tuple a b p q) = Some pi" "pin_usable policies ready pi"
  shows "fst (tcp_policy_pin_lookup True policies ready now t a b p q) = Some (nat pi)"
  using assms by (auto simp: tcp_policy_pin_lookup_def Let_def pin_get_def)

text \<open>C24: a pinned TCP connection keeps its policy: once \<open>tcp_policy_pin_set\<close> recorded policy index \<open>pi\<close>, a lookup
  of the same connection, in either direction, returns that policy, whatever pins other connections set in
  between, as long as the policy is usable.\<close>

theorem pin_keeps_policy:
  assumes "pins_ok t" "pins_inited t" "pin_usable policies ready pi"
    and "\<forall>(a', b', p', q', pi') \<in> set others. tcp_policy_pin_normalize_tuple a' b' p' q' \<noteq> tcp_policy_pin_normalize_tuple a b p q"
    and "(x, y, u, v) = (a, b, p, q) \<or> (x, y, u, v) = (b, a, q, p)"
  shows "fst (tcp_policy_pin_lookup True policies ready later
      (pin_others now (tcp_policy_pin_set True True now t a b p q pi) others) x y u v) = Some (nat pi)"
proof -
  let ?k = "tcp_policy_pin_normalize_tuple a b p q"
  let ?t = "tcp_policy_pin_set True True now t a b p q pi"
  have k: "tcp_policy_pin_normalize_tuple x y u v = ?k" using assms(5) pin_normalize_sym by auto
  have "0 \<le> pi" "pi < int MAX_CRYPTO_POLICIES" using assms(3) by (auto simp: pin_usable_def)
  then have "?t = pin_store now t ?k pi" using assms(2) by (simp add: tcp_policy_pin_set_def Let_def)
  then have g: "pin_get ?t ?k = Some pi" using pin_tab.get_put_same [OF assms(1)] by simp
  have o: "pins_inited (pin_others now ?t others)" "pin_get (pin_others now ?t others) ?k = Some pi"
    using pin_others_facts [OF pin_set_facts(1,2) [OF assms(1,2)] assms(4)] g by auto
  show ?thesis using pin_lookup_get [of "pin_others now ?t others" x y u v] o assms(3) unfolding k by blast
qed

definition empty_pins :: pin_table where
  "empty_pins = \<lparr> pins_inited = True, pins = (\<lambda>_. []) \<rparr>"

lemma empty_pins_ok: "pins_ok empty_pins" "pins_inited empty_pins"
  by (simp_all add: empty_pins_def pins_ok_def)

theorem pin_keeps_policy_witness:
  "fst (tcp_policy_pin_lookup True [sample_policy 1 0 3, sample_policy 2 6 4] [True, True] 9
     (pin_others 3 (tcp_policy_pin_set True True 3 empty_pins 1 2 80 90 1) [(1, 2, 80, 91, 0)]) 2 1 90 80) = Some 1"
proof -
  have "pin_usable [sample_policy 1 0 3, sample_policy 2 6 4] [True, True] 1"
    by (simp add: pin_usable_def MAX_CRYPTO_POLICIES_def)
  from pin_keeps_policy [OF empty_pins_ok this, of "[(1, 2, 80, 91, 0)]" 1 2 80 90 2 1 90 80 9 3]
  show ?thesis by (simp add: tcp_policy_pin_normalize_tuple_def htonl_def)
qed

text \<open>A lookup never returns a policy that cannot be used: the result is a policy of the running
  configuration under an index within the arrays, either a bypass policy or one whose context is ready; a pin
  that fails this is dropped, and the pins of other connections keep their policies in every case.\<close>

lemma pin_lookup_usable:
  assumes "pins_ok t" "tcp_policy_pin_lookup enabled policies ready now t a b p q = (res, t')"
  shows "pins_ok t' \<and>
    (case res of
       Some i \<Rightarrow> i < length policies \<and> i < MAX_CRYPTO_POLICIES \<and> (cp_action (policies ! i) = POLICY_ACTION_BYPASS \<or> ready ! i)
     | None \<Rightarrow> enabled \<and> pins_inited t \<longrightarrow> pin_get t' (tcp_policy_pin_normalize_tuple a b p q) = None) \<and>
    (\<forall>k. k \<noteq> tcp_policy_pin_normalize_tuple a b p q \<longrightarrow> pin_get t' k = pin_get t k)"
proof (cases "enabled \<and> pins_inited t")
  case True
  let ?k = "tcp_policy_pin_normalize_tuple a b p q"
  show ?thesis
  proof (cases "pin_find t ?k")
    case None
    then show ?thesis using assms True by (simp add: tcp_policy_pin_lookup_def Let_def pin_get_def)
  next
    case (Some e)
    let ?u = "t\<lparr>pins := (pins t)(tcp_policy_pin_hash ?k := chain_update (pin_match ?k) (\<lambda>e. e\<lparr>pin_last_seen := now\<rparr>)
      (pins t (tcp_policy_pin_hash ?k)))\<rparr>"
    show ?thesis
    proof (cases "pin_usable policies ready (pin_policy_pi e)")
      case True': True
      have r: "res = Some (nat (pin_policy_pi e))" "t' = ?u"
        using assms(2) True Some True' by (simp_all add: tcp_policy_pin_lookup_def Let_def)
      have "pins_ok ?u"
        by (rule pins_ok_upd [OF assms(1)]) (use assms(1) in \<open>simp add: map_chain_update pins_ok_def\<close>)
      moreover have "pin_get ?u k = pin_get t k" if "k \<noteq> ?k" for k
        using that find_chain_update_other [of "pin_match ?k" "pin_match k" "\<lambda>e. e\<lparr>pin_last_seen := now\<rparr>"]
        by (auto simp: pin_get_def pin_find_def pin_match_def)
      ultimately show ?thesis using r True'
        by (auto simp: pin_usable_def)
    next
      case False
      then have "res = None" "t' = pin_delete t ?k"
        using assms(2) True Some by (simp_all add: tcp_policy_pin_lookup_def Let_def)
      then show ?thesis
        using pin_tab.del_inv [OF assms(1)] pin_tab.get_del_same [OF assms(1)] pin_tab.get_del_other [OF assms(1)]
        by (simp del: split_paired_All)
    qed
  qed
qed (use assms in \<open>auto simp: tcp_policy_pin_lookup_def\<close>)

end
