(* ===== verification/ArpCache.thy ===== *)
theory ArpCache
  imports BucketMap Config
begin

text \<open>
  The ARP cache of \<open>src/core/wan_arp.c\<close>: 2048 entries addressed by open addressing with linear probing; the IP
  address 0 marks an empty entry and nothing is ever removed. \<open>now\<close> is \<open>time(NULL)\<close>. The raw socket and
  the interface queries are outside the model: \<open>arp_send_request\<close> is modelled by the frame it sends. Here the
  persisted file is the list of its lines; \<open>ArpFile\<close> has its text.
\<close>

definition ARP_CACHE_SIZE :: nat where "ARP_CACHE_SIZE = 2048"

record arp_entry =
  ae_ip :: u32
  ae_mac :: "u8 list"
  ae_last_seen :: u32

record arp_cache =
  arp_entries :: "arp_entry list"
  arp_if_mac :: "u8 list"
  arp_if_ip :: u32
  arp_dirty :: bool

definition arp_cache_empty :: "u8 list \<Rightarrow> u32 \<Rightarrow> arp_cache" where
  "arp_cache_empty mac ip = \<lparr> arp_entries = replicate ARP_CACHE_SIZE \<lparr> ae_ip = 0, ae_mac = replicate 6 0, ae_last_seen = 0 \<rparr>,
     arp_if_mac = mac, arp_if_ip = ip, arp_dirty = False \<rparr>"

definition mac_is_nonzero6 :: "u8 list \<Rightarrow> bool" where
  "mac_is_nonzero6 mac = (\<exists>b \<in> set mac. b \<noteq> 0)"

definition arp_hash :: "u32 \<Rightarrow> u32" where
  "arp_hash ip = (let x = ip; x = x XOR drop_bit 16 x; x = x * 0x7feb352d; x = x XOR drop_bit 15 x;
                      x = x * 0x846ca68b in x XOR drop_bit 16 x)"

definition arp_probe :: "u32 \<Rightarrow> nat \<Rightarrow> nat" where
  "arp_probe ip i = unat ((arp_hash ip + of_nat i) AND (of_nat ARP_CACHE_SIZE - 1))"

text \<open>The probe loop of lookup and insertion stops at the first entry that is empty or holds the address.\<close>

definition arp_slot :: "u32 list \<Rightarrow> u32 \<Rightarrow> nat option" where
  "arp_slot ips ip = map_option (arp_probe ip)
     (List.find (\<lambda>i. ips ! arp_probe ip i = 0 \<or> ips ! arp_probe ip i = ip) [0..<ARP_CACHE_SIZE])"

definition arp_cache_lookup :: "arp_cache \<Rightarrow> u32 \<Rightarrow> u8 list option" where
  "arp_cache_lookup c ip =
     (case arp_slot (map ae_ip (arp_entries c)) ip of
        None \<Rightarrow> None
      | Some j \<Rightarrow> if ae_ip (arp_entries c ! j) = 0 then None else Some (ae_mac (arp_entries c ! j)))"

definition arp_cache_insert :: "u32 \<Rightarrow> arp_cache \<Rightarrow> u32 \<Rightarrow> u8 list \<Rightarrow> arp_cache" where
  "arp_cache_insert now c ip mac =
     (case arp_slot (map ae_ip (arp_entries c)) ip of
        None \<Rightarrow> c
      | Some j \<Rightarrow> c\<lparr> arp_entries := (arp_entries c)[j := \<lparr> ae_ip = ip, ae_mac = mac, ae_last_seen = now \<rparr>], arp_dirty := True \<rparr>)"

text \<open>The persisted file: one line per occupied entry, the address in host byte order.\<close>

definition arp_cache_save :: "arp_cache \<Rightarrow> (u32 \<times> u8 list) list \<times> arp_cache" where
  "arp_cache_save c = (map (\<lambda>e. (htonl (ae_ip e), ae_mac e)) (filter (\<lambda>e. ae_ip e \<noteq> 0) (arp_entries c)),
     c\<lparr> arp_dirty := False \<rparr>)"

definition arp_cache_load :: "u32 \<Rightarrow> arp_cache \<Rightarrow> (u32 \<times> u8 list) list \<Rightarrow> arp_cache" where
  "arp_cache_load now c ls =
     (foldl (\<lambda>c l. arp_cache_insert now c (htonl (fst l)) (snd l)) c ls)\<lparr> arp_dirty := False \<rparr>"

text \<open>The request frame (\<open>arp_send_request\<close>); \<open>None\<close> when the interface has no address to send from.\<close>

definition arp_request_frame :: "arp_cache \<Rightarrow> u8 list \<Rightarrow> u8 list \<Rightarrow> u8 list option" where
  "arp_request_frame c if_ip target_ip =
     (if \<not> mac_is_nonzero6 (arp_if_mac c) \<or> arp_if_ip c = 0 then None
      else Some (replicate 6 0xFF @ arp_if_mac c @ [0x08, 0x06] @ [0, 1] @ [0x08, 0x00] @ [6, 4] @ [0, 1]
                 @ arp_if_mac c @ if_ip @ replicate 6 0 @ target_ip))"

text \<open>One received frame of \<open>arp_listener_thread\<close>: only ARP replies with a usable sender address are learned.\<close>

definition arp_listener_frame :: "u32 \<Rightarrow> arp_cache \<Rightarrow> buf \<Rightarrow> arp_cache" where
  "arp_listener_frame now c frame =
     (if length frame < 14 + 28 then c
      else if be16_of (frame ! 12) (frame ! 13) \<noteq> 0x0806 then c
      else if be16_of (frame ! 20) (frame ! 21) \<noteq> 2 then c
      else let spa = le32_of (frame ! 28) (frame ! 29) (frame ! 30) (frame ! 31);
               mac = take 6 (drop 22 frame)
           in if \<not> mac_is_nonzero6 mac then c else arp_cache_insert now c spa mac)"

text \<open>The rewriting of the Ethernet addresses. The result is the C value, the address for which a request
  is sent, and the packet.\<close>

definition put_macs :: "buf \<Rightarrow> u8 list \<Rightarrow> u8 list \<Rightarrow> buf option" where
  "put_macs pkt dst src = do { pkt \<leftarrow> wrn pkt 0 dst; wrn pkt 6 src }"

definition wan_rewrite_dest_mac ::
  "arp_cache \<Rightarrow> wan_config \<Rightarrow> u8 list \<Rightarrow> u8 list \<Rightarrow> buf \<Rightarrow> (int \<times> u32 option \<times> buf) option" where
  "wan_rewrite_dest_mac cache cfg iface_dst_mac iface_src_mac pkt =
     (if wc_dst_ip cfg \<noteq> 0 then
        (case arp_cache_lookup cache (wc_dst_ip cfg) of
           Some mac \<Rightarrow> do { pkt \<leftarrow> put_macs pkt mac (arp_if_mac cache); Some (0, None, pkt) }
         | None \<Rightarrow> Some (-1, Some (wc_dst_ip cfg), pkt))
      else do { pkt \<leftarrow> put_macs pkt iface_dst_mac iface_src_mac; Some (0, None, pkt) })"

definition local_rewrite_dest_mac :: "arp_cache \<Rightarrow> u32 \<Rightarrow> buf \<Rightarrow> (int \<times> u32 option \<times> buf) option" where
  "local_rewrite_dest_mac cache dest_ip pkt =
     (if dest_ip = 0 then Some (-1, None, pkt)
      else case arp_cache_lookup cache dest_ip of
        Some mac \<Rightarrow> do { pkt \<leftarrow> put_macs pkt mac (arp_if_mac cache); Some (0, None, pkt) }
      | None \<Rightarrow> Some (-1, Some dest_ip, pkt))"

text \<open>The hosts that a policy names on a local network.\<close>

definition ip_on_local_subnet :: "local_config \<Rightarrow> u32 \<Rightarrow> bool" where
  "ip_on_local_subnet loc ip = (ip \<noteq> 0 \<and> lc_netmask loc \<noteq> 0 \<and> (ip AND lc_netmask loc) = lc_network loc)"

definition policy_hosts :: "crypto_policy \<Rightarrow> u32 list" where
  "policy_hosts p =
     (if \<not> cp_src_any p \<and> cp_src_mask p = 0xFFFFFFFF then [cp_src_net p] else []) @
     (if \<not> cp_dst_any p \<and> cp_dst_mask p = 0xFFFFFFFF then [cp_dst_net p] else [])"

fun first_resolved :: "arp_cache \<Rightarrow> local_config \<Rightarrow> u32 list \<Rightarrow> u8 list option" where
  "first_resolved c loc [] = None"
| "first_resolved c loc (ip # ips) =
     (if ip = 0 \<or> \<not> ip_on_local_subnet loc ip then first_resolved c loc ips
      else case arp_cache_lookup c ip of Some mac \<Rightarrow> Some mac | None \<Rightarrow> first_resolved c loc ips)"

definition local_sync_primary_peer_mac :: "arp_cache \<Rightarrow> app_config \<Rightarrow> int \<Rightarrow> app_config" where
  "local_sync_primary_peer_mac c cfg local_idx =
     (if local_idx < 0 \<or> local_idx \<ge> int (length (ac_locals cfg)) then cfg
      else let i = nat local_idx; loc = ac_locals cfg ! i;
               mac = first_resolved c loc (concat (map policy_hosts (ac_policies cfg)))
           in cfg\<lparr> ac_locals := (ac_locals cfg)[i := loc\<lparr> lc_dst_mac := (case mac of Some m \<Rightarrow> m | None \<Rightarrow> replicate 6 0) \<rparr>] \<rparr>)"

text \<open>\<open>lan_arp_resolve_policy_hosts\<close>: the hosts asked for, without the repetitions among the first 32.\<close>

fun resolve_hosts :: "local_config \<Rightarrow> u32 list \<Rightarrow> u32 list \<Rightarrow> u32 list" where
  "resolve_hosts loc seen [] = []"
| "resolve_hosts loc seen (ip # ips) =
     (if ip = 0 \<or> \<not> ip_on_local_subnet loc ip then resolve_hosts loc seen ips
      else if ip \<in> set seen then resolve_hosts loc seen ips
      else ip # resolve_hosts loc (if length seen < 32 then seen @ [ip] else seen) ips)"

definition lan_arp_resolve_policy_hosts :: "app_config \<Rightarrow> int \<Rightarrow> u32 list" where
  "lan_arp_resolve_policy_hosts cfg local_idx =
     (if local_idx < 0 \<or> local_idx \<ge> int (length (ac_locals cfg)) then []
      else resolve_hosts (ac_locals cfg ! nat local_idx) [] (concat (map policy_hosts (ac_policies cfg))))"

section \<open>The probe sequence\<close>

lemma unat_and_2047: "unat ((w :: u32) AND 2047) = unat w mod 2048"
proof -
  have "(2047 :: u32) = mask 11" by (simp add: mask_eq_exp_minus_1)
  then have "w AND 2047 = take_bit 11 w" by (simp only: take_bit_eq_mask)
  moreover have "unat (take_bit 11 w) = take_bit 11 (unat w)" by (rule unsigned_take_bit_eq)
  moreover have "take_bit 11 (unat w) = unat w mod 2048" by (simp add: take_bit_eq_mod)
  ultimately show ?thesis by (simp only:)
qed

lemma arp_probe_mod: "arp_probe ip i = (unat (arp_hash ip) + i) mod ARP_CACHE_SIZE"
proof -
  have "unat (arp_hash ip + of_nat i) = (unat (arp_hash ip) + i) mod 2 ^ 32"
    by (simp add: unat_word_ariths unat_of_nat mod_simps)
  then have "unat ((arp_hash ip + of_nat i) AND 2047) = ((unat (arp_hash ip) + i) mod 2 ^ 32) mod 2048"
    by (simp add: unat_and_2047)
  also have "\<dots> = (unat (arp_hash ip) + i) mod 2048" by (rule mod_mod_cancel) simp
  finally show ?thesis by (simp add: arp_probe_def ARP_CACHE_SIZE_def)
qed

lemma arp_probe_less: "arp_probe ip i < ARP_CACHE_SIZE"
  by (simp add: arp_probe_mod ARP_CACHE_SIZE_def)

lemma arp_probe_covers:
  assumes "j < ARP_CACHE_SIZE"
  shows "\<exists>i < ARP_CACHE_SIZE. arp_probe ip i = j"
proof -
  let ?h = "unat (arp_hash ip) mod ARP_CACHE_SIZE"
  let ?i = "(j + (ARP_CACHE_SIZE - ?h)) mod ARP_CACHE_SIZE"
  have h: "?h < ARP_CACHE_SIZE" using assms by simp
  have "(unat (arp_hash ip) + ?i) mod ARP_CACHE_SIZE = (?h + (j + (ARP_CACHE_SIZE - ?h))) mod ARP_CACHE_SIZE"
    by (metis mod_add_left_eq mod_add_right_eq)
  also have "\<dots> = (j + ARP_CACHE_SIZE) mod ARP_CACHE_SIZE" using h by simp
  also have "\<dots> = j" using assms by simp
  finally show ?thesis using assms by (intro exI [of _ ?i]) (simp add: arp_probe_mod)
qed

text \<open>\<open>arp_slot\<close> is the first probed slot that is empty or holds the address.\<close>

lemma find_upt: "List.find P [0..<n] = Some i \<longleftrightarrow> i < n \<and> P i \<and> (\<forall>k < i. \<not> P k)"
proof -
  have "(\<exists>l < n. P ([0..<n] ! l) \<and> i = [0..<n] ! l \<and> (\<forall>j < l. \<not> P ([0..<n] ! j))) \<longleftrightarrow> i < n \<and> P i \<and> (\<forall>k < i. \<not> P k)"
    by (rule iffI) (auto intro!: exI [of _ i])
  then show ?thesis by (simp add: find_Some_iff)
qed

lemma arp_slot_Some:
  "arp_slot ips ip = Some j \<longleftrightarrow>
     (\<exists>i < ARP_CACHE_SIZE. j = arp_probe ip i \<and> (ips ! j = 0 \<or> ips ! j = ip) \<and>
        (\<forall>k < i. ips ! arp_probe ip k \<noteq> 0 \<and> ips ! arp_probe ip k \<noteq> ip))"
  by (auto simp: arp_slot_def find_upt)

lemma arp_slot_None:
  "arp_slot ips ip = None \<longleftrightarrow> (\<forall>j < ARP_CACHE_SIZE. ips ! j \<noteq> 0 \<and> ips ! j \<noteq> ip)"
  using arp_probe_covers [of _ ip] arp_probe_less [of ip] by (auto simp: arp_slot_def find_None_iff) metis+

text \<open>Every stored address is found at its own slot.\<close>

definition arp_ips_ok :: "u32 list \<Rightarrow> bool" where
  "arp_ips_ok ips = (length ips = ARP_CACHE_SIZE \<and>
     (\<forall>j < ARP_CACHE_SIZE. ips ! j \<noteq> 0 \<longrightarrow> arp_slot ips (ips ! j) = Some j))"

definition arp_cache_ok :: "arp_cache \<Rightarrow> bool" where
  "arp_cache_ok c = arp_ips_ok (map ae_ip (arp_entries c))"

lemma arp_slot_bound: "arp_slot ips ip = Some j \<Longrightarrow> j < ARP_CACHE_SIZE"
  by (auto simp: arp_slot_Some arp_probe_less)

text \<open>Filling the slot found for an address does not change the slot of any other stored address.\<close>

lemma arp_slot_insert_stored:
  assumes "arp_slot ips k = Some j" "ips ! j = 0" "length ips = ARP_CACHE_SIZE" "arp_slot ips k' = Some j'" "j' \<noteq> j" "k \<noteq> 0"
  shows "arp_slot (ips[j := k]) k' = Some j'"
proof -
  from assms(4) obtain i where i: "i < ARP_CACHE_SIZE" "j' = arp_probe k' i" "ips ! j' = 0 \<or> ips ! j' = k'"
    "\<forall>l < i. ips ! arp_probe k' l \<noteq> 0 \<and> ips ! arp_probe k' l \<noteq> k'" by (auto simp: arp_slot_Some)
  have "ips[j := k] ! arp_probe k' l = ips ! arp_probe k' l" if "l < i" for l
    using i(4) that assms(2) by (metis nth_list_update_neq)
  moreover have "ips[j := k] ! j' = ips ! j'" using assms(5) by simp
  ultimately show ?thesis unfolding arp_slot_Some using i by auto
qed

lemma arp_slot_insert_own:
  assumes "arp_slot ips k = Some j" "length ips = ARP_CACHE_SIZE"
  shows "arp_slot (ips[j := k]) k = Some j"
proof -
  from assms(1) obtain i where i: "i < ARP_CACHE_SIZE" "j = arp_probe k i"
    "\<forall>l < i. ips ! arp_probe k l \<noteq> 0 \<and> ips ! arp_probe k l \<noteq> k" "ips ! j = 0 \<or> ips ! j = k" by (auto simp: arp_slot_Some)
  have "ips[j := k] ! arp_probe k l = ips ! arp_probe k l" if "l < i" for l
    using i(3,4) that by (metis nth_list_update_neq)
  then show ?thesis unfolding arp_slot_Some using i assms(2) arp_probe_less [of k i]
    by (intro exI [of _ i]) auto
qed

lemma arp_ips_insert_ok:
  assumes "arp_ips_ok ips" "arp_slot ips k = Some j" "k \<noteq> 0"
  shows "arp_ips_ok (ips[j := k])"
proof -
  have l: "length ips = ARP_CACHE_SIZE" using assms(1) by (simp add: arp_ips_ok_def)
  have jl: "j < ARP_CACHE_SIZE" by (rule arp_slot_bound [OF assms(2)])
  have "arp_slot (ips[j := k]) (ips[j := k] ! j') = Some j'" if "j' < ARP_CACHE_SIZE" "ips[j := k] ! j' \<noteq> 0" for j'
  proof (cases "j' = j")
    case True
    then show ?thesis using arp_slot_insert_own [OF assms(2) l] l jl by simp
  next
    case False
    then have s: "arp_slot ips (ips ! j') = Some j'" using assms(1) that by (simp add: arp_ips_ok_def)
    show ?thesis
    proof (cases "ips ! j = 0")
      case True
      then show ?thesis using arp_slot_insert_stored [OF assms(2) True l s False assms(3)] False by simp
    next
      case F: False
      then have "ips ! j = k" using assms(2) by (auto simp: arp_slot_Some)
      then have "ips[j := k] = ips" by (metis list_update_id)
      then show ?thesis using s by simp
    qed
  qed
  then show ?thesis using l by (simp add: arp_ips_ok_def)
qed

lemma arp_slot_other:
  assumes "arp_ips_ok ips" "arp_slot ips k = Some j" "k \<noteq> 0" "k' \<noteq> k" "k' \<noteq> 0"
  shows "(case arp_slot (ips[j := k]) k' of Some i \<Rightarrow> if ips[j := k] ! i = 0 then None else Some i | None \<Rightarrow> None)
    = (case arp_slot ips k' of Some i \<Rightarrow> if ips ! i = 0 then None else Some i | None \<Rightarrow> None)"
proof -
  have l: "length ips = ARP_CACHE_SIZE" using assms(1) by (simp add: arp_ips_ok_def)
  have jl: "j < ARP_CACHE_SIZE" by (rule arp_slot_bound [OF assms(2)])
  have ok': "arp_ips_ok (ips[j := k])" by (rule arp_ips_insert_ok [OF assms(1-3)])
  have jv: "ips ! j = 0 \<or> ips ! j = k" using assms(2) by (auto simp: arp_slot_Some)
  have stored: "(case arp_slot xs k' of Some i \<Rightarrow> if xs ! i = 0 then None else Some i | None \<Rightarrow> None) =
      (if \<exists>i < ARP_CACHE_SIZE. xs ! i = k' then Some (THE i. i < ARP_CACHE_SIZE \<and> xs ! i = k') else None)" if "arp_ips_ok xs" for xs
  proof (cases "\<exists>i < ARP_CACHE_SIZE. xs ! i = k'")
    case True
    then obtain i where i: "i < ARP_CACHE_SIZE" "xs ! i = k'" by blast
    have s: "arp_slot xs k' = Some i" using that i assms(5) by (auto simp: arp_ips_ok_def)
    have "(THE i. i < ARP_CACHE_SIZE \<and> xs ! i = k') = i"
    proof (rule the_equality)
      fix i' assume "i' < ARP_CACHE_SIZE \<and> xs ! i' = k'"
      then have "arp_slot xs k' = Some i'" using that assms(5) by (auto simp: arp_ips_ok_def)
      then show "i' = i" using s by simp
    qed (use i in simp)
    then show ?thesis using s i assms(5) True by simp
  next
    case False
    have "xs ! i = 0" if "arp_slot xs k' = Some i" for i
      using that False arp_slot_bound [OF that] by (auto simp: arp_slot_Some)
    then show ?thesis using False by (simp split: option.split)
  qed
  have "ips[j := k] ! i = k' \<longleftrightarrow> ips ! i = k'" if "i < ARP_CACHE_SIZE" for i
    using that jv assms(4,5) l jl by (cases "i = j") auto
  then show ?thesis unfolding stored [OF assms(1)] stored [OF ok'] by (simp cong: conj_cong)
qed

section \<open>The cache is a store addressed by IP address\<close>

definition arp_find :: "u32 list \<Rightarrow> u32 \<Rightarrow> nat option" where
  "arp_find ips ip = (case arp_slot ips ip of Some i \<Rightarrow> if ips ! i = 0 then None else Some i | None \<Rightarrow> None)"

definition arp_ips :: "arp_cache \<Rightarrow> u32 list" where
  "arp_ips c = map ae_ip (arp_entries c)"

lemma arp_ok_length: "arp_cache_ok c \<Longrightarrow> length (arp_entries c) = ARP_CACHE_SIZE"
  by (simp add: arp_cache_ok_def arp_ips_ok_def)

lemma arp_find_bound: "arp_find ips ip = Some j \<Longrightarrow> j < ARP_CACHE_SIZE"
  by (auto simp: arp_find_def arp_slot_bound split: option.splits if_splits)

lemma arp_lookup_find:
  assumes "arp_cache_ok c"
  shows "arp_cache_lookup c ip = map_option (\<lambda>j. ae_mac (arp_entries c ! j)) (arp_find (arp_ips c) ip)"
  using arp_ok_length [OF assms] arp_slot_bound [of "arp_ips c" ip]
  by (auto simp: arp_cache_lookup_def arp_find_def arp_ips_def split: option.splits)

lemma arp_lookup_zero: "arp_cache_ok c \<Longrightarrow> arp_cache_lookup c 0 = None"
  by (auto simp: arp_lookup_find arp_find_def arp_slot_Some split: option.splits)

lemma arp_find_other:
  "arp_ips_ok ips \<Longrightarrow> arp_slot ips k = Some j \<Longrightarrow> k \<noteq> 0 \<Longrightarrow> k' \<noteq> k \<Longrightarrow> k' \<noteq> 0 \<Longrightarrow> arp_find (ips[j := k]) k' = arp_find ips k'"
  unfolding arp_find_def by (rule arp_slot_other)

lemma arp_insert_cases:
  assumes "arp_cache_ok c"
  obtains "arp_slot (arp_ips c) ip = None" "arp_cache_insert now c ip mac = c"
    | j where "arp_slot (arp_ips c) ip = Some j" "j < ARP_CACHE_SIZE"
      "arp_entries (arp_cache_insert now c ip mac) = (arp_entries c)[j := \<lparr> ae_ip = ip, ae_mac = mac, ae_last_seen = now \<rparr>]"
      "arp_ips (arp_cache_insert now c ip mac) = (arp_ips c)[j := ip]"
proof (cases "arp_slot (arp_ips c) ip")
  case None
  then show ?thesis using that(1) by (simp add: arp_cache_insert_def arp_ips_def)
next
  case (Some j)
  then show ?thesis using that(2) arp_slot_bound by (simp add: arp_cache_insert_def arp_ips_def map_update)
qed

lemma arp_zero_slot: "arp_slot ips 0 = Some j \<Longrightarrow> ips[j := 0] = ips"
  by (auto simp: arp_slot_Some) (metis list_update_id)

lemma arp_insert_ok: "arp_cache_ok c \<Longrightarrow> arp_cache_ok (arp_cache_insert now c ip mac)"
proof -
  assume ok: "arp_cache_ok c"
  have ok': "arp_ips_ok (arp_ips c)" using ok by (simp add: arp_cache_ok_def arp_ips_def)
  show ?thesis
  proof (rule arp_insert_cases [OF ok, of ip now mac])
    fix j assume j: "arp_slot (arp_ips c) ip = Some j" "arp_ips (arp_cache_insert now c ip mac) = (arp_ips c)[j := ip]"
    have "arp_ips_ok ((arp_ips c)[j := ip])"
      by (cases "ip = 0") (use j ok' arp_zero_slot arp_ips_insert_ok in auto)
    then show ?thesis using j(2) by (simp add: arp_cache_ok_def arp_ips_def)
  qed (use ok in simp)
qed

definition arp_room :: "arp_cache \<Rightarrow> u32 \<Rightarrow> bool" where
  "arp_room c ip = (ip \<noteq> 0 \<and> arp_slot (arp_ips c) ip \<noteq> None)"

lemma arp_insert_same:
  assumes "arp_cache_ok c" "arp_room c ip"
  shows "arp_cache_lookup (arp_cache_insert now c ip mac) ip = Some mac"
proof (rule arp_insert_cases [OF assms(1), of ip now mac])
  fix j assume j: "arp_slot (arp_ips c) ip = Some j" "j < ARP_CACHE_SIZE"
    "arp_entries (arp_cache_insert now c ip mac) = (arp_entries c)[j := \<lparr> ae_ip = ip, ae_mac = mac, ae_last_seen = now \<rparr>]"
    "arp_ips (arp_cache_insert now c ip mac) = (arp_ips c)[j := ip]"
  have l: "length (arp_ips c) = ARP_CACHE_SIZE" "length (arp_entries c) = ARP_CACHE_SIZE"
    using arp_ok_length [OF assms(1)] by (simp_all add: arp_ips_def)
  have "arp_find ((arp_ips c)[j := ip]) ip = Some j"
    using arp_slot_insert_own [OF j(1) l(1)] assms(2) l j(2) by (simp add: arp_find_def arp_room_def)
  then show ?thesis using arp_lookup_find [OF arp_insert_ok [OF assms(1)]] j l by simp
qed (use assms(2) in \<open>simp add: arp_room_def\<close>)

lemma arp_insert_other:
  assumes "arp_cache_ok c" "ip' \<noteq> ip"
  shows "arp_cache_lookup (arp_cache_insert now c ip mac) ip' = arp_cache_lookup c ip'"
proof (rule arp_insert_cases [OF assms(1), of ip now mac])
  fix j assume j: "arp_slot (arp_ips c) ip = Some j" "j < ARP_CACHE_SIZE"
    "arp_entries (arp_cache_insert now c ip mac) = (arp_entries c)[j := \<lparr> ae_ip = ip, ae_mac = mac, ae_last_seen = now \<rparr>]"
    "arp_ips (arp_cache_insert now c ip mac) = (arp_ips c)[j := ip]"
  have ok: "arp_ips_ok (arp_ips c)" using assms(1) by (simp add: arp_cache_ok_def arp_ips_def)
  have l: "length (arp_entries c) = ARP_CACHE_SIZE" using arp_ok_length [OF assms(1)] .
  show ?thesis
  proof (cases "ip' = 0")
    case True
    then show ?thesis using arp_lookup_zero assms(1) arp_insert_ok by simp
  next
    case nz: False
    have f: "arp_find ((arp_ips c)[j := ip]) ip' = arp_find (arp_ips c) ip'"
    proof (cases "ip = 0")
      case True
      then show ?thesis using arp_zero_slot [of "arp_ips c" j] j(1) by simp
    next
      case False
      then show ?thesis by (rule arp_find_other [OF ok j(1) _ assms(2) nz])
    qed
    have "i \<noteq> j" if "arp_find (arp_ips c) ip' = Some i" for i
    proof
      assume "i = j"
      then have "arp_ips c ! j = ip'" "arp_ips c ! j \<noteq> 0" using that
        by (auto simp: arp_find_def arp_slot_Some split: option.splits if_splits)
      then show False using j(1) assms(2) by (auto simp: arp_slot_Some)
    qed
    then show ?thesis
      unfolding arp_lookup_find [OF arp_insert_ok [OF assms(1)]] arp_lookup_find [OF assms(1)] j(4) f j(3)
      by (cases "arp_find (arp_ips c) ip'") (auto simp: nth_list_update_neq)
  qed
qed simp

lemma arp_insert_full:
  assumes "arp_cache_ok c" "\<not> arp_room c ip"
  shows "arp_cache_lookup (arp_cache_insert now c ip mac) ip = arp_cache_lookup c ip"
proof (cases "ip = 0")
  case True
  then show ?thesis using arp_lookup_zero assms(1) arp_insert_ok by simp
next
  case False
  then show ?thesis using assms by (auto simp: arp_room_def arp_cache_insert_def arp_ips_def)
qed

interpretation arp_store: keyed_store arp_cache_ok arp_room arp_cache_lookup "arp_cache_insert now" for now
  by unfold_locales (simp_all add: arp_insert_ok arp_insert_same arp_insert_other arp_insert_full)


section \<open>Properties\<close>

definition arp_insert_all :: "u32 \<Rightarrow> arp_cache \<Rightarrow> (u32 \<times> u8 list) list \<Rightarrow> arp_cache" where
  "arp_insert_all now = foldl (\<lambda>c kv. arp_cache_insert now c (fst kv) (snd kv))"

lemma arp_insert_all_puts: "arp_insert_all now c kvs = arp_store.puts now c kvs"
  by (simp add: arp_insert_all_def arp_store.puts_def)

lemma arp_if_mac_insert [simp]: "arp_if_mac (arp_cache_insert now c ip mac) = arp_if_mac c"
  by (simp add: arp_cache_insert_def split: option.splits)

lemma arp_if_mac_all [simp]: "arp_if_mac (arp_insert_all now c kvs) = arp_if_mac c"
  unfolding arp_insert_all_def by (induction kvs arbitrary: c) simp_all

text \<open>C26: an address learned from an ARP reply is used: after the listener received a reply of \<open>ip\<close> at \<open>mac\<close>, and
  whatever other addresses are learned afterwards, \<open>local_rewrite_dest_mac\<close> sends packets for \<open>ip\<close> to \<open>mac\<close>
  from the interface's own address and changes nothing else in the packet; frames that are no usable
  reply change nothing.\<close>

theorem arp_reply_is_used:
  assumes "arp_cache_ok c" "42 \<le> length frame" "be16_of (frame ! 12) (frame ! 13) = 0x0806" "be16_of (frame ! 20) (frame ! 21) = 2"
    and "ip = le32_of (frame ! 28) (frame ! 29) (frame ! 30) (frame ! 31)" "mac = take 6 (drop 22 frame)" "mac_is_nonzero6 mac"
    and "arp_room c ip" "ip \<notin> fst ` set later" "length pkt = 12 + n" "length (arp_if_mac c) = 6"
  shows "local_rewrite_dest_mac (arp_insert_all t2 (arp_listener_frame t1 c frame) later) ip pkt
      = Some (0, None, mac @ arp_if_mac c @ drop 12 pkt) \<and>
    (\<forall>bad. length bad < 42 \<or> be16_of (bad ! 12) (bad ! 13) \<noteq> 0x0806 \<or> be16_of (bad ! 20) (bad ! 21) \<noteq> 2
       \<longrightarrow> arp_listener_frame t1 c bad = c)"
proof
  have f: "arp_listener_frame t1 c frame = arp_cache_insert t1 c ip mac"
    using assms(2-7) by (simp add: arp_listener_frame_def)
  have nz: "ip \<noteq> 0" using assms(8) by (simp add: arp_room_def)
  have "arp_cache_lookup (arp_insert_all t2 (arp_cache_insert t1 c ip mac) later) ip = Some mac"
    unfolding arp_insert_all_puts
    using arp_store.get_puts_other [OF arp_store.put_inv [OF assms(1)] assms(9)] arp_store.get_put_same [OF assms(1,8)] by simp
  moreover have "length mac = 6" using assms(2,6) by simp
  ultimately show "local_rewrite_dest_mac (arp_insert_all t2 (arp_listener_frame t1 c frame) later) ip pkt
      = Some (0, None, mac @ arp_if_mac c @ drop 12 pkt)"
    using nz f assms(10,11) by (simp add: local_rewrite_dest_mac_def put_macs_def)
qed (simp add: arp_listener_frame_def)

lemma arp_empty_nth: "i < ARP_CACHE_SIZE \<Longrightarrow> arp_ips (arp_cache_empty m a) ! i = 0"
  by (simp add: arp_ips_def arp_cache_empty_def)

lemma arp_empty_ok: "arp_cache_ok (arp_cache_empty m a)"
  using arp_empty_nth [of _ m a] by (simp add: arp_cache_ok_def arp_ips_ok_def arp_ips_def [symmetric])
    (simp add: arp_ips_def arp_cache_empty_def)

lemma arp_empty_room: "ip \<noteq> 0 \<Longrightarrow> arp_room (arp_cache_empty m a) ip"
  using arp_empty_nth [of 0 m a] by (auto simp: arp_room_def arp_slot_None ARP_CACHE_SIZE_def intro!: exI [of _ 0])

lemma arp_empty_lookup: "arp_cache_lookup (arp_cache_empty m a) ip = None"
  using arp_slot_bound [of "arp_ips (arp_cache_empty m a)" ip] arp_empty_nth [of _ m a]
  by (auto simp: arp_lookup_find [OF arp_empty_ok] arp_find_def split: option.splits)

theorem arp_reply_is_used_witness:
  "local_rewrite_dest_mac (arp_insert_all 9
      (arp_listener_frame 5 (arp_cache_empty [2, 0, 0, 0, 0, 9] 7)
        (replicate 12 0 @ [8, 6] @ [0, 1, 8, 0, 6, 4, 0, 2] @ [2, 0, 0, 0, 0, 7] @ [10, 0, 0, 1] @ replicate 10 0))
      [(0x0200000A, [2, 0, 0, 0, 0, 1])]) 0x0100000A (replicate 14 0)
     = Some (0, None, [2, 0, 0, 0, 0, 7] @ [2, 0, 0, 0, 0, 9] @ [0, 0])"
proof -
  let ?c = "arp_cache_empty [2, 0, 0, 0, 0, 9] 7"
  let ?f = "replicate 12 0 @ [8, 6] @ [0, 1, 8, 0, 6, 4, 0, 2] @ [2, 0, 0, 0, 0, 7] @ [10, 0, 0, 1] @ replicate 10 (0 :: u8)"
  have m: "arp_if_mac ?c = [2, 0, 0, 0, 0, 9]" by (simp add: arp_cache_empty_def)
  have "local_rewrite_dest_mac (arp_insert_all 9 (arp_listener_frame 5 ?c ?f) [(0x0200000A, [2, 0, 0, 0, 0, 1])]) 0x0100000A
      (replicate 14 0) = Some (0, None, [2, 0, 0, 0, 0, 7] @ arp_if_mac ?c @ drop 12 (replicate 14 0)) \<and>
    (\<forall>bad. length bad < 42 \<or> be16_of (bad ! 12) (bad ! 13) \<noteq> 0x0806 \<or> be16_of (bad ! 20) (bad ! 21) \<noteq> 2
       \<longrightarrow> arp_listener_frame 5 ?c bad = ?c)"
    by (rule arp_reply_is_used [OF arp_empty_ok, where n = 2])
       (simp_all add: arp_empty_room m nth_append be16_of_def le32_of_def mac_is_nonzero6_def)
  then show ?thesis unfolding m by (simp add: numeral_2_eq_2)
qed

text \<open>Saving and loading.\<close>

lemma filter_update_le: "length (filter P (xs[j := k])) \<le> Suc (length (filter P xs))"
proof (induction xs arbitrary: j)
  case (Cons x xs)
  then show ?case by (cases j) (auto simp: le_SucI)
qed simp

definition arp_used :: "arp_cache \<Rightarrow> nat" where
  "arp_used c = length (filter (\<lambda>ip. ip \<noteq> 0) (arp_ips c))"

lemma arp_used_room:
  assumes "arp_cache_ok c" "arp_used c < ARP_CACHE_SIZE" "ip \<noteq> 0"
  shows "arp_room c ip"
proof -
  have l: "length (arp_ips c) = ARP_CACHE_SIZE" using arp_ok_length [OF assms(1)] by (simp add: arp_ips_def)
  have "\<exists>j < ARP_CACHE_SIZE. arp_ips c ! j = 0"
  proof (rule ccontr)
    assume "\<not> ?thesis"
    then have "\<forall>x \<in> set (arp_ips c). x \<noteq> 0" using l by (metis in_set_conv_nth)
    then have "filter (\<lambda>ip. ip \<noteq> 0) (arp_ips c) = arp_ips c" by (simp add: filter_id_conv)
    then show False using assms(2) l by (simp add: arp_used_def)
  qed
  then show ?thesis using assms(3) arp_slot_None [of "arp_ips c" ip] by (auto simp: arp_room_def)
qed

lemma arp_used_insert: "arp_cache_ok c \<Longrightarrow> arp_used (arp_cache_insert now c ip mac) \<le> Suc (arp_used c)"
  by (rule arp_insert_cases [of c ip now mac]) (simp_all add: arp_used_def filter_update_le)

lemma arp_insert_all_lookup:
  assumes "arp_cache_ok c" "arp_used c + length kvs \<le> ARP_CACHE_SIZE" "distinct (map fst kvs)" "0 \<notin> fst ` set kvs"
  shows "arp_cache_lookup (arp_insert_all now c kvs) ip =
    (case map_of kvs ip of Some m \<Rightarrow> Some m | None \<Rightarrow> arp_cache_lookup c ip)"
  using assms
proof (induction kvs arbitrary: c)
  case (Cons kv kvs)
  obtain k v where kv: "kv = (k, v)" by fastforce
  let ?c = "arp_cache_insert now c k v"
  have "arp_room c k" by (rule arp_used_room) (use Cons.prems kv in auto)
  then have g: "arp_cache_lookup ?c x = (if x = k then Some v else arp_cache_lookup c x)" for x
    using arp_store.get_put [OF Cons.prems(1)] by simp
  have "arp_cache_ok ?c" "arp_used ?c + length kvs \<le> ARP_CACHE_SIZE"
    using Cons.prems arp_store.put_inv arp_used_insert [of c now k v] by auto
  from Cons.IH [OF this] show ?case using Cons.prems g kv
    by (auto simp: arp_insert_all_def image_iff split: option.splits dest: map_of_SomeD)
qed (simp add: arp_insert_all_def)

lemma arp_entry_found:
  assumes "arp_cache_ok c" "e \<in> set (arp_entries c)" "ae_ip e \<noteq> 0"
  shows "arp_cache_lookup c (ae_ip e) = Some (ae_mac e)"
proof -
  obtain j where j: "j < ARP_CACHE_SIZE" "arp_entries c ! j = e"
    using assms(2) arp_ok_length [OF assms(1)] by (metis in_set_conv_nth)
  have v: "arp_ips c ! j = ae_ip e" using j arp_ok_length [OF assms(1)] by (simp add: arp_ips_def)
  then have "arp_slot (arp_ips c) (ae_ip e) = Some j"
    using assms(1,3) j(1) by (auto simp: arp_cache_ok_def arp_ips_ok_def arp_ips_def [symmetric])
  then show ?thesis using v assms(3) j by (simp add: arp_lookup_find [OF assms(1)] arp_find_def)
qed

lemma arp_found_entry:
  assumes "arp_cache_ok c" "arp_cache_lookup c ip = Some m"
  shows "ip \<noteq> 0 \<and> (\<exists>e \<in> set (arp_entries c). ae_ip e = ip \<and> ae_mac e = m)"
proof -
  obtain j where j: "arp_find (arp_ips c) ip = Some j" "m = ae_mac (arp_entries c ! j)"
    using assms(2) by (auto simp: arp_lookup_find [OF assms(1)])
  have b: "j < ARP_CACHE_SIZE" by (rule arp_find_bound [OF j(1)])
  have "arp_ips c ! j = ip" "ip \<noteq> 0"
    using j(1) by (auto simp: arp_find_def arp_slot_Some split: option.splits if_splits)
  moreover have "arp_ips c ! j = ae_ip (arp_entries c ! j)" using b arp_ok_length [OF assms(1)] by (simp add: arp_ips_def)
  ultimately show ?thesis using j(2) b arp_ok_length [OF assms(1)] nth_mem by metis
qed

lemma distinct_filter_nth:
  "(\<forall>i < length xs. \<forall>j < length xs. xs ! i = xs ! j \<longrightarrow> P (xs ! i) \<longrightarrow> i = j) \<Longrightarrow> distinct (filter P xs)"
proof (induction xs)
  case (Cons x xs)
  have "\<forall>i < length xs. \<forall>j < length xs. xs ! i = xs ! j \<longrightarrow> P (xs ! i) \<longrightarrow> i = j"
    using Cons.prems by (metis Suc_less_eq length_Cons nat.inject nth_Cons_Suc)
  moreover have "x \<notin> set xs" if "P x"
  proof
    assume "x \<in> set xs"
    then obtain i where "i < length xs" "xs ! i = x" by (metis in_set_conv_nth)
    moreover have "0 < length (x # xs)" "Suc i < length (x # xs)" using calculation by simp_all
    ultimately have "0 = Suc i" using Cons.prems that by (metis nth_Cons_0 nth_Cons_Suc)
    then show False by simp
  qed
  ultimately show ?case using Cons.IH by simp
qed simp

lemma arp_entries_distinct:
  assumes "arp_cache_ok c"
  shows "distinct (map ae_ip (filter (\<lambda>e. ae_ip e \<noteq> 0) (arp_entries c)))"
proof -
  have "i = j" if "i < length (arp_ips c)" "j < length (arp_ips c)" "arp_ips c ! i = arp_ips c ! j" "arp_ips c ! i \<noteq> 0" for i j
    using that assms by (auto simp: arp_cache_ok_def arp_ips_ok_def arp_ips_def [symmetric]) (metis option.inject)
  then have "distinct (filter (\<lambda>x. x \<noteq> 0) (arp_ips c))" by (intro distinct_filter_nth) blast
  then show ?thesis by (simp add: arp_ips_def filter_map comp_def)
qed


text \<open>The ARP cache survives a restart: loading into an empty cache the lines that \<open>arp_cache_save\<close> wrote gives
  a cache that answers every lookup as the saved one did.\<close>

lemma arp_persist_roundtrip:
  assumes "arp_cache_ok c"
  shows "arp_cache_lookup (arp_cache_load now (arp_cache_empty m a) (fst (arp_cache_save c))) ip = arp_cache_lookup c ip"
proof -
  define kvs where "kvs = map (\<lambda>e. (ae_ip e, ae_mac e)) (filter (\<lambda>e. ae_ip e \<noteq> 0) (arp_entries c))"
  let ?d = "arp_insert_all now (arp_cache_empty m a) kvs"
  have l: "arp_cache_load now (arp_cache_empty m a) (fst (arp_cache_save c)) = ?d\<lparr>arp_dirty := False\<rparr>"
    by (simp add: arp_cache_load_def arp_cache_save_def arp_insert_all_def kvs_def foldl_map)
  have u: "arp_cache_lookup (x\<lparr>arp_dirty := False\<rparr>) ip = arp_cache_lookup x ip" for x
    by (simp add: arp_cache_lookup_def cong: option.case_cong if_cong)
  have k: "distinct (map fst kvs)" "0 \<notin> fst ` set kvs" "length kvs \<le> ARP_CACHE_SIZE"
    using arp_entries_distinct [OF assms] arp_ok_length [OF assms] by (auto simp: kvs_def comp_def)
       (metis length_filter_le)
  have "arp_used (arp_cache_empty m a) = 0" by (simp add: arp_used_def arp_ips_def arp_cache_empty_def)
  then have e: "arp_cache_lookup ?d ip = map_of kvs ip"
    using arp_insert_all_lookup [OF arp_empty_ok _ k(1,2), of m a now ip] k(3)
    by (simp add: arp_empty_lookup split: option.split)
  have "map_of kvs ip = Some v \<longleftrightarrow> arp_cache_lookup c ip = Some v" for v
    using arp_entry_found [OF assms] arp_found_entry [OF assms, of ip v] k(1)
    by (auto simp: map_of_eq_Some_iff kvs_def)
  then have "map_of kvs ip = arp_cache_lookup c ip" by (metis option.exhaust)
  then show ?thesis using l u e by simp
qed

end
