(* ===== verification/CryptoRuntime.thy ===== *)
theory CryptoRuntime
  imports Dispatch PolicyPin
begin

text \<open>
  The crypto runtime of \<open>src/core/forwarder.c\<close>: the contexts of the policies in force, the index from
  layer and wire id to policy, their replacement on a hot reload (contexts of unchanged policies are
  kept, the others are derived again), the copy kept for the grace period, and the comparison of
  configurations that decides what a reload has to do. The file-scope variables are the fields of one
  record; the arrays of \<open>MAX_CRYPTO_POLICIES\<close> elements are lists of that length. Whether OpenSSL can
  allocate a context is the parameter \<open>alloc\<close>, the clock is \<open>now\<close>.
\<close>

section \<open>State\<close>

record crypto_runtime =
  rt_enabled :: bool
  rt_layer :: int
  rt_base_ctx :: packet_crypto_ctx
  rt_ctx :: "packet_crypto_ctx list"
  rt_ready :: "bool list"
  rt_index :: index_table
  rt_policies :: "crypto_policy list"
  rt_prev_ctx :: "packet_crypto_ctx list"
  rt_prev_ready :: "bool list"
  rt_prev_index :: index_table
  rt_prev_policies :: "crypto_policy list"
  rt_prev_until :: u64

definition blank_ctx :: packet_crypto_ctx where
  "blank_ctx = \<lparr> pc_master_key = replicate 32 0, pc_keys = replicate 3 (replicate 32 0), pc_initialized = False \<rparr>"

definition crypto_runtime_init :: crypto_runtime where
  "crypto_runtime_init = \<lparr> rt_enabled = False, rt_layer = 0, rt_base_ctx = blank_ctx,
     rt_ctx = replicate MAX_CRYPTO_POLICIES blank_ctx, rt_ready = replicate MAX_CRYPTO_POLICIES False,
     rt_index = (\<lambda>a i. 0), rt_policies = [], rt_prev_ctx = replicate MAX_CRYPTO_POLICIES blank_ctx,
     rt_prev_ready = replicate MAX_CRYPTO_POLICIES False, rt_prev_index = (\<lambda>a i. 0),
     rt_prev_policies = [], rt_prev_until = 0 \<rparr>"

definition AES_KEY_LEN :: nat where "AES_KEY_LEN = 32"
definition POLICY_RELOAD_GRACE_MS :: u64 where "POLICY_RELOAD_GRACE_MS = 60000"

section \<open>Comparing configurations\<close>

definition same_topology :: "app_config \<Rightarrow> app_config \<Rightarrow> bool" where
  "same_topology a b =
     (if length (ac_locals a) \<noteq> length (ac_locals b) \<or> length (ac_wans a) \<noteq> length (ac_wans b) then False
      else list_all (\<lambda>(x, y). lc_ifname x = lc_ifname y) (zip (ac_locals a) (ac_locals b))
        \<and> list_all (\<lambda>(x, y). wc_ifname x = wc_ifname y) (zip (ac_wans a) (ac_wans b)))"

definition same_crypto_policy :: "crypto_policy \<Rightarrow> crypto_policy \<Rightarrow> bool" where
  "same_crypto_policy a b \<longleftrightarrow>
     cp_id a = cp_id b \<and> cp_db_id a = cp_db_id b \<and> cp_priority a = cp_priority b \<and>
     cp_action a = cp_action b \<and> cp_protocol a = cp_protocol b \<and>
     cp_src_port_from a = cp_src_port_from b \<and> cp_src_port_to a = cp_src_port_to b \<and>
     cp_dst_port_from a = cp_dst_port_from b \<and> cp_dst_port_to a = cp_dst_port_to b \<and>
     cp_src_any a = cp_src_any b \<and> cp_dst_any a = cp_dst_any b \<and>
     cp_src_negate a = cp_src_negate b \<and> cp_dst_negate a = cp_dst_negate b \<and>
     cp_src_net a = cp_src_net b \<and> cp_src_mask a = cp_src_mask b \<and>
     cp_dst_net a = cp_dst_net b \<and> cp_dst_mask a = cp_dst_mask b \<and>
     cp_crypto_mode a = cp_crypto_mode b \<and> cp_aes_bits a = cp_aes_bits b \<and>
     cp_nonce_size a = cp_nonce_size b \<and> take AES_KEY_LEN (cp_key a) = take AES_KEY_LEN (cp_key b)"

definition crypto_runtime_changed :: "app_config \<Rightarrow> app_config \<Rightarrow> bool" where
  "crypto_runtime_changed a b =
     (if ac_crypto_enabled a \<noteq> ac_crypto_enabled b \<or> ac_encrypt_layer a \<noteq> ac_encrypt_layer b \<or>
         ac_crypto_mode a \<noteq> ac_crypto_mode b \<or> ac_aes_bits a \<noteq> ac_aes_bits b \<or>
         ac_nonce_size a \<noteq> ac_nonce_size b \<or> ac_fake_ethertype_ipv4 a \<noteq> ac_fake_ethertype_ipv4 b \<or>
         ac_fake_protocol a \<noteq> ac_fake_protocol b \<or> length (ac_policies a) \<noteq> length (ac_policies b)
      then True
      else list_ex (\<lambda>(x, y). \<not> same_crypto_policy x y)
             (take MAX_CRYPTO_POLICIES (zip (ac_policies a) (ac_policies b))))"

definition forwarding_runtime_changed :: "app_config \<Rightarrow> app_config \<Rightarrow> bool" where
  "forwarding_runtime_changed a b =
     (length (ac_profiles a) \<noteq> length (ac_profiles b) \<or> length (ac_wans a) \<noteq> length (ac_wans b) \<or>
      length (ac_locals a) \<noteq> length (ac_locals b))"

section \<open>Rebuilding the contexts\<close>

definition key_nonzero :: "crypto_policy \<Rightarrow> bool" where
  "key_nonzero cp = list_ex (\<lambda>k. k \<noteq> 0) (take AES_KEY_LEN (cp_key cp))"

text \<open>The loop over the old policies: the first one that is ready and equal.\<close>

definition reuse_index :: "crypto_runtime \<Rightarrow> crypto_policy \<Rightarrow> nat option" where
  "reuse_index old cp =
     List.find (\<lambda>oi. rt_ready old ! oi \<and> same_crypto_policy (rt_policies old ! oi) cp) [0..<length (rt_policies old)]"

type_synonym rebuild_state = "crypto_runtime \<times> crypto_state \<times> bool"

definition publish_policy :: "nat \<Rightarrow> crypto_policy \<Rightarrow> rebuild_state \<Rightarrow> rebuild_state" where
  "publish_policy pi cp s =
     (let (rt, st, has_encrypt_l2) = s; a = nat (cp_action cp); pid = word_of_int (cp_id cp);
          rt = (if cp_action cp \<ge> 0 \<and> cp_action cp \<le> POLICY_ACTION_ENCRYPT_L4
                then (if rt_index rt a pid < 0
                      then rt\<lparr> rt_index := (rt_index rt)(a := (rt_index rt a)(pid := int pi)) \<rparr> else rt)
                else rt)
      in (rt, st, if cp_action cp = POLICY_ACTION_ENCRYPT_L2 then True else has_encrypt_l2))"

definition rebuild_policy :: "evp_lib \<Rightarrow> bool \<Rightarrow> crypto_runtime \<Rightarrow> nat \<Rightarrow> crypto_policy \<Rightarrow> rebuild_state \<Rightarrow> rebuild_state" where
  "rebuild_policy lib alloc old pi cp s =
     (if cp_action cp = POLICY_ACTION_BYPASS then s
      else if \<not> key_nonzero cp then s
      else let (rt, st, has_encrypt_l2) = s in
        case reuse_index old cp of
          Some oi \<Rightarrow> publish_policy pi cp
            (rt\<lparr> rt_ctx := (rt_ctx rt)[pi := rt_ctx old ! oi], rt_ready := (rt_ready rt)[pi := True] \<rparr>, st, has_encrypt_l2)
        | None \<Rightarrow>
            let (ctx, st) = packet_crypto_init lib (packet_crypto_set_aes_bits (cp_aes_bits cp) st) (cp_key cp);
                rt = rt\<lparr> rt_ctx := (rt_ctx rt)[pi := ctx] \<rparr>
            in if \<not> alloc then (rt, st, has_encrypt_l2)
               else publish_policy pi cp (rt\<lparr> rt_ready := (rt_ready rt)[pi := True] \<rparr>, st, has_encrypt_l2))"

fun rebuild_policies :: "evp_lib \<Rightarrow> bool \<Rightarrow> crypto_runtime \<Rightarrow> nat \<Rightarrow> crypto_policy list \<Rightarrow> rebuild_state \<Rightarrow> rebuild_state" where
  "rebuild_policies lib alloc old pi [] s = s"
| "rebuild_policies lib alloc old pi (cp # cps) s =
     rebuild_policies lib alloc old (pi + 1) cps (rebuild_policy lib alloc old pi cp s)"

definition rebuild_crypto_runtime :: "evp_lib \<Rightarrow> bool \<Rightarrow> app_config \<Rightarrow> crypto_runtime \<Rightarrow> crypto_state \<Rightarrow> rebuild_state" where
  "rebuild_crypto_runtime lib alloc cfg rt st =
     (let rt0 = rt\<lparr> rt_ready := replicate MAX_CRYPTO_POLICIES False, rt_index := (\<lambda>a i. -1) \<rparr>;
          (rt', st, has_encrypt_l2) =
             rebuild_policies lib alloc rt 0 (take MAX_CRYPTO_POLICIES (ac_policies cfg)) (rt0, st, False)
      in (rt'\<lparr> rt_policies := take MAX_CRYPTO_POLICIES (ac_policies cfg) \<rparr>, st, has_encrypt_l2))"

section \<open>The grace period\<close>

definition prev_policy_grace_active :: "u64 \<Rightarrow> crypto_runtime \<Rightarrow> bool" where
  "prev_policy_grace_active now rt =
     (if rt_prev_policies rt = [] then False
      else if now = 0 \<or> rt_prev_until rt = 0 then False else now \<le> rt_prev_until rt)"

definition save_prev_policies :: "u64 \<Rightarrow> crypto_runtime \<Rightarrow> crypto_runtime" where
  "save_prev_policies now rt =
     (if rt_policies rt \<noteq> []
      then rt\<lparr> rt_prev_ctx := rt_ctx rt, rt_prev_ready := rt_ready rt, rt_prev_index := rt_index rt,
               rt_prev_policies := rt_policies rt, rt_prev_until := now + POLICY_RELOAD_GRACE_MS \<rparr>
      else rt\<lparr> rt_prev_ready := replicate MAX_CRYPTO_POLICIES False, rt_prev_index := (\<lambda>a i. -1),
               rt_prev_policies := [], rt_prev_until := 0 \<rparr>)"

section \<open>Initialisation and reload\<close>

text \<open>The crypto part of \<open>forwarder_init\<close>; the configuration's fake EtherType gets its default.\<close>

definition forwarder_init_crypto ::
  "evp_lib \<Rightarrow> bool \<Rightarrow> u64 \<Rightarrow> app_config \<Rightarrow> crypto_runtime \<Rightarrow> crypto_state \<Rightarrow> int \<times> app_config \<times> crypto_runtime \<times> crypto_state" where
  "forwarder_init_crypto lib alloc now cfg rt st =
     (let rt = rt\<lparr> rt_enabled := ac_crypto_enabled cfg, rt_layer := ac_encrypt_layer cfg \<rparr> in
      if \<not> ac_crypto_enabled cfg then (0, cfg, rt\<lparr> rt_policies := [] \<rparr>, st)
      else
        let rt = save_prev_policies now rt;
            (base, st) = packet_crypto_init lib (packet_crypto_set_aes_bits (ac_aes_bits cfg) st) (ac_crypto_key cfg);
            rt = rt\<lparr> rt_base_ctx := base \<rparr>
        in if \<not> alloc then (-1, cfg, rt, st)
        else
          let (rt, st, has_encrypt_l2) = rebuild_crypto_runtime lib alloc cfg rt st;
              st = packet_crypto_set_encrypt_layer (ac_encrypt_layer cfg) st;
              st = packet_crypto_set_mode (ac_crypto_mode cfg) st;
              st = packet_crypto_set_nonce_size (nat (ac_nonce_size cfg)) st;
              cfg = (if has_encrypt_l2 \<and> ac_fake_ethertype_ipv4 cfg = 0 then cfg\<lparr> ac_fake_ethertype_ipv4 := 0x88b5 \<rparr> else cfg);
              st = (if has_encrypt_l2 then packet_crypto_set_fake_ethertype (ac_fake_ethertype_ipv4 cfg) st else st);
              st = (if ac_encrypt_layer cfg = 3
                    then packet_crypto_set_fake_protocol (if ac_fake_protocol cfg \<noteq> 0 then ac_fake_protocol cfg else 99) st
                    else st)
          in (0, cfg, rt, st))"

definition set_queue_counts :: "app_config \<Rightarrow> app_config" where
  "set_queue_counts cfg =
     cfg\<lparr> ac_locals := map (\<lambda>l. l\<lparr> lc_queue_count := 1 \<rparr>) (ac_locals cfg),
          ac_wans := map (\<lambda>w. w\<lparr> wc_queue_count := 1 \<rparr>) (ac_wans cfg) \<rparr>"

text \<open>The result is the C return value, the configuration in force, the runtime, the crypto state of the
  reloading thread and the policy pins. Waiting for the packets in flight is the subject of
  \<open>ReloadGate\<close>.\<close>

definition forwarder_reload_config ::
  "evp_lib \<Rightarrow> bool \<Rightarrow> app_config \<Rightarrow> app_config \<Rightarrow> crypto_runtime \<Rightarrow> crypto_state \<Rightarrow> pin_table
     \<Rightarrow> int \<times> app_config \<times> crypto_runtime \<times> crypto_state \<times> pin_table" where
  "forwarder_reload_config lib alloc fwd_cfg cfg rt st pt =
     (if \<not> same_topology fwd_cfg cfg then (-1, fwd_cfg, rt, st, pt)
      else if \<not> crypto_runtime_changed fwd_cfg cfg \<and> \<not> forwarding_runtime_changed fwd_cfg cfg then (0, cfg, rt, st, pt)
      else
        let need_crypto_reload = crypto_runtime_changed fwd_cfg cfg;
            cfg = set_queue_counts cfg;
            rt = rt\<lparr> rt_enabled := ac_crypto_enabled cfg, rt_layer := ac_encrypt_layer cfg \<rparr>
        in if \<not> (ac_crypto_enabled cfg \<and> need_crypto_reload) then (0, cfg, rt, st, pt)
        else
          let (rt, st, has_encrypt_l2) = rebuild_crypto_runtime lib alloc cfg rt st;
              st = packet_crypto_set_encrypt_layer (ac_encrypt_layer cfg) st;
              st = packet_crypto_set_mode (ac_crypto_mode cfg) st;
              st = packet_crypto_set_nonce_size (nat (ac_nonce_size cfg)) st;
              st = (if has_encrypt_l2 then packet_crypto_set_fake_ethertype (ac_fake_ethertype_ipv4 cfg) st else st);
              st = (if ac_encrypt_layer cfg = 3
                    then packet_crypto_set_fake_protocol (if ac_fake_protocol cfg \<noteq> 0 then ac_fake_protocol cfg else 99) st
                    else st)
          in (0, cfg, rt, st, tcp_policy_pin_clear_all pt))"

section \<open>WAN windows from the profile weights\<close>

definition clamp_u32 :: "int \<Rightarrow> int \<Rightarrow> int \<Rightarrow> int" where
  "clamp_u32 v lo hi = (if v < lo then lo else if v > hi then hi else v)"


definition profile_window :: "int \<Rightarrow> int \<Rightarrow> int" where
  "profile_window sumw w =
     (let base_bytes = WAN_REORDER_WINDOW_KB * 1024; min_bytes = 512 * 1024;
          scaled = (base_bytes * w) div sumw;
          win = (if scaled > 0xFFFFFFFF then 0xFFFFFFFF else scaled)
      in clamp_u32 win min_bytes base_bytes)"

fun profile_windows :: "nat \<Rightarrow> int \<Rightarrow> (int \<times> int) list \<Rightarrow> u32 list \<Rightarrow> u32 list" where
  "profile_windows max_wans sumw [] out = out"
| "profile_windows max_wans sumw ((wan_idx, w) # ws) out =
     (if wan_idx < 0 \<or> wan_idx \<ge> int max_wans then profile_windows max_wans sumw ws out
      else if w \<le> 0 then profile_windows max_wans sumw ws out
      else profile_windows max_wans sumw ws (out[nat wan_idx := word_of_int (profile_window sumw w)]))"

fun compute_profile_weighted_wan_windows :: "nat \<Rightarrow> profile_config list \<Rightarrow> u32 list \<Rightarrow> u32 list" where
  "compute_profile_weighted_wan_windows max_wans [] out = out"
| "compute_profile_weighted_wan_windows max_wans (p # ps) out =
     (if \<not> pf_enabled p \<or> pf_wan_indices p = [] then compute_profile_weighted_wan_windows max_wans ps out
      else let sumw = sum_positive 0 (pf_wan_bandwidth_weight p) in
        if sumw \<le> 0 then compute_profile_weighted_wan_windows max_wans ps out
        else compute_profile_weighted_wan_windows max_wans ps
               (profile_windows max_wans sumw (zip (pf_wan_indices p) (pf_wan_bandwidth_weight p)) out))"


section \<open>The runtime matches the policies\<close>

definition policy_ctx :: "evp_lib \<Rightarrow> crypto_policy \<Rightarrow> packet_crypto_ctx" where
  "policy_ctx lib cp =
     fst (packet_crypto_init lib (packet_crypto_set_aes_bits (cp_aes_bits cp) crypto_state_init) (cp_key cp))"

definition policy_usable :: "crypto_policy \<Rightarrow> bool" where
  "policy_usable cp = (cp_action cp \<noteq> POLICY_ACTION_BYPASS \<and> key_nonzero cp)"

definition runtime_ok :: "evp_lib \<Rightarrow> crypto_runtime \<Rightarrow> bool" where
  "runtime_ok lib rt = (length (rt_ctx rt) = MAX_CRYPTO_POLICIES \<and> length (rt_ready rt) = MAX_CRYPTO_POLICIES \<and>
     length (rt_policies rt) \<le> MAX_CRYPTO_POLICIES \<and>
     (\<forall>i < length (rt_policies rt). rt_ready rt ! i \<longrightarrow> rt_ctx rt ! i = policy_ctx lib (rt_policies rt ! i)))"

definition policy_keys_full :: "crypto_policy list \<Rightarrow> bool" where
  "policy_keys_full cps = (\<forall>cp \<in> set cps. length (cp_key cp) = AES_KEY_LEN)"

lemma packet_crypto_init_ctx:
  "fst (packet_crypto_init lib (packet_crypto_set_aes_bits b st) k) = fst (packet_crypto_init lib (packet_crypto_set_aes_bits b st') k)"
  by (simp add: packet_crypto_init_def derive_key_def get_key_size_def packet_crypto_set_aes_bits_def Let_def)

lemma init_policy_ctx:
  "packet_crypto_init lib (packet_crypto_set_aes_bits (cp_aes_bits cp) st) (cp_key cp) = (policy_ctx lib cp, st') \<longleftrightarrow>
   st' = packet_crypto_reset_counter (packet_crypto_set_aes_bits (cp_aes_bits cp) st)"
  by (auto simp: policy_ctx_def packet_crypto_init_def derive_key_def get_key_size_def packet_crypto_set_aes_bits_def
       packet_crypto_reset_counter_def Let_def)

text \<open>Equal policies have equal contexts: a key has no more than \<open>AES_KEY_LEN\<close> bytes that count.\<close>

lemma same_policy_ctx:
  assumes "same_crypto_policy p q"
  shows "policy_ctx lib p = policy_ctx lib q"
proof -
  have k: "take 32 (cp_key p) = take 32 (cp_key q)" "cp_aes_bits p = cp_aes_bits q"
    using assms by (simp_all add: same_crypto_policy_def AES_KEY_LEN_def)
  have "take n (cp_key p) = take n (cp_key q)" if "n \<le> 32" for n
    using arg_cong [OF k(1), of "take n"] that by (simp add: min_def)
  from this [of 16] this [of 32] have t: "take 16 (cp_key p) = take 16 (cp_key q)" "take 32 (cp_key p) = take 32 (cp_key q)"
    by simp_all
  have "min (length (cp_key p)) 16 = min (length (cp_key q)) 16"
    using arg_cong [OF t(1), of length] by simp
  with t show ?thesis
    by (simp add: AES_MAX_KEY_SIZE_def policy_ctx_def packet_crypto_init_def derive_key_def get_key_size_def packet_crypto_set_aes_bits_def k(2) Let_def)
qed

lemma reuse_index_some:
  assumes "reuse_index old cp = Some oi"
  shows "oi < length (rt_policies old)" "rt_ready old ! oi" "same_crypto_policy (rt_policies old ! oi) cp"
  using assms by (auto simp: reuse_index_def find_Some_iff)

lemma first_index_snoc:
  "0 \<le> k \<Longrightarrow> first_index P k (xs @ [x]) =
     (if first_index P k xs \<noteq> -1 then first_index P k xs else if P x then k + int (length xs) else -1)"
  by (induction xs arbitrary: k) (auto simp: algebra_simps)

lemma first_index_ge: "0 \<le> k \<Longrightarrow> first_index P k xs < 0 \<longleftrightarrow> first_index P k xs = -1"
  using first_index_some [of k P xs] by force

definition usable_with_id :: "nat \<Rightarrow> u8 \<Rightarrow> crypto_policy \<Rightarrow> bool" where
  "usable_with_id a pid cp = (policy_usable cp \<and> policy_has_id (int a) pid cp)"

text \<open>What the loop has established after the policies \<open>ds\<close>.\<close>

definition rebuilt :: "evp_lib \<Rightarrow> crypto_policy list \<Rightarrow> rebuild_state \<Rightarrow> bool" where
  "rebuilt lib ds s = (case s of (rt, st, has_encrypt_l2) \<Rightarrow>
     length (rt_ctx rt) = MAX_CRYPTO_POLICIES \<and> length (rt_ready rt) = MAX_CRYPTO_POLICIES \<and>
     (\<forall>i < length ds. rt_ready rt ! i = policy_usable (ds ! i)) \<and>
     (\<forall>i < MAX_CRYPTO_POLICIES. length ds \<le> i \<longrightarrow> \<not> rt_ready rt ! i) \<and>
     (\<forall>i < length ds. rt_ready rt ! i \<longrightarrow> rt_ctx rt ! i = policy_ctx lib (ds ! i)) \<and>
     (\<forall>a pid. a \<le> 4 \<longrightarrow> rt_index rt a pid = first_index (usable_with_id a pid) 0 ds) \<and>
     has_encrypt_l2 = list_ex (\<lambda>cp. policy_usable cp \<and> cp_action cp = POLICY_ACTION_ENCRYPT_L2) ds)"

lemma rebuilt_publish:
  assumes "rebuilt lib ds (rt, st, l2)" "length ds < MAX_CRYPTO_POLICIES" "policy_usable cp" "ctx = policy_ctx lib cp"
  shows "rebuilt lib (ds @ [cp]) (publish_policy (length ds) cp
    (rt\<lparr> rt_ctx := (rt_ctx rt)[length ds := ctx], rt_ready := (rt_ready rt)[length ds := True] \<rparr>, st', l2))"
  using assms
  by (auto simp: rebuilt_def publish_policy_def Let_def nth_append nth_list_update first_index_snoc first_index_ge
       usable_with_id_def policy_has_id_def policy_consts less_Suc_eq)

lemma rebuilt_skip:
  assumes "rebuilt lib ds (rt, st, l2)" "length ds < MAX_CRYPTO_POLICIES" "\<not> policy_usable cp"
  shows "rebuilt lib (ds @ [cp]) (rt, st, l2)"
  using assms
  by (auto simp: rebuilt_def nth_append first_index_snoc usable_with_id_def less_Suc_eq)


lemma rebuilt_step:
  assumes r: "rebuilt lib ds s" and n: "length ds < MAX_CRYPTO_POLICIES" and old: "runtime_ok lib old"
  shows "rebuilt lib (ds @ [cp]) (rebuild_policy lib True old (length ds) cp s)"
proof -
  obtain rt st l2 where s: "s = (rt, st, l2)" by (cases s)
  show ?thesis
  proof (cases "policy_usable cp")
    case False
    then show ?thesis using rebuilt_skip [OF r [unfolded s] n] by (auto simp: rebuild_policy_def policy_usable_def s)
  next
    case True
    then have u: "cp_action cp \<noteq> POLICY_ACTION_BYPASS" "key_nonzero cp" by (simp_all add: policy_usable_def)
    show ?thesis
    proof (cases "reuse_index old cp")
      case (Some oi)
      have "rt_ctx old ! oi = policy_ctx lib cp"
        using reuse_index_some [OF Some] old same_policy_ctx by (auto simp: runtime_ok_def)
      from rebuilt_publish [OF r [unfolded s] n True this] show ?thesis
        using u Some by (simp add: rebuild_policy_def s)
    next
      case None
      define st' where "st' = packet_crypto_reset_counter (packet_crypto_set_aes_bits (cp_aes_bits cp) st)"
      have i: "packet_crypto_init lib (packet_crypto_set_aes_bits (cp_aes_bits cp) st) (cp_key cp) = (policy_ctx lib cp, st')"
        by (simp add: init_policy_ctx st'_def)
      from rebuilt_publish [OF r [unfolded s] n True refl, of st'] show ?thesis
        using u None by (simp add: rebuild_policy_def s i)
    qed
  qed
qed

lemma rebuilt_all:
  assumes "runtime_ok lib old"
  shows "rebuilt lib ds s \<Longrightarrow> length ds + length cps \<le> MAX_CRYPTO_POLICIES \<Longrightarrow>
    rebuilt lib (ds @ cps) (rebuild_policies lib True old (length ds) cps s)"
proof (induction cps arbitrary: ds s)
  case (Cons cp cps)
  have "rebuilt lib (ds @ [cp]) (rebuild_policy lib True old (length ds) cp s)"
    by (rule rebuilt_step [OF Cons.prems(1) _ assms]) (use Cons.prems(2) in simp)
  from Cons.IH [OF this] Cons.prems(2) show ?case by simp
qed simp

lemma rebuild_spec:
  assumes "runtime_ok lib rt" "rebuild_crypto_runtime lib True cfg rt st = (rt', st', l2)"
  shows "rt_policies rt' = take MAX_CRYPTO_POLICIES (ac_policies cfg) \<and> rebuilt lib (rt_policies rt') (rt', st', l2)"
proof -
  define rt0 where "rt0 = rt\<lparr> rt_ready := replicate MAX_CRYPTO_POLICIES False, rt_index := (\<lambda>a i. -1) \<rparr>"
  define cps where "cps = take MAX_CRYPTO_POLICIES (ac_policies cfg)"
  obtain rt1 st1 l1 where s: "rebuild_policies lib True rt 0 cps (rt0, st, False) = (rt1, st1, l1)"
    by (cases "rebuild_policies lib True rt 0 cps (rt0, st, False)")
  have "rebuilt lib [] (rt0, st, False)" using assms(1) by (simp add: rebuilt_def rt0_def runtime_ok_def)
  from rebuilt_all [OF assms(1) this, of cps] s have "rebuilt lib cps (rt1, st1, l1)" by (simp add: cps_def)
  moreover have "rt' = rt1\<lparr> rt_policies := cps \<rparr>" "st' = st1" "l2 = l1"
    using assms(2) s by (simp_all add: rebuild_crypto_runtime_def Let_def rt0_def [symmetric] cps_def [symmetric])
  ultimately show ?thesis by (simp add: rebuilt_def cps_def)
qed

lemma rebuilt_runtime_ok:
  "rebuilt lib (rt_policies rt) (rt, st, l2) \<Longrightarrow> length (rt_policies rt) \<le> MAX_CRYPTO_POLICIES \<Longrightarrow> runtime_ok lib rt"
  by (simp add: rebuilt_def runtime_ok_def)

lemma first_index_table_ok:
  assumes "\<forall>a pid. a \<le> 4 \<longrightarrow> ix a pid = first_index (usable_with_id a pid) 0 cps" "\<forall>a pid. 4 < a \<longrightarrow> ix a pid < 0"
  shows "index_ok cps ix"
  unfolding index_ok_def
proof (intro allI impI)
  fix a pid assume n: "0 \<le> ix a pid" "nat (ix a pid) < length cps"
  then have a: "a \<le> 4" using assms(2) by (meson linorder_not_le)
  then have e: "ix a pid = first_index (usable_with_id a pid) 0 cps" using assms(1) by blast
  then have "first_index (usable_with_id a pid) 0 cps \<noteq> -1" using n by simp
  from first_index_some [OF _ this] obtain k where "ix a pid = int k" "usable_with_id a pid (cps ! k)"
    using e by auto
  then show "policy_has_id (int a) pid (cps ! nat (ix a pid))" by (simp add: usable_with_id_def)
qed

text \<open>C30: a rebuild of the crypto runtime installs exactly the policies of the new configuration: a
  policy is ready precisely when it is not a bypass policy and has a key, the context of a ready policy
  is the one derived from its own key and width whether it was kept or made anew, the index of a layer
  and wire id is the first usable policy with them, and the layer 2 flag says whether a usable layer 2
  policy exists. So the invariant of the runtime is kept from one reload to the next.\<close>

theorem rebuild_correct:
  assumes "runtime_ok lib rt" "rebuild_crypto_runtime lib True cfg rt st = (rt', st', has_l2)"
  shows "runtime_ok lib rt' \<and> rt_policies rt' = take MAX_CRYPTO_POLICIES (ac_policies cfg) \<and>
    (\<forall>i < length (rt_policies rt'). rt_ready rt' ! i = policy_usable (rt_policies rt' ! i)) \<and>
    (\<forall>i < length (rt_policies rt'). rt_ready rt' ! i \<longrightarrow> rt_ctx rt' ! i = policy_ctx lib (rt_policies rt' ! i)) \<and>
    (\<forall>a pid. a \<le> 4 \<longrightarrow> rt_index rt' a pid
       = first_index (\<lambda>cp. policy_usable cp \<and> policy_has_id (int a) pid cp) 0 (rt_policies rt')) \<and>
    has_l2 = (\<exists>cp \<in> set (rt_policies rt'). policy_usable cp \<and> cp_action cp = POLICY_ACTION_ENCRYPT_L2)"
proof -
  have p: "rt_policies rt' = take MAX_CRYPTO_POLICIES (ac_policies cfg)" and r: "rebuilt lib (rt_policies rt') (rt', st', has_l2)"
    using rebuild_spec [OF assms] by blast+
  have "runtime_ok lib rt'" by (rule rebuilt_runtime_ok [OF r]) (simp add: p)
  then show ?thesis using r
    by (simp add: rebuilt_def p usable_with_id_def [abs_def] list_ex_iff)
qed


section \<open>The nonce counter over a reload\<close>

text \<open>What another thread sees of the crypto state after a reload: the process-wide variables are those of
  the reloading thread, the thread-local ones its own.\<close>

definition worker_view :: "crypto_state \<Rightarrow> crypto_state \<Rightarrow> crypto_state" where
  "worker_view main w = w\<lparr> g_fake_ethertype_ipv4 := g_fake_ethertype_ipv4 main,
     g_encrypt_layer := g_encrypt_layer main, g_nonce_counter := g_nonce_counter main \<rparr>"

definition needs_init :: "crypto_runtime \<Rightarrow> crypto_policy \<Rightarrow> bool" where
  "needs_init old cp = (policy_usable cp \<and> reuse_index old cp = None)"

lemma rebuild_policy_counter:
  "g_nonce_counter (fst (snd (rebuild_policy lib alloc old pi cp s)))
   = (if needs_init old cp then 0 else g_nonce_counter (fst (snd s)))"
  by (auto simp: rebuild_policy_def needs_init_def policy_usable_def publish_policy_def packet_crypto_init_def
       packet_crypto_reset_counter_def packet_crypto_set_aes_bits_def Let_def split: prod.splits option.splits)

lemma rebuild_policies_counter:
  "g_nonce_counter (fst (snd (rebuild_policies lib alloc old pi cps s)))
   = (if list_ex (needs_init old) cps then 0 else g_nonce_counter (fst (snd s)))"
  by (induction cps arbitrary: pi s) (simp_all add: rebuild_policy_counter)

lemma rebuild_counter:
  assumes "rebuild_crypto_runtime lib alloc cfg rt st = (rt', st', l2)"
  shows "g_nonce_counter st' = (if list_ex (needs_init rt) (take MAX_CRYPTO_POLICIES (ac_policies cfg)) then 0 else g_nonce_counter st)"
proof -
  define cps where "cps = take MAX_CRYPTO_POLICIES (ac_policies cfg)"
  define s0 where "s0 = (rt\<lparr> rt_ready := replicate MAX_CRYPTO_POLICIES False, rt_index := (\<lambda>a i. -1) \<rparr>, st, False)"
  have "st' = fst (snd (rebuild_policies lib alloc rt 0 cps s0))"
    using assms by (simp add: rebuild_crypto_runtime_def Let_def cps_def s0_def split_beta)
  then show ?thesis by (simp add: rebuild_policies_counter cps_def [symmetric]) (simp add: s0_def)
qed

lemma generate_nonce_cong:
  assumes "g_nonce_size s = g_nonce_size t" "tls_salt_initialized s" "tls_salt_initialized t"
    "tls_nonce_salt s = tls_nonce_salt t"
  shows "map_option fst (crypto_generate_nonce lib s c f) = map_option fst (crypto_generate_nonce lib t c f)"
proof (cases "rdn (tls_nonce_salt t) 0 (g_nonce_size t - 4)")
  case None
  then show ?thesis using assms by (simp add: crypto_generate_nonce_def Let_def)
next
  case (Some salt)
  then show ?thesis using assms
    by (cases "wrn (nonce_prefix c f @ replicate 12 0) 4 salt") (simp_all add: crypto_generate_nonce_def Let_def)
qed

lemma apply_policy_salt: "tls_salt_initialized (crypto_apply_from_policy cp st) = tls_salt_initialized st"
  by (simp add: crypto_apply_from_policy_def crypto_setters Let_def)

text \<open>C31: a hot reload that adds or changes one policy re-initialises the crypto core and so restarts
  the process-wide nonce counter, while every unchanged policy keeps its context and every worker its
  salt. The first packet a worker encrypts after such a reload under an unchanged policy takes the
  nonce that it took when the counter was 0 before, under the same key.\<close>

theorem reload_repeats_nonces:
  assumes "runtime_ok lib rt" "rebuild_crypto_runtime lib True cfg rt st = (rt', st', l2)"
    and "i < length (rt_policies rt')" "reuse_index rt (rt_policies rt' ! i) = Some oi" "policy_usable (rt_policies rt' ! i)"
    and "j < length (rt_policies rt')" "reuse_index rt (rt_policies rt' ! j) = None" "policy_usable (rt_policies rt' ! j)"
    and "g_nonce_counter w0 = 0" "tls_salt_initialized w0" "tls_salt_initialized w" "tls_nonce_salt w = tls_nonce_salt w0"
  shows "rt_ctx rt' ! i = rt_ctx rt ! oi \<and>
    (let cp = rt_policies rt' ! i; before = crypto_apply_from_policy cp w0;
         after = crypto_apply_from_policy cp (worker_view st' w)
     in map_option fst (crypto_generate_nonce lib after (fst (packet_crypto_next_counter after)) PROTO_FLAG_IPV4)
      = map_option fst (crypto_generate_nonce lib before (fst (packet_crypto_next_counter before)) PROTO_FLAG_IPV4))"
proof -
  have p: "rt_policies rt' = take MAX_CRYPTO_POLICIES (ac_policies cfg)" and r: "rebuilt lib (rt_policies rt') (rt', st', l2)"
    using rebuild_spec [OF assms(1,2)] by blast+
  have "rt_ctx rt' ! i = policy_ctx lib (rt_policies rt' ! i)" using r assms(3,5) by (simp add: rebuilt_def)
  moreover have "rt_ctx rt ! oi = policy_ctx lib (rt_policies rt' ! i)"
    using reuse_index_some [OF assms(4)] assms(1) same_policy_ctx by (auto simp: runtime_ok_def)
  moreover have "g_nonce_counter st' = 0"
    using assms(6-8) unfolding rebuild_counter [OF assms(2)] p [symmetric] by (auto simp: list_ex_length needs_init_def)
  ultimately have g: "rt_ctx rt' ! i = rt_ctx rt ! oi" "g_nonce_counter st' = 0" by simp_all
  define cp where "cp = rt_policies rt' ! i"
  define a where "a = crypto_apply_from_policy cp (worker_view st' w)"
  define b where "b = crypto_apply_from_policy cp w0"
  have c: "fst (packet_crypto_next_counter a) = fst (packet_crypto_next_counter b)"
    using g(2) assms(9) by (simp add: packet_crypto_next_counter_def a_def b_def worker_view_def)
  have "map_option fst (crypto_generate_nonce lib a n PROTO_FLAG_IPV4) = map_option fst (crypto_generate_nonce lib b n PROTO_FLAG_IPV4)" for n
    by (rule generate_nonce_cong) (use assms(10-12) in \<open>simp_all add: a_def b_def worker_view_def apply_policy_salt\<close>)
  then show ?thesis using g(1) by (simp add: Let_def a_def [symmetric] b_def [symmetric] cp_def [symmetric] c)
qed


section \<open>The runtime stays in step with the configuration\<close>

definition in_sync :: "evp_lib \<Rightarrow> app_config \<Rightarrow> crypto_runtime \<Rightarrow> bool" where
  "in_sync lib cfg rt = (let cps = take MAX_CRYPTO_POLICIES (ac_policies cfg) in
     list_all2 same_crypto_policy (rt_policies rt) cps \<and>
     (\<forall>i < length cps. rt_ready rt ! i = policy_usable (cps ! i)) \<and>
     (\<forall>i < length cps. rt_ready rt ! i \<longrightarrow> rt_ctx rt ! i = policy_ctx lib (cps ! i)) \<and>
     (\<forall>a pid. a \<le> 4 \<longrightarrow> rt_index rt a pid = first_index (usable_with_id a pid) 0 cps))"

lemma same_crypto_policy_refl [simp]: "same_crypto_policy p p"
  by (simp add: same_crypto_policy_def)

lemma same_crypto_policy_trans: "same_crypto_policy p q \<Longrightarrow> same_crypto_policy q r \<Longrightarrow> same_crypto_policy p r"
  by (simp add: same_crypto_policy_def)

lemma same_usable: "same_crypto_policy p q \<Longrightarrow> policy_usable p = policy_usable q"
  by (simp add: same_crypto_policy_def policy_usable_def key_nonzero_def)

lemma same_usable_with_id: "same_crypto_policy p q \<Longrightarrow> usable_with_id a pid p = usable_with_id a pid q"
  using same_usable [of p q] by (simp add: usable_with_id_def policy_has_id_def same_crypto_policy_def)

lemma first_index_list_all2:
  "list_all2 R xs ys \<Longrightarrow> (\<And>x y. R x y \<Longrightarrow> P x = P y) \<Longrightarrow> first_index P k xs = first_index P k ys"
  by (induction xs ys arbitrary: k rule: list_all2_induct) auto

lemma same_policies_list_all2:
  assumes "\<not> crypto_runtime_changed a b"
  shows "list_all2 same_crypto_policy (take MAX_CRYPTO_POLICIES (ac_policies a)) (take MAX_CRYPTO_POLICIES (ac_policies b))"
  using assms
  by (auto simp: crypto_runtime_changed_def list_ex_iff list_all2_iff take_zip split: if_splits)

lemma in_sync_same:
  assumes "in_sync lib a rt"
    and s: "list_all2 same_crypto_policy (take MAX_CRYPTO_POLICIES (ac_policies a)) (take MAX_CRYPTO_POLICIES (ac_policies b))"
  shows "in_sync lib b rt"
proof -
  let ?p = "take MAX_CRYPTO_POLICIES (ac_policies a)" and ?q = "take MAX_CRYPTO_POLICIES (ac_policies b)"
  have l: "length ?p = length ?q" using s by (rule list_all2_lengthD)
  have n: "same_crypto_policy (?p ! i) (?q ! i)" if "i < length ?q" for i
    using s that l by (auto simp: list_all2_conv_all_nth)
  have "list_all2 same_crypto_policy (rt_policies rt) ?p" using assms(1) by (simp add: in_sync_def Let_def)
  from list_all2_trans [OF same_crypto_policy_trans this s]
  have "list_all2 same_crypto_policy (rt_policies rt) ?q" .
  moreover have "first_index (usable_with_id a' pid) 0 ?p = first_index (usable_with_id a' pid) 0 ?q" for a' pid
    by (rule first_index_list_all2 [OF s same_usable_with_id])
  ultimately show ?thesis using assms(1) l n same_usable [OF n] same_policy_ctx [OF n]
    unfolding in_sync_def Let_def by (metis (no_types, lifting))
qed

lemma rebuild_in_sync:
  assumes "runtime_ok lib rt" "rebuild_crypto_runtime lib True cfg rt st = (rt', st', l2)"
  shows "in_sync lib cfg rt' \<and> runtime_ok lib rt'"
proof -
  have p: "rt_policies rt' = take MAX_CRYPTO_POLICIES (ac_policies cfg)" and r: "rebuilt lib (rt_policies rt') (rt', st', l2)"
    using rebuild_spec [OF assms] by blast+
  have "runtime_ok lib rt'" by (rule rebuilt_runtime_ok [OF r]) (simp add: p)
  then show ?thesis using r by (simp add: rebuilt_def p in_sync_def list_all2_refl)
qed

lemma in_sync_cong: "ac_policies a = ac_policies b \<Longrightarrow> in_sync lib a rt = in_sync lib b rt"
  by (simp add: in_sync_def)

lemma runtime_ok_flags [simp]: "runtime_ok lib (rt\<lparr> rt_enabled := e, rt_layer := l \<rparr>) = runtime_ok lib rt"
  by (simp add: runtime_ok_def)

lemma in_sync_flags [simp]: "in_sync lib cfg (rt\<lparr> rt_enabled := e, rt_layer := l \<rparr>) = in_sync lib cfg rt"
  by (simp add: in_sync_def)

text \<open>A hot reload keeps the runtime in step with the configuration in force, on every path: it is
  refused and changes nothing when the interfaces differ; it keeps the contexts when no policy changed;
  it rebuilds them otherwise. Whenever encryption is enabled afterwards, the policies in force are
  those of the configuration, the ready ones are those with a key, and their contexts and index entries
  are the ones the configuration prescribes.\<close>

lemma reload_in_sync:
  assumes "runtime_ok lib rt" "ac_crypto_enabled fwd_cfg \<Longrightarrow> in_sync lib fwd_cfg rt"
    and "forwarder_reload_config lib True fwd_cfg cfg rt st pt = (rc, cfg', rt', st', pt')"
  shows "runtime_ok lib rt' \<and> (ac_crypto_enabled cfg' \<longrightarrow> in_sync lib cfg' rt') \<and>
    (if same_topology fwd_cfg cfg then rc = 0 \<and> ac_policies cfg' = ac_policies cfg \<and> ac_profiles cfg' = ac_profiles cfg
     else rc = -1 \<and> cfg' = fwd_cfg \<and> rt' = rt \<and> st' = st \<and> pt' = pt)"
proof -
  let ?r = "rt\<lparr> rt_enabled := ac_crypto_enabled cfg, rt_layer := ac_encrypt_layer cfg \<rparr>"
  let ?q = "set_queue_counts cfg"
  have q: "ac_policies ?q = ac_policies cfg" "ac_crypto_enabled ?q = ac_crypto_enabled cfg"
    "ac_encrypt_layer ?q = ac_encrypt_layer cfg" "ac_profiles ?q = ac_profiles cfg"
    by (simp_all add: set_queue_counts_def)
  have keep: "in_sync lib cfg rt" if "\<not> crypto_runtime_changed fwd_cfg cfg" "ac_crypto_enabled cfg"
    using in_sync_same [OF assms(2) same_policies_list_all2 [OF that(1)]] that
    by (auto simp: crypto_runtime_changed_def split: if_splits)
  obtain rt1 st1 l1 where rb: "rebuild_crypto_runtime lib True ?q ?r st = (rt1, st1, l1)"
    by (cases "rebuild_crypto_runtime lib True ?q ?r st")
  have "in_sync lib ?q rt1 \<and> runtime_ok lib rt1" by (rule rebuild_in_sync [OF _ rb]) (simp add: assms(1))
  then have i1: "in_sync lib cfg rt1" "runtime_ok lib rt1" "in_sync lib ?q rt1" using in_sync_cong [OF q(1)] by auto
  have iq: "in_sync lib ?q rt = in_sync lib cfg rt" by (rule in_sync_cong [OF q(1)])
  show ?thesis
    using assms(3) i1 keep assms(1,2) q iq rb
    by (auto simp: forwarder_reload_config_def Let_def split: if_splits)
qed

lemma init_in_sync:
  assumes "runtime_ok lib rt" "ac_crypto_enabled cfg" "forwarder_init_crypto lib True now cfg rt st = (rc, cfg', rt', st')"
  shows "rc = 0 \<and> runtime_ok lib rt' \<and> in_sync lib cfg' rt' \<and> ac_crypto_enabled cfg'"
proof -
  obtain base st0 where b: "packet_crypto_init lib (packet_crypto_set_aes_bits (ac_aes_bits cfg) st) (ac_crypto_key cfg) = (base, st0)"
    by (cases "packet_crypto_init lib (packet_crypto_set_aes_bits (ac_aes_bits cfg) st) (ac_crypto_key cfg)")
  define r where "r = (save_prev_policies now (rt\<lparr> rt_enabled := ac_crypto_enabled cfg, rt_layer := ac_encrypt_layer cfg \<rparr>))\<lparr> rt_base_ctx := base \<rparr>"
  have r: "runtime_ok lib r" using assms(1) by (simp add: r_def save_prev_policies_def runtime_ok_def)
  obtain rt1 st1 l1 where rb: "rebuild_crypto_runtime lib True cfg r st0 = (rt1, st1, l1)"
    by (cases "rebuild_crypto_runtime lib True cfg r st0")
  have i: "in_sync lib cfg rt1" "runtime_ok lib rt1" using rebuild_in_sync [OF r rb] by simp_all
  have e: "rc = 0" "rt' = rt1" "ac_policies cfg' = ac_policies cfg" "ac_crypto_enabled cfg'"
    using assms(2,3) by (auto simp: forwarder_init_crypto_def Let_def b r_def [symmetric, simplified assms(2)] rb
         rb [unfolded r_def, simplified assms(2)] split: if_splits)
  then show ?thesis using i in_sync_cong [OF e(3)] by simp
qed

lemma init_runtime_ok: "runtime_ok lib crypto_runtime_init"
  by (simp add: runtime_ok_def crypto_runtime_init_def)


section \<open>Instances\<close>

definition sample_runtime :: crypto_runtime where
  "sample_runtime = crypto_runtime_init\<lparr> rt_enabled := True, rt_layer := 3, rt_policies := [sample_policy 1 0 3],
     rt_ready := True # replicate 127 False,
     rt_ctx := policy_ctx toy_lib (sample_policy 1 0 3) # replicate 127 blank_ctx,
     rt_index := (\<lambda>a pid. if a = 3 \<and> pid = 1 then 0 else -1) \<rparr>"

definition sample_config1 :: app_config where
  "sample_config1 = sample_config\<lparr> ac_policies := [sample_policy 1 0 3] \<rparr>"

lemma sample_runtime_ok: "runtime_ok toy_lib sample_runtime"
  by (simp add: runtime_ok_def sample_runtime_def MAX_CRYPTO_POLICIES_def)

lemma sample_policy_usable: "policy_usable (sample_policy i p 3)" "policy_usable (sample_policy i p 4)"
  by (simp_all add: policy_usable_def key_nonzero_def sample_policy_def policy_consts AES_KEY_LEN_def list_ex_iff)

lemma sample_policies: "take MAX_CRYPTO_POLICIES (ac_policies sample_config) = [sample_policy 1 0 3, sample_policy 2 6 4]"
  by (simp add: MAX_CRYPTO_POLICIES_def sample_config_def)

lemma sample_runtime_in_sync: "in_sync toy_lib sample_config1 sample_runtime"
  using sample_policy_usable(1) [of 1 0]
  by (auto simp: in_sync_def sample_config1_def sample_runtime_def MAX_CRYPTO_POLICIES_def usable_with_id_def
       policy_has_id_def Let_def) (simp_all add: sample_policy_def)

lemma sample_reuse:
  "reuse_index sample_runtime (sample_policy 1 0 3) = Some 0" "reuse_index sample_runtime (sample_policy 2 6 4) = None"
  by (simp_all add: reuse_index_def sample_runtime_def same_crypto_policy_def sample_policy_def)

theorem rebuild_correct_witness:
  "\<exists>rt' st' l2. rebuild_crypto_runtime toy_lib True sample_config sample_runtime (sample_crypto 1) = (rt', st', l2)
     \<and> rt_ready rt' ! 1 \<and> rt_ctx rt' ! 1 = policy_ctx toy_lib (sample_policy 2 6 4) \<and> rt_index rt' 4 2 = 1 \<and> \<not> l2"
proof -
  obtain rt' st' l2 where r: "rebuild_crypto_runtime toy_lib True sample_config sample_runtime (sample_crypto 1) = (rt', st', l2)"
    by (cases "rebuild_crypto_runtime toy_lib True sample_config sample_runtime (sample_crypto 1)")
  note c = rebuild_correct [OF sample_runtime_ok r, unfolded sample_policies]
  have p: "rt_policies rt' = [sample_policy 1 0 3, sample_policy 2 6 4]" using c by blast
  have "rt_ready rt' ! 1 \<and> rt_ctx rt' ! 1 = policy_ctx toy_lib (sample_policy 2 6 4)"
    using c sample_policy_usable(2) [of 2 6] unfolding p by force
  moreover have "rt_index rt' 4 2 = first_index (\<lambda>cp. policy_usable cp \<and> policy_has_id (int 4) 2 cp) 0 (rt_policies rt')"
    using c by simp
  then have "rt_index rt' 4 2 = 1" using sample_policy_usable
    by (simp add: p policy_has_id_def) (simp add: sample_policy_def)
  moreover have "\<not> l2" using c unfolding p by (auto simp: sample_policy_def policy_consts)
  ultimately show ?thesis using r by blast
qed

theorem reload_repeats_nonces_witness:
  "\<exists>rt' st' l2. rebuild_crypto_runtime toy_lib True sample_config sample_runtime (sample_crypto 1) = (rt', st', l2)
     \<and> rt_ctx rt' ! 0 = rt_ctx sample_runtime ! 0
     \<and> (let cp = rt_policies rt' ! 0; before = crypto_apply_from_policy cp (sample_crypto 1);
            after = crypto_apply_from_policy cp (worker_view st' (counter_after 5 (sample_crypto 1)))
        in map_option fst (crypto_generate_nonce toy_lib after (fst (packet_crypto_next_counter after)) PROTO_FLAG_IPV4)
         = map_option fst (crypto_generate_nonce toy_lib before (fst (packet_crypto_next_counter before)) PROTO_FLAG_IPV4))"
proof -
  obtain rt' st' l2 where r: "rebuild_crypto_runtime toy_lib True sample_config sample_runtime (sample_crypto 1) = (rt', st', l2)"
    by (cases "rebuild_crypto_runtime toy_lib True sample_config sample_runtime (sample_crypto 1)")
  have p: "rt_policies rt' = [sample_policy 1 0 3, sample_policy 2 6 4]"
    using rebuild_spec [OF sample_runtime_ok r] by (simp add: sample_policies)
  from reload_repeats_nonces [OF sample_runtime_ok r, of 0 0 1 "sample_crypto 1" "counter_after 5 (sample_crypto 1)"]
  show ?thesis using r sample_policy_usable
    by (simp add: p sample_reuse counter_after_eq) (simp add: sample_crypto_defs)
qed

end
