(* ===== verification/WorkerRing.thy ===== *)
theory WorkerRing
  imports Prelude
begin

text \<open>
  The ring of \<open>src/core/forwarder.c\<close> through which the local receive threads hand packets to the worker:
  \<open>WORKER_RING_SIZE\<close> slots, a head and a tail index, one slot kept free. Every access is made under the
  ring's mutex, so enqueue and dequeue are atomic operations here. The contract of a bounded queue is the
  locale \<open>bounded_fifo\<close>; the ring is an interpretation of it.
\<close>

section \<open>The ring\<close>

definition WORKER_RING_SIZE :: nat where "WORKER_RING_SIZE = 4096"

text \<open>A job points to a frame of the receive buffer; \<open>pj_pkt\<close> is that frame.\<close>

record packet_job =
  pj_has_fwd :: bool
  pj_local_idx :: int
  pj_queue_idx :: int
  pj_tx_queue_base :: int
  pj_pkt :: buf
  pj_pkt_len :: nat
  pj_addr :: u64

record worker_ring =
  wr_jobs :: "packet_job list"
  wr_head :: u32
  wr_tail :: u32

definition ring_enqueue :: "packet_job \<Rightarrow> worker_ring \<Rightarrow> bool \<times> worker_ring" where
  "ring_enqueue job r =
     (let next_tail = (wr_tail r + 1) mod of_nat WORKER_RING_SIZE in
      if next_tail \<noteq> wr_head r
      then (True, r\<lparr> wr_jobs := (wr_jobs r)[unat (wr_tail r) := job], wr_tail := next_tail \<rparr>)
      else (False, r))"

definition ring_dequeue :: "worker_ring \<Rightarrow> packet_job option \<times> worker_ring" where
  "ring_dequeue r =
     (if wr_head r \<noteq> wr_tail r
      then (Some (wr_jobs r ! unat (wr_head r)), r\<lparr> wr_head := (wr_head r + 1) mod of_nat WORKER_RING_SIZE \<rparr>)
      else (None, r))"

section \<open>The contract of a bounded queue\<close>

datatype 'a fifo_op = Enq 'a | Deq

text \<open>A history of operations on a queue: the elements it accepted and the elements it delivered.\<close>

fun fifo_run :: "('a \<Rightarrow> 'q \<Rightarrow> bool \<times> 'q) \<Rightarrow> ('q \<Rightarrow> 'a option \<times> 'q) \<Rightarrow> 'a fifo_op list \<Rightarrow> 'q \<Rightarrow> 'a list \<times> 'a list \<times> 'q" where
  "fifo_run enq deq [] q = ([], [], q)"
| "fifo_run enq deq (Enq x # ops) q =
     (let (ok, q) = enq x q; (ins, outs, q) = fifo_run enq deq ops q in (if ok then x # ins else ins, outs, q))"
| "fifo_run enq deq (Deq # ops) q =
     (let (r, q) = deq q; (ins, outs, q) = fifo_run enq deq ops q
      in (ins, case r of None \<Rightarrow> outs | Some x \<Rightarrow> x # outs, q))"

locale bounded_fifo =
  fixes enq :: "'a \<Rightarrow> 'q \<Rightarrow> bool \<times> 'q"
    and deq :: "'q \<Rightarrow> 'a option \<times> 'q"
    and contents :: "'q \<Rightarrow> 'a list"
    and inv :: "'q \<Rightarrow> bool"
    and cap :: nat
  assumes inv_cap: "inv q \<Longrightarrow> length (contents q) \<le> cap"
    and enq_law: "inv q \<Longrightarrow> inv (snd (enq x q)) \<and> fst (enq x q) = (length (contents q) < cap) \<and>
        contents (snd (enq x q)) = (if length (contents q) < cap then contents q @ [x] else contents q)"
    and deq_law: "inv q \<Longrightarrow> inv (snd (deq q)) \<and>
        fst (deq q) = (case contents q of [] \<Rightarrow> None | x # xs \<Rightarrow> Some x) \<and> contents (snd (deq q)) = tl (contents q)"
begin

text \<open>Nothing is lost, duplicated or reordered: what was inside and what was accepted is what was
  delivered and what is still inside.\<close>

lemma run_conserves:
  "inv q \<Longrightarrow> fifo_run enq deq ops q = (ins, outs, q') \<Longrightarrow>
   inv q' \<and> contents q @ ins = outs @ contents q' \<and> length (contents q') \<le> cap"
proof (induction ops arbitrary: q ins outs q')
  case Nil
  then show ?case using inv_cap by auto
next
  case (Cons op ops)
  show ?case
  proof (cases op)
    case (Enq x)
    obtain ok q1 where e: "enq x q = (ok, q1)" by (cases "enq x q")
    obtain i o' q2 where r: "fifo_run enq deq ops q1 = (i, o', q2)" by (cases "fifo_run enq deq ops q1")
    have l: "inv q1" "ok = (length (contents q) < cap)"
      "contents q1 = (if length (contents q) < cap then contents q @ [x] else contents q)"
      using enq_law [OF Cons.prems(1), of x] e by simp_all
    from Cons.IH [OF l(1) r] Cons.prems(2) l e r Enq show ?thesis by auto
  next
    case Deq
    obtain d q1 where e: "deq q = (d, q1)" by (cases "deq q")
    obtain i o' q2 where r: "fifo_run enq deq ops q1 = (i, o', q2)" by (cases "fifo_run enq deq ops q1")
    have l: "inv q1" "d = (case contents q of [] \<Rightarrow> None | x # xs \<Rightarrow> Some x)" "contents q1 = tl (contents q)"
      using deq_law [OF Cons.prems(1)] e by simp_all
    from Cons.IH [OF l(1) r] Cons.prems(2) l e r Deq show ?thesis by (auto split: list.splits)
  qed
qed

text \<open>A dequeue fails only on an empty queue, an enqueue only on a full one.\<close>

lemma never_stuck: "inv q \<Longrightarrow> 0 < cap \<Longrightarrow> fst (enq x q) \<or> fst (deq q) \<noteq> None"
  using enq_law [of q x] deq_law [of q] by (cases "contents q") auto

end

section \<open>The ring is a bounded queue\<close>

definition ring_ok :: "worker_ring \<Rightarrow> bool" where
  "ring_ok r = (length (wr_jobs r) = WORKER_RING_SIZE \<and> unat (wr_head r) < WORKER_RING_SIZE \<and> unat (wr_tail r) < WORKER_RING_SIZE)"

definition ring_count :: "nat \<Rightarrow> nat \<Rightarrow> nat" where
  "ring_count h t = (t + WORKER_RING_SIZE - h) mod WORKER_RING_SIZE"

definition ring_list :: "worker_ring \<Rightarrow> packet_job list" where
  "ring_list r = map (\<lambda>i. wr_jobs r ! ((unat (wr_head r) + i) mod WORKER_RING_SIZE))
                   [0..<ring_count (unat (wr_head r)) (unat (wr_tail r))]"

lemma ring_next:
  assumes "unat (x :: u32) < WORKER_RING_SIZE"
  shows "unat ((x + 1) mod of_nat WORKER_RING_SIZE) = (if unat x + 1 = WORKER_RING_SIZE then 0 else unat x + 1)"
proof -
  have "unat (x + 1) = unat x + 1"
    using assms by (simp add: unat_word_ariths(1) WORKER_RING_SIZE_def)
  then show ?thesis using assms by (auto simp: unat_mod WORKER_RING_SIZE_def)
qed

lemma ring_count_cases:
  "h < WORKER_RING_SIZE \<Longrightarrow> t < WORKER_RING_SIZE \<Longrightarrow>
   ring_count h t = (if h \<le> t then t - h else t + WORKER_RING_SIZE - h)"
  by (auto simp: ring_count_def mod_if)

lemma wrap_add: "h < n \<Longrightarrow> i \<le> n \<Longrightarrow> (h + i) mod n = (if h + i < n then h + i else h + i - (n :: nat))"
  by (simp add: mod_if)


lemma ring_list_nth: "i < length (ring_list r) \<Longrightarrow> ring_list r ! i = wr_jobs r ! ((unat (wr_head r) + i) mod WORKER_RING_SIZE)"
  by (simp add: ring_list_def)

lemma ring_list_length: "length (ring_list r) = ring_count (unat (wr_head r)) (unat (wr_tail r))"
  by (simp add: ring_list_def)

lemma ring_cap: "ring_ok r \<Longrightarrow> length (ring_list r) \<le> WORKER_RING_SIZE - 1"
  by (auto simp: ring_list_length ring_ok_def ring_count_cases)

lemma ring_full_iff:
  assumes "ring_ok r"
  shows "(wr_tail r + 1) mod of_nat WORKER_RING_SIZE = wr_head r \<longleftrightarrow> length (ring_list r) = WORKER_RING_SIZE - 1"
proof -
  have h: "unat (wr_head r) < WORKER_RING_SIZE" "unat (wr_tail r) < WORKER_RING_SIZE" using assms by (simp_all add: ring_ok_def)
  have "(wr_tail r + 1) mod of_nat WORKER_RING_SIZE = wr_head r \<longleftrightarrow>
      unat ((wr_tail r + 1) mod of_nat WORKER_RING_SIZE) = unat (wr_head r)" by (simp only: word_unat_eq_iff)
  with h show ?thesis by (auto simp: ring_next ring_list_length ring_count_cases split: if_splits)
qed

lemma ring_enqueue_law:
  assumes "ring_ok r"
  shows "ring_ok (snd (ring_enqueue x r)) \<and> fst (ring_enqueue x r) = (length (ring_list r) < WORKER_RING_SIZE - 1) \<and>
    ring_list (snd (ring_enqueue x r)) =
      (if length (ring_list r) < WORKER_RING_SIZE - 1 then ring_list r @ [x] else ring_list r)"
proof (cases "length (ring_list r) < WORKER_RING_SIZE - 1")
  case False
  then have "(wr_tail r + 1) mod of_nat WORKER_RING_SIZE = wr_head r"
    using ring_full_iff [OF assms] ring_cap [OF assms] by linarith
  then show ?thesis using False assms by (simp add: ring_enqueue_def)
next
  case True
  then have ne: "(wr_tail r + 1) mod of_nat WORKER_RING_SIZE \<noteq> wr_head r"
    using ring_full_iff [OF assms] by simp
  define r' where "r' = r\<lparr> wr_jobs := (wr_jobs r)[unat (wr_tail r) := x], wr_tail := (wr_tail r + 1) mod of_nat WORKER_RING_SIZE \<rparr>"
  have e: "ring_enqueue x r = (True, r')" using ne by (simp add: ring_enqueue_def r'_def)
  have h: "unat (wr_head r) < WORKER_RING_SIZE" "unat (wr_tail r) < WORKER_RING_SIZE" "length (wr_jobs r) = WORKER_RING_SIZE"
    using assms by (simp_all add: ring_ok_def)
  have ok: "ring_ok r'" using h by (simp add: ring_ok_def r'_def ring_next)
  have len: "length (ring_list r') = length (ring_list r) + 1"
    using True h by (auto simp: ring_list_length ring_count_cases r'_def ring_next split: if_splits)
  have t: "(unat (wr_head r) + length (ring_list r)) mod WORKER_RING_SIZE = unat (wr_tail r)"
    using h by (auto simp: ring_list_length ring_count_cases wrap_add)
  have "ring_list r' = ring_list r @ [x]"
  proof (rule nth_equalityI)
    fix i assume "i < length (ring_list r')"
    then have i: "i < length (ring_list r) + 1" by (simp add: len)
    have nth: "ring_list r' ! i = (wr_jobs r)[unat (wr_tail r) := x] ! ((unat (wr_head r) + i) mod WORKER_RING_SIZE)"
      using i len by (subst ring_list_nth) (simp_all add: r'_def)
    show "ring_list r' ! i = (ring_list r @ [x]) ! i"
    proof (cases "i = length (ring_list r)")
      case True
      then show ?thesis using nth t h by simp
    next
      case False
      then have il: "i < length (ring_list r)" using i by simp
      have "(unat (wr_head r) + i) mod WORKER_RING_SIZE \<noteq> unat (wr_tail r)"
        using il h True by (auto simp: wrap_add ring_list_length ring_count_cases split: if_splits)
      then show ?thesis using il by (simp add: nth nth_append ring_list_nth)
    qed
  qed (simp add: len)
  then show ?thesis using True e ok by simp
qed

lemma ring_dequeue_law:
  assumes "ring_ok r"
  shows "ring_ok (snd (ring_dequeue r)) \<and>
    fst (ring_dequeue r) = (case ring_list r of [] \<Rightarrow> None | x # xs \<Rightarrow> Some x) \<and> ring_list (snd (ring_dequeue r)) = tl (ring_list r)"
proof -
  have h: "unat (wr_head r) < WORKER_RING_SIZE" "unat (wr_tail r) < WORKER_RING_SIZE" "length (wr_jobs r) = WORKER_RING_SIZE"
    using assms by (simp_all add: ring_ok_def)
  show ?thesis
  proof (cases "wr_head r = wr_tail r")
    case True
    then show ?thesis using assms h by (simp add: ring_dequeue_def ring_list_def ring_count_cases)
  next
    case False
    then have ne: "unat (wr_head r) \<noteq> unat (wr_tail r)" by (simp add: word_unat_eq_iff)
    define r' where "r' = r\<lparr> wr_head := (wr_head r + 1) mod of_nat WORKER_RING_SIZE \<rparr>"
    have e: "ring_dequeue r = (Some (wr_jobs r ! unat (wr_head r)), r')" using False by (simp add: ring_dequeue_def r'_def)
    have ok: "ring_ok r'" using h by (simp add: ring_ok_def r'_def ring_next)
    have len: "length (ring_list r) = Suc (length (ring_list r'))"
      using ne h by (auto simp: ring_list_length ring_count_cases r'_def ring_next split: if_splits)
    have hd: "ring_list r ! 0 = wr_jobs r ! unat (wr_head r)"
      using len h by (subst ring_list_nth) (simp_all add: mod_less)
    have "tl (ring_list r) = ring_list r'"
    proof (rule nth_equalityI)
      fix i assume "i < length (tl (ring_list r))"
      then have i: "i < length (ring_list r')" "Suc i < length (ring_list r)" using len by simp_all
      have "(unat (wr_head r') + i) mod WORKER_RING_SIZE = (unat (wr_head r) + Suc i) mod WORKER_RING_SIZE"
        using h by (auto simp: r'_def ring_next) (metis add_Suc mod_add_self1)
      then show "tl (ring_list r) ! i = ring_list r' ! i"
        using i by (simp add: nth_tl ring_list_nth) (simp add: r'_def)
    qed (simp add: len)
    then show ?thesis using e ok hd len by (cases "ring_list r") simp_all
  qed
qed

interpretation job_ring: bounded_fifo ring_enqueue ring_dequeue ring_list ring_ok "WORKER_RING_SIZE - 1"
  using ring_cap ring_enqueue_law ring_dequeue_law by unfold_locales auto

text \<open>C32: the worker ring is a first-in first-out queue of at most 4095 packets: over any sequence of
  enqueues and dequeues, what it held at first followed by what it accepted equals what it delivered
  followed by what it still holds, whatever the positions of head and tail and however often they wrap.\<close>

theorem worker_ring_is_queue:
  assumes "ring_ok r" "fifo_run ring_enqueue ring_dequeue ops r = (accepted, delivered, r')"
  shows "ring_ok r' \<and> ring_list r @ accepted = delivered @ ring_list r' \<and> length (ring_list r') \<le> 4095"
  using job_ring.run_conserves [OF assms] by (simp add: WORKER_RING_SIZE_def)

definition sample_job :: "nat \<Rightarrow> packet_job" where
  "sample_job n = \<lparr> pj_has_fwd = True, pj_local_idx = 0, pj_queue_idx = 0, pj_tx_queue_base = 0,
     pj_pkt = replicate n 0, pj_pkt_len = n, pj_addr = of_nat n \<rparr>"

definition sample_ring :: worker_ring where
  "sample_ring = \<lparr> wr_jobs = replicate 4096 (sample_job 0), wr_head = 4095, wr_tail = 4095 \<rparr>"

theorem worker_ring_is_queue_witness:
  "\<exists>r'. fifo_run ring_enqueue ring_dequeue [Enq (sample_job 60), Enq (sample_job 70), Deq] sample_ring
      = ([sample_job 60, sample_job 70], [sample_job 60], r') \<and> ring_list r' = [sample_job 70]"
proof -
  have ok: "ring_ok sample_ring" by (simp add: ring_ok_def sample_ring_def WORKER_RING_SIZE_def)
  obtain acc del r' where r: "fifo_run ring_enqueue ring_dequeue [Enq (sample_job 60), Enq (sample_job 70), Deq] sample_ring = (acc, del, r')"
    by (cases "fifo_run ring_enqueue ring_dequeue [Enq (sample_job 60), Enq (sample_job 70), Deq] sample_ring")
  have "acc = [sample_job 60, sample_job 70] \<and> del = [sample_job 60]"
    using r by (simp add: ring_enqueue_def ring_dequeue_def sample_ring_def WORKER_RING_SIZE_def Let_def)
  moreover have "ring_list sample_ring = []" by (simp add: ring_list_def ring_count_def sample_ring_def WORKER_RING_SIZE_def)
  ultimately show ?thesis using worker_ring_is_queue [OF ok r] r by simp
qed

end
