(* ===== verification/ReloadGate.thy ===== *)
theory ReloadGate
  imports Prelude
begin

text \<open>
  The gate of \<open>src/core/forwarder.c\<close> between the packet threads and a hot reload:
  \<open>packet_critical_enter\<close>, \<open>packet_critical_leave\<close> and the waiting part of
  \<open>forwarder_reload_config\<close>, with the atomics \<open>g_reload_pause\<close> and \<open>g_inflight_packets\<close>. A step is one
  atomic access of one thread. Threads are numbered below \<open>n\<close>. The parameter \<open>buffered\<close> says whether the
  release stores of the reloading thread to \<open>g_reload_pause\<close> wait in a store buffer before the other
  threads see them, as the memory orders that the code requests allow (the read-modify-writes of the
  packet threads act on memory); without it every access takes effect at once. The parameter \<open>lost\<close> says
  whether jobs without a forwarder occur (\<open>if (!fwd) continue;\<close> in \<open>worker_thread\<close>, after it has entered).
\<close>

section \<open>States and steps\<close>

text \<open>Where a packet thread is: outside, in the inner \<open>while\<close>, before the increment, before the second
  test, before the decrement of a failed attempt, or processing packets.\<close>

datatype packet_pc = Outside | Spin | Add | Check | Sub | Inside

datatype reload_pc = Idle | Drain | Swap

text \<open>\<open>gt_leaked\<close> counts the entries that were never left. \<open>gt_runtime\<close> counts the writes to the crypto runtime, \<open>gt_cfg\<close> those to the configuration pointer;
  \<open>gt_seen\<close> and \<open>gt_seen_cfg\<close> are their values when a thread entered.\<close>

record gate =
  gt_pause :: bool
  gt_buffer :: "bool list"
  gt_inflight :: int
  gt_leaked :: nat
  gt_pc :: "nat \<Rightarrow> packet_pc"
  gt_rpc :: reload_pc
  gt_runtime :: nat
  gt_cfg :: nat
  gt_seen :: "nat \<Rightarrow> nat"
  gt_seen_cfg :: "nat \<Rightarrow> nat"

definition gate_init :: gate where
  "gate_init = \<lparr> gt_pause = False, gt_buffer = [], gt_inflight = 0, gt_leaked = 0, gt_pc = (\<lambda>_. Outside), gt_rpc = Idle,
     gt_runtime = 0, gt_cfg = 0, gt_seen = (\<lambda>_. 0), gt_seen_cfg = (\<lambda>_. 0) \<rparr>"

definition goto :: "nat \<Rightarrow> packet_pc \<Rightarrow> gate \<Rightarrow> gate" where
  "goto i p s = s\<lparr> gt_pc := (gt_pc s)(i := p) \<rparr>"

definition store_pause :: "bool \<Rightarrow> bool \<Rightarrow> gate \<Rightarrow> gate" where
  "store_pause buffered b s = (if buffered then s\<lparr> gt_buffer := gt_buffer s @ [b] \<rparr> else s\<lparr> gt_pause := b \<rparr>)"

inductive packet_step :: "bool \<Rightarrow> nat \<Rightarrow> gate \<Rightarrow> gate \<Rightarrow> bool" for lost :: bool and n :: nat where
  call: "i < n \<Longrightarrow> gt_pc s i = Outside \<Longrightarrow> packet_step lost n s (goto i Spin s)"
| see_open: "i < n \<Longrightarrow> gt_pc s i = Spin \<Longrightarrow> \<not> gt_pause s \<Longrightarrow> packet_step lost n s (goto i Add s)"
| add: "i < n \<Longrightarrow> gt_pc s i = Add \<Longrightarrow> packet_step lost n s (goto i Check (s\<lparr> gt_inflight := gt_inflight s + 1 \<rparr>))"
| check_open: "i < n \<Longrightarrow> gt_pc s i = Check \<Longrightarrow> \<not> gt_pause s \<Longrightarrow>
    packet_step lost n s (goto i Inside (s\<lparr> gt_seen := (gt_seen s)(i := gt_runtime s),
                                      gt_seen_cfg := (gt_seen_cfg s)(i := gt_cfg s) \<rparr>))"
| check_closed: "i < n \<Longrightarrow> gt_pc s i = Check \<Longrightarrow> gt_pause s \<Longrightarrow> packet_step lost n s (goto i Sub s)"
| undo: "i < n \<Longrightarrow> gt_pc s i = Sub \<Longrightarrow> packet_step lost n s (goto i Spin (s\<lparr> gt_inflight := gt_inflight s - 1 \<rparr>))"
| leave: "i < n \<Longrightarrow> gt_pc s i = Inside \<Longrightarrow> packet_step lost n s (goto i Outside (s\<lparr> gt_inflight := gt_inflight s - 1 \<rparr>))"
| skip: "lost \<Longrightarrow> i < n \<Longrightarrow> gt_pc s i = Inside \<Longrightarrow> packet_step lost n s (goto i Outside (s\<lparr> gt_leaked := gt_leaked s + 1 \<rparr>))"

text \<open>The reloading thread: the path without a pause, taken when neither the policies nor the counts
  changed; the pause, the end of the wait, a write to the runtime or the configuration, the release.\<close>

inductive reload_step :: "bool \<Rightarrow> gate \<Rightarrow> gate \<Rightarrow> bool" for buffered :: bool where
  fast: "gt_rpc s = Idle \<Longrightarrow> reload_step buffered s (s\<lparr> gt_cfg := gt_cfg s + 1 \<rparr>)"
| pause: "gt_rpc s = Idle \<Longrightarrow> reload_step buffered s (store_pause buffered True (s\<lparr> gt_rpc := Drain \<rparr>))"
| drained: "gt_rpc s = Drain \<Longrightarrow> \<not> gt_inflight s > 0 \<Longrightarrow> reload_step buffered s (s\<lparr> gt_rpc := Swap \<rparr>)"
| swap_cfg: "gt_rpc s = Swap \<Longrightarrow> reload_step buffered s (s\<lparr> gt_cfg := gt_cfg s + 1 \<rparr>)"
| swap_runtime: "gt_rpc s = Swap \<Longrightarrow> reload_step buffered s (s\<lparr> gt_runtime := gt_runtime s + 1 \<rparr>)"
| resume: "gt_rpc s = Swap \<Longrightarrow> reload_step buffered s (store_pause buffered False (s\<lparr> gt_rpc := Idle \<rparr>))"
| flush: "buffered \<Longrightarrow> gt_buffer s = b # bs \<Longrightarrow> reload_step buffered s (s\<lparr> gt_pause := b, gt_buffer := bs \<rparr>)"

inductive gate_step :: "bool \<Rightarrow> bool \<Rightarrow> nat \<Rightarrow> gate \<Rightarrow> gate \<Rightarrow> bool" for buffered lost :: bool and n :: nat where
  packet: "packet_step lost n s t \<Longrightarrow> gate_step buffered lost n s t"
| reload: "reload_step buffered s t \<Longrightarrow> gate_step buffered lost n s t"

inductive_cases packet_stepE: "packet_step lost n s t"
inductive_cases reload_stepE: "reload_step buffered s t"
inductive_cases gate_stepE: "gate_step buffered lost n s t"

section \<open>Invariants of step relations\<close>

locale step_invariant =
  fixes init :: "'s" and step :: "'s \<Rightarrow> 's \<Rightarrow> bool" and inv :: "'s \<Rightarrow> bool"
  assumes inv_init: "inv init" and inv_step: "inv s \<Longrightarrow> step s t \<Longrightarrow> inv t"
begin

lemma reachable_inv: "step\<^sup>*\<^sup>* init s \<Longrightarrow> inv s"
  by (induction rule: rtranclp_induct) (auto intro: inv_init inv_step)

end

section \<open>Safety\<close>

definition in_flight :: "packet_pc \<Rightarrow> bool" where
  "in_flight p = (p = Check \<or> p = Sub \<or> p = Inside)"

definition flight_count :: "nat \<Rightarrow> (nat \<Rightarrow> packet_pc) \<Rightarrow> int" where
  "flight_count n pcs = int (card {i. i < n \<and> in_flight (pcs i)})"

definition gate_inv :: "bool \<Rightarrow> nat \<Rightarrow> gate \<Rightarrow> bool" where
  "gate_inv lost n s \<longleftrightarrow> gt_inflight s = flight_count n (gt_pc s) + int (gt_leaked s) \<and> (\<not> lost \<longrightarrow> gt_leaked s = 0) \<and> 
     gt_pause s = (gt_rpc s \<noteq> Idle) \<and>
     (\<forall>i. \<not> i < n \<longrightarrow> gt_pc s i = Outside) \<and>
     (\<forall>i. gt_pc s i = Inside \<longrightarrow> gt_rpc s \<noteq> Swap \<and> gt_seen s i = gt_runtime s)"

lemma flight_count_upd:
  assumes "i < n"
  shows "flight_count n (pcs(i := p)) = flight_count n pcs
    + (if in_flight p then 1 else 0) - (if in_flight (pcs i) then 1 else 0)"
proof -
  define A where "A = {j. j < n \<and> in_flight (pcs j) \<and> j \<noteq> i}"
  have f: "finite A" "i \<notin> A" by (simp_all add: A_def)
  have e: "{j. j < n \<and> in_flight ((pcs(i := p)) j)} = (if in_flight p then insert i A else A)"
    "{j. j < n \<and> in_flight (pcs j)} = (if in_flight (pcs i) then insert i A else A)"
    using assms by (auto simp: A_def)
  show ?thesis unfolding flight_count_def e using f by simp
qed

lemma flight_count_zero: "flight_count n pcs \<le> 0 \<Longrightarrow> i < n \<Longrightarrow> \<not> in_flight (pcs i)"
  by (auto simp: flight_count_def)

lemma packet_step_inv: "gate_inv lost n s \<Longrightarrow> packet_step lost n s t \<Longrightarrow> gate_inv lost n t"
  by (erule packet_stepE) (auto simp: gate_inv_def goto_def flight_count_upd in_flight_def)

lemma reload_step_inv: "gate_inv lost n s \<Longrightarrow> reload_step False s t \<Longrightarrow> gate_inv lost n t"
proof (erule reload_stepE)
  assume h: "gate_inv lost n s" "t = s\<lparr> gt_rpc := Swap \<rparr>" "gt_rpc s = Drain" "\<not> 0 < gt_inflight s"
  have "gt_pc s i \<noteq> Inside" for i
    using h flight_count_zero [of n "gt_pc s" i] by (cases "i < n") (auto simp: gate_inv_def in_flight_def)
  with h show "gate_inv lost n t" by (simp add: gate_inv_def)
qed (auto simp: gate_inv_def store_pause_def)

interpretation gate_sc: step_invariant gate_init "gate_step False lost n" "gate_inv lost n"
proof unfold_locales
  show "gate_inv lost n gate_init" by (simp add: gate_inv_def gate_init_def flight_count_def in_flight_def)
qed (auto elim!: gate_stepE intro: packet_step_inv reload_step_inv)


text \<open>C33: with stores that take effect at once, no packet thread is inside the critical section while
  the reloading thread writes the crypto runtime, in any interleaving of any number of threads: each
  thread that is inside still has the runtime it entered with, and the in-flight count is the number of
  threads between their increment and their decrement, plus the entries that were never left, of which there are none as long
  as every job has a forwarder.\<close>

theorem reload_excludes_packets:
  assumes "(gate_step False lost n)\<^sup>*\<^sup>* gate_init s"
  shows "(gt_rpc s = Swap \<longrightarrow> (\<forall>i. gt_pc s i \<noteq> Inside)) \<and>
    (\<forall>i. gt_pc s i = Inside \<longrightarrow> gt_seen s i = gt_runtime s) \<and>
    gt_inflight s = int (card {i. i < n \<and> (gt_pc s i = Check \<or> gt_pc s i = Sub \<or> gt_pc s i = Inside)}) + int (gt_leaked s) \<and>
    (\<not> lost \<longrightarrow> gt_leaked s = 0)"
  using gate_sc.reachable_inv [OF assms] by (auto simp: gate_inv_def flight_count_def in_flight_def)

section \<open>Two ways past the gate\<close>

lemma rtranclp_trans2: "r\<^sup>*\<^sup>* a b \<Longrightarrow> r b c \<Longrightarrow> r\<^sup>*\<^sup>* a c"
  by (rule rtranclp.rtrancl_into_rtrancl)

definition gate_enter_run :: "gate" where
  "gate_enter_run = gate_init\<lparr> gt_pc := (\<lambda>_. Outside)(0 := Inside), gt_inflight := 1 \<rparr>"

lemma gate_enter: "0 < n \<Longrightarrow> (gate_step b lost n)\<^sup>*\<^sup>* gate_init gate_enter_run"
proof -
  assume n: "0 < n"
  let ?s1 = "goto 0 Spin gate_init" and ?s2 = "goto 0 Add gate_init" and ?s3 = "goto 0 Check (gate_init\<lparr> gt_inflight := 1 \<rparr>)"
  have "gate_step b lost n gate_init ?s1" "gate_step b lost n ?s1 ?s2" "gate_step b lost n ?s2 ?s3" "gate_step b lost n ?s3 gate_enter_run"
    using packet_step.call [OF n, of gate_init] packet_step.see_open [OF n, of ?s1] packet_step.add [OF n, of ?s2]
      packet_step.check_open [OF n, of ?s3]
    by (auto intro!: gate_step.packet simp: goto_def gate_init_def gate_enter_run_def fun_upd_idem)
  then show ?thesis by (meson rtranclp.rtrancl_refl rtranclp_trans2)
qed


text \<open>The gate does not hold in two cases. The path without a pause replaces the configuration under a
  thread that is inside, since only the crypto runtime is compared and not the pointer that the thread
  uses. And when the store to \<open>g_reload_pause\<close> may still be buffered while the reloading thread reads
  \<open>g_inflight_packets\<close>, a thread enters after that read: the runtime is rewritten while a packet is
  processed.\<close>

lemma gate_can_be_passed:
  "(\<exists>s. (gate_step False lost 1)\<^sup>*\<^sup>* gate_init s \<and> gt_pc s 0 = Inside \<and> gt_seen_cfg s 0 \<noteq> gt_cfg s) \<and>
   (\<exists>s. (gate_step True lost 1)\<^sup>*\<^sup>* gate_init s \<and> gt_pc s 0 = Inside \<and> gt_rpc s = Swap \<and> gt_seen s 0 \<noteq> gt_runtime s)"
proof (intro conjI)
  let ?s = "gate_enter_run\<lparr> gt_cfg := gt_cfg gate_enter_run + 1 \<rparr>"
  have "gate_step False lost 1 gate_enter_run ?s"
    by (intro gate_step.reload reload_step.fast) (simp add: gate_enter_run_def gate_init_def)
  then have "(gate_step False lost 1)\<^sup>*\<^sup>* gate_init ?s" using rtranclp_trans2 [OF gate_enter] by simp
  then show "\<exists>s. (gate_step False lost 1)\<^sup>*\<^sup>* gate_init s \<and> gt_pc s 0 = Inside \<and> gt_seen_cfg s 0 \<noteq> gt_cfg s"
    by (intro exI [of _ ?s]) (simp add: gate_enter_run_def gate_init_def)
next
  define d where "d = gate_init\<lparr> gt_buffer := [True], gt_rpc := Swap \<rparr>"
  let ?a = "gate_init\<lparr> gt_rpc := Drain, gt_buffer := [True] \<rparr>"
  let ?s1 = "goto 0 Spin d" and ?s2 = "goto 0 Add d" and ?s3 = "goto 0 Check (d\<lparr> gt_inflight := 1 \<rparr>)"
  let ?s4 = "goto 0 Inside (d\<lparr> gt_inflight := 1 \<rparr>)"
  let ?s5 = "?s4\<lparr> gt_runtime := 1 \<rparr>"
  have "gate_step True lost 1 gate_init ?a"
    using gate_step.reload [OF reload_step.pause [of gate_init True]]
    by (simp add: gate_init_def store_pause_def)
  moreover have "gate_step True lost 1 ?a d"
    using gate_step.reload [OF reload_step.drained [of ?a True]] by (simp add: gate_init_def d_def)
  moreover have "gate_step True lost 1 d ?s1" "gate_step True lost 1 ?s1 ?s2" "gate_step True lost 1 ?s2 ?s3" "gate_step True lost 1 ?s3 ?s4"
    using packet_step.call [of 0 1 d lost] packet_step.see_open [of 0 1 ?s1 lost] packet_step.add [of 0 1 ?s2 lost]
      packet_step.check_open [of 0 1 ?s3 lost]
    by (auto intro!: gate_step.packet simp: goto_def gate_init_def d_def fun_upd_idem)
  moreover have "gate_step True lost 1 ?s4 ?s5"
    using gate_step.reload [OF reload_step.swap_runtime [of ?s4 True]] by (simp add: goto_def gate_init_def d_def)
  ultimately have "(gate_step True lost 1)\<^sup>*\<^sup>* gate_init ?s5" by (meson rtranclp.rtrancl_refl rtranclp_trans2)
  then show "\<exists>s. (gate_step True lost 1)\<^sup>*\<^sup>* gate_init s \<and> gt_pc s 0 = Inside \<and> gt_rpc s = Swap \<and> gt_seen s 0 \<noteq> gt_runtime s"
    by (intro exI [of _ ?s5]) (simp add: goto_def gate_init_def d_def)
qed

section \<open>The wait ends\<close>

text \<open>How many steps a thread can still take once the pause is set.\<close>

fun steps_left :: "packet_pc \<Rightarrow> nat" where
  "steps_left Add = 3"
| "steps_left Check = 2"
| "steps_left Inside = 2"
| "steps_left Sub = 1"
| "steps_left Outside = 1"
| "steps_left Spin = 0"

definition gate_work :: "nat \<Rightarrow> gate \<Rightarrow> nat" where
  "gate_work n s = (\<Sum>i<n. steps_left (gt_pc s i))"

lemma gate_work_upd:
  assumes "i < n" "steps_left p < steps_left (gt_pc s i)" "gt_pc s' = gt_pc s"
  shows "gate_work n (goto i p s') < gate_work n s"
  unfolding gate_work_def
  by (rule sum_strict_mono_ex1) (use assms in \<open>auto simp: goto_def intro!: bexI [of _ i]\<close>)

lemma packet_step_work:
  assumes "packet_step lost n s t" "gt_pause s"
  shows "gate_work n t < gate_work n s \<and> gt_pause t \<and> gt_rpc t = gt_rpc s"
  using assms by (auto elim!: packet_stepE intro!: gate_work_upd simp: goto_def)

lemma packet_steps_work:
  "(packet_step lost n ^^ k) s t \<Longrightarrow> gt_pause s \<Longrightarrow> k + gate_work n t \<le> gate_work n s \<and> gt_pause t \<and> gt_rpc t = gt_rpc s"
proof (induction k arbitrary: t)
  case (Suc k)
  from Suc.prems(1) obtain u where "(packet_step lost n ^^ k) s u" "packet_step lost n u t" by auto
  with Suc.IH [of u] Suc.prems(2) packet_step_work [of lost n u t] show ?case by auto
qed simp

lemma gate_work_le: "gate_work n s \<le> 3 * n"
proof -
  have "steps_left p \<le> 3" for p by (cases p) simp_all
  then have "gate_work n s \<le> (\<Sum>i<n. 3)" unfolding gate_work_def by (intro sum_mono) blast
  then show ?thesis by simp
qed

lemma packet_blocked:
  assumes "\<not> (\<exists>u. packet_step lost n t u)" "i < n"
  shows "gt_pc t i = Spin"
  using assms packet_step.intros(1-7) [of i n t] by (cases "gt_pc t i") blast+

lemma packet_steps_gate: "(packet_step lost n ^^ k) s t \<Longrightarrow> (gate_step b lost n)\<^sup>*\<^sup>* s t"
  by (induction k arbitrary: t) (auto intro: rtranclp_trans2 gate_step.packet)

text \<open>An entry that was never left keeps the count above zero for good.\<close>

lemma leak_blocks:
  assumes "gate_inv lost n s" "gt_rpc s = Drain" "0 < gt_leaked s" "gate_step False lost n s t"
  shows "gt_rpc t = Drain \<and> 0 < gt_leaked t"
proof -
  have "0 < gt_inflight s" using assms(1,3) by (simp add: gate_inv_def flight_count_def)
  then show ?thesis
    using assms(2-4) by (auto elim!: gate_stepE packet_stepE reload_stepE simp: goto_def store_pause_def)
qed

lemma leak_blocks_for_ever:
  assumes "(gate_step False lost n)\<^sup>*\<^sup>* s t" "gate_inv lost n s" "gt_rpc s = Drain" "0 < gt_leaked s"
  shows "gt_rpc t = Drain"
proof -
  have "gate_inv lost n t \<and> gt_rpc t = Drain \<and> 0 < gt_leaked t"
    using assms(1)
    by (induction rule: rtranclp_induct) (use assms leak_blocks gate_sc.inv_step in blast)+
  then show ?thesis by blast
qed


section \<open>Instances\<close>

theorem reload_excludes_packets_witness:
  "gt_seen gate_enter_run 0 = gt_runtime gate_enter_run \<and> gt_pc gate_enter_run 0 = Inside
   \<and> gt_inflight gate_enter_run = int (card {i. i < (1::nat) \<and> (gt_pc gate_enter_run i = Check \<or> gt_pc gate_enter_run i = Sub \<or> gt_pc gate_enter_run i = Inside)})
       + int (gt_leaked gate_enter_run) \<and> gt_leaked gate_enter_run = 0"
  using reload_excludes_packets [OF gate_enter [of 1 False False]] by (simp add: gate_enter_run_def)


end
