(* ===== verification/DbMerge.thy ===== *)
theory DbMerge
  imports Config
begin

text \<open>
  \<open>src/db/db_runtime.c\<close>: merging the configurations of the active profiles into the one the forwarder
  runs. Interfaces are shared by name, policies get wire ids that are unique in the merged
  configuration, and the index lists of every profile are translated. Loading one profile from the
  database is the parameter \<open>load\<close>. A function that returns -1 after writing part of its destination
  yields \<open>None\<close>: the only caller discards the destination then.
\<close>

section \<open>Appending\<close>

definition find_local_by_ifname :: "app_config \<Rightarrow> string \<Rightarrow> int" where
  "find_local_by_ifname cfg ifname = first_index (\<lambda>l. lc_ifname l = ifname) 0 (ac_locals cfg)"

definition find_wan_by_ifname :: "app_config \<Rightarrow> string \<Rightarrow> int" where
  "find_wan_by_ifname cfg ifname = first_index (\<lambda>w. wc_ifname w = ifname) 0 (ac_wans cfg)"

definition append_local_unique :: "app_config \<Rightarrow> local_config \<Rightarrow> int \<times> app_config" where
  "append_local_unique dst src_loc =
     (let idx = find_local_by_ifname dst (lc_ifname src_loc) in
      if idx \<ge> 0 then (idx, dst)
      else if length (ac_locals dst) \<ge> MAX_INTERFACES then (-1, dst)
      else (int (length (ac_locals dst)), dst\<lparr> ac_locals := ac_locals dst @ [src_loc] \<rparr>))"

definition append_wan_unique :: "app_config \<Rightarrow> wan_config \<Rightarrow> int \<times> app_config" where
  "append_wan_unique dst src_wan =
     (let idx = find_wan_by_ifname dst (wc_ifname src_wan) in
      if idx \<ge> 0 then (idx, dst)
      else if length (ac_wans dst) \<ge> MAX_INTERFACES then (-1, dst)
      else (int (length (ac_wans dst)), dst\<lparr> ac_wans := ac_wans dst @ [src_wan] \<rparr>))"

text \<open>The array \<open>used\<close> is the predicate of the wire ids in use.\<close>

definition collect_used_wire_ids :: "app_config \<Rightarrow> int \<Rightarrow> bool" where
  "collect_used_wire_ids dst wid = (1 \<le> wid \<and> wid \<le> 255 \<and> list_ex (\<lambda>cp. cp_id cp = wid) (ac_policies dst))"

definition free_wire_id :: "(int \<Rightarrow> bool) \<Rightarrow> int \<Rightarrow> int option" where
  "free_wire_id used wid =
     (if wid < 1 \<or> wid > 255 \<or> used wid then List.find (\<lambda>j. \<not> used j) (map int [1..<256]) else Some wid)"

definition append_policy_unique :: "app_config \<Rightarrow> crypto_policy \<Rightarrow> int \<times> app_config" where
  "append_policy_unique dst src_cp =
     (if length (ac_policies dst) \<ge> MAX_CRYPTO_POLICIES then (-1, dst)
      else
        case free_wire_id (collect_used_wire_ids dst) (cp_id src_cp) of
          None \<Rightarrow> (-1, dst)
        | Some i \<Rightarrow> (int (length (ac_policies dst)), dst\<lparr> ac_policies := ac_policies dst @ [src_cp\<lparr> cp_id := i \<rparr>] \<rparr>))"

text \<open>The three loops of \<open>merge_one_config\<close> that fill \<open>local_map\<close>, \<open>wan_map\<close> and \<open>policy_map\<close>.\<close>

fun append_all :: "(app_config \<Rightarrow> 'a \<Rightarrow> int \<times> app_config) \<Rightarrow> app_config \<Rightarrow> 'a list \<Rightarrow> (int list \<times> app_config) option" where
  "append_all app dst [] = Some ([], dst)"
| "append_all app dst (x # xs) =
     (let (i, dst) = app dst x in
      if i < 0 then None
      else do { (is, dst) \<leftarrow> append_all app dst xs; Some (i # is, dst) })"

section \<open>Translating a profile\<close>

text \<open>One of the three index loops: \<open>n\<close> is the source count, \<open>cap\<close> the size of the destination array; the
  second components are the WAN weights.\<close>

fun remap_entries :: "nat \<Rightarrow> nat \<Rightarrow> int list \<Rightarrow> (int \<times> 'w) list \<Rightarrow> (int \<times> 'w) list \<Rightarrow> (int \<times> 'w) list" where
  "remap_entries n cap mp acc [] = acc"
| "remap_entries n cap mp acc ((i, w) # es) =
     (if i < 0 \<or> i \<ge> int n then remap_entries n cap mp acc es
      else if length acc \<ge> cap then acc
      else remap_entries n cap mp (acc @ [(mp ! nat i, w)]) es)"

definition remap_indices :: "nat \<Rightarrow> nat \<Rightarrow> int list \<Rightarrow> int list \<Rightarrow> int list" where
  "remap_indices n cap mp is = map fst (remap_entries n cap mp [] (map (\<lambda>i. (i, ())) is))"

definition merge_profile :: "app_config \<Rightarrow> int list \<Rightarrow> int list \<Rightarrow> int list \<Rightarrow> profile_config \<Rightarrow> profile_config" where
  "merge_profile src local_map wan_map policy_map sp =
     (let ws = remap_entries (length (ac_wans src)) MAX_PROFILE_INTERFACES wan_map []
                 (zip (pf_wan_indices sp) (pf_wan_bandwidth_weight sp))
      in \<lparr> pf_id = pf_id sp, pf_name = take 63 (pf_name sp), pf_enabled = pf_enabled sp,
           pf_local_indices = remap_indices (length (ac_locals src)) MAX_PROFILE_INTERFACES local_map (pf_local_indices sp),
           pf_wan_indices = map fst ws, pf_wan_bandwidth_weight = map snd ws,
           pf_policy_indices = remap_indices (length (ac_policies src)) MAX_CRYPTO_POLICIES policy_map
                                 (take MAX_CRYPTO_POLICIES (pf_policy_indices sp)) \<rparr>)"

fun merge_profiles :: "(profile_config \<Rightarrow> profile_config) \<Rightarrow> app_config \<Rightarrow> profile_config list \<Rightarrow> app_config option" where
  "merge_profiles tr dst [] = Some dst"
| "merge_profiles tr dst (sp # sps) =
     (if length (ac_profiles dst) \<ge> MAX_PROFILES then None
      else merge_profiles tr (dst\<lparr> ac_profiles := ac_profiles dst @ [tr sp] \<rparr>) sps)"

definition merge_one_config :: "app_config \<Rightarrow> app_config \<Rightarrow> app_config option" where
  "merge_one_config dst src = do {
     (local_map, dst) \<leftarrow> append_all append_local_unique dst (ac_locals src);
     (wan_map, dst) \<leftarrow> append_all append_wan_unique dst (ac_wans src);
     (policy_map, dst) \<leftarrow> append_all append_policy_unique dst (ac_policies src);
     merge_profiles (merge_profile src local_map wan_map policy_map) dst (ac_profiles src) }"

section \<open>The merged configuration\<close>

definition DEFAULT_FRAME_SIZE :: u32 where "DEFAULT_FRAME_SIZE = 4096"
definition DEFAULT_BATCH_SIZE :: u32 where "DEFAULT_BATCH_SIZE = 64"

definition empty_config :: app_config where
  "empty_config = \<lparr> ac_global_frame_size = DEFAULT_FRAME_SIZE, ac_global_batch_size = DEFAULT_BATCH_SIZE,
     ac_locals = [], ac_wans = [], ac_crypto_enabled = False, ac_crypto_key = replicate 32 0,
     ac_encrypt_layer = 0, ac_fake_ethertype_ipv4 = 0, ac_fake_protocol = 0, ac_crypto_mode = 0,
     ac_nonce_size = 0, ac_aes_bits = 0, ac_profiles = [], ac_policies = [] \<rparr>"

fun merge_ids :: "(int \<Rightarrow> app_config option) \<Rightarrow> app_config \<Rightarrow> int list \<Rightarrow> app_config option" where
  "merge_ids load merged [] = Some merged"
| "merge_ids load merged (i # is) = do {
     tmp \<leftarrow> load i;
     merged \<leftarrow> merge_one_config merged tmp;
     merge_ids load merged is }"

definition enable_merged_crypto :: "app_config \<Rightarrow> app_config" where
  "enable_merged_crypto merged =
     (case ac_policies merged of
        [] \<Rightarrow> merged\<lparr> ac_crypto_enabled := False \<rparr>
      | p # _ \<Rightarrow> merged\<lparr> ac_crypto_enabled := True, ac_encrypt_layer := 3, ac_fake_protocol := 99,
                   ac_fake_ethertype_ipv4 := 0x88b5, ac_crypto_mode := cp_crypto_mode p,
                   ac_aes_bits := cp_aes_bits p, ac_nonce_size := cp_nonce_size p, ac_crypto_key := cp_key p \<rparr>)"

definition build_merged_config :: "(int \<Rightarrow> app_config option) \<Rightarrow> int list \<Rightarrow> app_config option" where
  "build_merged_config load ids = do {
     merged \<leftarrow> merge_ids load empty_config ids;
     let merged = enable_merged_crypto merged;
     if config_validate merged \<noteq> 0 then None else Some merged }"

section \<open>What appending keeps\<close>

definition config_names_ok :: "app_config \<Rightarrow> bool" where
  "config_names_ok cfg = (distinct (map lc_ifname (ac_locals cfg)) \<and> length (ac_locals cfg) \<le> MAX_INTERFACES \<and>
     distinct (map wc_ifname (ac_wans cfg)) \<and> length (ac_wans cfg) \<le> MAX_INTERFACES)"

definition wire_ids_ok :: "app_config \<Rightarrow> bool" where
  "wire_ids_ok cfg = (distinct (map cp_id (ac_policies cfg)) \<and> (\<forall>cp \<in> set (ac_policies cfg). 1 \<le> cp_id cp \<and> cp_id cp \<le> 255) \<and>
     length (ac_policies cfg) \<le> MAX_CRYPTO_POLICIES)"

text \<open>\<open>b\<close> extends \<open>a\<close>: every list of \<open>a\<close> is a prefix of the one of \<open>b\<close>.\<close>

definition extends :: "app_config \<Rightarrow> app_config \<Rightarrow> bool" where
  "extends a b = ((\<exists>x. ac_locals b = ac_locals a @ x) \<and> (\<exists>x. ac_wans b = ac_wans a @ x) \<and>
     (\<exists>x. ac_policies b = ac_policies a @ x) \<and> (\<exists>x. ac_profiles b = ac_profiles a @ x) \<and>
     ac_global_frame_size b = ac_global_frame_size a \<and> ac_global_batch_size b = ac_global_batch_size a)"

lemma extends_refl [simp]: "extends a a" by (simp add: extends_def)

lemma extends_trans: "extends a b \<Longrightarrow> extends b c \<Longrightarrow> extends a c"
  by (force simp: extends_def)

definition merge_inv :: "app_config \<Rightarrow> bool" where
  "merge_inv cfg = (config_names_ok cfg \<and> wire_ids_ok cfg)"

definition policy_same :: "crypto_policy \<Rightarrow> crypto_policy \<Rightarrow> bool" where
  "policy_same p q = (p\<lparr> cp_id := 0 \<rparr> = q\<lparr> cp_id := 0 \<rparr>)"

text \<open>The contract of the three appends: one that succeeds returns the position of an element equal to
  the source in what counts (\<open>same\<close>), extends the configuration and keeps its invariant.\<close>

locale unique_append =
  fixes app :: "app_config \<Rightarrow> 'a \<Rightarrow> int \<times> app_config"
    and sel :: "app_config \<Rightarrow> 'a list"
    and same :: "'a \<Rightarrow> 'a \<Rightarrow> bool"
    and keep :: "app_config \<Rightarrow> bool"
  assumes append_law: "app dst x = (i, dst') \<Longrightarrow> 0 \<le> i \<Longrightarrow> keep dst \<Longrightarrow>
     keep dst' \<and> extends dst dst' \<and> ac_profiles dst' = ac_profiles dst \<and>
     nat i < length (sel dst') \<and> same x (sel dst' ! nat i)"
    and sel_extends: "extends a b \<Longrightarrow> \<exists>zs. sel b = sel a @ zs"
begin

text \<open>So the map that the loop fills translates every source index to such a position.\<close>

lemma append_all_law:
  "append_all app dst xs = Some (mp, dst') \<Longrightarrow> keep dst \<Longrightarrow>
   keep dst' \<and> extends dst dst' \<and> ac_profiles dst' = ac_profiles dst \<and> length mp = length xs \<and>
   (\<forall>k < length xs. 0 \<le> mp ! k \<and> nat (mp ! k) < length (sel dst') \<and> same (xs ! k) (sel dst' ! nat (mp ! k)))"
proof (induction xs arbitrary: dst mp)
  case (Cons x xs)
  obtain i d where a: "app dst x = (i, d)" by (cases "app dst x")
  obtain mp' where r: "0 \<le> i" "append_all app d xs = Some (mp', dst')" "mp = i # mp'"
    using Cons.prems(1) a by (auto split: if_splits bind_splits)
  have h: "keep d" "extends dst d" "ac_profiles d = ac_profiles dst" "nat i < length (sel d)" "same x (sel d ! nat i)"
    using append_law [OF a r(1) Cons.prems(2)] by blast+
  note ih = Cons.IH [OF r(2) h(1)]
  have "extends d dst'" using ih by blast
  then obtain zs where "sel dst' = sel d @ zs" using sel_extends by blast
  then have "nat i < length (sel dst') \<and> same x (sel dst' ! nat i)" using h by (auto simp: nth_append)
  then show ?case using ih h r extends_trans by (auto simp: less_Suc_eq_0_disj nth_Cons')
qed simp

end

interpretation local_append: unique_append append_local_unique ac_locals "(\<lambda>a b. lc_ifname a = lc_ifname b)" merge_inv
proof unfold_locales
  fix dst dst' x i
  assume a: "append_local_unique dst x = (i, dst')" "0 \<le> i" and inv: "merge_inv dst"
  let ?k = "first_index (\<lambda>l. lc_ifname l = lc_ifname x) 0 (ac_locals dst)"
  show "merge_inv dst' \<and> extends dst dst' \<and> ac_profiles dst' = ac_profiles dst \<and>
     nat i < length (ac_locals dst') \<and> lc_ifname x = lc_ifname (ac_locals dst' ! nat i)"
  proof (cases "?k = -1")
    case False
    then obtain k where k: "?k = int k" "k < length (ac_locals dst)" "lc_ifname (ac_locals dst ! k) = lc_ifname x"
      using first_index_some [of 0 "\<lambda>l. lc_ifname l = lc_ifname x" "ac_locals dst"] by auto
    then have "i = int k" "dst' = dst" using a by (simp_all add: append_local_unique_def find_local_by_ifname_def Let_def)
    then show ?thesis using k inv by simp
  next
    case True
    then have "lc_ifname x \<notin> lc_ifname ` set (ac_locals dst)"
      using first_index_none [of 0 "\<lambda>l. lc_ifname l = lc_ifname x" "ac_locals dst"] by auto
    moreover have "i = int (length (ac_locals dst))" "dst' = dst\<lparr> ac_locals := ac_locals dst @ [x] \<rparr>" "length (ac_locals dst) < MAX_INTERFACES"
      using True a by (simp_all add: append_local_unique_def find_local_by_ifname_def Let_def split: if_splits)
    ultimately show ?thesis using inv by (simp add: merge_inv_def config_names_ok_def wire_ids_ok_def extends_def)
  qed
qed (auto simp: extends_def)

interpretation wan_append: unique_append append_wan_unique ac_wans "(\<lambda>a b. wc_ifname a = wc_ifname b)" merge_inv
proof unfold_locales
  fix dst dst' x i
  assume a: "append_wan_unique dst x = (i, dst')" "0 \<le> i" and inv: "merge_inv dst"
  let ?k = "first_index (\<lambda>l. wc_ifname l = wc_ifname x) 0 (ac_wans dst)"
  show "merge_inv dst' \<and> extends dst dst' \<and> ac_profiles dst' = ac_profiles dst \<and>
     nat i < length (ac_wans dst') \<and> wc_ifname x = wc_ifname (ac_wans dst' ! nat i)"
  proof (cases "?k = -1")
    case False
    then obtain k where k: "?k = int k" "k < length (ac_wans dst)" "wc_ifname (ac_wans dst ! k) = wc_ifname x"
      using first_index_some [of 0 "\<lambda>l. wc_ifname l = wc_ifname x" "ac_wans dst"] by auto
    then have "i = int k" "dst' = dst" using a by (simp_all add: append_wan_unique_def find_wan_by_ifname_def Let_def)
    then show ?thesis using k inv by simp
  next
    case True
    then have "wc_ifname x \<notin> wc_ifname ` set (ac_wans dst)"
      using first_index_none [of 0 "\<lambda>l. wc_ifname l = wc_ifname x" "ac_wans dst"] by auto
    moreover have "i = int (length (ac_wans dst))" "dst' = dst\<lparr> ac_wans := ac_wans dst @ [x] \<rparr>" "length (ac_wans dst) < MAX_INTERFACES"
      using True a by (simp_all add: append_wan_unique_def find_wan_by_ifname_def Let_def split: if_splits)
    ultimately show ?thesis using inv by (simp add: merge_inv_def config_names_ok_def wire_ids_ok_def extends_def)
  qed
qed (auto simp: extends_def)

lemma free_wire_id_some: "free_wire_id used wid = Some j \<Longrightarrow> 1 \<le> j \<and> j \<le> 255 \<and> \<not> used j"
  by (auto simp: free_wire_id_def find_Some_iff split: if_splits)

interpretation policy_append: unique_append append_policy_unique ac_policies policy_same merge_inv
proof unfold_locales
  fix dst dst' x i
  assume a: "append_policy_unique dst x = (i, dst')" "0 \<le> i" and inv: "merge_inv dst"
  let ?used = "collect_used_wire_ids dst"
  obtain j where f: "free_wire_id ?used (cp_id x) = Some j" and len: "length (ac_policies dst) < MAX_CRYPTO_POLICIES"
    and d: "i = int (length (ac_policies dst))" "dst' = dst\<lparr> ac_policies := ac_policies dst @ [x\<lparr> cp_id := j \<rparr>] \<rparr>"
    using a by (auto simp: append_policy_unique_def split: if_splits option.splits)
  have j: "1 \<le> j" "j \<le> 255" "\<not> ?used j" using free_wire_id_some [OF f] by simp_all
  have "j \<notin> cp_id ` set (ac_policies dst)" using j by (auto simp: collect_used_wire_ids_def list_ex_iff)
  then show "merge_inv dst' \<and> extends dst dst' \<and> ac_profiles dst' = ac_profiles dst \<and>
     nat i < length (ac_policies dst') \<and> policy_same x (ac_policies dst' ! nat i)"
    using inv j len
    by (auto simp: d merge_inv_def config_names_ok_def wire_ids_ok_def extends_def policy_same_def nth_append)
qed (auto simp: extends_def)


section \<open>What merging keeps\<close>

definition valid_index :: "nat \<Rightarrow> int \<Rightarrow> bool" where
  "valid_index n i = (0 \<le> i \<and> i < int n)"

lemma remap_entries_eq:
  "length acc + length (filter (\<lambda>e. valid_index n (fst e)) es) \<le> cap \<Longrightarrow>
   remap_entries n cap mp acc es = acc @ map (\<lambda>(i, w). (mp ! nat i, w)) (filter (\<lambda>e. valid_index n (fst e)) es)"
proof (induction n cap mp acc es rule: remap_entries.induct)
  case (2 n cap mp acc i w es)
  show ?case
  proof (cases "valid_index n i")
    case True
    with 2(3) have "length (acc @ [(mp ! nat i, w)]) + length (filter (\<lambda>e. valid_index n (fst e)) es) \<le> cap" by simp
    with 2(2) True 2(3) show ?thesis by (auto simp: valid_index_def)
  next
    case False
    with 2(1,3) show ?thesis by (auto simp: valid_index_def)
  qed
qed simp

lemma remap_indices_eq:
  assumes "length is \<le> cap"
  shows "remap_indices n cap mp is = map (\<lambda>i. mp ! nat i) (filter (valid_index n) is)"
proof -
  have f: "filter (\<lambda>e. valid_index n (fst e)) (map (\<lambda>i. (i, ())) is) = map (\<lambda>i. (i, ())) (filter (valid_index n) is)"
    by (simp add: filter_map comp_def)
  have "length (filter (valid_index n) is) \<le> cap" using assms length_filter_le [of "valid_index n" "is"] by linarith
  then show ?thesis by (simp add: remap_indices_def remap_entries_eq f)
qed

lemma merge_profiles_eq:
  "merge_profiles tr dst sps = Some dst' \<Longrightarrow>
   dst' = dst\<lparr> ac_profiles := ac_profiles dst @ map tr sps \<rparr> \<and>
   (length (ac_profiles dst) \<le> MAX_PROFILES \<longrightarrow> length (ac_profiles dst') \<le> MAX_PROFILES)"
proof (induction sps arbitrary: dst)
  case (Cons sp sps)
  from Cons.prems have r: "merge_profiles tr (dst\<lparr> ac_profiles := ac_profiles dst @ [tr sp] \<rparr>) sps = Some dst'"
    and l: "length (ac_profiles dst) < MAX_PROFILES" by (simp_all split: if_splits)
  note ih = Cons.IH [OF r]
  have d: "dst' = dst\<lparr> ac_profiles := ac_profiles dst @ map tr (sp # sps) \<rparr>" using conjunct1 [OF ih] by simp
  have "length (ac_profiles dst') \<le> MAX_PROFILES" using conjunct2 [OF ih] l by simp
  with d show ?case by blast
qed simp

text \<open>The array sizes of a profile, and that each WAN has a weight.\<close>

definition profile_sized :: "profile_config \<Rightarrow> bool" where
  "profile_sized p = (length (pf_local_indices p) \<le> MAX_PROFILE_INTERFACES \<and> length (pf_wan_indices p) \<le> MAX_PROFILE_INTERFACES \<and>
     length (pf_wan_bandwidth_weight p) = length (pf_wan_indices p) \<and> length (pf_policy_indices p) \<le> MAX_CRYPTO_POLICIES)"

text \<open>What a profile of \<open>dst\<close> has in common with the profile \<open>sp\<close> of \<open>src\<close>: the LAN names, the WAN names
  with their weights, and the policies up to their wire ids, in the same order; all its indices are
  in range.\<close>

definition lan_names :: "app_config \<Rightarrow> int list \<Rightarrow> string list" where
  "lan_names cfg is = map (\<lambda>i. lc_ifname (ac_locals cfg ! nat i)) (filter (valid_index (length (ac_locals cfg))) is)"

definition wan_names :: "app_config \<Rightarrow> (int \<times> int) list \<Rightarrow> (string \<times> int) list" where
  "wan_names cfg es = map (\<lambda>(i, w). (wc_ifname (ac_wans cfg ! nat i), w)) (filter (\<lambda>e. valid_index (length (ac_wans cfg)) (fst e)) es)"

definition policies_at :: "app_config \<Rightarrow> int list \<Rightarrow> crypto_policy list" where
  "policies_at cfg is = map (\<lambda>i. ac_policies cfg ! nat i) (filter (valid_index (length (ac_policies cfg))) is)"

definition profile_indices_ok :: "app_config \<Rightarrow> profile_config \<Rightarrow> bool" where
  "profile_indices_ok cfg p = (list_all (valid_index (length (ac_locals cfg))) (pf_local_indices p) \<and>
     list_all (valid_index (length (ac_wans cfg))) (pf_wan_indices p) \<and>
     list_all (valid_index (length (ac_policies cfg))) (pf_policy_indices p) \<and>
     length (pf_wan_bandwidth_weight p) = length (pf_wan_indices p))"

definition profile_merged :: "app_config \<Rightarrow> profile_config \<Rightarrow> app_config \<Rightarrow> profile_config \<Rightarrow> bool" where
  "profile_merged src sp dst dp = (pf_id dp = pf_id sp \<and> pf_enabled dp = pf_enabled sp \<and>
     lan_names dst (pf_local_indices dp) = lan_names src (pf_local_indices sp) \<and>
     wan_names dst (zip (pf_wan_indices dp) (pf_wan_bandwidth_weight dp))
       = wan_names src (zip (pf_wan_indices sp) (pf_wan_bandwidth_weight sp)) \<and>
     list_all2 policy_same (policies_at src (pf_policy_indices sp)) (policies_at dst (pf_policy_indices dp)) \<and>
     profile_indices_ok dst dp)"

text \<open>\<open>mp\<close> translates the positions of \<open>xs\<close> to positions of \<open>ys\<close> with equal elements.\<close>

definition index_map :: "('a \<Rightarrow> 'b \<Rightarrow> bool) \<Rightarrow> int list \<Rightarrow> 'a list \<Rightarrow> 'b list \<Rightarrow> bool" where
  "index_map R mp xs ys = (length mp = length xs \<and>
     (\<forall>k < length xs. 0 \<le> mp ! k \<and> nat (mp ! k) < length ys \<and> R (xs ! k) (ys ! nat (mp ! k))))"

lemma index_map_valid:
  assumes "index_map R mp xs ys" "valid_index (length xs) i"
  shows "valid_index (length ys) (mp ! nat i)" "R (xs ! nat i) (ys ! nat (mp ! nat i))"
proof -
  have "nat i < length xs" using assms(2) by (auto simp: valid_index_def)
  with assms(1) have "0 \<le> mp ! nat i \<and> nat (mp ! nat i) < length ys \<and> R (xs ! nat i) (ys ! nat (mp ! nat i))"
    by (simp add: index_map_def)
  then show "valid_index (length ys) (mp ! nat i)" "R (xs ! nat i) (ys ! nat (mp ! nat i))"
    by (auto simp: valid_index_def nat_less_iff)
qed

lemma index_map_extend: "index_map R mp xs ys \<Longrightarrow> index_map R mp xs (ys @ zs)"
  by (auto simp: index_map_def nth_append)

lemma filter_mapped:
  assumes "index_map R mp xs ys"
  shows "filter (valid_index (length ys)) (map (\<lambda>i. mp ! nat i) (filter (valid_index (length xs)) is))
    = map (\<lambda>i. mp ! nat i) (filter (valid_index (length xs)) is)"
  using index_map_valid(1) [OF assms] by (auto simp: filter_id_conv)

lemma merge_profile_merged:
  assumes lm: "index_map (\<lambda>a b. lc_ifname a = lc_ifname b) lmap (ac_locals src) (ac_locals dst)"
    and wm: "index_map (\<lambda>a b. wc_ifname a = wc_ifname b) wmap (ac_wans src) (ac_wans dst)"
    and pm: "index_map policy_same pmap (ac_policies src) (ac_policies dst)"
    and sz: "profile_sized sp"
  shows "profile_merged src sp dst (merge_profile src lmap wmap pmap sp)"
proof -
  let ?dp = "merge_profile src lmap wmap pmap sp"
  let ?es = "zip (pf_wan_indices sp) (pf_wan_bandwidth_weight sp)"
  let ?fs = "filter (\<lambda>e. valid_index (length (ac_wans src)) (fst e)) ?es"
  have l: "pf_local_indices ?dp = map (\<lambda>i. lmap ! nat i) (filter (valid_index (length (ac_locals src))) (pf_local_indices sp))"
    using sz by (simp add: merge_profile_def Let_def profile_sized_def remap_indices_eq)
  have p: "pf_policy_indices ?dp = map (\<lambda>i. pmap ! nat i) (filter (valid_index (length (ac_policies src))) (pf_policy_indices sp))"
    using sz by (simp add: merge_profile_def Let_def profile_sized_def remap_indices_eq)
  have "length ?fs \<le> MAX_PROFILE_INTERFACES"
    using sz length_filter_le [of "\<lambda>e. valid_index (length (ac_wans src)) (fst e)" ?es] by (simp add: profile_sized_def)
  then have w: "pf_wan_indices ?dp = map (\<lambda>e. wmap ! nat (fst e)) ?fs" "pf_wan_bandwidth_weight ?dp = map snd ?fs"
    by (simp_all add: merge_profile_def Let_def remap_entries_eq split_beta)
  have z: "zip (pf_wan_indices ?dp) (pf_wan_bandwidth_weight ?dp) = map (\<lambda>e. (wmap ! nat (fst e), snd e)) ?fs"
    by (simp add: w zip_map_map zip_same_conv_map)
  have "lan_names dst (pf_local_indices ?dp) = lan_names src (pf_local_indices sp)"
    using index_map_valid [OF lm] by (simp add: lan_names_def l filter_mapped [OF lm])
  moreover have "wan_names dst (zip (pf_wan_indices ?dp) (pf_wan_bandwidth_weight ?dp)) = wan_names src ?es"
  proof -
    have "filter (\<lambda>e. valid_index (length (ac_wans dst)) (fst e)) (map (\<lambda>e. (wmap ! nat (fst e), snd e)) ?fs)
        = map (\<lambda>e. (wmap ! nat (fst e), snd e)) ?fs"
      using index_map_valid(1) [OF wm] by (intro filter_True) auto
    then show ?thesis using index_map_valid(2) [OF wm] unfolding z wan_names_def by (simp add: split_beta cong: map_cong)
  qed
  moreover have "list_all2 policy_same (policies_at src (pf_policy_indices sp)) (policies_at dst (pf_policy_indices ?dp))"
    using index_map_valid [OF pm] by (auto simp: policies_at_def p filter_mapped [OF pm] list_all2_map1 list_all2_map2 list_all2_same)
  moreover have "profile_indices_ok dst ?dp"
    using index_map_valid(1) [OF lm] index_map_valid(1) [OF wm] index_map_valid(1) [OF pm]
    by (auto simp: profile_indices_ok_def l w p list_all_iff)
  moreover have "pf_id ?dp = pf_id sp" "pf_enabled ?dp = pf_enabled sp" by (simp_all add: merge_profile_def Let_def)
  ultimately show ?thesis by (simp add: profile_merged_def)
qed


lemma merge_one_spec:
  assumes "merge_inv dst" "merge_one_config dst src = Some dst'" "\<forall>sp \<in> set (ac_profiles src). profile_sized sp"
  shows "merge_inv dst' \<and> extends dst dst' \<and>
    (length (ac_profiles dst) \<le> MAX_PROFILES \<longrightarrow> length (ac_profiles dst') \<le> MAX_PROFILES) \<and>
    (\<exists>dps. ac_profiles dst' = ac_profiles dst @ dps \<and> list_all2 (\<lambda>sp dp. profile_merged src sp dst' dp) (ac_profiles src) dps)"
proof -
  obtain lm d1 wm d2 pm d3 where a: "append_all append_local_unique dst (ac_locals src) = Some (lm, d1)"
    "append_all append_wan_unique d1 (ac_wans src) = Some (wm, d2)"
    "append_all append_policy_unique d2 (ac_policies src) = Some (pm, d3)"
    "merge_profiles (merge_profile src lm wm pm) d3 (ac_profiles src) = Some dst'"
    using assms(2) by (auto simp: merge_one_config_def split: bind_splits)
  note l = local_append.append_all_law [OF a(1) assms(1)]
  have i1: "merge_inv d1" using l by blast
  note w = wan_append.append_all_law [OF a(2) i1]
  have i2: "merge_inv d2" using w by blast
  note p = policy_append.append_all_law [OF a(3) i2]
  note m = merge_profiles_eq [OF a(4)]
  have d: "dst' = d3\<lparr> ac_profiles := ac_profiles d3 @ map (merge_profile src lm wm pm) (ac_profiles src) \<rparr>" using m by blast
  have same: "ac_locals dst' = ac_locals d3" "ac_wans dst' = ac_wans d3" "ac_policies dst' = ac_policies d3"
    unfolding d by simp_all
  have pr: "ac_profiles d3 = ac_profiles dst" using l w p by simp
  have e: "extends d1 d2" "extends d2 d3" "extends dst d3" "extends d1 d3" using l w p extends_trans by blast+
  have "index_map (\<lambda>a b. lc_ifname a = lc_ifname b) lm (ac_locals src) (ac_locals d1)"
    using l by (simp add: index_map_def)
  then have lm: "index_map (\<lambda>a b. lc_ifname a = lc_ifname b) lm (ac_locals src) (ac_locals dst')"
    using e(4) index_map_extend by (auto simp: extends_def same)
  have "index_map (\<lambda>a b. wc_ifname a = wc_ifname b) wm (ac_wans src) (ac_wans d2)"
    using w by (simp add: index_map_def)
  then have wm: "index_map (\<lambda>a b. wc_ifname a = wc_ifname b) wm (ac_wans src) (ac_wans dst')"
    using e(2) index_map_extend by (auto simp: extends_def same)
  have pm: "index_map policy_same pm (ac_policies src) (ac_policies dst')"
    using p by (simp add: index_map_def same)
  have "list_all2 (\<lambda>sp dp. profile_merged src sp dst' dp) (ac_profiles src) (map (merge_profile src lm wm pm) (ac_profiles src))"
    using merge_profile_merged [OF lm wm pm] assms(3) by (simp add: list_all2_map2 list_all2_same)
  moreover have "ac_profiles dst' = ac_profiles dst @ map (merge_profile src lm wm pm) (ac_profiles src)"
    unfolding d by (simp add: pr)
  moreover have "merge_inv dst'" using p unfolding d by (simp add: merge_inv_def config_names_ok_def wire_ids_ok_def)
  moreover have "extends dst dst'" using e(3) unfolding d by (auto simp: extends_def)
  moreover have "length (ac_profiles dst) \<le> MAX_PROFILES \<longrightarrow> length (ac_profiles dst') \<le> MAX_PROFILES"
    using conjunct2 [OF m] unfolding pr .
  ultimately show ?thesis by blast
qed

lemma indices_ok_extends:
  assumes "profile_indices_ok a p" "extends a b"
  shows "profile_indices_ok b p"
  using assms by (auto simp: profile_indices_ok_def extends_def list_all_iff valid_index_def)

definition merged_ok :: "app_config \<Rightarrow> bool" where
  "merged_ok cfg = (merge_inv cfg \<and> length (ac_profiles cfg) \<le> MAX_PROFILES \<and> list_all (profile_indices_ok cfg) (ac_profiles cfg))"

lemma merge_one_ok:
  assumes "merged_ok dst" "merge_one_config dst src = Some dst'" "\<forall>sp \<in> set (ac_profiles src). profile_sized sp"
  shows "merged_ok dst' \<and> extends dst dst'"
proof -
  have i: "merge_inv dst" "length (ac_profiles dst) \<le> MAX_PROFILES" using assms(1) by (simp_all add: merged_ok_def)
  note m = merge_one_spec [OF i(1) assms(2,3)]
  then obtain dps where d: "ac_profiles dst' = ac_profiles dst @ dps"
    "list_all2 (\<lambda>sp dp. profile_merged src sp dst' dp) (ac_profiles src) dps" by blast
  have "\<forall>p \<in> set dps. profile_indices_ok dst' p"
    using d(2) by (auto simp: list_all2_conv_all_nth in_set_conv_nth profile_merged_def)
  moreover have "\<forall>p \<in> set (ac_profiles dst). profile_indices_ok dst' p"
    using assms(1) m indices_ok_extends by (auto simp: merged_ok_def list_all_iff)
  ultimately show ?thesis using m i(2) d(1) by (auto simp: merged_ok_def list_all_iff)
qed

text \<open>C35: merging the configuration of a profile keeps what was merged before and adds its profiles
  unchanged in meaning: every LAN and WAN they list is found under the same name (with the same weight),
  every policy is there in the same order with the same selector, action and key, and only its wire id
  may differ.\<close>

theorem merge_keeps_profiles:
  assumes "merge_inv dst" "merge_one_config dst src = Some dst'" "\<forall>sp \<in> set (ac_profiles src). profile_sized sp"
  shows "extends dst dst' \<and> (\<exists>dps. ac_profiles dst' = ac_profiles dst @ dps \<and>
    list_all2 (\<lambda>sp dp. pf_id dp = pf_id sp \<and> pf_enabled dp = pf_enabled sp \<and>
        lan_names dst' (pf_local_indices dp) = lan_names src (pf_local_indices sp) \<and>
        wan_names dst' (zip (pf_wan_indices dp) (pf_wan_bandwidth_weight dp))
          = wan_names src (zip (pf_wan_indices sp) (pf_wan_bandwidth_weight sp)) \<and>
        list_all2 policy_same (policies_at src (pf_policy_indices sp)) (policies_at dst' (pf_policy_indices dp)))
      (ac_profiles src) dps)"
proof -
  note m = merge_one_spec [OF assms]
  then obtain dps where d: "ac_profiles dst' = ac_profiles dst @ dps"
    "list_all2 (\<lambda>sp dp. profile_merged src sp dst' dp) (ac_profiles src) dps" by blast
  show ?thesis using m d by (auto simp: profile_merged_def elim!: list_all2_mono)
qed

lemma merge_ids_ok:
  "merge_ids load m ids = Some m' \<Longrightarrow> merged_ok m \<Longrightarrow>
   \<forall>i c. load i = Some c \<longrightarrow> (\<forall>sp \<in> set (ac_profiles c). profile_sized sp) \<Longrightarrow> merged_ok m' \<and> extends m m'"
proof (induction ids arbitrary: m)
  case (Cons i ids)
  obtain t m1 where t: "load i = Some t" "merge_one_config m t = Some m1" "merge_ids load m1 ids = Some m'"
    using Cons.prems(1) by (auto split: bind_splits)
  have "merged_ok m1 \<and> extends m m1" 
    using merge_one_ok [OF Cons.prems(2) t(2)] Cons.prems(3) t(1) by blast
  with Cons.IH [OF t(3)] Cons.prems(3) extends_trans show ?case by blast
qed simp

lemma enable_merged_sel [simp]:
  "ac_locals (enable_merged_crypto m) = ac_locals m" "ac_wans (enable_merged_crypto m) = ac_wans m"
  "ac_policies (enable_merged_crypto m) = ac_policies m" "ac_profiles (enable_merged_crypto m) = ac_profiles m"
  by (simp_all add: enable_merged_crypto_def split: list.split)

text \<open>C36: whatever profiles are active, the configuration built for the forwarder is well formed: the
  wire ids of its policies are pairwise different and between 1 and 255, so an id on the wire names one
  policy; interface names are unique; every table fits its array; every index in a profile is in range;
  and the result passes \<open>config_validate\<close>.\<close>

theorem merged_config_wellformed:
  assumes "build_merged_config load ids = Some cfg"
    and "\<And>i c. load i = Some c \<Longrightarrow> \<forall>sp \<in> set (ac_profiles c). profile_sized sp"
  shows "distinct (map cp_id (ac_policies cfg)) \<and> (\<forall>cp \<in> set (ac_policies cfg). 1 \<le> cp_id cp \<and> cp_id cp \<le> 255) \<and>
    distinct (map lc_ifname (ac_locals cfg)) \<and> distinct (map wc_ifname (ac_wans cfg)) \<and>
    length (ac_locals cfg) \<le> 16 \<and> length (ac_wans cfg) \<le> 16 \<and> length (ac_policies cfg) \<le> 128 \<and> length (ac_profiles cfg) \<le> 32 \<and>
    (\<forall>p \<in> set (ac_profiles cfg). profile_indices_ok cfg p) \<and> config_validate cfg = 0"
proof -
  obtain m where m: "merge_ids load empty_config ids = Some m" "cfg = enable_merged_crypto m" "config_validate cfg = 0"
    using assms(1) by (auto simp: build_merged_config_def Let_def split: bind_splits if_splits)
  have "merged_ok empty_config"
    by (simp add: merged_ok_def empty_config_def merge_inv_def config_names_ok_def wire_ids_ok_def)
  then have "merged_ok m" using merge_ids_ok [OF m(1)] assms(2) by blast
  then show ?thesis using m(3)
    by (simp add: m(2) merged_ok_def merge_inv_def config_names_ok_def wire_ids_ok_def list_all_iff profile_indices_ok_def
        MAX_INTERFACES_def MAX_CRYPTO_POLICIES_def MAX_PROFILES_def)
qed

section \<open>Instances\<close>

lemma sample_sized: "\<forall>sp \<in> set (ac_profiles sample_config). profile_sized sp"
  by (simp add: sample_defs profile_sized_def MAX_PROFILE_INTERFACES_def MAX_CRYPTO_POLICIES_def)

definition sample_load :: "int \<Rightarrow> app_config option" where
  "sample_load i = (if i \<in> {1, 2} then Some sample_config else None)"

lemma empty_merge_inv: "merge_inv empty_config"
  by (simp add: empty_config_def merge_inv_def config_names_ok_def wire_ids_ok_def)


theorem merge_keeps_profiles_witness:
  "\<exists>dst' dp. merge_one_config empty_config sample_config = Some dst' \<and> ac_profiles dst' = [dp]
     \<and> lan_names dst' (pf_local_indices dp) = lan_names sample_config (pf_local_indices sample_profile)"
proof -
  have "merge_one_config empty_config sample_config \<noteq> None"
    by (simp add: merge_one_config_def empty_config_def sample_defs append_local_unique_def append_wan_unique_def
        append_policy_unique_def free_wire_id_def collect_used_wire_ids_def find_local_by_ifname_def find_wan_by_ifname_def
        MAX_INTERFACES_def MAX_CRYPTO_POLICIES_def MAX_PROFILES_def Let_def)
  then obtain d where d: "merge_one_config empty_config sample_config = Some d" by blast
  from merge_keeps_profiles [OF empty_merge_inv d sample_sized] show ?thesis
    using d by (auto simp: empty_config_def sample_config_def list_all2_Cons1)
qed

theorem merged_config_wellformed_witness:
  "\<exists>cfg. build_merged_config sample_load [1, 2] = Some cfg \<and> length (ac_policies cfg) = 4 \<and> distinct (map cp_id (ac_policies cfg))"
proof -
  define r where "r = build_merged_config sample_load [1, 2]"
  have "r = Some (the r) \<and> length (ac_policies (the r)) = 4"
    unfolding r_def by code_simp
  then obtain cfg where c: "build_merged_config sample_load [1, 2] = Some cfg" "length (ac_policies cfg) = 4"
    by (metis r_def)
  have h: "\<forall>sp \<in> set (ac_profiles d). profile_sized sp" if "sample_load i = Some d" for i d
    using that sample_sized by (auto simp: sample_load_def split: if_splits)
  have "distinct (map cp_id (ac_policies cfg))" by (rule conjunct1 [OF merged_config_wellformed [OF c(1)]]) (rule h)
  then show ?thesis using c by blast
qed

end
