(* ===== verification/Flow.thy ===== *)
theory Flow
  imports Config FlowTable Layer4 ArpCache Checksum
begin

text \<open>
  The helpers with which the packet threads of \<open>src/core/forwarder.c\<close> look at a packet and choose where
  it goes, and the bridge-mode helpers of \<open>src/core/bridge_mac.c\<close>: parsing the flow, the TCP flags, the
  choice of a WAN for a packet, the destination MACs, the choice of a local interface for a packet
  that arrived on a WAN.
\<close>

section \<open>Flows\<close>

record flow =
  fw_src_ip :: u32
  fw_dst_ip :: u32
  fw_src_port :: u16
  fw_dst_port :: u16
  fw_protocol :: u8

text \<open>\<open>None\<close> inside is the return value -1, whose output parameters no caller uses.\<close>

definition parse_flow :: "buf \<Rightarrow> nat \<Rightarrow> flow option option" where
  "parse_flow pkt pkt_len = do {
     l3 \<leftarrow> crypto_eth_ipv4_offset pkt pkt_len;
     if l3 < 0 then Some None
     else let l3_off = nat l3 in
     if pkt_len < l3_off + 20 then Some None
     else do {
       src \<leftarrow> rd_le32 pkt (l3_off + 12);
       dst \<leftarrow> rd_le32 pkt (l3_off + 16);
       proto \<leftarrow> rd pkt (l3_off + 9);
       ip_hdr_len \<leftarrow> ip_ihl pkt l3_off;
       if ip_hdr_len < 20 then Some None
       else if proto = 6 \<or> proto = 17 then
         (if pkt_len < l3_off + ip_hdr_len + (if proto = 6 then 20 else 8) then Some None
          else do {
            sp \<leftarrow> rd_be16 pkt (l3_off + ip_hdr_len);
            dp \<leftarrow> rd_be16 pkt (l3_off + ip_hdr_len + 2);
            Some (Some \<lparr> fw_src_ip = src, fw_dst_ip = dst, fw_src_port = sp, fw_dst_port = dp, fw_protocol = proto \<rparr>) })
       else Some (Some \<lparr> fw_src_ip = src, fw_dst_ip = dst, fw_src_port = 0, fw_dst_port = 0, fw_protocol = proto \<rparr>) } }"

definition tcp_ipv4_tcp_flags :: "buf \<Rightarrow> nat \<Rightarrow> u8 option option" where
  "tcp_ipv4_tcp_flags pkt pkt_len = do {
     l3 \<leftarrow> crypto_eth_ipv4_offset pkt pkt_len;
     if l3 < 0 \<or> pkt_len < nat l3 + 20 then Some None
     else let l3_off = nat l3 in do {
       proto \<leftarrow> rd pkt (l3_off + 9);
       if proto \<noteq> 6 then Some None
       else do {
         ip_hdr_len \<leftarrow> ip_ihl pkt l3_off;
         if ip_hdr_len < 20 then Some None
         else if pkt_len < l3_off + ip_hdr_len + 14 then Some None
         else do { fl \<leftarrow> rd pkt (l3_off + ip_hdr_len + 13); Some (Some fl) } } } }"

definition get_dest_ip :: "buf \<Rightarrow> nat \<Rightarrow> u32 option" where
  "get_dest_ip pkt pkt_len =
     (if pkt_len < 14 + 20 then Some 0
      else do {
        et \<leftarrow> rd_be16 pkt 12;
        if et \<noteq> 0x0800 then Some 0 else rd_le32 pkt (14 + 16) })"

definition is_ssh_flow :: "u8 \<Rightarrow> u16 \<Rightarrow> u16 \<Rightarrow> bool" where
  "is_ssh_flow protocol src_port dst_port = (protocol = 6 \<and> (src_port = 22 \<or> dst_port = 22))"

text \<open>The signature of a frame that is not IPv4: an FNV hash of its length and its first 192 bytes.\<close>

definition pkt_l2_sig :: "buf \<Rightarrow> nat \<Rightarrow> u32 option" where
  "pkt_l2_sig p len = do {
     d \<leftarrow> rdn p 0 (min len 192);
     Some (fold (\<lambda>b h. h * 16777619 XOR ucast b) d (2166136261 XOR of_nat len)) }"

definition flow_hash_local_tq :: "flow \<Rightarrow> u32" where
  "flow_hash_local_tq f =
     (let h = fw_src_ip f XOR fw_dst_ip f;
          h = h XOR (push_bit 16 (ucast (fw_src_port f)) OR ucast (fw_dst_port f));
          h = h XOR ucast (fw_protocol f);
          h = h XOR drop_bit 16 h;
          h = h * 0x85ebca6b;
          h = h XOR drop_bit 13 h;
          h = h * 0xc2b2ae35
      in h XOR drop_bit 16 h)"

section \<open>Choosing a WAN\<close>

text \<open>The shared state of the choice: the flow table, the counter for new flows and the sequence number
  of the per-packet choice.\<close>

record wan_choice =
  wch_ft :: flow_table
  wch_next :: "32 word"
  wch_seq :: "64 word"

text \<open>The loop that fills \<open>allowed\<close> and \<open>weights\<close>.\<close>

fun allowed_wans :: "nat \<Rightarrow> bool \<Rightarrow> nat \<Rightarrow> (int \<times> int) list \<Rightarrow> (int \<times> int) list" where
  "allowed_wans wan_count any_weight n [] = []"
| "allowed_wans wan_count any_weight n ((wi, w) # ws) =
     (if n \<ge> MAX_INTERFACES then []
      else if wi < 0 \<or> wi \<ge> int wan_count then allowed_wans wan_count any_weight n ws
      else if any_weight \<and> w \<le> 0 then allowed_wans wan_count any_weight n ws
      else (wi, w) # allowed_wans wan_count any_weight (n + 1) ws)"

text \<open>The choice of a profile with WANs; \<open>None\<close> falls through to the flow table.\<close>

definition profile_wan :: "app_config \<Rightarrow> profile_config \<Rightarrow> 64 word \<Rightarrow> (int \<times> 64 word) option" where
  "profile_wan cfg p seq =
     (if length (pf_wan_indices p) > 1 then
        (let any_weight = list_ex (\<lambda>w. w > 0) (pf_wan_bandwidth_weight p);
             ws = allowed_wans (length (ac_wans cfg)) any_weight 0 (zip (pf_wan_indices p) (pf_wan_bandwidth_weight p));
             allowed = map fst ws; weights = map snd ws
         in if length allowed = 1 then Some (hd allowed, seq)
            else if length allowed > 1
              then Some (flow_table_pick_wan_per_packet seq allowed (if any_weight then Some weights else None))
            else None)
      else if length (pf_wan_indices p) = 1 then
        (let wi = hd (pf_wan_indices p) in
         if wi \<ge> 0 \<and> wi < int (length (ac_wans cfg)) then Some (wi, seq) else None)
      else None)"

definition select_wan_idx_for_packet ::
  "app_config \<Rightarrow> bool \<Rightarrow> 64 word \<Rightarrow> wan_choice \<Rightarrow> int \<Rightarrow> u32 \<Rightarrow> u32 \<Rightarrow> u16 \<Rightarrow> u16 \<Rightarrow> u8 \<Rightarrow> u32 \<Rightarrow> int \<times> wan_choice" where
  "select_wan_idx_for_packet cfg alloc now wc local_idx src_ip dst_ip src_port dst_port protocol pkt_len =
     (let profile_idx =
            (if ac_profiles cfg \<noteq> [] \<and> local_idx \<ge> 0 \<and> local_idx < int (length (ac_locals cfg))
             then config_select_profile_for_local cfg local_idx else -1);
          choice = (if profile_idx \<ge> 0 \<and> profile_idx < int (length (ac_profiles cfg))
                    then profile_wan cfg (ac_profiles cfg ! nat profile_idx) (wch_seq wc) else None)
      in case choice of
           Some (wi, seq) \<Rightarrow> (wi, wc\<lparr> wch_seq := seq \<rparr>)
         | None \<Rightarrow>
             let (wi, ft, nx) = flow_table_get_wan alloc (wch_ft wc) (wch_next wc) now
                                  src_ip dst_ip src_port dst_port protocol pkt_len
             in (wi, wc\<lparr> wch_ft := ft, wch_next := nx \<rparr>))"

definition NE_WAN_NONIP_DIST_PROTO :: u8 where "NE_WAN_NONIP_DIST_PROTO = 253"

definition select_wan_idx_nonip_flow ::
  "app_config \<Rightarrow> bool \<Rightarrow> 64 word \<Rightarrow> wan_choice \<Rightarrow> int \<Rightarrow> buf \<Rightarrow> nat \<Rightarrow> (int \<times> wan_choice) option" where
  "select_wan_idx_nonip_flow cfg alloc now wc local_idx pkt pkt_len = do {
     h \<leftarrow> pkt_l2_sig pkt pkt_len;
     Some (select_wan_idx_for_packet cfg alloc now wc local_idx (htonl 0xc0000201) (htonl 0xc0000202)
             (ucast h) (ucast (drop_bit 16 h)) NE_WAN_NONIP_DIST_PROTO (of_nat pkt_len)) }"

section \<open>Bridge mode\<close>

definition NE_DEFAULT_FAKE_ETHERTYPE_IPV4 :: u16 where "NE_DEFAULT_FAKE_ETHERTYPE_IPV4 = 0x88B5"

definition mac_is_zero :: "u8 list \<Rightarrow> bool" where
  "mac_is_zero mac = list_all (\<lambda>b. b = 0) mac"

definition mac_is_broadcast :: "u8 list \<Rightarrow> bool" where
  "mac_is_broadcast mac = list_all (\<lambda>b. b = 0xFF) mac"

definition mac_is_multicast :: "u8 list \<Rightarrow> bool" where
  "mac_is_multicast mac = ((mac ! 0 AND 1) \<noteq> 0)"

definition mac_is_valid_peer :: "u8 list \<Rightarrow> bool" where
  "mac_is_valid_peer mac = (\<not> mac_is_zero mac \<and> \<not> mac_is_broadcast mac \<and> \<not> mac_is_multicast mac)"

definition config_wan_bridge_mode :: "app_config \<Rightarrow> bool" where
  "config_wan_bridge_mode cfg = list_ex (\<lambda>w. wc_dst_ip w = 0) (ac_wans cfg)"

definition bridge_wan_rx_normalize_eth_ipv4 :: "crypto_state \<Rightarrow> buf \<Rightarrow> nat \<Rightarrow> buf option" where
  "bridge_wan_rx_normalize_eth_ipv4 st pkt pkt_len =
     (if pkt_len < 14 + 20 then Some pkt
      else do {
        et \<leftarrow> rd_be16 pkt 12;
        if et = 0x0800 \<or> et = 0x8100 then Some pkt
        else do {
          v \<leftarrow> rd pkt 14;
          if drop_bit 4 v \<noteq> 4 then Some pkt
          else let ihl = unat (v AND 0x0F) * 4 in
            if ihl < 20 \<or> ihl > 60 \<or> pkt_len < 14 + ihl then Some pkt
            else do {
              tot \<leftarrow> rd_be16 pkt (14 + 2);
              if tot < of_nat ihl \<or> pkt_len < 14 + unat tot then Some pkt
              else do {
                csum_ok \<leftarrow> ne_rx_ipv4_header_csum_ok pkt 14 ihl;
                if \<not> csum_ok then Some pkt
                else let fake4 = (if g_fake_ethertype_ipv4 st = 0 then NE_DEFAULT_FAKE_ETHERTYPE_IPV4
                                  else g_fake_ethertype_ipv4 st) in do {
                  m \<leftarrow> rd pkt 12;
                  if m \<noteq> hi8 fake4 then Some pkt
                  else do { pkt \<leftarrow> wr pkt 12 0x08; wr pkt 13 0x00 } } } } } })"

definition bridge_mac_local_for_dmac :: "app_config \<Rightarrow> buf \<Rightarrow> nat \<Rightarrow> int option" where
  "bridge_mac_local_for_dmac cfg pkt pkt_len =
     (if pkt_len < 14 then Some (-1)
      else do {
        d \<leftarrow> rdn pkt 0 6;
        if \<not> mac_is_valid_peer d then Some (-1)
        else Some (first_index (\<lambda>l. \<not> mac_is_zero (lc_dst_mac l) \<and> d = lc_dst_mac l) 0 (ac_locals cfg)) })"

section \<open>Addresses\<close>

text \<open>\<open>wan_macs\<close> are the destination and source MAC of the WAN interfaces, \<open>arp_wan\<close> and \<open>arp_local\<close> the
  ARP caches; the IP address of an ARP request to send is in the second component.\<close>

definition set_wan_l2_addrs ::
  "app_config \<Rightarrow> arp_cache list \<Rightarrow> (u8 list \<times> u8 list) list \<Rightarrow> int \<Rightarrow> buf \<Rightarrow> (int \<times> u32 option \<times> buf) option" where
  "set_wan_l2_addrs cfg arp_wan wan_macs wan_idx pkt =
     (if wan_idx < 0 \<or> wan_idx \<ge> int (length (ac_wans cfg)) then Some (-1, None, pkt)
      else let w = ac_wans cfg ! nat wan_idx in
        if wc_dst_ip w = 0 then Some (0, None, pkt)
        else wan_rewrite_dest_mac (arp_wan ! nat wan_idx) w (fst (wan_macs ! nat wan_idx)) (snd (wan_macs ! nat wan_idx)) pkt)"

definition set_local_l2_addrs ::
  "app_config \<Rightarrow> arp_cache list \<Rightarrow> int \<Rightarrow> u32 \<Rightarrow> buf \<Rightarrow> (int \<times> u32 option \<times> buf) option" where
  "set_local_l2_addrs cfg arp_local local_idx dest_ip pkt =
     (if local_idx < 0 \<or> local_idx \<ge> int (length (ac_locals cfg)) then Some (-1, None, pkt)
      else if config_wan_bridge_mode cfg then Some (0, None, pkt)
      else local_rewrite_dest_mac (arp_local ! nat local_idx) dest_ip pkt)"

definition forwarder_rx_pick_local ::
  "app_config \<Rightarrow> crypto_state \<Rightarrow> buf \<Rightarrow> nat \<Rightarrow> u32 \<Rightarrow> (int \<times> buf) option" where
  "forwarder_rx_pick_local cfg st pkt pkt_len dest_ip =
     (if config_wan_bridge_mode cfg then do {
        pkt \<leftarrow> bridge_wan_rx_normalize_eth_ipv4 st pkt pkt_len;
        i \<leftarrow> bridge_mac_local_for_dmac cfg pkt pkt_len;
        Some (i, pkt) }
      else if dest_ip = 0 then Some (-1, pkt)
      else Some (config_find_local_for_ip cfg dest_ip, pkt))"

end
