(* ===== verification/Interface.thy ===== *)
theory Interface
  imports Config
begin

text \<open>
  Sending and returning frames over an AF_XDP socket: \<open>interface_send_batch_queue\<close>,
  \<open>interface_send_to_local_batch_queue\<close>, \<open>interface_recv_release_single_queue\<close> and the flush functions of
  \<open>src/core/interface.c\<close>, and the filling of the receive ring in \<open>interface_init_local\<close> and
  \<open>interface_init_wan_rx\<close>. The rings belong to libxdp and the kernel: whether the k-th attempt to reserve an
  entry succeeds is the parameter \<open>room\<close>. The memory that socket and program share (the UMEM) is a byte
  list; the transmit and fill rings are the lists of what was put into them. The Ethernet addresses are
  written into the frame when the interface has them (\<open>NE_BRIDGE_MODE\<close>, the default build).
\<close>

section \<open>State\<close>

record xsk_interface =
  xi_umem_size :: nat
  xi_ring_size :: nat
  xi_frame_size :: nat
  xi_queue_count :: int
  xi_src_mac :: "u8 list"
  xi_dst_mac :: "u8 list"

record xsk_queue =
  xq_bufs :: buf
  xq_tx :: "(nat \<times> nat) list"
  xq_fill :: "nat list"
  xq_slot :: u64
  xq_pending :: int
  xq_kicks :: nat
  xq_wait_loops :: u64

text \<open>The addresses a transmitted frame gets.\<close>

definition mac_set :: "u8 list \<Rightarrow> bool" where
  "mac_set mac = list_ex (\<lambda>b. b \<noteq> 0) mac"

definition eth_rewrite :: "u8 list \<Rightarrow> u8 list \<Rightarrow> nat \<Rightarrow> buf \<Rightarrow> buf option" where
  "eth_rewrite dst_mac src_mac off b = do {
     b \<leftarrow> (if mac_set dst_mac then wrn b off dst_mac else Some b);
     if mac_set src_mac then wrn b (off + 6) src_mac else Some b }"

section \<open>Transmission\<close>

definition tx_addr :: "xsk_interface \<Rightarrow> u64 \<Rightarrow> nat option" where
  "tx_addr iface slot =
     (if xi_frame_size iface = 0 then None
      else let frame_count = xi_umem_size iface div xi_frame_size iface in
        if frame_count div 2 = 0 then None
        else Some ((unat slot mod (frame_count div 2) + frame_count div 2) * xi_frame_size iface))"

text \<open>Copying a packet into the next transmit frame and adding its descriptor. The kernel is told after
  \<open>batch\<close> descriptors.\<close>

definition tx_put :: "xsk_interface \<Rightarrow> u8 list \<Rightarrow> u8 list \<Rightarrow> int \<Rightarrow> buf \<Rightarrow> nat \<Rightarrow> xsk_queue \<Rightarrow> xsk_queue option" where
  "tx_put iface dst_mac src_mac batch pkt pkt_len q = do {
     addr \<leftarrow> tx_addr iface (xq_slot q);
     d \<leftarrow> rdn pkt 0 pkt_len;
     bufs \<leftarrow> wrn (xq_bufs q) addr d;
     bufs \<leftarrow> eth_rewrite dst_mac src_mac addr bufs;
     let q = q\<lparr> xq_bufs := bufs, xq_tx := xq_tx q @ [(addr, pkt_len)], xq_slot := xq_slot q + 1,
               xq_pending := xq_pending q + 1 \<rparr>;
     Some (if xq_pending q \<ge> batch then q\<lparr> xq_kicks := xq_kicks q + 1, xq_pending := 0 \<rparr> else q) }"

text \<open>The first attempt to reserve an entry and the eight retries.\<close>

definition tx_reserved :: "(nat \<Rightarrow> bool) \<Rightarrow> bool" where
  "tx_reserved room = list_ex room [0..<9]"

definition interface_send_batch_queue ::
  "xsk_interface \<Rightarrow> (nat \<Rightarrow> bool) \<Rightarrow> int \<Rightarrow> buf \<Rightarrow> nat \<Rightarrow> xsk_queue \<Rightarrow> (int \<times> xsk_queue) option" where
  "interface_send_batch_queue iface room queue_idx pkt pkt_len q =
     (if queue_idx \<ge> xi_queue_count iface then Some (-1, q)
      else
        let flushed = (if room 0 then q
                       else if xq_pending q > 0 then q\<lparr> xq_kicks := xq_kicks q + 1, xq_pending := 0 \<rparr> else q)
        in if \<not> tx_reserved room then Some (-1, flushed)
        else do {
          q \<leftarrow> tx_put iface (xi_dst_mac iface) (xi_src_mac iface) 16 pkt pkt_len flushed;
          Some (0, q) })"

definition LOCAL_TX_MAX_WAIT_LOOPS :: nat where "LOCAL_TX_MAX_WAIT_LOOPS = 10000"

text \<open>The waiting loop: the k-th attempt fails when \<open>room k\<close> does not hold; every failed attempt but the
  last tells the kernel to send.\<close>

function (sequential) local_tx_wait :: "(nat \<Rightarrow> bool) \<Rightarrow> nat \<Rightarrow> xsk_queue \<Rightarrow> bool \<times> xsk_queue" where
  "local_tx_wait room k q =
     (if room k then (True, q)
      else
        let q = q\<lparr> xq_wait_loops := xq_wait_loops q + 1 \<rparr> in
        if k \<ge> LOCAL_TX_MAX_WAIT_LOOPS then (False, q)
        else local_tx_wait room (k + 1) (q\<lparr> xq_kicks := xq_kicks q + 1, xq_pending := 0 \<rparr>))"
  by pat_completeness auto
termination by (relation "measure (\<lambda>(room, k, q). LOCAL_TX_MAX_WAIT_LOOPS - k)") auto

declare local_tx_wait.simps [simp del]

definition interface_send_to_local_batch_queue ::
  "xsk_interface \<Rightarrow> (nat \<Rightarrow> bool) \<Rightarrow> int \<Rightarrow> local_config \<Rightarrow> buf \<Rightarrow> nat \<Rightarrow> xsk_queue \<Rightarrow> (int \<times> xsk_queue) option" where
  "interface_send_to_local_batch_queue iface room queue_idx cfg pkt pkt_len q =
     (if queue_idx \<ge> xi_queue_count iface then Some (-1, q)
      else case local_tx_wait room 0 q of
        (False, q) \<Rightarrow> Some (-1, q)
      | (True, q) \<Rightarrow> do {
          q \<leftarrow> tx_put iface (lc_dst_mac cfg) (lc_src_mac cfg) 4 pkt pkt_len q;
          Some (0, q) })"

definition interface_send_flush_queue :: "xsk_interface \<Rightarrow> int \<Rightarrow> xsk_queue \<Rightarrow> xsk_queue" where
  "interface_send_flush_queue iface queue_idx q =
     (if queue_idx \<ge> xi_queue_count iface then q
      else if xq_pending q > 0 then q\<lparr> xq_kicks := xq_kicks q + 1, xq_pending := 0 \<rparr> else q)"

section \<open>Reception\<close>

text \<open>Filling the receive ring with the first frames of the UMEM.\<close>

definition fill_init :: "xsk_interface \<Rightarrow> nat \<Rightarrow> xsk_queue \<Rightarrow> xsk_queue" where
  "fill_init iface reserved q = q\<lparr> xq_fill := map (\<lambda>i. i * xi_frame_size iface) [0..<reserved] \<rparr>"

text \<open>Returning frames: \<open>room i k\<close> says that attempt \<open>k\<close> to reserve an entry of the fill ring for the i-th frame succeeds. There
  are two attempts, the second after completions have been drained; when both fail the frame is skipped, and lost to the
  ring.\<close>

definition reserve_fill :: "(nat \<Rightarrow> nat \<Rightarrow> bool) \<Rightarrow> nat \<Rightarrow> bool" where
  "reserve_fill room i \<longleftrightarrow> (if room i 0 then True else room i 1)"

fun release_frames :: "(nat \<Rightarrow> nat \<Rightarrow> bool) \<Rightarrow> nat \<Rightarrow> nat list \<Rightarrow> xsk_queue \<Rightarrow> xsk_queue" where
  "release_frames room i [] q = q"
| "release_frames room i (a # as) q =
     release_frames room (i + 1) as (if reserve_fill room i then q\<lparr> xq_fill := xq_fill q @ [a] \<rparr> else q)"

definition interface_recv_release_single_queue ::
  "xsk_interface \<Rightarrow> (nat \<Rightarrow> nat \<Rightarrow> bool) \<Rightarrow> int \<Rightarrow> nat list \<Rightarrow> xsk_queue \<Rightarrow> xsk_queue" where
  "interface_recv_release_single_queue iface room queue_idx addrs q =
     (if queue_idx \<ge> xi_queue_count iface then q else release_frames room 0 addrs q)"

section \<open>Transmit frames and receive frames do not meet\<close>

text \<open>The rings fit twice into the UMEM, which the defaults of the configuration satisfy with equality.\<close>

definition iface_ok :: "xsk_interface \<Rightarrow> xsk_queue \<Rightarrow> bool" where
  "iface_ok iface q \<longleftrightarrow>
     14 \<le> xi_frame_size iface \<and> 0 < xi_ring_size iface \<and>
     2 * xi_ring_size iface * xi_frame_size iface \<le> xi_umem_size iface \<and> length (xq_bufs q) = xi_umem_size iface \<and>
     length (xi_dst_mac iface) = 6 \<and> length (xi_src_mac iface) = 6"

definition tx_slots :: "xsk_interface \<Rightarrow> nat" where
  "tx_slots iface = xi_umem_size iface div xi_frame_size iface div 2"

lemma iface_slots:
  assumes "iface_ok iface q"
  shows "xi_ring_size iface \<le> tx_slots iface" "0 < tx_slots iface"
proof -
  have "(2 * xi_ring_size iface * xi_frame_size iface) div xi_frame_size iface \<le> xi_umem_size iface div xi_frame_size iface"
    using assms by (intro div_le_mono) (simp add: iface_ok_def)
  moreover have "xi_frame_size iface \<noteq> 0" "0 < xi_ring_size iface" using assms by (auto simp: iface_ok_def)
  ultimately have "2 * xi_ring_size iface \<le> xi_umem_size iface div xi_frame_size iface" by simp
  then have "xi_ring_size iface \<le> xi_umem_size iface div xi_frame_size iface div 2" by linarith
  then show "xi_ring_size iface \<le> tx_slots iface" "0 < tx_slots iface"
    using \<open>0 < xi_ring_size iface\<close> by (simp_all add: tx_slots_def)
qed

lemma tx_addr_eq:
  assumes "iface_ok iface q"
  shows "tx_addr iface slot = Some ((unat slot mod tx_slots iface + tx_slots iface) * xi_frame_size iface)"
  using iface_slots(2) [OF assms] assms by (simp add: tx_addr_def iface_ok_def tx_slots_def Let_def)

lemma tx_frame_inside:
  assumes "iface_ok iface q" "i < tx_slots iface"
  shows "(i + tx_slots iface) * xi_frame_size iface + xi_frame_size iface \<le> xi_umem_size iface"
proof -
  have "i + tx_slots iface + 1 \<le> 2 * tx_slots iface" using assms(2) by simp
  also have "\<dots> \<le> xi_umem_size iface div xi_frame_size iface" by (simp add: tx_slots_def)
  finally have "(i + tx_slots iface + 1) * xi_frame_size iface \<le> xi_umem_size iface div xi_frame_size iface * xi_frame_size iface"
    by (rule mult_le_mono1)
  also have "\<dots> \<le> xi_umem_size iface" by simp
  finally show ?thesis by (simp add: algebra_simps)
qed

text \<open>The frame as it leaves the interface.\<close>

definition wire_frame :: "u8 list \<Rightarrow> u8 list \<Rightarrow> u8 list \<Rightarrow> u8 list" where
  "wire_frame dst_mac src_mac f =
     (let g = (if mac_set dst_mac then dst_mac @ drop 6 f else f)
      in take (length f) (if mac_set src_mac then take 6 g @ src_mac @ drop 12 g else g))"

lemma wire_frame_length: "length d = 6 \<Longrightarrow> length s = 6 \<Longrightarrow> length (wire_frame d s f) = length f"
  by (simp add: wire_frame_def Let_def)

lemma wire_frame_body: "length d = 6 \<Longrightarrow> length s = 6 \<Longrightarrow> drop 12 (wire_frame d s f) = drop 12 f"
  by (cases "length f < 12") (simp_all add: wire_frame_def Let_def drop_take)

lemma wire_frame_none: "\<not> mac_set d \<Longrightarrow> \<not> mac_set s \<Longrightarrow> wire_frame d s f = f"
  by (simp add: wire_frame_def)

lemma eth_rewrite_mid:
  assumes "12 \<le> length f" "length d = 6" "length s = 6" "off = length a"
  shows "eth_rewrite d s off (a @ f @ c) = Some (a @ wire_frame d s f @ c)"
proof -
  have l: "length (d @ drop 6 f) = length f" using assms by simp
  have 1: "wrn (a @ f @ c) off d = Some (a @ (d @ drop 6 f) @ c)"
    using assms by (simp add: wrn_def)
  have 2: "wrn (a @ g @ c) (off + 6) s = Some (a @ (take 6 g @ s @ drop 12 g) @ c)" if "length g = length f" for g
    using assms that by (simp add: wrn_def)
  define g where "g = (if mac_set d then d @ drop 6 f else f)"
  define h where "h = (if mac_set s then take 6 g @ s @ drop 12 g else g)"
  have g: "length g = length f" using l by (simp add: g_def)
  have "length h = length f" using g assms by (simp add: h_def)
  then have "wire_frame d s f = h"
    unfolding wire_frame_def Let_def g_def [symmetric] h_def [symmetric] by simp
  moreover have "(if mac_set d then wrn (a @ f @ c) off d else Some (a @ f @ c)) = Some (a @ g @ c)"
    using 1 by (simp add: g_def)
  ultimately show ?thesis
    using 2 [OF g] by (simp add: eth_rewrite_def h_def)
qed

lemma tx_put_total:
  assumes ok: "iface_ok iface q" and n: "14 \<le> n" "n \<le> xi_frame_size iface" "n \<le> length pkt"
    and m: "length d = 6" "length s = 6"
  defines "addr \<equiv> (unat (xq_slot q) mod tx_slots iface + tx_slots iface) * xi_frame_size iface"
  shows "\<exists>q'. tx_put iface d s b pkt n q = Some q' \<and>
     xq_bufs q' = take addr (xq_bufs q) @ wire_frame d s (take n pkt) @ drop (addr + n) (xq_bufs q) \<and>
     xq_tx q' = xq_tx q @ [(addr, n)] \<and> xq_fill q' = xq_fill q \<and> xq_slot q' = xq_slot q + 1"
proof -
  have "addr + xi_frame_size iface \<le> xi_umem_size iface"
    unfolding addr_def by (rule tx_frame_inside [OF ok]) (simp add: iface_slots [OF ok])
  then have l: "addr + n \<le> length (xq_bufs q)" using n ok by (simp add: iface_ok_def)
  have w: "wrn (xq_bufs q) addr (take n pkt) = Some (take addr (xq_bufs q) @ take n pkt @ drop (addr + n) (xq_bufs q))"
    using l n by (simp add: wrn_def)
  have e: "eth_rewrite d s addr (take addr (xq_bufs q) @ take n pkt @ drop (addr + n) (xq_bufs q))
      = Some (take addr (xq_bufs q) @ wire_frame d s (take n pkt) @ drop (addr + n) (xq_bufs q))"
    by (rule eth_rewrite_mid) (use n m l in simp_all)
  have a: "tx_addr iface (xq_slot q) = Some addr" unfolding addr_def by (rule tx_addr_eq [OF ok])
  show ?thesis
    unfolding tx_put_def a by (use n w e in \<open>simp add: Let_def\<close>)
qed

lemma iface_ok_flush: "iface_ok iface (q\<lparr> xq_kicks := k, xq_pending := p \<rparr>) = iface_ok iface q"
  by (simp add: iface_ok_def)

text \<open>C39: sending a frame cannot disturb reception: \<open>interface_send_batch_queue\<close> never writes outside the UMEM;
  when it succeeds the frame, with the interface's addresses, lies in a transmit frame, the descriptor
  names it, no byte of another frame has changed, and none of the frames the receive ring was filled with
  overlaps it; when it fails nothing was written.\<close>

theorem tx_frame_isolated:
  assumes "iface_ok iface q" "14 \<le> n" "n \<le> xi_frame_size iface" "n \<le> length pkt" "queue_idx < xi_queue_count iface"
  shows "\<exists>rc q'. interface_send_batch_queue iface room queue_idx pkt n q = Some (rc, q') \<and> xq_fill q' = xq_fill q \<and>
     (if tx_reserved room
      then rc = 0 \<and> (\<exists>addr. xq_tx q' = xq_tx q @ [(addr, n)] \<and> addr + xi_frame_size iface \<le> xi_umem_size iface \<and>
             take n (drop addr (xq_bufs q')) = wire_frame (xi_dst_mac iface) (xi_src_mac iface) (take n pkt) \<and>
             take addr (xq_bufs q') = take addr (xq_bufs q) \<and> drop (addr + n) (xq_bufs q') = drop (addr + n) (xq_bufs q) \<and>
             (\<forall>i < xi_ring_size iface. i * xi_frame_size iface + xi_frame_size iface \<le> addr))
      else rc = -1 \<and> xq_bufs q' = xq_bufs q \<and> xq_tx q' = xq_tx q)"
proof -
  define f where "f = (if room 0 then q
                       else if xq_pending q > 0 then q\<lparr> xq_kicks := xq_kicks q + 1, xq_pending := 0 \<rparr> else q)"
  have f: "iface_ok iface f" "xq_bufs f = xq_bufs q" "xq_tx f = xq_tx q" "xq_fill f = xq_fill q" "xq_slot f = xq_slot q"
    using assms(1) by (simp_all add: f_def iface_ok_flush)
  have m: "length (xi_dst_mac iface) = 6" "length (xi_src_mac iface) = 6" using assms(1) by (simp_all add: iface_ok_def)
  define addr where "addr = (unat (xq_slot f) mod tx_slots iface + tx_slots iface) * xi_frame_size iface"
  from tx_put_total [OF f(1) assms(2-4) m, where b = 16, folded addr_def] obtain q' where
    q': "tx_put iface (xi_dst_mac iface) (xi_src_mac iface) 16 pkt n f = Some q'"
      "xq_bufs q' = take addr (xq_bufs q) @ wire_frame (xi_dst_mac iface) (xi_src_mac iface) (take n pkt) @ drop (addr + n) (xq_bufs q)"
      "xq_tx q' = xq_tx q @ [(addr, n)]" "xq_fill q' = xq_fill q" by (auto simp: f)
  have in_: "addr + xi_frame_size iface \<le> xi_umem_size iface"
    unfolding addr_def by (rule tx_frame_inside [OF f(1)]) (simp add: iface_slots [OF f(1)])
  have la: "addr \<le> length (xq_bufs q)" "addr + n \<le> length (xq_bufs q)"
    using in_ assms(1,3) by (simp_all add: iface_ok_def)
  have lw: "length (wire_frame (xi_dst_mac iface) (xi_src_mac iface) (take n pkt)) = n"
    using assms(2,4) m by (simp add: wire_frame_length)
  have rx: "i * xi_frame_size iface + xi_frame_size iface \<le> addr" if "i < xi_ring_size iface" for i
  proof -
    have "i + 1 \<le> unat (xq_slot f) mod tx_slots iface + tx_slots iface"
      using that iface_slots(1) [OF f(1)] by simp
    then have "(i + 1) * xi_frame_size iface \<le> addr" unfolding addr_def by (rule mult_le_mono1)
    then show ?thesis by simp
  qed
  show ?thesis
  proof (cases "tx_reserved room")
    case True
    then have "interface_send_batch_queue iface room queue_idx pkt n q = Some (0, q')"
      using assms(5) q'(1) by (simp add: interface_send_batch_queue_def f_def [symmetric])
    then show ?thesis using True q' in_ la lw rx by auto
  next
    case False
    then have "interface_send_batch_queue iface room queue_idx pkt n q = Some (-1, f)"
      using assms(5) by (simp add: interface_send_batch_queue_def f_def [symmetric])
    then show ?thesis using False f by auto
  qed
qed

lemma local_tx_wait_from:
  "k \<le> LOCAL_TX_MAX_WAIT_LOOPS \<Longrightarrow>
   fst (local_tx_wait room k q) = (\<exists>j. k \<le> j \<and> j \<le> LOCAL_TX_MAX_WAIT_LOOPS \<and> room j) \<and>
   xq_kicks (snd (local_tx_wait room k q)) \<le> xq_kicks q + (LOCAL_TX_MAX_WAIT_LOOPS - k)"
proof (induction room k q rule: local_tx_wait.induct)
  case (1 room k q)
  define r where "r = q\<lparr> xq_wait_loops := xq_wait_loops q + 1 \<rparr>"
  show ?case
  proof (cases "room k")
    case True
    then show ?thesis using 1(2) by (auto simp: local_tx_wait.simps [of room k q])
  next
    case no: False
    show ?thesis
    proof (cases "k \<ge> LOCAL_TX_MAX_WAIT_LOOPS")
      case True
      then have "k = LOCAL_TX_MAX_WAIT_LOOPS" using 1(2) by simp
      moreover have "local_tx_wait room k q = (False, r)"
        using no True by (simp add: local_tx_wait.simps [of room k q] r_def)
      ultimately show ?thesis using no by (auto simp: r_def dest: le_antisym)
    next
      case False
      define r' where "r' = r\<lparr> xq_kicks := xq_kicks r + 1, xq_pending := 0 \<rparr>"
      have e: "local_tx_wait room k q = local_tx_wait room (k + 1) r'"
        using no False by (simp add: local_tx_wait.simps [of room k q] r_def r'_def)
      have ih: "fst (local_tx_wait room (k + 1) r') = (\<exists>j. k + 1 \<le> j \<and> j \<le> LOCAL_TX_MAX_WAIT_LOOPS \<and> room j) \<and>
          xq_kicks (snd (local_tx_wait room (k + 1) r')) \<le> xq_kicks r' + (LOCAL_TX_MAX_WAIT_LOOPS - (k + 1))"
        using 1(1) [OF no _ False] False by (simp add: r_def r'_def)
      have ex: "(\<exists>j. k + 1 \<le> j \<and> j \<le> LOCAL_TX_MAX_WAIT_LOOPS \<and> room j) = (\<exists>j. k \<le> j \<and> j \<le> LOCAL_TX_MAX_WAIT_LOOPS \<and> room j)"
        using no by (metis Suc_eq_plus1 Suc_leI le_SucI le_less Suc_leD)
      have "xq_kicks r' = xq_kicks q + 1" by (simp add: r_def r'_def)
      with ih [THEN conjunct2] False
      have "xq_kicks (snd (local_tx_wait room (k + 1) r')) \<le> xq_kicks q + (LOCAL_TX_MAX_WAIT_LOOPS - k)" by linarith
      with ih [THEN conjunct1] ex show ?thesis unfolding e by blast
    qed
  qed
qed

text \<open>C40: waiting for room on a local interface ends: the sender, which holds the queue's lock, succeeds
  exactly when one of the 10001 attempts finds an entry, and tells the kernel to send at most 10000 times.\<close>

theorem local_tx_wait_bounded:
  "fst (local_tx_wait room 0 q) = (\<exists>j \<le> LOCAL_TX_MAX_WAIT_LOOPS. room j) \<and>
   xq_kicks (snd (local_tx_wait room 0 q)) \<le> xq_kicks q + LOCAL_TX_MAX_WAIT_LOOPS"
  using local_tx_wait_from [of 0 room q] by simp

definition sample_iface :: xsk_interface where
  "sample_iface = \<lparr> xi_umem_size = 256, xi_ring_size = 2, xi_frame_size = 64, xi_queue_count = 1,
     xi_src_mac = replicate 6 0, xi_dst_mac = [2, 0, 0, 0, 0, 9] \<rparr>"

definition sample_queue :: xsk_queue where
  "sample_queue = \<lparr> xq_bufs = replicate 256 0, xq_tx = [], xq_fill = [0, 64], xq_slot = 3, xq_pending = 0, xq_kicks = 0,
     xq_wait_loops = 0 \<rparr>"

theorem tx_frame_isolated_witness:
  "\<exists>q' addr. interface_send_batch_queue sample_iface (\<lambda>k. k = 2) 0 (replicate 64 7) 60 sample_queue = Some (0, q') \<and>
     xq_tx q' = [(addr, 60)] \<and> addr + 64 \<le> 256 \<and> 128 \<le> addr"
proof -
  have r: "tx_reserved (\<lambda>k. k = 2)" by (simp add: tx_reserved_def list_ex_iff)
  have s: "xi_frame_size sample_iface = 64" "xi_umem_size sample_iface = 256" "xi_ring_size sample_iface = 2"
    "xq_tx sample_queue = []" by (simp_all add: sample_iface_def sample_queue_def)
  have "iface_ok sample_iface sample_queue" "14 \<le> (60::nat)" "60 \<le> xi_frame_size sample_iface"
    "60 \<le> length (replicate 64 (7::u8))" "0 < xi_queue_count sample_iface"
    by (simp_all add: iface_ok_def sample_iface_def sample_queue_def)
  from tx_frame_isolated [OF this, of "\<lambda>k. k = 2"] obtain rc q' addr where
    a: "interface_send_batch_queue sample_iface (\<lambda>k. k = 2) 0 (replicate 64 7) 60 sample_queue = Some (rc, q')" "rc = 0"
      "xq_tx q' = [(addr, 60)]" "addr + 64 \<le> 256" "\<forall>i < 2. i * 64 + 64 \<le> addr"
    unfolding if_P [OF r] s append_Nil by blast
  have "1 * 64 + 64 \<le> addr" using a(5) by (rule allE [where x = 1]) simp
  then show ?thesis using a by auto
qed

end
