(* ===== verification/Uplink.thy ===== *)
theory Uplink
  imports Flow CryptoRuntime Fragment WorkerRing Interface
begin

text \<open>
  From a local interface to a WAN: the bodies of \<open>worker_thread\<close>, \<open>local_queue_thread_no_crypto\<close>,
  \<open>local_queue_thread_l2\<close> and \<open>local_queue_thread_l3l4\<close> of \<open>src/core/forwarder.c\<close>, for one packet. The
  interfaces are parameters: \<open>ue_tx\<close> says whether the transmit ring of a WAN takes a frame, and
  \<open>ue_wan_queues\<close> is the number of queues each WAN socket opened. What a thread
  hands to a ring, the frames it returns to the receive ring, and the ARP requests it sends are
  recorded in the state, with the statistics; \<open>ul_used\<close> is the array \<open>wan_used[]\<close> of the current round
  of a thread, the flags by which it chooses the rings to flush. The two 4096-byte arrays for the pieces of a split packet
  are zero here; in C they are uninitialised and written before they are sent.
\<close>

section \<open>Environment and state\<close>

record uplink_env =
  ue_lib :: evp_lib
  ue_cfg :: app_config
  ue_rt :: crypto_runtime
  ue_now :: "64 word"
  ue_alloc :: bool
  ue_tx :: "nat \<Rightarrow> nat \<Rightarrow> u8 list \<Rightarrow> bool"
  ue_arp_wan :: "arp_cache list"
  ue_wan_macs :: "(u8 list \<times> u8 list) list"
  ue_wan_queues :: "int list"

record uplink =
  ul_st :: crypto_state
  ul_pins :: pin_table
  ul_wan :: wan_choice
  ul_frag_id :: "64 word"
  ul_sent :: "(nat \<times> nat \<times> u8 list) list"
  ul_released :: "(int \<times> int \<times> u64) list"
  ul_arp_requests :: "(nat \<times> u32) list"
  ul_local_to_wan :: u64
  ul_dropped :: u64
  ul_used :: "nat \<Rightarrow> bool"

definition ul_drop :: "uplink \<Rightarrow> uplink" where
  "ul_drop s = s\<lparr> ul_dropped := ul_dropped s + 1 \<rparr>"

text \<open>\<open>interface_send_batch_queue\<close> writes the addresses of the WAN interface into the frame.\<close>

definition ul_wire :: "uplink_env \<Rightarrow> nat \<Rightarrow> u8 list \<Rightarrow> u8 list" where
  "ul_wire env wan frame = wire_frame (fst (ue_wan_macs env ! wan)) (snd (ue_wan_macs env ! wan)) frame"

definition ul_send :: "uplink_env \<Rightarrow> nat \<Rightarrow> nat \<Rightarrow> u8 list \<Rightarrow> uplink \<Rightarrow> uplink" where
  "ul_send env wan tq frame s =
     (let wire = ul_wire env wan frame in
      if ue_tx env wan tq wire
      then s\<lparr> ul_sent := ul_sent s @ [(wan, tq, wire)], ul_local_to_wan := ul_local_to_wan s + 1, ul_used := (ul_used s)(wan := True) \<rparr>
      else ul_drop s)"

text \<open>\<open>set_wan_l2_addrs\<close> with the ARP request it may send.\<close>

definition ul_set_wan :: "uplink_env \<Rightarrow> nat \<Rightarrow> buf \<Rightarrow> uplink \<Rightarrow> (int \<times> buf \<times> uplink) option" where
  "ul_set_wan env wan pkt s = do {
     (rc, req, pkt) \<leftarrow> set_wan_l2_addrs (ue_cfg env) (ue_arp_wan env) (ue_wan_macs env) (int wan) pkt;
     Some (rc, pkt, case req of None \<Rightarrow> s | Some ip \<Rightarrow> s\<lparr> ul_arp_requests := ul_arp_requests s @ [(wan, ip)] \<rparr>) }"

definition ul_release :: "uplink_env \<Rightarrow> packet_job \<Rightarrow> uplink \<Rightarrow> uplink" where
  "ul_release env job s =
     (if pj_local_idx job \<ge> 0 \<and> pj_local_idx job < int (length (ac_locals (ue_cfg env)))
      then s\<lparr> ul_released := ul_released s @ [(pj_local_idx job, pj_queue_idx job, pj_addr job)] \<rparr> else s)"

section \<open>Selecting WAN and policy\<close>

definition ul_select_wan :: "uplink_env \<Rightarrow> int \<Rightarrow> buf \<Rightarrow> nat \<Rightarrow> flow option \<Rightarrow> uplink \<Rightarrow> (nat \<times> uplink) option" where
  "ul_select_wan env local_idx pkt pkt_len fl s = do {
     (wi, wc) \<leftarrow> (case fl of
        Some f \<Rightarrow> Some (select_wan_idx_for_packet (ue_cfg env) (ue_alloc env) (ue_now env) (ul_wan s) local_idx
                          (fw_src_ip f) (fw_dst_ip f) (fw_src_port f) (fw_dst_port f) (fw_protocol f) (of_nat pkt_len))
      | None \<Rightarrow> select_wan_idx_nonip_flow (ue_cfg env) (ue_alloc env) (ue_now env) (ul_wan s) local_idx pkt pkt_len);
     Some (if wi < 0 \<or> wi \<ge> int (length (ac_wans (ue_cfg env))) then 0 else nat wi, s\<lparr> ul_wan := wc \<rparr>) }"

definition ul_tx_queue :: "uplink_env \<Rightarrow> int \<Rightarrow> nat \<Rightarrow> nat" where
  "ul_tx_queue env base wan = nat (base mod ue_wan_queues env ! wan)"

datatype verdict = Drop | Bypass | Seal nat

text \<open>The policy of a flow: the pin of a TCP connection first, then the first match of the profile.\<close>

definition worker_policy :: "uplink_env \<Rightarrow> int \<Rightarrow> flow \<Rightarrow> uplink \<Rightarrow> nat option \<times> uplink" where
  "worker_policy env local_idx f s =
     (let (cp, pins) = (if fw_protocol f = 6
            then tcp_policy_pin_lookup True (ac_policies (ue_cfg env)) (rt_ready (ue_rt env)) (ue_now env) (ul_pins s)
                   (fw_src_ip f) (fw_dst_ip f) (fw_src_port f) (fw_dst_port f)
            else (None, ul_pins s))
      in (case cp of
            Some i \<Rightarrow> Some i
          | None \<Rightarrow> crypto_select_policy_for_local (ue_cfg env) local_idx
                      (fw_src_ip f) (fw_dst_ip f) (fw_src_port f) (fw_dst_port f) (fw_protocol f),
          s\<lparr> ul_pins := pins \<rparr>))"

definition policy_verdict :: "uplink_env \<Rightarrow> nat option \<Rightarrow> verdict" where
  "policy_verdict env cp =
     (case cp of
        None \<Rightarrow> if ac_policies (ue_cfg env) \<noteq> [] then Drop else Bypass
      | Some pi \<Rightarrow>
          if cp_action (ac_policies (ue_cfg env) ! pi) = POLICY_ACTION_BYPASS then Bypass
          else if pi < MAX_CRYPTO_POLICIES \<and> rt_ready (ue_rt env) ! pi then Seal pi
          else Bypass)"

definition worker_pin :: "uplink_env \<Rightarrow> flow \<Rightarrow> nat option \<Rightarrow> verdict \<Rightarrow> uplink \<Rightarrow> uplink" where
  "worker_pin env f cp v s =
     (case cp of
        Some pi \<Rightarrow>
          if fw_protocol f = 6 \<and> pi < length (ac_policies (ue_cfg env)) \<and> pi < MAX_CRYPTO_POLICIES \<and>
             (cp_action (ac_policies (ue_cfg env) ! pi) = POLICY_ACTION_BYPASS \<or> (v \<noteq> Bypass \<and> rt_ready (ue_rt env) ! pi))
          then s\<lparr> ul_pins := tcp_policy_pin_set True (ue_alloc env) (ue_now env) (ul_pins s)
                    (fw_src_ip f) (fw_dst_ip f) (fw_src_port f) (fw_dst_port f) (int pi) \<rparr>
          else s
      | None \<Rightarrow> s)"

definition worker_select :: "uplink_env \<Rightarrow> int \<Rightarrow> flow option \<Rightarrow> uplink \<Rightarrow> verdict \<times> uplink" where
  "worker_select env local_idx fl s =
     (case fl of
        None \<Rightarrow> (Bypass, s)
      | Some f \<Rightarrow>
          let (cp, s) = worker_policy env local_idx f s; v = policy_verdict env cp;
              s = (case v of Seal pi \<Rightarrow> s\<lparr> ul_st := crypto_apply_from_policy (ac_policies (ue_cfg env) ! pi) (ul_st s) \<rparr> | _ \<Rightarrow> s)
          in (v, if v = Drop then s else worker_pin env f cp v s))"

section \<open>Sending\<close>

definition ul_send_plain :: "uplink_env \<Rightarrow> nat \<Rightarrow> nat \<Rightarrow> buf \<Rightarrow> nat \<Rightarrow> uplink \<Rightarrow> uplink option" where
  "ul_send_plain env wan tq pkt pkt_len s = do {
     (rc, pkt, s) \<leftarrow> ul_set_wan env wan pkt s;
     if rc \<noteq> 0 then Some (ul_drop s)
     else do { frame \<leftarrow> rdn pkt 0 pkt_len; Some (ul_send env wan tq frame s) } }"

text \<open>Sending the two pieces of a split: addresses on both, then one send each.\<close>

definition ul_send_pieces ::
  "uplink_env \<Rightarrow> nat \<Rightarrow> nat \<Rightarrow> split_result \<Rightarrow> uplink \<Rightarrow> (bool \<times> uplink) option" where
  "ul_send_pieces env wan tq r s =
     (case r of (rc, c, st, (f1, l1), (f2, l2)) \<Rightarrow>
      let s = s\<lparr> ul_frag_id := c, ul_st := st \<rparr> in
      if rc \<noteq> 0 then Some (False, ul_drop s)
      else do {
        (rc1, f1, s) \<leftarrow> ul_set_wan env wan f1 s;
        if rc1 \<noteq> 0 then Some (False, ul_drop s)
        else do {
          (rc2, f2, s) \<leftarrow> ul_set_wan env wan f2 s;
          if rc2 \<noteq> 0 then Some (False, ul_drop s)
          else do {
            p1 \<leftarrow> rdn f1 0 l1;
            p2 \<leftarrow> rdn f2 0 l2;
            Some (True, ul_send env wan tq p2 (ul_send env wan tq p1 s)) } } })"

definition blank_piece :: "buf \<times> nat" where
  "blank_piece = (replicate 4096 0, 0)"

text \<open>The choice of a split by the action and the length: \<open>None\<close> when the packet is not split.\<close>

definition worker_split ::
  "evp_lib \<Rightarrow> int \<Rightarrow> packet_crypto_ctx \<Rightarrow> 64 word \<Rightarrow> crypto_state \<Rightarrow> buf \<Rightarrow> nat \<Rightarrow> split_result option option" where
  "worker_split lib act ctx c st pkt pkt_len =
     (if act = POLICY_ACTION_ENCRYPT_L2 \<and> frag_need_split_l2 st pkt_len
      then Some (frag_split_and_encrypt_l2 lib ctx c st pkt pkt_len blank_piece blank_piece)
      else if act = POLICY_ACTION_ENCRYPT_L3 \<and> frag_need_split st pkt_len
      then Some (frag_split_and_encrypt lib ctx c st pkt pkt_len blank_piece blank_piece)
      else if act = POLICY_ACTION_ENCRYPT_L4 \<and> frag_need_split_l4 st pkt_len
      then Some (frag_split_and_encrypt_l4 lib ctx c st pkt pkt_len blank_piece blank_piece)
      else None)"

definition worker_encrypt ::
  "evp_lib \<Rightarrow> int \<Rightarrow> packet_crypto_ctx \<Rightarrow> crypto_state \<Rightarrow> buf \<Rightarrow> nat \<Rightarrow> (int \<times> crypto_state \<times> buf) option" where
  "worker_encrypt lib act ctx st pkt pkt_len =
     (if act = POLICY_ACTION_ENCRYPT_L2 then crypto_layer2_encrypt lib ctx st pkt pkt_len
      else if act = POLICY_ACTION_ENCRYPT_L3 then crypto_layer3_encrypt lib ctx st pkt pkt_len
      else if act = POLICY_ACTION_ENCRYPT_L4 then crypto_layer4_encrypt lib ctx st pkt pkt_len
      else Some (-1, st, pkt))"

text \<open>The encrypting part of \<open>worker_thread\<close>. The flag is false when the packet was dropped
  (\<open>goto release_local\<close>).\<close>

definition worker_seal :: "uplink_env \<Rightarrow> nat \<Rightarrow> nat \<Rightarrow> nat \<Rightarrow> buf \<Rightarrow> nat \<Rightarrow> uplink \<Rightarrow> (bool \<times> uplink) option" where
  "worker_seal env pi wan tq pkt pkt_len s = do {
     (rc, pkt, s) \<leftarrow> ul_set_wan env wan pkt s;
     if rc \<noteq> 0 then Some (False, ul_drop s)
     else
       let act = cp_action (ac_policies (ue_cfg env) ! pi); ctx = rt_ctx (ue_rt env) ! pi
       in case worker_split (ue_lib env) act ctx (ul_frag_id s) (ul_st s) pkt pkt_len of
            Some split \<Rightarrow> do { r \<leftarrow> split; ul_send_pieces env wan tq r s }
          | None \<Rightarrow> do {
              (new_len, st, pkt) \<leftarrow> worker_encrypt (ue_lib env) act ctx (ul_st s) pkt pkt_len;
              let s = s\<lparr> ul_st := st \<rparr>;
              if new_len < 0 then Some (False, ul_drop s)
              else do { frame \<leftarrow> rdn pkt 0 (nat new_len); Some (True, ul_send env wan tq frame s) } } }"

definition TH_FIN_RST :: u8 where "TH_FIN_RST = 0x05"

definition worker_unpin :: "flow option \<Rightarrow> u8 option \<Rightarrow> uplink \<Rightarrow> uplink" where
  "worker_unpin fl tcp_flags s =
     (case (fl, tcp_flags) of
        (Some f, Some fl) \<Rightarrow>
          if fw_protocol f = 6 \<and> (fl AND TH_FIN_RST) \<noteq> 0
          then s\<lparr> ul_pins := tcp_policy_pin_remove True (ul_pins s) (fw_src_ip f) (fw_dst_ip f) (fw_src_port f) (fw_dst_port f) \<rparr>
          else s
      | _ \<Rightarrow> s)"

section \<open>The worker\<close>

text \<open>From the choice of the policy to the end of the sending.\<close>

definition worker_dispatch ::
  "uplink_env \<Rightarrow> packet_job \<Rightarrow> flow option \<Rightarrow> u8 option \<Rightarrow> nat \<Rightarrow> nat \<Rightarrow> uplink \<Rightarrow> uplink option" where
  "worker_dispatch env job fl tcp_flags wan tq s =
     (if rt_enabled (ue_rt env) then
        (case worker_select env (pj_local_idx job) fl s of
           (Drop, s) \<Rightarrow> Some (ul_drop s)
         | (Bypass, s) \<Rightarrow> ul_send_plain env wan tq (pj_pkt job) (pj_pkt_len job) s
         | (Seal pi, s) \<Rightarrow> do {
             (ok, s) \<leftarrow> worker_seal env pi wan tq (pj_pkt job) (pj_pkt_len job) s;
             Some (if ok then worker_unpin fl tcp_flags s else s) })
      else ul_send_plain env wan tq (pj_pkt job) (pj_pkt_len job) s)"

text \<open>The body of the loop of \<open>worker_thread\<close> after a job was taken from the ring.\<close>

definition worker_packet :: "uplink_env \<Rightarrow> packet_job \<Rightarrow> uplink \<Rightarrow> uplink option" where
  "worker_packet env job s =
     (if \<not> pj_has_fwd job then Some s
      else do {
        fl \<leftarrow> parse_flow (pj_pkt job) (pj_pkt_len job);
        tcp_flags \<leftarrow> (case fl of
            Some f \<Rightarrow> if fw_protocol f = 6 then tcp_ipv4_tcp_flags (pj_pkt job) (pj_pkt_len job) else Some None
          | None \<Rightarrow> Some None);
        (wan, s) \<leftarrow> ul_select_wan env (pj_local_idx job) (pj_pkt job) (pj_pkt_len job) fl s;
        s \<leftarrow> worker_dispatch env job fl tcp_flags wan (ul_tx_queue env (pj_tx_queue_base job) wan) s;
        Some (ul_release env job s) })"

section \<open>The local receive threads\<close>

text \<open>One packet of \<open>local_queue_thread_no_crypto\<close>.\<close>

definition local_no_crypto_packet :: "uplink_env \<Rightarrow> int \<Rightarrow> int \<Rightarrow> buf \<Rightarrow> nat \<Rightarrow> uplink \<Rightarrow> uplink option" where
  "local_no_crypto_packet env local_idx tx_base pkt pkt_len s = do {
     fl \<leftarrow> parse_flow pkt pkt_len;
     (wan, s) \<leftarrow> ul_select_wan env local_idx pkt pkt_len fl s;
     ul_send_plain env wan (ul_tx_queue env tx_base wan) pkt pkt_len s }"

text \<open>\<open>encrypt_packet_with_ctx\<close>: the new length and the buffer.\<close>

definition encrypt_packet_with_ctx ::
  "evp_lib \<Rightarrow> bool \<Rightarrow> packet_crypto_ctx \<Rightarrow> crypto_state \<Rightarrow> buf \<Rightarrow> nat \<Rightarrow> (int \<times> crypto_state \<times> buf \<times> nat) option" where
  "encrypt_packet_with_ctx lib enabled ctx st pkt pkt_len =
     (if \<not> enabled then Some (0, st, pkt, pkt_len)
      else do {
        (new_len, st, pkt) \<leftarrow> packet_encrypt lib ctx st pkt pkt_len;
        if new_len < 0 then Some (-1, st, pkt, pkt_len) else Some (0, st, pkt, nat new_len) })"

text \<open>The policy of \<open>local_queue_thread_l2\<close>: only layer 2 policies encrypt. \<open>Inl\<close> is a packet without
  policy, which the base context encrypts when there are no policies at all.\<close>

definition l2_verdict :: "uplink_env \<Rightarrow> flow option \<Rightarrow> nat option \<Rightarrow> verdict + unit" where
  "l2_verdict env fl cp =
     (case cp of
        Some pi \<Rightarrow>
          if cp_action (ac_policies (ue_cfg env) ! pi) = POLICY_ACTION_BYPASS then Inl Bypass
          else if cp_action (ac_policies (ue_cfg env) ! pi) \<noteq> POLICY_ACTION_ENCRYPT_L2 then Inl Bypass
          else if pi < MAX_CRYPTO_POLICIES \<and> rt_ready (ue_rt env) ! pi then Inl (Seal pi) else Inl Bypass
      | None \<Rightarrow> if fl \<noteq> None \<and> ac_policies (ue_cfg env) \<noteq> [] then Inl Drop else Inr ())"

definition local_l2_packet :: "uplink_env \<Rightarrow> int \<Rightarrow> int \<Rightarrow> buf \<Rightarrow> nat \<Rightarrow> uplink \<Rightarrow> uplink option" where
  "local_l2_packet env local_idx tx_base pkt pkt_len s = do {
     fl \<leftarrow> parse_flow pkt pkt_len;
     (wan, s) \<leftarrow> ul_select_wan env local_idx pkt pkt_len fl s;
     let tq = ul_tx_queue env tx_base wan;
     (rc, pkt, s) \<leftarrow> ul_set_wan env wan pkt s;
     if rc \<noteq> 0 then Some (ul_drop s)
     else
       let cp = (case fl of
               Some f \<Rightarrow> crypto_select_policy_for_local (ue_cfg env) local_idx
                           (fw_src_ip f) (fw_dst_ip f) (fw_src_port f) (fw_dst_port f) (fw_protocol f)
             | None \<Rightarrow> None);
           encrypt = (\<lambda>ctx s. do {
               (rc, st, pkt, n) \<leftarrow> encrypt_packet_with_ctx (ue_lib env) (rt_enabled (ue_rt env)) ctx (ul_st s) pkt pkt_len;
               if rc \<noteq> 0 then Some (ul_drop (s\<lparr> ul_st := st \<rparr>))
               else do { frame \<leftarrow> rdn pkt 0 n; Some (ul_send env wan tq frame (s\<lparr> ul_st := st \<rparr>)) } })
       in case l2_verdict env fl cp of
            Inl Drop \<Rightarrow> Some (ul_drop s)
          | Inl Bypass \<Rightarrow> do { frame \<leftarrow> rdn pkt 0 pkt_len; Some (ul_send env wan tq frame s) }
          | Inl (Seal pi) \<Rightarrow>
              let s = s\<lparr> ul_st := crypto_apply_from_policy (ac_policies (ue_cfg env) ! pi) (ul_st s) \<rparr>;
                  ctx = rt_ctx (ue_rt env) ! pi
              in if frag_need_split_l2 (ul_st s) pkt_len then do {
                   r \<leftarrow> frag_split_and_encrypt_l2 (ue_lib env) ctx (ul_frag_id s) (ul_st s) pkt pkt_len blank_piece blank_piece;
                   (ok, s) \<leftarrow> ul_send_pieces env wan tq r s;
                   Some s }
                 else encrypt ctx s
          | Inr () \<Rightarrow> encrypt (rt_base_ctx (ue_rt env)) s }"

text \<open>One packet of \<open>local_queue_thread_l3l4\<close>: it goes into the worker ring, or is dropped and its frame
  returned when the ring is full.\<close>

definition local_enqueue_packet :: "packet_job \<Rightarrow> worker_ring \<Rightarrow> uplink \<Rightarrow> worker_ring \<times> uplink" where
  "local_enqueue_packet job ring s =
     (let (enqueued, ring) = ring_enqueue job ring in
      if enqueued then (ring, s)
      else (ring, (ul_drop s)\<lparr> ul_released := ul_released s @ [(pj_local_idx job, pj_queue_idx job, pj_addr job)] \<rparr>))"

text \<open>The loop over a received batch, for any of the threads.\<close>

fun uplink_batch :: "(buf \<times> nat \<Rightarrow> uplink \<Rightarrow> uplink option) \<Rightarrow> (buf \<times> nat) list \<Rightarrow> uplink \<Rightarrow> uplink option" where
  "uplink_batch body [] s = Some s"
| "uplink_batch body (p # ps) s = do { s \<leftarrow> body p s; uplink_batch body ps s }"


section \<open>Accounting\<close>

text \<open>One packet of the threads above sends or drops: \<open>progress n P s s'\<close> says that of \<open>n\<close> frames some were
  sent, each satisfying \<open>P\<close>, and the others counted as dropped.\<close>

definition progress :: "nat \<Rightarrow> (nat \<times> nat \<times> u8 list \<Rightarrow> bool) \<Rightarrow> uplink \<Rightarrow> uplink \<Rightarrow> bool" where
  "progress n P s s' \<longleftrightarrow>
     (\<exists>fs. ul_sent s' = ul_sent s @ fs \<and> list_all P fs \<and> length fs \<le> n \<and>
           ul_local_to_wan s' = ul_local_to_wan s + of_nat (length fs) \<and>
           ul_dropped s' = ul_dropped s + of_nat (n - length fs) \<and>
           ul_released s' = ul_released s)"

lemma progress_0:
  "ul_sent s' = ul_sent s \<Longrightarrow> ul_local_to_wan s' = ul_local_to_wan s \<Longrightarrow> ul_dropped s' = ul_dropped s \<Longrightarrow>
   ul_released s' = ul_released s \<Longrightarrow> progress 0 P s s'"
  by (simp add: progress_def)

lemma progress_drop: "progress 1 P s (ul_drop s)"
  by (simp add: progress_def ul_drop_def)

lemma progress_send: "P (wan, tq, ul_wire env wan frame) \<Longrightarrow> progress 1 P s (ul_send env wan tq frame s)"
  by (auto simp: progress_def ul_send_def ul_drop_def Let_def)

lemma progress_trans:
  assumes "progress m P s t" and "progress n P t u"
  shows "progress (m + n) P s u"
proof -
  from assms obtain fs gs where
    a: "ul_sent t = ul_sent s @ fs" "list_all P fs" "length fs \<le> m"
       "ul_local_to_wan t = ul_local_to_wan s + of_nat (length fs)"
       "ul_dropped t = ul_dropped s + of_nat (m - length fs)" "ul_released t = ul_released s" and
    b: "ul_sent u = ul_sent t @ gs" "list_all P gs" "length gs \<le> n"
       "ul_local_to_wan u = ul_local_to_wan t + of_nat (length gs)"
       "ul_dropped u = ul_dropped t + of_nat (n - length gs)" "ul_released u = ul_released t"
    unfolding progress_def by blast
  have "m + n - length (fs @ gs) = (m - length fs) + (n - length gs)"
    using a b by simp
  then show ?thesis
    unfolding progress_def using a b by (intro exI [of _ "fs @ gs"]) (simp add: add.assoc)
qed

lemma progress_step: "progress 0 P s t \<Longrightarrow> progress n P t u \<Longrightarrow> progress n P s u"
  using progress_trans [of 0 P s t n u] by simp

lemma progress_mono: "progress n P s t \<Longrightarrow> (\<And>x. P x \<Longrightarrow> Q x) \<Longrightarrow> progress n Q s t"
  unfolding progress_def by (metis (mono_tags, lifting) list.pred_mono_strong)



text \<open>MAC addresses have six bytes, and there is an ARP cache and an interface for every WAN.\<close>

definition macs_ok :: "arp_cache \<Rightarrow> bool" where
  "macs_ok c = (length (arp_entries c) = ARP_CACHE_SIZE \<and> length (arp_if_mac c) = 6 \<and>
     list_all (\<lambda>e. length (ae_mac e) = 6) (arp_entries c))"

definition wan_env_ok :: "app_config \<Rightarrow> arp_cache list \<Rightarrow> (u8 list \<times> u8 list) list \<Rightarrow> bool" where
  "wan_env_ok cfg arps macs =
     (ac_wans cfg \<noteq> [] \<and> length arps \<ge> length (ac_wans cfg) \<and> length macs \<ge> length (ac_wans cfg) \<and> list_all macs_ok arps \<and>
      list_all (\<lambda>(d, s). length d = 6 \<and> length s = 6) macs)"

lemma macs_ok_lookup:
  assumes "macs_ok c" and "arp_cache_lookup c ip = Some m"
  shows "length m = 6"
proof -
  from assms(2) obtain j where j: "arp_slot (map ae_ip (arp_entries c)) ip = Some j" "m = ae_mac (arp_entries c ! j)"
    by (auto simp: arp_cache_lookup_def split: option.splits if_splits)
  have "j < length (arp_entries c)"
    using arp_slot_bound [OF j(1)] assms(1) by (simp add: macs_ok_def)
  then show ?thesis using j assms(1) by (simp add: macs_ok_def list_all_length)
qed

lemma put_macs_keeps:
  assumes "put_macs pkt d s = Some pkt'" and "length d = 6" and "length s = 6"
  shows "length pkt' = length pkt" and "drop 12 pkt' = drop 12 pkt"
  using assms by (auto simp: put_macs_def wrn_def bind_eq_Some_conv split: if_splits)

lemma set_wan_l2_addrs_keeps:
  assumes env: "wan_env_ok cfg arps macs" and set_: "set_wan_l2_addrs cfg arps macs wan pkt = Some (rc, req, pkt')"
  shows "length pkt' = length pkt \<and> drop 12 pkt' = drop 12 pkt"
proof (cases "wan < 0 \<or> wan \<ge> int (length (ac_wans cfg))")
  case True then show ?thesis using set_ by (auto simp: set_wan_l2_addrs_def split: if_splits)
next
  case False
  then have r: "nat wan < length arps" "nat wan < length macs"
    using env by (auto simp: wan_env_ok_def)
  have m: "macs_ok (arps ! nat wan)" "length (fst (macs ! nat wan)) = 6" "length (snd (macs ! nat wan)) = 6"
    using env r by (auto simp: wan_env_ok_def list_all_length case_prod_beta)
  have l: "length (arp_if_mac (arps ! nat wan)) = 6" using m(1) by (simp add: macs_ok_def)
  show ?thesis
    using set_ False put_macs_keeps [OF _ macs_ok_lookup [OF m(1)] l] put_macs_keeps [OF _ m(2,3)]
    by (auto simp: set_wan_l2_addrs_def wan_rewrite_dest_mac_def Let_def bind_eq_Some_conv
             split: if_splits option.splits)
qed

abbreviation uplink_env_ok :: "uplink_env \<Rightarrow> bool" where
  "uplink_env_ok env \<equiv> wan_env_ok (ue_cfg env) (ue_arp_wan env) (ue_wan_macs env)"

lemma ul_set_wan_keeps:
  assumes "uplink_env_ok env" and "ul_set_wan env wan pkt s = Some (rc, pkt', s')"
  shows "length pkt' = length pkt" and "drop 12 pkt' = drop 12 pkt"
  using assms(2) set_wan_l2_addrs_keeps [OF assms(1)]
  by (fastforce simp: ul_set_wan_def bind_eq_Some_conv)+

lemma ul_set_wan_progress: "ul_set_wan env wan pkt s = Some (rc, pkt', s') \<Longrightarrow> progress 0 P s s'"
  by (auto simp: ul_set_wan_def bind_eq_Some_conv split: option.splits intro!: progress_0)

lemma ul_set_wan_frame:
  assumes "ul_set_wan env wan pkt s = Some (rc, pkt', s')"
  shows "ul_st s' = ul_st s" "ul_pins s' = ul_pins s" "ul_frag_id s' = ul_frag_id s" "ul_wan s' = ul_wan s"
  using assms by (auto simp: ul_set_wan_def bind_eq_Some_conv split: option.splits)

lemma ul_wire_body:
  assumes "uplink_env_ok env" "wan < length (ac_wans (ue_cfg env))"
  shows "drop 12 (ul_wire env wan frame) = drop 12 frame"
proof -
  have "wan < length (ue_wan_macs env)" using assms by (simp add: wan_env_ok_def)
  then have "length (fst (ue_wan_macs env ! wan)) = 6" "length (snd (ue_wan_macs env ! wan)) = 6"
    using assms(1) by (auto simp: wan_env_ok_def list_all_length case_prod_beta)
  then show ?thesis by (simp add: ul_wire_def wire_frame_body)
qed

section \<open>What is sent\<close>

text \<open>A frame on the given WAN and queue whose bytes after the MAC addresses are \<open>body\<close>.\<close>

definition carries :: "nat \<Rightarrow> nat \<Rightarrow> u8 list \<Rightarrow> nat \<times> nat \<times> u8 list \<Rightarrow> bool" where
  "carries wan tq body x \<longleftrightarrow> fst x = wan \<and> fst (snd x) = tq \<and> drop 12 (snd (snd x)) = body"

lemma ul_send_plain_progress:
  assumes ok: "uplink_env_ok env" and wan: "wan < length (ac_wans (ue_cfg env))" and send: "ul_send_plain env wan tq pkt n s = Some s'"
  shows "progress 1 (carries wan tq (drop 12 (take n pkt))) s s'"
proof -
  from send obtain rc pkt' s1 where s1: "ul_set_wan env wan pkt s = Some (rc, pkt', s1)"
    by (auto simp: ul_send_plain_def bind_eq_Some_conv)
  note k = ul_set_wan_keeps [OF ok s1]
  have "progress 1 (carries wan tq (drop 12 (take n pkt))) s1 s'"
  proof (cases "rc = 0")
    case True
    then have "n \<le> length pkt'" "s' = ul_send env wan tq (take n pkt') s1"
      using send s1 by (auto simp: ul_send_plain_def rdn_def split: if_splits)
    then show ?thesis
      using k progress_send [where P = "carries wan tq (drop 12 (take n pkt))" and frame = "take n pkt'" and env = env and wan = wan]
      by (simp add: carries_def ul_wire_body [OF ok wan]) (simp add: drop_take)
  next
    case False
    then have "s' = ul_drop s1" using send s1 by (simp add: ul_send_plain_def)
    then show ?thesis using progress_drop by (simp only:)
  qed
  then show ?thesis by (rule progress_step [OF ul_set_wan_progress [OF s1]])
qed

text \<open>The two pieces of a split.\<close>

lemma ul_send_pieces_progress:
  assumes ok: "uplink_env_ok env" and wan: "wan < length (ac_wans (ue_cfg env))"
    and send: "ul_send_pieces env wan tq (rc, c, st, (f1, l1), (f2, l2)) s = Some (sent, s')"
    and P: "\<And>x. rc = 0 \<Longrightarrow> carries wan tq (drop 12 (take l1 f1)) x \<or> carries wan tq (drop 12 (take l2 f2)) x \<Longrightarrow> P x"
  shows "\<exists>n \<in> {1, 2}. progress n P s s'"
proof -
  define t where "t = s\<lparr> ul_frag_id := c, ul_st := st \<rparr>"
  have t: "progress 0 P s t" by (simp add: t_def progress_0)
  show ?thesis
  proof (cases "rc = 0")
    case False
    then have "s' = ul_drop t" using send by (simp add: ul_send_pieces_def t_def Let_def)
    then show ?thesis using progress_step [OF t progress_drop] by blast
  next
    case True
    then obtain rc1 f1' s1 where s1: "ul_set_wan env wan f1 t = Some (rc1, f1', s1)"
      using send by (auto simp: ul_send_pieces_def t_def Let_def bind_eq_Some_conv)
    have p1: "progress 0 P s s1" by (rule progress_step [OF t ul_set_wan_progress [OF s1]])
    show ?thesis
    proof (cases "rc1 = 0")
      case False
      then have "s' = ul_drop s1" using True send s1 by (simp add: ul_send_pieces_def t_def Let_def)
      then show ?thesis using progress_step [OF p1 progress_drop] by blast
    next
      case rc1: True
      then obtain rc2 f2' s2 where s2: "ul_set_wan env wan f2 s1 = Some (rc2, f2', s2)"
        using True send s1 by (auto simp: ul_send_pieces_def t_def Let_def bind_eq_Some_conv)
      have p2: "progress 0 P s s2" by (rule progress_step [OF p1 ul_set_wan_progress [OF s2]])
      show ?thesis
      proof (cases "rc2 = 0")
        case False
        then have "s' = ul_drop s2" using True rc1 send s1 s2 by (simp add: ul_send_pieces_def t_def Let_def)
        then show ?thesis using progress_step [OF p2 progress_drop] by blast
      next
        case rc2: True
        have e: "s' = ul_send env wan tq (take l2 f2') (ul_send env wan tq (take l1 f1') s2)"
          using True rc1 rc2 send s1 s2
          by (auto simp: ul_send_pieces_def t_def Let_def bind_eq_Some_conv rdn_def split: if_splits)
        have a: "P (wan, tq, ul_wire env wan (take l1 f1'))"
          using P [OF True, of "(wan, tq, ul_wire env wan (take l1 f1'))"] ul_set_wan_keeps [OF ok s1]
          by (simp add: carries_def ul_wire_body [OF ok wan]) (simp add: drop_take)
        have b: "P (wan, tq, ul_wire env wan (take l2 f2'))"
          using P [OF True, of "(wan, tq, ul_wire env wan (take l2 f2'))"] ul_set_wan_keeps [OF ok s2]
          by (simp add: carries_def ul_wire_body [OF ok wan]) (simp add: drop_take)
        have "progress (1 + 1) P s2 s'"
          unfolding e by (rule progress_trans [OF progress_send [where P = P, OF a] progress_send [where P = P, OF b]])
        from progress_step [OF p2 this] have "progress 2 P s s'" by (simp add: numeral_2_eq_2)
        then show ?thesis by blast
      qed
    qed
  qed
qed

text \<open>The packets that the encryption of an action hands back unchanged: at layer 2 everything that is not untagged IPv4, or
  everything when no marker is configured; at layer 3 everything that is not untagged IPv4, and a packet with the magic of fragments
  at the place of the flag byte; at layer 4 everything that is not TCP or UDP over IPv4 with a whole transport header.\<close>

definition unsealable :: "int \<Rightarrow> crypto_state \<Rightarrow> buf \<Rightarrow> nat \<Rightarrow> bool" where
  "unsealable act st p n =
     (if act = POLICY_ACTION_ENCRYPT_L2
      then pkt_is_ipv4_eth p = Some False \<or> g_fake_ethertype_ipv4 st = 0
      else if act = POLICY_ACTION_ENCRYPT_L3
      then pkt_is_ipv4 p n = Some False \<or>
        (case ipv4_hdr_len_at p n ETH_HEADER_SIZE of None \<Rightarrow> False
         | Some ihl \<Rightarrow> 0 \<le> ihl \<and> n \<ge> ETH_HEADER_SIZE + nat ihl + g_nonce_size st + 2 \<and>
             l3_is_frag_tunnel p (ETH_HEADER_SIZE + nat ihl) (g_nonce_size st) = Some True)
      else (case l4_locate p n 0 of
          Some (Inr (l3, proto, ihl)) \<Rightarrow>
            (case get_transport_hdr_size p (l3 + ihl) proto (sz_sub n (l3 + ihl)) of None \<Rightarrow> False | Some th \<Rightarrow> th < 0) \<or>
            sz_sub n (l3 + ihl + L4_WIRE_PORT_LEN) = 0
        | _ \<Rightarrow> True))"

definition seal_overhead :: "int \<Rightarrow> crypto_state \<Rightarrow> nat" where
  "seal_overhead act st =
     (if act = POLICY_ACTION_ENCRYPT_L2 then g_nonce_size st else packet_crypto_get_tunnel_hdr_size st) + gcm_tag_len st"

lemma generate_nonce_counter:
  "crypto_generate_nonce lib st c f = Some (n, l, st') \<Longrightarrow> g_nonce_counter st' = g_nonce_counter st"
  by (auto simp: crypto_generate_nonce_def Let_def bind_eq_Some_conv split: if_splits)

lemma seal_range_counter:
  "seal_range lib st key nonce l b off len = Some (rc, st', b', tag) \<Longrightarrow> g_nonce_counter st' = g_nonce_counter st"
  by (auto simp: seal_range_def crypto_aes_gcm_encrypt_def Let_def bind_eq_Some_conv case_prod_beta split: if_splits option.splits)

lemma next_counter_counter:
  "packet_crypto_next_counter st = (c, st') \<Longrightarrow> g_nonce_counter st' = g_nonce_counter st + 1"
  by (auto simp: packet_crypto_next_counter_def)

text \<open>What the encryptions return when they do not fail: the packet itself, or one that is longer by the overhead and for which
  a nonce was used.\<close>

definition seal_result :: "int \<Rightarrow> crypto_state \<Rightarrow> buf \<Rightarrow> nat \<Rightarrow> int \<Rightarrow> crypto_state \<Rightarrow> buf \<Rightarrow> bool" where
  "seal_result act st p n m st' w \<longleftrightarrow>
     (if unsealable act st p n then m = c_int (int n) \<and> w = p \<and> st' = st
      else m = c_int (int (n + seal_overhead act st)) \<and> g_nonce_counter st' = g_nonce_counter st + 1)"

lemmas counters = generate_nonce_counter seal_range_counter next_counter_counter

lemma layer2_seal_result:
  assumes "crypto_layer2_encrypt lib ctx st p n = Some (m, st', w)" "0 \<le> m"
  shows "seal_result POLICY_ACTION_ENCRYPT_L2 st p n m st' w"
  using assms
  by (auto simp: crypto_layer2_encrypt_def seal_result_def unsealable_def seal_overhead_def l2_fake_marker_byte_def Let_def
      bind_eq_Some_conv add.assoc split: if_splits prod.splits dest!: counters)

lemma layer3_seal_result:
  assumes "crypto_layer3_encrypt lib ctx st p n = Some (m, st', w)" "0 \<le> m"
  shows "seal_result POLICY_ACTION_ENCRYPT_L3 st p n m st' w"
proof -
  let ?ns = "g_nonce_size st"
  note e = assms(1) [unfolded crypto_layer3_encrypt_def Let_def]
  have i: "\<not> (\<not> pc_initialized ctx \<or> n < ETH_HEADER_SIZE + 8)" using e assms(2) by (auto split: if_splits)
  note e1 = e [unfolded if_not_P [OF i]]
  obtain v4 where v4: "pkt_is_ipv4 p n = Some v4" using e1 by (auto simp: bind_eq_Some_conv)
  show ?thesis
  proof (cases v4)
    case False
    then show ?thesis using e1 v4 by (simp add: seal_result_def unsealable_def policy_consts)
  next
    case True
    obtain ihl where ihl: "ipv4_hdr_len_at p n ETH_HEADER_SIZE = Some ihl" using e1 v4 True by (auto simp: bind_eq_Some_conv)
    have ih: "\<not> ihl < 0" using e1 v4 True ihl assms(2) by (auto split: if_splits)
    note e2 = e1 [unfolded v4 ihl bind.bind_lunit, simplified True ih if_False if_True not_True_eq_False]
    obtain fr where fr: "(if ETH_HEADER_SIZE + nat ihl + ?ns + 2 \<le> n then l3_is_frag_tunnel p (ETH_HEADER_SIZE + nat ihl) ?ns
        else Some False) = Some fr"
      using e2 by (auto simp: bind_eq_Some_conv simp del: if_split)
    have u: "unsealable POLICY_ACTION_ENCRYPT_L3 st p n = fr"
      using fr ihl ih v4 True by (auto simp: unsealable_def policy_consts split: if_splits)
    show ?thesis
      using e2 fr assms(2) unfolding seal_result_def u
      by (auto simp: seal_overhead_def policy_consts bind_eq_Some_conv add.assoc split: if_splits prod.splits dest!: counters)
  qed
qed

lemma l4_locate_not_ip:
  "l4_locate p n x = Some (Inr r) \<Longrightarrow> l4_locate p n y = Some (Inr r)"
  "l4_locate p n x = Some (Inl rc) \<Longrightarrow> \<exists>rc'. l4_locate p n y = Some (Inl rc')"
  "l4_locate p n x = Some (Inl rc) \<Longrightarrow> 0 \<le> rc \<Longrightarrow> rc = x"
  by (auto simp: l4_locate_def Let_def split: bind_splits if_splits)

lemma layer4_seal_result:
  assumes "crypto_layer4_encrypt lib ctx st p n = Some (m, st', w)" "0 \<le> m"
  shows "seal_result POLICY_ACTION_ENCRYPT_L4 st p n m st' w"
proof -
  obtain loc where loc: "l4_locate p n (c_int (int n)) = Some loc"
    using assms by (auto simp: crypto_layer4_encrypt_def bind_eq_Some_conv split: if_splits)
  show ?thesis
  proof (cases loc)
    case (Inl rc)
    then have "m = rc" "w = p" "st' = st" using assms loc by (auto simp: crypto_layer4_encrypt_def split: if_splits)
    with l4_locate_not_ip(2) [OF loc [unfolded Inl], of 0] l4_locate_not_ip(3) [OF loc [unfolded Inl]] assms(2) show ?thesis
      by (auto simp: seal_result_def unsealable_def policy_consts)
  next
    case (Inr r)
    obtain l3 proto ihl where r: "r = (l3, proto, ihl)" by (cases r)
    note l0 = l4_locate_not_ip(1) [OF loc [unfolded Inr r], of 0]
    show ?thesis
      using assms
      by (auto simp: crypto_layer4_encrypt_def loc Inr r l0 seal_result_def unsealable_def seal_overhead_def policy_consts Let_def
          bind_eq_Some_conv add.assoc split: if_splits prod.splits option.splits dest!: counters)
  qed
qed

lemma worker_encrypt_result:
  assumes "worker_encrypt lib act ctx st p n = Some (m, st', w)" "0 \<le> m"
  shows "seal_result act st p n m st' w"
  using assms layer2_seal_result layer3_seal_result layer4_seal_result by (auto simp: worker_encrypt_def split: if_splits)

text \<open>\<open>sealed_body env i st c p n body\<close>: \<open>body\<close> is what follows the MAC addresses of a frame that policy \<open>i\<close> makes of the \<open>n\<close>
  bytes of packet \<open>p\<close> in a thread whose crypto state was \<open>st\<close>, with fragment counter \<open>c\<close>: under the policy's own context and with
  the parameters of that policy installed, a piece of the split, or the packet sealed whole, or the packet unchanged if the layer
  cannot seal it.\<close>

definition sealed_body :: "uplink_env \<Rightarrow> nat \<Rightarrow> crypto_state \<Rightarrow> 64 word \<Rightarrow> buf \<Rightarrow> nat \<Rightarrow> u8 list \<Rightarrow> bool" where
  "sealed_body env i st c p n body \<longleftrightarrow>
     (let cp = ac_policies (ue_cfg env) ! i; ctx = rt_ctx (ue_rt env) ! i; st = crypto_apply_from_policy cp st in
      case worker_split (ue_lib env) (cp_action cp) ctx c st p n of
        Some r \<Rightarrow> (\<exists>c' st' f1 l1 f2 l2. r = Some (0, c', st', (f1, l1), (f2, l2)) \<and>
                     (body = drop 12 (take l1 f1) \<or> body = drop 12 (take l2 f2)))
      | None \<Rightarrow> (\<exists>m st' w. worker_encrypt (ue_lib env) (cp_action cp) ctx st p n = Some (m, st', w) \<and> 0 \<le> m \<and>
                     body = drop 12 (take (nat m) w) \<and> seal_result (cp_action cp) st p n m st' w))"

text \<open>A frame on the given WAN with such a body, \<open>p\<close> being the packet with the MAC addresses of that WAN.\<close>

definition sealed_frame ::
  "uplink_env \<Rightarrow> nat \<Rightarrow> crypto_state \<Rightarrow> 64 word \<Rightarrow> buf \<Rightarrow> nat \<Rightarrow> nat \<Rightarrow> nat \<times> nat \<times> u8 list \<Rightarrow> bool" where
  "sealed_frame env i st c pkt n wan x \<longleftrightarrow> fst x = wan \<and>
     (\<exists>req p. set_wan_l2_addrs (ue_cfg env) (ue_arp_wan env) (ue_wan_macs env) (int wan) pkt = Some (0, req, p) \<and>
              sealed_body env i st c p n (drop 12 (snd (snd x))))"

lemma ul_set_wan_addrs:
  "ul_set_wan env wan pkt s = Some (rc, p, s') \<Longrightarrow>
   \<exists>req. set_wan_l2_addrs (ue_cfg env) (ue_arp_wan env) (ue_wan_macs env) (int wan) pkt = Some (rc, req, p)"
  by (auto simp: ul_set_wan_def bind_eq_Some_conv)

lemma worker_seal_progress:
  assumes ok: "uplink_env_ok env" and wan: "wan < length (ac_wans (ue_cfg env))" and seal: "worker_seal env pi wan tq pkt n s = Some (sent, s')"
    and st: "ul_st s = crypto_apply_from_policy (ac_policies (ue_cfg env) ! pi) st"
  shows "\<exists>k \<in> {1, 2}. progress k (sealed_frame env pi st (ul_frag_id s) pkt n wan) s s'"
proof -
  define act where "act = cp_action (ac_policies (ue_cfg env) ! pi)"
  define ctx where "ctx = rt_ctx (ue_rt env) ! pi"
  define P where "P = sealed_frame env pi st (ul_frag_id s) pkt n wan"
  from seal obtain rc p1 s1 where s1: "ul_set_wan env wan pkt s = Some (rc, p1, s1)"
    by (auto simp: worker_seal_def bind_eq_Some_conv)
  note same = ul_set_wan_frame(1,3) [OF s1]
  obtain req where req: "set_wan_l2_addrs (ue_cfg env) (ue_arp_wan env) (ue_wan_macs env) (int wan) pkt = Some (rc, req, p1)"
    using ul_set_wan_addrs [OF s1] by blast
  have P: "P x" if "rc = 0" "fst x = wan" "sealed_body env pi st (ul_frag_id s) p1 n (drop 12 (snd (snd x)))" for x
    using that req by (auto simp: P_def sealed_frame_def)
  note seal' = seal [unfolded worker_seal_def s1 Let_def, folded act_def ctx_def, simplified]
  have "\<exists>k \<in> {1, 2}. progress k P s1 s'"
  proof (cases "rc = 0")
    case False
    then have "s' = ul_drop s1" using seal' by simp
    then show ?thesis using progress_drop by blast
  next
    case rc: True
    show ?thesis
    proof (cases "worker_split (ue_lib env) act ctx (ul_frag_id s1) (ul_st s1) p1 n")
      case (Some split)
      then obtain r where r: "split = Some r" "ul_send_pieces env wan tq r s1 = Some (sent, s')"
        using seal' rc by (auto simp: bind_eq_Some_conv)
      obtain rc' c' st' f1 l1 f2 l2 where e: "r = (rc', c', st', (f1, l1), (f2, l2))" by (cases r) auto
      show ?thesis
      proof (rule ul_send_pieces_progress [OF ok wan r(2) [unfolded e]])
        fix x assume "rc' = 0" "carries wan tq (drop 12 (take l1 f1)) x \<or> carries wan tq (drop 12 (take l2 f2)) x"
        then show "P x"
          using Some r(1) e rc same
          by (intro P) (auto simp: carries_def sealed_body_def Let_def st act_def ctx_def)
      qed
    next
      case None
      then obtain m st p2 where m: "worker_encrypt (ue_lib env) act ctx (ul_st s1) p1 n = Some (m, st, p2)"
        using seal' rc by (auto simp: bind_eq_Some_conv)
      define t where "t = s1\<lparr> ul_st := st \<rparr>"
      have t: "progress 0 P s1 t" by (simp add: t_def progress_0)
      show ?thesis
      proof (cases "m < 0")
        case True
        then have "s' = ul_drop t" using seal' rc None m by (simp add: t_def)
        then show ?thesis using progress_step [OF t progress_drop] by blast
      next
        case False
        then have e: "s' = ul_send env wan tq (take (nat m) p2) t"
          using seal' rc None m by (auto simp: t_def rdn_def split: if_splits)
        have "P (wan, tq, ul_wire env wan (take (nat m) p2))"
          using m False rc same None worker_encrypt_result [OF m]
          by (intro P) (auto simp: ul_wire_body [OF ok wan] sealed_body_def Let_def st act_def ctx_def)
        from progress_step [OF t progress_send [where P = P, OF this]] show ?thesis unfolding e by blast
      qed
    qed
  qed
  then show ?thesis unfolding P_def using progress_step [OF ul_set_wan_progress [OF s1]] by blast
qed

lemma ul_select_wan_progress: "ul_select_wan env i pkt n fl s = Some (wan, s') \<Longrightarrow> progress 0 P s s'"
  by (auto simp: ul_select_wan_def bind_eq_Some_conv intro!: progress_0)

lemma ul_select_wan_range:
  assumes "uplink_env_ok env" "ul_select_wan env i pkt n fl s = Some (wan, s')"
  shows "wan < length (ac_wans (ue_cfg env))"
  using assms by (auto simp: ul_select_wan_def wan_env_ok_def bind_eq_Some_conv)

lemma worker_policy_progress: "progress 0 P s (snd (worker_policy env i f s))"
  by (intro progress_0) (simp_all add: worker_policy_def case_prod_beta)

lemma worker_pin_progress: "progress 0 P s (worker_pin env f cp v s)"
  by (intro progress_0) (simp_all add: worker_pin_def split: option.split)

lemma worker_select_progress: "progress 0 P s (snd (worker_select env i fl s))"
proof (cases fl)
  case None then show ?thesis by (simp add: worker_select_def progress_0)
next
  case (Some f)
  obtain cp s1 where p: "worker_policy env i f s = (cp, s1)" by (cases "worker_policy env i f s")
  define v where "v = policy_verdict env cp"
  define s2 where "s2 = (case v of Seal pi \<Rightarrow> s1\<lparr> ul_st := crypto_apply_from_policy (ac_policies (ue_cfg env) ! pi) (ul_st s1) \<rparr> | _ \<Rightarrow> s1)"
  have p1: "progress 0 P s s1" using worker_policy_progress p by (metis snd_conv)
  have p2: "progress 0 P s1 s2" by (intro progress_0) (simp_all add: s2_def split: verdict.split)
  have "snd (worker_select env i fl s) = (if v = Drop then s2 else worker_pin env f cp v s2)"
    by (simp add: worker_select_def Some p v_def s2_def Let_def)
  then show ?thesis
    using progress_step [OF p1 p2] progress_step [OF progress_step [OF p1 p2] worker_pin_progress] by simp
qed

lemma worker_unpin_progress: "progress n P s t \<Longrightarrow> progress n P s (worker_unpin fl flags t)"
  by (auto simp: worker_unpin_def progress_def split: option.splits)

lemma worker_select_state:
  assumes "worker_select env i fl s = (v, t)"
  shows "ul_frag_id t = ul_frag_id s"
    and "v = Seal pi \<Longrightarrow> ul_st t = crypto_apply_from_policy (ac_policies (ue_cfg env) ! pi) (ul_st s)"
proof -
  have p: "ul_st (snd (worker_policy env i f s)) = ul_st s" "ul_frag_id (snd (worker_policy env i f s)) = ul_frag_id s" for f
    by (simp_all add: worker_policy_def case_prod_beta)
  have q: "ul_st (worker_pin env f cp v u) = ul_st u" "ul_frag_id (worker_pin env f cp v u) = ul_frag_id u" for f cp v u
    by (simp_all add: worker_pin_def split: option.split)
  show "ul_frag_id t = ul_frag_id s" and "v = Seal pi \<Longrightarrow> ul_st t = crypto_apply_from_policy (ac_policies (ue_cfg env) ! pi) (ul_st s)"
    using assms by (cases fl; cases v; auto simp: worker_select_def case_prod_beta Let_def p q split: verdict.splits)+
qed

definition verdict_frame ::
  "uplink_env \<Rightarrow> verdict \<Rightarrow> packet_job \<Rightarrow> nat \<Rightarrow> nat \<Rightarrow> crypto_state \<Rightarrow> 64 word \<Rightarrow> nat \<times> nat \<times> u8 list \<Rightarrow> bool" where
  "verdict_frame env v job wan tq st c x \<longleftrightarrow>
     (case v of Drop \<Rightarrow> False
      | Bypass \<Rightarrow> carries wan tq (drop 12 (take (pj_pkt_len job) (pj_pkt job))) x
      | Seal pi \<Rightarrow> sealed_frame env pi st c (pj_pkt job) (pj_pkt_len job) wan x)"

lemma worker_dispatch_sends:
  assumes ok: "uplink_env_ok env" and wan: "wan < length (ac_wans (ue_cfg env))" and run: "worker_dispatch env job fl flags wan tq s = Some s'"
  defines "v \<equiv> (if rt_enabled (ue_rt env) then fst (worker_select env (pj_local_idx job) fl s) else Bypass)"
  shows "\<exists>k \<in> {1, 2}. progress k (verdict_frame env v job wan tq (ul_st s) (ul_frag_id s)) s s'"
proof (cases "rt_enabled (ue_rt env)")
  case False
  then have "ul_send_plain env wan tq (pj_pkt job) (pj_pkt_len job) s = Some s'" "v = Bypass"
    using run by (simp_all add: worker_dispatch_def v_def)
  from ul_send_plain_progress [OF ok wan this(1)] this(2)
  have "progress 1 (verdict_frame env v job wan tq (ul_st s) (ul_frag_id s)) s s'"
    by (auto simp: verdict_frame_def elim: progress_mono)
  then show ?thesis by blast
next
  case True
  obtain v' s1 where w: "worker_select env (pj_local_idx job) fl s = (v', s1)"
    by (cases "worker_select env (pj_local_idx job) fl s")
  then have v: "v = v'" using True by (simp add: v_def)
  note run' = run [unfolded worker_dispatch_def w, simplified True if_True prod.case]
  have p: "progress 0 (verdict_frame env v job wan tq (ul_st s) (ul_frag_id s)) s s1"
    using worker_select_progress w by (metis snd_conv)
  have "\<exists>k \<in> {1, 2}. progress k (verdict_frame env v' job wan tq (ul_st s) (ul_frag_id s)) s1 s'"
  proof (cases v')
    case Drop
    then have "s' = ul_drop s1" using run' by simp
    then show ?thesis using progress_drop by blast
  next
    case Bypass
    then have "ul_send_plain env wan tq (pj_pkt job) (pj_pkt_len job) s1 = Some s'" using run' by simp
    from ul_send_plain_progress [OF ok wan this] Bypass
    have "progress 1 (verdict_frame env v' job wan tq (ul_st s) (ul_frag_id s)) s1 s'"
      by (auto simp: verdict_frame_def elim: progress_mono)
    then show ?thesis by blast
  next
    case (Seal pi)
    then obtain sent t where t: "worker_seal env pi wan tq (pj_pkt job) (pj_pkt_len job) s1 = Some (sent, t)"
        "s' = (if sent then worker_unpin fl flags t else t)"
      using run' by (auto simp: bind_eq_Some_conv)
    note sel = worker_select_state [OF w]
    from worker_seal_progress [OF ok wan t(1) sel(2) [OF Seal]] sel(1) obtain k where
      k: "k \<in> {1, 2}" "progress k (sealed_frame env pi (ul_st s) (ul_frag_id s) (pj_pkt job) (pj_pkt_len job) wan) s1 t" by auto
    have "progress k (verdict_frame env v' job wan tq (ul_st s) (ul_frag_id s)) s1 t"
      by (rule progress_mono [OF k(2)]) (simp add: Seal verdict_frame_def)
    then show ?thesis using k(1) t(2) by (auto simp: worker_unpin_progress)
  qed
  then show ?thesis using progress_step [OF p] v by blast
qed

lemma worker_packet_split:
  assumes "worker_packet env job s = Some s'" and "pj_has_fwd job"
  obtains fl flags wan s1 t where
    "parse_flow (pj_pkt job) (pj_pkt_len job) = Some fl"
    "ul_select_wan env (pj_local_idx job) (pj_pkt job) (pj_pkt_len job) fl s = Some (wan, s1)"
    "worker_dispatch env job fl flags wan (ul_tx_queue env (pj_tx_queue_base job) wan) s1 = Some t"
    "s' = ul_release env job t"
  using assms by (simp add: worker_packet_def bind_eq_Some_conv split_paired_Ex) blast

section \<open>A sample uplink\<close>

definition sample_uplink_env :: uplink_env where
  "sample_uplink_env = \<lparr> ue_lib = toy_lib, ue_cfg = sample_config1, ue_rt = sample_runtime, ue_now = 1000, ue_alloc = True,
     ue_tx = (\<lambda>wan tq frame. True),
     ue_arp_wan = [arp_cache_empty [2, 0, 0, 0, 0, 1] 0, arp_cache_empty [2, 0, 0, 0, 0, 1] 0],
     ue_wan_macs = [([2, 0, 0, 0, 0, 2], [2, 0, 0, 0, 0, 1]), ([2, 0, 0, 0, 0, 2], [2, 0, 0, 0, 0, 1])],
     ue_wan_queues = [1, 1] \<rparr>"

definition sample_uplink :: uplink where
  "sample_uplink = \<lparr> ul_st = sample_crypto 1, ul_pins = empty_pins,
     ul_wan = \<lparr> wch_ft = fst (flow_table_init (Some [10485760, 10485760]) 2), wch_next = 0, wch_seq = 0 \<rparr>, ul_frag_id = 0, ul_sent = [],
     ul_released = [], ul_arp_requests = [], ul_local_to_wan = 0, ul_dropped = 0, ul_used = (\<lambda>_. False) \<rparr>"

definition sample_uplink_packet :: buf where
  "sample_uplink_packet = [2, 2, 2, 2, 2, 2, 2, 2, 2, 2, 2, 2, 8, 0] @ sample_ip @ replicate 30 0"

definition sample_uplink_job :: packet_job where
  "sample_uplink_job = \<lparr> pj_has_fwd = True, pj_local_idx = 0, pj_queue_idx = 0, pj_tx_queue_base = 0,
     pj_pkt = sample_uplink_packet, pj_pkt_len = 54, pj_addr = 4096 \<rparr>"

definition sample_flow :: flow where
  "sample_flow = \<lparr> fw_src_ip = 0x0100000A, fw_dst_ip = 0x0200000A, fw_src_port = 80, fw_dst_port = 443, fw_protocol = 6 \<rparr>"

definition unready_uplink_env :: uplink_env where
  "unready_uplink_env = sample_uplink_env\<lparr> ue_rt := sample_runtime\<lparr> rt_ready := replicate 128 False \<rparr> \<rparr>"

lemma sample_parse: "parse_flow sample_uplink_packet 54 = Some (Some sample_flow)"
  by code_simp

lemma sample_tcp_flags: "tcp_ipv4_tcp_flags sample_uplink_packet 54 = Some (Some 2)"
  by code_simp

lemma sample_env_cfg:
  "ue_cfg sample_uplink_env = sample_config1" "ue_cfg unready_uplink_env = sample_config1"
  "rt_enabled (ue_rt sample_uplink_env)" "rt_enabled (ue_rt unready_uplink_env)"
  by (simp_all add: sample_uplink_env_def unready_uplink_env_def sample_runtime_def)

lemma macs_ok_empty: "length m = 6 \<Longrightarrow> macs_ok (arp_cache_empty m ip)"
  by (simp add: macs_ok_def arp_cache_empty_def list_all_length)

lemma sample_env_ok: "uplink_env_ok sample_uplink_env" "uplink_env_ok unready_uplink_env"
  by (simp_all add: wan_env_ok_def macs_ok_empty sample_uplink_env_def unready_uplink_env_def
      sample_config1_def sample_config_def)

lemma sample_select:
  "ul_select_wan unready_uplink_env 0 sample_uplink_packet 54 (Some sample_flow) sample_uplink =
     Some (0, sample_uplink\<lparr> ul_wan := (ul_wan sample_uplink)\<lparr> wch_seq := 1 \<rparr> \<rparr>)"
proof -
  have p: "config_select_profile_for_local sample_config1 0 = 0" by code_simp
  have w: "profile_wan sample_config1 sample_profile 0 = Some (0, 1)" by code_simp
  have c: "ac_profiles sample_config1 = [sample_profile]" "length (ac_locals sample_config1) = 1" "length (ac_wans sample_config1) = 2"
    by (simp_all add: sample_config1_def sample_config_def)
  have q: "wch_seq (ul_wan sample_uplink) = 0" by (simp add: sample_uplink_def)
  show ?thesis
    by (simp add: ul_select_wan_def sample_env_cfg select_wan_idx_for_packet_def p w c q Let_def)
qed

lemma sample_policy_of_flow:
  "worker_policy unready_uplink_env 0 sample_flow (sample_uplink\<lparr> ul_wan := wc \<rparr>) = (Some 0, sample_uplink\<lparr> ul_wan := wc \<rparr>)"
proof -
  have a: "tcp_policy_pin_lookup True ps rd now empty_pins a b c d = (None, empty_pins)" for ps rd now a b c d
    by (simp add: tcp_policy_pin_lookup_def empty_pins_def Let_def pin_find_def)
  have b: "crypto_select_policy_for_local sample_config1 0 0x0100000A 0x0200000A 80 443 6 = Some 0"
    by code_simp
  have c: "ul_pins (sample_uplink\<lparr> ul_wan := wc \<rparr>) = empty_pins" by (simp add: sample_uplink_def)
  show ?thesis
    unfolding worker_policy_def sample_env_cfg sample_flow_def c by (simp add: a b) (simp add: sample_uplink_def)
qed

lemma sample_plain:
  "ul_send_plain unready_uplink_env 0 0 sample_uplink_packet 54 s =
     Some (s\<lparr> ul_sent := ul_sent s @ [(0, 0, ul_wire unready_uplink_env 0 (take 54 sample_uplink_packet))], ul_local_to_wan := ul_local_to_wan s + 1,
       ul_used := (ul_used s)(0 := True) \<rparr>)"
proof -
  have "ul_set_wan unready_uplink_env 0 sample_uplink_packet s = Some (0, sample_uplink_packet, s)"
    by (simp add: ul_set_wan_def set_wan_l2_addrs_def sample_env_cfg sample_config1_def sample_defs)
  moreover have "length sample_uplink_packet = 84" by (simp add: sample_uplink_packet_def)
  ultimately show ?thesis
    by (simp add: ul_send_plain_def ul_send_def Let_def) (simp add: unready_uplink_env_def sample_uplink_env_def)
qed

lemma unready_select:
  "worker_select unready_uplink_env 0 (Some sample_flow) (sample_uplink\<lparr> ul_wan := wc \<rparr>)
     = (Bypass, sample_uplink\<lparr> ul_wan := wc \<rparr>)"
proof -
  have "\<not> rt_ready (ue_rt unready_uplink_env) ! 0" by (simp add: unready_uplink_env_def)
  moreover have "cp_action (ac_policies sample_config1 ! 0) \<noteq> POLICY_ACTION_BYPASS"
    by (simp add: sample_config1_def sample_policy_def policy_consts)
  ultimately show ?thesis
    by (simp add: worker_select_def sample_policy_of_flow policy_verdict_def worker_pin_def sample_env_cfg)
qed

lemma unready_run:
  "worker_packet unready_uplink_env sample_uplink_job sample_uplink =
     Some (sample_uplink\<lparr> ul_wan := (ul_wan sample_uplink)\<lparr> wch_seq := 1 \<rparr>,
       ul_sent := [(0, 0, ul_wire unready_uplink_env 0 (take 54 sample_uplink_packet))], ul_local_to_wan := 1, ul_released := [(0, 0, 4096)],
       ul_used := (\<lambda>_. False)(0 := True) \<rparr>)"
proof -
  have j: "pj_has_fwd sample_uplink_job" "pj_pkt sample_uplink_job = sample_uplink_packet" "pj_pkt_len sample_uplink_job = 54"
    "pj_local_idx sample_uplink_job = 0" "ul_tx_queue unready_uplink_env (pj_tx_queue_base sample_uplink_job) w = 0" for w
    by (simp_all add: sample_uplink_job_def ul_tx_queue_def unready_uplink_env_def sample_uplink_env_def)
  have p: "fw_protocol sample_flow = 6" by (simp add: sample_flow_def)
  have r: "ul_release unready_uplink_env sample_uplink_job s = s\<lparr> ul_released := ul_released s @ [(0, 0, 4096)] \<rparr>" for s
    by (simp add: ul_release_def sample_uplink_job_def sample_env_cfg sample_config1_def sample_config_def)
  show ?thesis
    by (simp add: worker_packet_def worker_dispatch_def j p r sample_parse sample_tcp_flags sample_select sample_env_cfg
        unready_select sample_plain) (simp add: sample_uplink_def)
qed

section \<open>Properties\<close>

text \<open>No packet is lost without trace: the worker returns the frame of every job to the receive ring it
  came from, exactly once, and of the one or two frames it makes of the packet each is either sent and
  counted as forwarded or counted as dropped.\<close>

lemma worker_accounts:
  assumes "uplink_env_ok env" "pj_has_fwd job" "worker_packet env job s = Some s'"
    and "0 \<le> pj_local_idx job" "pj_local_idx job < int (length (ac_locals (ue_cfg env)))"
  shows "\<exists>k \<in> {1, 2}. \<exists>fs. ul_sent s' = ul_sent s @ fs \<and> length fs \<le> k \<and>
     ul_local_to_wan s' = ul_local_to_wan s + of_nat (length fs) \<and>
     ul_dropped s' = ul_dropped s + of_nat (k - length fs) \<and>
     ul_released s' = ul_released s @ [(pj_local_idx job, pj_queue_idx job, pj_addr job)]"
proof -
  from worker_packet_split [OF assms(3,2)] obtain fl flags wan s1 t where
    r: "ul_select_wan env (pj_local_idx job) (pj_pkt job) (pj_pkt_len job) fl s = Some (wan, s1)"
       "worker_dispatch env job fl flags wan (ul_tx_queue env (pj_tx_queue_base job) wan) s1 = Some t"
       "s' = ul_release env job t" by metis
  from worker_dispatch_sends [OF assms(1) ul_select_wan_range [OF assms(1) r(1)] r(2)] obtain k P where "k \<in> {1, 2}" "progress k P s1 t" by blast
  with progress_step [OF ul_select_wan_progress [OF r(1)]] have "k \<in> {1, 2}" "progress k P s t" by blast+
  then show ?thesis using r(3) assms(4,5) by (auto simp: progress_def ul_release_def)
qed

text \<open>Encryption fails open: a flow for which the first matching policy demands encryption leaves the WAN
  in clear, byte for byte after the MAC addresses, when that policy's context is not ready (a key of zeros,
  a context that could not be initialised, an index of 128 or more).\<close>

lemma worker_fails_open:
  assumes "uplink_env_ok env" "rt_enabled (ue_rt env)" "pj_has_fwd job" "worker_packet env job s = Some s'"
    and "parse_flow (pj_pkt job) (pj_pkt_len job) = Some (Some f)"
    and "ul_select_wan env (pj_local_idx job) (pj_pkt job) (pj_pkt_len job) (Some f) s = Some (wan, s1)"
    and "fst (worker_policy env (pj_local_idx job) f s1) = Some pi"
    and "cp_action (ac_policies (ue_cfg env) ! pi) \<in> {POLICY_ACTION_ENCRYPT_L2, POLICY_ACTION_ENCRYPT_L3, POLICY_ACTION_ENCRYPT_L4}"
    and "\<not> (pi < MAX_CRYPTO_POLICIES \<and> rt_ready (ue_rt env) ! pi)"
    and "\<And>tq frame. ue_tx env wan tq frame" "wc_dst_ip (ac_wans (ue_cfg env) ! wan) = 0" "wan < length (ac_wans (ue_cfg env))"
  shows "\<exists>tq frame. ul_sent s' = ul_sent s @ [(wan, tq, frame)] \<and>
     drop 12 frame = drop 12 (take (pj_pkt_len job) (pj_pkt job))"
proof -
  define tq where "tq = ul_tx_queue env (pj_tx_queue_base job) wan"
  from worker_packet_split [OF assms(4,3)] assms(5,6) obtain flags t where
    r: "worker_dispatch env job (Some f) flags wan tq s1 = Some t" "s' = ul_release env job t"
    unfolding tq_def by (metis option.inject prod.inject)
  have "worker_select env (pj_local_idx job) (Some f) s1 = (Bypass, snd (worker_select env (pj_local_idx job) (Some f) s1))"
    using assms(7-9) by (auto simp: worker_select_def policy_verdict_def case_prod_beta Let_def)
  then obtain s2 where w: "worker_select env (pj_local_idx job) (Some f) s1 = (Bypass, s2)" by blast
  have "ul_sent s2 = ul_sent s"
    using worker_select_progress [of "\<lambda>_. False" s1 env "pj_local_idx job" "Some f"]
      ul_select_wan_progress [OF assms(6), of "\<lambda>_. False"] w
    by (simp add: progress_def)
  moreover have "ul_send_plain env wan tq (pj_pkt job) (pj_pkt_len job) s2 = Some t"
    using r(1) w assms(2) by (simp add: worker_dispatch_def)
  then have "ul_sent t = ul_sent s2 @ [(wan, tq, ul_wire env wan (take (pj_pkt_len job) (pj_pkt job)))]"
    using assms(10-12)
    by (auto simp: ul_send_plain_def ul_set_wan_def set_wan_l2_addrs_def ul_send_def rdn_def Let_def split: if_splits)
  ultimately show ?thesis using r(2) ul_wire_body [OF assms(1,12)] by (auto simp: ul_release_def)
qed

lemma sample_job_facts:
  "pj_has_fwd sample_uplink_job" "pj_pkt sample_uplink_job = sample_uplink_packet" "pj_pkt_len sample_uplink_job = 54"
  "pj_local_idx sample_uplink_job = 0" "pj_queue_idx sample_uplink_job = 0" "pj_addr sample_uplink_job = 4096"
  by (simp_all add: sample_uplink_job_def)

end
