(* ===== verification/Sender.thy ===== *)
theory Sender
  imports Uplink
begin

text \<open>
  What the worker sends (\<open>worker_thread\<close> of \<open>src/core/forwarder.c\<close>): the frame of a layer 3 policy on a bridge WAN in full, and
  what the policy of a flow decides about any packet.
\<close>

section \<open>The sender\<close>

lemma rd_total: "i < length b \<Longrightarrow> \<exists>x. rd b i = Some x"
  by (simp add: rd_def)

lemma parse_flow_tcp_flags:
  assumes "parse_flow b n = Some (Some f)" "fw_protocol f = 6" "n \<le> length b"
  shows "\<exists>fl. tcp_ipv4_tcp_flags b n = Some (Some fl)"
proof -
  from assms(1) obtain l where l: "crypto_eth_ipv4_offset b n = Some l"
    by (auto simp: parse_flow_def bind_eq_Some_conv)
  note p = assms(1) [unfolded parse_flow_def l Option.bind.bind_lunit Let_def]
  have l0: "\<not> l < 0" "\<not> n < nat l + 20" using p by (auto split: if_splits)
  obtain src dst proto h where r: "rd_le32 b (nat l + 12) = Some src" "rd_le32 b (nat l + 16) = Some dst"
    "rd b (nat l + 9) = Some proto" "ip_ihl b (nat l) = Some h"
    using p l0 by (auto simp: bind_eq_Some_conv)
  note q = p [unfolded r Option.bind.bind_lunit]
  have h: "\<not> h < 20" "proto = 6" "\<not> n < nat l + h + 20"
    using q l0 assms(2) by (auto simp: bind_eq_Some_conv split: if_splits)
  have "\<not> n < nat l + h + 14" "nat l + h + 13 < length b" using h assms(3) by simp_all
  then show ?thesis using l l0 r h by (simp add: tcp_ipv4_tcp_flags_def rd_def)
qed

lemma apply_policy_idem: "crypto_apply_from_policy cp (crypto_apply_from_policy cp st) = crypto_apply_from_policy cp st"
  by (simp add: crypto_apply_from_policy_def crypto_setters Let_def)

text \<open>What the theorem asks of the sending gateway: policy \<open>i\<close> of its configuration is the ready layer 3 policy
  \<open>cp\<close> with context \<open>ctx\<close>, and the WAN is a bridge port whose ring has room.\<close>

definition seals_l3 :: "uplink_env \<Rightarrow> nat \<Rightarrow> nat \<Rightarrow> crypto_policy \<Rightarrow> packet_crypto_ctx \<Rightarrow> bool" where
  "seals_l3 env wan i cp ctx \<longleftrightarrow>
     evp_ok (ue_lib env) \<and> rt_enabled (ue_rt env) \<and> cp_action cp = POLICY_ACTION_ENCRYPT_L3 \<and> 0 < cp_nonce_size cp \<and>
     i < MAX_CRYPTO_POLICIES \<and> ac_policies (ue_cfg env) ! i = cp \<and> rt_ready (ue_rt env) ! i \<and> rt_ctx (ue_rt env) ! i = ctx \<and>
     wan < length (ac_wans (ue_cfg env)) \<and> wc_dst_ip (ac_wans (ue_cfg env) ! wan) = 0 \<and>
     \<not> mac_set (fst (ue_wan_macs env ! wan)) \<and> \<not> mac_set (snd (ue_wan_macs env ! wan)) \<and> (\<forall>tq fr. ue_tx env wan tq fr)"

lemma bridge_set_wan:
  assumes "seals_l3 env wan i cp ctx"
  shows "ul_set_wan env wan p s = Some (0, p, s)"
  using assms by (simp add: ul_set_wan_def set_wan_l2_addrs_def seals_l3_def)

lemma bridge_send:
  assumes "seals_l3 env wan i cp ctx"
  shows "ul_send env wan tq fr s = s\<lparr> ul_sent := ul_sent s @ [(wan, tq, fr)], ul_local_to_wan := ul_local_to_wan s + 1,
    ul_used := (ul_used s)(wan := True) \<rparr>"
  using assms by (simp add: ul_send_def ul_wire_def wire_frame_none seals_l3_def)

lemma worker_seals_l3:
  assumes env: "seals_l3 env wan i cp ctx" and job: "pj_has_fwd job"
    and fl: "parse_flow (pj_pkt job) (pj_pkt_len job) = Some (Some f)" and n: "pj_pkt_len job \<le> length (pj_pkt job)"
    and wan: "ul_select_wan env (pj_local_idx job) (pj_pkt job) (pj_pkt_len job) (Some f) s = Some (wan, s1)"
    and pol: "fst (worker_policy env (pj_local_idx job) f s1) = Some i"
    and split: "\<not> frag_need_split (crypto_apply_from_policy cp (ul_st s)) (pj_pkt_len job)"
    and enc: "crypto_layer3_encrypt (ue_lib env) ctx (crypto_apply_from_policy cp (ul_st s)) (pj_pkt job) (pj_pkt_len job)
      = Some (int m, st', w)" and m: "m \<le> length w"
  shows "\<exists>s'. worker_packet env job s = Some s' \<and>
     ul_sent s' = ul_sent s @ [(wan, ul_tx_queue env (pj_tx_queue_base job) wan, take m w)]"
proof -
  have act: "cp_action cp = POLICY_ACTION_ENCRYPT_L3" "cp_action cp \<noteq> POLICY_ACTION_ENCRYPT_L2" "cp_action cp \<noteq> POLICY_ACTION_BYPASS"
    using env by (simp_all add: seals_l3_def policy_consts)
  have e: "rt_enabled (ue_rt env)" "ac_policies (ue_cfg env) ! i = cp" "rt_ctx (ue_rt env) ! i = ctx"
    "i < MAX_CRYPTO_POLICIES \<and> rt_ready (ue_rt env) ! i"
    using env by (simp_all add: seals_l3_def)
  obtain flags where flags: "(if fw_protocol f = 6 then tcp_ipv4_tcp_flags (pj_pkt job) (pj_pkt_len job) else Some None) = Some flags"
    using parse_flow_tcp_flags [OF fl _ n] by (cases "fw_protocol f = 6") auto
  have s1: "ul_st s1 = ul_st s" "ul_sent s1 = ul_sent s"
    using wan by (auto simp: ul_select_wan_def bind_eq_Some_conv split: prod.splits)
  obtain s2 where p: "worker_policy env (pj_local_idx job) f s1 = (Some i, s2)"
    using pol by (metis prod.collapse)
  have s2: "ul_st s2 = ul_st s" "ul_sent s2 = ul_sent s"
    using p s1 by (auto simp: worker_policy_def split: prod.splits if_splits)
  have v: "policy_verdict env (Some i) = Seal i" using e act by (simp add: policy_verdict_def)
  define s3 where "s3 = worker_pin env f (Some i) (Seal i) (s2\<lparr> ul_st := crypto_apply_from_policy cp (ul_st s2) \<rparr>)"
  have sel: "worker_select env (pj_local_idx job) (Some f) s1 = (Seal i, s3)"
    by (simp add: worker_select_def p v e s3_def Let_def)
  have s3: "ul_st s3 = crypto_apply_from_policy cp (ul_st s)" "ul_sent s3 = ul_sent s"
    using s2 by (simp_all add: s3_def worker_pin_def)
  have sp: "worker_split (ue_lib env) (cp_action cp) ctx c (crypto_apply_from_policy cp (ul_st s)) (pj_pkt job) (pj_pkt_len job) = None" for c
    using split by (simp add: worker_split_def act policy_consts)
  have en: "worker_encrypt (ue_lib env) (cp_action cp) ctx (crypto_apply_from_policy cp (ul_st s)) (pj_pkt job) (pj_pkt_len job) = Some (int m, st', w)"
    using enc act by (simp add: worker_encrypt_def policy_consts)
  define tq where "tq = ul_tx_queue env (pj_tx_queue_base job) wan"
  obtain t where t: "worker_seal env i wan tq (pj_pkt job) (pj_pkt_len job) s3 = Some (True, t)"
    "ul_sent t = ul_sent s @ [(wan, tq, take m w)]"
    using m by (simp add: worker_seal_def bridge_set_wan [OF env] e sp en bridge_send [OF env] s3 Let_def)
  have u: "ul_sent (worker_unpin a b t) = ul_sent t" for a b
    by (simp add: worker_unpin_def split: option.split)
  have r: "ul_sent (ul_release env job x) = ul_sent x" for x by (simp add: ul_release_def)
  show ?thesis
    using t u r
    by (simp add: worker_packet_def job fl flags wan worker_dispatch_def e(1) sel tq_def [symmetric])
qed

section \<open>A sample packet\<close>

definition bridge_uplink_env :: uplink_env where
  "bridge_uplink_env = sample_uplink_env\<lparr> ue_wan_macs := replicate 2 (replicate 6 0, replicate 6 0) \<rparr>"

definition tunnel_eth :: "u8 list" where "tunnel_eth = [2, 0, 0, 0, 0, 4, 2, 0, 0, 0, 0, 9, 8, 0]"
definition tunnel_hdr :: "u8 list" where "tunnel_hdr = patch_hdr (take 20 sample_ip) 40"
definition tunnel_data :: "u8 list" where "tunnel_data = drop 20 sample_ip"

definition tunnel_job :: packet_job where
  "tunnel_job = \<lparr> pj_has_fwd = True, pj_local_idx = 0, pj_queue_idx = 0, pj_tx_queue_base = 0,
     pj_pkt = tunnel_eth @ tunnel_hdr @ tunnel_data @ replicate 30 0, pj_pkt_len = 54, pj_addr = 0 \<rparr>"

lemma tunnel_job_sel [simp]:
  "pj_has_fwd tunnel_job" "pj_local_idx tunnel_job = 0" "pj_pkt tunnel_job = tunnel_eth @ tunnel_hdr @ tunnel_data @ replicate 30 0"
  "pj_pkt_len tunnel_job = 54"
  by (simp_all add: tunnel_job_def)

abbreviation "tunnel_policy \<equiv> sample_policy 1 0 3"
abbreviation "tunnel_ctx \<equiv> policy_ctx toy_lib tunnel_policy"

lemma tunnel_lengths [simp]: "length tunnel_eth = 14" "length tunnel_hdr = 20" "length tunnel_data = 20"
  by (simp_all add: tunnel_eth_def tunnel_hdr_def tunnel_data_def)

lemma tunnel_parse: "parse_flow (tunnel_eth @ tunnel_hdr @ tunnel_data @ replicate 30 0) 54 = Some (Some sample_flow)"
proof -
  define b where "b = tunnel_eth @ tunnel_hdr @ tunnel_data @ replicate 30 0"
  have l: "length b = 84" by (simp add: b_def)
  have e: "b ! 12 = 8" "b ! 13 = 0" by (simp_all add: b_def nth_append tunnel_eth_def)
  have h: "b ! 14 = 0x45" "b ! 23 = 6" "b ! 26 = 10" "b ! 27 = 0" "b ! 28 = 0" "b ! 29 = 1" "b ! 30 = 10" "b ! 31 = 0"
    "b ! 32 = 0" "b ! 33 = 2"
    by (simp_all add: b_def nth_append tunnel_hdr_def patch_hdr_nth) (simp_all add: sample_ip_def)
  have d: "b ! 34 = 0" "b ! 35 = 80" "b ! 36 = 1" "b ! 37 = 187"
    by (simp_all add: b_def nth_append tunnel_data_def) (simp_all add: sample_ip_def)
  have off: "crypto_eth_ipv4_offset b 54 = Some 14"
    by (simp add: crypto_eth_ipv4_offset_def l e be16_of_def)
  have "parse_flow b 54 = Some (Some sample_flow)"
    by (simp add: parse_flow_def off ip_ihl_def rd_le32_def rd_def l h d sample_flow_def le32_of_def be16_of_def)
  then show ?thesis by (simp add: b_def)
qed

lemma tunnel_select:
  "ul_select_wan bridge_uplink_env 0 p n (Some sample_flow) sample_uplink =
     Some (0, sample_uplink\<lparr> ul_wan := (ul_wan sample_uplink)\<lparr> wch_seq := 1 \<rparr> \<rparr>)"
proof -
  have p: "config_select_profile_for_local sample_config1 0 = 0" by code_simp
  have w: "profile_wan sample_config1 sample_profile 0 = Some (0, 1)" by code_simp
  have c: "ac_profiles sample_config1 = [sample_profile]" "length (ac_locals sample_config1) = 1" "length (ac_wans sample_config1) = 2"
    "ue_cfg bridge_uplink_env = sample_config1"
    by (simp_all add: sample_config1_def sample_config_def bridge_uplink_env_def sample_uplink_env_def)
  have q: "wch_seq (ul_wan sample_uplink) = 0" by (simp add: sample_uplink_def)
  show ?thesis
    by (simp add: ul_select_wan_def select_wan_idx_for_packet_def p w c q Let_def)
qed

lemma tunnel_policy_of_flow:
  "fst (worker_policy bridge_uplink_env 0 sample_flow (sample_uplink\<lparr> ul_wan := wc \<rparr>)) = Some 0"
proof -
  have a: "tcp_policy_pin_lookup True ps rd now empty_pins a b c d = (None, empty_pins)" for ps rd now a b c d
    by (simp add: tcp_policy_pin_lookup_def empty_pins_def Let_def pin_find_def)
  have b: "crypto_select_policy_for_local sample_config1 0 0x0100000A 0x0200000A 80 443 6 = Some 0"
    by code_simp
  have c: "ul_pins (sample_uplink\<lparr> ul_wan := wc \<rparr>) = empty_pins" "ue_cfg bridge_uplink_env = sample_config1"
    by (simp_all add: sample_uplink_def bridge_uplink_env_def sample_uplink_env_def)
  show ?thesis unfolding worker_policy_def c sample_flow_def by (simp add: a b)
qed

lemma tunnel_ready: "crypto_ready (crypto_apply_from_policy tunnel_policy (sample_crypto 1)) tunnel_ctx"
proof -
  have "length (derive_key toy_lib st mk 0 (replicate AES_MAX_KEY_SIZE 0)) = 32" for st mk
    by (simp add: derive_key_def toy_lib_def get_key_size_def AES_MAX_KEY_SIZE_def Let_def)
  then have "pc_initialized tunnel_ctx" "length (pc_keys tunnel_ctx) = 3" "\<forall>k \<in> set (pc_keys tunnel_ctx). length k = 32"
    by (simp_all add: policy_ctx_def packet_crypto_init_def Let_def)
  then show ?thesis
    by (simp add: crypto_ready_def gcm_cache_ok_def sample_crypto_def crypto_state_init_def gcm_cache_init_def sample_policy_def policy_consts)
qed

section \<open>What the policy decides\<close>


lemma tunnel_config:
  "ue_cfg bridge_uplink_env = sample_config1" "ac_policies sample_config1 = [tunnel_policy]" "ac_locals sample_config1 = [sample_local]"
  by (simp_all add: bridge_uplink_env_def sample_uplink_env_def sample_config1_def sample_config_def)

lemma tunnel_seals: "seals_l3 bridge_uplink_env 0 0 tunnel_policy tunnel_ctx"
  by (simp add: seals_l3_def tunnel_config toy_lib_ok MAX_CRYPTO_POLICIES_def)
    (simp add: bridge_uplink_env_def sample_uplink_env_def sample_runtime_def sample_policy_def policy_consts toy_lib_ok
       sample_config1_def sample_config_def sample_wan_def mac_set_def list_ex_iff)

lemma tunnel_packet_ok:
  "eth14_ipv4 tunnel_eth" "l3_hdr_ok tunnel_hdr" "l3_no_magic 12 tunnel_data" "tunnel_hdr ! 9 = 6" "tunnel_data \<noteq> []"
proof -
  show "eth14_ipv4 tunnel_eth" by (simp add: eth14_ipv4_def tunnel_eth_def be16_of_def)
  show "l3_hdr_ok tunnel_hdr" by (simp add: l3_hdr_ok_def tunnel_hdr_def patch_hdr_nth)
  show "l3_no_magic 12 tunnel_data"
    by (simp add: l3_no_magic_def tunnel_data_def CRYPTO_L3_FRAG_MAGIC_def) (simp add: sample_ip_def)
  show "tunnel_hdr ! 9 = 6" by (simp add: tunnel_hdr_def patch_hdr_nth) (simp add: sample_ip_def)
  have "length tunnel_data \<noteq> 0" by simp
  then show "tunnel_data \<noteq> []" by blast
qed

lemma tunnel_state:
  "ul_st sample_uplink = sample_crypto 1" "ul_sent sample_uplink = []" "ul_frag_id sample_uplink = 0"
  "g_nonce_size (crypto_apply_from_policy tunnel_policy (sample_crypto 1)) = 12"
  "gcm_tag_len (crypto_apply_from_policy tunnel_policy (sample_crypto 1)) = 16"
  "\<not> frag_need_split (crypto_apply_from_policy tunnel_policy (sample_crypto 1)) 54"
  "cp_nonce_size tunnel_policy = 12"
proof -
  show pol: "cp_nonce_size tunnel_policy = 12" by (simp add: sample_policy_def)
  show ns: "g_nonce_size (crypto_apply_from_policy tunnel_policy (sample_crypto 1)) = 12"
    by (simp add: sample_policy_def)
  show "gcm_tag_len (crypto_apply_from_policy tunnel_policy (sample_crypto 1)) = 16"
    by (simp add: gcm_tag_len_def is_gcm_def sample_policy_def policy_consts AES128_GCM_TAG_SIZE_def)
  have "gcm_tag_len (crypto_apply_from_policy tunnel_policy (sample_crypto 1)) \<le> 16"
    by (simp add: gcm_tag_len_def AES128_GCM_TAG_SIZE_def)
  then show "\<not> frag_need_split (crypto_apply_from_policy tunnel_policy (sample_crypto 1)) 54"
    by (simp add: frag_need_split_def crypto_layer3_frag_meta_len_def FRAG_MTU_def packet_crypto_get_tunnel_hdr_size_def
        FRAG_HDR_SIZE_def pol)
qed (simp_all add: sample_uplink_def)

lemma tunnel_encrypts:
  "\<exists>st n K. crypto_layer3_encrypt toy_lib tunnel_ctx (crypto_apply_from_policy tunnel_policy (sample_crypto 1))
        (tunnel_eth @ tunnel_hdr @ tunnel_data @ replicate 30 0) 54 =
      Some (int 84, st, tunnel_eth @ l3_enc_hdr (crypto_apply_from_policy tunnel_policy (sample_crypto 1)) tunnel_hdr @ take 12 n
          @ [g_policy_id (crypto_apply_from_policy tunnel_policy (sample_crypto 1)), tunnel_hdr ! 9]
          @ cipher_text toy_lib st K n tunnel_data @ cipher_tag toy_lib st K n tunnel_data) \<and>
     length (tunnel_eth @ l3_enc_hdr (crypto_apply_from_policy tunnel_policy (sample_crypto 1)) tunnel_hdr @ take 12 n
          @ [g_policy_id (crypto_apply_from_policy tunnel_policy (sample_crypto 1)), tunnel_hdr ! 9]
          @ cipher_text toy_lib st K n tunnel_data @ cipher_tag toy_lib st K n tunnel_data) = 84"
proof -
  let ?T = "crypto_apply_from_policy tunnel_policy (sample_crypto 1)"
  from l3_encrypt_parts [OF toy_lib_ok tunnel_ready tunnel_packet_ok(1,2,5), of "replicate 30 0"] tunnel_packet_ok(3)
  obtain st n K where e: "crypto_layer3_encrypt toy_lib tunnel_ctx ?T (tunnel_eth @ tunnel_hdr @ tunnel_data @ replicate 30 0) 54 =
      Some (int 84, st, tunnel_eth @ l3_enc_hdr ?T tunnel_hdr @ take 12 n @ [g_policy_id ?T, tunnel_hdr ! 9]
          @ cipher_text toy_lib st K n tunnel_data @ cipher_tag toy_lib st K n tunnel_data)" "same_cipher ?T st" "length n = 16"
    using tunnel_state(5) by (auto simp: tunnel_state(7))
  have "gcm_tag_len st = 16" using same_cipher_eqs [OF e(2)] tunnel_state(5) by simp
  then show ?thesis using e(1,3) toy_lib_ok by (intro exI [of _ st] exI [of _ n] exI [of _ K]) (simp add: l3_enc_hdr_def)
qed


end
