(* ===== verification/Downlink.thy ===== *)
theory Downlink
  imports Flow CryptoRuntime Fragment Interface
begin

text \<open>
  From a WAN to a local interface: decryption and delivery of one received packet in
  \<open>wan_queue_thread_no_crypto\<close>, \<open>wan_queue_thread_l2\<close> and \<open>wan_queue_thread_l3l4\<close> of
  \<open>src/core/forwarder.c\<close>, with the functions that find the context for a packet. The reassembly tables are
  shared by the threads and locked around each call, so they are part of the state here. \<open>None\<close> is an
  access outside a buffer; the inner \<open>None\<close> of a stage is the C \<open>continue\<close>: the packet goes no further.
  Logging is left out. The transmit rings of the local interfaces are the parameter \<open>de_tx\<close>; \<open>dl_used\<close> is the
  array \<open>local_used_queues[]\<close> of the current round, a bit for each of the first 32 queues of an interface
  (\<open>wan_queue_thread_no_crypto\<close> shifts without testing \<open>tq < 32\<close>; the interfaces have fewer queues).
\<close>

section \<open>Environment and state\<close>

record downlink_env =
  de_lib :: evp_lib
  de_cfg :: app_config
  de_rt :: crypto_runtime
  de_now_ms :: u64
  de_now :: "64 word"
  de_alloc :: bool
  de_tx :: "nat \<Rightarrow> int \<Rightarrow> u8 list \<Rightarrow> bool"
  de_arp_local :: "arp_cache list"
  de_local_queues :: "int list"
  de_worker_index :: int
  de_tx_base :: int

record downlink =
  dl_st :: crypto_state
  dl_pins :: pin_table
  dl_frag_l2 :: frag_table
  dl_frag_l3 :: frag_table
  dl_frag_l4 :: frag_table
  dl_out :: "(nat \<times> int \<times> u8 list) list"
  dl_arp_requests :: "(nat \<times> u32) list"
  dl_wan_to_local :: u64
  dl_dropped :: u64
  dl_bad_ip :: u64
  dl_no_local :: u64
  dl_tx_fail :: u64
  dl_used :: "nat \<Rightarrow> u32"

definition dl_drop :: "downlink \<Rightarrow> downlink" where
  "dl_drop s = s\<lparr> dl_dropped := dl_dropped s + 1 \<rparr>"

section \<open>Contexts for received packets\<close>

text \<open>The search that \<open>forwarder_resolve_l2_decrypt_ctx\<close>, \<open>forwarder_resolve_l3_decrypt_ctx\<close>,
  \<open>forwarder_resolve_l4_decrypt_ctx\<close> and \<open>decrypt_packet_auto_l2\<close> share: the policy the index names, then in
  the grace period the one the old index names.\<close>

definition indexed_ctx ::
  "crypto_policy list \<Rightarrow> packet_crypto_ctx list \<Rightarrow> bool list \<Rightarrow> index_table \<Rightarrow> int \<Rightarrow> u8 \<Rightarrow> int option \<Rightarrow> crypto_state
     \<Rightarrow> (packet_crypto_ctx \<times> crypto_state) option" where
  "indexed_ctx cps ctxs ready index act policy_id nonce_size st =
     (let pi = index (nat act) policy_id in
      if pi \<ge> 0 \<and> pi < int (length cps) \<and> ready ! nat pi \<and>
         (case nonce_size of None \<Rightarrow> True
          | Some ns \<Rightarrow> cp_nonce_size (cps ! nat pi) > 0 \<and> cp_nonce_size (cps ! nat pi) = ns)
      then Some (ctxs ! nat pi, crypto_apply_from_policy (cps ! nat pi) st) else None)"

definition resolve_ctx ::
  "downlink_env \<Rightarrow> int \<Rightarrow> u8 \<Rightarrow> int option \<Rightarrow> crypto_state \<Rightarrow> (packet_crypto_ctx \<times> crypto_state) option" where
  "resolve_ctx env act policy_id nonce_size st =
     (let rt = de_rt env in
      case indexed_ctx (ac_policies (de_cfg env)) (rt_ctx rt) (rt_ready rt) (rt_index rt) act policy_id nonce_size st of
        Some r \<Rightarrow> Some r
      | None \<Rightarrow>
          if prev_policy_grace_active (de_now_ms env) rt
          then indexed_ctx (rt_prev_policies rt) (rt_prev_ctx rt) (rt_prev_ready rt) (rt_prev_index rt) act policy_id nonce_size st
          else None)"

type_synonym resolved = "packet_crypto_ctx option \<times> crypto_state"

definition or_else :: "(packet_crypto_ctx \<times> crypto_state) option \<Rightarrow> crypto_state \<Rightarrow> resolved" where
  "or_else r st = (case r of Some (ctx, st') \<Rightarrow> (Some ctx, st') | None \<Rightarrow> (None, st))"

definition forwarder_resolve_l2_decrypt_ctx :: "downlink_env \<Rightarrow> crypto_state \<Rightarrow> buf \<Rightarrow> resolved option" where
  "forwarder_resolve_l2_decrypt_ctx env st pkt =
     (if ac_policies (de_cfg env) = []
      then Some (Some (rt_base_ctx (de_rt env)), crypto_apply_default_from_cfg (de_cfg env) st)
      else do {
        policy_id \<leftarrow> rd pkt 13;
        Some (or_else (resolve_ctx env POLICY_ACTION_ENCRYPT_L2 policy_id None st) st) })"

definition forwarder_resolve_l3_decrypt_ctx :: "downlink_env \<Rightarrow> crypto_state \<Rightarrow> buf \<Rightarrow> nat \<Rightarrow> resolved option" where
  "forwarder_resolve_l3_decrypt_ctx env st pkt pkt_len =
     (if ac_policies (de_cfg env) = []
      then Some (Some (rt_base_ctx (de_rt env)), crypto_apply_default_from_cfg (de_cfg env) st)
      else do {
        pid \<leftarrow> crypto_l3_extract_policy_id (de_cfg env) st pkt pkt_len;
        Some (case pid of None \<Rightarrow> (None, st)
              | Some policy_id \<Rightarrow> or_else (resolve_ctx env POLICY_ACTION_ENCRYPT_L3 policy_id None st) st) })"

definition forwarder_resolve_l4_decrypt_ctx :: "downlink_env \<Rightarrow> crypto_state \<Rightarrow> buf \<Rightarrow> nat \<Rightarrow> resolved option" where
  "forwarder_resolve_l4_decrypt_ctx env st pkt pkt_len =
     (if ac_policies (de_cfg env) = []
      then Some (Some (rt_base_ctx (de_rt env)), crypto_apply_default_from_cfg (de_cfg env) st)
      else do {
        pid \<leftarrow> crypto_l4_extract_policy_id_ipv4 (de_cfg env) pkt pkt_len;
        Some (case pid of None \<Rightarrow> (None, st)
              | Some (policy_id, nonce_size) \<Rightarrow>
                  or_else (resolve_ctx env POLICY_ACTION_ENCRYPT_L4 policy_id (Some nonce_size) st) st) })"

definition policy_index_from_action_id_current :: "downlink_env \<Rightarrow> int \<Rightarrow> u8 \<Rightarrow> int" where
  "policy_index_from_action_id_current env action_layer policy_id =
     (if action_layer < 0 \<or> action_layer > POLICY_ACTION_ENCRYPT_L4 then -1
      else let pi = rt_index (de_rt env) (nat action_layer) policy_id in
        if pi < 0 \<or> pi \<ge> int (length (ac_policies (de_cfg env))) \<or> pi \<ge> int MAX_CRYPTO_POLICIES then -1
        else if \<not> rt_ready (de_rt env) ! nat pi then -1
        else pi)"

definition decrypt_packet_auto_l2 :: "downlink_env \<Rightarrow> crypto_state \<Rightarrow> buf \<Rightarrow> nat \<Rightarrow> dispatch_result option" where
  "decrypt_packet_auto_l2 env st pkt pkt_len =
     (if \<not> rt_enabled (de_rt env) then Some (-1, st, pkt, pkt_len)
      else do {
        pkt_marker \<leftarrow> rd pkt 12;
        if g_fake_ethertype_ipv4 st = 0 \<or> pkt_marker \<noteq> hi8 (g_fake_ethertype_ipv4 st) then Some (0, st, pkt, pkt_len)
        else do {
          (ctx, st) \<leftarrow> forwarder_resolve_l2_decrypt_ctx env st pkt;
          case ctx of
            None \<Rightarrow> Some (-1, st, pkt, pkt_len)
          | Some ctx \<Rightarrow> do {
              (new_len, st, pkt) \<leftarrow> packet_decrypt (de_lib env) ctx st pkt pkt_len;
              Some (if new_len < 0 then (-1, st, pkt, pkt_len) else (0, st, pkt, nat new_len)) } } })"

definition dispatch_ctx :: "downlink_env \<Rightarrow> crypto_dispatch_ctx" where
  "dispatch_ctx env = (let rt = de_rt env in
     \<lparr> dc_base_ctx = rt_base_ctx rt, dc_per_policy_ctx = rt_ctx rt, dc_per_policy_ready = rt_ready rt,
       dc_policies = ac_policies (de_cfg env), dc_index = rt_index rt, dc_prev_per_policy_ctx = rt_prev_ctx rt,
       dc_prev_per_policy_ready = rt_prev_ready rt, dc_prev_policies = rt_prev_policies rt,
       dc_prev_index = rt_prev_index rt, dc_prev_grace_active = prev_policy_grace_active (de_now_ms env) rt \<rparr>)"

definition decrypt_packet_auto_by_action ::
  "downlink_env \<Rightarrow> int \<Rightarrow> crypto_state \<Rightarrow> buf \<Rightarrow> nat \<Rightarrow> dispatch_result option" where
  "decrypt_packet_auto_by_action env action_layer st pkt pkt_len =
     (if \<not> rt_enabled (de_rt env) then Some (-1, st, pkt, pkt_len)
      else crypto_decrypt_packet_auto_by_action (de_lib env) (rt_enabled (de_rt env)) (de_cfg env) (dispatch_ctx env)
             action_layer 8192 True st pkt pkt_len)"

section \<open>Stages\<close>

type_synonym stage = "(buf \<times> nat) option \<times> downlink"

text \<open>What the threads do with the result of a reassembly: 0 waits for the other piece, 1 is a whole packet,
  which is copied over the received one.\<close>

definition dl_join :: "join_result \<Rightarrow> (frag_table \<Rightarrow> downlink \<Rightarrow> downlink) \<Rightarrow> buf \<Rightarrow> downlink \<Rightarrow> stage option" where
  "dl_join r put_table pkt s =
     (case r of (rr, ft, out, n) \<Rightarrow>
        let s = put_table ft s in
        if rr = 0 then Some (None, s)
        else if rr \<noteq> 1 then Some (None, dl_drop s)
        else do {
          whole \<leftarrow> rdn out 0 n;
          pkt \<leftarrow> wrn pkt 0 whole;
          Some (Some (pkt, n), s) })"

definition reass_buf :: buf where "reass_buf = replicate 4096 0"

definition stage_l2 :: "downlink_env \<Rightarrow> buf \<Rightarrow> nat \<Rightarrow> downlink \<Rightarrow> stage option" where
  "stage_l2 env pkt pkt_len s = do {
     fr \<leftarrow> frag_is_fragment_l2 (de_cfg env) (dl_st s) pkt pkt_len;
     case fr of
       Some _ \<Rightarrow> do {
         (ctx, st) \<leftarrow> forwarder_resolve_l2_decrypt_ctx env (dl_st s) pkt;
         case ctx of
           None \<Rightarrow> Some (None, dl_drop (s\<lparr> dl_st := st \<rparr>))
         | Some ctx \<Rightarrow> do {
             (nd, st, pkt, opid, ofidx) \<leftarrow> crypto_layer2_decrypt_fragment (de_lib env) ctx st pkt pkt_len 0 0;
             let s = s\<lparr> dl_st := st \<rparr>;
             if nd < 0 then Some (None, dl_drop s)
             else do {
               r \<leftarrow> frag_try_reassemble_l2 (dl_frag_l2 s) (de_now env) pkt (nat nd) opid ofidx reass_buf 0;
               dl_join r (\<lambda>ft s. s\<lparr> dl_frag_l2 := ft \<rparr>) pkt s } } }
     | None \<Rightarrow> do {
         (rc, st, pkt, n) \<leftarrow> decrypt_packet_auto_l2 env (dl_st s) pkt pkt_len;
         let s = s\<lparr> dl_st := st \<rparr>;
         Some (if rc \<noteq> 0 then (None, dl_drop s) else (Some (pkt, n), s)) } }"

text \<open>Layer 2 inside the thread for layers 3 and 4: only frames with the marker.\<close>

definition stage_l2_marked :: "downlink_env \<Rightarrow> buf \<Rightarrow> nat \<Rightarrow> downlink \<Rightarrow> stage option" where
  "stage_l2_marked env pkt pkt_len s = do {
     pkt_marker \<leftarrow> rd pkt 12;
     if g_fake_ethertype_ipv4 (dl_st s) \<noteq> 0 \<and> pkt_marker = hi8 (g_fake_ethertype_ipv4 (dl_st s))
     then stage_l2 env pkt pkt_len s
     else Some (Some (pkt, pkt_len), s) }"

text \<open>The parameters that \<open>wan_queue_thread_l3l4\<close> installs before it looks at the packet.\<close>

definition stage_l3_params :: "downlink_env \<Rightarrow> buf \<Rightarrow> nat \<Rightarrow> downlink \<Rightarrow> downlink option" where
  "stage_l3_params env pkt pkt_len s =
     (if rt_enabled (de_rt env) \<and> rt_layer (de_rt env) = POLICY_ACTION_ENCRYPT_L3 \<and> ac_policies (de_cfg env) \<noteq> [] then do {
        pid \<leftarrow> crypto_l3_extract_policy_id (de_cfg env) (dl_st s) pkt pkt_len;
        let found = (case pid of None \<Rightarrow> None
                     | Some policy_id \<Rightarrow> resolve_ctx env POLICY_ACTION_ENCRYPT_L3 policy_id None (dl_st s));
        Some (s\<lparr> dl_st := (case found of Some (_, st) \<Rightarrow> st
                          | None \<Rightarrow> crypto_apply_default_from_cfg (de_cfg env) (dl_st s)) \<rparr>) }
      else Some s)"

text \<open>The index of the policy that an id names, or the value so far. \<open>wire_len\<close> is the length as received.\<close>

definition note_l3_policy :: "downlink_env \<Rightarrow> crypto_state \<Rightarrow> buf \<Rightarrow> nat \<Rightarrow> int \<Rightarrow> int option" where
  "note_l3_policy env st pkt n inbound = do {
     pid \<leftarrow> crypto_l3_extract_policy_id (de_cfg env) st pkt n;
     Some (case pid of None \<Rightarrow> inbound
           | Some policy_id \<Rightarrow>
               let pi = policy_index_from_action_id_current env POLICY_ACTION_ENCRYPT_L3 policy_id
               in if pi \<ge> 0 then pi else inbound) }"

definition note_l4_policy :: "downlink_env \<Rightarrow> buf \<Rightarrow> nat \<Rightarrow> int \<Rightarrow> int option" where
  "note_l4_policy env pkt n inbound = do {
     pid \<leftarrow> crypto_l4_extract_policy_id_ipv4 (de_cfg env) pkt n;
     Some (case pid of None \<Rightarrow> inbound
           | Some (policy_id, _) \<Rightarrow>
               let pi = policy_index_from_action_id_current env POLICY_ACTION_ENCRYPT_L4 policy_id
               in if pi \<ge> 0 then pi else inbound) }"

definition stage_l3 :: "downlink_env \<Rightarrow> nat \<Rightarrow> buf \<Rightarrow> nat \<Rightarrow> downlink \<Rightarrow> (stage \<times> int) option" where
  "stage_l3 env wire_len pkt pkt_len s = do {
     fr \<leftarrow> frag_is_fragment (de_cfg env) (dl_st s) pkt pkt_len;
     case fr of
       Some _ \<Rightarrow> do {
         inbound \<leftarrow> note_l3_policy env (dl_st s) pkt pkt_len (-1);
         (ctx, st) \<leftarrow> forwarder_resolve_l3_decrypt_ctx env (dl_st s) pkt pkt_len;
         case ctx of
           None \<Rightarrow> Some ((None, dl_drop (s\<lparr> dl_st := st \<rparr>)), inbound)
         | Some ctx \<Rightarrow> do {
             (nd, st, pkt, opid, ofidx) \<leftarrow> crypto_layer3_decrypt_fragment (de_lib env) ctx st pkt pkt_len 0 0;
             let s = s\<lparr> dl_st := st \<rparr>;
             if nd < 0 then Some ((None, dl_drop s), inbound)
             else do {
               r \<leftarrow> frag_try_reassemble (dl_frag_l3 s) (de_now env) pkt (nat nd) opid ofidx reass_buf 0;
               out \<leftarrow> dl_join r (\<lambda>ft s. s\<lparr> dl_frag_l3 := ft \<rparr>) pkt s;
               Some (out, inbound) } } }
     | None \<Rightarrow> do {
         (rc, st, pkt, n) \<leftarrow> decrypt_packet_auto_by_action env POLICY_ACTION_ENCRYPT_L3 (dl_st s) pkt pkt_len;
         let s = s\<lparr> dl_st := st \<rparr>;
         if rc \<noteq> 0 then Some ((None, dl_drop s), -1)
         else do {
           inbound \<leftarrow> note_l3_policy env st pkt wire_len (-1);
           Some ((Some (pkt, n), s), inbound) } } }"

definition stage_l4 :: "downlink_env \<Rightarrow> bool \<Rightarrow> nat \<Rightarrow> int \<Rightarrow> buf \<Rightarrow> nat \<Rightarrow> downlink \<Rightarrow> (stage \<times> int) option" where
  "stage_l4 env wire_ssh wire_len inbound pkt pkt_len s = do {
     fr \<leftarrow> frag_is_fragment_l4 (de_cfg env) (dl_st s) pkt pkt_len;
     case fr of
       Some _ \<Rightarrow> do {
         (ctx, st) \<leftarrow> forwarder_resolve_l4_decrypt_ctx env (dl_st s) pkt pkt_len;
         case ctx of
           None \<Rightarrow> Some ((None, dl_drop (s\<lparr> dl_st := st \<rparr>)), inbound)
         | Some ctx \<Rightarrow> do {
             (nd, st, pkt, opid, ofidx) \<leftarrow> crypto_layer4_decrypt_fragment (de_lib env) ctx st pkt pkt_len 0 0;
             let s = s\<lparr> dl_st := st \<rparr>;
             if nd < 0 then Some ((None, dl_drop s), inbound)
             else do {
               r \<leftarrow> frag_try_reassemble_l4 (dl_frag_l4 s) (de_now env) pkt (nat nd) opid ofidx reass_buf 0;
               out \<leftarrow> dl_join r (\<lambda>ft s. s\<lparr> dl_frag_l4 := ft \<rparr>) pkt s;
               Some (out, inbound) } } }
     | None \<Rightarrow> do {
         (rc, st, pkt, n) \<leftarrow> decrypt_packet_auto_by_action env POLICY_ACTION_ENCRYPT_L4 (dl_st s) pkt pkt_len;
         let s = s\<lparr> dl_st := st \<rparr>;
         if rc \<noteq> 0 then Some ((None, dl_drop s), inbound)
         else do {
           inbound \<leftarrow> (if \<not> wire_ssh \<and> inbound < 0 then note_l4_policy env pkt wire_len inbound else Some inbound);
           Some ((Some (pkt, n), s), inbound) } } }"

section \<open>Delivery\<close>

definition dl_pin :: "downlink_env \<Rightarrow> int \<Rightarrow> flow option \<Rightarrow> downlink \<Rightarrow> downlink" where
  "dl_pin env inbound fl s =
     (case fl of
        Some f \<Rightarrow>
          if inbound \<ge> 0 \<and> fw_protocol f = 6
          then s\<lparr> dl_pins := tcp_policy_pin_set True (de_alloc env) (de_now_ms env) (dl_pins s)
                    (fw_src_ip f) (fw_dst_ip f) (fw_src_port f) (fw_dst_port f) inbound \<rparr>
          else s
      | None \<Rightarrow> s)"

definition dl_tx_queue :: "downlink_env \<Rightarrow> nat \<Rightarrow> flow option \<Rightarrow> int" where
  "dl_tx_queue env local_idx fl =
     (let nq = (if de_local_queues env ! local_idx \<le> 0 then 1 else de_local_queues env ! local_idx)
      in case fl of
           Some f \<Rightarrow> uint (flow_hash_local_tq f) mod nq
         | None \<Rightarrow> if de_worker_index env \<ge> 0 then de_worker_index env mod nq else de_tx_base env mod nq)"

text \<open>The end of all three threads: the sending to the chosen local interface and the choice. The flag says
  that the destination's MAC address is not known yet.\<close>

definition dl_transmit :: "downlink_env \<Rightarrow> nat \<Rightarrow> flow option \<Rightarrow> u8 list \<Rightarrow> downlink \<Rightarrow> downlink" where
  "dl_transmit env local_idx fl data s =
     (let cfg = ac_locals (de_cfg env) ! local_idx; frame = wire_frame (lc_dst_mac cfg) (lc_src_mac cfg) data;
          tq = dl_tx_queue env local_idx fl
      in if de_tx env local_idx tq frame
         then s\<lparr> dl_out := dl_out s @ [(local_idx, tq, frame)], dl_wan_to_local := dl_wan_to_local s + 1,
                dl_used := (if tq < 32 then (dl_used s)(local_idx := dl_used s local_idx OR push_bit (nat tq) 1) else dl_used s) \<rparr>
         else (dl_drop s)\<lparr> dl_tx_fail := dl_tx_fail s + 1 \<rparr>)"

definition dl_no_interface :: "downlink_env \<Rightarrow> u32 \<Rightarrow> downlink \<Rightarrow> downlink" where
  "dl_no_interface env dest_ip s =
     (if dest_ip = 0 \<and> \<not> config_wan_bridge_mode (de_cfg env)
      then (dl_drop s)\<lparr> dl_bad_ip := dl_bad_ip s + 1 \<rparr>
      else (dl_drop s)\<lparr> dl_no_local := dl_no_local s + 1 \<rparr>)"

definition dl_to_local :: "downlink_env \<Rightarrow> nat \<Rightarrow> u32 \<Rightarrow> buf \<Rightarrow> nat \<Rightarrow> downlink \<Rightarrow> (bool \<times> downlink) option" where
  "dl_to_local env local_idx dest_ip pkt pkt_len s = do {
     fl \<leftarrow> parse_flow pkt pkt_len;
     (rc, req, pkt) \<leftarrow> set_local_l2_addrs (de_cfg env) (de_arp_local env) (int local_idx) dest_ip pkt;
     let s = (case req of None \<Rightarrow> s
              | Some ip \<Rightarrow> s\<lparr> dl_arp_requests := dl_arp_requests s @ [(local_idx, ip)] \<rparr>);
     if rc \<noteq> 0 then Some (True, dl_drop s)
     else do { data \<leftarrow> rdn pkt 0 pkt_len; Some (False, dl_transmit env local_idx fl data s) } }"

definition dl_deliver :: "downlink_env \<Rightarrow> buf \<Rightarrow> nat \<Rightarrow> downlink \<Rightarrow> (bool \<times> downlink) option" where
  "dl_deliver env pkt pkt_len s = do {
     dest_ip \<leftarrow> get_dest_ip pkt pkt_len;
     (local_idx, pkt) \<leftarrow> forwarder_rx_pick_local (de_cfg env) (dl_st s) pkt pkt_len dest_ip;
     if local_idx < 0 then Some (False, dl_no_interface env dest_ip s)
     else dl_to_local env (nat local_idx) dest_ip pkt pkt_len s }"

section \<open>The WAN receive threads\<close>

text \<open>One packet of \<open>wan_queue_thread_no_crypto\<close>; the frames given back to the receive ring are the list,
  which the thread extends by the whole batch at its end.\<close>

definition wan_no_crypto_packet ::
  "downlink_env \<Rightarrow> buf \<times> nat \<times> u64 \<Rightarrow> downlink \<times> u64 list \<Rightarrow> (downlink \<times> u64 list) option" where
  "wan_no_crypto_packet env p r = do {
     (arp_miss, s) \<leftarrow> dl_deliver env (fst p) (fst (snd p)) (fst r);
     Some (s, if arp_miss then snd r @ [snd (snd p)] else snd r) }"

fun wan_batch ::
  "(buf \<times> nat \<times> u64 \<Rightarrow> downlink \<times> u64 list \<Rightarrow> (downlink \<times> u64 list) option) \<Rightarrow> (buf \<times> nat \<times> u64) list
     \<Rightarrow> downlink \<times> u64 list \<Rightarrow> (downlink \<times> u64 list) option" where
  "wan_batch body [] r = Some r"
| "wan_batch body (p # ps) r = do { r \<leftarrow> body p r; wan_batch body ps r }"

definition release_batch :: "(buf \<times> nat \<times> u64) list \<Rightarrow> downlink \<times> u64 list \<Rightarrow> downlink \<times> u64 list" where
  "release_batch ps r = (fst r, snd r @ map (snd \<circ> snd) ps)"

definition wan_queue_thread_no_crypto ::
  "downlink_env \<Rightarrow> (buf \<times> nat \<times> u64) list \<Rightarrow> downlink \<Rightarrow> (downlink \<times> u64 list) option" where
  "wan_queue_thread_no_crypto env ps s =
     map_option (release_batch ps) (wan_batch (wan_no_crypto_packet env) ps (s, []))"

definition wan_l2_packet :: "downlink_env \<Rightarrow> buf \<Rightarrow> nat \<Rightarrow> downlink \<Rightarrow> downlink option" where
  "wan_l2_packet env pkt pkt_len s = do {
     (out, s) \<leftarrow> stage_l2 env pkt pkt_len s;
     case out of
       None \<Rightarrow> Some s
     | Some (pkt, n) \<Rightarrow> map_option snd (dl_deliver env pkt n s) }"

definition wan_queue_thread_l2 ::
  "downlink_env \<Rightarrow> (buf \<times> nat \<times> u64) list \<Rightarrow> downlink \<Rightarrow> (downlink \<times> u64 list) option" where
  "wan_queue_thread_l2 env ps s =
     map_option (release_batch ps)
       (wan_batch (\<lambda>p r. map_option (\<lambda>s. (s, snd r)) (wan_l2_packet env (fst p) (fst (snd p)) (fst r))) ps
          (s\<lparr> dl_frag_l2 := frag_table_gc (de_now env) (dl_frag_l2 s) \<rparr>, []))"

text \<open>Layers 3 and 4 of \<open>wan_queue_thread_l3l4\<close>, with the index of the inbound policy.\<close>

definition stages_l3l4 :: "downlink_env \<Rightarrow> bool \<Rightarrow> nat \<Rightarrow> buf \<Rightarrow> nat \<Rightarrow> downlink \<Rightarrow> (stage \<times> int) option" where
  "stages_l3l4 env wire_ssh wire_len pkt n s =
     (if rt_enabled (de_rt env) then do {
        ((out, s), inbound) \<leftarrow> stage_l3 env wire_len pkt n s;
        case out of
          None \<Rightarrow> Some ((None, s), inbound)
        | Some (pkt, n) \<Rightarrow> stage_l4 env wire_ssh wire_len inbound pkt n s }
      else Some ((Some (pkt, n), s), -1))"

definition wire_is_ssh :: "flow option \<Rightarrow> bool" where
  "wire_is_ssh wire = (case wire of None \<Rightarrow> False | Some f \<Rightarrow> is_ssh_flow (fw_protocol f) (fw_src_port f) (fw_dst_port f))"

definition wan_l3l4_packet :: "downlink_env \<Rightarrow> buf \<Rightarrow> nat \<Rightarrow> downlink \<Rightarrow> downlink option" where
  "wan_l3l4_packet env pkt wire_len s = do {
     wire \<leftarrow> parse_flow pkt wire_len;
     s \<leftarrow> stage_l3_params env pkt wire_len s;
     (out, s) \<leftarrow> stage_l2_marked env pkt wire_len s;
     case out of
       None \<Rightarrow> Some s
     | Some (pkt, n) \<Rightarrow> do {
         ((out, s), inbound) \<leftarrow> stages_l3l4 env (wire_is_ssh wire) wire_len pkt n s;
         case out of
           None \<Rightarrow> Some s
         | Some (pkt, n) \<Rightarrow> do {
             fl \<leftarrow> (if inbound \<ge> 0 then parse_flow pkt n else Some None);
             map_option snd (dl_deliver env pkt n (dl_pin env inbound fl s)) } } }"

definition wan_queue_thread_l3l4 ::
  "downlink_env \<Rightarrow> (buf \<times> nat \<times> u64) list \<Rightarrow> downlink \<Rightarrow> (downlink \<times> u64 list) option" where
  "wan_queue_thread_l3l4 env ps s =
     map_option (release_batch ps)
       (wan_batch (\<lambda>p r. map_option (\<lambda>s. (s, snd r)) (wan_l3l4_packet env (fst p) (fst (snd p)) (fst r))) ps
          (s\<lparr> dl_frag_l3 := frag_table_gc (de_now env) (dl_frag_l3 s),
              dl_frag_l4 := frag_table_gc (de_now env) (dl_frag_l4 s) \<rparr>, []))"

section \<open>Accounting\<close>

text \<open>What becomes of a packet: \<open>kept\<close>, nothing was sent or counted (yet); \<open>dropped_one\<close>, it was counted as dropped;
  \<open>sent_one\<close>, one frame was put into a transmit ring and counted; \<open>waits\<close>, nothing was sent or counted, and
  a slot of one of the reassembly tables now holds a live first piece with the time of the call.\<close>

definition kept :: "downlink \<Rightarrow> downlink \<Rightarrow> bool" where
  "kept s s' \<longleftrightarrow> dl_out s' = dl_out s \<and> dl_wan_to_local s' = dl_wan_to_local s \<and> dl_dropped s' = dl_dropped s \<and> dl_used s' = dl_used s"

definition dropped_one :: "downlink \<Rightarrow> downlink \<Rightarrow> bool" where
  "dropped_one s s' \<longleftrightarrow> dl_out s' = dl_out s \<and> dl_wan_to_local s' = dl_wan_to_local s \<and> dl_dropped s' = dl_dropped s + 1 \<and>
     dl_used s' = dl_used s"

definition sent_one :: "downlink \<Rightarrow> downlink \<Rightarrow> bool" where
  "sent_one s s' \<longleftrightarrow> (\<exists>x. dl_out s' = dl_out s @ [x]) \<and> dl_wan_to_local s' = dl_wan_to_local s + 1 \<and> dl_dropped s' = dl_dropped s"

definition waits_in :: "(downlink \<Rightarrow> frag_table) \<Rightarrow> 64 word \<Rightarrow> downlink \<Rightarrow> downlink \<Rightarrow> bool" where
  "waits_in tab now s s' \<longleftrightarrow> kept s s' \<and> stored_piece now (tab s) (tab s')"

definition waits :: "64 word \<Rightarrow> downlink \<Rightarrow> downlink \<Rightarrow> bool" where
  "waits now s s' \<longleftrightarrow> waits_in dl_frag_l2 now s s' \<or> waits_in dl_frag_l3 now s s' \<or> waits_in dl_frag_l4 now s s'"

lemmas accounting = kept_def dropped_one_def sent_one_def

lemma kept_trans: "kept s t \<Longrightarrow> kept t u \<Longrightarrow> kept s u"
  by (simp add: kept_def)

lemma kept_dropped: "kept s t \<Longrightarrow> dropped_one t u \<Longrightarrow> dropped_one s u"
  by (simp add: accounting)

lemma kept_sent: "kept s t \<Longrightarrow> sent_one t u \<Longrightarrow> sent_one s u"
  by (auto simp: accounting)

lemma kept_waits: "kept s t \<Longrightarrow> tab t = tab s \<Longrightarrow> waits_in tab now t u \<Longrightarrow> waits_in tab now s u"
  using kept_trans by (auto simp: waits_in_def)

lemma kept_upd [simp]:
  "kept s (s\<lparr> dl_st := st \<rparr>)" "kept s (s\<lparr> dl_frag_l2 := ft \<rparr>)" "kept s (s\<lparr> dl_frag_l3 := ft \<rparr>)" "kept s (s\<lparr> dl_frag_l4 := ft \<rparr>)"
  "kept s (s\<lparr> dl_pins := p \<rparr>)" "kept s s"
  by (simp_all add: kept_def)

lemma dropped_drop [simp]: "dropped_one s (dl_drop s)"
  by (simp add: dropped_one_def dl_drop_def)

text \<open>A stage that stops a packet has counted it as dropped or stored it; one that passes it on has counted nothing.\<close>

definition stage_ok :: "(downlink \<Rightarrow> frag_table) \<Rightarrow> 64 word \<Rightarrow> downlink \<Rightarrow> stage \<Rightarrow> bool" where
  "stage_ok tab now s r \<longleftrightarrow>
     (if fst r = None then dropped_one s (snd r) \<or> waits_in tab now s (snd r) else kept s (snd r))"

lemma stage_ok_drop: "kept s t \<Longrightarrow> stage_ok tab now s (None, dl_drop t)"
  using kept_dropped [OF _ dropped_drop] by (simp add: stage_ok_def)

lemma stage_ok_kept: "kept s t \<Longrightarrow> stage_ok tab now s (Some p, t)"
  by (simp add: stage_ok_def)

lemma stage_ok_step: "kept s t \<Longrightarrow> tab t = tab s \<Longrightarrow> stage_ok tab now t r \<Longrightarrow> stage_ok tab now s r"
  using kept_trans kept_dropped kept_waits [of s t tab now] by (auto simp: stage_ok_def split: if_splits)

lemma dl_join_ok:
  assumes "dl_join r put_table pkt s = Some out" and "\<And>ft. kept s (put_table ft s) \<and> tab (put_table ft s) = ft"
    and "fst r = 0 \<Longrightarrow> stored_piece now (tab s) (fst (snd r))"
  shows "stage_ok tab now s out"
proof -
  obtain rr ft b n where r: "r = (rr, ft, b, n)" by (cases r) auto
  show ?thesis
    using assms(1,3) assms(2) [of ft]
    by (auto simp: dl_join_def r Let_def bind_eq_Some_conv stage_ok_drop stage_ok_kept split: if_splits)
      (simp add: stage_ok_def waits_in_def)
qed

lemma stage_l2_ok:
  assumes "stage_l2 env pkt n s = Some r" "frag_table_ok (dl_frag_l2 s)"
  shows "stage_ok dl_frag_l2 (de_now env) s r"
proof -
  have j: "stage_ok dl_frag_l2 (de_now env) s q"
    if "dl_join x (\<lambda>ft s. s\<lparr> dl_frag_l2 := ft \<rparr>) p (s\<lparr> dl_st := st \<rparr>) = Some q"
      "frag_try_reassemble_l2 (dl_frag_l2 s) (de_now env) p m opid ofidx reass_buf 0 = Some x" for x p st q m opid ofidx
    by (rule stage_ok_step [OF kept_upd(1) _ dl_join_ok [OF that(1)]])
      (use reassemble_zero(2) [OF assms(2), of ofidx "de_now env" p m opid reass_buf 0] that(2) in \<open>auto split: prod.splits\<close>)
  show ?thesis
    using assms(1)
    by (auto simp: stage_l2_def bind_eq_Some_conv Let_def stage_ok_drop stage_ok_kept
             split: option.splits if_splits dest!: j)
qed

lemma stage_l2_marked_ok:
  "stage_l2_marked env pkt n s = Some r \<Longrightarrow> frag_table_ok (dl_frag_l2 s) \<Longrightarrow> stage_ok dl_frag_l2 (de_now env) s r"
  by (auto simp: stage_l2_marked_def bind_eq_Some_conv stage_ok_kept stage_l2_ok split: if_splits)

lemma stage_l3_ok:
  assumes "stage_l3 env wire_len pkt n s = Some (r, i)" "frag_table_ok (dl_frag_l3 s)"
  shows "stage_ok dl_frag_l3 (de_now env) s r"
proof -
  have j: "stage_ok dl_frag_l3 (de_now env) s q"
    if "dl_join x (\<lambda>ft s. s\<lparr> dl_frag_l3 := ft \<rparr>) p (s\<lparr> dl_st := st \<rparr>) = Some q"
      "frag_try_reassemble (dl_frag_l3 s) (de_now env) p m opid ofidx reass_buf 0 = Some x" for x p st q m opid ofidx
    by (rule stage_ok_step [OF kept_upd(1) _ dl_join_ok [OF that(1)]])
      (use reassemble_zero(1) [OF assms(2), of ofidx "de_now env" p m opid reass_buf 0] that(2) in \<open>auto split: prod.splits\<close>)
  show ?thesis
    using assms(1)
    by (auto simp: stage_l3_def bind_eq_Some_conv Let_def stage_ok_drop stage_ok_kept
             split: option.splits if_splits dest!: j)
qed

lemma stage_l4_ok:
  assumes "stage_l4 env wire_ssh wire_len inbound pkt n s = Some (r, i)" "frag_table_ok (dl_frag_l4 s)"
  shows "stage_ok dl_frag_l4 (de_now env) s r"
proof -
  have j: "stage_ok dl_frag_l4 (de_now env) s q"
    if "dl_join x (\<lambda>ft s. s\<lparr> dl_frag_l4 := ft \<rparr>) p (s\<lparr> dl_st := st \<rparr>) = Some q"
      "frag_try_reassemble_l4 (dl_frag_l4 s) (de_now env) p m opid ofidx reass_buf 0 = Some x" for x p st q m opid ofidx
    by (rule stage_ok_step [OF kept_upd(1) _ dl_join_ok [OF that(1)]])
      (use reassemble_zero(3) [OF assms(2), of ofidx "de_now env" p m opid reass_buf 0] that(2) in \<open>auto split: prod.splits\<close>)
  show ?thesis
    using assms(1)
    by (auto simp: stage_l4_def bind_eq_Some_conv Let_def stage_ok_drop stage_ok_kept
             split: option.splits if_splits dest!: j)
qed

lemma dl_transmit_one: "dropped_one s (dl_transmit env li fl data s) \<or> sent_one s (dl_transmit env li fl data s)"
  by (simp add: dl_transmit_def Let_def accounting dl_drop_def)

lemma dl_no_interface_one: "dropped_one s (dl_no_interface env dest s)"
  by (simp add: dl_no_interface_def accounting dl_drop_def)

lemma dl_to_local_one:
  assumes "dl_to_local env li dest pkt n s = Some (miss, s')"
  shows "dropped_one s s' \<or> sent_one s s'"
proof -
  from assms obtain fl rc req p where
    f: "parse_flow pkt n = Some fl" "set_local_l2_addrs (de_cfg env) (de_arp_local env) (int li) dest pkt = Some (rc, req, p)"
    by (auto simp: dl_to_local_def bind_eq_Some_conv)
  define t where "t = (case req of None \<Rightarrow> s | Some ip \<Rightarrow> s\<lparr> dl_arp_requests := dl_arp_requests s @ [(li, ip)] \<rparr>)"
  have k: "kept s t" by (simp add: t_def kept_def split: option.split)
  have "s' = dl_drop t \<or> (\<exists>data. s' = dl_transmit env li fl data t)"
    using assms by (auto simp: dl_to_local_def f t_def [symmetric] bind_eq_Some_conv Let_def split: if_splits)
  then have "dropped_one t s' \<or> sent_one t s'" by (elim disjE exE) (simp, metis dl_transmit_one)
  then show ?thesis using kept_dropped [OF k] kept_sent [OF k] by blast
qed

lemma dl_deliver_one:
  assumes "dl_deliver env pkt n s = Some (miss, s')"
  shows "dropped_one s s' \<or> sent_one s s'"
proof -
  from assms have "(\<exists>dest. s' = dl_no_interface env dest s) \<or> (\<exists>li dest p. dl_to_local env li dest p n s = Some (miss, s'))"
    by (auto simp: dl_deliver_def bind_eq_Some_conv split: if_splits)
  then show ?thesis using dl_no_interface_one by (elim disjE exE) (simp, metis dl_to_local_one)
qed

lemma dl_pin_kept: "kept s (dl_pin env i fl s)"
  by (simp add: dl_pin_def split: option.split)

lemma stage_l3_params_kept:
  "stage_l3_params env pkt n s = Some s' \<Longrightarrow> kept s s' \<and> dl_frag_l2 s' = dl_frag_l2 s \<and> dl_frag_l3 s' = dl_frag_l3 s \<and> dl_frag_l4 s' = dl_frag_l4 s"
  by (auto simp: stage_l3_params_def bind_eq_Some_conv Let_def split: if_splits)

text \<open>A stage touches its own reassembly table only.\<close>

lemma dl_drop_frame [simp]:
  "dl_frag_l2 (dl_drop s) = dl_frag_l2 s" "dl_frag_l3 (dl_drop s) = dl_frag_l3 s" "dl_frag_l4 (dl_drop s) = dl_frag_l4 s"
  by (simp_all add: dl_drop_def)

lemma dl_join_frame:
  "dl_join r put_table pkt s = Some (out, t) \<Longrightarrow> (\<And>ft. tab (put_table ft s) = tab s) \<Longrightarrow> (\<And>s. tab (dl_drop s) = tab s) \<Longrightarrow> tab t = tab s"
  by (auto simp: dl_join_def Let_def bind_eq_Some_conv split: prod.splits if_splits)

lemma stage_l2_frame:
  assumes "stage_l2_marked env pkt n s = Some (out, t)"
  shows "dl_frag_l3 t = dl_frag_l3 s \<and> dl_frag_l4 t = dl_frag_l4 s"
proof -
  have "dl_frag_l3 u = dl_frag_l3 v \<and> dl_frag_l4 u = dl_frag_l4 v"
    if "dl_join x (\<lambda>ft s. s\<lparr> dl_frag_l2 := ft \<rparr>) p v = Some (o', u)" for x p v o' u
    using dl_join_frame [OF that, of dl_frag_l3] dl_join_frame [OF that, of dl_frag_l4] by simp
  from this [where v = "s\<lparr> dl_st := st \<rparr>" for st] show ?thesis
    using assms by (auto simp: stage_l2_marked_def stage_l2_def bind_eq_Some_conv Let_def split: option.splits if_splits)
qed

lemma stage_l3_frame:
  assumes "stage_l3 env wire_len pkt n s = Some ((out, t), i)"
  shows "dl_frag_l4 t = dl_frag_l4 s"
proof -
  have "dl_frag_l4 u = dl_frag_l4 v" if "dl_join x (\<lambda>ft s. s\<lparr> dl_frag_l3 := ft \<rparr>) p v = Some (o', u)" for x p v o' u
    using dl_join_frame [OF that, of dl_frag_l4] by simp
  from this [where v = "s\<lparr> dl_st := st \<rparr>" for st] show ?thesis
    using assms by (auto simp: stage_l3_def bind_eq_Some_conv Let_def split: option.splits if_splits)
qed

text \<open>The stages together: a packet that goes no further was counted as dropped or waits in one of the tables.\<close>

abbreviation tables_ok :: "downlink \<Rightarrow> bool" where
  "tables_ok s \<equiv> frag_table_ok (dl_frag_l2 s) \<and> frag_table_ok (dl_frag_l3 s) \<and> frag_table_ok (dl_frag_l4 s)"

definition stages_ok :: "64 word \<Rightarrow> downlink \<Rightarrow> stage \<Rightarrow> bool" where
  "stages_ok now s r \<longleftrightarrow> (if fst r = None then dropped_one s (snd r) \<or> waits now s (snd r) else kept s (snd r))"

lemma stage_then:
  assumes "stage_ok tab now s (out, t)" "tab \<in> {dl_frag_l2, dl_frag_l3, dl_frag_l4}"
    and "out = None \<Longrightarrow> r = (None, t)" "out \<noteq> None \<Longrightarrow> kept s t \<Longrightarrow> stages_ok now s r"
  shows "stages_ok now s r"
  using assms by (cases "out = None") (auto simp: stage_ok_def stages_ok_def waits_def)

lemma stage_l4_last:
  assumes "stage_l4 env wire_ssh wire_len j p m t = Some (r, i)" "kept s t" "dl_frag_l4 t = dl_frag_l4 s" "frag_table_ok (dl_frag_l4 s)"
  shows "stages_ok (de_now env) s r"
proof -
  have "stage_ok dl_frag_l4 (de_now env) s r"
    using stage_ok_step [OF assms(2,3) stage_l4_ok [OF assms(1)]] assms(3,4) by simp
  then show ?thesis by (auto simp: stage_ok_def stages_ok_def waits_def)
qed

lemma stages_l3l4_ok:
  assumes "stages_l3l4 env wire_ssh wire_len pkt n t = Some (r, i)"
    and "kept s t" "dl_frag_l3 t = dl_frag_l3 s" "dl_frag_l4 t = dl_frag_l4 s" "tables_ok s"
  shows "stages_ok (de_now env) s r"
proof (cases "rt_enabled (de_rt env)")
  case False
  then show ?thesis using assms(1,2) by (auto simp: stages_l3l4_def stages_ok_def)
next
  case True
  then obtain out u j where a: "stage_l3 env wire_len pkt n t = Some ((out, u), j)"
    "(case out of None \<Rightarrow> Some ((None, u), j) | Some (pkt, n) \<Rightarrow> stage_l4 env wire_ssh wire_len j pkt n u) = Some (r, i)"
    using assms(1) by (auto simp: stages_l3l4_def bind_eq_Some_conv)
  have "stage_ok dl_frag_l3 (de_now env) s (out, u)"
    using stage_ok_step [OF assms(2,3) stage_l3_ok [OF a(1)]] assms(3,5) by simp
  then show ?thesis
  proof (rule stage_then)
    assume k: "out \<noteq> None" "kept s u"
    then obtain p m where "stage_l4 env wire_ssh wire_len j p m u = Some (r, i)" using a(2) by auto
    from stage_l4_last [OF this k(2)] show "stages_ok (de_now env) s r" using stage_l3_frame [OF a(1)] assms(4,5) by simp
  qed (use a(2) in auto)
qed

text \<open>Delivery ends the way of every packet.\<close>

lemma delivered:
  assumes "stages_ok now s (out, t)"
    and "(case out of None \<Rightarrow> Some t | Some (pkt, n) \<Rightarrow> deliver pkt n) = Some s'"
    and "\<And>pkt n. deliver pkt n = Some s' \<Longrightarrow> dropped_one t s' \<or> sent_one t s'"
  shows "dropped_one s s' \<or> sent_one s s' \<or> waits now s s'"
  using assms kept_dropped kept_sent by (cases out) (fastforce simp: stages_ok_def)+

lemma pinned_deliver_one:
  assumes "do { fl \<leftarrow> (if i \<ge> 0 then parse_flow pkt n else Some None); map_option snd (dl_deliver env pkt n (dl_pin env i fl t)) } = Some u"
  shows "dropped_one t u \<or> sent_one t u"
proof -
  obtain fl miss where "dl_deliver env pkt n (dl_pin env i fl t) = Some (miss, u)" using assms by (auto simp: bind_eq_Some_conv)
  from dl_deliver_one [OF this] show ?thesis using kept_dropped [OF dl_pin_kept] kept_sent [OF dl_pin_kept] by blast
qed

text \<open>C38: of every packet that the WAN threads receive exactly one thing becomes: it is sent to a local interface and counted,
  it is counted as dropped, or nothing is counted and it waits as a first piece, live and with the time of the call, in the slot of
  its packet id in a reassembly table; whatever the layer, the policy and the outcome of decryption. (What happens later to a
  waiting piece, which another piece may overwrite or the timeout drop, is counted nowhere.)\<close>

theorem wan_packet_accounted:
  assumes "wan_l3l4_packet env pkt n s = Some s' \<or> wan_l2_packet env pkt n s = Some s'" "tables_ok s"
  shows "dropped_one s s' \<or> sent_one s s' \<or> waits (de_now env) s s'"
  using assms(1)
proof
  assume "wan_l2_packet env pkt n s = Some s'"
  then obtain out t where t: "stage_l2 env pkt n s = Some (out, t)"
    "(case out of None \<Rightarrow> Some t | Some (pkt, n) \<Rightarrow> map_option snd (dl_deliver env pkt n t)) = Some s'"
    by (auto simp: wan_l2_packet_def bind_eq_Some_conv)
  have "stages_ok (de_now env) s (out, t)"
    using stage_l2_ok [OF t(1)] assms(2) by (auto simp: stage_ok_def stages_ok_def waits_def)
  from delivered [where deliver = "\<lambda>p m. map_option snd (dl_deliver env p m t)", OF this t(2)] show ?thesis
    using dl_deliver_one by fastforce
next
  assume "wan_l3l4_packet env pkt n s = Some s'"
  then obtain wire s1 out2 s2 where
    a: "parse_flow pkt n = Some wire" "stage_l3_params env pkt n s = Some s1" "stage_l2_marked env pkt n s1 = Some (out2, s2)"
    and run: "(case out2 of None \<Rightarrow> Some s2 | Some (p, m) \<Rightarrow> stages_l3l4 env (wire_is_ssh wire) n p m s2 \<bind> (\<lambda>((out, s), inbound).
      case out of None \<Rightarrow> Some s | Some (pkt, n) \<Rightarrow>
        (if 0 \<le> inbound then parse_flow pkt n else Some None) \<bind> (\<lambda>fl. map_option snd (dl_deliver env pkt n (dl_pin env inbound fl s))))) = Some s'"
    by (auto simp: wan_l3l4_packet_def bind_eq_Some_conv)
  note k1 = stage_l3_params_kept [OF a(2)]
  have ok2: "stage_ok dl_frag_l2 (de_now env) s (out2, s2)"
    using stage_ok_step [OF _ _ stage_l2_marked_ok [OF a(3)], of s] k1 assms(2) by simp
  show ?thesis
  proof (cases out2)
    case None
    then show ?thesis using run ok2 by (auto simp: stage_ok_def waits_def)
  next
    case (Some pm)
    then obtain p m out3 s3 i where r: "stages_l3l4 env (wire_is_ssh wire) n p m s2 = Some ((out3, s3), i)"
      "(case out3 of None \<Rightarrow> Some s3 | Some (pkt, n) \<Rightarrow>
        (if 0 \<le> i then parse_flow pkt n else Some None) \<bind> (\<lambda>fl. map_option snd (dl_deliver env pkt n (dl_pin env i fl s3)))) = Some s'"
      using run by (cases pm) (auto simp: bind_eq_Some_conv simp del: if_split)
    have "kept s s2" using ok2 Some by (simp add: stage_ok_def)
    from stages_l3l4_ok [OF r(1) this] have "stages_ok (de_now env) s (out3, s3)"
      using k1 stage_l2_frame [OF a(3)] assms(2) by simp
    from delivered [where deliver = "\<lambda>p m. (if 0 \<le> i then parse_flow p m else Some None) \<bind>
        (\<lambda>fl. map_option snd (dl_deliver env p m (dl_pin env i fl s3)))", OF this r(2)] show ?thesis
      using pinned_deliver_one by blast
  qed
qed

section \<open>A sample downlink\<close>

definition sample_downlink_env :: downlink_env where
  "sample_downlink_env = \<lparr> de_lib = toy_lib, de_cfg = sample_config1, de_rt = sample_runtime, de_now_ms = 1000, de_now = 1000,
     de_alloc = True, de_tx = (\<lambda>li tq frame. True), de_arp_local = [arp_cache_empty [2, 0, 0, 0, 0, 3] 0],
     de_local_queues = [1], de_worker_index = 0, de_tx_base = 0 \<rparr>"

definition sample_downlink :: downlink where
  "sample_downlink = \<lparr> dl_st = sample_crypto 1, dl_pins = empty_pins, dl_frag_l2 = frag_table_init, dl_frag_l3 = frag_table_init,
     dl_frag_l4 = frag_table_init, dl_out = [], dl_arp_requests = [], dl_wan_to_local = 0, dl_dropped = 0, dl_bad_ip = 0,
     dl_no_local = 0, dl_tx_fail = 0, dl_used = (\<lambda>_. 0) \<rparr>"

lemma sample_downlink_runt:
  "\<exists>s'. wan_l3l4_packet sample_downlink_env (replicate 14 0) 14 sample_downlink = Some s' \<and> dl_dropped s' = 1"
proof -
  let ?p = "replicate 14 (0::u8)"
  have e: "ac_policies (de_cfg sample_downlink_env) \<noteq> []" "rt_enabled (de_rt sample_downlink_env)"
    "rt_layer (de_rt sample_downlink_env) = POLICY_ACTION_ENCRYPT_L3" "config_wan_bridge_mode (de_cfg sample_downlink_env)"
    by (simp_all add: sample_downlink_env_def sample_config1_def sample_runtime_def policy_consts config_wan_bridge_mode_def
        sample_config_def sample_wan_def)
  have off: "crypto_eth_ipv4_offset ?p 14 = Some (-1)" by (simp add: crypto_eth_ipv4_offset_def be16_of_def)
  have fl: "parse_flow ?p 14 = Some None" by (simp add: parse_flow_def off)
  have l3: "crypto_l3_extract_policy_id cfg st ?p 14 = Some None" for cfg st by (simp add: crypto_l3_extract_policy_id_def)
  define t where "t = sample_downlink\<lparr> dl_st := crypto_apply_default_from_cfg (de_cfg sample_downlink_env) (sample_crypto 1) \<rparr>"
  have p: "stage_l3_params sample_downlink_env ?p 14 sample_downlink = Some t"
    by (simp add: stage_l3_params_def e l3 t_def sample_downlink_def)
  have "g_fake_ethertype_ipv4 (dl_st t) = 0x88B5"
    by (simp add: t_def crypto_apply_default_from_cfg_def crypto_setters Let_def sample_downlink_env_def sample_config1_def
        sample_config_def sample_crypto_def)
  then have l2: "stage_l2_marked sample_downlink_env ?p 14 t = Some (Some (?p, 14), t)"
    by (simp add: stage_l2_marked_def hi8_def)
  have s3: "stage_l3 sample_downlink_env 14 ?p 14 t = Some ((Some (?p, 14), t), -1)"
    by (simp add: stage_l3_def frag_is_fragment_def frag_require_ipv4_def decrypt_packet_auto_by_action_def e
        crypto_decrypt_packet_auto_by_action_def l3 note_l3_policy_def policy_consts)
  have l4: "crypto_l4_extract_policy_id_ipv4 cfg ?p 14 = Some None" for cfg by (simp add: crypto_l4_extract_policy_id_ipv4_def off)
  have s4: "stage_l4 sample_downlink_env ssh 14 (-1) ?p 14 t = Some ((Some (?p, 14), t), -1)" for ssh
    by (simp add: stage_l4_def frag_is_fragment_l4_def decrypt_packet_auto_by_action_def e
        crypto_decrypt_packet_auto_by_action_def off l4 note_l4_policy_def policy_consts)
  have "dl_deliver sample_downlink_env ?p 14 t = Some (False, dl_no_interface sample_downlink_env 0 t)"
    by (simp add: dl_deliver_def get_dest_ip_def forwarder_rx_pick_local_def e bridge_wan_rx_normalize_eth_ipv4_def
        bridge_mac_local_for_dmac_def mac_is_valid_peer_def mac_is_zero_def list_all_iff)
  then have "wan_l3l4_packet sample_downlink_env ?p 14 sample_downlink = Some (dl_no_interface sample_downlink_env 0 t)"
    by (simp add: wan_l3l4_packet_def fl p l2 stages_l3l4_def e s3 s4 dl_pin_def)
  moreover have "dl_dropped (dl_no_interface sample_downlink_env 0 t) = 1"
    by (simp add: dl_no_interface_def dl_drop_def t_def sample_downlink_def)
  ultimately show ?thesis by blast
qed

theorem wan_packet_accounted_witness:
  "\<exists>s'. wan_l3l4_packet sample_downlink_env (replicate 14 0) 14 sample_downlink = Some s' \<and>
     dropped_one sample_downlink s' \<and> dl_dropped s' = 1"
proof -
  obtain s' where s': "wan_l3l4_packet sample_downlink_env (replicate 14 0) 14 sample_downlink = Some s'" "dl_dropped s' = 1"
    using sample_downlink_runt by blast
  have "dl_dropped sample_downlink = 0" "tables_ok sample_downlink" by (simp_all add: sample_downlink_def frag_table_init_ok)
  with wan_packet_accounted [OF disjI1 [OF s'(1)]] s'(2) have "dropped_one sample_downlink s'"
    by (auto simp: accounting waits_def waits_in_def)
  then show ?thesis using s' by blast
qed

end
