(* ===== verification/EndToEnd.thy ===== *)
theory EndToEnd
  imports Sender Downlink
begin

text \<open>
  A packet through both gateways: the worker of one (\<open>Uplink\<close>) and the WAN thread of the other
  (\<open>Downlink\<close>), for a layer 3 policy in bridge mode. The frame is what the first hands to its WAN ring; in
  the memory of the second it may be followed by anything.
\<close>

section \<open>The receiver\<close>

lemma rd_le32_total: "i + 4 \<le> length b \<Longrightarrow> \<exists>x. rd_le32 b i = Some x"
  by (simp add: rd_le32_def rd_def)

lemma parse_flow_ipv4:
  assumes "eth14_ipv4 e" "l3_hdr_ok h" "14 + length h + length d = n"
  shows "\<exists>fl. parse_flow (e @ h @ d @ z) n = Some fl"
proof -
  let ?b = "e @ h @ d @ z"
  have el: "length e = 14" "20 \<le> length h" using assms(1,2) by (simp_all add: eth14_ipv4_def l3_hdr_ok_def)
  have off: "crypto_eth_ipv4_offset ?b n = Some 14"
    using assms el by (simp add: crypto_eth_ipv4_offset_def rd_be16_type del: rd_be16_Some)
  have ih: "ip_ihl ?b 14 = Some (length h)" by (rule ip_ihl_parts [OF assms(2) el(1)])
  have len: "34 \<le> length ?b" "n \<le> length ?b" using el assms(3) by simp_all
  obtain x y p where r: "rd_le32 ?b 26 = Some x" "rd_le32 ?b 30 = Some y" "rd ?b 23 = Some p"
    using rd_le32_total [of 26 ?b] rd_le32_total [of 30 ?b] rd_total [of 23 ?b] len by fastforce
  have q: "14 + length h + 4 \<le> n \<Longrightarrow> \<exists>a b. rd_be16 ?b (14 + length h) = Some a \<and> rd_be16 ?b (14 + length h + 2) = Some b"
    using len by (simp add: rd_be16_def rd_def)
  show ?thesis
    using el q by (auto simp: parse_flow_def off ih r bind_eq_Some_conv simp del: rd_be16_Some)
qed

text \<open>What the theorem asks of the receiving gateway: policy \<open>i\<close> is \<open>cp\<close> with context \<open>ctx\<close>, published in the
  index under its id; its layer 3 policies share a nonce size, it has no layer 4 policy, it runs at
  layer 3 with a bridge WAN, and the marker of layer 2 frames differs from IPv4's type byte.\<close>

definition opens_l3 :: "downlink_env \<Rightarrow> nat \<Rightarrow> crypto_policy \<Rightarrow> packet_crypto_ctx \<Rightarrow> bool" where
  "opens_l3 env i cp ctx \<longleftrightarrow>
     rt_enabled (de_rt env) \<and> rt_layer (de_rt env) = POLICY_ACTION_ENCRYPT_L3 \<and>
     cp_action cp = POLICY_ACTION_ENCRYPT_L3 \<and> 0 < cp_nonce_size cp \<and>
     i < length (ac_policies (de_cfg env)) \<and> i < MAX_CRYPTO_POLICIES \<and> ac_policies (de_cfg env) ! i = cp \<and>
     l3_ids_ok (take MAX_CRYPTO_POLICIES (ac_policies (de_cfg env))) cp \<and>
     list_all (\<lambda>q. cp_action q \<noteq> POLICY_ACTION_ENCRYPT_L4) (ac_policies (de_cfg env)) \<and>
     rt_index (de_rt env) 3 (word_of_int (cp_id cp)) = int i \<and> rt_ready (de_rt env) ! i \<and> rt_ctx (de_rt env) ! i = ctx \<and>
     config_wan_bridge_mode (de_cfg env)"

lemma l4_scan_none:
  "list_all (\<lambda>q. cp_action q \<noteq> POLICY_ACTION_ENCRYPT_L4) cps \<Longrightarrow> l4_scan_policies b n off cps = Some None"
  "list_all (\<lambda>q. cp_action q \<noteq> POLICY_ACTION_ENCRYPT_L4) cps \<Longrightarrow>
    frag_scan b n POLICY_ACTION_ENCRYPT_L4 off magic hdr cps = Some None"
  by (induction cps) auto

lemma frag_scan_none:
  assumes "\<forall>q \<in> set cps. cp_action q = POLICY_ACTION_ENCRYPT_L3 \<longrightarrow> 0 < cp_nonce_size q \<longrightarrow>
     off + nat (cp_nonce_size q) + 1 < n \<longrightarrow> rd b (off + nat (cp_nonce_size q) + 1) = Some x" and "x \<noteq> magic"
  shows "frag_scan b n POLICY_ACTION_ENCRYPT_L3 off magic hdr cps = Some None"
  using assms by (induction cps) (auto simp: Let_def)

lemma l4_nothing:
  assumes e: "eth14_ipv4 e" "l3_hdr_ok h" "14 + length h \<le> n" "n \<le> length (e @ h @ z)"
    and no: "list_all (\<lambda>q. cp_action q \<noteq> POLICY_ACTION_ENCRYPT_L4) (ac_policies cfg)"
  shows "crypto_l4_extract_policy_id_ipv4 cfg (e @ h @ z) n = Some None"
    and "frag_is_fragment_l4 cfg st (e @ h @ z) n = Some None"
    and "ac_policies cfg \<noteq> [] \<Longrightarrow>
      crypto_decrypt_packet_auto_by_action lib True cfg dc POLICY_ACTION_ENCRYPT_L4 sc hs st (e @ h @ z) n = Some (0, st, e @ h @ z, n)"
proof -
  let ?b = "e @ h @ z"
  have el: "length e = 14" "20 \<le> length h" using e by (simp_all add: eth14_ipv4_def l3_hdr_ok_def)
  have off: "crypto_eth_ipv4_offset ?b n = Some 14"
    using e el by (simp add: crypto_eth_ipv4_offset_def rd_be16_type del: rd_be16_Some)
  have ih: "ip_ihl ?b 14 = Some (length h)" by (rule ip_ihl_parts [OF e(2) el(1)])
  have pr: "rd ?b 23 = Some (h ! 9)" using el by (simp add: rd_def nth_append)
  have tk: "list_all (\<lambda>q. cp_action q \<noteq> POLICY_ACTION_ENCRYPT_L4) (take MAX_CRYPTO_POLICIES (ac_policies cfg))"
    using no by (auto simp: list_all_iff dest: in_set_takeD)
  note sc = l4_scan_none [OF tk]
  show x: "crypto_l4_extract_policy_id_ipv4 cfg ?b n = Some None"
    using el by (simp add: crypto_l4_extract_policy_id_ipv4_def off ih pr sc Let_def)
  show "frag_is_fragment_l4 cfg st ?b n = Some None"
    using el by (simp add: frag_is_fragment_l4_def rd_be16_type [OF e(1)] ih pr sc Let_def)
  show "crypto_decrypt_packet_auto_by_action lib True cfg dc POLICY_ACTION_ENCRYPT_L4 sc hs st ?b n = Some (0, st, ?b, n)"
    if "ac_policies cfg \<noteq> []"
    using that el by (simp add: crypto_decrypt_packet_auto_by_action_def off ih pr x policy_consts)
qed

text \<open>The stages on a sealed packet: the parameters of its policy are installed, layer 2 does not look at it,
  it is not a fragment, layer 3 opens it, layer 4 finds nothing, and no inbound policy is noted, because
  the id is looked for in the packet that was already decrypted in place.\<close>

lemma downlink_opens_l3:
  assumes env: "opens_l3 env i cp ctx" and e: "eth14_ipv4 e" and H: "l3_hdr_ok H" "H ! 9 = g_fake_protocol (dl_st t)"
    and h: "l3_hdr_ok h" "length h = length H" "h ! 9 \<noteq> H ! 9" "h ! 9 \<noteq> CRYPTO_L3_FRAG_MAGIC"
    and st: "g_fake_protocol (dl_st t) \<noteq> 0" "g_nonce_size (dl_st t) \<le> nat (cp_nonce_size cp)"
      "hi8 (g_fake_ethertype_ipv4 (dl_st t)) \<noteq> 0x08"
    and nn: "length nn = nat (cp_nonce_size cp)"
    and L: "14 + length H + nat (cp_nonce_size cp) + 2 \<le> L" "L \<le> length (e @ H @ nn @ [word_of_int (cp_id cp), h ! 9] @ y @ z)"
      "L = 14 + length H + length nn + 2 + length y"
    and n: "n = 14 + length h + length d" "length (e @ H @ nn @ [word_of_int (cp_id cp), h ! 9] @ y @ z) = length (e @ h @ d @ rest)"
    and dec: "crypto_decrypt_packet_auto_by_action (de_lib env) True (de_cfg env) (dispatch_ctx env) POLICY_ACTION_ENCRYPT_L3
        8192 True (crypto_apply_from_policy cp (dl_st t)) (e @ H @ nn @ [word_of_int (cp_id cp), h ! 9] @ y @ z) L
      = Some (0, st', e @ h @ d @ rest, n)" "g_fake_protocol st' = g_fake_protocol (dl_st t)"
  shows "wan_l3l4_packet env (e @ H @ nn @ [word_of_int (cp_id cp), h ! 9] @ y @ z) L t
    = map_option snd (dl_deliver env (e @ h @ d @ rest) n (t\<lparr> dl_st := st' \<rparr>))"
proof -
  define w where "w = e @ H @ nn @ [word_of_int (cp_id cp), h ! 9] @ y @ z"
  define p where "p = e @ h @ d @ rest"
  let ?T = "crypto_apply_from_policy cp (dl_st t)"
  let ?ps = "take MAX_CRYPTO_POLICIES (ac_policies (de_cfg env))"
  have el: "length e = 14" "20 \<le> length H" "20 \<le> length h" using e H h by (simp_all add: eth14_ipv4_def l3_hdr_ok_def)
  have E: "rt_enabled (de_rt env)" "rt_layer (de_rt env) = POLICY_ACTION_ENCRYPT_L3"
    "cp_action cp = POLICY_ACTION_ENCRYPT_L3" "0 < cp_nonce_size cp" "ac_policies (de_cfg env) \<noteq> []"
    "l3_ids_ok ?ps cp" "cp \<in> set ?ps" "list_all (\<lambda>q. cp_action q \<noteq> POLICY_ACTION_ENCRYPT_L4) (ac_policies (de_cfg env))"
    using env nth_mem [of i ?ps] by (auto simp: opens_l3_def)
  have fT: "g_fake_protocol ?T = H ! 9" using H(2) st(1) by (simp add: apply_policy_fake_protocol)
  obtain fl where fl: "parse_flow w L = Some fl"
    using parse_flow_ipv4 [OF e H(1), of "nn @ [word_of_int (cp_id cp), h ! 9] @ y" L z] L(3) by (auto simp: w_def)
  have ext: "crypto_l3_extract_policy_id (de_cfg env) (dl_st t) w L = Some (Some (word_of_int (cp_id cp)))"
    unfolding w_def
    by (rule l3_extract_parts) (use e H st E nn L(1) in simp_all)
  have res: "resolve_ctx env POLICY_ACTION_ENCRYPT_L3 (word_of_int (cp_id cp)) None (dl_st t) = Some (ctx, ?T)"
    using env by (simp add: resolve_ctx_def indexed_ctx_def opens_l3_def policy_consts)
  have params: "stage_l3_params env w L t = Some (t\<lparr> dl_st := ?T \<rparr>)"
    by (simp add: stage_l3_params_def E ext res)
  have m: "e ! 12 = 0x08"
    using e be16_hi8 [of "e ! 12" "e ! 13"] by (simp add: eth14_ipv4_def hi8_def)
  have "rd w 12 = Some 0x08" using el m by (simp add: w_def rd_def nth_append)
  then have l2: "stage_l2_marked env w L (t\<lparr> dl_st := ?T \<rparr>) = Some (Some (w, L), t\<lparr> dl_st := ?T \<rparr>)"
    using st(3) by (auto simp: stage_l2_marked_def)
  have mg: "rd w (14 + length H + nat (cp_nonce_size cp) + 1) = Some (h ! 9)"
    using rd_mid [of "14 + length H + nat (cp_nonce_size cp) + 1" "e @ H @ nn @ [word_of_int (cp_id cp)]" "h ! 9" "y @ z"] el nn
    by (simp add: w_def)
  have "frag_scan w L POLICY_ACTION_ENCRYPT_L3 (14 + length H) CRYPTO_L3_FRAG_MAGIC k ?ps = Some None" for k
  proof (rule frag_scan_none [OF _ h(4)], intro ballI impI)
    fix q assume "q \<in> set ?ps" "cp_action q = POLICY_ACTION_ENCRYPT_L3"
    then have "cp_nonce_size q = cp_nonce_size cp" using E(6) by (simp add: l3_ids_ok_def)
    then show "rd w (14 + length H + nat (cp_nonce_size q) + 1) = Some (h ! 9)" using mg by simp
  qed
  moreover have "frag_require_ipv4 w L = Some (Some (length H))"
    using el L(3) ip_ihl_parts [OF H(1) el(1), of "nn @ [word_of_int (cp_id cp), h ! 9] @ y @ z"]
    by (simp add: frag_require_ipv4_def w_def rd_be16_type [OF e] del: rd_be16_Some)
  moreover have "rd w 23 = Some (H ! 9)" using el by (simp add: w_def rd_def nth_append)
  ultimately have nofrag: "frag_is_fragment (de_cfg env) ?T w L = Some None"
    by (simp add: frag_is_fragment_def Let_def)
  have lp: "14 + length h \<le> n" "n \<le> length (e @ h @ d @ rest)" "L \<le> length (e @ h @ d @ rest)" "14 + length h \<le> L"
    using n L el h(2) by simp_all
  have "rd p 23 = Some (h ! 9)" "ip_ihl p 14 = Some (length h)"
    using el ip_ihl_parts [OF h(1) el(1)] by (simp_all add: p_def rd_def nth_append)
  moreover have "h ! 9 \<noteq> (if g_fake_protocol st' = 0 then 99 else g_fake_protocol st')" using h(3) H(2) st(1) dec(2) by simp
  ultimately have "crypto_l3_extract_policy_id (de_cfg env) st' p L = Some None"
    by (simp add: crypto_l3_extract_policy_id_def p_def rd_be16_type [OF e] del: rd_be16_Some)
  then have note3: "note_l3_policy env st' p L (-1) = Some (-1)" by (simp add: note_l3_policy_def)
  have s3: "stage_l3 env L w L (t\<lparr> dl_st := ?T \<rparr>) = Some ((Some (p, n), t\<lparr> dl_st := st' \<rparr>), -1)"
    by (simp add: stage_l3_def nofrag decrypt_packet_auto_by_action_def E(1) dec(1) [folded w_def p_def] note3)
  note l4 = l4_nothing [OF e h(1) lp(1,2) E(8), folded p_def]
  note l4L = l4_nothing [OF e h(1) lp(4,3) E(8), folded p_def]
  have s4: "stage_l4 env ssh L (-1) p n (t\<lparr> dl_st := st' \<rparr>) = Some ((Some (p, n), t\<lparr> dl_st := st' \<rparr>), -1)" for ssh
    by (simp add: stage_l4_def l4(2) decrypt_packet_auto_by_action_def E(1) l4(3) [OF E(5)] note_l4_policy_def l4L(1))
  show ?thesis
    unfolding w_def [symmetric] p_def [symmetric]
    by (simp add: wan_l3l4_packet_def fl params l2 stages_l3l4_def E(1) s3 s4 dl_pin_def)
qed

lemma bridge_deliver:
  assumes br: "config_wan_bridge_mode (de_cfg env)" and e: "eth14_ipv4 e" "l3_hdr_ok h" and n: "n = 14 + length h + length d"
    and li: "mac_is_valid_peer (take 6 e)"
      "first_index (\<lambda>l. \<not> mac_is_zero (lc_dst_mac l) \<and> take 6 e = lc_dst_mac l) 0 (ac_locals (de_cfg env)) = int li"
  shows "\<exists>fl. dl_deliver env (e @ h @ d @ rest) n s = Some (False, dl_transmit env li fl (e @ h @ d) s)"
proof -
  define p where "p = e @ h @ d @ rest"
  have el: "length e = 14" "20 \<le> length h" using e by (simp_all add: eth14_ipv4_def l3_hdr_ok_def)
  obtain fl where fl: "parse_flow p n = Some fl" using parse_flow_ipv4 [OF e, of d n rest] n by (auto simp: p_def)
  have ty: "rd_be16 p 12 = Some 0x0800" unfolding p_def by (rule rd_be16_type [OF e(1)])
  obtain dest where dest: "get_dest_ip p n = Some dest"
  proof -
    have "30 + 4 \<le> length p" using el by (simp add: p_def)
    from rd_le32_total [OF this] obtain x where "rd_le32 p 30 = Some x" by blast
    then have "get_dest_ip p n = Some x" using el n by (simp add: get_dest_ip_def ty del: rd_be16_Some)
    then show thesis by (rule that)
  qed
  have norm: "bridge_wan_rx_normalize_eth_ipv4 st p n = Some p" for st
    by (simp add: bridge_wan_rx_normalize_eth_ipv4_def ty del: rd_be16_Some)
  have d6: "rdn p 0 6 = Some (take 6 e)" using el by (simp add: p_def)
  have loc: "bridge_mac_local_for_dmac (de_cfg env) p n = Some (int li)"
    using el n li by (simp add: bridge_mac_local_for_dmac_def d6)
  have "li < length (ac_locals (de_cfg env))"
    using first_index_some [of 0 "\<lambda>l. \<not> mac_is_zero (lc_dst_mac l) \<and> take 6 e = lc_dst_mac l" "ac_locals (de_cfg env)"] li(2)
    by auto
  then have "set_local_l2_addrs (de_cfg env) (de_arp_local env) (int li) dest p = Some (0, None, p)"
    using br by (simp add: set_local_l2_addrs_def)
  moreover have "rdn p 0 n = Some (e @ h @ d)" using el n by (simp add: p_def)
  ultimately have "dl_deliver env p n s = Some (False, dl_transmit env li fl (e @ h @ d) s)"
    by (simp add: dl_deliver_def dest forwarder_rx_pick_local_def br norm loc dl_to_local_def fl)
  then show ?thesis unfolding p_def by blast
qed

text \<open>The two ends of the tunnel: what the sender seals, and what the receiver makes of it, whatever follows it in memory.\<close>

lemma tunnel_seal_open:
  assumes se: "seals_l3 env wan i cp ctx" and op: "opens_l3 denv j cp ctx"
    and ready: "crypto_ready (crypto_apply_from_policy cp (ul_st s)) ctx" "crypto_ready (crypto_apply_from_policy cp (dl_st t)) ctx"
    and st: "g_fake_protocol (ul_st s) \<noteq> 0" "g_fake_protocol (dl_st t) = g_fake_protocol (ul_st s)"
      "g_nonce_size (dl_st t) \<le> nat (cp_nonce_size cp)"
    and pkt: "eth14_ipv4 e" "l3_hdr_ok h" "d \<noteq> []" "length h + length d < 2 ^ 29" "l3_no_magic (nat (cp_nonce_size cp)) d"
    and room: "nat (cp_nonce_size cp) + 2 + gcm_tag_len (crypto_apply_from_policy cp (ul_st s)) \<le> length r"
    and hdr: "h ! 9 \<noteq> CRYPTO_L3_FRAG_MAGIC" "is_gcm (crypto_apply_from_policy cp (dl_st t)) \<or> l3_plain_ok (h ! 9) d"
      "h = patch_hdr h (be16_of (h ! 2) (h ! 3))"
  defines "S \<equiv> crypto_apply_from_policy cp (ul_st s)"
  defines "ov \<equiv> nat (cp_nonce_size cp) + 2 + gcm_tag_len S" and "H \<equiv> l3_enc_hdr S h" and "n \<equiv> 14 + length h + length d"
  obtains st' nn y where "crypto_layer3_encrypt (ue_lib env) ctx S (e @ h @ d @ r) n =
        Some (int (n + ov), st', e @ H @ take (nat (cp_nonce_size cp)) nn @ [word_of_int (cp_id cp), h ! 9] @ y @ drop ov r)"
    "length nn = 16" "length y = length d + gcm_tag_len S"
    "\<And>z. \<exists>u rest. crypto_decrypt_packet_auto_by_action (ue_lib env) True (de_cfg denv) (dispatch_ctx denv)
           POLICY_ACTION_ENCRYPT_L3 8192 True (crypto_apply_from_policy cp (dl_st t))
           (e @ H @ take (nat (cp_nonce_size cp)) nn @ [word_of_int (cp_id cp), h ! 9] @ y @ z) (n + ov)
         = Some (0, u, e @ h @ fix_seg h d (h ! 9) @ rest, n) \<and> g_fake_protocol u = g_fake_protocol (ul_st s)
         \<and> length rest = ov + length z"
proof -
  have a: "crypto_ready (crypto_apply_from_policy cp (crypto_apply_from_policy cp (dl_st t))) ctx"
    "is_gcm (crypto_apply_from_policy cp (crypto_apply_from_policy cp (dl_st t))) \<or> l3_plain_ok (h ! 9) d"
    using ready(2) hdr(2) by (simp_all only: apply_policy_idem)
  have b: "g_fake_protocol (crypto_apply_from_policy cp (dl_st t)) = g_fake_protocol (ul_st s)"
    "g_nonce_size (crypto_apply_from_policy cp (dl_st t)) \<le> nat (cp_nonce_size cp)"
    using st by (simp_all add: apply_policy_fake_protocol)
  have c: "evp_ok (ue_lib env)" "cp_action cp = POLICY_ACTION_ENCRYPT_L3" "0 < cp_nonce_size cp"
    using se by (simp_all add: seals_l3_def)
  have d: "ac_policies (de_cfg denv) = dc_policies (dispatch_ctx denv)" "j < length (dc_policies (dispatch_ctx denv))"
    "dc_policies (dispatch_ctx denv) ! j = cp" "j < MAX_CRYPTO_POLICIES"
    "l3_ids_ok (take MAX_CRYPTO_POLICIES (dc_policies (dispatch_ctx denv))) cp"
    "dc_index (dispatch_ctx denv) 3 (word_of_int (cp_id cp)) = int j" "dc_per_policy_ready (dispatch_ctx denv) ! j"
    "dc_per_policy_ctx (dispatch_ctx denv) ! j = ctx"
    using op by (simp_all add: opens_l3_def dispatch_ctx_def Let_def)
  have r: "g_nonce_size (crypto_apply_from_policy cp (ul_st s)) + 2 + gcm_tag_len (crypto_apply_from_policy cp (ul_st s)) \<le> length r"
    using room ready(1) by (simp add: crypto_ready_def)
  from l3_end_to_end [OF c(1) ready(1) a(1) st(1) b c(2,3) d pkt r hdr(1) a(2) hdr(3), of 8192 True,
      folded S_def, folded ov_def H_def n_def]
  show thesis using pkt(1) that by blast
qed

lemma tunnel_receive:
  assumes op: "opens_l3 denv j cp ctx" and e: "eth14_ipv4 e" and H: "l3_hdr_ok H" "H ! 9 = g_fake_protocol (dl_st t)"
    and h: "l3_hdr_ok h" "length h = length H" "h ! 9 \<noteq> H ! 9" "h ! 9 \<noteq> CRYPTO_L3_FRAG_MAGIC"
    and st: "g_fake_protocol (dl_st t) \<noteq> 0" "g_nonce_size (dl_st t) \<le> nat (cp_nonce_size cp)"
      "hi8 (g_fake_ethertype_ipv4 (dl_st t)) \<noteq> 0x08"
    and nn: "length nn = nat (cp_nonce_size cp)"
    and n: "n = 14 + length h + length d'" "length rest + length d' = length nn + 2 + length y + length z"
    and peer: "mac_is_valid_peer (take 6 e)" "\<And>tq fr. de_tx denv li tq fr" "length (lc_src_mac (ac_locals (de_cfg denv) ! li)) = 6"
      "first_index (\<lambda>l. \<not> mac_is_zero (lc_dst_mac l) \<and> take 6 e = lc_dst_mac l) 0 (ac_locals (de_cfg denv)) = int li"
  defines "w \<equiv> e @ H @ nn @ [word_of_int (cp_id cp), h ! 9] @ y"
  assumes dec: "crypto_decrypt_packet_auto_by_action (de_lib denv) True (de_cfg denv) (dispatch_ctx denv) POLICY_ACTION_ENCRYPT_L3
      8192 True (crypto_apply_from_policy cp (dl_st t)) (w @ z) (length w) = Some (0, u, e @ h @ d' @ rest, n)"
      "g_fake_protocol u = g_fake_protocol (dl_st t)"
  shows "\<exists>t' q frame. wan_l3l4_packet denv (w @ z) (length w) t = Some t' \<and> dl_out t' = dl_out t @ [(li, q, frame)] \<and>
    drop 12 frame = drop 12 (e @ h @ d') \<and> dl_pins t' = dl_pins t"
proof -
  have el: "length e = 14" using e by (simp add: eth14_ipv4_def)
  have L: "14 + length H + nat (cp_nonce_size cp) + 2 \<le> length w" "length w = 14 + length H + length nn + 2 + length y"
    "length w \<le> length (e @ H @ nn @ [word_of_int (cp_id cp), h ! 9] @ y @ z)"
    "length (e @ H @ nn @ [word_of_int (cp_id cp), h ! 9] @ y @ z) = length (e @ h @ d' @ rest)"
    using nn el n(2) h(2) by (simp_all add: w_def)
  have run: "wan_l3l4_packet denv (w @ z) (length w) t
      = map_option snd (dl_deliver denv (e @ h @ d' @ rest) n (t\<lparr> dl_st := u \<rparr>))"
    using downlink_opens_l3 [OF op e H h st nn L(1,3,2) n(1) L(4) dec(1) [unfolded w_def append_assoc, folded w_def] dec(2)]
    by (simp add: w_def)
  have br: "config_wan_bridge_mode (de_cfg denv)" using op by (simp add: opens_l3_def)
  obtain fl where "dl_deliver denv (e @ h @ d' @ rest) n (t\<lparr> dl_st := u \<rparr>)
      = Some (False, dl_transmit denv li fl (e @ h @ d') (t\<lparr> dl_st := u \<rparr>))"
    using bridge_deliver [OF br e h(1) n(1) peer(1,4)] by blast
  moreover have "length (lc_dst_mac (ac_locals (de_cfg denv) ! li)) = 6"
  proof -
    have "first_index (\<lambda>l. \<not> mac_is_zero (lc_dst_mac l) \<and> take 6 e = lc_dst_mac l) 0 (ac_locals (de_cfg denv)) \<noteq> -1"
      unfolding peer(4) by simp
    from first_index_some [OF order_refl this] have "take 6 e = lc_dst_mac (ac_locals (de_cfg denv) ! li)"
      unfolding peer(4) by auto
    then have "length (lc_dst_mac (ac_locals (de_cfg denv) ! li)) = length (take 6 e)" by simp
    then show ?thesis using el by simp
  qed
  ultimately show ?thesis
    using run peer(2) wire_frame_body [OF _ peer(3)] by (simp add: dl_transmit_def Let_def)
qed

text \<open>C1: the tunnel delivers. An IPv4 packet of a flow whose policy is a layer 3 policy leaves the sending
  gateway as one frame on the chosen WAN; the WAN thread of the receiving gateway, which has the policy
  with the same key anywhere in its list, turns that frame, whatever follows it in memory, into the
  original packet (its TCP or UDP checksum recomputed) and sends it on the local interface that the
  destination MAC address names. The receiver learns no policy pin from the packet: the code looks for
  the policy id in the buffer it has already decrypted.\<close>

theorem tunnel_delivers:
  assumes "seals_l3 env wan i cp ctx" "opens_l3 denv j cp ctx" "de_lib denv = ue_lib env"
    and "crypto_ready (crypto_apply_from_policy cp (ul_st s)) ctx" "crypto_ready (crypto_apply_from_policy cp (dl_st t)) ctx"
    and "g_fake_protocol (ul_st s) \<noteq> 0" "g_fake_protocol (dl_st t) = g_fake_protocol (ul_st s)"
    and "g_nonce_size (dl_st t) \<le> nat (cp_nonce_size cp)" "hi8 (g_fake_ethertype_ipv4 (dl_st t)) \<noteq> 0x08"
    and "pj_has_fwd job" "pj_pkt job = e @ h @ d @ r" "pj_pkt_len job = 14 + length h + length d"
    and "parse_flow (pj_pkt job) (pj_pkt_len job) = Some (Some f)"
    and "ul_select_wan env (pj_local_idx job) (pj_pkt job) (pj_pkt_len job) (Some f) s = Some (wan, s1)"
    and "fst (worker_policy env (pj_local_idx job) f s1) = Some i"
    and "\<not> frag_need_split (crypto_apply_from_policy cp (ul_st s)) (pj_pkt_len job)"
    and "eth14_ipv4 e" "l3_hdr_ok h" "d \<noteq> []" "length h + length d < 2 ^ 29" "l3_no_magic (nat (cp_nonce_size cp)) d"
    and "nat (cp_nonce_size cp) + 2 + gcm_tag_len (crypto_apply_from_policy cp (ul_st s)) \<le> length r"
    and "h ! 9 \<noteq> CRYPTO_L3_FRAG_MAGIC" "h ! 9 \<noteq> g_fake_protocol (ul_st s)"
    and "is_gcm (crypto_apply_from_policy cp (dl_st t)) \<or> l3_plain_ok (h ! 9) d" "h = patch_hdr h (be16_of (h ! 2) (h ! 3))"
    and "mac_is_valid_peer (take 6 e)" "\<And>tq fr. de_tx denv li tq fr" "length (lc_src_mac (ac_locals (de_cfg denv) ! li)) = 6"
    and "first_index (\<lambda>l. \<not> mac_is_zero (lc_dst_mac l) \<and> take 6 e = lc_dst_mac l) 0 (ac_locals (de_cfg denv)) = int li"
  shows "\<exists>s' tq w. worker_packet env job s = Some s' \<and> ul_sent s' = ul_sent s @ [(wan, tq, w)] \<and>
     (\<forall>z. \<exists>t' q frame. wan_l3l4_packet denv (w @ z) (length w) t = Some t' \<and> dl_out t' = dl_out t @ [(li, q, frame)] \<and>
        drop 12 frame = drop 12 (e @ h @ fix_seg h d (h ! 9)) \<and> dl_pins t' = dl_pins t)"
proof -
  define S where "S = crypto_apply_from_policy cp (ul_st s)"
  define ov where "ov = nat (cp_nonce_size cp) + 2 + gcm_tag_len S"
  define H where "H = l3_enc_hdr S h"
  define n where "n = 14 + length h + length d"
  obtain st' nn y where enc: "crypto_layer3_encrypt (ue_lib env) ctx S (e @ h @ d @ r) n =
        Some (int (n + ov), st', e @ H @ take (nat (cp_nonce_size cp)) nn @ [word_of_int (cp_id cp), h ! 9] @ y @ drop ov r)"
      and nn: "length nn = 16" and y: "length y = length d + gcm_tag_len S"
      and dec: "\<And>z. \<exists>u rest. crypto_decrypt_packet_auto_by_action (ue_lib env) True (de_cfg denv) (dispatch_ctx denv)
           POLICY_ACTION_ENCRYPT_L3 8192 True (crypto_apply_from_policy cp (dl_st t))
           (e @ H @ take (nat (cp_nonce_size cp)) nn @ [word_of_int (cp_id cp), h ! 9] @ y @ z) (n + ov)
         = Some (0, u, e @ h @ fix_seg h d (h ! 9) @ rest, n) \<and> g_fake_protocol u = g_fake_protocol (ul_st s)
         \<and> length rest = ov + length z"
    using tunnel_seal_open [OF assms(1,2,4-8,17-23,25,26), folded S_def, folded ov_def H_def n_def] by blast
  have gS: "nat (cp_nonce_size cp) \<le> 16" using assms(4) by (simp add: crypto_ready_def)
  have Hf: "length h = length H" "l3_hdr_ok H" "H ! 9 = g_fake_protocol (dl_st t)" "h ! 9 \<noteq> H ! 9" "g_fake_protocol (dl_st t) \<noteq> 0"
    using l3_enc_hdr_facts [OF assms(18), of S] assms(6,7,24) by (simp_all add: H_def S_def apply_policy_fake_protocol)
  define w where "w = e @ H @ take (nat (cp_nonce_size cp)) nn @ [word_of_int (cp_id cp), h ! 9] @ y"
  have nl: "length (take (nat (cp_nonce_size cp)) nn) = nat (cp_nonce_size cp)" using nn gS by simp
  have lw: "length w = n + ov" "length e = 14" using assms(17) Hf(1) y nl by (simp_all add: eth14_ipv4_def w_def n_def ov_def)
  have "\<exists>s'. worker_packet env job s = Some s' \<and>
     ul_sent s' = ul_sent s @ [(wan, ul_tx_queue env (pj_tx_queue_base job) wan, take (n + ov) (w @ drop ov r))]"
    by (rule worker_seals_l3 [OF assms(1,10,13) _ assms(14-16), where st' = st'])
      (use enc assms(11,12) lw in \<open>simp_all add: w_def S_def n_def\<close>)
  then obtain s' where s': "worker_packet env job s = Some s'"
    "ul_sent s' = ul_sent s @ [(wan, ul_tx_queue env (pj_tx_queue_base job) wan, w)]" using lw by auto
  have "\<exists>t' q frame. wan_l3l4_packet denv (w @ z) (length w) t = Some t' \<and> dl_out t' = dl_out t @ [(li, q, frame)] \<and>
        drop 12 frame = drop 12 (e @ h @ fix_seg h d (h ! 9)) \<and> dl_pins t' = dl_pins t" for z
  proof -
    obtain u rest where u: "crypto_decrypt_packet_auto_by_action (de_lib denv) True (de_cfg denv) (dispatch_ctx denv)
           POLICY_ACTION_ENCRYPT_L3 8192 True (crypto_apply_from_policy cp (dl_st t)) (w @ z) (length w)
         = Some (0, u, e @ h @ fix_seg h d (h ! 9) @ rest, n)" "g_fake_protocol u = g_fake_protocol (dl_st t)"
      "length rest = ov + length z"
      using dec [of z] assms(3,7) lw by (auto simp: w_def)
    show ?thesis
      unfolding w_def
      by (rule tunnel_receive [OF assms(2,17) Hf(2,3) assms(18) Hf(1,4) assms(23) Hf(5) assms(8,9) nl _ _ assms(27-30)
            u(1) [unfolded w_def] u(2)])
        (use u(3) y nl in \<open>simp_all add: n_def ov_def\<close>)
  qed
  then show ?thesis using s' by blast
qed

section \<open>A packet through the tunnel\<close>

theorem tunnel_delivers_witness:
  "\<exists>s' tq w. worker_packet bridge_uplink_env tunnel_job sample_uplink = Some s' \<and> ul_sent s' = [(0, tq, w)] \<and>
     (\<forall>z. \<exists>t' q frame. wan_l3l4_packet sample_downlink_env (w @ z) (length w) sample_downlink = Some t' \<and>
        dl_out t' = [(0, q, frame)] \<and>
        drop 12 frame = drop 12 (tunnel_eth @ tunnel_hdr @ fix_seg tunnel_hdr tunnel_data (tunnel_hdr ! 9)))"
proof -
  have st: "ul_st sample_uplink = sample_crypto 1" "dl_st sample_downlink = sample_crypto 1" "ul_sent sample_uplink = []"
    "dl_out sample_downlink = []"
    by (simp_all add: sample_uplink_def sample_downlink_def)
  have cfg: "de_cfg sample_downlink_env = sample_config1" by (simp add: sample_downlink_env_def)
  note cfg = cfg tunnel_config
  have rcv: "opens_l3 sample_downlink_env 0 tunnel_policy tunnel_ctx"
    by (simp add: opens_l3_def cfg MAX_CRYPTO_POLICIES_def l3_ids_ok_def)
      (simp add: sample_downlink_env_def sample_runtime_def sample_policy_def policy_consts config_wan_bridge_mode_def
         sample_config1_def sample_config_def sample_wan_def)
  have libs: "de_lib sample_downlink_env = ue_lib bridge_uplink_env"
    by (simp add: sample_downlink_env_def bridge_uplink_env_def sample_uplink_env_def)
  have fake: "g_fake_protocol (sample_crypto 1) = 99" "g_nonce_size (sample_crypto 1) = 12" "g_fake_ethertype_ipv4 (sample_crypto 1) = 0x88B5"
    by (simp_all add: sample_crypto_def crypto_state_init_def)
  have pol: "cp_nonce_size tunnel_policy = 12" by (simp add: sample_policy_def)
  have tag: "gcm_tag_len (crypto_apply_from_policy tunnel_policy (sample_crypto 1)) \<le> 16"
    by (simp add: gcm_tag_len_def AES128_GCM_TAG_SIZE_def)
  have h9: "tunnel_hdr ! 9 = 6" by (simp add: tunnel_hdr_def patch_hdr_nth) (simp add: sample_ip_def)
  have hdr: "l3_hdr_ok tunnel_hdr" "tunnel_hdr = patch_hdr tunnel_hdr (be16_of (tunnel_hdr ! 2) (tunnel_hdr ! 3))"
    by (simp_all add: l3_hdr_ok_def tunnel_hdr_def patch_hdr_totlen patch_hdr_nth)
  have gcm: "is_gcm (crypto_apply_from_policy tunnel_policy (dl_st sample_downlink)) \<or> l3_plain_ok (tunnel_hdr ! 9) tunnel_data"
    by (simp add: is_gcm_def sample_policy_def policy_consts)
  have mac: "mac_is_valid_peer (take 6 tunnel_eth)"
    by (simp add: tunnel_eth_def mac_is_valid_peer_def mac_is_zero_def mac_is_broadcast_def mac_is_multicast_def)
  have eth: "eth14_ipv4 tunnel_eth" by (simp add: eth14_ipv4_def tunnel_eth_def be16_of_def)
  have nomagic: "l3_no_magic (nat (cp_nonce_size tunnel_policy)) tunnel_data"
    by (simp add: l3_no_magic_def pol tunnel_data_def CRYPTO_L3_FRAG_MAGIC_def) (simp add: sample_ip_def)
  have nosplit: "\<not> frag_need_split (crypto_apply_from_policy tunnel_policy (ul_st sample_uplink)) (pj_pkt_len tunnel_job)"
    using tag by (simp add: frag_need_split_def crypto_layer3_frag_meta_len_def FRAG_MTU_def st fake
        packet_crypto_get_tunnel_hdr_size_def pol FRAG_HDR_SIZE_def)
  have "\<exists>s' tq w. worker_packet bridge_uplink_env tunnel_job sample_uplink = Some s' \<and> ul_sent s' = ul_sent sample_uplink @ [(0, tq, w)] \<and>
     (\<forall>z. \<exists>t' q frame. wan_l3l4_packet sample_downlink_env (w @ z) (length w) sample_downlink = Some t' \<and>
        dl_out t' = dl_out sample_downlink @ [(0, q, frame)] \<and>
        drop 12 frame = drop 12 (tunnel_eth @ tunnel_hdr @ fix_seg tunnel_hdr tunnel_data (tunnel_hdr ! 9)) \<and>
        dl_pins t' = dl_pins sample_downlink)"
  proof (rule tunnel_delivers [OF tunnel_seals rcv libs])
    show "parse_flow (pj_pkt tunnel_job) (pj_pkt_len tunnel_job) = Some (Some sample_flow)" by (simp add: tunnel_parse)
    show "ul_select_wan bridge_uplink_env (pj_local_idx tunnel_job) (pj_pkt tunnel_job) (pj_pkt_len tunnel_job) (Some sample_flow) sample_uplink
      = Some (0, sample_uplink\<lparr> ul_wan := (ul_wan sample_uplink)\<lparr> wch_seq := 1 \<rparr> \<rparr>)" by (simp add: tunnel_select)
    show "fst (worker_policy bridge_uplink_env (pj_local_idx tunnel_job) sample_flow
      (sample_uplink\<lparr> ul_wan := (ul_wan sample_uplink)\<lparr> wch_seq := 1 \<rparr> \<rparr>)) = Some 0" by (simp add: tunnel_policy_of_flow)
    show "first_index (\<lambda>l. \<not> mac_is_zero (lc_dst_mac l) \<and> take 6 tunnel_eth = lc_dst_mac l) 0 (ac_locals (de_cfg sample_downlink_env)) = int 0"
      by (simp add: cfg sample_local_def tunnel_eth_def mac_is_zero_def)
    show "tunnel_data \<noteq> []" using tunnel_lengths(3) by fastforce
    show "length (lc_src_mac (ac_locals (de_cfg sample_downlink_env) ! 0)) = 6" by (simp add: cfg sample_local_def)
    show "de_tx sample_downlink_env 0 tq fr" for tq fr by (simp add: sample_downlink_env_def)
    show "pj_pkt tunnel_job = tunnel_eth @ tunnel_hdr @ tunnel_data @ replicate 30 0" by simp
  qed (use hdr eth nomagic nosplit mac gcm tunnel_ready tag in \<open>simp_all add: st fake pol h9 CRYPTO_L3_FRAG_MAGIC_def hi8_def\<close>)
  then show ?thesis by (simp only: st append_Nil) blast
qed

end
