(* ===== verification/CText.thy ===== *)
theory CText
  imports Config
begin

text \<open>
  The text handling of the configuration code: what \<open>src/db/config.c\<close>, \<open>src/db/db_config.c\<close>,
  \<open>src/core/bridge_mac.c\<close> and \<open>src/main.c\<close> use of the C library (\<open>strtol\<close>, \<open>atoi\<close>, \<open>sscanf\<close> with \<open>%d\<close> and \<open>%x\<close>,
  \<open>strcasecmp\<close>, \<open>strtok_r\<close>, \<open>inet_pton\<close>), and the parsers of \<open>src/db/config.c\<close> for MAC addresses, networks
  and keys. A C string is the list of its characters before the NUL.
\<close>

section \<open>Characters\<close>

definition code :: "char \<Rightarrow> nat" where "code c = of_char c"

definition is_blank :: "char \<Rightarrow> bool" where "is_blank c = (code c = 32 \<or> code c = 9)"
definition is_space :: "char \<Rightarrow> bool" where "is_space c = (code c = 32 \<or> 9 \<le> code c \<and> code c \<le> 13)"
definition is_digit :: "char \<Rightarrow> bool" where "is_digit c = (48 \<le> code c \<and> code c \<le> 57)"

definition is_xdigit :: "char \<Rightarrow> bool" where
  "is_xdigit c = (is_digit c \<or> 65 \<le> code c \<and> code c \<le> 70 \<or> 97 \<le> code c \<and> code c \<le> 102)"

definition xdigit_val :: "char \<Rightarrow> nat" where
  "xdigit_val c = (if code c \<le> 57 then code c - 48 else if code c \<le> 70 then code c - 55 else code c - 87)"

definition lower_char :: "char \<Rightarrow> char" where
  "lower_char c = (if 65 \<le> code c \<and> code c \<le> 90 then char_of (code c + 32) else c)"

definition strcaseeq :: "string \<Rightarrow> string \<Rightarrow> bool" where
  "strcaseeq a b = (map lower_char a = map lower_char b)"

definition skip_blanks :: "string \<Rightarrow> string" where "skip_blanks = dropWhile is_blank"

definition str_bytes :: "string \<Rightarrow> u8 list" where "str_bytes s = map (\<lambda>c. word_of_nat (code c)) s"

section \<open>Numbers\<close>

definition digits_val :: "nat \<Rightarrow> string \<Rightarrow> nat" where
  "digits_val base ds = foldl (\<lambda>a c. base * a + xdigit_val c) 0 ds"

text \<open>An optional sign, as \<open>strtol\<close> and \<open>sscanf\<close> accept it.\<close>

definition scan_sign :: "string \<Rightarrow> bool \<times> string" where
  "scan_sign s = (case s of [] \<Rightarrow> (False, []) | c # r \<Rightarrow>
     if c = CHR ''-'' then (True, r) else if c = CHR ''+'' then (False, r) else (False, s))"

text \<open>\<open>strtol\<close> with base 10: the value, clamped to \<open>long\<close>, and the rest; \<open>None\<close> when there is no digit.\<close>

definition scan_long :: "string \<Rightarrow> (int \<times> string) option" where
  "scan_long s =
     (let (neg, t) = scan_sign (dropWhile is_space s); ds = takeWhile is_digit t; v = int (digits_val 10 ds)
      in if ds = [] then None
         else Some (max (- (2 ^ 63)) (min (2 ^ 63 - 1) (if neg then - v else v)), dropWhile is_digit t))"

definition c_atoi :: "string \<Rightarrow> int" where
  "c_atoi s = (case scan_long s of None \<Rightarrow> 0 | Some (v, _) \<Rightarrow> c_int v)"

text \<open>\<open>sscanf\<close> with \<open>%d\<close>.\<close>

definition scan_d :: "string \<Rightarrow> (int \<times> string) option" where
  "scan_d s = map_option (\<lambda>(v, r). (c_int v, r)) (scan_long s)"

text \<open>\<open>sscanf\<close> with \<open>%x\<close>, optionally at most \<open>w\<close> characters wide.\<close>

definition hex_prefix :: "string \<Rightarrow> bool" where
  "hex_prefix s = (length s \<ge> 2 \<and> s ! 0 = CHR ''0'' \<and> (s ! 1 = CHR ''x'' \<or> s ! 1 = CHR ''X''))"

definition scan_x :: "nat option \<Rightarrow> string \<Rightarrow> (int \<times> string) option" where
  "scan_x w s =
     (let s = dropWhile is_space s; f = (case w of None \<Rightarrow> s | Some n \<Rightarrow> take n s);
          (neg, t) = scan_sign f; t = (if hex_prefix t then drop 2 t else t); ds = takeWhile is_xdigit t;
          v = int (digits_val 16 ds); used = length f - length (dropWhile is_xdigit t)
      in if ds = [] then None
         else Some (if v \<ge> 2 ^ 64 then 2 ^ 32 - 1 else (if neg then - v else v) mod 2 ^ 32, drop used s))"

definition expect :: "char \<Rightarrow> string \<Rightarrow> string option" where
  "expect c s = (case s of [] \<Rightarrow> None | d # r \<Rightarrow> if c = d then Some r else None)"

section \<open>Splitting\<close>

fun split_on :: "char \<Rightarrow> string \<Rightarrow> string list" where
  "split_on c [] = [[]]"
| "split_on c (x # xs) =
     (if x = c then [] # split_on c xs
      else case split_on c xs of [] \<Rightarrow> [[x]] | p # ps \<Rightarrow> (x # p) # ps)"

text \<open>\<open>strtok_r\<close> called until it returns \<open>NULL\<close>: runs of separators count as one.\<close>

definition strtok_all :: "char \<Rightarrow> string \<Rightarrow> string list" where
  "strtok_all c s = filter (\<lambda>t. t \<noteq> []) (split_on c s)"

definition before_char :: "char \<Rightarrow> string \<Rightarrow> string" where "before_char c = takeWhile (\<lambda>d. d \<noteq> c)"

text \<open>\<open>strchr\<close>: what follows the first occurrence.\<close>

definition after_char :: "char \<Rightarrow> string \<Rightarrow> string option" where
  "after_char c s = (case dropWhile (\<lambda>d. d \<noteq> c) s of [] \<Rightarrow> None | _ # r \<Rightarrow> Some r)"

section \<open>Addresses\<close>

definition octet :: "string \<Rightarrow> u8 option" where
  "octet s =
     (if s = [] \<or> \<not> list_all is_digit s \<or> (hd s = CHR ''0'' \<and> s \<noteq> ''0'') \<or> digits_val 10 s > 255 then None
      else Some (word_of_nat (digits_val 10 s)))"

definition inet_pton :: "string \<Rightarrow> u32 option" where
  "inet_pton s =
     (case split_on CHR ''.'' s of
        [p, q, r, t] \<Rightarrow> do { a \<leftarrow> octet p; b \<leftarrow> octet q; c \<leftarrow> octet r; d \<leftarrow> octet t; Some (le32_of a b c d) }
      | _ \<Rightarrow> None)"

definition parse_ipv4_netmask_be :: "string \<Rightarrow> u32 option" where
  "parse_ipv4_netmask_be s =
     (if s = [] then None
      else case inet_pton s of
        None \<Rightarrow> None
      | Some m \<Rightarrow> if ipv4_mask_be_is_contiguous m then Some m else None)"

text \<open>The part after the slash: a dotted mask or a prefix length.\<close>

definition parse_mask_suffix :: "string \<Rightarrow> u32 option" where
  "parse_mask_suffix suffix =
     (if CHR ''.'' \<in> set suffix then parse_ipv4_netmask_be suffix
      else case scan_long suffix of
        None \<Rightarrow> None
      | Some (plen, rest) \<Rightarrow>
          if rest \<noteq> [] \<or> plen < 0 \<or> plen > 32 then None else Some (ipv4_prefix_to_mask_be plen))"

text \<open>Address, mask and network.\<close>

definition parse_ip_cidr :: "string \<Rightarrow> (u32 \<times> u32 \<times> u32) option" where
  "parse_ip_cidr str =
     (let buf = take 127 str; suffix = map_option skip_blanks (after_char CHR ''/'' buf) in
      if suffix = Some [] then None
      else case inet_pton (skip_blanks (before_char CHR ''/'' buf)) of
        None \<Rightarrow> None
      | Some ip \<Rightarrow>
          (case (case suffix of None \<Rightarrow> Some (ipv4_prefix_to_mask_be 32) | Some sfx \<Rightarrow> parse_mask_suffix sfx) of
             None \<Rightarrow> None
           | Some msk \<Rightarrow> Some (ip, msk, ip AND msk)))"

section \<open>MAC addresses and keys\<close>

fun scan_mac :: "nat \<Rightarrow> string \<Rightarrow> u8 list option" where
  "scan_mac 0 s = None"
| "scan_mac (Suc n) s = do {
     (v, r) \<leftarrow> scan_x None s;
     if n = 0 then Some [word_of_int v]
     else do { r \<leftarrow> expect CHR '':'' r; m \<leftarrow> scan_mac n r; Some (word_of_int v # m) } }"

definition parse_mac :: "string \<Rightarrow> u8 list option" where
  "parse_mac str = scan_mac 6 str"

text \<open>Pairs of hexadecimal digits; every pair is scanned from its place in the whole string.\<close>

fun scan_hex_pairs :: "nat \<Rightarrow> string \<Rightarrow> u8 list option" where
  "scan_hex_pairs 0 s = Some []"
| "scan_hex_pairs (Suc n) s = do {
     (v, _) \<leftarrow> scan_x (Some 2) s;
     bs \<leftarrow> scan_hex_pairs n (drop 2 s);
     Some (word_of_int v # bs) }"

definition parse_hex_bytes :: "string \<Rightarrow> nat \<Rightarrow> u8 list option" where
  "parse_hex_bytes str expected_len =
     (if length str \<noteq> expected_len * 2 then None else scan_hex_pairs expected_len str)"

end
