(* ===== verification/DbConfig.thy ===== *)
theory DbConfig
  imports CText DbMerge
begin

text \<open>
  \<open>src/db/db_config.c\<close>: from the rows of the database to the configuration of one profile. The answers of
  PostgreSQL are parameters (\<open>db_rows\<close>): every column is a string, a NULL column is \<open>None\<close> where the code
  asks, and a query that fails is \<open>None\<close>. SHA-256 is the parameter \<open>sha256\<close>. A function that returns -1
  yields \<open>None\<close>; \<open>config_load_from_db\<close> is the only caller and its own caller discards the destination then.
\<close>

section \<open>Fields\<close>

definition str_is_any :: "string option \<Rightarrow> bool" where
  "str_is_any v = (case v of None \<Rightarrow> True
     | Some s \<Rightarrow> let t = skip_blanks s in t = [] \<or> strcaseeq t ''any'' \<or> t = ''*'')"

text \<open>The two \<open>sscanf\<close> of \<open>parse_port_range\<close>: \<open>a-b\<close>, then a single port.\<close>

definition parse_port_range :: "string \<Rightarrow> (int \<times> int) option" where
  "parse_port_range v =
     (if str_is_any (Some v) then Some (-1, -1)
      else case scan_d v of
        None \<Rightarrow> None
      | Some (a, r) \<Rightarrow>
          (case (case expect CHR ''-'' r of None \<Rightarrow> None | Some r \<Rightarrow> scan_d r) of
             Some (b, _) \<Rightarrow>
               if a \<ge> 0 \<and> b \<ge> a \<and> b \<le> 65535 then Some (a, b)
               else if a \<ge> 0 \<and> a \<le> 65535 then Some (a, a) else None
           | None \<Rightarrow> if a \<ge> 0 \<and> a \<le> 65535 then Some (a, a) else None))"

definition parse_ipv4_addr :: "string \<Rightarrow> u32 option" where
  "parse_ipv4_addr v = (if v = [] then None else inet_pton (before_char CHR ''/'' (take 63 v)))"

definition parse_protocol_name :: "string option \<Rightarrow> u8" where
  "parse_protocol_name v =
     (if str_is_any v then POLICY_PROTO_ANY
      else case v of None \<Rightarrow> POLICY_PROTO_ANY
      | Some s \<Rightarrow>
          if strcaseeq s ''tcp'' then 6
          else if strcaseeq s ''udp'' then 17
          else if strcaseeq s ''icmp'' then 1
          else if strcaseeq s ''ospf'' then 89
          else word_of_int (c_atoi s))"

definition parse_action_name :: "string \<Rightarrow> int" where
  "parse_action_name v =
     (if strcaseeq v ''bypass'' then POLICY_ACTION_BYPASS
      else if strcaseeq v ''L2'' \<or> strcaseeq v ''encrypt_l2'' \<or> strcaseeq v ''encrypt l2'' then POLICY_ACTION_ENCRYPT_L2
      else if strcaseeq v ''L3'' \<or> strcaseeq v ''encrypt_l3'' \<or> strcaseeq v ''encrypt l3'' then POLICY_ACTION_ENCRYPT_L3
      else if strcaseeq v ''L4'' \<or> strcaseeq v ''encrypt_l4'' \<or> strcaseeq v ''encrypt l4'' then POLICY_ACTION_ENCRYPT_L4
      else c_atoi v)"

text \<open>Any, negated, network, mask.\<close>

definition parse_cidr_any_or_negated :: "string \<Rightarrow> (bool \<times> bool \<times> u32 \<times> u32) option" where
  "parse_cidr_any_or_negated v_in =
     (if str_is_any (Some v_in) then Some (True, False, 0, 0)
      else
        let v = skip_blanks v_in; neg = (v \<noteq> [] \<and> hd v = CHR ''!'');
            v = (if neg then skip_blanks (tl v) else v)
        in case parse_ip_cidr v of
             None \<Rightarrow> None
           | Some (ip, msk, net) \<Rightarrow> Some (False, neg, net, msk))"

definition trim_spaces :: "string \<Rightarrow> string" where
  "trim_spaces s = rev (skip_blanks (rev (skip_blanks s)))"

definition MAX_CIDR_LIST_ITEMS :: nat where "MAX_CIDR_LIST_ITEMS = 32"
definition MAX_CIDR_ITEM_LEN :: nat where "MAX_CIDR_ITEM_LEN = 96"

definition split_cidr_list :: "string \<Rightarrow> string list option" where
  "split_cidr_list input =
     (let buf = trim_spaces (take 1023 input); toks = map trim_spaces (strtok_all CHR '','' buf) in
      if buf = [] then None
      else if length toks > MAX_CIDR_LIST_ITEMS \<or> [] \<in> set toks then None
      else if toks = [] then None
      else Some (map (take (MAX_CIDR_ITEM_LEN - 1)) toks))"

definition ne_fill_str_list :: "string option \<Rightarrow> string list" where
  "ne_fill_str_list joined =
     (case joined of
        None \<Rightarrow> [''ANY'']
      | Some s \<Rightarrow> if s = [] then [''ANY'']
          else case split_cidr_list s of None \<Rightarrow> [''ANY''] | Some items \<Rightarrow> items)"

text \<open>Mode and key size.\<close>

definition ne_parse_method :: "string option \<Rightarrow> int \<times> int" where
  "ne_parse_method v =
     (case v of
        None \<Rightarrow> (CRYPTO_MODE_GCM, 128)
      | Some s \<Rightarrow>
          if s = [] then (CRYPTO_MODE_GCM, 128)
          else if strcaseeq s ''aes-gcm-128'' then (CRYPTO_MODE_GCM, 128)
          else if strcaseeq s ''aes-gcm-256'' then (CRYPTO_MODE_GCM, 256)
          else if strcaseeq s ''aes-ctr-128'' then (CRYPTO_MODE_CTR, 128)
          else if strcaseeq s ''aes-ctr-256'' then (CRYPTO_MODE_CTR, 256)
          else (CRYPTO_MODE_GCM, 128))"

text \<open>The key: hexadecimal digits of the right number, else the digest of the text.\<close>

definition ne_fill_policy_key :: "(u8 list \<Rightarrow> u8 list) \<Rightarrow> string option \<Rightarrow> nat \<Rightarrow> u8 list" where
  "ne_fill_policy_key sha256 enc_key key_len =
     (case enc_key of
        None \<Rightarrow> replicate 32 0
      | Some s \<Rightarrow>
          if s = [] then replicate 32 0
          else (case parse_hex_bytes s key_len of
                  Some k \<Rightarrow> k | None \<Rightarrow> take key_len (sha256 (str_bytes s)))
               @ replicate (32 - key_len) 0)"

definition ne_cidr_buf_with_invert :: "string \<Rightarrow> bool \<Rightarrow> string" where
  "ne_cidr_buf_with_invert tok invert_db =
     (if invert_db \<and> (tok = [] \<or> hd tok \<noteq> CHR ''!'') then CHR ''!'' # take 96 tok else take 97 tok)"

section \<open>Wire ids\<close>

definition NE_KEY_WIRE_MAP_MAX :: nat where "NE_KEY_WIRE_MAP_MAX = 64"

definition alloc_wire_policy_id :: "int \<Rightarrow> bool list \<Rightarrow> (int \<times> bool list) option" where
  "alloc_wire_policy_id db_row_id used =
     (if db_row_id \<ge> 1 \<and> db_row_id \<le> 255 \<and> \<not> used ! nat db_row_id
      then Some (db_row_id, used[nat db_row_id := True])
      else case List.find (\<lambda>j. \<not> used ! j) [1..<256] of
        None \<Rightarrow> None
      | Some j \<Rightarrow> Some (int j, used[j := True]))"

text \<open>The valid entries of the map from keys to wire ids, in the order they were made.\<close>

record ne_key_wire_entry =
  kw_key :: "u8 list"
  kw_wire_id :: int

type_synonym wire_state = "ne_key_wire_entry list \<times> bool list"

definition wire_init :: wire_state where
  "wire_init = ([], (replicate 256 False)[0 := True])"

definition ne_wire_id_for_encrypt_key :: "wire_state \<Rightarrow> u8 list \<Rightarrow> nat \<Rightarrow> int \<Rightarrow> (int \<times> wire_state) option" where
  "ne_wire_id_for_encrypt_key ws key key_len db_policy_id =
     (let (wmap, used) = ws; k = take key_len key in
      case List.find (\<lambda>e. kw_key e = k) wmap of
        Some e \<Rightarrow> Some (kw_wire_id e, ws)
      | None \<Rightarrow>
          (case alloc_wire_policy_id db_policy_id used of
             None \<Rightarrow> None
           | Some (wire_id, used) \<Rightarrow>
               Some (wire_id,
                 if length wmap < NE_KEY_WIRE_MAP_MAX then wmap @ [\<lparr> kw_key = k, kw_wire_id = wire_id \<rparr>] else wmap,
                 used)))"

section \<open>Rows\<close>

record policy_row =
  pr_id :: string
  pr_priority :: string
  pr_action :: string
  pr_proto :: "string option"
  pr_src :: "string option"
  pr_invert_src :: string
  pr_dst :: "string option"
  pr_invert_dst :: string
  pr_sport :: "string option"
  pr_dport :: "string option"
  pr_method :: "string option"
  pr_key :: "string option"
  pr_nonce :: "string option"

record wan_row =
  wn_ifname :: string
  wn_dst_ip :: string
  wn_src_mac :: "string option"
  wn_dst_mac :: "string option"

text \<open>The answers for one profile id: whether the first query finds the profile (\<open>None\<close> when it fails), the
  LAN and WAN rows, then the queries of \<open>load_profiles_and_policies\<close>: id, name and enabled of the profile, the
  LAN names, the WAN names with weights, the policies.\<close>

record db_rows =
  dr_exists :: "bool option"
  dr_lan :: "string list option"
  dr_wan :: "wan_row list option"
  dr_profile :: "(string \<times> string \<times> string) option"
  dr_profile_lan :: "string list option"
  dr_profile_wan :: "(string \<times> string option) list option"
  dr_policies :: "policy_row list option"

definition DEFAULT_UMEM_MB_LOCAL :: u32 where "DEFAULT_UMEM_MB_LOCAL = 2048"
definition DEFAULT_UMEM_MB_WAN :: u32 where "DEFAULT_UMEM_MB_WAN = 256"
definition DEFAULT_RING_SIZE :: u32 where "DEFAULT_RING_SIZE = 262144"
definition DEFAULT_RING_SIZE_WAN :: u32 where "DEFAULT_RING_SIZE_WAN = 32768"
definition DEFAULT_QUEUE_COUNT :: int where "DEFAULT_QUEUE_COUNT = 1"

definition zero_mac :: "u8 list" where "zero_mac = replicate 6 0"

section \<open>Interfaces\<close>

definition load_local_row :: "app_config \<Rightarrow> string \<Rightarrow> local_config option" where
  "load_local_row cfg v =
     (if v = [] then None
      else Some \<lparr> lc_ifname = take 15 v, lc_ip = 0, lc_netmask = 0, lc_network = 0, lc_src_mac = zero_mac,
             lc_dst_mac = zero_mac, lc_umem_mb = DEFAULT_UMEM_MB_LOCAL, lc_ring_size = DEFAULT_RING_SIZE,
             lc_batch_size = ac_global_batch_size cfg, lc_frame_size = ac_global_frame_size cfg,
             lc_queue_count = DEFAULT_QUEUE_COUNT \<rparr>)"

fun add_local_rows :: "app_config \<Rightarrow> string list \<Rightarrow> app_config option" where
  "add_local_rows cfg [] = Some cfg"
| "add_local_rows cfg (v # vs) = do {
     loc \<leftarrow> load_local_row cfg v;
     add_local_rows (cfg\<lparr> ac_locals := ac_locals cfg @ [loc] \<rparr>) vs }"

definition load_local_rows :: "app_config \<Rightarrow> string list \<Rightarrow> app_config option" where
  "load_local_rows cfg rows =
     (if rows = [] \<or> length rows > MAX_INTERFACES then None else add_local_rows cfg rows)"

definition set_mac :: "string option \<Rightarrow> u8 list \<Rightarrow> u8 list" where
  "set_mac v mac = (case v of None \<Rightarrow> mac
     | Some s \<Rightarrow> if s = [] then mac else case parse_mac s of None \<Rightarrow> mac | Some m \<Rightarrow> m)"

definition load_wan_row :: "app_config \<Rightarrow> wan_row \<Rightarrow> wan_config option" where
  "load_wan_row cfg r =
     (if wn_ifname r = [] then None
      else Some \<lparr> wc_ifname = take 15 (wn_ifname r),
             wc_dst_ip = (if wn_dst_ip r = [] then 0 else case parse_ipv4_addr (wn_dst_ip r) of None \<Rightarrow> 0 | Some ip \<Rightarrow> ip),
             wc_src_mac = set_mac (wn_src_mac r) zero_mac, wc_dst_mac = set_mac (wn_dst_mac r) zero_mac,
             wc_window_size = word_of_int (WAN_REORDER_WINDOW_KB * 1024), wc_umem_mb = DEFAULT_UMEM_MB_WAN,
             wc_ring_size = DEFAULT_RING_SIZE_WAN, wc_batch_size = ac_global_batch_size cfg,
             wc_frame_size = ac_global_frame_size cfg, wc_queue_count = DEFAULT_QUEUE_COUNT \<rparr>)"

fun add_wan_rows :: "app_config \<Rightarrow> wan_row list \<Rightarrow> app_config option" where
  "add_wan_rows cfg [] = Some cfg"
| "add_wan_rows cfg (r # rs) = do {
     wan \<leftarrow> load_wan_row cfg r;
     add_wan_rows (cfg\<lparr> ac_wans := ac_wans cfg @ [wan] \<rparr>) rs }"

definition load_wan_rows :: "app_config \<Rightarrow> wan_row list \<Rightarrow> app_config option" where
  "load_wan_rows cfg rows =
     (if rows = [] \<or> length rows > MAX_INTERFACES then None else add_wan_rows cfg rows)"

section \<open>The profile\<close>

definition profile_add_local :: "app_config \<Rightarrow> string \<Rightarrow> profile_config \<Rightarrow> profile_config" where
  "profile_add_local cfg ifname p =
     (let li = find_local_by_ifname cfg ifname in
      if length (pf_local_indices p) < MAX_PROFILE_INTERFACES \<and> li \<ge> 0
      then p\<lparr> pf_local_indices := pf_local_indices p @ [li] \<rparr> else p)"

definition profile_append_wan :: "app_config \<Rightarrow> string \<times> string option \<Rightarrow> profile_config \<Rightarrow> profile_config" where
  "profile_append_wan cfg r p =
     (let wi = find_wan_by_ifname cfg (fst r) in
      if length (pf_wan_indices p) < MAX_PROFILE_INTERFACES \<and> wi \<ge> 0
      then p\<lparr> pf_wan_indices := pf_wan_indices p @ [wi],
              pf_wan_bandwidth_weight := pf_wan_bandwidth_weight p @ [case snd r of None \<Rightarrow> 0 | Some w \<Rightarrow> c_atoi w] \<rparr>
      else p)"

definition profile_append_wans_from_rows ::
  "app_config \<Rightarrow> (string \<times> string option) list option \<Rightarrow> profile_config \<Rightarrow> profile_config" where
  "profile_append_wans_from_rows cfg res p =
     (case res of None \<Rightarrow> p | Some rows \<Rightarrow> fold (profile_append_wan cfg) rows p)"

section \<open>Policies\<close>

definition zero_policy :: crypto_policy where
  "zero_policy = \<lparr> cp_id = 0, cp_db_id = 0, cp_priority = 0, cp_action = 0, cp_protocol = 0,
     cp_src_port_from = 0, cp_src_port_to = 0, cp_dst_port_from = 0, cp_dst_port_to = 0,
     cp_src_any = False, cp_dst_any = False, cp_src_negate = False, cp_dst_negate = False,
     cp_src_net = 0, cp_src_mask = 0, cp_dst_net = 0, cp_dst_mask = 0,
     cp_crypto_mode = 0, cp_aes_bits = 0, cp_nonce_size = 0, cp_key = replicate 32 0 \<rparr>"

text \<open>\<open>cp_base\<close>: what all policies of a row share.\<close>

definition policy_base ::
  "(u8 list \<Rightarrow> u8 list) \<Rightarrow> policy_row \<Rightarrow> wire_state \<Rightarrow> (crypto_policy \<times> wire_state) option" where
  "policy_base sha256 r ws =
     (let base = zero_policy\<lparr> cp_db_id := c_atoi (pr_id r), cp_priority := c_atoi (pr_priority r),
                   cp_action := parse_action_name (pr_action r), cp_protocol := parse_protocol_name (pr_proto r) \<rparr>
      in if cp_action base = POLICY_ACTION_BYPASS
         then Some (base\<lparr> cp_crypto_mode := CRYPTO_MODE_GCM, cp_aes_bits := 128, cp_nonce_size := 12 \<rparr>, ws)
         else
           let (mode, bits) = ne_parse_method (pr_method r);
               nonce = (case pr_nonce r of None \<Rightarrow> 12 | Some s \<Rightarrow> c_atoi s);
               bits = (if bits \<noteq> 256 then 128 else bits);
               nonce = (if nonce \<le> 0 then 12 else nonce);
               key_len = (if bits = 256 then 32 else 16);
               key = ne_fill_policy_key sha256 (pr_key r) key_len
           in case ne_wire_id_for_encrypt_key ws key key_len (cp_db_id base) of
                None \<Rightarrow> None
              | Some (wire_id, ws) \<Rightarrow>
                  Some (base\<lparr> cp_crypto_mode := mode, cp_aes_bits := bits, cp_nonce_size := nonce, cp_key := key,
                              cp_id := wire_id \<rparr>, ws))"

definition set_src :: "string \<Rightarrow> crypto_policy \<Rightarrow> crypto_policy" where
  "set_src txt cp = (case parse_cidr_any_or_negated txt of
     None \<Rightarrow> cp\<lparr> cp_src_any := True, cp_src_negate := False, cp_src_net := 0, cp_src_mask := 0 \<rparr>
   | Some (a, n, net, msk) \<Rightarrow> cp\<lparr> cp_src_any := a, cp_src_negate := n, cp_src_net := net, cp_src_mask := msk \<rparr>)"

definition set_dst :: "string \<Rightarrow> crypto_policy \<Rightarrow> crypto_policy" where
  "set_dst txt cp = (case parse_cidr_any_or_negated txt of
     None \<Rightarrow> cp\<lparr> cp_dst_any := True, cp_dst_negate := False, cp_dst_net := 0, cp_dst_mask := 0 \<rparr>
   | Some (a, n, net, msk) \<Rightarrow> cp\<lparr> cp_dst_any := a, cp_dst_negate := n, cp_dst_net := net, cp_dst_mask := msk \<rparr>)"

definition port_item :: "string \<Rightarrow> int \<times> int" where
  "port_item s = (case parse_port_range s of None \<Rightarrow> (-1, -1) | Some r \<Rightarrow> r)"

text \<open>The policy of one combination of a source, a destination and two port items.\<close>

definition expanded_policy :: "policy_row \<Rightarrow> crypto_policy \<Rightarrow> string \<times> string \<times> string \<times> string \<Rightarrow> crypto_policy" where
  "expanded_policy r base item =
     (let (src, dst, sp, dp) = item in
      set_dst (ne_cidr_buf_with_invert dst (pr_invert_dst r = ''t''))
        (set_src (ne_cidr_buf_with_invert src (pr_invert_src r = ''t''))
          (base\<lparr> cp_src_port_from := fst (port_item sp), cp_src_port_to := snd (port_item sp),
                 cp_dst_port_from := fst (port_item dp), cp_dst_port_to := snd (port_item dp) \<rparr>)))"

text \<open>The four nested loops, innermost last.\<close>

definition row_items :: "policy_row \<Rightarrow> (string \<times> string \<times> string \<times> string) list" where
  "row_items r = [(s, d, sp, dp). s \<leftarrow> ne_fill_str_list (pr_src r), d \<leftarrow> ne_fill_str_list (pr_dst r),
     sp \<leftarrow> ne_fill_str_list (pr_sport r), dp \<leftarrow> ne_fill_str_list (pr_dport r)]"

fun append_expanded :: "crypto_policy list \<Rightarrow> app_config \<times> profile_config \<Rightarrow> (app_config \<times> profile_config) option" where
  "append_expanded [] cp = Some cp"
| "append_expanded (x # xs) (cfg, p) =
     (if length (ac_policies cfg) \<ge> MAX_CRYPTO_POLICIES \<or> length (pf_policy_indices p) \<ge> MAX_CRYPTO_POLICIES then None
      else append_expanded xs
        (cfg\<lparr> ac_policies := ac_policies cfg @ [x] \<rparr>,
         p\<lparr> pf_policy_indices := pf_policy_indices p @ [int (length (ac_policies cfg))] \<rparr>))"

fun load_policy_rows ::
  "(u8 list \<Rightarrow> u8 list) \<Rightarrow> policy_row list \<Rightarrow> wire_state \<Rightarrow> app_config \<times> profile_config
     \<Rightarrow> (app_config \<times> profile_config) option" where
  "load_policy_rows sha256 [] ws cp = Some cp"
| "load_policy_rows sha256 (r # rs) ws cp = do {
     (base, ws) \<leftarrow> policy_base sha256 r ws;
     cp \<leftarrow> append_expanded (map (expanded_policy r base) (row_items r)) cp;
     load_policy_rows sha256 rs ws cp }"

definition load_profiles_and_policies :: "(u8 list \<Rightarrow> u8 list) \<Rightarrow> db_rows \<Rightarrow> app_config \<Rightarrow> app_config option" where
  "load_profiles_and_policies sha256 db cfg = do {
     (pid, name, en) \<leftarrow> dr_profile db;
     let p = \<lparr> pf_id = c_atoi pid, pf_name = take 63 name, pf_enabled = c_atoi en \<noteq> 0, pf_local_indices = [],
               pf_wan_indices = [], pf_wan_bandwidth_weight = [], pf_policy_indices = [] \<rparr>;
     let p = (case dr_profile_lan db of None \<Rightarrow> p | Some rows \<Rightarrow> fold (profile_add_local cfg) rows p);
     let p = profile_append_wans_from_rows cfg (dr_profile_wan db) p;
     rows \<leftarrow> dr_policies db;
     (cfg, p) \<leftarrow> load_policy_rows sha256 rows wire_init (cfg, p);
     Some (cfg\<lparr> ac_profiles := ac_profiles cfg @ [p] \<rparr>) }"

section \<open>Derived settings\<close>

definition has_action :: "int \<Rightarrow> app_config \<Rightarrow> bool" where
  "has_action a cfg = list_ex (\<lambda>cp. cp_action cp = a) (take MAX_CRYPTO_POLICIES (ac_policies cfg))"

definition first_key_policy :: "app_config \<Rightarrow> crypto_policy option" where
  "first_key_policy cfg =
     List.find (\<lambda>cp. cp_action cp \<noteq> POLICY_ACTION_BYPASS \<and> list_ex (\<lambda>b. b \<noteq> 0) (cp_key cp))
       (take MAX_CRYPTO_POLICIES (ac_policies cfg))"

definition apply_crypto_derived_from_policies :: "app_config \<Rightarrow> app_config" where
  "apply_crypto_derived_from_policies cfg =
     (let cfg = cfg\<lparr> ac_crypto_enabled := False, ac_encrypt_layer := 0, ac_fake_protocol := 0, ac_fake_ethertype_ipv4 := 0,
                     ac_crypto_mode := CRYPTO_MODE_CTR, ac_aes_bits := 128, ac_nonce_size := 12, ac_crypto_key := replicate 32 0 \<rparr>
      in if ac_policies cfg = [] then cfg
      else
        let l2 = has_action POLICY_ACTION_ENCRYPT_L2 cfg; l3 = has_action POLICY_ACTION_ENCRYPT_L3 cfg;
            l4 = has_action POLICY_ACTION_ENCRYPT_L4 cfg; enabled = (l2 \<or> l3 \<or> l4);
            cfg = cfg\<lparr> ac_crypto_enabled := enabled,
                       ac_encrypt_layer := (if \<not> enabled then 0 else if l3 \<or> l4 then 3 else if l2 then 2 else 4) \<rparr>;
            cfg = (case first_key_policy cfg of
                     Some cp \<Rightarrow>
                       if enabled
                       then cfg\<lparr> ac_crypto_mode := cp_crypto_mode cp, ac_aes_bits := (if cp_aes_bits cp = 256 then 256 else 128),
                                  ac_nonce_size := (if cp_nonce_size cp > 0 then cp_nonce_size cp else 12), ac_crypto_key := cp_key cp \<rparr>
                       else cfg
                   | None \<Rightarrow> cfg);
            cfg = (if l3 \<or> l4 then cfg\<lparr> ac_fake_protocol := 99 \<rparr> else cfg)
        in if l2 then cfg\<lparr> ac_fake_ethertype_ipv4 := 0x88b5 \<rparr> else cfg)"

section \<open>Loading one profile\<close>

definition db_verify_profile_id :: "db_rows \<Rightarrow> bool" where
  "db_verify_profile_id db = (dr_exists db = Some True)"

definition fetch_config_from_db :: "(u8 list \<Rightarrow> u8 list) \<Rightarrow> db_rows \<Rightarrow> app_config \<Rightarrow> app_config option" where
  "fetch_config_from_db sha256 db cfg =
     (if \<not> db_verify_profile_id db then None
      else do {
        lan \<leftarrow> dr_lan db;
        cfg \<leftarrow> load_local_rows cfg lan;
        wan \<leftarrow> dr_wan db;
        cfg \<leftarrow> load_wan_rows cfg wan;
        load_profiles_and_policies sha256 db cfg })"

text \<open>\<open>db\<close> answers for a connection that could be made.\<close>

definition config_load_from_db :: "(u8 list \<Rightarrow> u8 list) \<Rightarrow> (int \<Rightarrow> db_rows option) \<Rightarrow> int \<Rightarrow> app_config option" where
  "config_load_from_db sha256 conn profile_id = do {
     db \<leftarrow> conn profile_id;
     cfg \<leftarrow> fetch_config_from_db sha256 db empty_config;
     let cfg = apply_crypto_derived_from_policies cfg;
     if config_validate cfg \<noteq> 0 then None else Some cfg }"

end
