(* ===== verification/DbLoaded.thy ===== *)
theory DbLoaded
  imports DbConfig
begin

text \<open>
  What a configuration loaded from the database is: the closed form of the row loaders, the types of its fields, the wire
  ids of its keys, and the packets that the policies expanded from a row match.
\<close>

section \<open>The closed form of the policy loader\<close>

fun row_bases :: "(u8 list \<Rightarrow> u8 list) \<Rightarrow> policy_row list \<Rightarrow> wire_state \<Rightarrow> (policy_row \<times> crypto_policy) list option" where
  "row_bases sha256 [] ws = Some []"
| "row_bases sha256 (r # rs) ws = do {
     (base, ws) \<leftarrow> policy_base sha256 r ws;
     bs \<leftarrow> row_bases sha256 rs ws;
     Some ((r, base) # bs) }"

definition row_policies :: "(policy_row \<times> crypto_policy) list \<Rightarrow> crypto_policy list" where
  "row_policies bs = concat (map (\<lambda>(r, b). map (expanded_policy r b) (row_items r)) bs)"

definition with_policies :: "crypto_policy list \<Rightarrow> app_config \<times> profile_config \<Rightarrow> app_config \<times> profile_config" where
  "with_policies xs s = (case s of (cfg, p) \<Rightarrow>
     (cfg\<lparr> ac_policies := ac_policies cfg @ xs \<rparr>,
      p\<lparr> pf_policy_indices := pf_policy_indices p @ map int [length (ac_policies cfg)..<length (ac_policies cfg) + length xs] \<rparr>))"

definition policy_room :: "app_config \<times> profile_config \<Rightarrow> nat" where
  "policy_room s = MAX_CRYPTO_POLICIES - max (length (ac_policies (fst s))) (length (pf_policy_indices (snd s)))"

lemma with_policies_Nil [simp]: "with_policies [] s = s"
  by (cases s) (simp add: with_policies_def)

lemma with_policies_append: "with_policies ys (with_policies xs s) = with_policies (xs @ ys) s"
proof -
  have "map int [n..<n + length xs] @ map int [n + length xs..<n + length xs + length ys]
      = map int [n..<n + length (xs @ ys)]" for n
    using upt_add_eq_append [of n "n + length xs" "length ys"] by (simp add: add.assoc)
  then show ?thesis by (cases s) (simp add: with_policies_def)
qed

lemma policy_room_with: "length xs \<le> policy_room s \<Longrightarrow> policy_room (with_policies xs s) = policy_room s - length xs"
  by (cases s) (simp add: with_policies_def policy_room_def max_def)

lemma append_expanded_eq:
  "append_expanded xs s = (if length xs \<le> policy_room s then Some (with_policies xs s) else None)"
proof (induction xs arbitrary: s)
  case (Cons x xs)
  obtain cfg p where s: "s = (cfg, p)" by (cases s)
  have full: "length (ac_policies cfg) \<ge> MAX_CRYPTO_POLICIES \<or> length (pf_policy_indices p) \<ge> MAX_CRYPTO_POLICIES
      \<longleftrightarrow> policy_room s = 0" by (auto simp: s policy_room_def max_def)
  have w: "with_policies [x] s = (cfg\<lparr> ac_policies := ac_policies cfg @ [x] \<rparr>,
         p\<lparr> pf_policy_indices := pf_policy_indices p @ [int (length (ac_policies cfg))] \<rparr>)"
    by (simp add: s with_policies_def)
  have a: "append_expanded (x # xs) s = (if policy_room s = 0 then None else append_expanded xs (with_policies [x] s))"
    unfolding w full [symmetric] by (simp add: s)
  show ?case unfolding a Cons.IH with_policies_append using policy_room_with [of "[x]" s] by auto
qed simp

lemma load_policy_rows_eq:
  "load_policy_rows sha256 rs ws s =
     (case row_bases sha256 rs ws of
        None \<Rightarrow> None
      | Some bs \<Rightarrow> if length (row_policies bs) \<le> policy_room s then Some (with_policies (row_policies bs) s) else None)"
proof (induction rs arbitrary: ws s)
  case Nil
  show ?case by (simp add: row_policies_def)
next
  case (Cons r rs)
  show ?case
  proof (cases "policy_base sha256 r ws")
    case (Some bw)
    obtain b ws' where b: "policy_base sha256 r ws = Some (b, ws')" using Some by (cases bw) auto
    let ?x = "map (expanded_policy r b) (row_items r)"
    have c: "row_policies ((r, b) # bs) = ?x @ row_policies bs" for bs by (simp add: row_policies_def)
    show ?thesis
    proof (cases "length ?x \<le> policy_room s")
      case True
      then show ?thesis using policy_room_with [OF True]
        by (auto simp: b c append_expanded_eq Cons.IH with_policies_append simp del: length_map split: option.split)
    next
      case False
      then show ?thesis by (auto simp: b row_policies_def append_expanded_eq bind_eq_Some_conv split: option.split)
    qed
  qed simp
qed

definition wire_key :: "crypto_policy \<Rightarrow> u8 list" where
  "wire_key cp = take (if cp_aes_bits cp = 256 then 32 else 16) (cp_key cp)"

definition encrypts :: "crypto_policy \<Rightarrow> bool" where
  "encrypts cp = (cp_action cp \<noteq> POLICY_ACTION_BYPASS)"

definition key_ids :: "crypto_policy set \<Rightarrow> (u8 list \<times> int) set" where
  "key_ids P = (\<lambda>cp. (wire_key cp, cp_id cp)) ` {cp \<in> P. encrypts cp}"

definition map_pairs :: "ne_key_wire_entry list \<Rightarrow> (u8 list \<times> int) set" where
  "map_pairs m = set (map (\<lambda>e. (kw_key e, kw_wire_id e)) m)"

text \<open>\<open>A\<close> are the pairs of key and wire id given out so far.\<close>

definition wire_ok :: "(u8 list \<times> int) set \<Rightarrow> wire_state \<Rightarrow> bool" where
  "wire_ok A ws \<longleftrightarrow> (case ws of (m, used) \<Rightarrow>
     length used = 256 \<and> used ! 0 \<and> finite A \<and> length m \<le> NE_KEY_WIRE_MAP_MAX \<and> distinct (map kw_key m) \<and>
     map_pairs m \<subseteq> A \<and> (\<forall>(k, i) \<in> A. 1 \<le> i \<and> i \<le> 255 \<and> used ! nat i) \<and>
     (\<forall>(k, i) \<in> A. \<forall>(k', j) \<in> A. i = j \<longrightarrow> k = k') \<and>
     (A = map_pairs m \<or> card (fst ` A) > NE_KEY_WIRE_MAP_MAX))"

lemma wire_okI:
  assumes "length used = 256" "used ! 0" "finite A" "length m \<le> NE_KEY_WIRE_MAP_MAX" "distinct (map kw_key m)"
    "map_pairs m \<subseteq> A" "\<forall>(k, i) \<in> A. 1 \<le> i \<and> i \<le> 255 \<and> used ! nat i"
    "\<forall>(k, i) \<in> A. \<forall>(k', j) \<in> A. i = j \<longrightarrow> k = k'" "A = map_pairs m \<or> card (fst ` A) > NE_KEY_WIRE_MAP_MAX"
  shows "wire_ok A (m, used)"
  using assms by (simp add: wire_ok_def)

lemma wire_ok_init: "wire_ok {} wire_init"
  by (simp add: wire_ok_def wire_init_def map_pairs_def)

lemma find_SomeD: "List.find P xs = Some x \<Longrightarrow> P x \<and> x \<in> set xs"
  by (auto simp: find_Some_iff)

lemma alloc_fresh:
  assumes "alloc_wire_policy_id db_id used = Some (i, used')" "length used = 256"
  shows "1 \<le> i \<and> i \<le> 255 \<and> \<not> used ! nat i \<and> used' = used[nat i := True]"
  using assms by (auto simp: alloc_wire_policy_id_def split: if_splits option.splits dest!: find_SomeD)

lemma wire_ok_fresh:
  assumes ok: "wire_ok A (m, used)" and a: "alloc_wire_policy_id db_id used = Some (i, used')"
    and k: "k \<notin> kw_key ` set m"
  shows "wire_ok (insert (k, i) A)
           (if length m < NE_KEY_WIRE_MAP_MAX then m @ [\<lparr> kw_key = k, kw_wire_id = i \<rparr>] else m, used')"
proof -
  have l: "length used = 256" using ok by (simp add: wire_ok_def)
  note i = alloc_fresh [OF a l]
  have new: "(k', i) \<notin> A" for k' using ok i by (auto simp: wire_ok_def)
  have fin: "finite A" using ok by (simp add: wire_ok_def)
  let ?A = "insert (k, i) A"
  have full: "card (fst ` ?A) > NE_KEY_WIRE_MAP_MAX" if "\<not> length m < NE_KEY_WIRE_MAP_MAX"
  proof -
    have c: "NE_KEY_WIRE_MAP_MAX \<le> card (fst ` A) \<and> (card (fst ` A) = NE_KEY_WIRE_MAP_MAX \<longrightarrow> k \<notin> fst ` A)"
    proof (cases "A = map_pairs m")
      case True
      then have "fst ` A = kw_key ` set m" by (simp add: map_pairs_def image_image)
      moreover have "card (kw_key ` set m) = length m" using ok distinct_card [of "map kw_key m"] by (simp add: wire_ok_def)
      ultimately show ?thesis using k that by simp
    next
      case False
      then show ?thesis using ok by (simp add: wire_ok_def)
    qed
    then show ?thesis using fin by (cases "k \<in> fst ` A") (auto simp: insert_absorb)
  qed
  have mono: "card (fst ` A) \<le> card (fst ` ?A)" using fin by (intro card_mono) auto
  have r: "\<forall>(k', j) \<in> ?A. 1 \<le> j \<and> j \<le> 255 \<and> used' ! nat j"
    using ok i l by (auto simp: wire_ok_def nth_list_update)
  have u0: "used' ! 0" "length used' = 256" using ok i by (auto simp: wire_ok_def)
  have inj: "\<forall>(k1, a) \<in> ?A. \<forall>(k2, b) \<in> ?A. a = b \<longrightarrow> k1 = k2" using ok new by (fastforce simp: wire_ok_def)
  have m: "distinct (map kw_key m)" "map_pairs m \<subseteq> A" "length m \<le> NE_KEY_WIRE_MAP_MAX"
    "A = map_pairs m \<or> card (fst ` A) > NE_KEY_WIRE_MAP_MAX"
    using ok by (simp_all add: wire_ok_def)
  let ?m = "m @ [\<lparr> kw_key = k, kw_wire_id = i \<rparr>]"
  show ?thesis
  proof (cases "length m < NE_KEY_WIRE_MAP_MAX")
    case True
    have p: "map_pairs ?m = insert (k, i) (map_pairs m)" by (auto simp: map_pairs_def)
    have "?A = map_pairs ?m \<or> card (fst ` ?A) > NE_KEY_WIRE_MAP_MAX"
      using m(4) mono unfolding p by (elim disjE) (simp, linarith)
    moreover have "map_pairs ?m \<subseteq> ?A" "distinct (map kw_key ?m)" "length ?m \<le> NE_KEY_WIRE_MAP_MAX"
      using m k True unfolding p by auto
    ultimately have "wire_ok ?A (?m, used')" using u0 fin r inj by (intro wire_okI) auto
    then show ?thesis using True by simp
  next
    case False
    have "map_pairs m \<subseteq> ?A" using m(2) by blast
    then have "wire_ok ?A (m, used')" using full [OF False] u0 fin r inj m(1,3) by (intro wire_okI) auto
    then show ?thesis using False by simp
  qed
qed

lemma wire_id_step:
  assumes "wire_ok A ws" "ne_wire_id_for_encrypt_key ws key kl db_id = Some (i, ws')"
  shows "wire_ok (insert (take kl key, i) A) ws'"
proof -
  obtain m used where ws: "ws = (m, used)" by (cases ws)
  show ?thesis
  proof (cases "List.find (\<lambda>e. kw_key e = take kl key) m")
    case (Some e)
    then have e: "kw_key e = take kl key" "e \<in> set m" by (auto dest!: find_SomeD)
    have "map_pairs m \<subseteq> A" using assms(1) by (simp add: ws wire_ok_def)
    moreover have "i = kw_wire_id e" "ws' = ws"
      using assms(2) Some by (auto simp: ne_wire_id_for_encrypt_key_def ws)
    ultimately have "(take kl key, i) \<in> A" "ws' = ws" using e by (auto simp: map_pairs_def)
    then show ?thesis using assms(1) by (simp add: insert_absorb)
  next
    case None
    then have "take kl key \<notin> kw_key ` set m" by (auto simp: find_None_iff)
    with None show ?thesis
      using assms(2) wire_ok_fresh [OF assms(1) [unfolded ws]]
      by (auto simp: ne_wire_id_for_encrypt_key_def ws Let_def simp del: length_append split: option.splits)
  qed
qed

lemma policy_base_wire:
  assumes "policy_base sha256 r ws = Some (b, ws')"
  shows "if encrypts b then ne_wire_id_for_encrypt_key ws (cp_key b) (if cp_aes_bits b = 256 then 32 else 16) (cp_db_id b)
      = Some (cp_id b, ws') else ws' = ws \<and> cp_id b = 0"
proof (cases "parse_action_name (pr_action r) = POLICY_ACTION_BYPASS")
  case True
  then show ?thesis using assms by (auto simp: policy_base_def encrypts_def Let_def zero_policy_def)
next
  case False
  obtain mode bits where m: "ne_parse_method (pr_method r) = (mode, bits)" by (cases "ne_parse_method (pr_method r)")
  show ?thesis
    using assms False
    by (cases "bits = 256") (auto simp: policy_base_def encrypts_def Let_def zero_policy_def m split: option.splits)
qed

lemma row_bases_wire:
  assumes "wire_ok A ws" "row_bases sha256 rs ws = Some bs"
  shows "\<exists>ws'. wire_ok (A \<union> key_ids (snd ` set bs)) ws'"
  using assms
proof (induction rs arbitrary: A ws bs)
  case Nil
  then show ?case by (intro exI [of _ ws]) (simp add: key_ids_def)
next
  case (Cons r rs)
  then obtain b ws1 bs' where b: "policy_base sha256 r ws = Some (b, ws1)" "row_bases sha256 rs ws1 = Some bs'" "bs = (r, b) # bs'"
    by (auto simp: bind_eq_Some_conv)
  show ?case
  proof (cases "encrypts b")
    case True
    with policy_base_wire [OF b(1)] wire_id_step [OF Cons.prems(1)]
    have "wire_ok (insert (wire_key b, cp_id b) A) ws1" by (simp add: wire_key_def)
    moreover have "insert (wire_key b, cp_id b) A \<union> key_ids (snd ` set bs') = A \<union> key_ids (snd ` set bs)"
      using True by (auto simp: b(3) key_ids_def)
    ultimately show ?thesis using Cons.IH b(2) by metis
  next
    case False
    with policy_base_wire [OF b(1)] have "ws1 = ws" by simp
    moreover have "key_ids (snd ` set bs') = key_ids (snd ` set bs)" using False by (auto simp: b(3) key_ids_def)
    ultimately show ?thesis using Cons.IH Cons.prems(1) b(2) by metis
  qed
qed

section \<open>What expansion keeps\<close>

lemma set_src_keeps [simp]:
  "cp_id (set_src t cp) = cp_id cp" "cp_action (set_src t cp) = cp_action cp" "cp_key (set_src t cp) = cp_key cp"
  "cp_aes_bits (set_src t cp) = cp_aes_bits cp" "cp_nonce_size (set_src t cp) = cp_nonce_size cp"
  by (auto simp: set_src_def split: option.split)

lemma set_dst_keeps [simp]:
  "cp_id (set_dst t cp) = cp_id cp" "cp_action (set_dst t cp) = cp_action cp" "cp_key (set_dst t cp) = cp_key cp"
  "cp_aes_bits (set_dst t cp) = cp_aes_bits cp" "cp_nonce_size (set_dst t cp) = cp_nonce_size cp"
  "cp_src_any (set_dst t cp) = cp_src_any cp" "cp_src_negate (set_dst t cp) = cp_src_negate cp"
  "cp_src_net (set_dst t cp) = cp_src_net cp" "cp_src_mask (set_dst t cp) = cp_src_mask cp"
  by (auto simp: set_dst_def split: option.split)

lemma expanded_keeps [simp]:
  "cp_id (expanded_policy r b x) = cp_id b" "cp_action (expanded_policy r b x) = cp_action b"
  "cp_key (expanded_policy r b x) = cp_key b" "cp_aes_bits (expanded_policy r b x) = cp_aes_bits b"
  "cp_nonce_size (expanded_policy r b x) = cp_nonce_size b"
  by (auto simp: expanded_policy_def split: prod.split)

lemma fill_str_list_ne [simp]: "ne_fill_str_list v \<noteq> []"
  by (auto simp: ne_fill_str_list_def split_cidr_list_def Let_def split: option.splits if_splits)

lemma concat_map_ne: "xs \<noteq> [] \<Longrightarrow> (\<And>x. x \<in> set xs \<Longrightarrow> f x \<noteq> []) \<Longrightarrow> concat (map f xs) \<noteq> []"
  by (cases xs) auto

lemma row_items_ne [simp]: "row_items r \<noteq> []"
  unfolding row_items_def by (intro concat_map_ne fill_str_list_ne) simp_all

lemma row_policies_set:
  "set (row_policies bs) = {expanded_policy r b x |r b x. (r, b) \<in> set bs \<and> x \<in> set (row_items r)}"
  by (auto simp: row_policies_def) blast

lemma key_ids_expanded: "key_ids (set (row_policies bs)) = key_ids (snd ` set bs)"
proof (rule set_eqI)
  fix ki
  have ex: "\<exists>x. x \<in> set (row_items r)" for r using row_items_ne [of r] by (cases "row_items r") auto
  show "ki \<in> key_ids (set (row_policies bs)) \<longleftrightarrow> ki \<in> key_ids (snd ` set bs)"
  proof
    assume "ki \<in> key_ids (set (row_policies bs))"
    then obtain r b x where "(r, b) \<in> set bs" "encrypts (expanded_policy r b x)"
      "ki = (wire_key (expanded_policy r b x), cp_id (expanded_policy r b x))"
      by (auto simp: key_ids_def row_policies_set)
    then have "b \<in> {cp \<in> snd ` set bs. encrypts cp}" "ki = (wire_key b, cp_id b)"
      by (auto simp: wire_key_def encrypts_def image_iff intro: bexI [of _ "(r, b)"])
    then show "ki \<in> key_ids (snd ` set bs)" unfolding key_ids_def by blast
  next
    assume "ki \<in> key_ids (snd ` set bs)"
    then obtain r b where b: "(r, b) \<in> set bs" "encrypts b" "ki = (wire_key b, cp_id b)"
      by (auto simp: key_ids_def)
    obtain x where "x \<in> set (row_items r)" using ex by blast
    with b have "expanded_policy r b x \<in> {cp \<in> set (row_policies bs). encrypts cp}"
      "ki = (wire_key (expanded_policy r b x), cp_id (expanded_policy r b x))"
      unfolding row_policies_set by (auto simp: wire_key_def encrypts_def simp del: split_paired_Ex)
    then show "ki \<in> key_ids (set (row_policies bs))" unfolding key_ids_def by blast
  qed
qed

section \<open>Inverting the loader\<close>

lemma derived_keeps [simp]:
  "ac_policies (apply_crypto_derived_from_policies cfg) = ac_policies cfg"
  "ac_locals (apply_crypto_derived_from_policies cfg) = ac_locals cfg"
  "ac_wans (apply_crypto_derived_from_policies cfg) = ac_wans cfg"
  "ac_profiles (apply_crypto_derived_from_policies cfg) = ac_profiles cfg"
  by (simp_all add: apply_crypto_derived_from_policies_def Let_def split: option.split)

lemma add_local_rows_eq:
  "add_local_rows cfg vs = Some cfg' \<Longrightarrow>
   \<exists>ls. cfg' = cfg\<lparr> ac_locals := ac_locals cfg @ ls \<rparr> \<and> list_all2 (\<lambda>v l. load_local_row cfg v = Some l) vs ls"
proof (induction vs arbitrary: cfg)
  case (Cons v vs)
  then obtain l where l: "load_local_row cfg v = Some l" "add_local_rows (cfg\<lparr> ac_locals := ac_locals cfg @ [l] \<rparr>) vs = Some cfg'"
    by (auto simp: bind_eq_Some_conv)
  have k: "load_local_row (cfg\<lparr> ac_locals := x \<rparr>) v = load_local_row cfg v" for v x by (simp add: load_local_row_def)
  from Cons.IH [OF l(2)] obtain ls where
    "cfg' = cfg\<lparr> ac_locals := (ac_locals cfg @ [l]) @ ls \<rparr>" "list_all2 (\<lambda>v l. load_local_row cfg v = Some l) vs ls"
    by (auto simp: k)
  with l(1) show ?case by (intro exI [of _ "l # ls"]) simp
qed simp

lemma add_wan_rows_eq:
  "add_wan_rows cfg rs = Some cfg' \<Longrightarrow>
   \<exists>ws. cfg' = cfg\<lparr> ac_wans := ac_wans cfg @ ws \<rparr> \<and> list_all2 (\<lambda>r w. load_wan_row cfg r = Some w) rs ws"
proof (induction rs arbitrary: cfg)
  case (Cons r rs)
  then obtain w where w: "load_wan_row cfg r = Some w" "add_wan_rows (cfg\<lparr> ac_wans := ac_wans cfg @ [w] \<rparr>) rs = Some cfg'"
    by (auto simp: bind_eq_Some_conv)
  have k: "load_wan_row (cfg\<lparr> ac_wans := x \<rparr>) v = load_wan_row cfg v" for v x by (simp add: load_wan_row_def)
  from Cons.IH [OF w(2)] obtain ws where
    "cfg' = cfg\<lparr> ac_wans := (ac_wans cfg @ [w]) @ ws \<rparr>" "list_all2 (\<lambda>r w. load_wan_row cfg r = Some w) rs ws"
    by (auto simp: k)
  with w(1) show ?case by (intro exI [of _ "w # ws"]) simp
qed simp

definition profile_base :: "app_config \<Rightarrow> db_rows \<Rightarrow> string \<times> string \<times> string \<Rightarrow> profile_config" where
  "profile_base cfg db row = (case row of (pid, name, en) \<Rightarrow>
     profile_append_wans_from_rows cfg (dr_profile_wan db)
       ((case dr_profile_lan db of None \<Rightarrow> id | Some rows \<Rightarrow> fold (profile_add_local cfg) rows)
          \<lparr> pf_id = c_atoi pid, pf_name = take 63 name, pf_enabled = c_atoi en \<noteq> 0, pf_local_indices = [],
            pf_wan_indices = [], pf_wan_bandwidth_weight = [], pf_policy_indices = [] \<rparr>))"

lemma config_load_inv:
  assumes "config_load_from_db sha256 conn profile_id = Some cfg"
  obtains db lan wan ls ws row rows bs cfg1 where "conn profile_id = Some db" "dr_lan db = Some lan" "dr_wan db = Some wan"
    "dr_profile db = Some row" "dr_policies db = Some rows" "lan \<noteq> []" "wan \<noteq> []"
    "length lan \<le> MAX_INTERFACES" "length wan \<le> MAX_INTERFACES"
    "list_all2 (\<lambda>v l. load_local_row empty_config v = Some l) lan ls"
    "list_all2 (\<lambda>r w. load_wan_row empty_config r = Some w) wan ws"
    "row_bases sha256 rows wire_init = Some bs"
    "cfg1 = empty_config\<lparr> ac_locals := ls, ac_wans := ws \<rparr>"
    "length (row_policies bs) \<le> policy_room (cfg1, profile_base cfg1 db row)"
    "cfg = apply_crypto_derived_from_policies
       ((fst (with_policies (row_policies bs) (cfg1, profile_base cfg1 db row)))
          \<lparr> ac_profiles := [snd (with_policies (row_policies bs) (cfg1, profile_base cfg1 db row))] \<rparr>)"
    "config_validate cfg = 0"
proof -
  from assms obtain db cfg2 where d: "conn profile_id = Some db" "fetch_config_from_db sha256 db empty_config = Some cfg2"
    "cfg = apply_crypto_derived_from_policies cfg2" "config_validate cfg = 0"
    by (auto simp: config_load_from_db_def bind_eq_Some_conv Let_def split: if_splits)
  from d(2) obtain lan c1 wan c2 where l: "dr_lan db = Some lan" "load_local_rows empty_config lan = Some c1"
    "dr_wan db = Some wan" "load_wan_rows c1 wan = Some c2" "load_profiles_and_policies sha256 db c2 = Some cfg2"
    by (auto simp: fetch_config_from_db_def bind_eq_Some_conv split: if_splits)
  from l(2) have lan: "lan \<noteq> []" "length lan \<le> MAX_INTERFACES" "add_local_rows empty_config lan = Some c1"
    by (auto simp: load_local_rows_def split: if_splits)
  from add_local_rows_eq [OF lan(3)] obtain ls where ls:
    "c1 = empty_config\<lparr> ac_locals := ls \<rparr>" "list_all2 (\<lambda>v l. load_local_row empty_config v = Some l) lan ls"
    by (auto simp: empty_config_def)
  from l(4) have wan: "wan \<noteq> []" "length wan \<le> MAX_INTERFACES" "add_wan_rows c1 wan = Some c2"
    by (auto simp: load_wan_rows_def split: if_splits)
  have kw: "load_wan_row c1 v = load_wan_row empty_config v" for v by (simp add: ls(1) load_wan_row_def)
  have e: "ac_wans c1 = []" by (simp add: ls(1) empty_config_def)
  from add_wan_rows_eq [OF wan(3)] obtain ws where w: "c2 = c1\<lparr> ac_wans := ac_wans c1 @ ws \<rparr>"
    "list_all2 (\<lambda>r w. load_wan_row c1 r = Some w) wan ws" by blast
  have ws: "c2 = empty_config\<lparr> ac_locals := ls, ac_wans := ws \<rparr>"
    "list_all2 (\<lambda>r w. load_wan_row empty_config r = Some w) wan ws"
    using w by (simp_all add: e kw) (simp add: ls(1))
  from l(5) obtain row rows s where p: "dr_profile db = Some row" "dr_policies db = Some rows"
    "load_policy_rows sha256 rows wire_init (c2, profile_base c2 db row) = Some s"
    "cfg2 = (fst s)\<lparr> ac_profiles := ac_profiles (fst s) @ [snd s] \<rparr>"
    by (cases "dr_profile_lan db")
      (auto simp: load_profiles_and_policies_def profile_base_def bind_eq_Some_conv Let_def)
  from p(3) obtain bs where bs: "row_bases sha256 rows wire_init = Some bs"
    "length (row_policies bs) \<le> policy_room (c2, profile_base c2 db row)" "s = with_policies (row_policies bs) (c2, profile_base c2 db row)"
    by (auto simp: load_policy_rows_eq split: option.splits if_splits)
  have "ac_profiles (fst s) = []" by (simp add: bs(3) with_policies_def ws(1) empty_config_def)
  then have c: "cfg = apply_crypto_derived_from_policies ((fst s)\<lparr> ac_profiles := [snd s] \<rparr>)" using d(3) p(4) by simp
  show thesis
    by (rule that [OF d(1) l(1,3) p(1,2) lan(1) wan(1) lan(2) wan(2) ls(2) ws(2) bs(1) ws(1) bs(2) _ d(4)])
      (use c in \<open>simp add: bs(3)\<close>)
qed

section \<open>Keys of loaded policies\<close>

lemma scan_hex_pairs_length: "scan_hex_pairs n s = Some bs \<Longrightarrow> length bs = n"
  by (induction n s arbitrary: bs rule: scan_hex_pairs.induct) (auto simp: bind_eq_Some_conv)

definition sha256_ok :: "(u8 list \<Rightarrow> u8 list) \<Rightarrow> bool" where
  "sha256_ok sha256 \<longleftrightarrow> (\<forall>m. length (sha256 m) = 32)"

lemma fill_policy_key_shape:
  assumes "sha256_ok sha256" "kl \<le> 32"
  shows "\<exists>k. length k = kl \<and> ne_fill_policy_key sha256 v kl = k @ replicate (32 - kl) 0"
proof -
  have z: "replicate 32 0 = replicate kl (0::u8) @ replicate (32 - kl) 0"
    using assms(2) by (simp add: replicate_add [symmetric])
  show ?thesis
    using assms unfolding ne_fill_policy_key_def z sha256_ok_def
    by (auto simp: parse_hex_bytes_def scan_hex_pairs_length split: option.splits if_splits)
qed

definition policy_typed :: "crypto_policy \<Rightarrow> bool" where
  "policy_typed cp \<longleftrightarrow> length (cp_key cp) = 32 \<and> cp_aes_bits cp \<in> {128, 256} \<and> 0 < cp_nonce_size cp \<and>
     (encrypts cp \<longrightarrow> drop (if cp_aes_bits cp = 256 then 32 else 16) (cp_key cp)
        = replicate (32 - (if cp_aes_bits cp = 256 then 32 else 16)) 0)"

lemma policy_base_typed:
  assumes sha: "sha256_ok sha256" and b: "policy_base sha256 r ws = Some (b, ws')"
  shows "policy_typed b"
proof (cases "parse_action_name (pr_action r) = POLICY_ACTION_BYPASS")
  case True
  then show ?thesis using b by (auto simp: policy_base_def policy_typed_def encrypts_def zero_policy_def Let_def)
next
  case False
  obtain mode bits where m: "ne_parse_method (pr_method r) = (mode, bits)" by (cases "ne_parse_method (pr_method r)")
  obtain k16 where k16: "length k16 = 16" "ne_fill_policy_key sha256 (pr_key r) 16 = k16 @ replicate 16 0"
    using fill_policy_key_shape [OF sha, of 16] by auto
  obtain k32 where k32: "length k32 = 32" "ne_fill_policy_key sha256 (pr_key r) 32 = k32"
    using fill_policy_key_shape [OF sha, of 32] by auto
  show ?thesis
    using b False by (cases "bits = 256")
      (auto simp: policy_base_def policy_typed_def zero_policy_def Let_def m k16 k32 split: option.splits)
qed

lemma row_bases_typed:
  assumes "sha256_ok sha256" "row_bases sha256 rs ws = Some bs"
  shows "(r, b) \<in> set bs \<Longrightarrow> policy_typed b"
  using assms(2)
proof (induction rs arbitrary: ws bs)
  case (Cons x rs)
  then obtain b0 ws1 bs' where x: "policy_base sha256 x ws = Some (b0, ws1)" "row_bases sha256 rs ws1 = Some bs'"
    "bs = (x, b0) # bs'" by (auto simp: bind_eq_Some_conv)
  show ?case
  proof (cases "(r, b) \<in> set bs'")
    case True
    then show ?thesis using Cons.IH x(2) by blast
  next
    case False
    then show ?thesis using Cons.prems x(3) policy_base_typed [OF assms(1) x(1)] by simp
  qed
qed simp

lemma expanded_typed [simp]: "policy_typed (expanded_policy r b x) = policy_typed b"
  by (simp add: policy_typed_def encrypts_def)

lemma wire_key_inj:
  assumes "policy_typed a" "policy_typed b" "encrypts a" "encrypts b"
  shows "wire_key a = wire_key b \<longleftrightarrow> cp_key a = cp_key b \<and> cp_aes_bits a = cp_aes_bits b"
proof
  assume e: "wire_key a = wire_key b"
  have l: "length (wire_key c) = (if cp_aes_bits c = 256 then 32 else 16)" if "policy_typed c" for c
    using that by (auto simp: wire_key_def policy_typed_def)
  have bits: "(cp_aes_bits a = 256) = (cp_aes_bits b = 256)"
    using l [OF assms(1)] l [OF assms(2)] e by (auto split: if_splits)
  then have "cp_aes_bits a = cp_aes_bits b" using assms(1,2) by (auto simp: policy_typed_def)
  moreover have "cp_key c = wire_key c @ replicate (32 - (if cp_aes_bits c = 256 then 32 else 16)) 0"
    if "policy_typed c" "encrypts c" for c
    using that append_take_drop_id [of "if cp_aes_bits c = 256 then 32 else 16" "cp_key c"]
    unfolding wire_key_def policy_typed_def by metis
  ultimately show "cp_key a = cp_key b \<and> cp_aes_bits a = cp_aes_bits b" using assms e by metis
qed (simp add: wire_key_def)

lemma loaded_policies:
  assumes "config_load_from_db sha256 conn profile_id = Some cfg"
  obtains rows bs where "row_bases sha256 rows wire_init = Some bs" "ac_policies cfg = row_policies bs"
    "length (ac_policies cfg) \<le> MAX_CRYPTO_POLICIES"
  using assms
  by (rule config_load_inv) (rule that, auto simp: with_policies_def policy_room_def empty_config_def)

text \<open>C23: in a loaded configuration the wire id of an encrypting policy determines its key: ids are between 1 and 255,
  two policies with the same id have the same key and key size, and as long as at most 64 different keys are in
  use (the size of the loader's table) two policies with the same key and size share their id.\<close>

theorem wire_id_names_key:
  assumes "sha256_ok sha256" "config_load_from_db sha256 conn profile_id = Some cfg"
    and "cp \<in> set (ac_policies cfg)" "cp' \<in> set (ac_policies cfg)"
    and "cp_action cp \<noteq> POLICY_ACTION_BYPASS" "cp_action cp' \<noteq> POLICY_ACTION_BYPASS"
  shows "1 \<le> cp_id cp \<and> cp_id cp \<le> 255 \<and>
    (cp_id cp = cp_id cp' \<longrightarrow> cp_key cp = cp_key cp' \<and> cp_aes_bits cp = cp_aes_bits cp') \<and>
    (card {wire_key p |p. p \<in> set (ac_policies cfg) \<and> cp_action p \<noteq> POLICY_ACTION_BYPASS} \<le> NE_KEY_WIRE_MAP_MAX \<longrightarrow>
       cp_key cp = cp_key cp' \<and> cp_aes_bits cp = cp_aes_bits cp' \<longrightarrow> cp_id cp = cp_id cp')"
proof -
  from assms(2) obtain rows bs where r: "row_bases sha256 rows wire_init = Some bs" "ac_policies cfg = row_policies bs"
    by (rule loaded_policies)
  define A where "A = key_ids (set (ac_policies cfg))"
  have A: "A = key_ids (snd ` set bs)" unfolding A_def r(2) by (rule key_ids_expanded)
  from row_bases_wire [OF wire_ok_init r(1)] obtain m used where w: "wire_ok A (m, used)" by (auto simp: A)
  have in_A: "(wire_key cp, cp_id cp) \<in> A" "(wire_key cp', cp_id cp') \<in> A"
    using assms(3-6) by (auto simp: A_def key_ids_def encrypts_def)
  have ty: "policy_typed p" if "p \<in> set (ac_policies cfg)" for p
    using that row_bases_typed [OF assms(1) r(1)] by (auto simp: r(2) row_policies_set)
  note k = wire_key_inj [OF ty ty, OF assms(3,4)]
  have keys: "fst ` A = {wire_key p |p. p \<in> set (ac_policies cfg) \<and> cp_action p \<noteq> POLICY_ACTION_BYPASS}"
    by (auto simp: A_def key_ids_def encrypts_def image_image)
  have range: "\<forall>(k, i) \<in> A. 1 \<le> i \<and> i \<le> 255 \<and> used ! nat i"
    and inj: "\<forall>(k, i) \<in> A. \<forall>(k', j) \<in> A. i = j \<longrightarrow> k = k'" using w by (simp_all add: wire_ok_def)
  have "cp_id cp = cp_id cp' \<longrightarrow> wire_key cp = wire_key cp'" using bspec [OF bspec [OF inj in_A(1), unfolded prod.case] in_A(2)] by simp
  moreover have "1 \<le> cp_id cp" "cp_id cp \<le> 255" using bspec [OF range in_A(1)] by simp_all
  moreover have "cp_id cp = cp_id cp'" if c: "card (fst ` A) \<le> NE_KEY_WIRE_MAP_MAX" "wire_key cp = wire_key cp'"
  proof -
    have m: "A = map_pairs m" "distinct (map kw_key m)" using w c(1) by (auto simp: wire_ok_def)
    obtain e e' where "e \<in> set m" "e' \<in> set m" "kw_key e = wire_key cp" "kw_wire_id e = cp_id cp"
      "kw_key e' = wire_key cp'" "kw_wire_id e' = cp_id cp'"
      using in_A unfolding m(1) by (auto simp: map_pairs_def)
    with m(2) c(2) show ?thesis by (metis distinct_map inj_onD)
  qed
  ultimately show ?thesis using k assms(5,6) unfolding keys [symmetric] encrypts_def by blast
qed

section \<open>The shape of a loaded configuration\<close>

definition indices_in :: "nat \<Rightarrow> int list \<Rightarrow> bool" where
  "indices_in n is = list_all (\<lambda>i. 0 \<le> i \<and> i < int n) is"

definition profile_typed :: "app_config \<Rightarrow> profile_config \<Rightarrow> bool" where
  "profile_typed cfg p \<longleftrightarrow> indices_in (length (ac_locals cfg)) (pf_local_indices p) \<and>
     indices_in (length (ac_wans cfg)) (pf_wan_indices p) \<and> length (pf_wan_bandwidth_weight p) = length (pf_wan_indices p) \<and>
     length (pf_local_indices p) \<le> MAX_PROFILE_INTERFACES \<and> length (pf_wan_indices p) \<le> MAX_PROFILE_INTERFACES \<and>
     length (pf_name p) < 64"

definition config_typed :: "app_config \<Rightarrow> bool" where
  "config_typed cfg \<longleftrightarrow>
     0 < length (ac_locals cfg) \<and> length (ac_locals cfg) \<le> MAX_INTERFACES \<and>
     0 < length (ac_wans cfg) \<and> length (ac_wans cfg) \<le> MAX_INTERFACES \<and>
     (\<forall>l \<in> set (ac_locals cfg). lc_ifname l \<noteq> [] \<and> length (lc_ifname l) < 16 \<and>
        length (lc_src_mac l) = 6 \<and> length (lc_dst_mac l) = 6) \<and>
     (\<forall>w \<in> set (ac_wans cfg). wc_ifname w \<noteq> [] \<and> length (wc_ifname w) < 16 \<and>
        length (wc_src_mac w) = 6 \<and> length (wc_dst_mac w) = 6) \<and>
     length (ac_policies cfg) \<le> MAX_CRYPTO_POLICIES \<and> (\<forall>cp \<in> set (ac_policies cfg). policy_typed cp) \<and>
     (\<exists>p. ac_profiles cfg = [p] \<and> profile_typed cfg p \<and>
        pf_policy_indices p = map int [0..<length (ac_policies cfg)])"

lemma scan_mac_length: "scan_mac n s = Some m \<Longrightarrow> length m = n"
proof (induction n arbitrary: s m)
  case (Suc n)
  then show ?case by (cases "n = 0") (auto simp: bind_eq_Some_conv)
qed simp

lemma set_mac_length: "length mac = 6 \<Longrightarrow> length (set_mac v mac) = 6"
  by (auto simp: set_mac_def parse_mac_def scan_mac_length split: option.split)

lemma list_all2_in_set: "list_all2 P xs ys \<Longrightarrow> y \<in> set ys \<Longrightarrow> \<exists>x \<in> set xs. P x y"
  by (metis in_set_conv_nth list_all2_conv_all_nth)

lemma load_local_row_typed:
  assumes "load_local_row cfg v = Some l"
  shows "lc_ifname l \<noteq> []" "length (lc_ifname l) < 16" "length (lc_src_mac l) = 6" "length (lc_dst_mac l) = 6"
    "lc_ip l = 0" "lc_netmask l = 0" "lc_network l = 0" "lc_src_mac l = zero_mac" "lc_dst_mac l = zero_mac"
  using assms by (auto simp: load_local_row_def zero_mac_def split: if_splits)

lemma load_wan_row_typed:
  assumes "load_wan_row cfg r = Some w"
  shows "wc_ifname w \<noteq> []" "length (wc_ifname w) < 16" "length (wc_src_mac w) = 6" "length (wc_dst_mac w) = 6"
  using assms by (auto simp: load_wan_row_def zero_mac_def set_mac_length split: if_splits)

lemma first_index_range: "first_index P 0 xs \<ge> 0 \<Longrightarrow> first_index P 0 xs < int (length xs)"
  using first_index_some [of 0 P xs] by force

lemma fold_keeps:
  assumes "\<And>x p. I p \<Longrightarrow> I (f x p)"
  shows "I p \<Longrightarrow> I (fold f xs p)"
  using assms by (induction xs arbitrary: p) auto

lemma profile_base_typed: "profile_typed cfg (profile_base cfg db row)"
proof -
  obtain pid name en where row: "row = (pid, name, en)" by (cases row)
  have l: "profile_typed cfg p \<Longrightarrow> profile_typed cfg (profile_add_local cfg v p)" for v p
    using first_index_range [of "\<lambda>l. lc_ifname l = v" "ac_locals cfg"]
    by (auto simp: profile_typed_def profile_add_local_def indices_in_def Let_def find_local_by_ifname_def)
  have w: "profile_typed cfg p \<Longrightarrow> profile_typed cfg (profile_append_wan cfg v p)" for v p
    using first_index_range [of "\<lambda>w. wc_ifname w = fst v" "ac_wans cfg"]
    by (auto simp: profile_typed_def profile_append_wan_def indices_in_def Let_def find_wan_by_ifname_def)
  show ?thesis
    unfolding profile_base_def row prod.case profile_append_wans_from_rows_def
    by (auto split: option.split intro!: fold_keeps [of "profile_typed cfg"] l w)
      (simp_all add: profile_typed_def indices_in_def)
qed

lemma profile_base_policies: "pf_policy_indices (profile_base cfg db row) = []"
proof -
  obtain pid name en where row: "row = (pid, name, en)" by (cases row)
  let ?I = "\<lambda>p. pf_policy_indices p = []"
  have l: "?I p \<Longrightarrow> ?I (profile_add_local cfg v p)" for v p by (simp add: profile_add_local_def Let_def)
  have w: "?I p \<Longrightarrow> ?I (profile_append_wan cfg v p)" for v p by (simp add: profile_append_wan_def Let_def)
  show ?thesis
    unfolding profile_base_def row prod.case profile_append_wans_from_rows_def
    by (auto split: option.split intro!: fold_keeps [of ?I] l w)
qed

lemma loaded_interfaces:
  assumes "config_load_from_db sha256 conn profile_id = Some cfg"
  shows "\<forall>l \<in> set (ac_locals cfg). lc_ip l = 0 \<and> lc_netmask l = 0 \<and> lc_network l = 0 \<and>
    lc_src_mac l = zero_mac \<and> lc_dst_mac l = zero_mac"
proof -
  from assms obtain lan ls where "list_all2 (\<lambda>v l. load_local_row empty_config v = Some l) lan ls" "ac_locals cfg = ls"
    by (rule config_load_inv) (auto simp: with_policies_def)
  then show ?thesis
    by (auto dest!: list_all2_in_set dest: load_local_row_typed)
qed

text \<open>The size of the nonce is taken from the column as it is, whenever it is positive: the loader does not check it against the
  sizes 4, 8, 12 and 16 that the table allows, or against the 16 bytes of the buffers.\<close>

lemma nonce_size_unchecked:
  assumes "policy_base sha256 r ws = Some (b, ws')" "cp_action b \<noteq> POLICY_ACTION_BYPASS" "pr_nonce r = Some v" "0 < c_atoi v"
  shows "cp_nonce_size b = c_atoi v"
  using assms by (auto simp: policy_base_def zero_policy_def Let_def split: if_splits option.splits prod.splits)

text \<open>C21: every configuration that the loader accepts has the right shape: between 1 and 16 interfaces of each kind with names
  and MAC addresses of the right length, at most 128 policies with 32-byte keys (zero after the key size) and key sizes 128 or
  256, and exactly one profile whose interface indices are in range, with one weight for every WAN, and which lists all the
  policies in order. Of the nonce sizes it says only that they are positive, since the loader checks no more
  (\<open>nonce_size_unchecked\<close>).\<close>

theorem loaded_config_typed:
  assumes "sha256_ok sha256" "config_load_from_db sha256 conn profile_id = Some cfg"
  shows "config_typed cfg"
  using assms(2)
proof (rule config_load_inv)
  fix db lan wan ls ws row rows bs cfg1
  assume a: "lan \<noteq> []" "wan \<noteq> []" "length lan \<le> MAX_INTERFACES" "length wan \<le> MAX_INTERFACES"
    "list_all2 (\<lambda>v l. load_local_row empty_config v = Some l) lan ls"
    "list_all2 (\<lambda>r w. load_wan_row empty_config r = Some w) wan ws"
    "row_bases sha256 rows wire_init = Some bs" "cfg1 = empty_config\<lparr> ac_locals := ls, ac_wans := ws \<rparr>"
    "length (row_policies bs) \<le> policy_room (cfg1, profile_base cfg1 db row)"
    "cfg = apply_crypto_derived_from_policies
       ((fst (with_policies (row_policies bs) (cfg1, profile_base cfg1 db row)))
          \<lparr> ac_profiles := [snd (with_policies (row_policies bs) (cfg1, profile_base cfg1 db row))] \<rparr>)"
  have e: "ac_policies cfg1 = []" "ac_locals cfg1 = ls" "ac_wans cfg1 = ws" by (simp_all add: a(8) empty_config_def)
  have c: "ac_locals cfg = ls" "ac_wans cfg = ws" "ac_policies cfg = row_policies bs"
    "ac_profiles cfg = [(profile_base cfg1 db row)\<lparr> pf_policy_indices := map int [0..<length (row_policies bs)] \<rparr>]"
    by (simp_all add: a(10) with_policies_def e profile_base_policies)
  have "\<forall>l \<in> set ls. lc_ifname l \<noteq> [] \<and> length (lc_ifname l) < 16 \<and> length (lc_src_mac l) = 6 \<and> length (lc_dst_mac l) = 6"
    using a(5) by (auto dest!: list_all2_in_set dest: load_local_row_typed)
  moreover have "\<forall>w \<in> set ws. wc_ifname w \<noteq> [] \<and> length (wc_ifname w) < 16 \<and> length (wc_src_mac w) = 6 \<and> length (wc_dst_mac w) = 6"
    using a(6) by (auto dest!: list_all2_in_set dest: load_wan_row_typed)
  moreover have "\<forall>cp \<in> set (row_policies bs). policy_typed cp"
    using row_bases_typed [OF assms(1) a(7)] by (auto simp: row_policies_set)
  moreover have "profile_typed cfg ((profile_base cfg1 db row)\<lparr> pf_policy_indices := x \<rparr>)" for x
    using profile_base_typed [of cfg1 db row] by (simp add: profile_typed_def c e)
  moreover have "length ls = length lan" "length ws = length wan" using a(5,6) by (auto dest: list_all2_lengthD)
  moreover have "length (row_policies bs) \<le> MAX_CRYPTO_POLICIES" using a(9) by (simp add: policy_room_def)
  ultimately show ?thesis using a(1-4) unfolding config_typed_def c by simp
qed

definition sample_policy_row :: policy_row where
  "sample_policy_row = \<lparr> pr_id = ''5'', pr_priority = ''1'', pr_action = ''encrypt_l3'', pr_proto = Some ''tcp'',
     pr_src = Some ''10.1.0.0/16,10.2.0.0/16'', pr_invert_src = ''t'', pr_dst = None, pr_invert_dst = ''f'', pr_sport = None,
     pr_dport = Some ''443'', pr_method = Some ''aes-gcm-128'', pr_key = Some ''000102030405060708090a0b0c0d0e0f'', pr_nonce = Some ''12'' \<rparr>"

definition sample_db_rows :: db_rows where
  "sample_db_rows = \<lparr> dr_exists = Some True, dr_lan = Some [''lan0''], dr_wan = Some [\<lparr> wn_ifname = ''wan0'', wn_dst_ip = '''', wn_src_mac = None, wn_dst_mac = None \<rparr>],
     dr_profile = Some (''1'', ''site'', ''1''), dr_profile_lan = Some [''lan0''], dr_profile_wan = Some [(''wan0'', Some ''100'')],
     dr_policies = Some [sample_policy_row] \<rparr>"

definition sample_sha256 :: "u8 list \<Rightarrow> u8 list" where "sample_sha256 m = replicate 32 7"
definition sample_conn :: "int \<Rightarrow> db_rows option" where "sample_conn i = Some sample_db_rows"

lemma sample_load: "map_option (\<lambda>cfg. (map cp_src_net (ac_policies cfg), map cp_id (ac_policies cfg), map cp_action (ac_policies cfg))) (config_load_from_db sample_sha256 sample_conn 1) =
  Some ([266, 522], [5, 5], [3, 3])"
  by code_simp

lemma sample_sha256_ok: "sha256_ok sample_sha256"
  by (simp add: sha256_ok_def sample_sha256_def)

lemma sample_cfg:
  obtains cfg where "config_load_from_db sample_sha256 sample_conn 1 = Some cfg"
    "map cp_action (ac_policies cfg) = [3, 3]"
  using sample_load by (cases "config_load_from_db sample_sha256 sample_conn 1") auto

theorem loaded_config_typed_witness:
  "\<exists>cfg. config_load_from_db sample_sha256 sample_conn 1 = Some cfg \<and> config_typed cfg \<and> length (ac_policies cfg) = 2"
  by (rule sample_cfg) (auto dest: loaded_config_typed [OF sample_sha256_ok] arg_cong [of _ _ length])

theorem wire_id_names_key_witness:
  "\<exists>cfg cp. config_load_from_db sample_sha256 sample_conn 1 = Some cfg \<and> cp \<in> set (ac_policies cfg) \<and>
     1 \<le> cp_id cp \<and> cp_id cp \<le> 255"
proof (rule sample_cfg)
  fix cfg assume c: "config_load_from_db sample_sha256 sample_conn 1 = Some cfg" "map cp_action (ac_policies cfg) = [3, 3]"
  from c(2) obtain cp cs where cp: "ac_policies cfg = cp # cs" "cp_action cp = 3" by auto
  then have "cp \<in> set (ac_policies cfg)" "cp_action cp \<noteq> POLICY_ACTION_BYPASS" by (simp_all add: POLICY_ACTION_BYPASS_def)
  with wire_id_names_key [OF sample_sha256_ok c(1) this(1) this(1) this(2) this(2)] c(1) show ?thesis by blast
qed

section \<open>What the expansion matches\<close>

text \<open>What the loader reads out of a row, one item at a time: an address against one item of a list column, a port against one
  item, and a packet against a row: any protocol or the row's, and one item of each column that matches. This is the loader's
  own reading; \<open>DbRules\<close> relates it to the rules that the table states.\<close>

definition item_matches :: "bool \<Rightarrow> u32 \<Rightarrow> string \<Rightarrow> bool" where
  "item_matches invert ip item =
     (case parse_cidr_any_or_negated (ne_cidr_buf_with_invert item invert) of
        None \<Rightarrow> True
      | Some (a, n, net, msk) \<Rightarrow> cidr_match_with_negate a n ip net msk)"

definition item_has_port :: "u16 \<Rightarrow> string \<Rightarrow> bool" where
  "item_has_port port item = port_in_range (fst (port_item item)) (snd (port_item item)) port"

definition row_matches :: "policy_row \<Rightarrow> u32 \<Rightarrow> u32 \<Rightarrow> u16 \<Rightarrow> u16 \<Rightarrow> u8 \<Rightarrow> bool" where
  "row_matches r sip dip sp dp proto \<longleftrightarrow>
     parse_protocol_name (pr_proto r) \<in> {POLICY_PROTO_ANY, proto} \<and>
     list_ex (item_matches (pr_invert_src r = ''t'') sip) (ne_fill_str_list (pr_src r)) \<and>
     list_ex (item_matches (pr_invert_dst r = ''t'') dip) (ne_fill_str_list (pr_dst r)) \<and>
     list_ex (item_has_port sp) (ne_fill_str_list (pr_sport r)) \<and>
     list_ex (item_has_port dp) (ne_fill_str_list (pr_dport r))"

lemma set_src_match:
  "cidr_match_with_negate (cp_src_any (set_src t cp)) (cp_src_negate (set_src t cp)) ip (cp_src_net (set_src t cp)) (cp_src_mask (set_src t cp))
     = (case parse_cidr_any_or_negated t of None \<Rightarrow> True | Some (a, n, net, msk) \<Rightarrow> cidr_match_with_negate a n ip net msk)"
  by (auto simp: set_src_def cidr_match_with_negate_def split: option.split)

lemma set_dst_match:
  "cidr_match_with_negate (cp_dst_any (set_dst t cp)) (cp_dst_negate (set_dst t cp)) ip (cp_dst_net (set_dst t cp)) (cp_dst_mask (set_dst t cp))
     = (case parse_cidr_any_or_negated t of None \<Rightarrow> True | Some (a, n, net, msk) \<Rightarrow> cidr_match_with_negate a n ip net msk)"
  by (auto simp: set_dst_def cidr_match_with_negate_def split: option.split)

lemma set_ports [simp]:
  "cp_src_port_from (set_src t cp) = cp_src_port_from cp" "cp_src_port_to (set_src t cp) = cp_src_port_to cp"
  "cp_dst_port_from (set_src t cp) = cp_dst_port_from cp" "cp_dst_port_to (set_src t cp) = cp_dst_port_to cp"
  "cp_src_port_from (set_dst t cp) = cp_src_port_from cp" "cp_src_port_to (set_dst t cp) = cp_src_port_to cp"
  "cp_dst_port_from (set_dst t cp) = cp_dst_port_from cp" "cp_dst_port_to (set_dst t cp) = cp_dst_port_to cp"
  "cp_protocol (set_src t cp) = cp_protocol cp" "cp_protocol (set_dst t cp) = cp_protocol cp"
  by (auto simp: set_src_def set_dst_def split: option.split)

lemma expanded_matches:
  "crypto_policy_match_packet (expanded_policy r b (s, d, p, q)) sip dip sp dp proto \<longleftrightarrow>
     cp_protocol b \<in> {POLICY_PROTO_ANY, proto} \<and> item_matches (pr_invert_src r = ''t'') sip s \<and>
     item_matches (pr_invert_dst r = ''t'') dip d \<and> item_has_port sp p \<and> item_has_port dp q"
  by (auto simp: expanded_policy_def crypto_policy_match_packet_def set_src_match set_dst_match item_matches_def item_has_port_def)

lemma expansion_matches:
  "cp_protocol b = parse_protocol_name (pr_proto r) \<Longrightarrow>
   (\<exists>x \<in> set (row_items r). crypto_policy_match_packet (expanded_policy r b x) sip dip sp dp proto) \<longleftrightarrow>
   row_matches r sip dip sp dp proto"
  by (auto simp: row_items_def expanded_matches row_matches_def list_ex_iff)

lemma policy_base_protocol: "policy_base sha256 r ws = Some (b, ws') \<Longrightarrow> cp_protocol b = parse_protocol_name (pr_proto r)"
  by (auto simp: policy_base_def Let_def split: if_splits option.splits prod.splits)

lemma row_bases_rows: "row_bases sha256 rows ws = Some bs \<Longrightarrow>
  map fst bs = rows \<and> (\<forall>(r, b) \<in> set bs. cp_protocol b = parse_protocol_name (pr_proto r))"
proof (induction rows arbitrary: ws bs)
  case (Cons r rs)
  then obtain b ws' cs where "policy_base sha256 r ws = Some (b, ws')" "row_bases sha256 rs ws' = Some cs" "bs = (r, b) # cs"
    by (auto simp: bind_eq_Some_conv)
  with Cons.IH [of ws' cs] policy_base_protocol show ?case by auto
qed simp

section \<open>Inverted lists\<close>

lemma any_text: "parse_cidr_any_or_negated (ne_cidr_buf_with_invert ''ANY'' False) = Some (True, False, 0, 0)"
  by code_simp

lemma fill_item_length: "s \<in> set (ne_fill_str_list v) \<Longrightarrow> length s \<le> 95"
  by (auto simp: ne_fill_str_list_def split_cidr_list_def MAX_CIDR_ITEM_LEN_def Let_def split: option.splits if_splits)

lemma bang_not_any: "\<not> str_is_any (Some (CHR ''!'' # s))"
  by (simp add: str_is_any_def skip_blanks_def is_blank_def strcaseeq_def lower_char_def code_def)

lemma inverted_item:
  assumes "length s \<le> 95" "parse_cidr_any_or_negated s = Some (False, False, net, msk)" "s \<noteq> []" "hd s \<noteq> CHR ''!''"
  shows "parse_cidr_any_or_negated (ne_cidr_buf_with_invert s True) = Some (False, True, net, msk)"
proof -
  have s: "\<not> str_is_any (Some s)" using assms(2) by (auto simp: parse_cidr_any_or_negated_def split: if_splits)
  have b: "skip_blanks (CHR ''!'' # s) = CHR ''!'' # s" by (simp add: skip_blanks_def is_blank_def code_def)
  have n: "\<not> (skip_blanks s \<noteq> [] \<and> hd (skip_blanks s) = CHR ''!'')"
    using assms(2) s by (auto simp: parse_cidr_any_or_negated_def Let_def split: if_splits option.splits)
  then show ?thesis
    using assms s by (auto simp: parse_cidr_any_or_negated_def ne_cidr_buf_with_invert_def bang_not_any b Let_def split: option.splits if_splits)
qed

text \<open>Inverting a list does not exclude its networks: with the invert flag and two networks that share no address in the
  column, the row's source condition holds for every address.\<close>

lemma inverted_list_matches_all:
  assumes "pr_invert_src r = ''t''"
    and "s \<in> set (ne_fill_str_list (pr_src r))" "hd s \<noteq> CHR ''!''" "parse_cidr_any_or_negated s = Some (False, False, net, msk)"
    and "s' \<in> set (ne_fill_str_list (pr_src r))" "hd s' \<noteq> CHR ''!''" "parse_cidr_any_or_negated s' = Some (False, False, net', msk')"
    and "\<forall>ip. \<not> (cidr_match_with_negate False False ip net msk \<and> cidr_match_with_negate False False ip net' msk')"
  shows "row_matches r sip dip sp dp proto = row_matches (r\<lparr> pr_src := None, pr_invert_src := ''f'' \<rparr>) sip dip sp dp proto"
proof -
  have ne: "s \<noteq> []" "s' \<noteq> []" using assms(4,7) by (auto simp: parse_cidr_any_or_negated_def str_is_any_def skip_blanks_def)
  have "item_matches True sip s \<or> item_matches True sip s'"
    using inverted_item [OF fill_item_length [OF assms(2)] assms(4) ne(1) assms(3)]
      inverted_item [OF fill_item_length [OF assms(5)] assms(7) ne(2) assms(6)] assms(8)
    by (auto simp: item_matches_def cidr_match_with_negate_def Let_def)
  then have "list_ex (item_matches True sip) (ne_fill_str_list (pr_src r))" using assms(2,5) by (auto simp: list_ex_iff)
  moreover have "list_ex (item_matches False sip) (ne_fill_str_list None)"
    by (simp add: ne_fill_str_list_def item_matches_def any_text cidr_match_with_negate_def)
  ultimately show ?thesis by (simp add: row_matches_def assms(1))
qed

lemma sample_items:
  "ne_fill_str_list (pr_src sample_policy_row) = [''10.1.0.0/16'', ''10.2.0.0/16'']"
  "parse_cidr_any_or_negated ''10.1.0.0/16'' = Some (False, False, 0x10A, 0xFFFF)"
  "parse_cidr_any_or_negated ''10.2.0.0/16'' = Some (False, False, 0x20A, 0xFFFF)"
  by code_simp+

end
