(* ===== verification/Xdp.thy ===== *)
theory Xdp
  imports Flow Layer2 Layer3
begin

text \<open>
  The two XDP programs, \<open>bpf/xdp_redirect.c\<close> on the local and \<open>bpf/xdp_wan_redirect.c\<close> on the WAN interfaces, and
  the maps that \<open>src/core/interface.c\<close> fills for them. A frame is the list of its bytes, \<open>data_end\<close> is its end; a
  read behind it yields \<open>None\<close>, so that a result \<open>Some\<close> says that the verifier's condition holds. The socket map
  is represented by whether its slot 0 is filled.
\<close>

datatype xdp_action = XDP_ABORTED | XDP_DROP | XDP_PASS | XDP_TX | XDP_REDIRECT

text \<open>An array map of counters; a key behind its end is not found.\<close>

definition inc_stat :: "nat \<Rightarrow> 64 word list \<Rightarrow> 64 word list" where
  "inc_stat i st = (if i < length st then st[i := st ! i + 1] else st)"

text \<open>\<open>bpf_redirect_map\<close>: the low bits of the flags are the action when the slot is empty.\<close>

definition bpf_redirect_map :: "bool \<Rightarrow> xdp_action \<Rightarrow> xdp_action" where
  "bpf_redirect_map sock flags = (if sock then XDP_REDIRECT else flags)"

section \<open>The local program\<close>

text \<open>Source, destination and protocol; an inner \<open>None\<close> is the result -1.\<close>

definition xdp_parse_ipv4 :: "buf \<Rightarrow> (u32 \<times> u32 \<times> u8) option option" where
  "xdp_parse_ipv4 b =
     (if length b < 14 then Some None
      else do {
        et \<leftarrow> rd_be16 b 12;
        if et \<noteq> 0x0800 then Some None
        else if length b < 34 then Some None
        else do {
          src \<leftarrow> rd_le32 b 26;
          dst \<leftarrow> rd_le32 b 30;
          proto \<leftarrow> rd b 23;
          Some (Some (src, dst, proto)) } })"

definition read_tcp_udp_ports :: "buf \<Rightarrow> u8 \<Rightarrow> (u16 \<times> u16) option option" where
  "read_tcp_udp_ports b ip_proto =
     (if ip_proto \<noteq> 6 \<and> ip_proto \<noteq> 17 then Some (Some (0, 0))
      else if length b < 34 then Some None
      else do {
        ihl \<leftarrow> ip_ihl b 14;
        if ihl < 20 then Some None
        else if length b < 14 + ihl + 4 then Some None
        else do {
          sport \<leftarrow> rd_be16 b (14 + ihl);
          dport \<leftarrow> rd_be16 b (14 + ihl + 2);
          Some (Some (sport, dport)) } })"

definition xdp_redirect_prog :: "bool \<Rightarrow> 64 word list \<Rightarrow> buf \<Rightarrow> (xdp_action \<times> 64 word list) option" where
  "xdp_redirect_prog sock st b =
     (let st = inc_stat 0 st in
      if length b < 14 then Some (XDP_PASS, inc_stat 1 st)
      else do {
        et \<leftarrow> rd_be16 b 12;
        if et = 0x0806 then Some (XDP_PASS, inc_stat 7 st)
        else do {
          ip \<leftarrow> xdp_parse_ipv4 b;
          case ip of
            None \<Rightarrow> Some (XDP_PASS, inc_stat 1 st)
          | Some (src_ip, dst_ip, l4_proto) \<Rightarrow>
              if l4_proto = 1 then Some (XDP_PASS, inc_stat 4 st)
              else if l4_proto \<noteq> 6 \<and> l4_proto \<noteq> 17 then Some (XDP_PASS, inc_stat 8 st)
              else do {
                ports \<leftarrow> read_tcp_udp_ports b l4_proto;
                if ports = None then Some (XDP_PASS, inc_stat 10 st)
                else if \<not> sock then Some (XDP_PASS, inc_stat 5 st)
                else Some (bpf_redirect_map sock XDP_ABORTED, inc_stat 6 st) } } })"

section \<open>The WAN program\<close>

definition NE_L2_MARKER_BYTE :: u8 where "NE_L2_MARKER_BYTE = 0x88"

definition wan_redirect :: "bool \<Rightarrow> 64 word list \<Rightarrow> xdp_action \<times> 64 word list" where
  "wan_redirect sock st =
     (let ret = bpf_redirect_map sock XDP_DROP in (ret, inc_stat (if ret = XDP_REDIRECT then 2 else 3) st))"

text \<open>\<open>fake4\<close> is entry 0 of \<open>wan_config_map\<close>.\<close>

definition xdp_wan_redirect_prog :: "bool \<Rightarrow> u16 \<Rightarrow> 64 word list \<Rightarrow> buf \<Rightarrow> (xdp_action \<times> 64 word list) option" where
  "xdp_wan_redirect_prog sock fake4 st b =
     (let st = inc_stat 0 st in
      if length b < 14 then Some (XDP_PASS, st)
      else do {
        proto \<leftarrow> rd_be16 b 12;
        if proto = 0x0806 then Some (XDP_PASS, inc_stat 4 st)
        else if proto = 0x0800 then
          (if length b < 34 then Some (XDP_PASS, st)
           else do {
             p \<leftarrow> rd b 23;
             if p = 1 then Some (XDP_PASS, inc_stat 5 st) else Some (wan_redirect sock st) })
        else if proto = 0x86DD then Some (XDP_PASS, st)
        else do {
          marker \<leftarrow> rd b 12;
          if fake4 \<noteq> 0 \<and> marker = NE_L2_MARKER_BYTE then Some (wan_redirect sock (inc_stat 6 st))
          else Some (XDP_PASS, inc_stat 1 st) } })"

section \<open>The maps of the redirect filters\<close>

definition MAX_PROFILES_BPF :: nat where "MAX_PROFILES_BPF = 32"
definition MAX_ENCRYPT_PACK_BPF :: nat where "MAX_ENCRYPT_PACK_BPF = 128"

record xdp_encrypt_rule =
  xr_src_net :: u32
  xr_src_mask :: u32
  xr_dst_net :: u32
  xr_dst_mask :: u32
  xr_flags :: u32
  xr_protocol :: u8
  xr_src_port_from :: int
  xr_src_port_to :: int
  xr_dst_port_from :: int
  xr_dst_port_to :: int

record xdp_profile_meta =
  xm_enabled :: bool
  xm_enc_start :: nat
  xm_enc_num :: nat

record xdp_encrypt_ctrl =
  xc_profile_count :: nat
  xc_require_filter :: bool

definition crypto_policy_is_encrypt_action :: "crypto_policy \<Rightarrow> bool" where
  "crypto_policy_is_encrypt_action cp \<longleftrightarrow>
     cp_action cp = POLICY_ACTION_ENCRYPT_L2 \<or> cp_action cp = POLICY_ACTION_ENCRYPT_L3 \<or> cp_action cp = POLICY_ACTION_ENCRYPT_L4"

definition pack_rule :: "crypto_policy \<Rightarrow> xdp_encrypt_rule" where
  "pack_rule cp = \<lparr> xr_src_net = cp_src_net cp, xr_src_mask = cp_src_mask cp, xr_dst_net = cp_dst_net cp, xr_dst_mask = cp_dst_mask cp,
     xr_flags = (if cp_src_any cp then 1 else 0) OR (if cp_dst_any cp then 2 else 0) OR (if cp_src_negate cp then 4 else 0)
       OR (if cp_dst_negate cp then 8 else 0),
     xr_protocol = cp_protocol cp, xr_src_port_from = cp_src_port_from cp, xr_src_port_to = cp_src_port_to cp,
     xr_dst_port_from = cp_dst_port_from cp, xr_dst_port_to = cp_dst_port_to cp \<rparr>"

text \<open>The policies that the indices of a profile name.\<close>

fun pack_policies :: "app_config \<Rightarrow> int list \<Rightarrow> xdp_encrypt_rule list \<Rightarrow> xdp_encrypt_rule list" where
  "pack_policies cfg [] rs = rs"
| "pack_policies cfg (pix # is) rs =
     (if pix < 0 \<or> pix \<ge> int (length (ac_policies cfg)) then pack_policies cfg is rs
      else let cp = ac_policies cfg ! nat pix in
        if \<not> crypto_policy_is_encrypt_action cp then pack_policies cfg is rs
        else if length rs \<ge> MAX_ENCRYPT_PACK_BPF then rs
        else pack_policies cfg is (rs @ [pack_rule cp]))"

fun pack_profiles :: "app_config \<Rightarrow> profile_config list \<Rightarrow> xdp_profile_meta list \<Rightarrow> xdp_encrypt_rule list
    \<Rightarrow> xdp_profile_meta list \<times> xdp_encrypt_rule list" where
  "pack_profiles cfg [] ms rs = (ms, rs)"
| "pack_profiles cfg (p # ps) ms rs =
     (let rs' = pack_policies cfg (pf_policy_indices p) rs
      in pack_profiles cfg ps
           (ms @ [\<lparr> xm_enabled = pf_enabled p, xm_enc_start = length rs, xm_enc_num = length rs' - length rs \<rparr>]) rs')"

definition cfg_has_encrypt_policies :: "app_config \<Rightarrow> bool" where
  "cfg_has_encrypt_policies cfg =
     list_ex (\<lambda>p. list_ex (\<lambda>pix. 0 \<le> pix \<and> pix < int (length (ac_policies cfg)) \<and>
         crypto_policy_is_encrypt_action (ac_policies cfg ! nat pix)) (pf_policy_indices p))
       (take MAX_PROFILES (ac_profiles cfg))"

definition encrypt_filters :: "app_config \<Rightarrow> xdp_encrypt_ctrl \<times> xdp_profile_meta list \<times> xdp_encrypt_rule list" where
  "encrypt_filters cfg =
     (let ps = take MAX_PROFILES_BPF (ac_profiles cfg); (ms, rs) = pack_profiles cfg ps [] []
      in (\<lparr> xc_profile_count = length ps, xc_require_filter = cfg_has_encrypt_policies cfg \<rparr>, ms, rs))"

section \<open>Publishing the filters\<close>

text \<open>The file descriptors of one interface's maps, and the contents of all maps by descriptor.\<close>

record encrypt_bundle =
  eb_ctrl_fd :: int
  eb_meta_fd :: int
  eb_pack_fd :: int
  eb_ingress_fd :: int
  eb_ifindex :: nat

record bpf_maps =
  bm_ctrl :: "int \<Rightarrow> nat \<Rightarrow> xdp_encrypt_ctrl option"
  bm_meta :: "int \<Rightarrow> nat \<Rightarrow> xdp_profile_meta option"
  bm_rules :: "int \<Rightarrow> nat \<Rightarrow> xdp_encrypt_rule option"
  bm_ingress :: "int \<Rightarrow> nat \<Rightarrow> nat option"

definition register_encrypt_bundle :: "encrypt_bundle \<Rightarrow> encrypt_bundle list \<Rightarrow> encrypt_bundle list" where
  "register_encrypt_bundle b bs =
     (if eb_ctrl_fd b < 0 \<or> eb_meta_fd b < 0 \<or> eb_pack_fd b < 0 then bs
      else if length bs \<ge> MAX_INTERFACES then bs else bs @ [b])"

text \<open>\<open>upd fd k\<close> says whether the kernel accepts an update of key \<open>k\<close>. The loop over an array stops at the first failure.\<close>

fun put_all :: "(int \<Rightarrow> nat \<Rightarrow> bool) \<Rightarrow> int \<Rightarrow> nat \<Rightarrow> 'v list \<Rightarrow> (int \<Rightarrow> nat \<Rightarrow> 'v option) \<Rightarrow> int \<Rightarrow> nat \<Rightarrow> 'v option" where
  "put_all upd fd k [] m = m"
| "put_all upd fd k (x # xs) m = (if upd fd k then put_all upd fd (Suc k) xs (m(fd := (m fd)(k \<mapsto> x))) else m)"

definition bundle_profile :: "(string \<Rightarrow> nat) \<Rightarrow> app_config \<Rightarrow> nat \<Rightarrow> int" where
  "bundle_profile nametoindex cfg ifix =
     (let j = first_index (\<lambda>l. nametoindex (lc_ifname l) = ifix) 0 (ac_locals cfg);
          prof = (if j < 0 then -1 else config_select_profile_for_local cfg j)
      in if prof \<ge> 0 then prof
         else let j = first_index (\<lambda>w. nametoindex (wc_ifname w) = ifix) 0 (ac_wans cfg)
           in if j < 0 then -1 else config_select_profile_for_wan cfg j)"

definition zero_rule :: xdp_encrypt_rule where
  "zero_rule = \<lparr> xr_src_net = 0, xr_src_mask = 0, xr_dst_net = 0, xr_dst_mask = 0, xr_flags = 0, xr_protocol = 0,
     xr_src_port_from = 0, xr_src_port_to = 0, xr_dst_port_from = 0, xr_dst_port_to = 0 \<rparr>"

definition pad_to :: "nat \<Rightarrow> 'a \<Rightarrow> 'a list \<Rightarrow> 'a list" where
  "pad_to n x xs = xs @ replicate (n - length xs) x"

text \<open>One round of the loop over the bundles; the flag is \<open>ok\<close>.\<close>

definition push_bundle ::
  "(int \<Rightarrow> nat \<Rightarrow> bool) \<Rightarrow> (string \<Rightarrow> nat) \<Rightarrow> app_config \<Rightarrow> encrypt_bundle \<Rightarrow> bool \<times> bpf_maps \<Rightarrow> bool \<times> bpf_maps" where
  "push_bundle upd nametoindex cfg b s =
     (let (ok, m) = s; (ctrl, ms, rs) = encrypt_filters cfg in
      if \<not> upd (eb_ctrl_fd b) 0 then (ok, m)
      else
        let m = m\<lparr> bm_ctrl := put_all upd (eb_ctrl_fd b) 0 [ctrl] (bm_ctrl m),
                   bm_meta := put_all upd (eb_meta_fd b) 0
                     (pad_to MAX_PROFILES_BPF \<lparr> xm_enabled = False, xm_enc_start = 0, xm_enc_num = 0 \<rparr> ms) (bm_meta m),
                   bm_rules := put_all upd (eb_pack_fd b) 0 (pad_to MAX_ENCRYPT_PACK_BPF zero_rule rs) (bm_rules m) \<rparr>;
            prof = bundle_profile nametoindex cfg (eb_ifindex b)
        in (True,
            if eb_ingress_fd b \<ge> 0 \<and> eb_ifindex b \<noteq> 0 then
              (if prof \<ge> 0 \<and> prof < int (xc_profile_count ctrl)
               then (if upd (eb_ingress_fd b) (eb_ifindex b)
                     then m\<lparr> bm_ingress := (bm_ingress m)(eb_ingress_fd b := (bm_ingress m (eb_ingress_fd b))(eb_ifindex b \<mapsto> nat prof)) \<rparr>
                     else m)
               else m\<lparr> bm_ingress := (bm_ingress m)(eb_ingress_fd b := (bm_ingress m (eb_ingress_fd b))(eb_ifindex b := None)) \<rparr>)
            else m))"

definition interface_push_encrypt_filters ::
  "(int \<Rightarrow> nat \<Rightarrow> bool) \<Rightarrow> (string \<Rightarrow> nat) \<Rightarrow> encrypt_bundle list \<Rightarrow> app_config \<Rightarrow> bpf_maps \<Rightarrow> int \<times> bpf_maps" where
  "interface_push_encrypt_filters upd nametoindex bundles cfg m =
     (if bundles = [] then (0, m)
      else let (ok, m) = fold (push_bundle upd nametoindex cfg) bundles (False, m) in (if ok then 0 else -1, m))"

section \<open>Every frame is counted once\<close>

lemma rd_be16_ex: "i + 1 < length b \<Longrightarrow> \<exists>w. rd_be16 b i = Some w"
  by (simp add: rd_be16_def rd_def)

lemma rd_le32_ex: "i + 3 < length b \<Longrightarrow> \<exists>w. rd_le32 b i = Some w"
  by (simp add: rd_le32_def rd_def)

lemma rd_ex: "i < length b \<Longrightarrow> \<exists>w. rd b i = Some w"
  by (simp add: rd_def)

lemma ip_ihl_ex: "i < length b \<Longrightarrow> \<exists>k. ip_ihl b i = Some k"
  by (simp add: ip_ihl_def rd_def)

lemma xdp_parse_ipv4_total: "\<exists>x. xdp_parse_ipv4 b = Some x"
  using rd_be16_ex [of 12 b] rd_le32_ex [of 26 b] rd_le32_ex [of 30 b] rd_ex [of 23 b]
  by (fastforce simp: xdp_parse_ipv4_def)

lemma read_tcp_udp_ports_total: "\<exists>x. read_tcp_udp_ports b p = Some x"
proof -
  obtain ihl where "34 \<le> length b \<Longrightarrow> ip_ihl b 14 = Some ihl" using ip_ihl_ex [of 14 b] by fastforce
  with rd_be16_ex [of "14 + ihl" b] rd_be16_ex [of "16 + ihl" b] show ?thesis
    by (fastforce simp: read_tcp_udp_ports_def not_less)
qed

lemma xdp_redirect_cases:
  obtains i a where "xdp_redirect_prog sock st b = Some (a, inc_stat i (inc_stat 0 st))" "i \<in> {1, 4, 5, 6, 7, 8, 10}"
    "i = 6 \<longleftrightarrow> a = XDP_REDIRECT" "i \<noteq> 6 \<Longrightarrow> a = XDP_PASS"
    "a = XDP_REDIRECT \<Longrightarrow> 14 \<le> length b \<and> sock \<and> (\<exists>src dst p ports. xdp_parse_ipv4 b = Some (Some (src, dst, p)) \<and> p \<in> {6, 17} \<and>
       read_tcp_udp_ports b p = Some (Some ports))"
proof -
  obtain x where x: "xdp_parse_ipv4 b = Some x" using xdp_parse_ipv4_total by blast
  have "\<exists>i a. xdp_redirect_prog sock st b = Some (a, inc_stat i (inc_stat 0 st)) \<and> i \<in> {1, 4, 5, 6, 7, 8, 10} \<and>
      (i = 6 \<longleftrightarrow> a = XDP_REDIRECT) \<and> (i \<noteq> 6 \<longrightarrow> a = XDP_PASS) \<and>
      (a = XDP_REDIRECT \<longrightarrow> 14 \<le> length b \<and> sock \<and> (\<exists>src dst p ports. xdp_parse_ipv4 b = Some (Some (src, dst, p)) \<and> p \<in> {6, 17} \<and>
         read_tcp_udp_ports b p = Some (Some ports)))"
  proof (cases "length b < 14")
    case True
    then show ?thesis by (intro exI [of _ 1] exI [of _ XDP_PASS]) (simp add: xdp_redirect_prog_def)
  next
    case False
    then obtain et where et: "rd_be16 b 12 = Some et" using rd_be16_ex [of 12 b] by auto
    consider "et = 0x0806" | "et \<noteq> 0x0806" "x = None" | src dst p where "et \<noteq> 0x0806" "x = Some (src, dst, p)"
      by (cases x) auto
    then show ?thesis
    proof cases
      case 1
      then show ?thesis using False et by (intro exI [of _ 7] exI [of _ XDP_PASS]) (simp add: xdp_redirect_prog_def)
    next
      case 2
      then show ?thesis using False et x by (intro exI [of _ 1] exI [of _ XDP_PASS]) (simp add: xdp_redirect_prog_def)
    next
      case (3 src dst p)
      obtain q where q: "read_tcp_udp_ports b p = Some q" using read_tcp_udp_ports_total by blast
      define i where "i = (if p = 1 then 4 else if p \<notin> {6, 17} then 8 else if q = None then 10 else if \<not> sock then 5 else 6 :: nat)"
      have "xdp_redirect_prog sock st b = Some (if i = 6 then XDP_REDIRECT else XDP_PASS, inc_stat i (inc_stat 0 st))"
        using 3 False et x q by (cases "p = 6"; cases "p = 17") (simp_all add: xdp_redirect_prog_def bpf_redirect_map_def i_def Let_def)
      moreover have "i = 6 \<Longrightarrow> p \<in> {6, 17} \<and> sock \<and> q \<noteq> None" by (auto simp: i_def split: if_splits)
      moreover have "i \<in> {1, 4, 5, 6, 7, 8, 10}" by (simp add: i_def)
      ultimately show ?thesis using False x q 3 by (intro exI [of _ i] exI conjI) (assumption | force)+
    qed
  qed
  then show thesis using that by blast
qed

text \<open>The local XDP program never reads behind the frame, counts every frame once in the total and once under the
  reason for its verdict, and redirects exactly the frames it counts as redirected; all others go to the kernel.\<close>

lemma xdp_local_counts_once:
  "\<exists>i \<in> {1, 4, 5, 6, 7, 8, 10}. xdp_redirect_prog sock st b = Some (if i = 6 then XDP_REDIRECT else XDP_PASS, inc_stat i (inc_stat 0 st))"
proof (rule xdp_redirect_cases [of sock st b])
  fix i a
  assume "xdp_redirect_prog sock st b = Some (a, inc_stat i (inc_stat 0 st))" "i \<in> {1, 4, 5, 6, 7, 8, 10}"
    "i = 6 \<longleftrightarrow> a = XDP_REDIRECT" "i \<noteq> 6 \<Longrightarrow> a = XDP_PASS"
  then show ?thesis by (intro bexI [of _ i]) auto
qed

section \<open>What the datapath sees\<close>

lemma parse_ipv4_facts:
  assumes "xdp_parse_ipv4 b = Some (Some (src, dst, p))"
  shows "34 \<le> length b" "rd_be16 b 12 = Some 0x0800" "rd_le32 b 26 = Some src" "rd_le32 b 30 = Some dst" "rd b 23 = Some p"
  using assms by (auto simp: xdp_parse_ipv4_def bind_eq_Some_conv split: if_splits)

text \<open>C13: what the local program redirects is IPv4 with TCP or UDP and without a VLAN tag, and the datapath reads the same
  addresses and ports, unless the transport header is cut off; in that case the flow is not parsed. A policy for another
  protocol, such as ICMP or OSPF, therefore never applies to a frame.\<close>

theorem redirected_frame_parses:
  assumes "xdp_redirect_prog sock st b = Some (XDP_REDIRECT, st')"
  shows "\<exists>src dst p sp dp ihl. xdp_parse_ipv4 b = Some (Some (src, dst, p)) \<and> p \<in> {6, 17} \<and>
    read_tcp_udp_ports b p = Some (Some (sp, dp)) \<and> ip_ihl b 14 = Some ihl \<and>
    parse_flow b (length b) = Some (if length b < 14 + ihl + (if p = 6 then 20 else 8) then None
      else Some \<lparr> fw_src_ip = src, fw_dst_ip = dst, fw_src_port = sp, fw_dst_port = dp, fw_protocol = p \<rparr>) \<and>
    (\<forall>cp. cp_protocol cp \<notin> {POLICY_PROTO_ANY, 6, 17} \<longrightarrow> \<not> policy_matches_either_way cp src dst sp dp p)"
proof (rule xdp_redirect_cases [of sock st b])
  fix i a
  assume e: "xdp_redirect_prog sock st b = Some (a, inc_stat i (inc_stat 0 st))"
    and "a = XDP_REDIRECT \<Longrightarrow> 14 \<le> length b \<and> sock \<and> (\<exists>src dst p ports. xdp_parse_ipv4 b = Some (Some (src, dst, p)) \<and> p \<in> {6, 17} \<and>
       read_tcp_udp_ports b p = Some (Some ports))"
  with assms obtain src dst p sp dp where x: "xdp_parse_ipv4 b = Some (Some (src, dst, p))" "p \<in> {6, 17}"
    "read_tcp_udp_ports b p = Some (Some (sp, dp))" by auto
  note f = parse_ipv4_facts [OF x(1)]
  from x(2,3) obtain ihl where ihl: "ip_ihl b 14 = Some ihl" "20 \<le> ihl" "rd_be16 b (14 + ihl) = Some sp" "rd_be16 b (14 + ihl + 2) = Some dp"
    by (auto simp: read_tcp_udp_ports_def bind_eq_Some_conv split: if_splits)
  have "crypto_eth_ipv4_offset b (length b) = Some 14" using f(1,2) by (simp add: crypto_eth_ipv4_offset_def)
  with f ihl x(2) have "parse_flow b (length b) = Some (if length b < 14 + ihl + (if p = 6 then 20 else 8) then None
      else Some \<lparr> fw_src_ip = src, fw_dst_ip = dst, fw_src_port = sp, fw_dst_port = dp, fw_protocol = p \<rparr>)"
    by (auto simp: parse_flow_def)
  moreover have "\<forall>cp. cp_protocol cp \<notin> {POLICY_PROTO_ANY, 6, 17} \<longrightarrow> \<not> policy_matches_either_way cp src dst sp dp p"
    using x(2) by (auto simp: policy_matches_either_way_def crypto_policy_match_packet_def)
  ultimately show ?thesis using x ihl(1) by blast
qed

lemma vlan_frame_passes:
  assumes "14 \<le> length b" "rd_be16 b 12 = Some 0x8100"
  shows "xdp_redirect_prog sock st b = Some (XDP_PASS, inc_stat 1 (inc_stat 0 st))"
  using assms by (simp add: xdp_redirect_prog_def xdp_parse_ipv4_def)

section \<open>Sealed frames on the WAN\<close>

lemma wan_redirect_True: "fst (wan_redirect True st) = XDP_REDIRECT"
  by (simp add: wan_redirect_def bpf_redirect_map_def)

lemma take_whole: "n = length xs \<Longrightarrow> take n (xs @ ys) = xs"
  by simp

text \<open>The WAN program hands every frame sealed at layer 2 to the forwarder, provided that layer 2 is configured at the
  receiver and the sender's fake Ethertype starts with the marker byte 0x88.\<close>

lemma wan_redirects_sealed_l2:
  assumes "evp_ok lib" "crypto_ready cs ctx" "hi8 (g_fake_ethertype_ipv4 cs) = 0x88"
    and "length h = 12" "8 \<le> length d" "length d < 2 ^ 30" "g_nonce_size cs + gcm_tag_len cs \<le> length r" "fake4 \<noteq> 0"
  shows "\<exists>len s b. crypto_layer2_encrypt lib ctx cs (h @ [8, 0] @ d @ r) (14 + length d) = Some (int len, s, b) \<and>
    (\<exists>st'. xdp_wan_redirect_prog True fake4 st (take len b) = Some (XDP_REDIRECT, st'))"
proof -
  have "g_fake_ethertype_ipv4 cs \<noteq> 0" using assms(3) by (auto simp: hi8_def)
  from l2_encrypt_parts [OF assms(1,2) this assms(4-7)] obtain s n where
    e: "crypto_layer2_encrypt lib ctx cs (h @ [8, 0] @ d @ r) (14 + length d) =
      Some (int (14 + length d + g_nonce_size cs + gcm_tag_len cs), s,
        h @ [hi8 (g_fake_ethertype_ipv4 cs), g_policy_id cs] @ take (g_nonce_size cs) n
          @ cipher_text lib s (pc_keys ctx ! 1) n d @ cipher_tag lib s (pc_keys ctx ! 1) n d
          @ drop (g_nonce_size cs + gcm_tag_len cs) r)" by blast
  define len where "len = 14 + length d + g_nonce_size cs + gcm_tag_len cs"
  define z where "z = take (g_nonce_size cs) n
          @ cipher_text lib s (pc_keys ctx ! 1) n d @ cipher_tag lib s (pc_keys ctx ! 1) n d
          @ drop (g_nonce_size cs + gcm_tag_len cs) r"
  have t: "take len (h @ [0x88, pid] @ z) = h @ [0x88, pid] @ take (len - 14) z" for pid
    using assms(4) by (simp add: len_def)
  have et: "be16_of 0x88 q \<noteq> 0x0806" "be16_of 0x88 q \<noteq> 0x0800" "be16_of 0x88 q \<noteq> 0x86DD" for q
  proof -
    have "hi8 (be16_of 0x88 q) \<noteq> hi8 0x0806" "hi8 (be16_of 0x88 q) \<noteq> hi8 0x0800" "hi8 (be16_of 0x88 q) \<noteq> hi8 0x86DD"
      unfolding be16_hi8 by (simp_all add: hi8_def)
    then show "be16_of 0x88 q \<noteq> 0x0806" "be16_of 0x88 q \<noteq> 0x0800" "be16_of 0x88 q \<noteq> 0x86DD" by metis+
  qed
  have "\<exists>st'. xdp_wan_redirect_prog True fake4 st (h @ [0x88, pid] @ y) = Some (XDP_REDIRECT, st')" for pid y
    using assms(4,8) et [of pid] wan_redirect_True
    by (simp add: xdp_wan_redirect_prog_def rd_be16_def rd_def nth_append NE_L2_MARKER_BYTE_def) (metis prod.collapse)
  from this [of "g_policy_id cs" "take (len - 14) z"] e show ?thesis
    unfolding assms(3) len_def [symmetric] z_def [symmetric] t [symmetric] by blast
qed

text \<open>The WAN program hands every frame sealed at layer 3 to the forwarder, unless the fake protocol is that of ICMP.\<close>

lemma wan_redirects_sealed_l3:
  assumes "evp_ok lib" "crypto_ready cs ctx" "eth14_ipv4 e" "l3_hdr_ok h" "d \<noteq> []" "length h + length d < 2 ^ 29"
    and "l3_no_magic (g_nonce_size cs) d" "g_nonce_size cs + 2 + gcm_tag_len cs \<le> length r" "g_fake_protocol cs \<noteq> 1"
  shows "\<exists>len s b. crypto_layer3_encrypt lib ctx cs (e @ h @ d @ r) (14 + length h + length d) = Some (int len, s, b) \<and>
    (\<exists>st'. xdp_wan_redirect_prog True fake4 st (take len b) = Some (XDP_REDIRECT, st'))"
proof -
  from l3_encrypt_parts [OF assms(1-8)] obtain s n where
    e: "crypto_layer3_encrypt lib ctx cs (e @ h @ d @ r) (14 + length h + length d) =
      Some (int (14 + length h + length d + (g_nonce_size cs + 2 + gcm_tag_len cs)), s,
        e @ l3_enc_hdr cs h @ take (g_nonce_size cs) n @ [g_policy_id cs, h ! 9]
          @ cipher_text lib s (pc_keys ctx ! 1) n d @ cipher_tag lib s (pc_keys ctx ! 1) n d
          @ drop (g_nonce_size cs + 2 + gcm_tag_len cs) r)" by blast
  define len where "len = 14 + length h + length d + (g_nonce_size cs + 2 + gcm_tag_len cs)"
  define z where "z = take (g_nonce_size cs) n @ [g_policy_id cs, h ! 9]
          @ cipher_text lib s (pc_keys ctx ! 1) n d @ cipher_tag lib s (pc_keys ctx ! 1) n d
          @ drop (g_nonce_size cs + 2 + gcm_tag_len cs) r"
  have l: "length e = 14" "be16_of (e ! 12) (e ! 13) = 0x0800" "20 \<le> length h" using assms(3,4) by (simp_all add: eth14_ipv4_def l3_hdr_ok_def)
  have h: "length (l3_enc_hdr cs h) = length h" "l3_enc_hdr cs h ! 9 = g_fake_protocol cs"
    using l(3) by (simp_all add: l3_enc_hdr_def patch_hdr_nth)
  have t: "take len (e @ l3_enc_hdr cs h @ z) = e @ l3_enc_hdr cs h @ take (len - 14 - length h) z"
    using l(1) h(1) by (simp add: len_def)
  have "\<exists>st'. xdp_wan_redirect_prog True fake4 st (e @ l3_enc_hdr cs h @ y) = Some (XDP_REDIRECT, st')" for y
    using l h assms(9) wan_redirect_True
    by (simp add: xdp_wan_redirect_prog_def rd_be16_def rd_def nth_append) (metis prod.collapse)
  from this [of "take (len - 14 - length h) z"] e show ?thesis
    unfolding len_def [symmetric] z_def [symmetric] t [symmetric] by blast
qed

section \<open>The packed filters\<close>

definition enc_at :: "app_config \<Rightarrow> int list \<Rightarrow> crypto_policy list" where
  "enc_at cfg is = filter crypto_policy_is_encrypt_action
     (map (\<lambda>i. ac_policies cfg ! nat i) (filter (\<lambda>i. 0 \<le> i \<and> i < int (length (ac_policies cfg))) is))"

definition enc_policies :: "app_config \<Rightarrow> profile_config \<Rightarrow> crypto_policy list" where
  "enc_policies cfg p = enc_at cfg (pf_policy_indices p)"

text \<open>What the entry of a profile says: a segment of the packed rules that holds its encrypting policies in
  order, all of them when the pack is not full.\<close>

definition describes :: "app_config \<Rightarrow> xdp_encrypt_rule list \<Rightarrow> profile_config \<Rightarrow> xdp_profile_meta \<Rightarrow> bool" where
  "describes cfg rs p m \<longleftrightarrow>
     xm_enabled m = pf_enabled p \<and> xm_enc_start m + xm_enc_num m \<le> length rs \<and>
     take (xm_enc_num m) (drop (xm_enc_start m) rs) = take (xm_enc_num m) (map pack_rule (enc_policies cfg p)) \<and>
     (length rs < MAX_ENCRYPT_PACK_BPF \<longrightarrow> xm_enc_num m = length (enc_policies cfg p))"

lemma pack_policies_eq:
  "length rs \<le> MAX_ENCRYPT_PACK_BPF \<Longrightarrow>
   pack_policies cfg is rs = rs @ take (MAX_ENCRYPT_PACK_BPF - length rs) (map pack_rule (enc_at cfg is))"
proof (induction cfg "is" rs rule: pack_policies.induct)
  case (2 cfg pix "is" rs)
  show ?case
  proof (cases "0 \<le> pix \<and> pix < int (length (ac_policies cfg)) \<and> crypto_policy_is_encrypt_action (ac_policies cfg ! nat pix)")
    case True
    then have e: "enc_at cfg (pix # is) = (ac_policies cfg ! nat pix) # enc_at cfg is" by (simp add: enc_at_def)
    show ?thesis
    proof (cases "length rs = MAX_ENCRYPT_PACK_BPF")
      case False
      with 2(4) have "MAX_ENCRYPT_PACK_BPF - length rs = Suc (MAX_ENCRYPT_PACK_BPF - Suc (length rs))" by simp
      with 2(3) [OF _ refl] 2(4) True False show ?thesis by (simp add: e)
    qed (use True in simp)
  next
    case False
    then have "enc_at cfg (pix # is) = enc_at cfg is" by (auto simp: enc_at_def)
    with False 2 show ?thesis by (auto simp: Let_def)
  qed
qed (simp add: enc_at_def)

lemma describes_mono:
  assumes "describes cfg rs p m" "length (rs @ x) \<le> MAX_ENCRYPT_PACK_BPF"
  shows "describes cfg (rs @ x) p m"
  using assms by (auto simp: describes_def)

lemma pack_profiles_describes:
  assumes "length rs \<le> MAX_ENCRYPT_PACK_BPF" "list_all2 (describes cfg rs) qs ms" "pack_profiles cfg ps ms rs = (ms', rs')"
  shows "length rs' \<le> MAX_ENCRYPT_PACK_BPF \<and> list_all2 (describes cfg rs') (qs @ ps) ms'"
  using assms
proof (induction ps arbitrary: qs ms rs)
  case (Cons p ps)
  let ?x = "take (MAX_ENCRYPT_PACK_BPF - length rs) (map pack_rule (enc_policies cfg p))"
  let ?rs = "rs @ ?x"
  have e: "pack_policies cfg (pf_policy_indices p) rs = ?rs"
    using pack_policies_eq [OF Cons.prems(1)] by (simp add: enc_policies_def)
  have l: "length ?rs \<le> MAX_ENCRYPT_PACK_BPF" using Cons.prems(1) by simp
  define m where "m = \<lparr> xm_enabled = pf_enabled p, xm_enc_start = length rs, xm_enc_num = length ?rs - length rs \<rparr>"
  have "describes cfg ?rs p m" using Cons.prems(1) by (auto simp: describes_def m_def)
  moreover have "list_all2 (describes cfg ?rs) qs ms"
    using Cons.prems(2) l by (auto elim!: list_all2_mono intro: describes_mono)
  ultimately have "list_all2 (describes cfg ?rs) (qs @ [p]) (ms @ [m])" by (simp add: list_all2_appendI)
  from Cons.IH [OF l this] Cons.prems(3) show ?case by (simp add: e m_def Let_def)
qed simp

text \<open>The maps describe the configuration: one entry for each of the first 32 profiles, whose segment lies within the at
  most 128 packed rules and holds the profile's encrypting policies in order, none missing while the pack is not full.\<close>

lemma filters_describe_profiles:
  assumes "encrypt_filters cfg = (ctrl, ms, rs)"
  shows "length rs \<le> MAX_ENCRYPT_PACK_BPF \<and> xc_profile_count ctrl = length ms \<and> length ms \<le> MAX_PROFILES_BPF \<and>
    list_all2 (describes cfg rs) (take MAX_PROFILES_BPF (ac_profiles cfg)) ms"
proof -
  from assms have p: "pack_profiles cfg (take MAX_PROFILES_BPF (ac_profiles cfg)) [] [] = (ms, rs)"
    and c: "xc_profile_count ctrl = length (take MAX_PROFILES_BPF (ac_profiles cfg))"
    by (auto simp: encrypt_filters_def Let_def split: prod.splits)
  have "list_all2 (describes cfg []) [] []" by simp
  from pack_profiles_describes [OF _ this p] c show ?thesis by (auto dest: list_all2_lengthD)
qed

section \<open>Concrete instances\<close>

definition sample_frame :: buf where
  "sample_frame = replicate 12 2 @ [8, 0] @ take 20 sample_ip @ replicate 40 0"

theorem redirected_frame_parses_witness:
  "\<exists>st'. xdp_redirect_prog True [] sample_frame = Some (XDP_REDIRECT, st') \<and>
     (\<exists>fl. parse_flow sample_frame (length sample_frame) = Some (Some fl) \<and> fw_protocol fl = 6)"
proof -
  have "xdp_redirect_prog True [] sample_frame = Some (XDP_REDIRECT, [])" by code_simp
  moreover have "ip_ihl sample_frame 14 = Some 20" "map_option (map_option (snd \<circ> snd)) (xdp_parse_ipv4 sample_frame) = Some (Some 6)"
     "length sample_frame = 74" by code_simp+
  ultimately show ?thesis using redirected_frame_parses [of True "[]" sample_frame "[]"] by auto
qed

end
