(* ===== verification/CFile.thy ===== *)
theory CFile
  imports CText
begin

text \<open>
  Reading text files as \<open>src/db/db_env.c\<close> and \<open>src/core/bridge_mac.c\<close> do: \<open>fgets\<close> in a loop, \<open>sscanf\<close> with \<open>%s\<close>
  and \<open>%[^=]\<close>, and \<open>%02x\<close>. A file is the list of its characters, none of them NUL.
\<close>

definition newline :: char where "newline = CHR 0x0A"

text \<open>\<open>fgets\<close> until the end of the file with a buffer for \<open>m\<close> characters and the NUL; \<open>k\<close> is the room left and \<open>acc\<close> what
  the current call has read, last character first.\<close>

fun fgets_go :: "nat \<Rightarrow> nat \<Rightarrow> string \<Rightarrow> string \<Rightarrow> string list" where
  "fgets_go m k [] acc = (if acc = [] then [] else [rev acc])"
| "fgets_go m k (c # cs) acc =
     (if c = newline \<or> k \<le> 1 then rev (c # acc) # fgets_go m m cs [] else fgets_go m (k - 1) cs (c # acc))"

definition fgets_lines :: "nat \<Rightarrow> string \<Rightarrow> string list" where
  "fgets_lines m s = fgets_go m m s []"

text \<open>\<open>%ws\<close>: white space is skipped, then at least one and at most \<open>w\<close> other characters.\<close>

definition scan_s :: "nat \<Rightarrow> string \<Rightarrow> (string \<times> string) option" where
  "scan_s w s =
     (let t = dropWhile is_space s; tok = take w (takeWhile (\<lambda>c. \<not> is_space c) t)
      in if tok = [] then None else Some (tok, drop (length tok) t))"

text \<open>\<open>%w[^=]\<close>: no white space is skipped.\<close>

definition scan_not_eq :: "nat \<Rightarrow> string \<Rightarrow> (string \<times> string) option" where
  "scan_not_eq w s =
     (let tok = take w (takeWhile (\<lambda>c. c \<noteq> CHR ''='') s)
      in if tok = [] then None else Some (tok, drop (length tok) s))"

definition hex_char :: "nat \<Rightarrow> char" where
  "hex_char n = char_of (if n < 10 then 48 + n else 87 + n)"

text \<open>\<open>%02x\<close> of a byte.\<close>

definition show_hex2 :: "u8 \<Rightarrow> string" where
  "show_hex2 b = [hex_char (unat b div 16), hex_char (unat b mod 16)]"

text \<open>\<open>%02x:%02x:%02x:%02x:%02x:%02x\<close>.\<close>

fun show_mac :: "u8 list \<Rightarrow> string" where
  "show_mac [] = []"
| "show_mac [b] = show_hex2 b"
| "show_mac (b # bs) = show_hex2 b @ CHR '':'' # show_mac bs"

definition digit_char :: "nat \<Rightarrow> char" where "digit_char n = char_of (48 + n)"

text \<open>\<open>%d\<close> for a number that is not negative.\<close>

fun show_nat :: "nat \<Rightarrow> string" where
  "show_nat n = (if n < 10 then [digit_char n] else show_nat (n div 10) @ [digit_char (n mod 10)])"

declare show_nat.simps [simp del]

section \<open>Decimal digits\<close>

lemma digit_char_facts:
  assumes "n < 10"
  shows "is_digit (digit_char n)" "xdigit_val (digit_char n) = n" "code (digit_char n) = 48 + n"
proof -
  have c: "code (digit_char n) = 48 + n" using assms by (simp add: code_def digit_char_def)
  then show "code (digit_char n) = 48 + n" "is_digit (digit_char n)" "xdigit_val (digit_char n) = n"
    using assms by (simp_all add: is_digit_def xdigit_val_def)
qed

lemma show_nat_digits: "show_nat n \<noteq> [] \<and> list_all is_digit (show_nat n) \<and> digits_val 10 (show_nat n) = n"
proof (induction n rule: show_nat.induct)
  case (1 n)
  then show ?case
    using digit_char_facts [of n] digit_char_facts [of "n mod 10"]
    by (subst (1 2 3) show_nat.simps) (simp add: digits_val_def)
qed

lemma not_digit_sign: "is_digit c \<Longrightarrow> \<not> is_space c \<and> c \<noteq> CHR ''-'' \<and> c \<noteq> CHR ''+''"
  by (auto simp: is_digit_def is_space_def code_def)

section \<open>Lines\<close>

lemma fgets_line:
  assumes "newline \<notin> set l" "length l < k"
  shows "fgets_go m k (l @ newline # s) acc = (rev acc @ l @ [newline]) # fgets_go m m s []"
  using assms by (induction l arbitrary: k acc) auto

lemma fgets_lines_concat:
  assumes "\<forall>l \<in> set ls. newline \<notin> set l \<and> length l < m"
  shows "fgets_lines m (concat (map (\<lambda>l. l @ [newline]) ls)) = map (\<lambda>l. l @ [newline]) ls"
  using assms unfolding fgets_lines_def by (induction ls) (simp_all add: fgets_line)

section \<open>Printing and scanning MAC addresses\<close>

lemma code_consts [simp]:
  "code CHR '':'' = 58" "code CHR ''-'' = 45" "code CHR ''+'' = 43" "code CHR ''x'' = 120" "code CHR ''X'' = 88" "code newline = 10"
  "code CHR ''='' = 61" "code CHR ''#'' = 35"
  by (simp_all add: code_def newline_def)

lemma hex_char_facts:
  assumes "n < 16"
  shows "is_xdigit (hex_char n)" "xdigit_val (hex_char n) = n" "\<not> is_space (hex_char n)" "hex_char n \<noteq> CHR '':''"
    "hex_char n \<noteq> CHR ''-''" "hex_char n \<noteq> CHR ''+''" "hex_char n \<noteq> CHR ''x''" "hex_char n \<noteq> CHR ''X''" "hex_char n \<noteq> newline"
    "hex_char n \<noteq> CHR ''=''"
proof -
  have c: "code (hex_char n) = (if n < 10 then 48 + n else 87 + n)" using assms by (simp add: code_def hex_char_def)
  then show "is_xdigit (hex_char n)" "xdigit_val (hex_char n) = n" "\<not> is_space (hex_char n)"
    using assms by (auto simp: is_xdigit_def is_digit_def xdigit_val_def is_space_def)
  have "code (hex_char n) \<notin> {58, 45, 43, 120, 88, 10, 61}" using assms by (auto simp: c)
  then show "hex_char n \<noteq> CHR '':''" "hex_char n \<noteq> CHR ''-''" "hex_char n \<noteq> CHR ''+''" "hex_char n \<noteq> CHR ''x''"
    "hex_char n \<noteq> CHR ''X''" "hex_char n \<noteq> newline" "hex_char n \<noteq> CHR ''=''"
    using code_consts by (metis insertCI)+
qed

lemma digits_val_hex2: "digits_val 16 (show_hex2 b) = unat b"
proof -
  have "unat b div 16 < 16" "unat b mod 16 < 16" using unsigned_less [of b, where ?'a = nat] by simp_all
  then show ?thesis by (simp add: digits_val_def show_hex2_def hex_char_facts)
qed

lemma scan_x_hex2:
  assumes "r = [] \<or> \<not> is_xdigit (hd r) \<and> hd r \<noteq> CHR ''x'' \<and> hd r \<noteq> CHR ''X''"
  shows "scan_x None (show_hex2 b @ r) = Some (uint b, r)"
proof -
  have n: "unat b div 16 < 16" "unat b mod 16 < 16" using unsigned_less [of b, where ?'a = nat] by simp_all
  note f = hex_char_facts [OF n(1)] hex_char_facts [OF n(2)]
  have t: "takeWhile is_xdigit (show_hex2 b @ r) = show_hex2 b" "dropWhile is_xdigit (show_hex2 b @ r) = r"
    using assms f by (cases r; auto simp: show_hex2_def)+
  have "dropWhile is_space (show_hex2 b @ r) = show_hex2 b @ r" "scan_sign (show_hex2 b @ r) = (False, show_hex2 b @ r)"
    "\<not> hex_prefix (show_hex2 b @ r)" "show_hex2 b \<noteq> []"
    using f by (simp_all add: show_hex2_def scan_sign_def hex_prefix_def)
  moreover have "uint b < 2 ^ 32" using unsigned_less [of b, where ?'a = int] by simp
  ultimately show ?thesis using unsigned_greater_eq [of b] by (simp add: scan_x_def t digits_val_hex2 Let_def)
qed

lemma scan_mac_Suc:
  "scan_x None s = Some (v, CHR '':'' # t) \<Longrightarrow> scan_mac (Suc n) t = Some m \<Longrightarrow> scan_mac (Suc (Suc n)) s = Some (word_of_int v # m)"
  by (subst scan_mac.simps) (simp add: expect_def del: scan_mac.simps)

lemma scan_mac_show:
  assumes "ms \<noteq> []" "r = [] \<or> \<not> is_xdigit (hd r) \<and> hd r \<noteq> CHR ''x'' \<and> hd r \<noteq> CHR ''X''"
  shows "scan_mac (length ms) (show_mac ms @ r) = Some ms"
  using assms(1)
proof (induction ms rule: show_mac.induct)
  case (2 b)
  then show ?case using scan_x_hex2 [OF assms(2), of b] by simp
next
  case (3 b c bs)
  define t where "t = show_mac (c # bs) @ r"
  have 1: "scan_x None (show_hex2 b @ CHR '':'' # t) = Some (uint b, CHR '':'' # t)"
    by (rule scan_x_hex2) (simp add: is_xdigit_def is_digit_def code_def)
  have 2: "scan_mac (Suc (length bs)) t = Some (c # bs)" using 3 by (simp add: t_def)
  have "show_mac (b # c # bs) @ r = show_hex2 b @ CHR '':'' # t" by (simp add: t_def)
  then show ?case using scan_mac_Suc [OF 1 2] by (simp del: scan_mac.simps show_mac.simps)
qed simp

lemma parse_mac_show: "length mac = 6 \<Longrightarrow> parse_mac (show_mac mac) = Some mac"
  using scan_mac_show [of mac "[]"] by (force simp: parse_mac_def)

end
