(* ===== verification/Daemon.thy ===== *)
theory Daemon
  imports CFile DbLoaded CryptoRuntime Flow
begin

text \<open>
  \<open>src/main.c\<close>: the process that loads and unloads profiles on PostgreSQL notifications. The main thread keeps the set of
  active profiles and two slots for configurations; the forwarder runs in a second thread on the configuration of
  one slot. The flag \<open>running\<close> of \<open>src/core/forwarder.c\<close> is a field here. The database is a parameter:
  \<open>conn\<close> gives the rows for a profile id, or nothing when the connection fails. What \<open>forwarder_init\<close> does to
  the configuration while it opens sockets and learns addresses is the parameter \<open>prep\<close>; \<open>None\<close> is a failure.
\<close>

section \<open>Profile ids\<close>

definition MAX_ACTIVE_PROFILE_IDS :: nat where "MAX_ACTIVE_PROFILE_IDS = 32"

definition parse_notify_profile_id :: "string \<Rightarrow> int" where
  "parse_notify_profile_id payload =
     (if payload = [] then -1
      else case scan_long payload of
        None \<Rightarrow> -1
      | Some (v, rest) \<Rightarrow> if rest \<noteq> [] \<or> v \<le> 0 \<or> v > 2147483647 then -1 else v)"

definition parse_profile_id_token :: "string \<Rightarrow> int option" where
  "parse_profile_id_token token =
     (if token = [] then None
      else case scan_long token of
        None \<Rightarrow> None
      | Some (v, rest) \<Rightarrow> if rest \<noteq> [] \<or> v \<le> 0 \<or> v > 2147483647 then None else Some v)"

text \<open>The options after the program name; \<open>out_id\<close> is -1 until one was given.\<close>

fun parse_startup_profile_id :: "string list \<Rightarrow> int \<Rightarrow> int option" where
  "parse_startup_profile_id [] out_id = Some out_id"
| "parse_startup_profile_id (arg # args) out_id =
     (if arg = ''-id'' \<or> arg = ''--id'' then
        (if out_id \<ge> 0 then None
         else case args of
           [] \<Rightarrow> None
         | tok # args \<Rightarrow>
             (case parse_profile_id_token tok of None \<Rightarrow> None | Some v \<Rightarrow> parse_startup_profile_id args v))
      else if take 4 arg = ''-id='' \<or> take 5 arg = ''--id='' then
        (if out_id \<ge> 0 then None
         else let id_str = (if arg ! 1 = CHR ''-'' then tl (dropWhile (\<lambda>c. c \<noteq> CHR ''='') arg) else drop 4 arg) in
           case parse_profile_id_token id_str of None \<Rightarrow> None | Some v \<Rightarrow> parse_startup_profile_id args v)
      else None)"

text \<open>1 when added, 0 when already there, -1 when the set is full.\<close>

definition active_ids_add :: "int list \<Rightarrow> int \<Rightarrow> int \<times> int list" where
  "active_ids_add ids i =
     (if i \<in> set ids then (0, ids)
      else if length ids \<ge> MAX_ACTIVE_PROFILE_IDS then (-1, ids) else (1, ids @ [i]))"

definition active_ids_remove :: "int list \<Rightarrow> int \<Rightarrow> bool \<times> int list" where
  "active_ids_remove ids i = (i \<in> set ids, filter (\<lambda>x. x \<noteq> i) ids)"

section \<open>State\<close>

text \<open>\<open>dm_thread_new\<close>: the thread was created and has not begun. \<open>dm_fwd_slot\<close> is the slot to which \<open>fwd->cfg\<close> points,
  \<open>None\<close> for a null pointer; it may differ from \<open>active_slot\<close> after a restart.\<close>

record daemon =
  dm_running :: bool
  dm_has_thread :: bool
  dm_thread_new :: bool
  dm_rt_running :: bool
  dm_slots :: "app_config list"
  dm_active_slot :: nat
  dm_active_ids :: "int list"
  dm_fwd_slot :: "nat option"
  dm_rt :: crypto_runtime
  dm_st :: crypto_state
  dm_pins :: pin_table

text \<open>What the surroundings answer while one notification is handled.\<close>

record daemon_env =
  de_conn :: "int \<Rightarrow> db_rows option"
  de_sha256 :: "u8 list \<Rightarrow> u8 list"
  de_lib :: evp_lib
  de_ctx_alloc :: bool
  de_mem :: bool
  de_create :: bool

definition ne_profile_id_exists :: "(int \<Rightarrow> db_rows option) \<Rightarrow> int \<Rightarrow> int" where
  "ne_profile_id_exists conn i =
     (case conn i of None \<Rightarrow> -1 | Some db \<Rightarrow> if dr_exists db = Some True then 0 else -1)"

section \<open>Loading and unloading\<close>

definition runtime_start :: "daemon_env \<Rightarrow> app_config \<Rightarrow> daemon \<Rightarrow> int \<times> daemon" where
  "runtime_start e cfg d =
     (let d = d\<lparr> dm_active_slot := 0, dm_slots := (dm_slots d)[0 := cfg], dm_rt_running := False \<rparr>
      in if \<not> de_create e then (-1, d) else (0, d\<lparr> dm_has_thread := True, dm_thread_new := True \<rparr>))"

text \<open>\<open>forwarder_reload_config\<close> with the configuration in \<open>slot\<close>; without a configuration it refuses.\<close>

definition reload_forwarder :: "daemon_env \<Rightarrow> nat \<Rightarrow> daemon \<Rightarrow> int \<times> daemon" where
  "reload_forwarder e slot d =
     (case dm_fwd_slot d of
        None \<Rightarrow> (-1, d)
      | Some k \<Rightarrow>
          let (r, cfg, rt, st, pt) = forwarder_reload_config (de_lib e) (de_ctx_alloc e) (dm_slots d ! k) (dm_slots d ! slot)
                (dm_rt d) (dm_st d) (dm_pins d)
          in if r \<noteq> 0 then (r, d)
          else (r, d\<lparr> dm_fwd_slot := Some slot, dm_slots := (dm_slots d)[slot := cfg], dm_rt := rt, dm_st := st, dm_pins := pt \<rparr>))"

definition apply_active_configs :: "daemon_env \<Rightarrow> daemon \<Rightarrow> int \<times> daemon" where
  "apply_active_configs e d =
     (if \<not> de_mem e then (-1, d)
      else case build_merged_config (config_load_from_db (de_sha256 e) (de_conn e)) (dm_active_ids d) of
        None \<Rightarrow> (-1, d)
      | Some merged_cfg \<Rightarrow>
          if \<not> dm_has_thread d then
            (let (rc, d) = runtime_start e merged_cfg d in (if rc \<noteq> 0 then -1 else 0, d))
          else
            let next_slot = 1 - dm_active_slot d;
                (r, d) = reload_forwarder e next_slot (d\<lparr> dm_slots := (dm_slots d)[next_slot := merged_cfg] \<rparr>)
            in if r = 0 then (0, d\<lparr> dm_active_slot := next_slot \<rparr>) else (-1, d))"

text \<open>Waiting for the thread ends with its clean-up; the flag \<open>running\<close> stays down.\<close>

definition runtime_stop_forwarder :: "daemon \<Rightarrow> int \<times> daemon" where
  "runtime_stop_forwarder d =
     (if \<not> dm_has_thread d then (0, d)
      else (0, d\<lparr> dm_running := False, dm_has_thread := False, dm_thread_new := False, dm_rt_running := False \<rparr>))"

definition load_profile_and_run :: "daemon_env \<Rightarrow> int \<Rightarrow> daemon \<Rightarrow> int \<times> daemon" where
  "load_profile_and_run e profile_id d =
     (let ids = (if dm_has_thread d then dm_active_ids d else []);
          (added, ids) = active_ids_add ids profile_id;
          d = d\<lparr> dm_active_ids := ids \<rparr>
      in if added < 0 then (-1, d)
      else if added = 0 then (1, d)
      else let (r, d) = apply_active_configs e d in
        if r \<noteq> 0 then (-1, d\<lparr> dm_active_ids := snd (active_ids_remove (dm_active_ids d) profile_id) \<rparr>)
        else (0, d))"

definition handle_profile_notify :: "daemon_env \<Rightarrow> int \<Rightarrow> daemon \<Rightarrow> int \<times> daemon" where
  "handle_profile_notify e profile_id d =
     (if ne_profile_id_exists (de_conn e) profile_id = 0 then
        (let (lr, d) = load_profile_and_run e profile_id d in
         if lr = 1 then (0, d) else if lr \<noteq> 0 then (-1, d) else (0, d))
      else
        let (removed, ids) = active_ids_remove (dm_active_ids d) profile_id; d = d\<lparr> dm_active_ids := ids \<rparr> in
        if \<not> removed then (0, d)
        else if dm_active_ids d = [] then runtime_stop_forwarder d
        else let (r, d) = apply_active_configs e d in (if r \<noteq> 0 then -1 else 0, d))"

text \<open>One notification of the main loop.\<close>

definition main_notify :: "daemon_env \<Rightarrow> string \<Rightarrow> daemon \<Rightarrow> daemon" where
  "main_notify e extra d =
     (let i = parse_notify_profile_id extra in if i \<le> 0 then d else snd (handle_profile_notify e i d))"

section \<open>The forwarder thread\<close>

text \<open>\<open>forwarder_init\<close> up to the sockets and \<open>prep\<close> for the rest.\<close>

definition forwarder_init :: "evp_lib \<Rightarrow> bool \<Rightarrow> u64 \<Rightarrow> (app_config \<Rightarrow> app_config option) \<Rightarrow> daemon \<Rightarrow> int \<times> daemon" where
  "forwarder_init lib alloc now prep d =
     (if \<not> dm_running d then (-1, d)
      else
        let k = dm_active_slot d;
            (r, cfg, rt, st) = forwarder_init_crypto lib alloc now (set_queue_counts (dm_slots d ! k)) (dm_rt d) (dm_st d);
            d = d\<lparr> dm_fwd_slot := Some k, dm_slots := (dm_slots d)[k := cfg], dm_rt := rt, dm_st := st \<rparr>
        in if r \<noteq> 0 then (-1, d)
        else case prep cfg of
          None \<Rightarrow> (-1, d)
        | Some cfg \<Rightarrow> (0, d\<lparr> dm_slots := (dm_slots d)[k := cfg] \<rparr>))"

text \<open>The thread up to the loop of \<open>forwarder_run\<close>.\<close>

definition forwarder_thread_main :: "evp_lib \<Rightarrow> bool \<Rightarrow> u64 \<Rightarrow> (app_config \<Rightarrow> app_config option) \<Rightarrow> daemon \<Rightarrow> daemon" where
  "forwarder_thread_main lib alloc now prep d =
     (let (r, d) = forwarder_init lib alloc now prep (d\<lparr> dm_thread_new := False \<rparr>) in
      if r \<noteq> 0 then d\<lparr> dm_rt_running := False \<rparr>
      else if \<not> dm_running d then d\<lparr> dm_rt_running := False \<rparr>
      else d\<lparr> dm_rt_running := True \<rparr>)"

definition forwarder_thread_end :: "daemon \<Rightarrow> daemon" where
  "forwarder_thread_end d = d\<lparr> dm_rt_running := False \<rparr>"

definition on_stop_signal :: "daemon \<Rightarrow> daemon" where
  "on_stop_signal d = d\<lparr> dm_running := False \<rparr>"

inductive daemon_step :: "daemon \<Rightarrow> daemon \<Rightarrow> bool" where
  notified: "daemon_step d (main_notify e extra d)"
| thread_starts: "dm_thread_new d \<Longrightarrow> daemon_step d (forwarder_thread_main lib alloc now prep d)"
| thread_ends: "dm_rt_running d \<Longrightarrow> \<not> dm_running d \<Longrightarrow> daemon_step d (forwarder_thread_end d)"
| signalled: "daemon_step d (on_stop_signal d)"

inductive_cases daemon_stepE: "daemon_step d d'"

text \<open>The state after \<open>calloc\<close>.\<close>

definition zero_config :: app_config where
  "zero_config = empty_config\<lparr> ac_global_frame_size := 0, ac_global_batch_size := 0 \<rparr>"

definition daemon_start :: "crypto_runtime \<Rightarrow> crypto_state \<Rightarrow> pin_table \<Rightarrow> daemon" where
  "daemon_start rt st pt = \<lparr> dm_running = True, dm_has_thread = False, dm_thread_new = False, dm_rt_running = False,
     dm_slots = [zero_config, zero_config], dm_active_slot = 0, dm_active_ids = [], dm_fwd_slot = None,
     dm_rt = rt, dm_st = st, dm_pins = pt \<rparr>"

section \<open>The set of active profiles\<close>

lemma active_ids_add_law:
  assumes "active_ids_add ids i = (r, ids')" "distinct ids" "length ids \<le> MAX_ACTIVE_PROFILE_IDS"
  shows "distinct ids'" "length ids' \<le> MAX_ACTIVE_PROFILE_IDS" "set ids' = (if r = 1 then insert i (set ids) else set ids)"
    "r = 1 \<longleftrightarrow> i \<notin> set ids \<and> length ids < MAX_ACTIVE_PROFILE_IDS" "r = 0 \<longleftrightarrow> i \<in> set ids" "r \<noteq> 1 \<Longrightarrow> ids' = ids" "r = 1 \<Longrightarrow> ids' = ids @ [i]"
  using assms by (auto simp: active_ids_add_def split: if_splits)

lemma active_ids_remove_add: "i \<notin> set ids \<Longrightarrow> snd (active_ids_remove (ids @ [i]) i) = ids"
  by (auto simp: active_ids_remove_def filter_id_conv)

definition ids_ok :: "int list \<Rightarrow> bool" where
  "ids_ok ids \<longleftrightarrow> distinct ids \<and> length ids \<le> MAX_ACTIVE_PROFILE_IDS \<and> (\<forall>i \<in> set ids. 0 < i \<and> i \<le> 2147483647)"

definition daemon_ok :: "daemon \<Rightarrow> bool" where
  "daemon_ok d \<longleftrightarrow> ids_ok (dm_active_ids d) \<and> length (dm_slots d) = 2 \<and> dm_active_slot d < 2 \<and>
     (case dm_fwd_slot d of None \<Rightarrow> True | Some k \<Rightarrow> k < 2)"

lemma ids_ok_Nil [simp]: "ids_ok []" by (simp add: ids_ok_def)

lemma ids_ok_add: "ids_ok ids \<Longrightarrow> 0 < i \<Longrightarrow> i \<le> 2147483647 \<Longrightarrow> ids_ok (snd (active_ids_add ids i))"
  by (auto simp: ids_ok_def active_ids_add_def)

lemma ids_ok_remove: "ids_ok ids \<Longrightarrow> ids_ok (snd (active_ids_remove ids i))"
  by (auto simp: ids_ok_def active_ids_remove_def intro: le_trans [OF length_filter_le])

lemma reload_forwarder_ids:
  assumes "reload_forwarder e k d = (r, d')"
  shows "dm_active_ids d' = dm_active_ids d" "dm_active_slot d' = dm_active_slot d" "length (dm_slots d') = length (dm_slots d)"
    "dm_running d' = dm_running d" "dm_has_thread d' = dm_has_thread d" "dm_rt_running d' = dm_rt_running d" "dm_thread_new d' = dm_thread_new d"
    "r \<noteq> 0 \<Longrightarrow> d' = d" "r = 0 \<Longrightarrow> dm_fwd_slot d' = Some k"
  using assms by (auto simp: reload_forwarder_def Let_def split: option.splits prod.splits if_splits)

lemma apply_cases:
  assumes "apply_active_configs e d = (r, d')"
  obtains (nothing) "r = -1" "d' = d"
  | (no_start) cfg where "r = -1" "\<not> dm_has_thread d" "d' = d\<lparr> dm_active_slot := 0, dm_slots := (dm_slots d)[0 := cfg], dm_rt_running := False \<rparr>"
  | (start) cfg where "r = 0" "\<not> dm_has_thread d" "build_merged_config (config_load_from_db (de_sha256 e) (de_conn e)) (dm_active_ids d) = Some cfg"
      "d' = d\<lparr> dm_active_slot := 0, dm_slots := (dm_slots d)[0 := cfg], dm_rt_running := False, dm_has_thread := True, dm_thread_new := True \<rparr>"
  | (no_reload) cfg where "r = -1" "dm_has_thread d" "d' = d\<lparr> dm_slots := (dm_slots d)[1 - dm_active_slot d := cfg] \<rparr>"
  | (reload) cfg d1 where "r = 0" "dm_has_thread d" "build_merged_config (config_load_from_db (de_sha256 e) (de_conn e)) (dm_active_ids d) = Some cfg"
      "reload_forwarder e (1 - dm_active_slot d) (d\<lparr> dm_slots := (dm_slots d)[1 - dm_active_slot d := cfg] \<rparr>) = (0, d1)"
      "d' = d1\<lparr> dm_active_slot := 1 - dm_active_slot d \<rparr>"
proof (cases "de_mem e")
  case False
  with assms show ?thesis by - (rule nothing, simp_all add: apply_active_configs_def)
next
  case True
  show ?thesis
  proof (cases "build_merged_config (config_load_from_db (de_sha256 e) (de_conn e)) (dm_active_ids d)")
    case None
    with assms True show ?thesis by - (rule nothing, simp_all add: apply_active_configs_def)
  next
    case (Some cfg)
    show ?thesis
    proof (cases "dm_has_thread d")
      case False
      then show ?thesis using assms True Some no_start start
        by (auto simp: apply_active_configs_def runtime_start_def Let_def split: if_splits)
    next
      case th: True
      obtain r1 d1 where d1: "reload_forwarder e (1 - dm_active_slot d) (d\<lparr> dm_slots := (dm_slots d)[1 - dm_active_slot d := cfg] \<rparr>) = (r1, d1)"
        by (cases "reload_forwarder e (1 - dm_active_slot d) (d\<lparr> dm_slots := (dm_slots d)[1 - dm_active_slot d := cfg] \<rparr>)")
      show ?thesis
      proof (cases "r1 = 0")
        case True
        show ?thesis by (rule reload [OF _ th Some]) (use assms \<open>de_mem e\<close> Some th d1 True in \<open>auto simp: apply_active_configs_def Let_def\<close>)
      next
        case False
        show ?thesis
          by (rule no_reload [OF _ th])
            (use assms \<open>de_mem e\<close> Some th d1 False reload_forwarder_ids(8) [OF d1] in \<open>auto simp: apply_active_configs_def Let_def\<close>)
      qed
    qed
  qed
qed

lemma apply_keeps:
  assumes "apply_active_configs e d = (r, d')" "daemon_ok d"
  shows "daemon_ok d'" "dm_active_ids d' = dm_active_ids d" "dm_running d' = dm_running d"
    "dm_rt_running d' \<Longrightarrow> dm_rt_running d"
  using assms(2) by (cases rule: apply_cases [OF assms(1)];
      auto simp: daemon_ok_def dest: reload_forwarder_ids split: option.splits; fail)+

lemma notify_cases:
  assumes "handle_profile_notify e i d = (r, d')"
  obtains (load) ids d1 r1 where "ids = snd (active_ids_add (if dm_has_thread d then dm_active_ids d else []) i)"
      "apply_active_configs e (d\<lparr> dm_active_ids := ids \<rparr>) = (r1, d1)"
      "d' = d\<lparr> dm_active_ids := ids \<rparr> \<or> d' = d1 \<or> d' = d1\<lparr> dm_active_ids := snd (active_ids_remove (dm_active_ids d1) i) \<rparr>"
  | (unload) ids d1 r1 where "ids = snd (active_ids_remove (dm_active_ids d) i)"
      "apply_active_configs e (d\<lparr> dm_active_ids := ids \<rparr>) = (r1, d1)"
      "d' = d\<lparr> dm_active_ids := ids \<rparr> \<or> d' = d1 \<or> d' = snd (runtime_stop_forwarder (d\<lparr> dm_active_ids := ids \<rparr>))"
proof (cases "ne_profile_id_exists (de_conn e) i = 0")
  case True
  obtain ad ids where ad: "active_ids_add (if dm_has_thread d then dm_active_ids d else []) i = (ad, ids)" by fastforce
  obtain r1 d1 where a: "apply_active_configs e (d\<lparr> dm_active_ids := ids \<rparr>) = (r1, d1)" by fastforce
  have "d' = d\<lparr> dm_active_ids := ids \<rparr> \<or> d' = d1 \<or> d' = d1\<lparr> dm_active_ids := snd (active_ids_remove (dm_active_ids d1) i) \<rparr>"
    using assms True by (simp add: handle_profile_notify_def load_profile_and_run_def Let_def ad a split: if_splits)
  then show thesis using load [OF _ a] by (simp add: ad)
next
  case False
  let ?ids = "snd (active_ids_remove (dm_active_ids d) i)"
  obtain r1 d1 where a: "apply_active_configs e (d\<lparr> dm_active_ids := ?ids \<rparr>) = (r1, d1)" by fastforce
  have "d' = d\<lparr> dm_active_ids := ?ids \<rparr> \<or> d' = d1 \<or> d' = snd (runtime_stop_forwarder (d\<lparr> dm_active_ids := ?ids \<rparr>))"
    using assms False a by (simp add: handle_profile_notify_def Let_def split: if_splits prod.splits)
  then show thesis using unload [OF refl a] by simp
qed

lemma daemon_ok_ids: "daemon_ok d \<Longrightarrow> ids_ok ids \<Longrightarrow> daemon_ok (d\<lparr> dm_active_ids := ids \<rparr>)"
  by (simp add: daemon_ok_def)

lemma stop_keeps [simp]:
  "daemon_ok (snd (runtime_stop_forwarder d)) = daemon_ok d"
  "dm_running (snd (runtime_stop_forwarder d)) = (dm_running d \<and> \<not> dm_has_thread d)"
  "dm_rt_running (snd (runtime_stop_forwarder d)) = (dm_rt_running d \<and> \<not> dm_has_thread d)"
  by (simp_all add: runtime_stop_forwarder_def daemon_ok_def)

lemma notify_keeps:
  assumes "daemon_ok d" "0 < i" "i \<le> 2147483647" "handle_profile_notify e i d = (r, d')"
  shows "daemon_ok d'" "\<not> dm_running d \<Longrightarrow> \<not> dm_running d'" "\<not> dm_rt_running d \<Longrightarrow> \<not> dm_rt_running d'"
proof -
  have "ids_ok (if dm_has_thread d then dm_active_ids d else [])" "ids_ok (dm_active_ids d)" using assms(1) by (simp_all add: daemon_ok_def)
  note ids = ids_ok_add [OF this(1) assms(2,3)] ids_ok_remove [OF this(2), of i]
  have "daemon_ok d' \<and> (\<not> dm_running d \<longrightarrow> \<not> dm_running d') \<and> (\<not> dm_rt_running d \<longrightarrow> \<not> dm_rt_running d')"
    using assms(4)
  proof (cases rule: notify_cases)
    case (load ids' d1 r1)
    have ok: "daemon_ok (d\<lparr> dm_active_ids := ids' \<rparr>)" using daemon_ok_ids [OF assms(1) ids(1)] by (simp add: load(1))
    note k = apply_keeps [OF load(2) ok]
    have "daemon_ok (d1\<lparr> dm_active_ids := snd (active_ids_remove (dm_active_ids d1) i) \<rparr>)"
      using k(1) by (intro daemon_ok_ids ids_ok_remove) (simp_all add: daemon_ok_def)
    with load(3) ok k show ?thesis by auto
  next
    case (unload ids' d1 r1)
    have ok: "daemon_ok (d\<lparr> dm_active_ids := ids' \<rparr>)" using daemon_ok_ids [OF assms(1) ids(2)] by (simp add: unload(1))
    show ?thesis using unload(3) ok apply_keeps [OF unload(2) ok] by auto
  qed
  then show "daemon_ok d'" "\<not> dm_running d \<Longrightarrow> \<not> dm_running d'" "\<not> dm_rt_running d \<Longrightarrow> \<not> dm_rt_running d'" by simp_all
qed

lemma parse_notify_range: "parse_notify_profile_id s = i \<Longrightarrow> 0 < i \<Longrightarrow> i \<le> 2147483647"
  by (auto simp: parse_notify_profile_id_def split: option.splits prod.splits if_splits)

lemma main_notify_keeps:
  assumes "daemon_ok d"
  shows "daemon_ok (main_notify e extra d)" "\<not> dm_running d \<Longrightarrow> \<not> dm_running (main_notify e extra d)"
    "\<not> dm_rt_running d \<Longrightarrow> \<not> dm_rt_running (main_notify e extra d)"
  using notify_keeps [OF assms, of "parse_notify_profile_id extra" e "fst (handle_profile_notify e (parse_notify_profile_id extra) d)"
      "snd (handle_profile_notify e (parse_notify_profile_id extra) d)"] parse_notify_range [OF refl, of extra] assms
  by (auto simp: main_notify_def Let_def)

lemma thread_main_keeps:
  assumes "daemon_ok d"
  shows "daemon_ok (forwarder_thread_main lib alloc now prep d)"
    "\<not> dm_running d \<Longrightarrow> \<not> dm_running (forwarder_thread_main lib alloc now prep d)"
    "\<not> dm_running d \<Longrightarrow> \<not> dm_rt_running (forwarder_thread_main lib alloc now prep d)"
  using assms by (auto simp: forwarder_thread_main_def forwarder_init_def daemon_ok_def Let_def split: prod.splits option.splits if_splits)

lemma daemon_ok_end [simp]: "daemon_ok (forwarder_thread_end d) = daemon_ok d" "daemon_ok (on_stop_signal d) = daemon_ok d"
  by (simp_all add: daemon_ok_def forwarder_thread_end_def on_stop_signal_def)

lemma daemon_ok_start [simp]: "daemon_ok (daemon_start rt st pt)"
  by (simp add: daemon_ok_def daemon_start_def)

lemma daemon_step_keeps: "daemon_step d d' \<Longrightarrow> daemon_ok d \<Longrightarrow> daemon_ok d'"
  by (auto elim!: daemon_stepE intro: main_notify_keeps(1) thread_main_keeps(1))

text \<open>Whatever notifications arrive and however the thread's start and end fall between them, the active profile ids stay
  distinct, positive and at most 32, and both slot numbers stay in range.\<close>

lemma daemon_invariant:
  "daemon_step\<^sup>*\<^sup>* (daemon_start rt st pt) d \<Longrightarrow> daemon_ok d"
  by (induction rule: rtranclp_induct) (simp_all add: daemon_step_keeps)

section \<open>A failed update\<close>

text \<open>C12: a notification that fails leaves the configuration in force as it was; a failed load restores the active profiles, but
  a failed unload does not: the profile is no longer active while the forwarder still runs with it.\<close>

theorem failed_update_keeps_config:
  assumes "daemon_ok d" "dm_has_thread d" "handle_profile_notify e i d = (-1, d')"
  shows "dm_slots d' ! dm_active_slot d' = dm_slots d ! dm_active_slot d \<and> dm_active_slot d' = dm_active_slot d \<and>
    dm_fwd_slot d' = dm_fwd_slot d \<and>
    dm_active_ids d' = (if ne_profile_id_exists (de_conn e) i = 0 then dm_active_ids d else filter (\<lambda>x. x \<noteq> i) (dm_active_ids d))"
proof -
  have same: "dm_slots d1 ! dm_active_slot d1 = dm_slots d0 ! dm_active_slot d0 \<and> dm_active_slot d1 = dm_active_slot d0 \<and>
      dm_fwd_slot d1 = dm_fwd_slot d0 \<and> dm_active_ids d1 = dm_active_ids d0"
    if "apply_active_configs e d0 = (r, d1)" "r \<noteq> 0" "dm_has_thread d0" "dm_active_slot d0 < 2" for d0 d1 r
  proof -
    have "1 - dm_active_slot d0 \<noteq> dm_active_slot d0" using that(4) by arith
    with that(2,3) show ?thesis by (cases rule: apply_cases [OF that(1)]) simp_all
  qed
  have a: "dm_active_slot d < 2" using assms(1) by (simp add: daemon_ok_def)
  show ?thesis
  proof (cases "ne_profile_id_exists (de_conn e) i = 0")
    case True
    obtain r0 ids where add: "active_ids_add (dm_active_ids d) i = (r0, ids)" by (cases "active_ids_add (dm_active_ids d) i")
    show ?thesis
    proof (cases "r0 = 1")
      case one: True
      then have ids: "ids = dm_active_ids d @ [i]" "i \<notin> set (dm_active_ids d)" using add by (auto simp: active_ids_add_def split: if_splits)
      obtain r1 d1 where a1: "apply_active_configs e (d\<lparr> dm_active_ids := ids \<rparr>) = (r1, d1)"
        by (cases "apply_active_configs e (d\<lparr> dm_active_ids := ids \<rparr>)")
      have "r1 \<noteq> 0 \<and> d' = d1\<lparr> dm_active_ids := snd (active_ids_remove (dm_active_ids d1) i) \<rparr>"
        using assms(2,3) True add one a1
        by (auto simp: handle_profile_notify_def load_profile_and_run_def Let_def split: if_splits)
      with same [OF a1] assms(2) a ids active_ids_remove_add [OF ids(2)] True show ?thesis by auto
    next
      case False
      then have "ids = dm_active_ids d" using add by (auto simp: active_ids_add_def split: if_splits)
      then show ?thesis using assms(2,3) True add False
        by (auto simp: handle_profile_notify_def load_profile_and_run_def active_ids_add_def Let_def split: if_splits)
    qed
  next
    case False
    define d0 where "d0 = d\<lparr> dm_active_ids := filter (\<lambda>x. x \<noteq> i) (dm_active_ids d) \<rparr>"
    obtain r1 d1 where a1: "apply_active_configs e d0 = (r1, d1)" by (cases "apply_active_configs e d0")
    have "r1 \<noteq> 0 \<and> d' = d1"
      using assms(3) False a1
      by (auto simp: handle_profile_notify_def active_ids_remove_def runtime_stop_forwarder_def d0_def Let_def split: if_splits)
    with same [OF a1] assms(2) a False show ?thesis by (auto simp: d0_def)
  qed
qed

section \<open>An outage of the database\<close>

lemma stopped_stays:
  assumes "daemon_step\<^sup>*\<^sup>* d d'" "daemon_ok d" "\<not> dm_running d" "\<not> dm_rt_running d"
  shows "daemon_ok d' \<and> \<not> dm_running d' \<and> \<not> dm_rt_running d'"
  using assms
proof (induction rule: rtranclp_induct)
  case (step y z)
  from step(2) step.IH [OF step.prems] show ?case
    by (cases rule: daemon_step.cases) (simp_all add: main_notify_keeps thread_main_keeps, simp_all add: forwarder_thread_end_def on_stop_signal_def)
qed simp

text \<open>C11: a notification for the only active profile while the database cannot be reached counts as its deletion: the forwarder
  stops, and no later notification starts it again, since the flag \<open>running\<close> is never raised.\<close>

theorem outage_stops_for_good:
  assumes "daemon_ok d" "dm_has_thread d" "dm_active_ids d = [i]" "de_conn e i = None"
  shows "\<exists>d1. handle_profile_notify e i d = (0, d1) \<and> \<not> dm_rt_running d1 \<and> (\<forall>d'. daemon_step\<^sup>*\<^sup>* d1 d' \<longrightarrow> \<not> dm_rt_running d')"
proof -
  define d1 where "d1 = d\<lparr> dm_active_ids := [], dm_running := False, dm_has_thread := False, dm_thread_new := False, dm_rt_running := False \<rparr>"
  have h: "handle_profile_notify e i d = (0, d1)"
    using assms(2-4) by (simp add: handle_profile_notify_def ne_profile_id_exists_def active_ids_remove_def runtime_stop_forwarder_def d1_def)
  have "daemon_ok d1" "\<not> dm_running d1" "\<not> dm_rt_running d1" using assms(1) by (simp_all add: d1_def daemon_ok_def)
  with stopped_stays h show ?thesis by blast
qed

section \<open>A reload loses what the forwarder learned\<close>

lemma append_all_locals:
  assumes "append_all app dst xs = Some (is, dst')" "\<And>dst x. \<forall>l \<in> set (ac_locals (snd (app dst x))). l \<in> set (ac_locals dst) \<or> P l x"
  shows "\<forall>l \<in> set (ac_locals dst'). l \<in> set (ac_locals dst) \<or> (\<exists>x \<in> set xs. P l x)"
  using assms(1)
proof (induction xs arbitrary: dst "is")
  case (Cons x xs)
  obtain j d1 where d1: "app dst x = (j, d1)" by (cases "app dst x")
  with Cons.prems obtain is' where "append_all app d1 xs = Some (is', dst')" by (auto simp: bind_eq_Some_conv Let_def split: if_splits)
  from Cons.IH [OF this] assms(2) [of dst x] d1 show ?case by auto
qed simp

lemma merge_profiles_locals: "merge_profiles f dst ps = Some dst' \<Longrightarrow> ac_locals dst' = ac_locals dst"
  by (induction ps arbitrary: dst) (auto simp: Let_def split: if_splits)

lemma merge_one_locals:
  assumes "merge_one_config dst src = Some dst'"
  shows "\<forall>l \<in> set (ac_locals dst'). l \<in> set (ac_locals dst) \<or> l \<in> set (ac_locals src)"
proof -
  from assms obtain lm d1 wm d2 pm d3 where m: "append_all append_local_unique dst (ac_locals src) = Some (lm, d1)"
    "append_all append_wan_unique d1 (ac_wans src) = Some (wm, d2)" "append_all append_policy_unique d2 (ac_policies src) = Some (pm, d3)"
    "merge_profiles (merge_profile src lm wm pm) d3 (ac_profiles src) = Some dst'"
    by (auto simp: merge_one_config_def bind_eq_Some_conv)
  have "\<forall>l \<in> set (ac_locals d1). l \<in> set (ac_locals dst) \<or> (\<exists>x \<in> set (ac_locals src). l = x)"
    by (rule append_all_locals [OF m(1)]) (auto simp: append_local_unique_def Let_def)
  moreover have "\<forall>l \<in> set (ac_locals d2). l \<in> set (ac_locals d1) \<or> (\<exists>x \<in> set (ac_wans src). False)"
    by (rule append_all_locals [OF m(2)]) (auto simp: append_wan_unique_def Let_def)
  moreover have "\<forall>l \<in> set (ac_locals d3). l \<in> set (ac_locals d2) \<or> (\<exists>x \<in> set (ac_policies src). False)"
    by (rule append_all_locals [OF m(3)]) (auto simp: append_policy_unique_def Let_def split: option.split)
  ultimately show ?thesis using merge_profiles_locals [OF m(4)] by auto
qed

lemma merge_ids_locals:
  assumes "merge_ids load m ids = Some m'" "\<And>i cfg. load i = Some cfg \<Longrightarrow> \<forall>l \<in> set (ac_locals cfg). P l" "\<forall>l \<in> set (ac_locals m). P l"
  shows "\<forall>l \<in> set (ac_locals m'). P l"
  using assms(1,3)
proof (induction ids arbitrary: m)
  case (Cons i ids)
  then obtain tmp m1 where s: "load i = Some tmp" "merge_one_config m tmp = Some m1" "merge_ids load m1 ids = Some m'"
    by (auto simp: bind_eq_Some_conv)
  show ?case by (rule Cons.IH [OF s(3)]) (use merge_one_locals [OF s(2)] assms(2) [OF s(1)] Cons.prems(2) in blast)
qed simp

text \<open>A local interface as the loader leaves it: no network and no MAC addresses.\<close>

definition local_blank :: "local_config \<Rightarrow> bool" where
  "local_blank l \<longleftrightarrow> lc_netmask l = 0 \<and> lc_network l = 0 \<and> lc_dst_mac l = zero_mac"

lemma merged_locals_blank:
  assumes "build_merged_config (config_load_from_db sha256 conn) ids = Some cfg"
  shows "\<forall>l \<in> set (ac_locals cfg). local_blank l"
proof -
  from assms obtain m where m: "merge_ids (config_load_from_db sha256 conn) empty_config ids = Some m" "cfg = enable_merged_crypto m"
    by (auto simp: build_merged_config_def bind_eq_Some_conv Let_def split: if_splits)
  have "\<forall>l \<in> set (ac_locals m). local_blank l"
    by (rule merge_ids_locals [OF m(1)]) (use loaded_interfaces in \<open>fastforce simp: local_blank_def\<close>, simp add: empty_config_def)
  then show ?thesis by (simp add: m(2) enable_merged_crypto_def split: list.split)
qed

lemma reload_locals:
  assumes "forwarder_reload_config lib alloc old cfg rt st pt = (0, new, rt', st', pt')" "\<forall>l \<in> set (ac_locals cfg). local_blank l"
  shows "\<forall>l \<in> set (ac_locals new). local_blank l"
  using assms by (auto simp: forwarder_reload_config_def set_queue_counts_def local_blank_def Let_def split: if_splits prod.splits)

lemma blank_picks:
  assumes "\<forall>l \<in> set (ac_locals cfg). local_blank l" "ac_locals cfg \<noteq> []"
  shows "config_wan_bridge_mode cfg \<Longrightarrow> forwarder_rx_pick_local cfg st pkt n ip = Some (i, pkt') \<Longrightarrow> i = -1"
    and "\<not> config_wan_bridge_mode cfg \<Longrightarrow> ip \<noteq> 0 \<Longrightarrow> forwarder_rx_pick_local cfg st pkt n ip = Some (0, pkt)"
proof -
  have "\<forall>l \<in> set (ac_locals cfg). mac_is_zero (lc_dst_mac l)" using assms(1) by (simp add: local_blank_def mac_is_zero_def zero_mac_def list_all_iff)
  then have "first_index (\<lambda>l. \<not> mac_is_zero (lc_dst_mac l) \<and> d = lc_dst_mac l) 0 (ac_locals cfg) = -1" for d
    by (simp add: first_index_none)
  then show "config_wan_bridge_mode cfg \<Longrightarrow> forwarder_rx_pick_local cfg st pkt n ip = Some (i, pkt') \<Longrightarrow> i = -1"
    by (auto simp: forwarder_rx_pick_local_def bridge_mac_local_for_dmac_def bind_eq_Some_conv split: if_splits)
  obtain l ls where "ac_locals cfg = l # ls" using assms(2) by (cases "ac_locals cfg") auto
  with assms(1) have "config_find_local_for_ip cfg ip = 0"
    by (simp add: config_find_local_for_ip_def local_blank_def)
  then show "\<not> config_wan_bridge_mode cfg \<Longrightarrow> ip \<noteq> 0 \<Longrightarrow> forwarder_rx_pick_local cfg st pkt n ip = Some (0, pkt)"
    by (simp add: forwarder_rx_pick_local_def)
qed

text \<open>C10: after any successful change of profiles while the forwarder runs, its configuration has forgotten the addresses that
  \<open>forwarder_init\<close> learned: with a bridged WAN no received packet finds its local interface and all are dropped, and with
  routed WANs every packet goes to the first local interface, whatever its destination.\<close>

theorem reload_forgets_addresses:
  assumes "daemon_ok d" "dm_has_thread d" "apply_active_configs e d = (0, d')"
  shows "\<exists>k cfg. dm_fwd_slot d' = Some k \<and> dm_active_slot d' = k \<and> dm_slots d' ! k = cfg \<and>
    (\<forall>st pkt n ip i pkt'. config_wan_bridge_mode cfg \<longrightarrow> forwarder_rx_pick_local cfg st pkt n ip = Some (i, pkt') \<longrightarrow> i = -1) \<and>
    (\<forall>st pkt n ip. \<not> config_wan_bridge_mode cfg \<longrightarrow> ac_locals cfg \<noteq> [] \<longrightarrow> ip \<noteq> 0 \<longrightarrow>
       forwarder_rx_pick_local cfg st pkt n ip = Some (0, pkt))"
  using assms(3)
proof (cases rule: apply_cases)
  case (reload m d1)
  let ?k = "1 - dm_active_slot d"
  have k: "?k < length (dm_slots d)" using assms(1) by (simp add: daemon_ok_def)
  from reload(4) obtain j new rt st pt where j: "forwarder_reload_config (de_lib e) (de_ctx_alloc e) ((dm_slots d)[?k := m] ! j) m
      (dm_rt d) (dm_st d) (dm_pins d) = (0, new, rt, st, pt)" "dm_slots d1 ! ?k = new" "dm_fwd_slot d1 = Some ?k"
    using k by (auto simp: reload_forwarder_def Let_def split: option.splits prod.splits if_splits)
  have b: "\<forall>l \<in> set (ac_locals new). local_blank l" by (rule reload_locals [OF j(1) merged_locals_blank [OF reload(3)]])
  have d': "dm_fwd_slot d' = Some ?k" "dm_active_slot d' = ?k" "dm_slots d' ! ?k = new" using j(2,3) by (simp_all add: reload(5))
  have 1: "forwarder_rx_pick_local new st pkt n ip = Some (i, pkt') \<Longrightarrow> i = -1" if "config_wan_bridge_mode new" for st pkt n ip i pkt'
  proof (cases "ac_locals new")
    case Nil
    then show "forwarder_rx_pick_local new st pkt n ip = Some (i, pkt') \<Longrightarrow> i = -1"
      using that by (auto simp: forwarder_rx_pick_local_def bridge_mac_local_for_dmac_def bind_eq_Some_conv split: if_splits)
  qed (use blank_picks(1) [OF b _ that] in simp)
  show ?thesis by (intro exI [of _ ?k] exI [of _ new] conjI) (use d' 1 blank_picks(2) [OF b] in auto)
qed (use assms(2) in simp_all)

section \<open>Concrete instances\<close>

definition sample_env :: "(int \<Rightarrow> db_rows option) \<Rightarrow> daemon_env" where
  "sample_env conn = \<lparr> de_conn = conn, de_sha256 = sample_sha256, de_lib = toy_lib, de_ctx_alloc = True, de_mem = True, de_create = True \<rparr>"

definition sample_start :: daemon where
  "sample_start = daemon_start crypto_runtime_init (sample_crypto 1) \<lparr> pins_inited = False, pins = \<lambda>_. [] \<rparr>"

definition sample_daemon :: "int list \<Rightarrow> app_config \<Rightarrow> daemon" where
  "sample_daemon ids cfg = sample_start\<lparr> dm_has_thread := True, dm_rt_running := True, dm_slots := [cfg, empty_config],
     dm_active_ids := ids, dm_fwd_slot := Some 0 \<rparr>"

lemma sample_daemon_ok: "daemon_ok (sample_daemon [1] cfg)" "daemon_ok (sample_daemon [1, 2] cfg)"
  by (simp_all add: sample_daemon_def sample_start_def daemon_ok_def daemon_start_def ids_ok_def MAX_ACTIVE_PROFILE_IDS_def)

lemma sample_loads: "dm_active_ids (main_notify (sample_env sample_conn) ''1'' sample_start) = [1]"
  by code_simp

theorem failed_update_keeps_config_witness:
  "\<exists>d'. handle_profile_notify (sample_env (\<lambda>_. None)) 1 (sample_daemon [1, 2] sample_config) = (-1, d') \<and>
     dm_slots d' ! 0 = sample_config \<and> dm_active_ids d' = [2]"
proof -
  let ?d = "sample_daemon [1, 2] sample_config"
  have r: "fst (handle_profile_notify (sample_env (\<lambda>_. None)) 1 ?d) = -1"
    by (simp add: handle_profile_notify_def ne_profile_id_exists_def active_ids_remove_def sample_env_def sample_daemon_def
        apply_active_configs_def build_merged_config_def config_load_from_db_def)
  have "ne_profile_id_exists (de_conn (sample_env (\<lambda>_. None))) 1 \<noteq> 0" by (simp add: ne_profile_id_exists_def sample_env_def)
  moreover have "dm_has_thread ?d" "dm_active_slot ?d = 0" "dm_slots ?d ! 0 = sample_config" "dm_active_ids ?d = [1, 2]"
    by (simp_all add: sample_daemon_def sample_start_def daemon_start_def)
  moreover have h: "handle_profile_notify (sample_env (\<lambda>_. None)) 1 ?d = (-1, snd (handle_profile_notify (sample_env (\<lambda>_. None)) 1 ?d))"
    using r by (metis prod.collapse)
  ultimately show ?thesis
    using failed_update_keeps_config [OF sample_daemon_ok(2) _ h] by (intro exI [of _ "snd (handle_profile_notify (sample_env (\<lambda>_. None)) 1 ?d)"] conjI h) auto
qed

theorem outage_stops_for_good_witness:
  "\<exists>d1. handle_profile_notify (sample_env (\<lambda>_. None)) 1 (sample_daemon [1] sample_config) = (0, d1) \<and>
     (\<forall>d'. daemon_step\<^sup>*\<^sup>* d1 d' \<longrightarrow> \<not> dm_rt_running d')"
proof -
  have "dm_has_thread (sample_daemon [1] sample_config)" "dm_active_ids (sample_daemon [1] sample_config) = [1]"
    "de_conn (sample_env (\<lambda>_. None)) 1 = None"
    by (simp_all add: sample_daemon_def sample_start_def daemon_start_def sample_env_def)
  from outage_stops_for_good [OF sample_daemon_ok(1) this] show ?thesis by blast
qed

lemma reload_same: "forwarder_reload_config lib alloc m m rt st pt = (0, m, rt, st, pt)"
proof -
  have z: "list_all (\<lambda>(x, y). f x = f y) (zip xs xs)" for f :: "'a \<Rightarrow> 'b" and xs by (induction xs) auto
  have "list_all (\<lambda>(x, y). same_crypto_policy x y) (take n (zip xs xs))" for n xs
    by (induction xs arbitrary: n) (auto simp: same_crypto_policy_def take_Cons' )
  then have "\<not> list_ex (\<lambda>(x, y). \<not> same_crypto_policy x y) (take n (zip xs xs))" for n xs
    by (fastforce simp: list_all_iff list_ex_iff)
  then show ?thesis
    by (simp add: forwarder_reload_config_def same_topology_def z crypto_runtime_changed_def forwarding_runtime_changed_def)
qed

lemma sample_merge: "map_option config_wan_bridge_mode (build_merged_config (config_load_from_db sample_sha256 sample_conn) [1]) = Some True"
  by code_simp

theorem reload_forgets_addresses_witness:
  "\<exists>d d' cfg. dm_has_thread d \<and> apply_active_configs (sample_env sample_conn) d = (0, d') \<and> dm_fwd_slot d' = Some 1 \<and>
     (\<forall>st pkt n ip i pkt'. forwarder_rx_pick_local (dm_slots d' ! 1) st pkt n ip = Some (i, pkt') \<longrightarrow> i = -1)"
proof -
  from sample_merge obtain m where m: "build_merged_config (config_load_from_db sample_sha256 sample_conn) [1] = Some m"
    "config_wan_bridge_mode m" by auto
  let ?d = "sample_daemon [1] m"
  let ?d' = "?d\<lparr> dm_slots := [m, m], dm_fwd_slot := Some 1, dm_active_slot := 1 \<rparr>"
  have a: "apply_active_configs (sample_env sample_conn) ?d = (0, ?d')"
    using m(1) by (simp add: apply_active_configs_def sample_env_def sample_daemon_def sample_start_def daemon_start_def
        reload_forwarder_def reload_same)
  have t: "dm_has_thread ?d" by (simp add: sample_daemon_def)
  from reload_forgets_addresses [OF sample_daemon_ok(1) t a] m(2) a t show ?thesis by (intro exI [of _ ?d] exI [of _ ?d']) simp
qed

end
