(* ===== verification/PeerMac.thy ===== *)
theory PeerMac
  imports CFile Flow DbLoaded
begin

text \<open>
  The addresses of the peers behind the local interfaces when the WAN is bridged, \<open>src/core/bridge_mac.c\<close>:
  they are read from a file and from the output of a command, or learned from the first frame on the interface, and
  saved. The file and the output are strings, \<open>None\<close> when they cannot be opened; the hardware address of an
  interface and the frames a raw socket delivers are parameters.
\<close>

section \<open>Operations\<close>

definition local_idx_by_ifname :: "app_config \<Rightarrow> string \<Rightarrow> int" where
  "local_idx_by_ifname cfg name = (if name = [] then -1 else first_index (\<lambda>l. lc_ifname l = name) 0 (ac_locals cfg))"

definition set_dst_mac :: "nat \<Rightarrow> u8 list \<Rightarrow> app_config \<Rightarrow> app_config" where
  "set_dst_mac i mac cfg = cfg\<lparr> ac_locals := (ac_locals cfg)[i := (ac_locals cfg ! i)\<lparr> lc_dst_mac := mac \<rparr>] \<rparr>"

definition mac_set_peer :: "app_config \<Rightarrow> int \<Rightarrow> u8 list \<Rightarrow> app_config option" where
  "mac_set_peer cfg li mac =
     (if li < 0 \<or> li \<ge> int (length (ac_locals cfg)) \<or> \<not> mac_is_valid_peer mac then None
      else Some (set_dst_mac (nat li) mac cfg))"

text \<open>An interface by name or by number.\<close>

definition local_of_token :: "app_config \<Rightarrow> string \<Rightarrow> int" where
  "local_of_token cfg if_tok =
     (let li = local_idx_by_ifname cfg if_tok in
      if li \<ge> 0 then li
      else case scan_long if_tok of
        None \<Rightarrow> -1
      | Some (idx, rest) \<Rightarrow> if rest = [] \<and> idx \<ge> 0 \<and> idx < int (length (ac_locals cfg)) then idx else -1)"

text \<open>One token for a MAC address and the interface it was found for.\<close>

definition mac_try_set :: "app_config \<Rightarrow> int \<Rightarrow> string \<Rightarrow> app_config option" where
  "mac_try_set cfg li mac_tok =
     (if li < 0 then None else case parse_mac mac_tok of None \<Rightarrow> None | Some mac \<Rightarrow> mac_set_peer cfg li mac)"

definition line_ignored :: "string \<Rightarrow> bool" where
  "line_ignored p = (p = [] \<or> hd p = newline \<or> hd p = CHR ''#'')"

text \<open>\<open>sscanf(p, "%63[^=]=%63s", a, b) == 2\<close>.\<close>

definition scan_assignment :: "string \<Rightarrow> (string \<times> string) option" where
  "scan_assignment p = do {
     (a, r) \<leftarrow> scan_not_eq 63 p;
     r \<leftarrow> expect CHR ''='' r;
     (b, _) \<leftarrow> scan_s 63 r;
     Some (a, b) }"

text \<open>\<open>sscanf(p, "%47s %63s", mac_tok, if_tok) == 2\<close>.\<close>

definition scan_pair :: "string \<Rightarrow> (string \<times> string) option" where
  "scan_pair p = do {
     (mac_tok, r) \<leftarrow> scan_s 47 p;
     (if_tok, _) \<leftarrow> scan_s 63 r;
     Some (mac_tok, if_tok) }"

definition mac_file_line :: "string \<Rightarrow> app_config \<Rightarrow> app_config option" where
  "mac_file_line line cfg =
     (let p = skip_blanks line in
      if line_ignored p then None
      else case scan_assignment p of
        Some (a, b) \<Rightarrow> mac_try_set cfg (local_idx_by_ifname cfg a) b
      | None \<Rightarrow>
          (case scan_pair p of
             None \<Rightarrow> None
           | Some (mac_tok, if_tok) \<Rightarrow> mac_try_set cfg (local_of_token cfg if_tok) mac_tok))"

definition mac_preload_line :: "string \<Rightarrow> app_config \<Rightarrow> app_config option" where
  "mac_preload_line line cfg =
     (let p = skip_blanks line in
      if line_ignored p then None
      else case scan_pair p of
        None \<Rightarrow> None
      | Some (mac_tok, if_tok) \<Rightarrow>
          (case parse_mac mac_tok of
             None \<Rightarrow> None
           | Some mac \<Rightarrow>
               if \<not> mac_is_valid_peer mac then None
               else let li = local_of_token cfg if_tok in if li < 0 then None else mac_set_peer cfg li mac))"

text \<open>The lines one after the other, with the number of addresses set.\<close>

fun mac_load_lines :: "(string \<Rightarrow> app_config \<Rightarrow> app_config option) \<Rightarrow> string list \<Rightarrow> int \<times> app_config \<Rightarrow> int \<times> app_config" where
  "mac_load_lines f [] s = s"
| "mac_load_lines f (l # ls) (n, cfg) =
     (case f l cfg of None \<Rightarrow> mac_load_lines f ls (n, cfg) | Some cfg \<Rightarrow> mac_load_lines f ls (n + 1, cfg))"

definition mac_load_from_file :: "string option \<Rightarrow> app_config \<Rightarrow> int \<times> app_config" where
  "mac_load_from_file file cfg =
     (case file of None \<Rightarrow> (0, cfg) | Some txt \<Rightarrow> mac_load_lines mac_file_line (fgets_lines 255 txt) (0, cfg))"

text \<open>\<open>cmd\<close> says whether the variable is set, \<open>outp\<close> is what the command prints.\<close>

definition mac_load_from_preload_env :: "bool \<Rightarrow> string option \<Rightarrow> app_config \<Rightarrow> int \<times> app_config" where
  "mac_load_from_preload_env cmd outp cfg =
     (if \<not> cmd then (0, cfg)
      else case outp of None \<Rightarrow> (-1, cfg) | Some txt \<Rightarrow> mac_load_lines mac_preload_line (fgets_lines 511 txt) (0, cfg))"

definition mac_file_text :: "app_config \<Rightarrow> string" where
  "mac_file_text cfg = concat (map (\<lambda>l. (lc_ifname l @ CHR ''='' # show_mac (lc_dst_mac l)) @ [newline])
     (filter (\<lambda>l. \<not> mac_is_zero (lc_dst_mac l)) (ac_locals cfg)))"

definition mac_save_to_file :: "bool \<Rightarrow> app_config \<Rightarrow> string option \<Rightarrow> int \<times> string option" where
  "mac_save_to_file writable cfg file = (if \<not> writable then (-1, file) else (0, Some (mac_file_text cfg)))"

text \<open>The loop over the frames: before each \<open>recv\<close> the stop flag is read. \<open>None\<close>: still waiting; \<open>Some None\<close>: -1.\<close>

fun mac_wait_first_packet :: "(bool \<times> buf) list \<Rightarrow> u8 list option option" where
  "mac_wait_first_packet [] = None"
| "mac_wait_first_packet ((stop, frame) # es) =
     (if stop then Some None
      else if length frame < 14 then mac_wait_first_packet es
      else let src = take 6 (drop 6 frame) in
        if \<not> mac_is_valid_peer src then mac_wait_first_packet es else Some (Some src))"

text \<open>The loop that waits for the missing addresses; \<open>learn\<close> is what the wait on an interface returns.\<close>

fun learn_missing :: "(string \<Rightarrow> u8 list option) \<Rightarrow> bool \<Rightarrow> nat list \<Rightarrow> app_config \<times> string option \<Rightarrow> int \<times> app_config \<times> string option" where
  "learn_missing learn writable [] s = (0, s)"
| "learn_missing learn writable (i # is) (cfg, file) =
     (if \<not> mac_is_zero (lc_dst_mac (ac_locals cfg ! i)) then learn_missing learn writable is (cfg, file)
      else case learn (lc_ifname (ac_locals cfg ! i)) of
        None \<Rightarrow> (-1, cfg, file)
      | Some mac \<Rightarrow>
          (case mac_set_peer cfg (int i) mac of
             None \<Rightarrow> (-1, cfg, file)
           | Some cfg \<Rightarrow> learn_missing learn writable is (cfg, snd (mac_save_to_file writable cfg file))))"

record mac_env =
  me_hwaddr :: "string \<Rightarrow> u8 list option"
  me_cmd :: bool
  me_output :: "string option"
  me_learn :: "string \<Rightarrow> u8 list option"
  me_writable :: bool

text \<open>Result, configuration, file and \<open>g_peer_macs_ready\<close>.\<close>

definition bridge_mac_prepare_impl :: "mac_env \<Rightarrow> bool \<Rightarrow> string option \<Rightarrow> app_config \<Rightarrow> int \<times> app_config \<times> string option \<times> bool" where
  "bridge_mac_prepare_impl e ready file cfg =
     (if ac_locals cfg = [] \<or> ready then (0, cfg, file, ready)
      else
        let cfg = cfg\<lparr> ac_locals := map (\<lambda>l. case me_hwaddr e (lc_ifname l) of None \<Rightarrow> l | Some m \<Rightarrow> l\<lparr> lc_src_mac := m \<rparr>) (ac_locals cfg) \<rparr>;
            (_, cfg) = mac_load_from_file file cfg;
            (_, cfg) = mac_load_from_preload_env (me_cmd e) (me_output e) cfg;
            (r, cfg, file) = learn_missing (me_learn e) (me_writable e) [0..<length (ac_locals cfg)] (cfg, file)
        in (r, cfg, file, r = 0))"

section \<open>Saved addresses are loaded\<close>

lemma hex2_chars: "c \<in> set (show_hex2 b) \<Longrightarrow> \<not> is_space c \<and> c \<noteq> newline"
proof -
  have "unat b div 16 < 16" "unat b mod 16 < 16" using unsigned_less [of b, where ?'a = nat] by simp_all
  then show "c \<in> set (show_hex2 b) \<Longrightarrow> \<not> is_space c \<and> c \<noteq> newline" by (auto simp: show_hex2_def hex_char_facts)
qed

lemma colon_char: "\<not> is_space CHR '':'' \<and> CHR '':'' \<noteq> newline"
  by (simp add: is_space_def newline_def)

lemma show_mac_chars: "c \<in> set (show_mac ms) \<Longrightarrow> \<not> is_space c \<and> c \<noteq> newline"
  by (induction ms rule: show_mac.induct) (auto dest: hex2_chars simp: colon_char simp del: code_consts)

lemma show_mac_length: "ms \<noteq> [] \<Longrightarrow> length (show_mac ms) = 3 * length ms - 1"
  by (induction ms rule: show_mac.induct) (simp_all add: show_hex2_def)

text \<open>A name that survives: it has no white space, equals sign or newline, is not a comment and not too long.\<close>

definition plain_name :: "string \<Rightarrow> bool" where
  "plain_name n \<longleftrightarrow> n \<noteq> [] \<and> length n < 16 \<and> newline \<notin> set n \<and> CHR ''='' \<notin> set n \<and> \<not> is_blank (hd n) \<and> hd n \<noteq> CHR ''#''"

lemma scan_assignment_line:
  assumes "plain_name n" "length m = 6"
  shows "scan_assignment (n @ CHR ''='' # show_mac m @ [newline]) = Some (n, show_mac m)"
proof -
  have tw: "takeWhile (\<lambda>c. c \<noteq> CHR ''='') (n @ CHR ''='' # s) = n" for s
    using assms(1) by (auto simp: plain_name_def takeWhile_append)
  have 1: "scan_not_eq 63 (n @ CHR ''='' # show_mac m @ [newline]) = Some (n, CHR ''='' # show_mac m @ [newline])"
    using assms(1) by (simp add: scan_not_eq_def tw plain_name_def)
  have l: "length (show_mac m) = 17" using assms(2) by (subst show_mac_length) auto
  have "takeWhile (\<lambda>c. \<not> is_space c) (show_mac m @ [newline]) = show_mac m"
    using show_mac_chars by (subst takeWhile_append2) (auto simp: is_space_def)
  moreover have "dropWhile is_space (show_mac m @ [newline]) = show_mac m @ [newline]"
    using show_mac_chars [of "hd (show_mac m)" m] l by (cases "show_mac m") auto
  ultimately have 2: "scan_s 63 (show_mac m @ [newline]) = Some (show_mac m, [newline])"
    using l by (auto simp: scan_s_def Let_def)
  show ?thesis using 1 2 by (simp add: scan_assignment_def expect_def)
qed

text \<open>What a saved line does to one interface.\<close>

definition take_mac :: "local_config \<Rightarrow> local_config \<Rightarrow> local_config" where
  "take_mac l' l = (if lc_ifname l = lc_ifname l' then l\<lparr> lc_dst_mac := lc_dst_mac l' \<rparr> else l)"

definition saved_line :: "local_config \<Rightarrow> string" where
  "saved_line l = lc_ifname l @ CHR ''='' # show_mac (lc_dst_mac l)"

lemma set_by_name:
  assumes "distinct (map lc_ifname xs)" "i < length xs" "lc_ifname (xs ! i) = lc_ifname l'"
  shows "xs[i := (xs ! i)\<lparr> lc_dst_mac := lc_dst_mac l' \<rparr>] = map (take_mac l') xs"
proof (rule nth_equalityI)
  fix j assume "j < length (xs[i := (xs ! i)\<lparr> lc_dst_mac := lc_dst_mac l' \<rparr>])"
  then have j: "j < length xs" by simp
  have "j \<noteq> i \<Longrightarrow> lc_ifname (xs ! j) \<noteq> lc_ifname (xs ! i)"
    using assms(1,2) j by (metis (no_types, lifting) length_map nth_eq_iff_index_eq nth_map)
  then show "xs[i := (xs ! i)\<lparr> lc_dst_mac := lc_dst_mac l' \<rparr>] ! j = map (take_mac l') xs ! j"
    using j assms by (auto simp: take_mac_def nth_upd)
qed simp

lemma saved_line_loads:
  assumes "plain_name (lc_ifname l')" "length (lc_dst_mac l') = 6" "mac_is_valid_peer (lc_dst_mac l')"
    and "distinct (map lc_ifname (ac_locals cfg))" "lc_ifname l' \<in> lc_ifname ` set (ac_locals cfg)"
  shows "mac_file_line (saved_line l' @ [newline]) cfg = Some (cfg\<lparr> ac_locals := map (take_mac l') (ac_locals cfg) \<rparr>)"
proof -
  have "saved_line l' @ [newline] \<noteq> []" "hd (saved_line l' @ [newline]) = hd (lc_ifname l')" "lc_ifname l' \<noteq> []"
    using assms(1) by (simp_all add: saved_line_def plain_name_def)
  moreover have "hd (lc_ifname l') \<noteq> newline" using assms(1) \<open>lc_ifname l' \<noteq> []\<close> by (metis hd_in_set plain_name_def)
  moreover have "dropWhile is_blank xs = xs" if "xs \<noteq> []" "\<not> is_blank (hd xs)" for xs using that by (cases xs) simp_all
  ultimately have p: "skip_blanks (saved_line l' @ [newline]) = saved_line l' @ [newline]" "\<not> line_ignored (saved_line l' @ [newline])"
    using assms(1) unfolding skip_blanks_def line_ignored_def plain_name_def by metis+
  have "first_index (\<lambda>l. lc_ifname l = lc_ifname l') 0 (ac_locals cfg) \<noteq> -1"
    using assms(5) by (force simp: first_index_none)
  then obtain i where i: "local_idx_by_ifname cfg (lc_ifname l') = int i" "i < length (ac_locals cfg)"
      "lc_ifname (ac_locals cfg ! i) = lc_ifname l'"
    using first_index_some [of 0] \<open>lc_ifname l' \<noteq> []\<close> by (force simp: local_idx_by_ifname_def)
  have "scan_assignment (saved_line l' @ [newline]) = Some (lc_ifname l', show_mac (lc_dst_mac l'))"
    using scan_assignment_line [OF assms(1,2)] by (simp add: saved_line_def)
  then show ?thesis
    using i assms(3) set_by_name [OF assms(4) i(2,3)]
    by (simp add: mac_file_line_def p mac_try_set_def parse_mac_show [OF assms(2)] mac_set_peer_def set_dst_mac_def)
qed

lemma take_mac_keeps [simp]: "lc_ifname (take_mac l' l) = lc_ifname l"
  by (simp add: take_mac_def)

lemma load_saved_lines:
  assumes "\<forall>l' \<in> set ls. plain_name (lc_ifname l') \<and> length (lc_dst_mac l') = 6 \<and> mac_is_valid_peer (lc_dst_mac l') \<and>
      lc_ifname l' \<in> lc_ifname ` set (ac_locals cfg)"
    and "distinct (map lc_ifname (ac_locals cfg))"
  shows "mac_load_lines mac_file_line (map (\<lambda>l. saved_line l @ [newline]) ls) (n, cfg) =
    (n + int (length ls), cfg\<lparr> ac_locals := map (fold take_mac ls) (ac_locals cfg) \<rparr>)"
  using assms
proof (induction ls arbitrary: n cfg)
  case (Cons l ls)
  have "mac_file_line (saved_line l @ [newline]) cfg = Some (cfg\<lparr> ac_locals := map (take_mac l) (ac_locals cfg) \<rparr>)"
    using Cons.prems by (intro saved_line_loads) auto
  moreover have "lc_ifname ` set (map (take_mac l) (ac_locals cfg)) = lc_ifname ` set (ac_locals cfg)"
    "map lc_ifname (map (take_mac l) (ac_locals cfg)) = map lc_ifname (ac_locals cfg)"
    by (simp_all add: image_image o_def)
  ultimately show ?case
    using Cons.IH [of "cfg\<lparr> ac_locals := map (take_mac l) (ac_locals cfg) \<rparr>" "n + 1"] Cons.prems
    by (simp add: o_def)
qed simp

lemma fold_take_mac_other: "lc_ifname l \<notin> lc_ifname ` set ls \<Longrightarrow> fold take_mac ls l = l"
  by (induction ls) (auto simp: take_mac_def)

lemma fold_take_mac_restores:
  assumes "l \<in> set ls" "distinct (map lc_ifname ls)"
  shows "fold take_mac ls (l\<lparr> lc_dst_mac := m \<rparr>) = l"
proof -
  obtain a b where ls: "ls = a @ l # b" using split_list [OF assms(1)] by blast
  have "lc_ifname (l\<lparr> lc_dst_mac := m \<rparr>) \<notin> lc_ifname ` set a" "lc_ifname l \<notin> lc_ifname ` set b" using assms(2) by (auto simp: ls)
  note fold_take_mac_other [OF this(1)] fold_take_mac_other [OF this(2)]
  then show ?thesis by (simp add: ls take_mac_def)
qed

definition clear_peers :: "app_config \<Rightarrow> app_config" where
  "clear_peers cfg = cfg\<lparr> ac_locals := map (\<lambda>l. l\<lparr> lc_dst_mac := replicate 6 0 \<rparr>) (ac_locals cfg) \<rparr>"

text \<open>The saved addresses are loaded again: a forwarder that starts with no peer addresses and the file that
  \<open>mac_save_to_file\<close> wrote for the same interfaces has all the addresses back.\<close>

lemma peer_mac_file_roundtrip:
  assumes "distinct (map lc_ifname (ac_locals cfg))" "\<forall>l \<in> set (ac_locals cfg). plain_name (lc_ifname l)"
    and "\<forall>l \<in> set (ac_locals cfg). lc_dst_mac l = replicate 6 0 \<or> length (lc_dst_mac l) = 6 \<and> mac_is_valid_peer (lc_dst_mac l)"
  shows "snd (mac_load_from_file (snd (mac_save_to_file True cfg file)) (clear_peers cfg)) = cfg"
proof -
  define ls where "ls = filter (\<lambda>l. \<not> mac_is_zero (lc_dst_mac l)) (ac_locals cfg)"
  have sub: "set ls \<subseteq> set (ac_locals cfg)" by (auto simp: ls_def)
  have z: "mac_is_zero (replicate 6 0)" by (simp add: mac_is_zero_def list_all_iff)
  have ok: "\<forall>l \<in> set ls. length (lc_dst_mac l) = 6 \<and> mac_is_valid_peer (lc_dst_mac l)" using assms(3) z by (auto simp: ls_def)
  have len: "\<forall>l \<in> set ls. newline \<notin> set (saved_line l) \<and> length (saved_line l) < 255"
  proof
    fix l assume l: "l \<in> set ls"
    with ok have "lc_dst_mac l \<noteq> []" by auto
    with l ok have "length (show_mac (lc_dst_mac l)) = 17" by (simp add: show_mac_length)
    moreover have "plain_name (lc_ifname l)" using l sub assms(2) by blast
    moreover have "newline \<noteq> CHR ''=''" by (simp add: newline_def)
    ultimately show "newline \<notin> set (saved_line l) \<and> length (saved_line l) < 255"
      using show_mac_chars [of newline "lc_dst_mac l"] by (auto simp: saved_line_def plain_name_def)
  qed
  have lines: "fgets_lines 255 (mac_file_text cfg) = map (\<lambda>l. saved_line l @ [newline]) ls"
    using fgets_lines_concat [of "map saved_line ls" 255] len
    by (simp add: mac_file_text_def ls_def saved_line_def o_def)
  have names: "lc_ifname ` set (ac_locals (clear_peers cfg)) = lc_ifname ` set (ac_locals cfg)"
    "map lc_ifname (ac_locals (clear_peers cfg)) = map lc_ifname (ac_locals cfg)"
    by (simp_all add: clear_peers_def image_image o_def)
  have "mac_load_lines mac_file_line (map (\<lambda>l. saved_line l @ [newline]) ls) (0, clear_peers cfg) =
      (int (length ls), (clear_peers cfg)\<lparr> ac_locals := map (fold take_mac ls) (ac_locals (clear_peers cfg)) \<rparr>)"
    using load_saved_lines [of ls "clear_peers cfg" 0] ok sub assms(1,2) by (simp add: names) blast
  moreover have "map (fold take_mac ls) (ac_locals (clear_peers cfg)) = ac_locals cfg"
  proof -
    have "fold take_mac ls (l\<lparr> lc_dst_mac := replicate 6 0 \<rparr>) = l" if l: "l \<in> set (ac_locals cfg)" for l
    proof (cases "l \<in> set ls")
      case True
      then show ?thesis using fold_take_mac_restores assms(1) by (simp add: ls_def distinct_map_filter)
    next
      case False
      then have zl: "lc_dst_mac l = replicate 6 0" using l assms(3) by (auto simp: ls_def mac_is_valid_peer_def)
      have "lc_ifname l \<notin> lc_ifname ` set ls"
        using False l sub assms(1) by (auto simp: distinct_map inj_on_def)
      then have "fold take_mac ls l = l" by (rule fold_take_mac_other)
      moreover have "l\<lparr> lc_dst_mac := replicate 6 0 \<rparr> = l" using zl [symmetric] by simp
      ultimately show ?thesis by simp
    qed
    then show ?thesis by (simp add: clear_peers_def o_def map_idI)
  qed
  ultimately show ?thesis
    by (simp add: mac_load_from_file_def mac_save_to_file_def lines) (simp add: clear_peers_def)
qed

section \<open>Preparation finds every peer\<close>

definition peer_or_zero :: "local_config \<Rightarrow> bool" where
  "peer_or_zero l \<longleftrightarrow> length (lc_dst_mac l) = 6 \<and> (mac_is_zero (lc_dst_mac l) \<or> mac_is_valid_peer (lc_dst_mac l))"

text \<open>What every step of the preparation keeps: the interfaces, and addresses that are absent or those of a peer; an address
  that is there stays there.\<close>

definition mac_progress :: "app_config \<Rightarrow> app_config \<Rightarrow> bool" where
  "mac_progress cfg cfg' \<longleftrightarrow> map lc_ifname (ac_locals cfg') = map lc_ifname (ac_locals cfg) \<and>
     (list_all peer_or_zero (ac_locals cfg) \<longrightarrow> list_all peer_or_zero (ac_locals cfg')) \<and>
     (\<forall>i < length (ac_locals cfg). \<not> mac_is_zero (lc_dst_mac (ac_locals cfg ! i)) \<longrightarrow> \<not> mac_is_zero (lc_dst_mac (ac_locals cfg' ! i)))"

lemma mac_progress_refl [simp]: "mac_progress cfg cfg"
  by (simp add: mac_progress_def)

lemma mac_progress_trans: "mac_progress a b \<Longrightarrow> mac_progress b c \<Longrightarrow> mac_progress a c"
  unfolding mac_progress_def by (metis length_map)

lemma mac_set_peer_progress:
  assumes "mac_set_peer cfg li mac = Some cfg'" "length mac = 6"
  shows "mac_progress cfg cfg'" "\<not> mac_is_zero (lc_dst_mac (ac_locals cfg' ! nat li))" "nat li < length (ac_locals cfg')"
proof -
  from assms have c: "cfg' = set_dst_mac (nat li) mac cfg" "nat li < length (ac_locals cfg)" "mac_is_valid_peer mac" "\<not> mac_is_zero mac"
    by (auto simp: mac_set_peer_def mac_is_valid_peer_def split: if_splits)
  then show "\<not> mac_is_zero (lc_dst_mac (ac_locals cfg' ! nat li))" "nat li < length (ac_locals cfg')"
    by (simp_all add: set_dst_mac_def)
  have "map lc_ifname (ac_locals cfg') = map lc_ifname (ac_locals cfg)"
    using c(2) by (simp add: c(1) set_dst_mac_def map_update list_update_same_conv)
  moreover have "list_all peer_or_zero (ac_locals cfg) \<Longrightarrow> list_all peer_or_zero (ac_locals cfg')"
    using c assms(2) by (auto simp: list_all_length set_dst_mac_def nth_list_update peer_or_zero_def)
  ultimately show "mac_progress cfg cfg'"
    using c by (auto simp: mac_progress_def set_dst_mac_def nth_list_update)
qed

lemma parse_mac_length: "parse_mac s = Some mac \<Longrightarrow> length mac = 6"
  by (simp add: parse_mac_def scan_mac_length)

lemma mac_file_line_progress: "mac_file_line l cfg = Some cfg' \<Longrightarrow> mac_progress cfg cfg'"
  by (auto simp: mac_file_line_def mac_try_set_def Let_def dest: mac_set_peer_progress(1) parse_mac_length
      split: if_splits option.splits prod.splits)

lemma mac_preload_line_progress: "mac_preload_line l cfg = Some cfg' \<Longrightarrow> mac_progress cfg cfg'"
  by (auto simp: mac_preload_line_def Let_def dest: mac_set_peer_progress(1) parse_mac_length split: if_splits option.splits prod.splits)

lemma mac_load_lines_progress:
  assumes "\<And>l cfg cfg'. f l cfg = Some cfg' \<Longrightarrow> mac_progress cfg cfg'"
  shows "mac_progress cfg (snd (mac_load_lines f ls (n, cfg)))"
proof (induction ls arbitrary: n cfg)
  case (Cons l ls)
  then show ?case by (auto split: option.split intro: mac_progress_trans [OF assms])
qed simp

lemma mac_load_progress:
  "mac_progress cfg (snd (mac_load_from_file file cfg))" "mac_progress cfg (snd (mac_load_from_preload_env cmd outp cfg))"
  by (auto simp: mac_load_from_file_def mac_load_from_preload_env_def split: option.split
      intro: mac_load_lines_progress mac_file_line_progress mac_preload_line_progress)

lemma learn_missing_progress:
  assumes "\<And>n m. learn n = Some m \<Longrightarrow> length m = 6" "learn_missing learn w is (cfg, fl) = (r, cfg', fl')"
    and "\<forall>i \<in> set is. i < length (ac_locals cfg)"
  shows "mac_progress cfg cfg' \<and> (r = 0 \<longrightarrow> (\<forall>i \<in> set is. \<not> mac_is_zero (lc_dst_mac (ac_locals cfg' ! i))))"
  using assms(2,3)
proof (induction "is" arbitrary: cfg fl)
  case (Cons i "is")
  have keep: "\<not> mac_is_zero (lc_dst_mac (ac_locals c ! i))"
    if "mac_progress a c" "\<not> mac_is_zero (lc_dst_mac (ac_locals a ! i))" "i < length (ac_locals a)" for a c
    using that by (simp add: mac_progress_def)
  show ?case
  proof (cases "mac_is_zero (lc_dst_mac (ac_locals cfg ! i))")
    case False
    with Cons.prems Cons.IH [of cfg fl] keep [of cfg cfg'] show ?thesis by auto
  next
    case True
    show ?thesis
    proof (cases "learn (lc_ifname (ac_locals cfg ! i))")
      case None
      then show ?thesis using Cons.prems True by auto
    next
      case (Some mac)
      show ?thesis
      proof (cases "mac_set_peer cfg (int i) mac")
        case None
        then show ?thesis using Cons.prems True Some by auto
      next
        case s: (Some c1)
        note p = mac_set_peer_progress [OF s assms(1) [OF Some]]
        have "length (ac_locals c1) = length (ac_locals cfg)" using p(1) by (metis mac_progress_def length_map)
        then have "mac_progress c1 cfg' \<and> (r = 0 \<longrightarrow> (\<forall>i \<in> set is. \<not> mac_is_zero (lc_dst_mac (ac_locals cfg' ! i))))"
          using Cons.prems True Some s Cons.IH [of c1] by auto
        with p keep [of c1 cfg'] show ?thesis by (auto intro: mac_progress_trans)
      qed
    qed
  qed
qed simp

text \<open>C14: when the preparation of a bridge succeeds, every local interface has the unicast address of a peer; if these addresses
  differ, the lookup of a received frame by its destination finds exactly the interface of that peer.\<close>

theorem bridge_prepare_finds_peers:
  assumes "bridge_mac_prepare_impl e False file cfg = (0, cfg', file', ready)" "list_all peer_or_zero (ac_locals cfg)"
    and "\<forall>n m. me_learn e n = Some m \<longrightarrow> length m = 6"
  shows "map lc_ifname (ac_locals cfg') = map lc_ifname (ac_locals cfg) \<and>
    (\<forall>l \<in> set (ac_locals cfg'). mac_is_valid_peer (lc_dst_mac l)) \<and>
    (distinct (map lc_dst_mac (ac_locals cfg')) \<longrightarrow> (\<forall>i < length (ac_locals cfg'). \<forall>rest n. 14 \<le> n \<longrightarrow>
       bridge_mac_local_for_dmac cfg' (lc_dst_mac (ac_locals cfg' ! i) @ rest) n = Some (int i)))"
proof -
  let ?hw = "cfg\<lparr> ac_locals := map (\<lambda>l. case me_hwaddr e (lc_ifname l) of None \<Rightarrow> l | Some m \<Rightarrow> l\<lparr> lc_src_mac := m \<rparr>) (ac_locals cfg) \<rparr>"
  have hw: "mac_progress cfg ?hw"
    by (auto simp: mac_progress_def list_all_length peer_or_zero_def split: option.split)
  have "mac_progress cfg cfg' \<and> (\<forall>i < length (ac_locals cfg'). \<not> mac_is_zero (lc_dst_mac (ac_locals cfg' ! i)))"
  proof (cases "ac_locals cfg = []")
    case True
    then show ?thesis using assms(1) by (simp add: bridge_mac_prepare_impl_def)
  next
    case False
    define c1 where "c1 = snd (mac_load_from_file file ?hw)"
    define c2 where "c2 = snd (mac_load_from_preload_env (me_cmd e) (me_output e) c1)"
    have p: "mac_progress cfg c2" unfolding c2_def c1_def
      using hw mac_load_progress mac_progress_trans by blast
    have "learn_missing (me_learn e) (me_writable e) [0..<length (ac_locals c2)] (c2, file) = (0, cfg', file')"
      using assms(1) False by (auto simp: bridge_mac_prepare_impl_def c1_def c2_def Let_def split: prod.splits)
    from learn_missing_progress [OF _ this] assms(3)
    have l: "mac_progress c2 cfg'" "\<forall>i < length (ac_locals c2). \<not> mac_is_zero (lc_dst_mac (ac_locals cfg' ! i))" by auto
    have "length (ac_locals cfg') = length (ac_locals c2)" using l(1) by (metis mac_progress_def length_map)
    with l p show ?thesis by (auto intro: mac_progress_trans)
  qed
  then have a: "map lc_ifname (ac_locals cfg') = map lc_ifname (ac_locals cfg)" "list_all peer_or_zero (ac_locals cfg')"
    "\<forall>i < length (ac_locals cfg'). \<not> mac_is_zero (lc_dst_mac (ac_locals cfg' ! i))"
    using assms(2) by (simp_all add: mac_progress_def)
  from a(3) have "\<forall>l \<in> set (ac_locals cfg'). \<not> mac_is_zero (lc_dst_mac l)" by (metis in_set_conv_nth)
  with a(2) have v: "\<forall>l \<in> set (ac_locals cfg'). mac_is_valid_peer (lc_dst_mac l) \<and> length (lc_dst_mac l) = 6 \<and> \<not> mac_is_zero (lc_dst_mac l)"
    by (simp add: list_all_iff peer_or_zero_def)
  have "bridge_mac_local_for_dmac cfg' (lc_dst_mac (ac_locals cfg' ! i) @ rest) n = Some (int i)"
    if d: "distinct (map lc_dst_mac (ac_locals cfg'))" "i < length (ac_locals cfg')" "14 \<le> n" for i rest n
  proof -
    let ?P = "\<lambda>l. \<not> mac_is_zero (lc_dst_mac l) \<and> lc_dst_mac (ac_locals cfg' ! i) = lc_dst_mac l"
    have vi: "mac_is_valid_peer (lc_dst_mac (ac_locals cfg' ! i))" "length (lc_dst_mac (ac_locals cfg' ! i)) = 6" "?P (ac_locals cfg' ! i)"
      using v d(2) by simp_all
    then have "first_index ?P 0 (ac_locals cfg') \<noteq> -1" using d(2) by (force simp: first_index_none)
    then obtain j where j: "first_index ?P 0 (ac_locals cfg') = int j" "j < length (ac_locals cfg')" "?P (ac_locals cfg' ! j)"
      using first_index_some [of 0 ?P "ac_locals cfg'"] by auto
    then have "j = i" using d(1,2) by (metis (no_types, lifting) length_map nth_eq_iff_index_eq nth_map)
    with j(1) vi d(3) show ?thesis by (simp add: bridge_mac_local_for_dmac_def rdn_def)
  qed
  with a(1) v show ?thesis by blast
qed

section \<open>Concrete instances\<close>

definition sample_bridge :: app_config where
  "sample_bridge = sample_config\<lparr> ac_locals := [sample_local\<lparr> lc_dst_mac := [2, 0, 0, 0, 0, 9] \<rparr>] \<rparr>"

definition sample_mac_env :: mac_env where
  "sample_mac_env = \<lparr> me_hwaddr = (\<lambda>_. None), me_cmd = False, me_output = None, me_learn = (\<lambda>_. Some [2, 0, 0, 0, 0, 7]), me_writable = True \<rparr>"

theorem bridge_prepare_finds_peers_witness:
  "\<exists>cfg' file'. bridge_mac_prepare_impl sample_mac_env False None (clear_peers sample_bridge) = (0, cfg', file', True) \<and>
     (\<forall>l \<in> set (ac_locals cfg'). mac_is_valid_peer (lc_dst_mac l))"
proof -
  have z: "mac_is_zero (replicate 6 0)" "mac_is_valid_peer [2, 0, 0, 0, 0, 7]"
    by (simp_all add: mac_is_zero_def list_all_iff mac_is_valid_peer_def mac_is_broadcast_def mac_is_multicast_def)
  have "\<exists>cfg' file'. bridge_mac_prepare_impl sample_mac_env False None (clear_peers sample_bridge) = (0, cfg', file', True)"
    using z by (simp add: bridge_mac_prepare_impl_def sample_mac_env_def clear_peers_def sample_bridge_def mac_load_from_file_def
        mac_load_from_preload_env_def mac_set_peer_def mac_save_to_file_def Let_def)
  then obtain cfg' file' where p: "bridge_mac_prepare_impl sample_mac_env False None (clear_peers sample_bridge) = (0, cfg', file', True)" by blast
  have "list_all peer_or_zero (ac_locals (clear_peers sample_bridge))"
    by (simp add: clear_peers_def sample_bridge_def peer_or_zero_def z)
  moreover have "\<forall>n m. me_learn sample_mac_env n = Some m \<longrightarrow> length m = 6" by (simp add: sample_mac_env_def)
  ultimately show ?thesis using bridge_prepare_finds_peers [OF p] p by blast
qed

end
