(* ===== verification/DbEnv.thy ===== *)
theory DbEnv
  imports CFile
begin

text \<open>
  \<open>src/db/db_env.c\<close>: the environment file with the credentials of the database and the connection parameters taken from
  the environment. The environment maps names to values; the file is its text, \<open>None\<close> when it cannot be read.
\<close>

type_synonym environ = "string \<Rightarrow> string option"

definition allowed_keys :: "string list" where
  "allowed_keys = [''POSTGRES_SERVER'', ''POSTGRES_HOST'', ''POSTGRES_PORT'', ''POSTGRES_USER'', ''POSTGRES_DB'', ''POSTGRES_PASSWORD'']"

definition ne_env_key_allowed :: "string \<Rightarrow> bool" where
  "ne_env_key_allowed key = (key \<noteq> [] \<and> list_ex (\<lambda>k. key = k) allowed_keys)"

definition strip_env_quotes :: "string \<Rightarrow> string" where
  "strip_env_quotes val =
     (if length val \<ge> 2 \<and> hd val = CHR 0x22 \<and> last val = CHR 0x22 then butlast (tl val)
      else if length val \<ge> 2 \<and> hd val = CHR 0x27 \<and> last val = CHR 0x27 then butlast (tl val)
      else val)"

text \<open>A set, non-empty variable.\<close>

definition env_get :: "environ \<Rightarrow> string \<Rightarrow> string option" where
  "env_get env k = (case env k of None \<Rightarrow> None | Some v \<Rightarrow> if v = [] then None else Some v)"

definition ne_sync_pgpassword :: "environ \<Rightarrow> environ" where
  "ne_sync_pgpassword env = (case env_get env ''POSTGRES_PASSWORD'' of None \<Rightarrow> env | Some p \<Rightarrow> env(''PGPASSWORD'' \<mapsto> p))"

definition strip_right :: "(char \<Rightarrow> bool) \<Rightarrow> string \<Rightarrow> string" where
  "strip_right P s = rev (dropWhile P (rev s))"

text \<open>The key and the value of a line, when it has the form of an assignment; the first character of a key stays.\<close>

definition env_assignment :: "string \<Rightarrow> (string \<times> string) option" where
  "env_assignment line =
     (let p = skip_blanks line in
      if p = [] \<or> hd p = newline \<or> hd p = CHR ''#'' then None
      else if take 9 p \<noteq> ''POSTGRES_'' then None
      else case after_char CHR ''='' p of
        None \<Rightarrow> None
      | Some val \<Rightarrow>
          let key = before_char CHR ''='' p in
          Some (hd key # strip_right is_blank (tl key),
                strip_env_quotes (strip_right (\<lambda>c. c = newline \<or> c = CHR 0x0D) (skip_blanks val))))"

definition env_line :: "string \<Rightarrow> environ \<Rightarrow> environ" where
  "env_line line env =
     (case env_assignment line of
        None \<Rightarrow> env
      | Some (key, val) \<Rightarrow> if key \<noteq> [] \<and> val \<noteq> [] \<and> ne_env_key_allowed key then env(key \<mapsto> val) else env)"

definition ne_load_env_file :: "string option \<Rightarrow> environ \<Rightarrow> int \<times> environ" where
  "ne_load_env_file file env =
     (case file of None \<Rightarrow> (-1, env)
      | Some txt \<Rightarrow> (0, ne_sync_pgpassword (fold env_line (fgets_lines 2047 txt) env)))"

text \<open>\<open>readable\<close> is the answer of \<open>access\<close>.\<close>

definition load_ne_env :: "bool \<Rightarrow> string option \<Rightarrow> environ \<Rightarrow> int \<times> environ" where
  "load_ne_env readable file env = (if \<not> readable then (-1, env) else ne_load_env_file file env)"

definition resolve_db_password :: "environ \<Rightarrow> string option" where
  "resolve_db_password env = (case env_get env ''POSTGRES_PASSWORD'' of Some p \<Rightarrow> Some p | None \<Rightarrow> env_get env ''PGPASSWORD'')"

text \<open>The keywords with their values.\<close>

definition ne_postgres_conn_fill :: "environ \<Rightarrow> (string \<times> string) list option" where
  "ne_postgres_conn_fill env =
     (let host = (case env_get env ''POSTGRES_SERVER'' of Some h \<Rightarrow> Some h | None \<Rightarrow> env_get env ''POSTGRES_HOST'');
          port = env_get env ''POSTGRES_PORT''; user = env_get env ''POSTGRES_USER'';
          dbname = env_get env ''POSTGRES_DB''; pass = resolve_db_password env
      in do {
        host \<leftarrow> host; port \<leftarrow> port; user \<leftarrow> user; dbname \<leftarrow> dbname; pass \<leftarrow> pass;
        Some [(''host'', host), (''port'', port), (''dbname'', dbname), (''user'', user), (''password'', pass),
              (''connect_timeout'', ''10'')] })"

definition parse_config_id_arg :: "string \<Rightarrow> int option" where
  "parse_config_id_arg s =
     (if s = [] \<or> \<not> list_all is_digit s then None
      else case scan_long s of None \<Rightarrow> None | Some (v, _) \<Rightarrow> if v < 0 \<or> v > 2147483647 then None else Some v)"

section \<open>Properties\<close>

lemma env_line_other: "k \<notin> set allowed_keys \<Longrightarrow> env_line l env k = env k"
  by (auto simp: env_line_def ne_env_key_allowed_def list_ex_iff split: option.split)

lemma env_lines_other: "k \<notin> set allowed_keys \<Longrightarrow> fold env_line ls env k = env k"
  by (induction ls arbitrary: env) (simp_all add: env_line_other)

text \<open>Loading the file changes no variable besides the six of the database and \<open>PGPASSWORD\<close>, whatever the file holds.\<close>

lemma env_file_confined:
  assumes "load_ne_env readable file env = (r, env')" "k \<notin> set allowed_keys" "k \<noteq> ''PGPASSWORD''"
  shows "env' k = env k"
  using assms by (auto simp: load_ne_env_def ne_load_env_file_def ne_sync_pgpassword_def env_lines_other split: if_splits option.splits)

text \<open>The connection parameters are complete or absent.\<close>

lemma conn_fill_complete:
  "ne_postgres_conn_fill env = None \<longleftrightarrow>
     (env_get env ''POSTGRES_SERVER'' = None \<and> env_get env ''POSTGRES_HOST'' = None) \<or> env_get env ''POSTGRES_PORT'' = None \<or>
     env_get env ''POSTGRES_USER'' = None \<or> env_get env ''POSTGRES_DB'' = None \<or>
     (env_get env ''POSTGRES_PASSWORD'' = None \<and> env_get env ''PGPASSWORD'' = None)"
  by (auto simp: ne_postgres_conn_fill_def resolve_db_password_def bind_eq_None_conv Let_def split: option.splits)

definition env_text :: "(string \<times> string) list \<Rightarrow> string" where
  "env_text kvs = concat (map (\<lambda>l. l @ [newline]) (map (\<lambda>(k, v). k @ CHR ''='' # v) kvs))"

definition plain_value :: "string \<Rightarrow> bool" where
  "plain_value v \<longleftrightarrow> v \<noteq> [] \<and> length v < 2000 \<and> newline \<notin> set v \<and> last v \<noteq> CHR 0x0D \<and> \<not> is_blank (hd v) \<and>
     hd v \<notin> {CHR 0x22, CHR 0x27}"

lemma strip_right_keeps: "s \<noteq> [] \<Longrightarrow> \<not> P (last s) \<Longrightarrow> strip_right P s = s"
  by (cases s rule: rev_cases) (simp_all add: strip_right_def)

lemma allowed_key_facts:
  assumes "k \<in> set allowed_keys"
  shows "take 9 k = ''POSTGRES_'' \<and> CHR ''='' \<notin> set k \<and> \<not> is_blank (hd k) \<and> k \<noteq> [] \<and> hd k \<notin> {newline, CHR ''#''} \<and>
     hd k # strip_right is_blank (tl k) = k \<and> 9 \<le> length k"
proof -
  have "k \<in> {''POSTGRES_SERVER'', ''POSTGRES_HOST'', ''POSTGRES_PORT'', ''POSTGRES_USER'', ''POSTGRES_DB'', ''POSTGRES_PASSWORD''}"
    using assms by (simp add: allowed_keys_def)
  then show ?thesis
    by (elim insertE emptyE; hypsubst; simp add: strip_right_def is_blank_def code_def newline_def)
qed

lemma env_assignment_line:
  assumes "k \<in> set allowed_keys" "plain_value v"
  shows "env_assignment ((k @ CHR ''='' # v) @ [newline]) = Some (k, v)"
proof -
  obtain c r where v: "v = c # r" "\<not> is_blank c" using assms(2) by (cases v) (auto simp: plain_value_def)
  have b: "strip_right (\<lambda>c. c = newline \<or> c = CHR 0x0D) (v @ [newline]) = v"
  proof -
    have "last v \<noteq> newline" using assms(2) by (metis last_in_set plain_value_def)
    then show ?thesis using strip_right_keeps [of v "\<lambda>c. c = newline \<or> c = CHR 0x0D"] assms(2)
      by (simp add: plain_value_def strip_right_def)
  qed
  have q: "strip_env_quotes v = v" using assms(2) by (auto simp: strip_env_quotes_def plain_value_def)
  have s: "skip_blanks (v @ [newline]) = v @ [newline]" using v by (simp add: skip_blanks_def)
  note allowed_key_facts [OF assms(1)]
  then have k: "take 9 k = ''POSTGRES_''" "CHR ''='' \<notin> set k" "\<not> is_blank (hd k)" "k \<noteq> []" "hd k \<notin> {newline, CHR ''#''}"
    "hd k # strip_right is_blank (tl k) = k" "9 \<le> length k" by auto
  let ?p = "k @ CHR ''='' # v @ [newline]"
  have "skip_blanks ?p = ?p" using k(3,4) by (cases k) (simp_all add: skip_blanks_def)
  moreover have "before_char CHR ''='' ?p = k" "after_char CHR ''='' ?p = Some (v @ [newline])"
    using k(2) by (auto simp: before_char_def after_char_def takeWhile_append dropWhile_append)
  ultimately show ?thesis using k b q s by (simp add: env_assignment_def Let_def)
qed

text \<open>Round trip: every assignment of a file in plain form is in the environment afterwards, the last one winning.\<close>

lemma env_file_roundtrip:
  assumes "\<forall>(k, v) \<in> set kvs. k \<in> set allowed_keys \<and> plain_value v"
  shows "fold env_line (fgets_lines 2047 (env_text kvs)) env = env ++ map_of (rev kvs)"
proof -
  have "\<forall>l \<in> set (map (\<lambda>(k, v). k @ CHR ''='' # v) kvs). newline \<notin> set l \<and> length l < 2047"
  proof
    fix l assume "l \<in> set (map (\<lambda>(k, v). k @ CHR ''='' # v) kvs)"
    then obtain k v where kv: "(k, v) \<in> set kvs" "l = k @ CHR ''='' # v" by auto
    have "newline \<notin> set k \<and> length k < 30" using assms kv(1) unfolding allowed_keys_def by (auto simp: newline_def)
    with assms kv show "newline \<notin> set l \<and> length l < 2047" by (auto simp: plain_value_def newline_def)
  qed
  then have "fgets_lines 2047 (env_text kvs) = map (\<lambda>l. l @ [newline]) (map (\<lambda>(k, v). k @ CHR ''='' # v) kvs)"
    unfolding env_text_def by (rule fgets_lines_concat)
  moreover have "fold env_line (map (\<lambda>l. l @ [newline]) (map (\<lambda>(k, v). k @ CHR ''='' # v) kvs)) env = env ++ map_of (rev kvs)"
    using assms
  proof (induction kvs arbitrary: env)
    case (Cons kv kvs)
    obtain k v where kv: "kv = (k, v)" by (cases kv)
    have "env_line ((k @ CHR ''='' # v) @ [newline]) env = env(k \<mapsto> v)"
      using Cons.prems env_assignment_line [of k v]
      by (auto simp: kv env_line_def ne_env_key_allowed_def list_ex_iff plain_value_def allowed_keys_def)
    with Cons show ?case by (simp add: kv map_add_def fun_eq_iff split: option.split)
  qed simp
  ultimately show ?thesis by simp
qed

end
