(* ===== verification/SocketLife.thy ===== *)
theory SocketLife
  imports Interface Xdp "HOL-Library.Multiset"
begin

text \<open>
  Opening and closing the AF_XDP sockets: \<open>interface_init_local\<close>, \<open>interface_init_wan_rx\<close>, \<open>interface_init_wan\<close> and
  \<open>interface_cleanup\<close> of \<open>src/core/interface.c\<close>, with the choice of the number of queues. What the kernel, libbpf and
  libxdp hand out (memory, UMEMs, sockets, BPF objects, raw sockets) is a multiset of handles in use; giving one back
  that is not in use is a fault and makes the operation \<open>None\<close>. Which calls succeed is a parameter.
\<close>

section \<open>Resources\<close>

datatype resource = Mem | Umem | Xsk | Bpf | RawSocket

text \<open>The XDP program of an interface is named by its BPF object.\<close>

record kernel =
  kn_next :: nat
  kn_live :: "(nat \<times> resource) multiset"
  kn_xdp :: "nat \<Rightarrow> nat option"
  kn_bundles :: "encrypt_bundle list"

definition acquire :: "resource \<Rightarrow> kernel \<Rightarrow> nat \<times> kernel" where
  "acquire r k = (kn_next k, k\<lparr> kn_next := kn_next k + 1, kn_live := add_mset (kn_next k, r) (kn_live k) \<rparr>)"

definition release :: "resource \<Rightarrow> nat \<Rightarrow> kernel \<Rightarrow> kernel option" where
  "release r h k = (if (h, r) \<in># kn_live k then Some (k\<lparr> kn_live := kn_live k - {#(h, r)#} \<rparr>) else None)"

text \<open>\<open>if (p) free(p)\<close>.\<close>

definition release_opt :: "resource \<Rightarrow> nat option \<Rightarrow> kernel \<Rightarrow> kernel option" where
  "release_opt r p k = (case p of None \<Rightarrow> Some k | Some h \<Rightarrow> release r h k)"

definition interface_xdp_try_detach :: "nat \<Rightarrow> kernel \<Rightarrow> kernel" where
  "interface_xdp_try_detach ifindex k = k\<lparr> kn_xdp := (kn_xdp k)(ifindex := None) \<rparr>"

definition detach_named :: "(string \<Rightarrow> nat) \<Rightarrow> string \<Rightarrow> kernel \<Rightarrow> kernel" where
  "detach_named nametoindex name k =
     (if name = [] then k else if nametoindex name \<noteq> 0 then interface_xdp_try_detach (nametoindex name) k else k)"

definition interface_xdp_detach_all_from_config :: "(string \<Rightarrow> nat) \<Rightarrow> app_config \<Rightarrow> kernel \<Rightarrow> kernel" where
  "interface_xdp_detach_all_from_config nametoindex cfg k =
     fold (detach_named nametoindex) (map wc_ifname (take MAX_INTERFACES (ac_wans cfg)))
       (fold (detach_named nametoindex) (map lc_ifname (take MAX_INTERFACES (ac_locals cfg))) k)"

definition interface_reset_redirect_maps :: "kernel \<Rightarrow> kernel" where
  "interface_reset_redirect_maps k = k\<lparr> kn_bundles := [] \<rparr>"

section \<open>The interface\<close>

record queue_res =
  qr_xsk :: "nat option"
  qr_umem :: "nat option"
  qr_bufs :: "nat option"
  qr_fill :: "nat list"

record iface_res =
  ir_ifindex :: nat
  ir_ifname :: string
  ir_src_mac :: "u8 list"
  ir_dst_mac :: "u8 list"
  ir_umem_size :: nat
  ir_ring_size :: nat
  ir_frame_size :: nat
  ir_batch_size :: nat
  ir_queues :: "queue_res list"
  ir_queue_count :: nat
  ir_own :: queue_res

definition MAX_QUEUES :: nat where "MAX_QUEUES = 64"
definition FORWARDER_XSK_QUEUE_COUNT :: nat where "FORWARDER_XSK_QUEUE_COUNT = 1"

definition blank_queue :: queue_res where
  "blank_queue = \<lparr> qr_xsk = None, qr_umem = None, qr_bufs = None, qr_fill = [] \<rparr>"

definition blank_iface :: iface_res where
  "blank_iface = \<lparr> ir_ifindex = 0, ir_ifname = [], ir_src_mac = replicate 6 0, ir_dst_mac = replicate 6 0, ir_umem_size = 0,
     ir_ring_size = 0, ir_frame_size = 0, ir_batch_size = 0, ir_queues = replicate MAX_QUEUES blank_queue, ir_queue_count = 0,
     ir_own = blank_queue \<rparr>"

text \<open>Which calls succeed. The file descriptors of the filter maps are -1 when the map is missing.\<close>

record init_env =
  ie_ifindex :: nat
  ie_access :: bool
  ie_open :: bool
  ie_load :: bool
  ie_prog :: bool
  ie_xsks_map :: bool
  ie_fds :: "int \<times> int \<times> int \<times> int"
  ie_memalign :: "nat \<Rightarrow> bool"
  ie_umem :: "nat \<Rightarrow> bool"
  ie_xsk :: "nat \<Rightarrow> bool"
  ie_map_update :: "nat \<Rightarrow> bool"
  ie_reserve :: "nat \<Rightarrow> nat"
  ie_attach :: bool

text \<open>The first part of \<open>interface_init_local\<close> and \<open>interface_init_wan_rx\<close>: the BPF object, or nothing when a step fails.\<close>

definition open_bpf_object :: "init_env \<Rightarrow> kernel \<Rightarrow> (nat option \<times> kernel) option" where
  "open_bpf_object e k =
     (if \<not> ie_access e then Some (None, k)
      else if \<not> ie_open e then Some (None, k)
      else let (obj, k) = acquire Bpf k in
        if \<not> ie_load e then do { k \<leftarrow> release Bpf obj k; Some (None, k) }
        else if \<not> ie_prog e then do { k \<leftarrow> release Bpf obj k; Some (None, k) }
        else if \<not> ie_xsks_map e then do { k \<leftarrow> release Bpf obj k; Some (None, k) }
        else Some (Some obj, k))"

definition init_bundle :: "init_env \<Rightarrow> kernel \<Rightarrow> kernel" where
  "init_bundle e k =
     (case ie_fds e of (ctrl, pm, ep, ip) \<Rightarrow>
        if ctrl \<ge> 0 \<and> pm \<ge> 0 \<and> ep \<ge> 0 then
          k\<lparr> kn_bundles := register_encrypt_bundle \<lparr> eb_ctrl_fd = ctrl, eb_meta_fd = pm, eb_pack_fd = ep, eb_ingress_fd = ip,
                                                    eb_ifindex = ie_ifindex e \<rparr> (kn_bundles k) \<rparr>
        else k)"

definition set_queue :: "nat \<Rightarrow> queue_res \<Rightarrow> iface_res \<Rightarrow> iface_res" where
  "set_queue q x iface = iface\<lparr> ir_queues := (ir_queues iface)[q := x] \<rparr>"

text \<open>One round of the loop over the queues; the flag is false when it leaves for \<open>err_queues\<close>.\<close>

definition init_queue :: "init_env \<Rightarrow> nat \<Rightarrow> iface_res \<times> kernel \<Rightarrow> (bool \<times> iface_res \<times> kernel) option" where
  "init_queue e q s =
     (let (iface, k) = s; x = ir_queues iface ! q in
      if \<not> ie_memalign e q then Some (False, iface, k)
      else let (m, k) = acquire Mem k; x = x\<lparr> qr_bufs := Some m \<rparr> in
      if \<not> ie_umem e q then do {
        k \<leftarrow> release Mem m k;
        Some (False, set_queue q (x\<lparr> qr_bufs := None \<rparr>) iface, k) }
      else let (u, k) = acquire Umem k; x = x\<lparr> qr_umem := Some u \<rparr> in
      if \<not> ie_xsk e q then do {
        k \<leftarrow> release Umem u k;
        k \<leftarrow> release Mem m k;
        Some (False, set_queue q (x\<lparr> qr_bufs := None \<rparr>) iface, k) }
      else let (s, k) = acquire Xsk k; x = x\<lparr> qr_xsk := Some s \<rparr> in
      if \<not> ie_map_update e q then do {
        k \<leftarrow> release Xsk s k;
        k \<leftarrow> release Umem u k;
        k \<leftarrow> release Mem m k;
        Some (False, set_queue q (x\<lparr> qr_bufs := None \<rparr>) iface, k) }
      else
        let x = x\<lparr> qr_fill := map (\<lambda>i. i * ir_frame_size iface) [0..<ie_reserve e q] \<rparr>
        in Some (True, (set_queue q x iface)\<lparr> ir_queue_count := ir_queue_count iface + 1 \<rparr>, k))"

fun init_queues :: "init_env \<Rightarrow> nat list \<Rightarrow> iface_res \<times> kernel \<Rightarrow> (bool \<times> iface_res \<times> kernel) option" where
  "init_queues e [] (iface, k) = Some (True, iface, k)"
| "init_queues e (q # qs) s = do {
     (ok, iface, k) \<leftarrow> init_queue e q s;
     if ok then init_queues e qs (iface, k) else Some (False, iface, k) }"

definition release_queue :: "queue_res \<Rightarrow> kernel \<Rightarrow> kernel option" where
  "release_queue x k = do {
     k \<leftarrow> release_opt Xsk (qr_xsk x) k;
     k \<leftarrow> release_opt Umem (qr_umem x) k;
     release_opt Mem (qr_bufs x) k }"

fun release_queues :: "queue_res list \<Rightarrow> kernel \<Rightarrow> kernel option" where
  "release_queues [] k = Some k"
| "release_queues (x # xs) k = do { k \<leftarrow> release_queue x k; release_queues xs k }"

text \<open>The label \<open>err_queues\<close>; the fields of the interface keep their values.\<close>

definition err_queues :: "iface_res \<Rightarrow> nat \<Rightarrow> kernel \<Rightarrow> kernel option" where
  "err_queues iface obj k = do {
     k \<leftarrow> release_queues (take (ir_queue_count iface) (ir_queues iface)) k;
     release Bpf obj (interface_xdp_try_detach (ir_ifindex iface) k) }"

text \<open>The loop over the queues and the attachment of the program.\<close>

definition init_sockets :: "init_env \<Rightarrow> nat \<Rightarrow> iface_res \<Rightarrow> kernel \<Rightarrow> (int \<times> iface_res \<times> kernel) option" where
  "init_sockets e obj iface k = do {
     (ok, iface, k) \<leftarrow> init_queues e [0..<FORWARDER_XSK_QUEUE_COUNT] (iface, k);
     if ok \<and> ie_attach e then Some (0, iface, k\<lparr> kn_xdp := (kn_xdp k)(ir_ifindex iface \<mapsto> obj) \<rparr>)
     else do { k \<leftarrow> err_queues iface obj k; Some (-1, iface, k) } }"

definition interface_init_local :: "init_env \<Rightarrow> local_config \<Rightarrow> kernel \<Rightarrow> (int \<times> iface_res \<times> kernel) option" where
  "interface_init_local e cfg k =
     (let iface = blank_iface\<lparr> ir_ifindex := ie_ifindex e, ir_ifname := lc_ifname cfg, ir_src_mac := lc_src_mac cfg,
                               ir_dst_mac := lc_dst_mac cfg \<rparr>
      in if ir_ifindex iface = 0 then Some (-1, iface, k)
      else do {
        (obj, k) \<leftarrow> open_bpf_object e (interface_xdp_try_detach (ir_ifindex iface) k);
        case obj of
          None \<Rightarrow> Some (-1, iface, k)
        | Some obj \<Rightarrow>
            let iface = iface\<lparr> ir_umem_size := unat (lc_umem_mb cfg) * 1024 * 1024, ir_ring_size := unat (lc_ring_size cfg),
                               ir_frame_size := unat (lc_frame_size cfg), ir_batch_size := unat (lc_batch_size cfg) \<rparr>
            in init_sockets e obj iface (init_bundle e k) })"

text \<open>The update of \<open>wan_config_map\<close> with the fake EtherType does not change the handles.\<close>

definition interface_init_wan_rx :: "init_env \<Rightarrow> wan_config \<Rightarrow> kernel \<Rightarrow> (int \<times> iface_res \<times> kernel) option" where
  "interface_init_wan_rx e cfg k =
     (let iface = blank_iface\<lparr> ir_ifindex := ie_ifindex e, ir_ifname := wc_ifname cfg, ir_src_mac := wc_src_mac cfg,
                               ir_dst_mac := wc_dst_mac cfg \<rparr>
      in if ir_ifindex iface = 0 then Some (-1, iface, k)
      else do {
        (obj, k) \<leftarrow> open_bpf_object e (interface_xdp_try_detach (ir_ifindex iface) k);
        case obj of
          None \<Rightarrow> Some (-1, iface, k)
        | Some obj \<Rightarrow>
            let iface = iface\<lparr> ir_umem_size := unat (wc_umem_mb cfg) * 1024 * 1024, ir_ring_size := unat (wc_ring_size cfg),
                               ir_frame_size := unat (wc_frame_size cfg), ir_batch_size := unat (wc_batch_size cfg) \<rparr>
            in do {
              (r, iface, k) \<leftarrow> init_sockets e obj iface (init_bundle e k);
              let x = ir_queues iface ! 0;
              Some (r, if r = 0 then iface\<lparr> ir_own := (ir_own iface)\<lparr> qr_xsk := qr_xsk x, qr_bufs := qr_bufs x \<rparr> \<rparr> else iface, k) } })"

text \<open>The variant that only sends, without BPF object.\<close>

definition interface_init_wan :: "init_env \<Rightarrow> wan_config \<Rightarrow> kernel \<Rightarrow> (int \<times> iface_res \<times> kernel) option" where
  "interface_init_wan e cfg k =
     (let iface = blank_iface\<lparr> ir_ifindex := ie_ifindex e, ir_ifname := wc_ifname cfg, ir_src_mac := wc_src_mac cfg,
                               ir_dst_mac := wc_dst_mac cfg \<rparr>
      in if ir_ifindex iface = 0 then Some (-1, iface, k)
      else
        let iface = iface\<lparr> ir_umem_size := unat (wc_umem_mb cfg) * 1024 * 1024, ir_ring_size := unat (wc_ring_size cfg),
                           ir_frame_size := unat (wc_frame_size cfg), ir_batch_size := unat (wc_batch_size cfg) \<rparr>
        in if \<not> ie_memalign e 0 then Some (-1, iface, k)
        else let (m, k) = acquire Mem k; x = blank_queue\<lparr> qr_bufs := Some m \<rparr> in
        if \<not> ie_umem e 0 then do { k \<leftarrow> release Mem m k; Some (-1, iface\<lparr> ir_own := x \<rparr>, k) }
        else let (u, k) = acquire Umem k; x = x\<lparr> qr_umem := Some u \<rparr> in
        if \<not> ie_xsk e 0 then do { k \<leftarrow> release Umem u k; k \<leftarrow> release Mem m k; Some (-1, iface\<lparr> ir_own := x \<rparr>, k) }
        else let (s, k) = acquire Xsk k; x = x\<lparr> qr_xsk := Some s \<rparr> in
        if ie_reserve e 0 \<noteq> ir_ring_size iface then do {
          k \<leftarrow> release Xsk s k; k \<leftarrow> release Umem u k; k \<leftarrow> release Mem m k; Some (-1, iface\<lparr> ir_own := x \<rparr>, k) }
        else
          let x = x\<lparr> qr_fill := map (\<lambda>i. i * ir_frame_size iface) [0..<ir_ring_size iface] \<rparr>
          in Some (0, iface\<lparr> ir_own := x \<rparr>, k))"

definition interface_cleanup :: "iface_res \<Rightarrow> kernel \<Rightarrow> (iface_res \<times> kernel) option" where
  "interface_cleanup iface k =
     (let k = (if ir_ifindex iface \<noteq> 0 then interface_xdp_try_detach (ir_ifindex iface) k else k) in do {
        k \<leftarrow> release_queues (take (ir_queue_count iface) (ir_queues iface)) k;
        k \<leftarrow> (if ir_queue_count iface = 0 then release_queue (ir_own iface) k else Some k);
        Some (blank_iface, k) })"

section \<open>The number of hardware queues\<close>

text \<open>What \<open>ETHTOOL_GCHANNELS\<close> returns.\<close>

record channels =
  ch_combined_count :: int
  ch_rx_count :: int
  ch_max_combined :: int
  ch_max_rx :: int

definition get_rx_queue_count :: "channels option \<Rightarrow> int" where
  "get_rx_queue_count chs =
     (case chs of None \<Rightarrow> 1
      | Some c \<Rightarrow>
          let n = ch_combined_count c; n = (if n = 0 then ch_rx_count c else n); n = (if n = 0 then 1 else n)
          in if n > int MAX_QUEUES then int MAX_QUEUES else n)"

text \<open>\<open>sock\<close> and \<open>set_ok\<close>: the socket could be opened and the new number be set. The second component is the number of
  channels that was asked for.\<close>

definition interface_set_queue_count :: "bool \<Rightarrow> channels option \<Rightarrow> bool \<Rightarrow> int \<Rightarrow> int \<times> int option" where
  "interface_set_queue_count sock chs set_ok desired =
     (let desired = (if desired < 1 then 1 else desired);
          desired = (if desired > int FORWARDER_XSK_QUEUE_COUNT then int FORWARDER_XSK_QUEUE_COUNT else desired)
      in if \<not> sock then (-1, None)
      else case chs of
        None \<Rightarrow> (-1, None)
      | Some c \<Rightarrow>
          let current = (if ch_combined_count c \<noteq> 0 then ch_combined_count c else ch_rx_count c) in
          if ch_max_combined c > 0 then
            let target = (if desired > ch_max_combined c then ch_max_combined c else desired) in
            if target = ch_combined_count c then (target, None)
            else if \<not> set_ok then (if current > 0 then current else 1, Some target)
            else (target, Some target)
          else if ch_max_rx c > 0 then
            let target = (if desired > ch_max_rx c then ch_max_rx c else desired) in
            if target = ch_rx_count c then (target, None)
            else if \<not> set_ok then (if current > 0 then current else 1, Some target)
            else (target, Some target)
          else (1, None))"


section \<open>What is opened is closed\<close>

text \<open>The handles that a queue and an interface hold.\<close>

definition opt_handle :: "resource \<Rightarrow> nat option \<Rightarrow> (nat \<times> resource) multiset" where
  "opt_handle r p = (case p of None \<Rightarrow> {#} | Some h \<Rightarrow> {#(h, r)#})"

definition handles :: "queue_res \<Rightarrow> (nat \<times> resource) multiset" where
  "handles x = opt_handle Xsk (qr_xsk x) + opt_handle Umem (qr_umem x) + opt_handle Mem (qr_bufs x)"

definition queue_handles :: "iface_res \<Rightarrow> (nat \<times> resource) multiset" where
  "queue_handles i = sum_list (map handles (take (ir_queue_count i) (ir_queues i)))"

definition owned :: "iface_res \<Rightarrow> (nat \<times> resource) multiset" where
  "owned i = queue_handles i + (if ir_queue_count i = 0 then handles (ir_own i) else {#})"

lemma release_opt_law: "opt_handle r p \<subseteq># kn_live k \<Longrightarrow> release_opt r p k = Some (k\<lparr> kn_live := kn_live k - opt_handle r p \<rparr>)"
  by (auto simp: release_opt_def release_def opt_handle_def split: option.split)

lemma release_queue_law:
  assumes "handles x \<subseteq># kn_live k"
  shows "release_queue x k = Some (k\<lparr> kn_live := kn_live k - handles x \<rparr>)"
proof -
  obtain D where D: "kn_live k = handles x + D" using assms by (metis mset_subset_eq_exists_conv)
  show ?thesis
    by (simp add: release_queue_def release_opt_law D handles_def)
qed

lemma release_queues_law:
  "sum_list (map handles xs) \<subseteq># kn_live k \<Longrightarrow> release_queues xs k = Some (k\<lparr> kn_live := kn_live k - sum_list (map handles xs) \<rparr>)"
proof (induction xs arbitrary: k)
  case (Cons x xs)
  then obtain D where D: "kn_live k = handles x + sum_list (map handles xs) + D" by (auto simp: mset_subset_eq_exists_conv)
  then show ?case using Cons.IH [of "k\<lparr> kn_live := sum_list (map handles xs) + D \<rparr>"]
    by (simp add: release_queue_law add.assoc)
qed simp

lemma blank_queue_sel [simp]: "qr_xsk blank_queue = None" "qr_umem blank_queue = None" "qr_bufs blank_queue = None"
  by (simp_all add: blank_queue_def)

lemma handles_blank [simp]: "handles blank_queue = {#}"
  by (simp add: handles_def opt_handle_def)

text \<open>What stays the same while sockets are opened and closed.\<close>

definition same_but_live :: "kernel \<Rightarrow> kernel \<Rightarrow> bool" where
  "same_but_live k k' \<longleftrightarrow> kn_xdp k' = kn_xdp k \<and> kn_bundles k' = kn_bundles k \<and> kn_next k \<le> kn_next k'"

lemma init_queue_law:
  assumes "q < length (ir_queues i)" "ir_queues i ! q = blank_queue"
  obtains ok i' k' where "init_queue e q (i, k) = Some (ok, i', k')" "same_but_live k k'"
    "ir_queues i' = (ir_queues i)[q := ir_queues i' ! q]" "ir_own i' = ir_own i" "ir_ifindex i' = ir_ifindex i"
    "ir_queue_count i' = (if ok then ir_queue_count i + 1 else ir_queue_count i)"
    "kn_live k' = (if ok then kn_live k + handles (ir_queues i' ! q) else kn_live k)"
proof -
  have "\<exists>ok i' k'. init_queue e q (i, k) = Some (ok, i', k') \<and> same_but_live k k' \<and>
      ir_queues i' = (ir_queues i)[q := ir_queues i' ! q] \<and> ir_own i' = ir_own i \<and> ir_ifindex i' = ir_ifindex i \<and>
      ir_queue_count i' = (if ok then ir_queue_count i + 1 else ir_queue_count i) \<and>
      kn_live k' = (if ok then kn_live k + handles (ir_queues i' ! q) else kn_live k)"
    using assms list_update_id [of "ir_queues i" q]
    by (auto simp: init_queue_def acquire_def release_def Let_def set_queue_def same_but_live_def handles_def opt_handle_def)
  with that show ?thesis by blast
qed

text \<open>The loop started at queue \<open>n\<close> adds the handles of the queues that were opened.\<close>

lemma init_queues_law:
  assumes "m \<le> length (ir_queues i)" "ir_queue_count i = n" "n \<le> m" "\<forall>j. n \<le> j \<and> j < m \<longrightarrow> ir_queues i ! j = blank_queue"
    and "kn_live k = L + queue_handles i"
  shows "\<exists>ok i' k'. init_queues e [n..<m] (i, k) = Some (ok, i', k') \<and> same_but_live k k' \<and> ir_own i' = ir_own i \<and>
     ir_ifindex i' = ir_ifindex i \<and> ir_queue_count i' \<le> m \<and> (ok \<longrightarrow> ir_queue_count i' = m) \<and> kn_live k' = L + queue_handles i'"
  using assms
proof (induction "m - n" arbitrary: n i k)
  case 0
  then show ?case by (auto simp: same_but_live_def)
next
  case (Suc d)
  then have q: "n < length (ir_queues i)" "ir_queues i ! n = blank_queue" "[n..<m] = n # [Suc n..<m]" by (auto simp: upt_conv_Cons)
  obtain ok i1 k1 where s: "init_queue e n (i, k) = Some (ok, i1, k1)" "same_but_live k k1"
    "ir_queues i1 = (ir_queues i)[n := ir_queues i1 ! n]" "ir_own i1 = ir_own i" "ir_ifindex i1 = ir_ifindex i"
    "ir_queue_count i1 = (if ok then ir_queue_count i + 1 else ir_queue_count i)"
    "kn_live k1 = (if ok then kn_live k + handles (ir_queues i1 ! n) else kn_live k)"
    using init_queue_law [OF q(1,2)] .
  have l: "length (ir_queues i1) = length (ir_queues i)" by (subst s(3)) simp
  have t: "take n (ir_queues i1) = take n (ir_queues i)" by (subst s(3)) simp
  show ?case
  proof (cases ok)
    case True
    have "take (Suc n) (ir_queues i1) = take n (ir_queues i) @ [ir_queues i1 ! n]" using l t q(1) by (simp add: take_Suc_conv_app_nth)
    then have "kn_live k1 = L + queue_handles i1" using True Suc.prems(2,5) s(6,7) by (simp add: queue_handles_def)
    moreover have "\<forall>j. Suc n \<le> j \<and> j < m \<longrightarrow> ir_queues i1 ! j = blank_queue"
      using Suc.prems(4) by (subst s(3)) simp
    ultimately have "\<exists>ok i' k'. init_queues e [Suc n..<m] (i1, k1) = Some (ok, i', k') \<and> same_but_live k1 k' \<and> ir_own i' = ir_own i1 \<and>
        ir_ifindex i' = ir_ifindex i1 \<and> ir_queue_count i' \<le> m \<and> (ok \<longrightarrow> ir_queue_count i' = m) \<and> kn_live k' = L + queue_handles i'"
      using Suc.hyps Suc.prems(1,2) True s(6) l by (intro Suc.hyps(1)) auto
    then show ?thesis using s True q(3) by (fastforce simp: same_but_live_def)
  next
    case False
    then show ?thesis using s q(3) t Suc.prems by (auto simp: queue_handles_def)
  qed
qed

lemma init_sockets_law:
  assumes "ir_queues i = replicate MAX_QUEUES blank_queue" "ir_queue_count i = 0" "kn_live k = L + {#(obj, Bpf)#}"
  obtains r i' k' where "init_sockets e obj i k = Some (r, i', k')" "r = 0 \<or> r = -1" "kn_bundles k' = kn_bundles k"
    "ir_ifindex i' = ir_ifindex i" "ir_own i' = ir_own i" "r = 0 \<longrightarrow> ir_queue_count i' = FORWARDER_XSK_QUEUE_COUNT"
    "kn_live k' = (if r = 0 then L + {#(obj, Bpf)#} + queue_handles i' else L)"
    "kn_xdp k' = (kn_xdp k)(ir_ifindex i := (if r = 0 then Some obj else None))"
proof -
  have "kn_live k = (L + {#(obj, Bpf)#}) + queue_handles i" using assms by (simp add: queue_handles_def)
  then obtain ok i1 k1 where q: "init_queues e [0..<FORWARDER_XSK_QUEUE_COUNT] (i, k) = Some (ok, i1, k1)" "same_but_live k k1"
    "ir_own i1 = ir_own i" "ir_ifindex i1 = ir_ifindex i" "ok \<Longrightarrow> ir_queue_count i1 = FORWARDER_XSK_QUEUE_COUNT"
    "kn_live k1 = (L + {#(obj, Bpf)#}) + queue_handles i1"
    using init_queues_law [of FORWARDER_XSK_QUEUE_COUNT i 0 k "L + {#(obj, Bpf)#}" e] assms(1,2)
    by (force simp: FORWARDER_XSK_QUEUE_COUNT_def MAX_QUEUES_def)
  show ?thesis
  proof (cases "ok \<and> ie_attach e")
    case True
    then show ?thesis using that [of 0 i1 "k1\<lparr> kn_xdp := (kn_xdp k1)(ir_ifindex i1 \<mapsto> obj) \<rparr>"] q
      by (simp add: init_sockets_def same_but_live_def)
  next
    case False
    have "release_queues (take (ir_queue_count i1) (ir_queues i1)) k1 = Some (k1\<lparr> kn_live := L + {#(obj, Bpf)#} \<rparr>)"
      using release_queues_law [of "take (ir_queue_count i1) (ir_queues i1)" k1] q(6) by (simp add: queue_handles_def)
    then have "err_queues i1 obj k1 = Some (interface_xdp_try_detach (ir_ifindex i1) (k1\<lparr> kn_live := L \<rparr>))"
      by (simp add: err_queues_def release_def interface_xdp_try_detach_def)
    then show ?thesis using that [of "-1" i1 "interface_xdp_try_detach (ir_ifindex i1) (k1\<lparr> kn_live := L \<rparr>)"] q False
      by (auto simp: init_sockets_def same_but_live_def interface_xdp_try_detach_def)
  qed
qed

lemma open_bpf_object_law:
  obtains obj k' where "open_bpf_object e k = Some (obj, k')" "kn_xdp k' = kn_xdp k" "kn_bundles k' = kn_bundles k"
    "kn_live k' = (case obj of None \<Rightarrow> kn_live k | Some h \<Rightarrow> kn_live k + {#(h, Bpf)#})"
proof -
  have "\<exists>obj k'. open_bpf_object e k = Some (obj, k') \<and> kn_xdp k' = kn_xdp k \<and> kn_bundles k' = kn_bundles k \<and>
      kn_live k' = (case obj of None \<Rightarrow> kn_live k | Some h \<Rightarrow> kn_live k + {#(h, Bpf)#})"
    by (simp add: open_bpf_object_def acquire_def release_def Let_def)
  with that show ?thesis by blast
qed

text \<open>The outcome of opening an interface: everything, or nothing.\<close>

definition opened :: "init_env \<Rightarrow> kernel \<Rightarrow> int \<times> iface_res \<times> kernel \<Rightarrow> bool" where
  "opened e k res \<longleftrightarrow> (case res of (r, i, k') \<Rightarrow>
     ir_ifindex i = ie_ifindex e \<and>
     (r = 0 \<and> ir_queue_count i = FORWARDER_XSK_QUEUE_COUNT \<and>
        (\<exists>obj. kn_live k' = kn_live k + owned i + {#(obj, Bpf)#} \<and> kn_xdp k' = (kn_xdp k)(ie_ifindex e \<mapsto> obj)) \<or>
      r = -1 \<and> kn_live k' = kn_live k \<and> kn_xdp k' = (if ie_ifindex e = 0 then kn_xdp k else (kn_xdp k)(ie_ifindex e := None))))"

lemma init_bundle_sel [simp]: "kn_live (init_bundle e k) = kn_live k" "kn_xdp (init_bundle e k) = kn_xdp k"
  by (auto simp: init_bundle_def split: prod.split)

lemma detach_sel [simp]: "kn_live (interface_xdp_try_detach n k) = kn_live k" "kn_xdp (interface_xdp_try_detach n k) = (kn_xdp k)(n := None)"
  by (simp_all add: interface_xdp_try_detach_def)

lemma blank_iface_sel [simp]: "ir_queue_count blank_iface = 0" "ir_queues blank_iface = replicate MAX_QUEUES blank_queue"
  by (simp_all add: blank_iface_def)

lemma owned_count: "ir_queue_count i = FORWARDER_XSK_QUEUE_COUNT \<Longrightarrow> owned i = queue_handles i"
  by (simp add: owned_def FORWARDER_XSK_QUEUE_COUNT_def)

lemma init_sockets_opened:
  assumes "ir_queues i = replicate MAX_QUEUES blank_queue" "ir_queue_count i = 0" "ir_ifindex i = ie_ifindex e" "ie_ifindex e \<noteq> 0"
    and "kn_live k1 = kn_live k + {#(obj, Bpf)#}" "kn_xdp k1 = (kn_xdp k)(ie_ifindex e := None)"
  obtains r i' k' where "init_sockets e obj i k1 = Some (r, i', k')" "opened e k (r, i', k')"
proof -
  obtain r i' k' where s: "init_sockets e obj i k1 = Some (r, i', k')" "r = 0 \<or> r = -1" "kn_bundles k' = kn_bundles k1"
    "ir_ifindex i' = ir_ifindex i" "ir_own i' = ir_own i" "r = 0 \<longrightarrow> ir_queue_count i' = FORWARDER_XSK_QUEUE_COUNT"
    "kn_live k' = (if r = 0 then kn_live k + {#(obj, Bpf)#} + queue_handles i' else kn_live k)"
    "kn_xdp k' = (kn_xdp k1)(ir_ifindex i := (if r = 0 then Some obj else None))"
    by (rule init_sockets_law [OF assms(1,2,5), of e])
  show ?thesis
  proof (rule that [OF s(1)])
    show "opened e k (r, i', k')"
      using s(2) s(4) owned_count [of i'] s(6-8) assms(3,4,6) by (auto simp: opened_def)
  qed
qed

lemma open_bpf_detached:
  obtains obj k1 where "open_bpf_object e (interface_xdp_try_detach n k) = Some (obj, k1)" "kn_xdp k1 = (kn_xdp k)(n := None)"
    "kn_live k1 = (case obj of None \<Rightarrow> kn_live k | Some h \<Rightarrow> kn_live k + {#(h, Bpf)#})"
proof -
  obtain obj k1 where o: "open_bpf_object e (interface_xdp_try_detach n k) = Some (obj, k1)"
    "kn_xdp k1 = kn_xdp (interface_xdp_try_detach n k)" "kn_bundles k1 = kn_bundles (interface_xdp_try_detach n k)"
    "kn_live k1 = (case obj of None \<Rightarrow> kn_live (interface_xdp_try_detach n k)
                   | Some h \<Rightarrow> kn_live (interface_xdp_try_detach n k) + {#(h, Bpf)#})"
    by (rule open_bpf_object_law)
  then show ?thesis by (intro that [OF o(1) o(2,4) [unfolded detach_sel]])
qed

lemma init_local_opened: "\<exists>res. interface_init_local e cfg k = Some res \<and> opened e k res"
proof (cases "ie_ifindex e = 0")
  case True
  then show ?thesis by (auto simp: interface_init_local_def opened_def)
next
  case False
  obtain obj k1 where o: "open_bpf_object e (interface_xdp_try_detach (ie_ifindex e) k) = Some (obj, k1)"
    "kn_xdp k1 = (kn_xdp k)(ie_ifindex e := None)" "kn_live k1 = (case obj of None \<Rightarrow> kn_live k | Some h \<Rightarrow> kn_live k + {#(h, Bpf)#})"
    by (rule open_bpf_detached)
  show ?thesis
  proof (cases obj)
    case None
    with o False show ?thesis by (simp add: interface_init_local_def opened_def)
  next
    case (Some h)
    let ?i = "blank_iface\<lparr> ir_ifindex := ie_ifindex e, ir_ifname := lc_ifname cfg, ir_src_mac := lc_src_mac cfg, ir_dst_mac := lc_dst_mac cfg,
        ir_umem_size := unat (lc_umem_mb cfg) * 1024 * 1024, ir_ring_size := unat (lc_ring_size cfg),
        ir_frame_size := unat (lc_frame_size cfg), ir_batch_size := unat (lc_batch_size cfg) \<rparr>"
    obtain r i' k' where "init_sockets e h ?i (init_bundle e k1) = Some (r, i', k')" "opened e k (r, i', k')"
      by (rule init_sockets_opened [of ?i e "init_bundle e k1" k h]) (use False o Some in simp_all)
    then show ?thesis using o(1) Some False by (simp add: interface_init_local_def)
  qed
qed

lemma opened_own: "opened e k (r, i, k') \<Longrightarrow> opened e k (r, i\<lparr> ir_own := x \<rparr>, k')"
  by (auto simp: opened_def owned_def queue_handles_def FORWARDER_XSK_QUEUE_COUNT_def)

lemma init_wan_rx_opened: "\<exists>res. interface_init_wan_rx e cfg k = Some res \<and> opened e k res"
proof (cases "ie_ifindex e = 0")
  case True
  then show ?thesis by (auto simp: interface_init_wan_rx_def opened_def)
next
  case False
  obtain obj k1 where o: "open_bpf_object e (interface_xdp_try_detach (ie_ifindex e) k) = Some (obj, k1)"
    "kn_xdp k1 = (kn_xdp k)(ie_ifindex e := None)" "kn_live k1 = (case obj of None \<Rightarrow> kn_live k | Some h \<Rightarrow> kn_live k + {#(h, Bpf)#})"
    by (rule open_bpf_detached)
  show ?thesis
  proof (cases obj)
    case None
    with o False show ?thesis by (simp add: interface_init_wan_rx_def opened_def)
  next
    case (Some h)
    let ?i = "blank_iface\<lparr> ir_ifindex := ie_ifindex e, ir_ifname := wc_ifname cfg, ir_src_mac := wc_src_mac cfg, ir_dst_mac := wc_dst_mac cfg,
        ir_umem_size := unat (wc_umem_mb cfg) * 1024 * 1024, ir_ring_size := unat (wc_ring_size cfg),
        ir_frame_size := unat (wc_frame_size cfg), ir_batch_size := unat (wc_batch_size cfg) \<rparr>"
    obtain r i' k' where "init_sockets e h ?i (init_bundle e k1) = Some (r, i', k')" "opened e k (r, i', k')"
      by (rule init_sockets_opened [of ?i e "init_bundle e k1" k h]) (use False o Some in simp_all)
    then show ?thesis using o(1) Some False opened_own [of e k r i' k'] by (cases "r = 0") (simp_all add: interface_init_wan_rx_def Let_def)
  qed
qed

lemma interface_cleanup_law:
  assumes "owned i \<subseteq># kn_live k"
  obtains k' where "interface_cleanup i k = Some (blank_iface, k')" "kn_live k' = kn_live k - owned i" "kn_bundles k' = kn_bundles k"
    "kn_next k' = kn_next k" "kn_xdp k' = (if ir_ifindex i = 0 then kn_xdp k else (kn_xdp k)(ir_ifindex i := None))"
proof -
  define k0 where "k0 = (if ir_ifindex i \<noteq> 0 then interface_xdp_try_detach (ir_ifindex i) k else k)"
  have k0: "kn_live k0 = kn_live k" "kn_bundles k0 = kn_bundles k" "kn_next k0 = kn_next k"
    "kn_xdp k0 = (if ir_ifindex i = 0 then kn_xdp k else (kn_xdp k)(ir_ifindex i := None))"
    by (simp_all add: k0_def interface_xdp_try_detach_def)
  obtain D where D: "kn_live k = owned i + D" using assms by (metis mset_subset_eq_exists_conv)
  let ?rest = "if ir_queue_count i = 0 then handles (ir_own i) else {#}"
  have "release_queues (take (ir_queue_count i) (ir_queues i)) k0 = Some (k0\<lparr> kn_live := ?rest + D \<rparr>)"
    using release_queues_law [of "take (ir_queue_count i) (ir_queues i)" k0]
    by (simp add: k0(1) D owned_def queue_handles_def add.assoc)
  then have "interface_cleanup i k = Some (blank_iface, k0\<lparr> kn_live := D \<rparr>)"
    unfolding interface_cleanup_def Let_def k0_def [symmetric] by (simp add: release_queue_law)
  then show ?thesis by (rule that) (simp_all add: k0 D)
qed

section \<open>Properties\<close>

text \<open>Opening a local or a WAN interface takes everything or nothing: it never gives a handle back that it does not
  hold, a failure leaves the handles in use as they were and no XDP program on the interface, and after a success
  \<open>interface_cleanup\<close> returns every handle but the BPF object, which stays in use.\<close>

lemma interface_handles_balanced:
  assumes "init = interface_init_local e lc \<or> init = interface_init_wan_rx e wc"
  shows "\<exists>r i k'. init k = Some (r, i, k') \<and>
    (if r = 0 then \<exists>k'' obj. interface_cleanup i k' = Some (blank_iface, k'') \<and> kn_live k'' = kn_live k + {#(obj, Bpf)#} \<and>
                   (ie_ifindex e \<noteq> 0 \<longrightarrow> kn_xdp k'' (ie_ifindex e) = None)
     else kn_live k' = kn_live k \<and> (ie_ifindex e \<noteq> 0 \<longrightarrow> kn_xdp k' (ie_ifindex e) = None))"
proof -
  obtain r i k' where o: "init k = Some (r, i, k')" "opened e k (r, i, k')"
    using assms init_local_opened [of e lc k] init_wan_rx_opened [of e wc k] by fastforce
  show ?thesis
  proof (cases "r = 0")
    case True
    then obtain obj where h: "kn_live k' = kn_live k + owned i + {#(obj, Bpf)#}" "ir_ifindex i = ie_ifindex e" using o(2) by (auto simp: opened_def)
    have "owned i \<subseteq># kn_live k'" using h(1) by (metis mset_subset_eq_add_right mset_subset_eq_add_left subset_mset.order_trans)
    then obtain k'' where "interface_cleanup i k' = Some (blank_iface, k'')" "kn_live k'' = kn_live k' - owned i"
      "kn_bundles k'' = kn_bundles k'" "kn_next k'' = kn_next k'"
      "kn_xdp k'' = (if ir_ifindex i = 0 then kn_xdp k' else (kn_xdp k')(ir_ifindex i := None))"
      by (rule interface_cleanup_law)
    with o(1) h True show ?thesis by auto
  next
    case False
    with o show ?thesis by (auto simp: opened_def)
  qed
qed

text \<open>The clean-up after a failure.\<close>

definition kernel_ok :: "kernel \<Rightarrow> bool" where
  "kernel_ok k \<longleftrightarrow> (\<forall>(h, r) \<in># kn_live k. h < kn_next k)"

definition reaches_attach :: "init_env \<Rightarrow> bool" where
  "reaches_attach e \<longleftrightarrow> ie_ifindex e \<noteq> 0 \<and> ie_access e \<and> ie_open e \<and> ie_load e \<and> ie_prog e \<and> ie_xsks_map e \<and>
     ie_memalign e 0 \<and> ie_umem e 0 \<and> ie_xsk e 0 \<and> ie_map_update e 0"

lemma init_queue_ok:
  assumes "init_queue e q (i, k) = Some (ok, i', k')" "q < length (ir_queues i)"
  shows "(ok \<longleftrightarrow> ie_memalign e q \<and> ie_umem e q \<and> ie_xsk e q \<and> ie_map_update e q) \<and>
     (ok \<longrightarrow> (\<exists>s. qr_xsk (ir_queues i' ! q) = Some s \<and> kn_next k \<le> s))"
  using assms by (auto simp: init_queue_def acquire_def release_def Let_def set_queue_def split: if_splits)

lemma open_bpf_object_ok:
  "open_bpf_object e k = Some (obj, k') \<Longrightarrow> (obj \<noteq> None \<longleftrightarrow> ie_access e \<and> ie_open e \<and> ie_load e \<and> ie_prog e \<and> ie_xsks_map e) \<and> kn_next k \<le> kn_next k'"
  by (auto simp: open_bpf_object_def acquire_def release_def Let_def split: if_splits)

lemma init_local_failed:
  assumes "interface_init_local e cfg k = Some (-1, i, k')"
  shows "ir_own i = blank_queue \<and> (if reaches_attach e then ir_queue_count i = 1 \<and> (\<exists>s xs x. ir_queues i = x # xs \<and> qr_xsk x = Some s \<and> kn_next k \<le> s)
     else ir_queue_count i = 0)"
proof -
  let ?i = "blank_iface\<lparr> ir_ifindex := ie_ifindex e, ir_ifname := lc_ifname cfg, ir_src_mac := lc_src_mac cfg, ir_dst_mac := lc_dst_mac cfg \<rparr>"
  let ?k = "interface_xdp_try_detach (ie_ifindex e) k"
  obtain obj k1 where o: "open_bpf_object e ?k = Some (obj, k1)" using open_bpf_object_law [of e ?k] by metis
  note ok = open_bpf_object_ok [OF o]
  have own: "ir_own blank_iface = blank_queue" by (simp add: blank_iface_def)
  show ?thesis
  proof (cases "ie_ifindex e = 0 \<or> obj = None")
    case True
    then have "i = ?i" using assms o by (auto simp: interface_init_local_def Let_def split: if_splits)
    moreover have "\<not> reaches_attach e" using True ok by (auto simp: reaches_attach_def)
    ultimately show ?thesis using own by simp
  next
    case False
    then obtain h where h: "obj = Some h" by auto
    define j where "j = ?i\<lparr> ir_umem_size := unat (lc_umem_mb cfg) * 1024 * 1024, ir_ring_size := unat (lc_ring_size cfg),
        ir_frame_size := unat (lc_frame_size cfg), ir_batch_size := unat (lc_batch_size cfg) \<rparr>"
    have j: "ir_queue_count j = 0" "ir_queues j = replicate MAX_QUEUES blank_queue" "ir_own j = blank_queue" by (simp_all add: j_def own)
    then have b: "0 < length (ir_queues j)" "ir_queues j ! 0 = blank_queue" by (simp_all add: MAX_QUEUES_def)
    obtain fine i1 k2 where q: "init_queue e 0 (j, init_bundle e k1) = Some (fine, i1, k2)" "same_but_live (init_bundle e k1) k2"
      "ir_queues i1 = (ir_queues j)[0 := ir_queues i1 ! 0]" "ir_own i1 = ir_own j" "ir_ifindex i1 = ir_ifindex j"
      "ir_queue_count i1 = (if fine then ir_queue_count j + 1 else ir_queue_count j)"
      "kn_live k2 = (if fine then kn_live (init_bundle e k1) + handles (ir_queues i1 ! 0) else kn_live (init_bundle e k1))"
      using init_queue_law [OF b] .
    have n: "kn_next k \<le> kn_next (init_bundle e k1)"
      using ok by (auto simp: init_bundle_def interface_xdp_try_detach_def split: prod.split)
    have "init_sockets e h j (init_bundle e k1) = Some (-1, i, k')"
      using assms o h False by (simp add: interface_init_local_def j_def Let_def)
    then have s: "i = i1" "\<not> (fine \<and> ie_attach e)"
      by (auto simp: init_sockets_def FORWARDER_XSK_QUEUE_COUNT_def q(1) split: if_splits bind_splits)
    have "ir_queues i1 \<noteq> []" by (subst q(3)) (use b(1) in simp)
    then obtain x xs where x: "ir_queues i1 = x # xs" by (cases "ir_queues i1") auto
    have r: "reaches_attach e \<longleftrightarrow> fine" using init_queue_ok [OF q(1) b(1)] ok False h by (auto simp: reaches_attach_def)
    show ?thesis
    proof (cases fine)
      case True
      then obtain t where "qr_xsk x = Some t" "kn_next (init_bundle e k1) \<le> t" using init_queue_ok [OF q(1) b(1)] x by auto
      with True r q(4,6) j s(1) n x show ?thesis by auto
    qed (use r q(4,6) j s(1) in simp)
  qed
qed

lemma init_local_result:
  assumes "interface_init_local e cfg k = Some (r, i, k')"
  shows "r = 0 \<longleftrightarrow> reaches_attach e \<and> ie_attach e"
proof -
  have "reaches_attach e \<and> ie_attach e" if "r = 0"
    using assms that
    by (auto simp: interface_init_local_def init_sockets_def reaches_attach_def Let_def FORWARDER_XSK_QUEUE_COUNT_def MAX_QUEUES_def
        dest!: open_bpf_object_ok init_queue_ok split: bind_splits if_splits option.splits)
  moreover have "r = 0" if "reaches_attach e" "ie_attach e"
    using assms that
    by (auto simp: interface_init_local_def init_sockets_def reaches_attach_def Let_def FORWARDER_XSK_QUEUE_COUNT_def MAX_QUEUES_def
        dest!: open_bpf_object_ok init_queue_ok split: bind_splits if_splits option.splits)
  ultimately show ?thesis by blast
qed

lemma init_wan_rx_result:
  assumes "interface_init_wan_rx e cfg k = Some (r, i, k')" "reaches_attach e" "ie_attach e"
  shows "r = 0"
  using assms
  by (auto simp: interface_init_wan_rx_def init_sockets_def reaches_attach_def Let_def FORWARDER_XSK_QUEUE_COUNT_def MAX_QUEUES_def
      dest!: open_bpf_object_ok init_queue_ok split: bind_splits if_splits option.splits)

text \<open>Name and addresses of the interface are those of the configuration.\<close>

definition iface_id :: "iface_res \<Rightarrow> string \<times> u8 list \<times> u8 list" where
  "iface_id i = (ir_ifname i, ir_src_mac i, ir_dst_mac i)"

lemma init_queues_id: "init_queues e qs (i, k) = Some (ok, i', k') \<Longrightarrow> iface_id i' = iface_id i"
proof (induction qs arbitrary: i k)
  case (Cons q qs)
  have "init_queue e q (i, k) = Some (ok1, i1, k1) \<Longrightarrow> iface_id i1 = iface_id i" for ok1 i1 k1
    by (auto simp: init_queue_def acquire_def release_def Let_def set_queue_def iface_id_def split: if_splits)
  with Cons show ?case by (auto split: bind_splits if_splits)
qed simp

lemma init_local_id: "interface_init_local e cfg k = Some (0, i, k') \<Longrightarrow> iface_id i = (lc_ifname cfg, lc_src_mac cfg, lc_dst_mac cfg)"
  by (auto simp: interface_init_local_def init_sockets_def Let_def iface_id_def [of "_ :: iface_res"] dest!: init_queues_id
      split: bind_splits if_splits option.splits)

lemma init_wan_rx_id: "interface_init_wan_rx e cfg k = Some (0, i, k') \<Longrightarrow>
  ir_ifname i = wc_ifname cfg \<and> ir_src_mac i = wc_src_mac cfg \<and> ir_dst_mac i = wc_dst_mac cfg"
  by (auto simp: interface_init_wan_rx_def init_sockets_def Let_def iface_id_def dest!: init_queues_id
      split: bind_splits if_splits option.splits)

text \<open>C17: When opening a local interface fails, the caller's \<open>interface_cleanup\<close> closes again what the error path of
  \<open>interface_init_local\<close> has closed, exactly if the last step, attaching the XDP program, is the one that failed.\<close>

theorem failed_local_cleanup:
  assumes "kernel_ok k" "interface_init_local e cfg k = Some (-1, i, k')"
  shows "interface_cleanup i k' = None \<longleftrightarrow> reaches_attach e"
proof (cases "reaches_attach e")
  case True
  then obtain s x xs where x: "ir_queue_count i = 1" "ir_queues i = x # xs" "qr_xsk x = Some s" "kn_next k \<le> s"
    using init_local_failed [OF assms(2)] by auto
  have "kn_live k' = kn_live k" using init_local_opened [of e cfg k] assms(2) by (auto simp: opened_def)
  then have "(s, Xsk) \<notin># kn_live k'" using assms(1) x(4) by (force simp: kernel_ok_def)
  then show ?thesis using True x by (simp add: interface_cleanup_def release_queue_def release_opt_def release_def)
next
  case False
  then have "owned i = {#}" using init_local_failed [OF assms(2)] by (simp add: owned_def queue_handles_def)
  then show ?thesis using False interface_cleanup_law [of i k'] by (metis empty_le option.distinct(1))
qed

section \<open>Instances\<close>

definition boot_kernel :: kernel where
  "boot_kernel = \<lparr> kn_next = 0, kn_live = {#}, kn_xdp = (\<lambda>_. None), kn_bundles = [] \<rparr>"

text \<open>Every call succeeds, except possibly the attachment of the program.\<close>

definition sample_init :: "bool \<Rightarrow> init_env" where
  "sample_init attach = \<lparr> ie_ifindex = 3, ie_access = True, ie_open = True, ie_load = True, ie_prog = True, ie_xsks_map = True,
     ie_fds = (5, 6, 7, 8), ie_memalign = (\<lambda>_. True), ie_umem = (\<lambda>_. True), ie_xsk = (\<lambda>_. True), ie_map_update = (\<lambda>_. True),
     ie_reserve = (\<lambda>_. 2), ie_attach = attach \<rparr>"

lemma sample_init_fails: "\<exists>i k'. interface_init_local (sample_init False) sample_local boot_kernel = Some (-1, i, k')"
proof -
  obtain r i k' where i: "interface_init_local (sample_init False) sample_local boot_kernel = Some (r, i, k')"
    using init_local_opened by (metis prod_cases3)
  have "r = -1" using i
    by (auto simp: interface_init_local_def init_sockets_def Let_def sample_init_def split: bind_splits option.splits if_splits)
  with i show ?thesis by blast
qed

theorem failed_local_cleanup_witness:
  "\<exists>i k'. interface_init_local (sample_init False) sample_local boot_kernel = Some (-1, i, k') \<and> interface_cleanup i k' = None"
proof -
  obtain i k' where i: "interface_init_local (sample_init False) sample_local boot_kernel = Some (-1, i, k')"
    using sample_init_fails by blast
  have "kernel_ok boot_kernel" by (simp add: kernel_ok_def boot_kernel_def)
  from failed_local_cleanup [OF this i] have "interface_cleanup i k' = None" by (simp add: reaches_attach_def sample_init_def)
  with i show ?thesis by blast
qed

end
