(* ===== verification/CPrint.thy ===== *)
theory CPrint
  imports CFile
begin

text \<open>
  What \<open>src/core/main_diag.c\<close>, \<open>src/core/wan_arp.c\<close> and \<open>src/main.c\<close> use of \<open>snprintf\<close>, \<open>inet_ntop\<close> and \<open>fscanf\<close>: \<open>%d\<close>,
  \<open>%u\<close>, dotted addresses, and the round trips with the scanners of \<open>CText\<close> and \<open>CFile\<close>. A text that is printed is
  a list of characters.
\<close>

section \<open>Printing\<close>

text \<open>\<open>%d\<close>.\<close>

definition show_int :: "int \<Rightarrow> string" where
  "show_int i = (if i < 0 then CHR ''-'' # show_nat (nat (- i)) else show_nat (nat i))"

text \<open>\<open>%u\<close>.\<close>

definition show_u :: "'a::len word \<Rightarrow> string" where
  "show_u w = show_nat (unat w)"

text \<open>\<open>snprintf\<close> into a buffer of \<open>n\<close> bytes.\<close>

definition snprintf :: "nat \<Rightarrow> string \<Rightarrow> string" where
  "snprintf n s = take (n - 1) s"

text \<open>\<open>inet_ntop\<close> for \<open>AF_INET\<close>; the address is the value of \<open>s_addr\<close>.\<close>

definition inet_ntop :: "u32 \<Rightarrow> string" where
  "inet_ntop a =
     (let octet = \<lambda>i. show_u (ucast (drop_bit (8 * i) a) :: u8)
      in octet 0 @ CHR ''.'' # octet 1 @ CHR ''.'' # octet 2 @ CHR ''.'' # octet 3)"

section \<open>Scanning\<close>

text \<open>\<open>fscanf\<close> with \<open>%u\<close> into a \<open>uint32_t\<close>.\<close>

definition scan_u :: "string \<Rightarrow> (u32 \<times> string) option" where
  "scan_u s =
     (let (neg, t) = scan_sign (dropWhile is_space s); ds = takeWhile is_digit t; v = int (digits_val 10 ds)
      in if ds = [] then None
         else Some (if v \<ge> 2 ^ 64 then - 1 else word_of_int (if neg then - v else v), dropWhile is_digit t))"

section \<open>Round trips\<close>

lemma snprintf_fits: "length s < n \<Longrightarrow> snprintf n s = s"
  by (simp add: snprintf_def)

lemma show_nat_less: "show_nat n = (if n < 10 then [digit_char n] else show_nat (n div 10) @ [digit_char (n mod 10)])"
  by (rule show_nat.simps)

text \<open>What the scanners need to know of a printed number.\<close>

lemma show_nat_ne [simp]: "show_nat n \<noteq> []"
  and show_nat_all_digits: "list_all is_digit (show_nat n)"
  and digits_val_show [simp]: "digits_val 10 (show_nat n) = n"
  using show_nat_digits [of n] by simp_all

lemma show_nat_chars: "c \<in> set (show_nat n) \<Longrightarrow> is_digit c"
  using show_nat_all_digits [of n] by (simp add: list_all_iff)

lemma show_nat_hd: "is_digit (hd (show_nat n))"
  by (rule show_nat_chars) (rule hd_in_set, simp)

lemma hd_show_nat_pos: "0 < n \<Longrightarrow> 0 < xdigit_val (hd (show_nat n))"
proof (induction n rule: show_nat.induct)
  case (1 n)
  then show ?case
    using digit_char_facts(2) [of n] by (subst show_nat_less) (auto simp: hd_append)
qed

lemma show_nat_no_leading_zero: "hd (show_nat n) = CHR ''0'' \<Longrightarrow> show_nat n = ''0''"
proof -
  assume z: "hd (show_nat n) = CHR ''0''"
  have "xdigit_val CHR ''0'' = 0" by (simp add: xdigit_val_def code_def)
  then have "n = 0" using hd_show_nat_pos [of n] z by (cases n) auto
  moreover have "char_of (48 :: nat) = CHR ''0''" using char_of_char [of "CHR ''0''"] by simp
  ultimately show ?thesis by (simp add: show_nat_less digit_char_def)
qed

lemma length_show_nat: "n < 10 ^ k \<Longrightarrow> 0 < k \<Longrightarrow> length (show_nat n) \<le> k"
proof (induction k arbitrary: n)
  case (Suc k)
  show ?case
  proof (cases "n < 10")
    case False
    then have "n div 10 < 10 ^ k" "0 < k" using Suc.prems by (cases k; auto)+
    with Suc.IH False show ?thesis by (subst show_nat_less) simp
  qed (subst show_nat_less, simp)
qed simp

text \<open>A digit sequence ends where the text goes on with something else.\<close>

definition no_digit_next :: "string \<Rightarrow> bool" where
  "no_digit_next r \<longleftrightarrow> r = [] \<or> \<not> is_digit (hd r)"

lemma take_digits: "no_digit_next r \<Longrightarrow> takeWhile is_digit (show_nat n @ r) = show_nat n"
  and drop_digits: "no_digit_next r \<Longrightarrow> dropWhile is_digit (show_nat n @ r) = r"
  using show_nat_all_digits [of n] by (cases r; simp add: no_digit_next_def list_all_iff takeWhile_append dropWhile_append)+

lemma skip_to_digits:
  "dropWhile is_space (show_nat n @ r) = show_nat n @ r" "scan_sign (show_nat n @ r) = (False, show_nat n @ r)"
proof -
  obtain c s where c: "show_nat n = c # s" "is_digit c" using show_nat_hd [of n] by (cases "show_nat n") auto
  then show "dropWhile is_space (show_nat n @ r) = show_nat n @ r" "scan_sign (show_nat n @ r) = (False, show_nat n @ r)"
    using not_digit_sign [OF c(2)] by (simp_all add: scan_sign_def)
qed

lemma scan_u_show: "no_digit_next r \<Longrightarrow> scan_u (show_u (w :: u32) @ r) = Some (w, r)"
  using unsigned_less [of w, where ?'a = int]
  by (simp add: scan_u_def show_u_def skip_to_digits take_digits drop_digits Let_def word_of_int_uint
      flip: uint_nat)

lemma scan_long_show: "no_digit_next r \<Longrightarrow> n < 2 ^ 63 \<Longrightarrow> scan_long (show_nat n @ r) = Some (int n, r)"
  by (simp add: scan_long_def skip_to_digits take_digits drop_digits Let_def)

lemma octet_show: "octet (show_u b) = Some b"
  using unsigned_less [of b, where ?'a = nat] show_nat_no_leading_zero [of "unat b"] show_nat_all_digits [of "unat b"]
  by (auto simp: octet_def show_u_def)

lemma split_on_part: "c \<notin> set p \<Longrightarrow> split_on c (p @ c # s) = p # split_on c s"
  by (induction p) auto

lemma split_on_last: "c \<notin> set p \<Longrightarrow> split_on c p = [p]"
  by (induction p) auto

lemma show_u_no_dot: "CHR ''.'' \<notin> set (show_u w)"
  using show_nat_chars [of "CHR ''.''" "unat w"] by (auto simp: show_u_def is_digit_def code_def)

lemma le32_of_octets:
  "le32_of (ucast a) (ucast (drop_bit 8 a)) (ucast (drop_bit 16 a)) (ucast (drop_bit 24 a)) = (a :: u32)"
proof (rule bit_word_eqI)
  fix n assume "n < LENGTH(32)"
  then have "n < 32" by simp
  then show "bit (le32_of (ucast a) (ucast (drop_bit 8 a)) (ucast (drop_bit 16 a)) (ucast (drop_bit 24 a))) n \<longleftrightarrow> bit a n"
    by (cases rule: byte_cases) (simp_all add: le32_of_def bit_simps add.commute)
qed

lemma inet_pton_ntop: "inet_pton (inet_ntop a) = Some a"
  by (simp add: inet_ntop_def inet_pton_def split_on_part split_on_last show_u_no_dot octet_show le32_of_octets)

lemma length_inet_ntop: "length (inet_ntop a) \<le> 15"
proof -
  have "length (show_u b) \<le> 3" for b :: u8
    using length_show_nat [of "unat b" 3] unsigned_less [of b, where ?'a = nat] by (simp add: show_u_def)
  from this [of "ucast a"] this [of "ucast (drop_bit 8 a)"] this [of "ucast (drop_bit 16 a)"] this [of "ucast (drop_bit 24 a)"]
  show ?thesis by (simp add: inet_ntop_def)
qed

lemma inet_ntop_chars: "c \<in> set (inet_ntop a) \<Longrightarrow> is_digit c \<or> c = CHR ''.''"
  using show_nat_chars by (auto simp: inet_ntop_def show_u_def)

end
