(* ===== verification/ArpFile.thy ===== *)
theory ArpFile
  imports CPrint ArpCache
begin

text \<open>
  The persisted ARP cache and the listener of \<open>src/core/wan_arp.c\<close>: the text that \<open>arp_cache_save\<close> prints and
  \<open>arp_cache_load\<close> scans, the loop of \<open>arp_listener_thread\<close> with its saves, and the requests for the peers at the start. A file
  is its text, \<open>None\<close> when it does not exist; \<open>fopen\<close> and \<open>time\<close> answer as their parameters say.
\<close>

section \<open>The file\<close>

definition ARP_PERSIST_DIR :: string where "ARP_PERSIST_DIR = ''/var/lib/network-encryptor''"

definition arp_cache_persist_path :: "string \<Rightarrow> nat \<Rightarrow> string" where
  "arp_cache_persist_path ifname out_sz = snprintf out_sz (ARP_PERSIST_DIR @ ''/arp_'' @ ifname @ ''.txt'')"

text \<open>One line of the file, without the newline: \<open>%u %02x:%02x:%02x:%02x:%02x:%02x\<close>.\<close>

definition arp_line :: "u32 \<times> u8 list \<Rightarrow> string" where
  "arp_line e = show_u (fst e) @ CHR '' '' # show_mac (snd e)"

definition arp_file_text :: "(u32 \<times> u8 list) list \<Rightarrow> string" where
  "arp_file_text es = concat (map (\<lambda>e. arp_line e @ [newline]) es)"

text \<open>\<open>writable\<close>: the file could be opened.\<close>

definition arp_save_file :: "bool \<Rightarrow> arp_cache \<Rightarrow> string option \<Rightarrow> arp_cache \<times> string option" where
  "arp_save_file writable c fl =
     (if \<not> arp_dirty c then (c, fl)
      else if \<not> writable then (c, fl)
      else let (es, c) = arp_cache_save c in (c, Some (arp_file_text es)))"

text \<open>\<open>%x:%x:...\<close> with \<open>n\<close> fields and what follows them.\<close>

fun scan_hex_fields :: "nat \<Rightarrow> string \<Rightarrow> (u8 list \<times> string) option" where
  "scan_hex_fields 0 s = Some ([], s)"
| "scan_hex_fields (Suc n) s = do {
     (v, r) \<leftarrow> scan_x None s;
     if n = 0 then Some ([word_of_int v], r)
     else do { r \<leftarrow> expect CHR '':'' r; (bs, r) \<leftarrow> scan_hex_fields n r; Some (word_of_int v # bs, r) } }"

text \<open>One call of \<open>fscanf\<close>; \<open>None\<close> when it does not assign all seven.\<close>

definition scan_arp_line :: "string \<Rightarrow> ((u32 \<times> u8 list) \<times> string) option" where
  "scan_arp_line s = do {
     (ip_host, r) \<leftarrow> scan_u s;
     (mac, r) \<leftarrow> scan_hex_fields 6 (dropWhile is_space r);
     Some ((ip_host, mac), dropWhile is_space r) }"

lemma scan_sign_length: "length (snd (scan_sign s)) \<le> length s"
  by (simp add: scan_sign_def split: list.split)

lemma scan_u_shorter: "scan_u s = Some (v, r) \<Longrightarrow> length r < length s"
proof -
  assume a: "scan_u s = Some (v, r)"
  define t where "t = snd (scan_sign (dropWhile is_space s))"
  have t: "takeWhile is_digit t \<noteq> []" "r = dropWhile is_digit t"
    using a by (auto simp: scan_u_def t_def Let_def split: if_splits prod.splits)
  have "length (takeWhile is_digit t) + length (dropWhile is_digit t) = length t"
    by (simp flip: length_append)
  moreover have "0 < length (takeWhile is_digit t)" unfolding length_greater_0_conv by (rule t(1))
  moreover have "length t \<le> length s"
    using scan_sign_length [of "dropWhile is_space s"] length_dropWhile_le [of is_space s] by (simp add: t_def)
  ultimately show ?thesis unfolding t(2) by linarith
qed

lemma scan_x_length: "scan_x None s = Some (v, r) \<Longrightarrow> length r \<le> length s"
  using length_dropWhile_le [of is_space s] by (auto simp: scan_x_def Let_def split: if_splits prod.splits)

lemma scan_hex_fields_length: "scan_hex_fields n s = Some (bs, r) \<Longrightarrow> length r \<le> length s"
proof (induction n arbitrary: s bs)
  case (Suc n)
  then show ?case by (auto simp: expect_def split: bind_splits if_splits list.splits dest!: scan_x_length) fastforce
qed simp

lemma scan_arp_line_shorter: "scan_arp_line s = Some (e, r) \<Longrightarrow> length r < length s"
proof -
  assume "scan_arp_line s = Some (e, r)"
  then obtain ip r1 mac r2 where l: "scan_u s = Some (ip, r1)" "scan_hex_fields 6 (dropWhile is_space r1) = Some (mac, r2)"
    "r = dropWhile is_space r2" by (auto simp: scan_arp_line_def split: bind_splits)
  show ?thesis
    using scan_u_shorter [OF l(1)] scan_hex_fields_length [OF l(2)] length_dropWhile_le [of is_space r1]
      length_dropWhile_le [of is_space r2] unfolding l(3) by linarith
qed

function scan_arp_file :: "string \<Rightarrow> (u32 \<times> u8 list) list" where
  "scan_arp_file s = (case scan_arp_line s of None \<Rightarrow> [] | Some (e, r) \<Rightarrow> e # scan_arp_file r)"
  by auto
termination
  by (relation "measure length") (auto dest: scan_arp_line_shorter)

declare scan_arp_file.simps [simp del]

definition arp_load_file :: "u32 \<Rightarrow> arp_cache \<Rightarrow> string option \<Rightarrow> arp_cache" where
  "arp_load_file now c fl = (case fl of None \<Rightarrow> c | Some txt \<Rightarrow> arp_cache_load now c (scan_arp_file txt))"

section \<open>The listener\<close>

text \<open>The address that a received frame teaches; shorter results of \<open>recv\<close>, errors among them, teach nothing.\<close>

definition arp_frame_learned :: "buf \<Rightarrow> (u32 \<times> u8 list) option" where
  "arp_frame_learned frame =
     (if length frame < 14 + 28 then None
      else if be16_of (frame ! 12) (frame ! 13) \<noteq> 0x0806 then None
      else if be16_of (frame ! 20) (frame ! 21) \<noteq> 2 then None
      else let mac = take 6 (drop 22 frame)
           in if \<not> mac_is_nonzero6 mac then None
              else Some (le32_of (frame ! 28) (frame ! 29) (frame ! 30) (frame ! 31), mac))"

text \<open>One round of the loop: the frame, \<open>time(NULL)\<close> at the insertion and at the test for a save.\<close>

record arp_event =
  aev_frame :: buf
  aev_now :: u32
  aev_save_now :: u32
  aev_writable :: bool

definition arp_listener_round :: "arp_event \<Rightarrow> arp_cache \<times> u32 \<times> string option \<Rightarrow> arp_cache \<times> u32 \<times> string option" where
  "arp_listener_round e s =
     (let (c, last_save, fl) = s in
      case arp_frame_learned (aev_frame e) of
        None \<Rightarrow> s
      | Some (spa, mac) \<Rightarrow>
          let c = arp_cache_insert (aev_now e) c spa mac in
          if aev_save_now e - last_save \<ge> 2 then
            let (c, fl) = arp_save_file (aev_writable e) c fl in (c, aev_save_now e, fl)
          else (c, last_save, fl))"

text \<open>The frames \<open>es\<close> received until the flag is seen down, and the last save.\<close>

definition arp_listener_thread :: "u32 \<Rightarrow> arp_event list \<Rightarrow> bool \<Rightarrow> arp_cache \<times> string option \<Rightarrow> arp_cache \<times> string option" where
  "arp_listener_thread start es writable s =
     (let (c, _, fl) = fold arp_listener_round es (fst s, start, snd s) in arp_save_file writable c fl)"

lemma arp_listener_frame_learned:
  "arp_listener_frame now c frame = (case arp_frame_learned frame of None \<Rightarrow> c | Some (spa, mac) \<Rightarrow> arp_cache_insert now c spa mac)"
  by (simp add: arp_listener_frame_def arp_frame_learned_def Let_def)

section \<open>Asking for the peers\<close>

definition ip_octets :: "u32 \<Rightarrow> u8 list" where
  "ip_octets a = map (\<lambda>i. ucast (drop_bit (8 * i) a)) [0, 1, 2, 3]"

definition arp_send_request :: "arp_cache \<Rightarrow> u32 \<Rightarrow> buf list" where
  "arp_send_request c target_ip =
     (case arp_request_frame c (ip_octets (arp_if_ip c)) (ip_octets target_ip) of None \<Rightarrow> [] | Some f \<Rightarrow> [f])"

text \<open>The tries: whether the forwarder is to stop, and the frames that the listener receives while the loop sleeps. The first
  component of the result is what was sent.\<close>

fun arp_tries :: "u32 \<Rightarrow> u32 \<Rightarrow> (bool \<times> buf list) list \<Rightarrow> arp_cache \<Rightarrow> buf list \<times> arp_cache" where
  "arp_tries now peer_ip [] c = ([], c)"
| "arp_tries now peer_ip ((stop, frames) # ts) c =
     (if stop then ([], c)
      else if arp_cache_lookup c peer_ip \<noteq> None then ([], c)
      else let (sent, d) = arp_tries now peer_ip ts (foldl (arp_listener_frame now) c frames)
           in (arp_send_request c peer_ip @ sent, d))"

definition log_peer_arp_resolved :: "u32 \<Rightarrow> (nat \<Rightarrow> bool \<times> buf list) \<Rightarrow> arp_cache \<Rightarrow> u32 \<Rightarrow> buf list \<times> arp_cache" where
  "log_peer_arp_resolved now world c peer_ip = arp_tries now peer_ip (map world [0..<10]) c"

definition local_log_peer_mac :: "u32 \<Rightarrow> (nat \<Rightarrow> bool \<times> buf list) \<Rightarrow> arp_cache \<Rightarrow> u32 \<Rightarrow> buf list \<times> arp_cache" where
  "local_log_peer_mac now world local_cache peer_ip =
     (if peer_ip = 0 then ([], local_cache) else log_peer_arp_resolved now world local_cache peer_ip)"

definition wan_log_peer_mac :: "u32 \<Rightarrow> (nat \<Rightarrow> bool \<times> buf list) \<Rightarrow> arp_cache \<Rightarrow> wan_config \<Rightarrow> buf list \<times> arp_cache" where
  "wan_log_peer_mac now world wan_cache cfg =
     (if wc_dst_ip cfg = 0 then ([], wan_cache) else log_peer_arp_resolved now world wan_cache (wc_dst_ip cfg))"

section \<open>What is printed is what is scanned\<close>

lemma scan_hex_fields_Suc:
  "scan_x None s = Some (v, CHR '':'' # t) \<Longrightarrow> scan_hex_fields (Suc n) t = Some (bs, r) \<Longrightarrow>
   scan_hex_fields (Suc (Suc n)) s = Some (word_of_int v # bs, r)"
  by (subst scan_hex_fields.simps) (simp add: expect_def del: scan_hex_fields.simps)

lemma scan_hex_fields_show:
  assumes "ms \<noteq> []" "r = [] \<or> \<not> is_xdigit (hd r) \<and> hd r \<noteq> CHR ''x'' \<and> hd r \<noteq> CHR ''X''"
  shows "scan_hex_fields (length ms) (show_mac ms @ r) = Some (ms, r)"
  using assms(1)
proof (induction ms rule: show_mac.induct)
  case (2 b)
  then show ?case using scan_x_hex2 [OF assms(2), of b] by simp
next
  case (3 b c bs)
  define t where "t = show_mac (c # bs) @ r"
  have 1: "scan_x None (show_hex2 b @ CHR '':'' # t) = Some (uint b, CHR '':'' # t)"
    by (rule scan_x_hex2) (simp add: is_xdigit_def is_digit_def code_def)
  have 2: "scan_hex_fields (Suc (length bs)) t = Some (c # bs, r)" using 3 by (simp add: t_def)
  have "show_mac (b # c # bs) @ r = show_hex2 b @ CHR '':'' # t" by (simp add: t_def)
  then show ?case using scan_hex_fields_Suc [OF 1 2] by (simp del: scan_hex_fields.simps show_mac.simps)
qed simp

lemma show_mac_no_space: "ms \<noteq> [] \<Longrightarrow> dropWhile is_space (show_mac ms @ r) = show_mac ms @ r"
proof (induction ms rule: show_mac.induct)
  case (2 b)
  have "unat b div 16 < 16" using unsigned_less [of b, where ?'a = nat] by simp
  then show ?case using hex_char_facts(3) by (simp add: show_hex2_def)
next
  case (3 b c bs)
  have "unat b div 16 < 16" using unsigned_less [of b, where ?'a = nat] by simp
  then show ?case using hex_char_facts(3) by (simp add: show_hex2_def)
qed simp

lemma space_facts: "is_space CHR '' ''" "is_space newline" "\<not> is_digit CHR '' ''" "\<not> is_xdigit newline" "newline \<noteq> CHR ''x''" "newline \<noteq> CHR ''X''"
  by (simp_all add: is_space_def is_digit_def is_xdigit_def code_def newline_def)

lemma scan_arp_line_show:
  assumes "length (snd e) = 6"
  shows "scan_arp_line (arp_line e @ newline # r) = Some (e, dropWhile is_space r)"
proof -
  obtain ip mac where e: "e = (ip, mac)" by (cases e)
  have n: "mac \<noteq> []" using assms e by auto
  have "scan_hex_fields 6 (show_mac mac @ newline # r) = Some (mac, newline # r)"
    using scan_hex_fields_show [OF n, of "newline # r"] assms by (simp add: e space_facts del: scan_hex_fields.simps)
  moreover have "scan_u (show_u ip @ CHR '' '' # show_mac mac @ newline # r) = Some (ip, CHR '' '' # show_mac mac @ newline # r)"
    by (rule scan_u_show) (simp add: no_digit_next_def space_facts)
  ultimately show ?thesis
    using show_mac_no_space [OF n, of "newline # r"]
    by (simp add: scan_arp_line_def arp_line_def e space_facts del: scan_hex_fields.simps)
qed

lemma arp_file_text_no_space: "dropWhile is_space (arp_file_text es) = arp_file_text es"
proof (cases es)
  case (Cons e es)
  then show ?thesis
    using skip_to_digits(1) [of "unat (fst e)" "CHR '' '' # show_mac (snd e) @ newline # arp_file_text es"]
    by (simp add: arp_file_text_def arp_line_def show_u_def)
qed (simp add: arp_file_text_def)

lemma scan_arp_file_text: "\<forall>e \<in> set es. length (snd e) = 6 \<Longrightarrow> scan_arp_file (arp_file_text es) = es"
proof (induction es)
  case Nil
  have "scan_arp_line [] = None" by (simp add: scan_arp_line_def scan_u_def scan_sign_def)
  then show ?case by (simp add: arp_file_text_def scan_arp_file.simps)
next
  case (Cons e es)
  have "arp_file_text (e # es) = arp_line e @ newline # arp_file_text es" by (simp add: arp_file_text_def)
  then show ?case using Cons scan_arp_line_show [of e "arp_file_text es"]
    by (subst scan_arp_file.simps) (simp add: arp_file_text_no_space)
qed

section \<open>A restart\<close>

text \<open>Every entry has a MAC address.\<close>

definition arp_macs_ok :: "arp_cache \<Rightarrow> bool" where
  "arp_macs_ok c = (\<forall>e \<in> set (arp_entries c). length (ae_mac e) = 6)"

lemma arp_macs_empty: "arp_macs_ok (arp_cache_empty m a)"
  by (simp add: arp_macs_ok_def arp_cache_empty_def)

lemma arp_macs_insert: "arp_macs_ok c \<Longrightarrow> length mac = 6 \<Longrightarrow> arp_macs_ok (arp_cache_insert now c ip mac)"
  by (auto simp: arp_macs_ok_def arp_cache_insert_def split: option.split dest!: subsetD [OF set_update_subset_insert])

lemma scan_hex_fields_count: "scan_hex_fields n s = Some (bs, r) \<Longrightarrow> length bs = n"
  by (induction n arbitrary: s bs) (auto split: bind_splits if_splits)

lemma scan_arp_line_mac: "scan_arp_line s = Some (e, r) \<Longrightarrow> length (snd e) = 6"
  by (auto simp: scan_arp_line_def simp del: scan_hex_fields.simps split: bind_splits dest!: scan_hex_fields_count)

lemma scan_arp_file_macs: "e \<in> set (scan_arp_file s) \<Longrightarrow> length (snd e) = 6"
proof (induction s rule: scan_arp_file.induct)
  case (1 s)
  then show ?case
    by (cases "scan_arp_line s") (auto simp: scan_arp_file.simps [of s] dest: scan_arp_line_mac)
qed

text \<open>Two caches with the same addresses in the same slots answer alike.\<close>

definition arp_alike :: "arp_cache \<Rightarrow> arp_cache \<Rightarrow> bool" where
  "arp_alike c d \<longleftrightarrow> map (\<lambda>e. (ae_ip e, ae_mac e)) (arp_entries c) = map (\<lambda>e. (ae_ip e, ae_mac e)) (arp_entries d)"

lemma arp_alike_parts:
  assumes "arp_alike c d"
  shows "map ae_ip (arp_entries c) = map ae_ip (arp_entries d)" "map ae_mac (arp_entries c) = map ae_mac (arp_entries d)"
    "length (arp_entries c) = length (arp_entries d)"
  using arg_cong [OF assms [unfolded arp_alike_def], of "map fst"] arg_cong [OF assms [unfolded arp_alike_def], of "map snd"]
    arg_cong [OF assms [unfolded arp_alike_def], of length] by (simp_all add: comp_def)

lemma arp_alike_insert: "arp_alike c d \<Longrightarrow> arp_alike (arp_cache_insert t c ip mac) (arp_cache_insert t' d ip mac)"
  using arp_alike_parts(1) [of c d]
  by (auto simp: arp_cache_insert_def arp_alike_def map_update split: option.split)

lemma arp_alike_load: "arp_alike c d \<Longrightarrow> arp_alike (arp_cache_load t c es) (arp_cache_load t' d es)"
proof -
  assume "arp_alike c d"
  then have "arp_alike (foldl (\<lambda>c l. arp_cache_insert t c (htonl (fst l)) (snd l)) c es)
      (foldl (\<lambda>c l. arp_cache_insert t' c (htonl (fst l)) (snd l)) d es)"
    by (induction es arbitrary: c d) (simp_all add: arp_alike_insert)
  then show ?thesis by (simp add: arp_cache_load_def arp_alike_def)
qed

lemma arp_alike_load_file: "arp_alike (arp_load_file t (arp_cache_empty m a) fl) (arp_load_file t' (arp_cache_empty m' a') fl)"
proof -
  have "arp_alike (arp_cache_empty m a) (arp_cache_empty m' a')" by (simp add: arp_alike_def arp_cache_empty_def)
  then show ?thesis using arp_alike_load by (simp add: arp_load_file_def split: option.split)
qed

lemma arp_alike_lookup:
  assumes "arp_alike c d" "length (arp_entries c) = ARP_CACHE_SIZE"
  shows "arp_cache_lookup c ip = arp_cache_lookup d ip"
proof -
  note p = arp_alike_parts [OF assms(1)]
  have "ae_ip (arp_entries c ! j) = ae_ip (arp_entries d ! j) \<and> ae_mac (arp_entries c ! j) = ae_mac (arp_entries d ! j)"
    if "j < ARP_CACHE_SIZE" for j
    using that p assms(2) by (metis nth_map)
  then show ?thesis
    using arp_slot_bound [of "map ae_ip (arp_entries d)" ip] by (auto simp: arp_cache_lookup_def p(1) split: option.split)
qed

text \<open>A file agrees with a cache when loading it answers every question alike; a cache that is not dirty has such a file.\<close>

definition arp_agrees :: "string option \<Rightarrow> arp_cache \<Rightarrow> bool" where
  "arp_agrees fl c \<longleftrightarrow> (\<forall>t m a ip. arp_cache_lookup (arp_load_file t (arp_cache_empty m a) fl) ip = arp_cache_lookup c ip)"

definition arp_persisted :: "arp_cache \<Rightarrow> string option \<Rightarrow> bool" where
  "arp_persisted c fl \<longleftrightarrow> arp_cache_ok c \<and> arp_macs_ok c \<and> (\<not> arp_dirty c \<longrightarrow> arp_agrees fl c)"

lemma arp_clean_parts [simp]:
  "arp_cache_ok (c\<lparr> arp_dirty := b \<rparr>) = arp_cache_ok c" "arp_macs_ok (c\<lparr> arp_dirty := b \<rparr>) = arp_macs_ok c"
  "arp_cache_lookup (c\<lparr> arp_dirty := b \<rparr>) ip = arp_cache_lookup c ip"
  by (simp_all add: arp_cache_ok_def arp_macs_ok_def arp_cache_lookup_def cong: option.case_cong if_cong)

lemma arp_load_ok:
  assumes "arp_cache_ok c" "arp_macs_ok c" "\<forall>e \<in> set es. length (snd e) = 6"
  shows "arp_cache_ok (arp_cache_load t c es)" "arp_macs_ok (arp_cache_load t c es)"
proof -
  have "arp_cache_ok (foldl (\<lambda>c l. arp_cache_insert t c (htonl (fst l)) (snd l)) c es) \<and>
      arp_macs_ok (foldl (\<lambda>c l. arp_cache_insert t c (htonl (fst l)) (snd l)) c es)"
    using assms by (induction es arbitrary: c) (simp_all add: arp_insert_ok arp_macs_insert)
  then show "arp_cache_ok (arp_cache_load t c es)" "arp_macs_ok (arp_cache_load t c es)" by (simp_all add: arp_cache_load_def)
qed

lemma arp_load_file_ok: "arp_cache_ok (arp_load_file t (arp_cache_empty m a) fl)" "arp_macs_ok (arp_load_file t (arp_cache_empty m a) fl)"
  using arp_load_ok [OF arp_empty_ok arp_macs_empty] scan_arp_file_macs
  by (simp_all add: arp_load_file_def arp_empty_ok arp_macs_empty split: option.split)

lemma arp_persisted_load: "arp_persisted (arp_load_file t (arp_cache_empty m a) fl) fl"
proof -
  have "arp_cache_lookup (arp_load_file t' (arp_cache_empty m' a') fl) ip = arp_cache_lookup (arp_load_file t (arp_cache_empty m a) fl) ip" for t' m' a' ip
    by (rule arp_alike_lookup [OF arp_alike_load_file arp_ok_length [OF arp_load_file_ok(1)]])
  then show ?thesis by (simp add: arp_persisted_def arp_agrees_def arp_load_file_ok)
qed

lemma arp_saved_text_agrees:
  assumes "arp_cache_ok c" "arp_macs_ok c"
  shows "arp_agrees (Some (arp_file_text (fst (arp_cache_save c)))) c"
proof -
  have "\<forall>e \<in> set (fst (arp_cache_save c)). length (snd e) = 6" using assms(2) by (auto simp: arp_cache_save_def arp_macs_ok_def)
  then show ?thesis using arp_persist_roundtrip [OF assms(1)] by (simp add: arp_agrees_def arp_load_file_def scan_arp_file_text)
qed

lemma arp_save_file_law:
  assumes "arp_persisted c fl" "arp_save_file w c fl = (c', fl')"
  shows "arp_persisted c' fl' \<and> (w \<longrightarrow> \<not> arp_dirty c') \<and> (\<forall>ip. arp_cache_lookup c' ip = arp_cache_lookup c ip)"
proof (cases "arp_dirty c \<and> w")
  case True
  then have "c' = c\<lparr> arp_dirty := False \<rparr>" "fl' = Some (arp_file_text (fst (arp_cache_save c)))"
    using assms(2) by (auto simp: arp_save_file_def arp_cache_save_def)
  then show ?thesis using assms(1) arp_saved_text_agrees [of c] by (simp add: arp_persisted_def arp_agrees_def)
next
  case False
  then have "c' = c \<and> fl' = fl" using assms(2) by (cases "arp_dirty c"; simp add: arp_save_file_def)
  then show ?thesis using assms(1) False by auto
qed

lemma arp_insert_persisted:
  assumes "arp_persisted c fl" "length mac = 6"
  shows "arp_persisted (arp_cache_insert t c ip mac) fl"
proof -
  have "arp_cache_insert t c ip mac = c \<or> arp_dirty (arp_cache_insert t c ip mac)"
    by (simp add: arp_cache_insert_def split: option.split)
  then show ?thesis using assms by (auto simp: arp_persisted_def arp_insert_ok arp_macs_insert)
qed

lemma arp_learned_mac: "arp_frame_learned f = Some (ip, mac) \<Longrightarrow> length mac = 6"
  by (auto simp: arp_frame_learned_def Let_def split: if_splits)

text \<open>The entries after a round are those of \<open>arp_listener_frame\<close>; a save only changes the flag.\<close>

lemma arp_entries_insert: "arp_entries c = arp_entries d \<Longrightarrow> arp_entries (arp_cache_insert t c ip mac) = arp_entries (arp_cache_insert t d ip mac)"
  by (simp add: arp_cache_insert_def split: option.split)

lemma arp_entries_frame: "arp_entries c = arp_entries d \<Longrightarrow> arp_entries (arp_listener_frame t c f) = arp_entries (arp_listener_frame t d f)"
  unfolding arp_listener_frame_learned
  by (cases "arp_frame_learned f") (simp, clarsimp, rule arp_entries_insert)

lemma arp_entries_lookup: "arp_entries c = arp_entries d \<Longrightarrow> arp_cache_lookup c ip = arp_cache_lookup d ip"
  by (simp add: arp_cache_lookup_def split: option.split)

lemma arp_save_entries: "arp_save_file w c fl = (c', fl') \<Longrightarrow> arp_entries c' = arp_entries c"
  by (auto simp: arp_save_file_def arp_cache_save_def split: if_splits)

lemma arp_round_persisted:
  assumes "arp_persisted c fl" "arp_listener_round e (c, ls, fl) = (c', ls', fl')"
  shows "arp_persisted c' fl' \<and> arp_entries c' = arp_entries (arp_listener_frame (aev_now e) c (aev_frame e))"
proof (cases "arp_frame_learned (aev_frame e)")
  case None
  then show ?thesis using assms by (simp add: arp_listener_round_def arp_listener_frame_learned)
next
  case (Some p)
  obtain spa mac where p: "p = (spa, mac)" by (cases p)
  let ?c = "arp_cache_insert (aev_now e) c spa mac"
  have i: "arp_persisted ?c fl" using arp_insert_persisted [OF assms(1)] arp_learned_mac Some p by blast
  show ?thesis
  proof (cases "aev_save_now e - ls \<ge> 2")
    case True
    obtain d fd where "arp_save_file (aev_writable e) ?c fl = (d, fd)" by fastforce
    with arp_save_file_law [OF i this] arp_save_entries [OF this] show ?thesis
      using assms(2) Some p True by (auto simp: arp_listener_round_def arp_listener_frame_learned)
  next
    case False
    then show ?thesis using assms(2) Some p i by (simp add: arp_listener_round_def arp_listener_frame_learned)
  qed
qed

definition arp_frames :: "arp_event list \<Rightarrow> arp_cache \<Rightarrow> arp_cache" where
  "arp_frames es c = fold (\<lambda>e c. arp_listener_frame (aev_now e) c (aev_frame e)) es c"

lemma arp_frames_entries: "arp_entries c = arp_entries d \<Longrightarrow> arp_entries (arp_frames es c) = arp_entries (arp_frames es d)"
proof (induction es arbitrary: c d)
  case (Cons e es)
  from Cons.IH [OF arp_entries_frame [OF Cons.prems, of "aev_now e" "aev_frame e"]] show ?case by (simp add: arp_frames_def)
qed (simp add: arp_frames_def)

lemma arp_rounds_persisted:
  assumes "arp_persisted c fl" "fold arp_listener_round es (c, ls, fl) = (c', ls', fl')"
  shows "arp_persisted c' fl' \<and> arp_entries c' = arp_entries (arp_frames es c)"
  using assms
proof (induction es arbitrary: c ls fl)
  case (Cons e es)
  obtain d l f where d: "arp_listener_round e (c, ls, fl) = (d, l, f)" by (metis prod_cases3)
  note r = arp_round_persisted [OF Cons.prems(1) d]
  have "fold arp_listener_round es (d, l, f) = (c', ls', fl')" using Cons.prems(2) by (simp add: d)
  with Cons.IH r have "arp_persisted c' fl'" "arp_entries c' = arp_entries (arp_frames es d)" by blast+
  with r arp_frames_entries [of d "arp_listener_frame (aev_now e) c (aev_frame e)" es] show ?case by (simp add: arp_frames_def)
qed (simp add: arp_frames_def)

section \<open>Properties\<close>

text \<open>C27: Learned addresses survive a restart. Whatever the file held when the listener was started, whichever frames it
  received, and although saves in between may have failed: when the last save succeeds, a later start that loads the file
  answers every address as a cache that has seen all these frames and was never saved.\<close>

theorem arp_cache_survives_restart:
  assumes "c = arp_load_file t (arp_cache_empty mac ip) fl" "arp_listener_thread start es True (c, fl) = (c', fl')"
  shows "arp_cache_lookup (arp_load_file t' (arp_cache_empty mac' ip') fl') peer = arp_cache_lookup (arp_frames es c) peer"
proof -
  obtain d ls f where d: "fold arp_listener_round es (c, start, fl) = (d, ls, f)" by (metis prod_cases3)
  have p: "arp_persisted d f" "arp_entries d = arp_entries (arp_frames es c)"
    using arp_rounds_persisted [OF _ d] by (simp_all add: assms(1) arp_persisted_load)
  have s: "arp_save_file True d f = (c', fl')" using assms(2) d by (simp add: arp_listener_thread_def)
  have "arp_cache_lookup (arp_load_file t' (arp_cache_empty mac' ip') fl') peer = arp_cache_lookup c' peer"
    using arp_save_file_law [OF p(1) s] by (simp add: arp_persisted_def arp_agrees_def)
  also have "\<dots> = arp_cache_lookup (arp_frames es c) peer"
    by (rule arp_entries_lookup) (simp add: arp_save_entries [OF s] p(2))
  finally show ?thesis .
qed

text \<open>At most ten requests are sent for a peer, all the same, and none when the address is known.\<close>

lemma arp_tries_bounded: "length (fst (arp_tries now ip ts c)) \<le> length ts"
proof (induction ts arbitrary: c)
  case (Cons t ts)
  obtain stop frames where t: "t = (stop, frames)" by (cases t)
  have "length (arp_send_request c ip) \<le> 1" by (simp add: arp_send_request_def split: option.split)
  with Cons [of "foldl (arp_listener_frame now) c frames"] show ?case by (auto simp: t split: prod.split)
qed simp

lemma peer_requests_bounded:
  "length (fst (log_peer_arp_resolved now world c ip)) \<le> 10"
  "arp_cache_lookup c ip \<noteq> None \<Longrightarrow> log_peer_arp_resolved now world c ip = ([], c)"
proof -
  show "length (fst (log_peer_arp_resolved now world c ip)) \<le> 10"
    unfolding log_peer_arp_resolved_def using arp_tries_bounded [of now ip "map world [0..<10]" c] by simp
  have "map world [0..<10] = world 0 # map world [1..<10]" by (simp add: upt_rec)
  then show "arp_cache_lookup c ip \<noteq> None \<Longrightarrow> log_peer_arp_resolved now world c ip = ([], c)"
    by (cases "world 0") (simp add: log_peer_arp_resolved_def)
qed

section \<open>Instance\<close>

definition sample_reply :: buf where
  "sample_reply = replicate 12 0 @ [8, 6] @ [0, 1, 8, 0, 6, 4, 0, 2] @ [2, 0, 0, 0, 0, 7] @ [10, 0, 0, 1] @ replicate 10 0"

definition sample_event :: arp_event where
  "sample_event = \<lparr> aev_frame = sample_reply, aev_now = 5, aev_save_now = 5, aev_writable = False \<rparr>"

text \<open>One reply, a save that fails, and the last save.\<close>

theorem arp_cache_survives_restart_witness:
  "arp_cache_lookup (arp_load_file 9 (arp_cache_empty [2, 0, 0, 0, 0, 9] 7)
      (snd (arp_listener_thread 0 [sample_event] True (arp_cache_empty [2, 0, 0, 0, 0, 9] 7, None)))) 0x0100000A = Some [2, 0, 0, 0, 0, 7]"
proof -
  let ?c = "arp_cache_empty [2, 0, 0, 0, 0, 9] 7"
  obtain c' fl' where t: "arp_listener_thread 0 [sample_event] True (?c, None) = (c', fl')" by fastforce
  have "?c = arp_load_file 0 (arp_cache_empty [2, 0, 0, 0, 0, 9] 7) None" by (simp add: arp_load_file_def)
  from arp_cache_survives_restart [OF this t, of 9 "[2, 0, 0, 0, 0, 9]" 7 "0x0100000A"]
  have "arp_cache_lookup (arp_load_file 9 ?c fl') 0x0100000A = arp_cache_lookup (arp_frames [sample_event] ?c) 0x0100000A" .
  moreover have "arp_frame_learned sample_reply = Some (0x0100000A, [2, 0, 0, 0, 0, 7])"
    by (simp add: arp_frame_learned_def sample_reply_def nth_append be16_of_def le32_of_def mac_is_nonzero6_def)
  ultimately show ?thesis
    using t arp_insert_same [OF arp_empty_ok arp_empty_room] by (simp add: arp_frames_def sample_event_def arp_listener_frame_learned)
qed

end
