(* ===== verification/Startup.thy ===== *)
theory Startup
  imports SocketLife PeerMac ArpFile
begin

text \<open>
  Starting and stopping the forwarder: the second half of \<open>forwarder_init\<close> (bridge addresses, sockets of the local and
  WAN interfaces, ARP caches and their error labels), \<open>forwarder_cleanup\<close>, and the threads that \<open>forwarder_run\<close>
  creates, all in \<open>src/core/forwarder.c\<close>, with \<open>arp_init_for_local\<close> of \<open>src/core/wan_arp.c\<close> and
  \<open>local_config_fill_ipv4_from_iface\<close> of \<open>src/db/config.c\<close>. The answers of the kernel and the stop flag at each
  point where it is read are parameters.
\<close>

section \<open>ARP caches\<close>

text \<open>Address of the interface, success of \<open>socket\<close> and \<open>bind\<close>, the text of the saved file and the time.\<close>

record arp_env =
  ar_mac_ip :: "(u8 list \<times> u32) option"
  ar_socket :: bool
  ar_bind :: bool
  ar_file :: "string option"
  ar_now :: u32

definition arp_init_for_local :: "arp_env \<Rightarrow> kernel \<Rightarrow> (arp_cache option \<times> kernel) option" where
  "arp_init_for_local e k =
     (case ar_mac_ip e of
        None \<Rightarrow> Some (None, k)
      | Some (mac, ip) \<Rightarrow>
          if \<not> ar_socket e then Some (None, k)
          else let (fd, k) = acquire RawSocket k in
            if \<not> ar_bind e then do { k \<leftarrow> release RawSocket fd k; Some (None, k) }
            else Some (Some (arp_load_file (ar_now e) (arp_cache_empty mac ip) (ar_file e)), k))"

text \<open>\<open>addr\<close> is the answer to \<open>SIOCGIFADDR\<close>, with that to \<open>SIOCGIFNETMASK\<close>.\<close>

definition local_config_fill_ipv4_from_iface :: "(u32 \<times> u32 option) option \<Rightarrow> local_config \<Rightarrow> local_config" where
  "local_config_fill_ipv4_from_iface addr loc =
     (if lc_ifname loc = [] then loc
      else case addr of
        None \<Rightarrow> loc
      | Some (ip, nm) \<Rightarrow>
          let m = (case nm of None \<Rightarrow> 0xFFFFFFFF | Some m \<Rightarrow> m)
          in loc\<lparr> lc_ip := ip, lc_netmask := m, lc_network := ip AND m \<rparr>)"

section \<open>The second half of \<open>forwarder_init\<close>\<close>

text \<open>\<open>se_replies\<close>: the ARP frames that the listener of a local interface gets while the hosts are asked for.\<close>

record start_env =
  se_bridge :: mac_env
  se_local :: "nat \<Rightarrow> init_env"
  se_wan :: "nat \<Rightarrow> init_env"
  se_arp :: "nat \<Rightarrow> arp_env"
  se_wan_arp :: "nat \<Rightarrow> arp_env"
  se_addr :: "nat \<Rightarrow> (u32 \<times> u32 option) option"
  se_replies :: "nat \<Rightarrow> u32 list \<Rightarrow> buf list"
  se_stop_local :: "nat \<Rightarrow> bool"
  se_stop_arp :: "nat \<Rightarrow> bool"
  se_stop_wan :: "nat \<Rightarrow> bool"
  se_stop_wan_arp :: "nat \<Rightarrow> bool"
  se_stop_end :: bool

record startup =
  su_cfg :: app_config
  su_locals :: "iface_res list"
  su_wans :: "iface_res list"
  su_arp :: "arp_cache option list"
  su_wan_arp :: "arp_cache option list"
  su_kernel :: kernel

fun init_locals :: "start_env \<Rightarrow> nat list \<Rightarrow> startup \<Rightarrow> (bool \<times> startup) option" where
  "init_locals e [] s = Some (True, s)"
| "init_locals e (i # is) s =
     (if se_stop_local e i then Some (False, s)
      else do {
        (r, iface, k) \<leftarrow> interface_init_local (se_local e i) (ac_locals (su_cfg s) ! i) (su_kernel s);
        if r \<noteq> 0 then do {
          (_, k) \<leftarrow> interface_cleanup iface k;
          Some (False, s\<lparr> su_kernel := k \<rparr>) }
        else init_locals e is (s\<lparr> su_locals := su_locals s @ [iface], su_kernel := k \<rparr>) })"

text \<open>\<open>bridge_mac_install\<close>.\<close>

definition bridge_mac_install :: "startup \<Rightarrow> startup" where
  "bridge_mac_install s =
     s\<lparr> su_locals := map2 (\<lambda>i l. i\<lparr> ir_src_mac := lc_src_mac l, ir_dst_mac := lc_dst_mac l \<rparr>) (su_locals s)
                      (ac_locals (su_cfg s)) @ drop (length (ac_locals (su_cfg s))) (su_locals s) \<rparr>"

text \<open>The ARP cache of one local interface.\<close>

definition start_local_arp :: "start_env \<Rightarrow> nat \<Rightarrow> startup \<Rightarrow> startup option" where
  "start_local_arp e i s = do {
     (c, k) \<leftarrow> arp_init_for_local (se_arp e i) (su_kernel s);
     let s = s\<lparr> su_kernel := k \<rparr>;
     case c of
       None \<Rightarrow> Some (s\<lparr> su_arp := su_arp s @ [None] \<rparr>)
     | Some c \<Rightarrow>
         let cfg = su_cfg s;
             cfg = cfg\<lparr> ac_locals := (ac_locals cfg)[i := local_config_fill_ipv4_from_iface (se_addr e i) (ac_locals cfg ! i)] \<rparr>;
             c = foldl (arp_listener_frame (ar_now (se_arp e i))) c (se_replies e i (lan_arp_resolve_policy_hosts cfg (int i)));
             cfg = local_sync_primary_peer_mac c cfg (int i);
             cfg = cfg\<lparr> ac_locals := (ac_locals cfg)[i := (ac_locals cfg ! i)\<lparr> lc_src_mac := arp_if_mac c \<rparr>] \<rparr>;
             iface = (su_locals s ! i)\<lparr> ir_src_mac := arp_if_mac c, ir_dst_mac := lc_dst_mac (ac_locals cfg ! i) \<rparr>
         in Some (s\<lparr> su_cfg := cfg, su_locals := (su_locals s)[i := iface], su_arp := su_arp s @ [Some c] \<rparr>) }"

fun start_local_arps :: "start_env \<Rightarrow> nat list \<Rightarrow> startup \<Rightarrow> (bool \<times> startup) option" where
  "start_local_arps e [] s = Some (True, s)"
| "start_local_arps e (i # is) s =
     (if se_stop_arp e i then Some (False, s)
      else if config_wan_bridge_mode (su_cfg s) then start_local_arps e is (s\<lparr> su_arp := su_arp s @ [None] \<rparr>)
      else do { s \<leftarrow> start_local_arp e i s; start_local_arps e is s })"

fun init_wans :: "start_env \<Rightarrow> nat list \<Rightarrow> startup \<Rightarrow> (bool \<times> startup) option" where
  "init_wans e [] s = Some (True, s)"
| "init_wans e (i # is) s =
     (if se_stop_wan e i then Some (False, s)
      else do {
        (r, iface, k) \<leftarrow> interface_init_wan_rx (se_wan e i) (ac_wans (su_cfg s) ! i) (su_kernel s);
        if r \<noteq> 0 then Some (False, s\<lparr> su_kernel := k \<rparr>)
        else
          let iface = (if wc_dst_ip (ac_wans (su_cfg s) ! i) \<noteq> 0
                       then iface\<lparr> ir_dst_mac := replicate 6 0, ir_src_mac := replicate 6 0 \<rparr> else iface)
          in init_wans e is (s\<lparr> su_wans := su_wans s @ [iface], su_kernel := k \<rparr>) })"

definition start_wan_arp :: "start_env \<Rightarrow> nat \<Rightarrow> startup \<Rightarrow> startup option" where
  "start_wan_arp e i s = do {
     (c, k) \<leftarrow> arp_init_for_local (se_wan_arp e i) (su_kernel s);
     let s = s\<lparr> su_kernel := k, su_wan_arp := su_wan_arp s @ [c] \<rparr>;
     case c of
       None \<Rightarrow> Some s
     | Some c \<Rightarrow>
         let w = (ac_wans (su_cfg s) ! i)\<lparr> wc_src_mac := arp_if_mac c \<rparr>;
             iface = (su_wans s ! i)\<lparr> ir_src_mac := arp_if_mac c \<rparr>;
             (w, iface) = (case arp_cache_lookup c (wc_dst_ip w) of
                             None \<Rightarrow> (w, iface)
                           | Some mac \<Rightarrow> (w\<lparr> wc_dst_mac := mac \<rparr>, iface\<lparr> ir_dst_mac := mac \<rparr>))
         in Some (s\<lparr> su_cfg := (su_cfg s)\<lparr> ac_wans := (ac_wans (su_cfg s))[i := w] \<rparr>, su_wans := (su_wans s)[i := iface] \<rparr>) }"

fun start_wan_arps :: "start_env \<Rightarrow> nat list \<Rightarrow> startup \<Rightarrow> (bool \<times> startup) option" where
  "start_wan_arps e [] s = Some (True, s)"
| "start_wan_arps e (i # is) s =
     (if se_stop_wan_arp e i then Some (False, s)
      else if wc_dst_ip (ac_wans (su_cfg s) ! i) = 0 then start_wan_arps e is (s\<lparr> su_wan_arp := su_wan_arp s @ [None] \<rparr>)
      else do { s \<leftarrow> start_wan_arp e i s; start_wan_arps e is s })"

fun cleanup_all :: "iface_res list \<Rightarrow> kernel \<Rightarrow> kernel option" where
  "cleanup_all [] k = Some k"
| "cleanup_all (i # is) k = do { (_, k) \<leftarrow> interface_cleanup i k; cleanup_all is k }"

text \<open>The label \<open>err_wans\<close>; \<open>err_locals\<close> is the same without WAN interfaces.\<close>

definition err_wans :: "startup \<Rightarrow> (int \<times> startup) option" where
  "err_wans s = do {
     k \<leftarrow> cleanup_all (su_wans s) (su_kernel s);
     k \<leftarrow> cleanup_all (su_locals s) k;
     Some (-1, s\<lparr> su_kernel := k \<rparr>) }"

text \<open>From the preparation of the bridge to the end; also the peer file and \<open>g_peer_macs_ready\<close>.\<close>

definition forwarder_init_sockets ::
  "start_env \<Rightarrow> bool \<Rightarrow> string option \<Rightarrow> app_config \<Rightarrow> kernel \<Rightarrow> ((int \<times> startup) \<times> string option \<times> bool) option" where
  "forwarder_init_sockets e ready file cfg k =
     (let bridge = config_wan_bridge_mode cfg \<and> ac_locals cfg \<noteq> [];
          (r, cfg, file, ready) = (if bridge then bridge_mac_prepare_impl (se_bridge e) ready file cfg else (0, cfg, file, ready));
          s = \<lparr> su_cfg = cfg, su_locals = [], su_wans = [], su_arp = [], su_wan_arp = [], su_kernel = k \<rparr>
      in do {
        res \<leftarrow>
          (if r \<noteq> 0 then err_wans s
           else do {
             (ok, s) \<leftarrow> init_locals e [0..<length (ac_locals cfg)] s;
             if \<not> ok then err_wans s
             else do {
               let s = (if bridge then bridge_mac_install s else s);
               (ok, s) \<leftarrow> start_local_arps e [0..<length (su_locals s)] s;
               if \<not> ok then err_wans s
               else do {
                 (ok, s) \<leftarrow> init_wans e [0..<length (ac_wans cfg)] s;
                 if \<not> ok then err_wans s
                 else do {
                   (ok, s) \<leftarrow> start_wan_arps e [0..<length (su_wans s)] s;
                   if \<not> ok \<or> se_stop_end e then err_wans s else Some (0, s) } } } });
        Some (res, file, ready) })"

text \<open>The interfaces in \<open>forwarder_cleanup\<close>.\<close>

definition cleanup_interfaces :: "startup \<Rightarrow> kernel option" where
  "cleanup_interfaces s = do { k \<leftarrow> cleanup_all (su_locals s) (su_kernel s); cleanup_all (su_wans s) k }"

section \<open>No handle is lost\<close>

definition held :: "iface_res list \<Rightarrow> (nat \<times> resource) multiset" where
  "held is = sum_list (map owned is)"

text \<open>BPF objects and raw sockets, which the program never closes once the interface works.\<close>

definition kept_open :: "(nat \<times> resource) multiset \<Rightarrow> bool" where
  "kept_open X \<longleftrightarrow> (\<forall>(h, r) \<in># X. r = Bpf \<or> r = RawSocket)"

definition balanced :: "(nat \<times> resource) multiset \<Rightarrow> startup \<Rightarrow> bool" where
  "balanced L s \<longleftrightarrow> (\<exists>X. kn_live (su_kernel s) = L + held (su_locals s) + held (su_wans s) + X \<and> kept_open X)"

lemma kept_open_add [simp]: "kept_open {#}" "kept_open (add_mset (h, r) X) \<longleftrightarrow> (r = Bpf \<or> r = RawSocket) \<and> kept_open X"
  "kept_open (X + Y) \<longleftrightarrow> kept_open X \<and> kept_open Y"
  by (auto simp: kept_open_def)

lemma held_simps [simp]: "held [] = {#}" "held (i # is) = owned i + held is" "held (is @ js) = held is + held js"
  by (simp_all add: held_def)

lemma owned_macs [simp]: "owned (i\<lparr> ir_src_mac := a \<rparr>) = owned i" "owned (i\<lparr> ir_dst_mac := a \<rparr>) = owned i"
  by (simp_all add: owned_def queue_handles_def)

lemma held_update:
  assumes "owned j = owned (is ! i)"
  shows "held (is[i := j]) = held is"
proof -
  have "(map owned is)[i := owned (is ! i)] = map owned is"
    by (cases "i < length is") (simp_all add: list_update_same_conv list_update_beyond not_less)
  with assms show ?thesis by (simp add: held_def map_update)
qed

lemma cleanup_all_law: "held is \<subseteq># kn_live k \<Longrightarrow> \<exists>k'. cleanup_all is k = Some k' \<and> kn_live k' = kn_live k - held is"
proof (induction "is" arbitrary: k)
  case (Cons i "is")
  then obtain D where D: "kn_live k = owned i + held is + D" by (auto simp: mset_subset_eq_exists_conv)
  then have "owned i \<subseteq># kn_live k" by (simp add: add.assoc)
  then obtain k1 where "interface_cleanup i k = Some (blank_iface, k1)" "kn_live k1 = kn_live k - owned i" "kn_bundles k1 = kn_bundles k"
    "kn_next k1 = kn_next k" "kn_xdp k1 = (if ir_ifindex i = 0 then kn_xdp k else (kn_xdp k)(ir_ifindex i := None))"
    by (rule interface_cleanup_law)
  with Cons.IH [of k1] D show ?case by (auto simp: add.assoc)
qed simp

lemma err_wans_law:
  assumes "balanced L s"
  shows "\<exists>s' X. err_wans s = Some (-1, s') \<and> kn_live (su_kernel s') = L + X \<and> kept_open X"
proof -
  obtain X where X: "kn_live (su_kernel s) = L + held (su_locals s) + held (su_wans s) + X" "kept_open X"
    using assms by (auto simp: balanced_def)
  have w: "held (su_wans s) \<subseteq># kn_live (su_kernel s)" unfolding X(1)
    by (metis mset_subset_eq_add_left mset_subset_eq_add_right subset_mset.order_trans)
  obtain k1 where k1: "cleanup_all (su_wans s) (su_kernel s) = Some k1" "kn_live k1 = kn_live (su_kernel s) - held (su_wans s)"
    using cleanup_all_law [OF w] by blast
  have l: "kn_live k1 = L + held (su_locals s) + X" by (simp add: k1(2) X(1))
  then have "held (su_locals s) \<subseteq># kn_live k1" by (metis mset_subset_eq_add_left mset_subset_eq_add_right subset_mset.order_trans)
  then obtain k2 where "cleanup_all (su_locals s) k1 = Some k2" "kn_live k2 = L + X" using cleanup_all_law l by fastforce
  with k1(1) X(2) show ?thesis by (auto simp: err_wans_def)
qed

lemma cleanup_interfaces_law:
  assumes "balanced L s"
  shows "\<exists>k' X. cleanup_interfaces s = Some k' \<and> kn_live k' = L + X \<and> kept_open X"
proof -
  obtain X where X: "kn_live (su_kernel s) = L + held (su_locals s) + held (su_wans s) + X" "kept_open X"
    using assms by (auto simp: balanced_def)
  have w: "held (su_locals s) \<subseteq># kn_live (su_kernel s)" unfolding X(1)
    by (metis mset_subset_eq_add_left mset_subset_eq_add_right subset_mset.order_trans)
  obtain k1 where k1: "cleanup_all (su_locals s) (su_kernel s) = Some k1" "kn_live k1 = kn_live (su_kernel s) - held (su_locals s)"
    using cleanup_all_law [OF w] by blast
  have l: "kn_live k1 = L + held (su_wans s) + X" by (simp add: k1(2) X(1))
  then have "held (su_wans s) \<subseteq># kn_live k1" by (metis mset_subset_eq_add_left mset_subset_eq_add_right subset_mset.order_trans)
  then obtain k2 where "cleanup_all (su_wans s) k1 = Some k2" "kn_live k2 = L + X" using cleanup_all_law l by fastforce
  with k1(1) X(2) show ?thesis by (auto simp: cleanup_interfaces_def)
qed

text \<open>Attaching the XDP program to a local interface does not fail when everything before it has succeeded.\<close>

definition local_attach_ok :: "start_env \<Rightarrow> bool" where
  "local_attach_ok e \<longleftrightarrow> (\<forall>i. reaches_attach (se_local e i) \<longrightarrow> ie_attach (se_local e i))"

lemma init_locals_law:
  assumes "local_attach_ok e" "balanced L s"
  shows "\<exists>ok s'. init_locals e is s = Some (ok, s') \<and> balanced L s' \<and> su_cfg s' = su_cfg s"
  using assms(2)
proof (induction "is" arbitrary: s)
  case (Cons i "is")
  obtain X where X: "kn_live (su_kernel s) = L + held (su_locals s) + held (su_wans s) + X" "kept_open X"
    using Cons.prems by (auto simp: balanced_def)
  obtain r j k where j: "interface_init_local (se_local e i) (ac_locals (su_cfg s) ! i) (su_kernel s) = Some (r, j, k)"
    "opened (se_local e i) (su_kernel s) (r, j, k)"
    using init_local_opened by (metis prod_cases3)
  show ?case
  proof (cases "se_stop_local e i")
    case False
    show ?thesis
    proof (cases "r = 0")
      case True
      let ?s = "s\<lparr> su_locals := su_locals s @ [j], su_kernel := k \<rparr>"
      obtain obj where "kn_live k = kn_live (su_kernel s) + owned j + {#(obj, Bpf)#}" using j(2) True by (auto simp: opened_def)
      then have "kn_live (su_kernel ?s) = L + held (su_locals ?s) + held (su_wans ?s) + (X + {#(obj, Bpf)#})" by (simp add: X(1))
      moreover have "kept_open (X + {#(obj, Bpf)#})" using X(2) by simp
      ultimately have "balanced L ?s" unfolding balanced_def by blast
      from Cons.IH [OF this] show ?thesis using False True j(1) by simp
    next
      case r: False
      then have "r = -1" "kn_live k = kn_live (su_kernel s)" using j(2) by (auto simp: opened_def)
      moreover have "\<not> reaches_attach (se_local e i)" using assms(1) init_local_result [OF j(1)] r by (auto simp: local_attach_ok_def)
      ultimately have "owned j = {#}" using init_local_failed j(1) by (auto simp: owned_def queue_handles_def)
      then obtain k1 where k1: "interface_cleanup j k = Some (blank_iface, k1)" "kn_live k1 = kn_live k - owned j" "kn_bundles k1 = kn_bundles k"
        "kn_next k1 = kn_next k" "kn_xdp k1 = (if ir_ifindex j = 0 then kn_xdp k else (kn_xdp k)(ir_ifindex j := None))"
        using interface_cleanup_law [of j k] by auto
      have "balanced L (s\<lparr> su_kernel := k1 \<rparr>)"
        using Cons.prems k1(2) \<open>kn_live k = _\<close> \<open>owned j = _\<close> by (simp add: balanced_def)
      then show ?thesis using False r j(1) k1(1) by auto
    qed
  qed (use Cons.prems in auto)
qed auto

lemma arp_init_law:
  "\<exists>c k' X. arp_init_for_local e k = Some (c, k') \<and> kn_live k' = kn_live k + X \<and> kept_open X"
  by (auto simp: arp_init_for_local_def acquire_def release_def Let_def split: option.split prod.split intro: exI [of _ "{#}"] exI [of _ "{#(_, RawSocket)#}"])

lemma start_local_arp_law:
  assumes "balanced L s"
  shows "\<exists>s'. start_local_arp e i s = Some s' \<and> balanced L s'"
proof -
  obtain X where X: "kn_live (su_kernel s) = L + held (su_locals s) + held (su_wans s) + X" "kept_open X"
    using assms by (auto simp: balanced_def)
  obtain c k Y where k: "arp_init_for_local (se_arp e i) (su_kernel s) = Some (c, k)" "kn_live k = kn_live (su_kernel s) + Y" "kept_open Y"
    using arp_init_law by blast
  have "kn_live k = L + held (su_locals s) + held (su_wans s) + (X + Y)" "kept_open (X + Y)" using X k by simp_all
  then have "balanced L s'" if "su_kernel s' = k" "held (su_locals s') = held (su_locals s)" "su_wans s' = su_wans s" for s'
    using that unfolding balanced_def by metis
  then show ?thesis by (auto simp: start_local_arp_def k(1) Let_def held_update split: option.split)
qed

lemma start_local_arps_law: "balanced L s \<Longrightarrow> \<exists>ok s'. start_local_arps e is s = Some (ok, s') \<and> balanced L s'"
proof (induction "is" arbitrary: s)
  case (Cons i "is")
  have "balanced L (s\<lparr> su_arp := su_arp s @ [None] \<rparr>)" using Cons.prems by (simp add: balanced_def)
  from Cons.IH [OF this] show ?case using start_local_arp_law [OF Cons.prems, of e i] Cons by fastforce
qed auto

lemma init_wans_law: "balanced L s \<Longrightarrow> \<exists>ok s'. init_wans e is s = Some (ok, s') \<and> balanced L s'"
proof (induction "is" arbitrary: s)
  case (Cons i "is")
  obtain X where X: "kn_live (su_kernel s) = L + held (su_locals s) + held (su_wans s) + X" "kept_open X"
    using Cons.prems by (auto simp: balanced_def)
  obtain r j k where j: "interface_init_wan_rx (se_wan e i) (ac_wans (su_cfg s) ! i) (su_kernel s) = Some (r, j, k)"
    "opened (se_wan e i) (su_kernel s) (r, j, k)"
    using init_wan_rx_opened by (metis prod_cases3)
  show ?case
  proof (cases "se_stop_wan e i \<or> r \<noteq> 0")
    case True
    have "r \<noteq> 0 \<Longrightarrow> balanced L (s\<lparr> su_kernel := k \<rparr>)" using j(2) Cons.prems by (auto simp: opened_def balanced_def)
    with True show ?thesis using Cons.prems j(1) by auto
  next
    case False
    define j' where "j' = (if wc_dst_ip (ac_wans (su_cfg s) ! i) \<noteq> 0 then j\<lparr> ir_dst_mac := replicate 6 0, ir_src_mac := replicate 6 0 \<rparr> else j)"
    let ?s = "s\<lparr> su_wans := su_wans s @ [j'], su_kernel := k \<rparr>"
    obtain obj where "kn_live k = kn_live (su_kernel s) + owned j + {#(obj, Bpf)#}" using j(2) False by (auto simp: opened_def)
    then have "kn_live (su_kernel ?s) = L + held (su_locals ?s) + held (su_wans ?s) + (X + {#(obj, Bpf)#})" by (simp add: X(1) j'_def)
    moreover have "kept_open (X + {#(obj, Bpf)#})" using X(2) by simp
    ultimately have "balanced L ?s" unfolding balanced_def by blast
    from Cons.IH [OF this] show ?thesis using False j(1) by (simp add: j'_def)
  qed
qed auto

lemma start_wan_arp_law:
  assumes "balanced L s"
  shows "\<exists>s'. start_wan_arp e i s = Some s' \<and> balanced L s'"
proof -
  obtain X where X: "kn_live (su_kernel s) = L + held (su_locals s) + held (su_wans s) + X" "kept_open X"
    using assms by (auto simp: balanced_def)
  obtain c k Y where k: "arp_init_for_local (se_wan_arp e i) (su_kernel s) = Some (c, k)" "kn_live k = kn_live (su_kernel s) + Y" "kept_open Y"
    using arp_init_law by blast
  have "kn_live k = L + held (su_locals s) + held (su_wans s) + (X + Y)" "kept_open (X + Y)" using X k by simp_all
  then have "balanced L s'" if "su_kernel s' = k" "su_locals s' = su_locals s" "held (su_wans s') = held (su_wans s)" for s'
    using that unfolding balanced_def by metis
  then show ?thesis by (auto simp: start_wan_arp_def k(1) Let_def held_update split: option.split)
qed

lemma start_wan_arps_law: "balanced L s \<Longrightarrow> \<exists>ok s'. start_wan_arps e is s = Some (ok, s') \<and> balanced L s'"
proof (induction "is" arbitrary: s)
  case (Cons i "is")
  have "balanced L (s\<lparr> su_wan_arp := su_wan_arp s @ [None] \<rparr>)" using Cons.prems by (simp add: balanced_def)
  from Cons.IH [OF this] show ?case using start_wan_arp_law [OF Cons.prems, of e i] Cons by fastforce
qed auto

lemma held_map2: "held (map2 (\<lambda>i l. i\<lparr> ir_src_mac := f l, ir_dst_mac := g l \<rparr>) is ls) + held (drop (length ls) is) = held is"
proof (induction "is" arbitrary: ls)
  case (Cons i "is")
  then show ?case by (cases ls) (simp_all add: add.assoc)
qed simp

lemma bridge_mac_install_law: "balanced L s \<Longrightarrow> balanced L (bridge_mac_install s)"
  by (simp add: balanced_def bridge_mac_install_def held_map2)

text \<open>The stages of \<open>forwarder_init_sockets\<close>, and what each keeps.\<close>

lemma forwarder_init_stages:
  assumes "P \<lparr> su_cfg = cfg1, su_locals = [], su_wans = [], su_arp = [], su_wan_arp = [], su_kernel = k \<rparr>"
    and "(if config_wan_bridge_mode cfg \<and> ac_locals cfg \<noteq> [] then bridge_mac_prepare_impl (se_bridge e) ready file cfg else (0, cfg, file, ready))
           = (r, cfg1, file1, ready1)"
    and "\<And>is s. P s \<Longrightarrow> \<exists>ok s'. init_locals e is s = Some (ok, s') \<and> P s'"
    and "\<And>s. P s \<Longrightarrow> P (bridge_mac_install s)"
    and "\<And>is s. P s \<Longrightarrow> \<exists>ok s'. start_local_arps e is s = Some (ok, s') \<and> P s'"
    and "\<And>is s. P s \<Longrightarrow> \<exists>ok s'. init_wans e is s = Some (ok, s') \<and> P s'"
    and "\<And>is s. P s \<Longrightarrow> \<exists>ok s'. start_wan_arps e is s = Some (ok, s') \<and> P s'"
    and "\<And>s. P s \<Longrightarrow> \<exists>s'. err_wans s = Some (-1, s') \<and> Q (-1) s'" "\<And>s. P s \<Longrightarrow> Q 0 s"
  shows "\<exists>r s. forwarder_init_sockets e ready file cfg k = Some ((r, s), file1, ready1) \<and> Q r s"
proof -
  let ?bridge = "config_wan_bridge_mode cfg \<and> ac_locals cfg \<noteq> []"
  define s0 where "s0 = \<lparr> su_cfg = cfg1, su_locals = [], su_wans = [], su_arp = [], su_wan_arp = [], su_kernel = k \<rparr>"
  obtain ok1 s1 where s1: "init_locals e [0..<length (ac_locals cfg1)] s0 = Some (ok1, s1)" "P s1"
    using assms(3) [OF assms(1)] unfolding s0_def by blast
  define s2 where "s2 = (if ?bridge then bridge_mac_install s1 else s1)"
  have s2: "P s2" using s1(2) assms(4) by (simp add: s2_def)
  obtain ok3 s3 where s3: "start_local_arps e [0..<length (su_locals s2)] s2 = Some (ok3, s3)" "P s3" using assms(5) [OF s2] by blast
  obtain ok4 s4 where s4: "init_wans e [0..<length (ac_wans cfg1)] s3 = Some (ok4, s4)" "P s4" using assms(6) [OF s3(2)] by blast
  obtain ok5 s5 where s5: "start_wan_arps e [0..<length (su_wans s4)] s4 = Some (ok5, s5)" "P s5" using assms(7) [OF s4(2)] by blast
  define res where "res = (if r \<noteq> 0 then err_wans s0 else if \<not> ok1 then err_wans s1 else if \<not> ok3 then err_wans s3
      else if \<not> ok4 then err_wans s4 else if \<not> ok5 \<or> se_stop_end e then err_wans s5 else Some (0, s5))"
  have "forwarder_init_sockets e ready file cfg k = do { res \<leftarrow> res; Some (res, file1, ready1) }"
    unfolding forwarder_init_sockets_def Let_def assms(2)
    by (simp add: res_def s0_def [symmetric] s1(1) s2_def [symmetric] s3(1) s4(1) s5(1))
  moreover have "\<exists>r s. res = Some (r, s) \<and> Q r s"
    using assms(8) [of s0] assms(8) [OF s1(2)] assms(8) [OF s3(2)] assms(8) [OF s4(2)] assms(8) [OF s5(2)] assms(9) [OF s5(2)] assms(1)
    unfolding res_def s0_def by auto
  ultimately show ?thesis by auto
qed

lemma startup_balanced:
  assumes "local_attach_ok e"
  shows "\<exists>r s file' ready'. forwarder_init_sockets e ready file cfg k = Some ((r, s), file', ready') \<and>
    (if r = 0 then balanced (kn_live k) s else \<exists>X. kn_live (su_kernel s) = kn_live k + X \<and> kept_open X)"
proof -
  obtain r cfg1 file1 ready1 where b: "(if config_wan_bridge_mode cfg \<and> ac_locals cfg \<noteq> []
      then bridge_mac_prepare_impl (se_bridge e) ready file cfg else (0, cfg, file, ready)) = (r, cfg1, file1, ready1)"
    by (metis prod_cases4)
  let ?P = "balanced (kn_live k)"
  have i: "?P \<lparr> su_cfg = cfg1, su_locals = [], su_wans = [], su_arp = [], su_wan_arp = [], su_kernel = k \<rparr>"
    by (simp add: balanced_def exI [of _ "{#}"])
  have l: "?P s \<Longrightarrow> \<exists>ok s'. init_locals e is s = Some (ok, s') \<and> ?P s'" for "is" s using init_locals_law [OF assms] by blast
  have "\<exists>r s. forwarder_init_sockets e ready file cfg k = Some ((r, s), file1, ready1) \<and>
    (if r = 0 then ?P s else \<exists>X. kn_live (su_kernel s) = kn_live k + X \<and> kept_open X)"
    by (rule forwarder_init_stages [where P = ?P, OF i b l bridge_mac_install_law start_local_arps_law init_wans_law start_wan_arps_law])
      (use err_wans_law in fastforce)+
  then show ?thesis by blast
qed

text \<open>C15: When attaching the XDP program to a local interface does not fail, starting the forwarder never gives back a
  handle twice, and every memory area, UMEM and socket it has taken is given back: by the error labels when it fails,
  by \<open>forwarder_cleanup\<close> when it succeeds. BPF objects and raw sockets are not given back: any number of them may stay in use.\<close>

theorem startup_handles_balanced:
  assumes "local_attach_ok e"
  shows "\<exists>r s file' ready' k' X. forwarder_init_sockets e ready file cfg k = Some ((r, s), file', ready') \<and>
    (if r = 0 then cleanup_interfaces s = Some k' else k' = su_kernel s) \<and> kn_live k' = kn_live k + X \<and> kept_open X"
  using startup_balanced [OF assms, of ready "file" cfg k] cleanup_interfaces_law [of "kn_live k"] by (metis (full_types))

section \<open>Interfaces and configuration agree\<close>

definition local_id :: "local_config \<Rightarrow> string \<times> u8 list \<times> u8 list" where
  "local_id l = (lc_ifname l, lc_src_mac l, lc_dst_mac l)"

text \<open>The opened local interfaces are the first ones of the configuration, with its names and addresses; so are the WAN
  interfaces, by name.\<close>

definition in_step :: "startup \<Rightarrow> bool" where
  "in_step s \<longleftrightarrow> length (su_locals s) \<le> length (ac_locals (su_cfg s)) \<and> length (su_wans s) \<le> length (ac_wans (su_cfg s)) \<and>
     (\<forall>i < length (su_locals s). iface_id (su_locals s ! i) = local_id (ac_locals (su_cfg s) ! i)) \<and>
     (\<forall>i < length (su_wans s). ir_ifname (su_wans s ! i) = wc_ifname (ac_wans (su_cfg s) ! i))"

text \<open>The part of the configuration that no step changes.\<close>

definition names :: "app_config \<Rightarrow> string list \<times> string list" where
  "names cfg = (map lc_ifname (ac_locals cfg), map wc_ifname (ac_wans cfg))"

lemma names_length: "names cfg = names cfg' \<Longrightarrow> length (ac_locals cfg) = length (ac_locals cfg') \<and> length (ac_wans cfg) = length (ac_wans cfg')"
  by (auto simp: names_def dest: map_eq_imp_length_eq)

lemma init_locals_step:
  assumes "init_locals e [n..<m] s = Some (True, s')" "in_step s" "length (su_locals s) = n" "n \<le> m" "m \<le> length (ac_locals (su_cfg s))"
  shows "in_step s' \<and> length (su_locals s') = m \<and> su_cfg s' = su_cfg s \<and> su_wans s' = su_wans s \<and> su_wan_arp s' = su_wan_arp s"
  using assms
proof (induction "m - n" arbitrary: n s)
  case (Suc d)
  then have n: "[n..<m] = n # [Suc n..<m]" "n < m" by (auto simp: upt_conv_Cons)
  obtain j k where j: "interface_init_local (se_local e n) (ac_locals (su_cfg s) ! n) (su_kernel s) = Some (0, j, k)"
    "init_locals e [Suc n..<m] (s\<lparr> su_locals := su_locals s @ [j], su_kernel := k \<rparr>) = Some (True, s')"
    using Suc.prems(1) by (auto simp: n split: if_splits bind_splits)
  have "iface_id j = local_id (ac_locals (su_cfg s) ! n)" using init_local_id [OF j(1)] by (simp add: local_id_def)
  then have "in_step (s\<lparr> su_locals := su_locals s @ [j], su_kernel := k \<rparr>)"
    using Suc.prems n(2) by (auto simp: in_step_def nth_append less_Suc_eq)
  from Suc.hyps(1) [OF _ j(2) this] show ?case using Suc.hyps(2) Suc.prems n(2) by simp
qed simp

lemma bridge_install_step: "in_step s \<Longrightarrow> in_step (bridge_mac_install s) \<and> length (su_locals (bridge_mac_install s)) = length (su_locals s) \<and>
    su_cfg (bridge_mac_install s) = su_cfg s \<and> su_wans (bridge_mac_install s) = su_wans s \<and> su_wan_arp (bridge_mac_install s) = su_wan_arp s"
  by (auto simp: in_step_def bridge_mac_install_def iface_id_def local_id_def nth_append)

text \<open>A change of one local interface.\<close>

lemma in_step_update:
  assumes "in_step s" "i < length (su_locals s)" "iface_id j = local_id l"
    and "su_locals s' = (su_locals s)[i := j]" "ac_locals (su_cfg s') = (ac_locals (su_cfg s))[i := l]"
    and "su_wans s' = su_wans s" "ac_wans (su_cfg s') = ac_wans (su_cfg s)"
  shows "in_step s'"
  using assms by (auto simp: in_step_def nth_list_update)

lemma start_local_arp_step:
  assumes "start_local_arp e i s = Some s'" "in_step s" "i < length (su_locals s)"
  shows "in_step s' \<and> names (su_cfg s') = names (su_cfg s) \<and> length (su_locals s') = length (su_locals s) \<and> su_wans s' = su_wans s \<and>
    su_wan_arp s' = su_wan_arp s"
proof -
  obtain c k where c: "arp_init_for_local (se_arp e i) (su_kernel s) = Some (c, k)" using arp_init_law by blast
  show ?thesis
  proof (cases c)
    case None
    then show ?thesis using assms c by (auto simp: start_local_arp_def in_step_def)
  next
    case (Some a)
    have i: "i < length (ac_locals (su_cfg s))" using assms(2,3) by (simp add: in_step_def)
    let ?l = "ac_locals (su_cfg s) ! i"
    define l1 where "l1 = local_config_fill_ipv4_from_iface (se_addr e i) ?l"
    define cfg1 where "cfg1 = (su_cfg s)\<lparr> ac_locals := (ac_locals (su_cfg s))[i := l1] \<rparr>"
    define b where "b = foldl (arp_listener_frame (ar_now (se_arp e i))) a (se_replies e i (lan_arp_resolve_policy_hosts cfg1 (int i)))"
    obtain d where d: "ac_locals (local_sync_primary_peer_mac b cfg1 (int i)) = (ac_locals (su_cfg s))[i := l1\<lparr> lc_dst_mac := d \<rparr>]"
      "ac_wans (local_sync_primary_peer_mac b cfg1 (int i)) = ac_wans (su_cfg s)"
      using i by (simp add: local_sync_primary_peer_mac_def cfg1_def Let_def)
    define l2 where "l2 = l1\<lparr> lc_dst_mac := d, lc_src_mac := arp_if_mac b \<rparr>"
    define j where "j = (su_locals s ! i)\<lparr> ir_src_mac := arp_if_mac b, ir_dst_mac := d \<rparr>"
    have s': "su_locals s' = (su_locals s)[i := j]" "ac_locals (su_cfg s') = (ac_locals (su_cfg s))[i := l2]" "su_wans s' = su_wans s"
      "ac_wans (su_cfg s') = ac_wans (su_cfg s)" "su_wan_arp s' = su_wan_arp s"
      using assms(1) c Some i d
      by (auto simp: start_local_arp_def Let_def b_def [symmetric] cfg1_def [symmetric] l1_def [symmetric] l2_def j_def)
    have n: "lc_ifname l2 = lc_ifname ?l"
      by (simp add: l2_def l1_def local_config_fill_ipv4_from_iface_def Let_def split: option.split prod.split)
    have "iface_id (su_locals s ! i) = local_id ?l" using assms(2,3) by (simp add: in_step_def)
    then have "iface_id j = local_id l2" by (simp add: j_def iface_id_def local_id_def n) (simp add: l2_def)
    moreover have "map lc_ifname ((ac_locals (su_cfg s))[i := l2]) = map lc_ifname (ac_locals (su_cfg s))"
      using i n by (simp add: map_update list_update_same_conv)
    ultimately show ?thesis using in_step_update [OF assms(2,3) _ s'(1,2,3,4)] s' by (simp add: names_def)
  qed
qed

lemma start_local_arps_step:
  assumes "start_local_arps e is s = Some (True, s')" "in_step s" "\<forall>i \<in> set is. i < length (su_locals s)"
  shows "in_step s' \<and> names (su_cfg s') = names (su_cfg s) \<and> length (su_locals s') = length (su_locals s) \<and> su_wans s' = su_wans s \<and>
    su_wan_arp s' = su_wan_arp s"
  using assms
proof (induction "is" arbitrary: s)
  case (Cons i "is")
  have n: "in_step (s\<lparr> su_arp := su_arp s @ [None] \<rparr>)" using Cons.prems(2) by (simp add: in_step_def)
  show ?case
  proof (cases "config_wan_bridge_mode (su_cfg s)")
    case True
    then show ?thesis using Cons.IH [OF _ n] Cons.prems by (auto split: if_splits)
  next
    case False
    then obtain s1 where s1: "start_local_arp e i s = Some s1" "start_local_arps e is s1 = Some (True, s')"
      using Cons.prems(1) by (auto split: if_splits bind_splits)
    with start_local_arp_step [OF s1(1) Cons.prems(2)] Cons.IH [OF s1(2)] Cons.prems(3) show ?thesis by simp
  qed
qed simp

lemma init_wans_step:
  assumes "init_wans e [n..<m] s = Some (True, s')" "in_step s" "length (su_wans s) = n" "n \<le> m" "m \<le> length (ac_wans (su_cfg s))"
  shows "in_step s' \<and> length (su_wans s') = m \<and> su_cfg s' = su_cfg s \<and> su_locals s' = su_locals s"
  using assms
proof (induction "m - n" arbitrary: n s)
  case (Suc d)
  then have n: "[n..<m] = n # [Suc n..<m]" "n < m" by (auto simp: upt_conv_Cons)
  obtain j k where j: "interface_init_wan_rx (se_wan e n) (ac_wans (su_cfg s) ! n) (su_kernel s) = Some (0, j, k)"
    "init_wans e [Suc n..<m] (s\<lparr> su_wans := su_wans s @
       [if wc_dst_ip (ac_wans (su_cfg s) ! n) \<noteq> 0 then j\<lparr> ir_dst_mac := replicate 6 0, ir_src_mac := replicate 6 0 \<rparr> else j],
       su_kernel := k \<rparr>) = Some (True, s')" (is "init_wans e _ ?s = _")
    using Suc.prems(1) by (auto simp: n split: if_splits bind_splits)
  have "in_step ?s"
    using Suc.prems n(2) init_wan_rx_id [OF j(1)] by (auto simp: in_step_def nth_append less_Suc_eq)
  from Suc.hyps(1) [OF _ j(2) this] show ?case using Suc.hyps(2) Suc.prems n(2) by simp
qed simp

lemma start_wan_arp_step:
  assumes "start_wan_arp e i s = Some s'" "in_step s" "i < length (su_wans s)"
  shows "in_step s' \<and> names (su_cfg s') = names (su_cfg s) \<and> length (su_wans s') = length (su_wans s) \<and> su_locals s' = su_locals s"
proof -
  obtain c k where c: "arp_init_for_local (se_wan_arp e i) (su_kernel s) = Some (c, k)" using arp_init_law by blast
  have i: "i < length (ac_wans (su_cfg s))" using assms(2,3) by (simp add: in_step_def)
  show ?thesis
  proof (cases c)
    case None
    then show ?thesis using assms c by (auto simp: start_wan_arp_def in_step_def)
  next
    case (Some a)
    then obtain w j where w: "su_wans s' = (su_wans s)[i := j]" "ac_wans (su_cfg s') = (ac_wans (su_cfg s))[i := w]"
      "su_locals s' = su_locals s" "ac_locals (su_cfg s') = ac_locals (su_cfg s)"
      "ir_ifname j = ir_ifname (su_wans s ! i)" "wc_ifname w = wc_ifname (ac_wans (su_cfg s) ! i)"
      using assms(1) c by (auto simp: start_wan_arp_def Let_def split: option.splits)
    then have "map wc_ifname ((ac_wans (su_cfg s))[i := w]) = map wc_ifname (ac_wans (su_cfg s))"
      using i by (simp add: map_update list_update_same_conv)
    with w assms(2,3) show ?thesis by (auto simp: names_def in_step_def nth_list_update)
  qed
qed

lemma start_wan_arps_step:
  assumes "start_wan_arps e is s = Some (True, s')" "in_step s" "\<forall>i \<in> set is. i < length (su_wans s)"
  shows "in_step s' \<and> names (su_cfg s') = names (su_cfg s) \<and> length (su_wans s') = length (su_wans s) \<and> su_locals s' = su_locals s"
  using assms
proof (induction "is" arbitrary: s)
  case (Cons i "is")
  have n: "in_step (s\<lparr> su_wan_arp := su_wan_arp s @ [None] \<rparr>)" using Cons.prems(2) by (simp add: in_step_def)
  show ?case
  proof (cases "wc_dst_ip (ac_wans (su_cfg s) ! i) = 0")
    case True
    then show ?thesis using Cons.IH [OF _ n] Cons.prems by (auto split: if_splits)
  next
    case False
    then obtain s1 where s1: "start_wan_arp e i s = Some s1" "start_wan_arps e is s1 = Some (True, s')"
      using Cons.prems(1) by (auto split: if_splits bind_splits)
    with start_wan_arp_step [OF s1(1) Cons.prems(2)] Cons.IH [OF s1(2)] Cons.prems(3) show ?thesis by simp
  qed
qed simp

text \<open>The addresses of a WAN interface: on a bridge port those of the configuration; on a routed one zero until the ARP cache
  is there, then the own address of the interface and that of the gateway if the cache knows it, on both sides.\<close>

definition wan_addrs_ok :: "wan_config \<Rightarrow> iface_res \<Rightarrow> arp_cache option \<Rightarrow> bool" where
  "wan_addrs_ok w j c \<longleftrightarrow>
     (if wc_dst_ip w = 0 then ir_src_mac j = wc_src_mac w \<and> ir_dst_mac j = wc_dst_mac w
      else case c of
        None \<Rightarrow> ir_src_mac j = replicate 6 0 \<and> ir_dst_mac j = replicate 6 0
      | Some c \<Rightarrow> ir_src_mac j = arp_if_mac c \<and> wc_src_mac w = arp_if_mac c \<and>
          (case arp_cache_lookup c (wc_dst_ip w) of
             None \<Rightarrow> ir_dst_mac j = replicate 6 0
           | Some mac \<Rightarrow> ir_dst_mac j = mac \<and> wc_dst_mac w = mac))"

lemma init_wans_addrs:
  assumes "init_wans e [n..<m] s = Some (True, s')" "length (su_wans s) = n" "n \<le> m"
    and "\<forall>i < n. wan_addrs_ok (ac_wans (su_cfg s) ! i) (su_wans s ! i) None"
  shows "su_wan_arp s' = su_wan_arp s \<and> (\<forall>i < m. wan_addrs_ok (ac_wans (su_cfg s') ! i) (su_wans s' ! i) None)"
  using assms
proof (induction "m - n" arbitrary: n s)
  case (Suc d)
  then have n: "[n..<m] = n # [Suc n..<m]" "n < m" by (auto simp: upt_conv_Cons)
  obtain j k where j: "interface_init_wan_rx (se_wan e n) (ac_wans (su_cfg s) ! n) (su_kernel s) = Some (0, j, k)"
    "init_wans e [Suc n..<m] (s\<lparr> su_wans := su_wans s @
       [if wc_dst_ip (ac_wans (su_cfg s) ! n) \<noteq> 0 then j\<lparr> ir_dst_mac := replicate 6 0, ir_src_mac := replicate 6 0 \<rparr> else j],
       su_kernel := k \<rparr>) = Some (True, s')" (is "init_wans e _ ?s = _")
    using Suc.prems(1) by (auto simp: n split: if_splits bind_splits)
  have "\<forall>i < Suc n. wan_addrs_ok (ac_wans (su_cfg ?s) ! i) (su_wans ?s ! i) None"
    using Suc.prems(2,4) init_wan_rx_id [OF j(1)] by (auto simp: nth_append less_Suc_eq wan_addrs_ok_def)
  from Suc.hyps(1) [OF _ j(2) _ _ this] show ?case using Suc.hyps(2) Suc.prems n(2) by simp
qed simp

lemma start_wan_arps_addrs:
  assumes "start_wan_arps e [n..<m] s = Some (True, s')" "length (su_wan_arp s) = n" "n \<le> m" "m = length (su_wans s)"
    and "m \<le> length (ac_wans (su_cfg s))"
    and "\<forall>i < m. wan_addrs_ok (ac_wans (su_cfg s) ! i) (su_wans s ! i) (if i < n then su_wan_arp s ! i else None)"
  shows "length (su_wan_arp s') = m \<and> (\<forall>i < m. wan_addrs_ok (ac_wans (su_cfg s') ! i) (su_wans s' ! i) (su_wan_arp s' ! i))"
  using assms
proof (induction "m - n" arbitrary: n s)
  case (Suc d)
  then have n: "[n..<m] = n # [Suc n..<m]" "n < m" by (auto simp: upt_conv_Cons)
  have old: "wan_addrs_ok (ac_wans (su_cfg s) ! n) (su_wans s ! n) None" using Suc.prems(6) n(2) by auto
  show ?case
  proof (cases "wc_dst_ip (ac_wans (su_cfg s) ! n) = 0")
    case True
    let ?s = "s\<lparr> su_wan_arp := su_wan_arp s @ [None] \<rparr>"
    have "start_wan_arps e [Suc n..<m] ?s = Some (True, s')" using Suc.prems(1) True by (simp add: n split: if_splits)
    moreover have "\<forall>i < m. wan_addrs_ok (ac_wans (su_cfg ?s) ! i) (su_wans ?s ! i) (if i < Suc n then su_wan_arp ?s ! i else None)"
      using Suc.prems(2,6) old by (auto simp: nth_append less_Suc_eq)
    ultimately show ?thesis using Suc.hyps(1) [of "Suc n" ?s] Suc.hyps(2) Suc.prems(2,4,5) n(2) by simp
  next
    case False
    then obtain s1 where s1: "start_wan_arp e n s = Some s1" "start_wan_arps e [Suc n..<m] s1 = Some (True, s')"
      using Suc.prems(1) by (auto simp: n split: if_splits bind_splits)
    obtain c k where c: "arp_init_for_local (se_wan_arp e n) (su_kernel s) = Some (c, k)" using arp_init_law by blast
    obtain w j where w: "su_wans s1 = (su_wans s)[n := j]" "ac_wans (su_cfg s1) = (ac_wans (su_cfg s))[n := w]"
      "su_wan_arp s1 = su_wan_arp s @ [c]" "wan_addrs_ok w j c"
    proof (cases c)
      case None
      then show thesis using that [of "su_wans s ! n" "ac_wans (su_cfg s) ! n"] s1(1) c old by (auto simp: start_wan_arp_def)
    next
      case (Some a)
      have z: "ir_dst_mac (su_wans s ! n) = replicate 6 0" using old False by (simp add: wan_addrs_ok_def)
      let ?w = "ac_wans (su_cfg s) ! n" and ?j = "su_wans s ! n"
      show thesis
      proof (cases "arp_cache_lookup a (wc_dst_ip ?w)")
        case None
        then show thesis
          using that [of "?j\<lparr> ir_src_mac := arp_if_mac a \<rparr>" "?w\<lparr> wc_src_mac := arp_if_mac a \<rparr>"] s1(1) c Some z False
          by (auto simp: start_wan_arp_def Let_def wan_addrs_ok_def)
      next
        case (Some mac)
        then show thesis
          using that [of "?j\<lparr> ir_src_mac := arp_if_mac a, ir_dst_mac := mac \<rparr>" "?w\<lparr> wc_src_mac := arp_if_mac a, wc_dst_mac := mac \<rparr>"]
            s1(1) c \<open>c = Some a\<close> False
          by (auto simp: start_wan_arp_def Let_def wan_addrs_ok_def)
      qed
    qed
    have "\<forall>i < m. wan_addrs_ok (ac_wans (su_cfg s1) ! i) (su_wans s1 ! i) (if i < Suc n then su_wan_arp s1 ! i else None)"
      using Suc.prems(2,4-6) w by (auto simp: nth_append less_Suc_eq nth_list_update)
    then show ?thesis using Suc.hyps(1) [OF _ s1(2)] Suc.hyps(2) Suc.prems(2,4,5) n(2) w by simp
  qed
qed simp

lemma mac_set_peer_names: "mac_set_peer cfg li mac = Some cfg' \<Longrightarrow> names cfg' = names cfg"
  by (auto simp: mac_set_peer_def set_dst_mac_def names_def map_update list_update_same_conv split: if_splits)

lemma mac_line_names: "mac_file_line l cfg = Some cfg' \<or> mac_preload_line l cfg = Some cfg' \<Longrightarrow> names cfg' = names cfg"
  by (auto simp: mac_file_line_def mac_preload_line_def mac_try_set_def Let_def dest: mac_set_peer_names split: if_splits option.splits prod.splits)

lemma mac_load_lines_names:
  assumes "\<And>l cfg cfg'. f l cfg = Some cfg' \<Longrightarrow> names cfg' = names cfg"
  shows "names (snd (mac_load_lines f ls (n, cfg))) = names cfg"
proof (induction ls arbitrary: n cfg)
  case (Cons l ls)
  then show ?case by (auto split: option.split dest: assms)
qed simp

lemma mac_load_names: "names (snd (mac_load_from_file file cfg)) = names cfg" "names (snd (mac_load_from_preload_env cmd outp cfg)) = names cfg"
  by (auto simp: mac_load_from_file_def mac_load_from_preload_env_def split: option.split intro: mac_load_lines_names mac_line_names [OF disjI1] mac_line_names [OF disjI2])

lemma learn_missing_names: "learn_missing learn w is (cfg, fl) = (r, cfg', fl') \<Longrightarrow> names cfg' = names cfg"
proof (induction "is" arbitrary: cfg fl)
  case (Cons i "is")
  then show ?case by (auto dest: mac_set_peer_names split: if_splits option.splits)
qed simp

lemma names_hwaddr:
  "names (cfg\<lparr> ac_locals := map (\<lambda>l. case f l of None \<Rightarrow> l | Some m \<Rightarrow> l\<lparr> lc_src_mac := m \<rparr>) (ac_locals cfg) \<rparr>) = names cfg"
  by (auto simp: names_def split: option.split)

lemma bridge_prepare_names:
  assumes "bridge_mac_prepare_impl e ready file cfg = (r, cfg', file', ready')"
  shows "names cfg' = names cfg"
proof (cases "ac_locals cfg = [] \<or> ready")
  case False
  let ?hw = "cfg\<lparr> ac_locals := map (\<lambda>l. case me_hwaddr e (lc_ifname l) of None \<Rightarrow> l | Some m \<Rightarrow> l\<lparr> lc_src_mac := m \<rparr>) (ac_locals cfg) \<rparr>"
  define c1 where "c1 = snd (mac_load_from_file file ?hw)"
  define c2 where "c2 = snd (mac_load_from_preload_env (me_cmd e) (me_output e) c1)"
  have "names c2 = names cfg" by (simp only: c2_def c1_def mac_load_names names_hwaddr)
  moreover have "learn_missing (me_learn e) (me_writable e) [0..<length (ac_locals c2)] (c2, file) = (r, cfg', file')"
    using assms False by (auto simp: bridge_mac_prepare_impl_def c1_def c2_def Let_def split: prod.splits if_splits)
  ultimately show ?thesis using learn_missing_names by metis
qed (use assms in \<open>auto simp: bridge_mac_prepare_impl_def\<close>)

text \<open>C18: When \<open>forwarder_init\<close> succeeds, interface number i of the forwarder is the interface number i of the configuration, on
  both sides, with the same name, and the names are those the configuration came with. Local interfaces have the same addresses as
  in the configuration. A WAN interface on the bridge has those of the configuration; a routed one has its own address and that of its
  gateway from its ARP cache, in the forwarder and in the configuration, where the gateway's is zero in the forwarder if the cache
  does not know it, and both are zero if there is no cache.\<close>

theorem started_in_step:
  assumes "forwarder_init_sockets e ready file cfg k = Some ((0, s), file', ready')"
  shows "names (su_cfg s) = names cfg \<and> map ir_ifname (su_locals s) = map lc_ifname (ac_locals cfg) \<and>
     map ir_ifname (su_wans s) = map wc_ifname (ac_wans cfg) \<and> map iface_id (su_locals s) = map local_id (ac_locals (su_cfg s)) \<and>
     length (su_wan_arp s) = length (ac_wans cfg) \<and>
     (\<forall>i < length (ac_wans cfg). wan_addrs_ok (ac_wans (su_cfg s) ! i) (su_wans s ! i) (su_wan_arp s ! i))"
proof -
  let ?bridge = "config_wan_bridge_mode cfg \<and> ac_locals cfg \<noteq> []"
  obtain r cfg1 file1 ready1 where b: "(if ?bridge then bridge_mac_prepare_impl (se_bridge e) ready file cfg else (0, cfg, file, ready)) = (r, cfg1, file1, ready1)"
    by (metis prod_cases4)
  have n1: "names cfg1 = names cfg" using b bridge_prepare_names by (auto split: if_splits)
  define s0 where "s0 = \<lparr> su_cfg = cfg1, su_locals = [], su_wans = [], su_arp = [], su_wan_arp = [], su_kernel = k \<rparr>"
  have err: "err_wans x \<noteq> Some (0, s)" for x by (auto simp: err_wans_def split: bind_splits)
  obtain s1 s3 s4 where st: "init_locals e [0..<length (ac_locals cfg1)] s0 = Some (True, s1)"
    "start_local_arps e [0..<length (su_locals (if ?bridge then bridge_mac_install s1 else s1))] (if ?bridge then bridge_mac_install s1 else s1) = Some (True, s3)"
    "init_wans e [0..<length (ac_wans cfg1)] s3 = Some (True, s4)"
    "start_wan_arps e [0..<length (su_wans s4)] s4 = Some (True, s)"
    using assms err unfolding forwarder_init_sockets_def Let_def b
    by (simp add: s0_def [symmetric] split: bind_splits if_splits prod.splits)
  have i0: "in_step s0" by (simp add: in_step_def s0_def)
  have i1: "in_step s1 \<and> length (su_locals s1) = length (ac_locals cfg1) \<and> su_cfg s1 = cfg1 \<and> su_wans s1 = [] \<and> su_wan_arp s1 = []"
    using init_locals_step [OF st(1) i0] by (simp add: s0_def)
  define s2 where "s2 = (if ?bridge then bridge_mac_install s1 else s1)"
  have i2: "in_step s2 \<and> length (su_locals s2) = length (ac_locals cfg1) \<and> su_cfg s2 = cfg1 \<and> su_wans s2 = [] \<and> su_wan_arp s2 = []"
    using i1 bridge_install_step [of s1] by (simp add: s2_def)
  have i3: "in_step s3 \<and> names (su_cfg s3) = names cfg1 \<and> length (su_locals s3) = length (ac_locals cfg1) \<and> su_wans s3 = [] \<and> su_wan_arp s3 = []"
    using start_local_arps_step [OF st(2) [folded s2_def]] i2 by simp
  have i4: "in_step s4 \<and> length (su_wans s4) = length (ac_wans cfg1) \<and> names (su_cfg s4) = names cfg1 \<and> length (su_locals s4) = length (ac_locals cfg1)"
    using init_wans_step [OF st(3)] i3 names_length by (metis le0 length_0_conv order_refl)
  have i5: "in_step s \<and> names (su_cfg s) = names cfg1 \<and> length (su_wans s) = length (ac_wans cfg1) \<and> length (su_locals s) = length (ac_locals cfg1)"
    using start_wan_arps_step [OF st(4)] i4 by simp
  have a4: "su_wan_arp s4 = [] \<and> (\<forall>i < length (ac_wans cfg1). wan_addrs_ok (ac_wans (su_cfg s4) ! i) (su_wans s4 ! i) None)"
    using init_wans_addrs [OF st(3)] i3 by simp
  have m4: "length (su_wans s4) = length (ac_wans cfg1)" "length (ac_wans (su_cfg s4)) = length (ac_wans cfg1)"
    using i4 names_length by metis+
  have a5: "length (su_wan_arp s) = length (ac_wans cfg1) \<and>
      (\<forall>i < length (ac_wans cfg1). wan_addrs_ok (ac_wans (su_cfg s) ! i) (su_wans s ! i) (su_wan_arp s ! i))"
    using start_wan_arps_addrs [OF st(4)] a4 m4 by simp
  have lw: "length (ac_wans cfg1) = length (ac_wans cfg)" using n1 names_length by metis
  have l: "length (ac_locals (su_cfg s)) = length (ac_locals cfg1)" "length (ac_wans (su_cfg s)) = length (ac_wans cfg1)"
    using i5 names_length by metis+
  have ids: "map iface_id (su_locals s) = map local_id (ac_locals (su_cfg s))"
    using i5 l by (auto simp: in_step_def intro!: nth_equalityI)
  then have "map ir_ifname (su_locals s) = map lc_ifname (ac_locals (su_cfg s))"
    by (auto simp: iface_id_def local_id_def list_eq_iff_nth_eq dest: map_eq_imp_length_eq) 
  moreover have "map ir_ifname (su_wans s) = map wc_ifname (ac_wans (su_cfg s))"
    using i5 l by (auto simp: in_step_def intro!: nth_equalityI)
  moreover have "map lc_ifname (ac_locals (su_cfg s)) = map lc_ifname (ac_locals cfg)" "map wc_ifname (ac_wans (su_cfg s)) = map wc_ifname (ac_wans cfg)"
    using i5 n1 by (simp_all add: names_def)
  ultimately show ?thesis using i5 n1 ids a5 lw by simp
qed

section \<open>Instances\<close>

text \<open>Nothing fails and nothing stops; the peers of the bridge are known.\<close>

definition sample_arp_env :: arp_env where
  "sample_arp_env = \<lparr> ar_mac_ip = None, ar_socket = True, ar_bind = True, ar_file = None, ar_now = 0 \<rparr>"

definition sample_start_env :: start_env where
  "sample_start_env = \<lparr> se_bridge = sample_mac_env, se_local = (\<lambda>_. sample_init True), se_wan = (\<lambda>_. sample_init True),
     se_arp = (\<lambda>_. sample_arp_env), se_wan_arp = (\<lambda>_. sample_arp_env), se_addr = (\<lambda>_. None), se_replies = (\<lambda>_ _. []),
     se_stop_local = (\<lambda>_. False), se_stop_arp = (\<lambda>_. False), se_stop_wan = (\<lambda>_. False), se_stop_wan_arp = (\<lambda>_. False), se_stop_end = False \<rparr>"

lemma sample_reaches: "reaches_attach (sample_init True)" "ie_attach (sample_init True)" "local_attach_ok sample_start_env"
  by (simp_all add: reaches_attach_def sample_init_def local_attach_ok_def sample_start_env_def)

lemma sample_opens:
  "\<exists>i k'. interface_init_local (sample_init True) l k = Some (0, i, k')" "\<exists>i k'. interface_init_wan_rx (sample_init True) w k = Some (0, i, k')"
proof -
  show "\<exists>i k'. interface_init_local (sample_init True) l k = Some (0, i, k')"
    using init_local_opened [of "sample_init True" l k] init_local_result sample_reaches by (metis prod_cases3)
  show "\<exists>i k'. interface_init_wan_rx (sample_init True) w k = Some (0, i, k')"
    using init_wan_rx_opened [of "sample_init True" w k] init_wan_rx_result sample_reaches by (metis prod_cases3)
qed

theorem startup_handles_balanced_witness:
  "\<exists>r s file' ready' k' X. forwarder_init_sockets sample_start_env True None sample_config boot_kernel = Some ((r, s), file', ready') \<and>
    (if r = 0 then cleanup_interfaces s = Some k' else k' = su_kernel s) \<and> kn_live k' = kn_live boot_kernel + X \<and> kept_open X"
  by (rule startup_handles_balanced) (rule sample_reaches)

lemma sample_starts: "\<exists>s. forwarder_init_sockets sample_start_env True None sample_config boot_kernel = Some ((0, s), None, True)"
proof -
  obtain i1 k1 where 1: "interface_init_local (sample_init True) (ac_locals sample_config ! 0) boot_kernel = Some (0, i1, k1)"
    using sample_opens(1) by blast
  obtain i2 k2 where 2: "interface_init_wan_rx (sample_init True) (ac_wans sample_config ! 0) k1 = Some (0, i2, k2)"
    using sample_opens(2) by blast
  obtain i3 k3 where 3: "interface_init_wan_rx (sample_init True) (ac_wans sample_config ! Suc 0) k2 = Some (0, i3, k3)"
    using sample_opens(2) by blast
  have c: "length (ac_locals sample_config) = 1" "length (ac_wans sample_config) = 2" "config_wan_bridge_mode sample_config"
    "ac_locals sample_config \<noteq> []" "wc_dst_ip (ac_wans sample_config ! 0) = 0" "wc_dst_ip (ac_wans sample_config ! Suc 0) = 0"
    by (simp_all add: sample_defs config_wan_bridge_mode_def)
  have e: "se_local sample_start_env j = sample_init True" "se_wan sample_start_env j = sample_init True" "\<not> se_stop_local sample_start_env j"
    "\<not> se_stop_arp sample_start_env j" "\<not> se_stop_wan sample_start_env j" "\<not> se_stop_wan_arp sample_start_env j" "\<not> se_stop_end sample_start_env" for j
    by (simp_all add: sample_start_env_def)
  have u: "[0..<Suc 0] = [0]" "[0..<2] = [0, 1]" "[0..<Suc (Suc 0)] = [0, 1]" by (simp_all add: upt_rec)
  show ?thesis
    by (simp add: forwarder_init_sockets_def bridge_mac_prepare_impl_def bridge_mac_install_def Let_def c e u 1 2 3)
qed

theorem started_in_step_witness:
  "\<exists>s. forwarder_init_sockets sample_start_env True None sample_config boot_kernel = Some ((0, s), None, True) \<and>
     map ir_ifname (su_locals s) = map lc_ifname (ac_locals sample_config) \<and> length (su_locals s) = 1 \<and>
     map ir_ifname (su_wans s) = map wc_ifname (ac_wans sample_config) \<and> length (su_wans s) = 2 \<and>
     map iface_id (su_locals s) = map local_id (ac_locals (su_cfg s)) \<and>
     wan_addrs_ok (ac_wans (su_cfg s) ! 0) (su_wans s ! 0) (su_wan_arp s ! 0) \<and>
     wan_addrs_ok (ac_wans (su_cfg s) ! 1) (su_wans s ! 1) (su_wan_arp s ! 1)"
proof -
  obtain s where s: "forwarder_init_sockets sample_start_env True None sample_config boot_kernel = Some ((0, s), None, True)"
    using sample_starts by blast
  note r = started_in_step [OF s]
  have c: "length (ac_locals sample_config) = 1" "length (ac_wans sample_config) = 2" by (simp_all add: sample_config_def)
  have "length (su_locals s) = 1" "length (su_wans s) = 2" using r c by (metis length_map)+
  with r s c show ?thesis by (intro exI [of _ s]) simp
qed

end
