(* ===== verification/Threads.thy ===== *)
theory Threads
  imports WorkerRing PolicyPin Fragment CryptoRuntime
begin

text \<open>
  The threads of \<open>src/core/forwarder.c\<close>: which ones \<open>forwarder_run\<close> creates, with the entries of the argument array each
  gets, the tables that the threads share, and one round of \<open>gc_thread\<close>. The number of queues of each interface and the
  success of \<open>calloc\<close> are parameters; \<open>pthread_create\<close> succeeds. The arrays have a fixed length, and a write outside them makes the result \<open>None\<close>.
\<close>

section \<open>State\<close>

datatype thread_fn = local_queue_thread_no_crypto | wan_queue_thread_no_crypto | local_queue_thread_l2 | wan_queue_thread_l2
  | local_queue_thread_l3l4 | wan_queue_thread_l3l4 | worker_thread

record queue_thread_args =
  qa_iface_idx :: int
  qa_queue_idx :: int
  qa_tx_queue_base :: int
  qa_wan_worker_index :: int

text \<open>The worker gets no arguments.\<close>

type_synonym thread = "thread_fn \<times> queue_thread_args option"

record thread_table =
  tt_threads :: "thread option list"
  tt_idx :: nat
  tt_wan_worker :: nat

section \<open>Creation\<close>

definition thread_table_init :: "nat \<Rightarrow> thread_table" where
  "thread_table_init n = \<lparr> tt_threads = replicate n None, tt_idx = 0, tt_wan_worker = 0 \<rparr>"

definition pthread_create_at :: "thread \<Rightarrow> thread_table \<Rightarrow> thread_table option" where
  "pthread_create_at t tt =
     (if tt_idx tt < length (tt_threads tt) then Some (tt\<lparr> tt_threads := (tt_threads tt)[tt_idx tt := Some t], tt_idx := tt_idx tt + 1 \<rparr>)
      else None)"

text \<open>The loops over the queues \<open>q\<close> of interface \<open>i\<close> and over the interfaces, local side.\<close>

fun create_local_queues :: "thread_fn \<Rightarrow> nat \<Rightarrow> nat list \<Rightarrow> thread_table \<Rightarrow> thread_table option" where
  "create_local_queues f i [] tt = Some tt"
| "create_local_queues f i (q # qs) tt = do {
     tt \<leftarrow> pthread_create_at (f, Some \<lparr> qa_iface_idx = int i, qa_queue_idx = int q, qa_tx_queue_base = int q,
                                      qa_wan_worker_index = -1 \<rparr>) tt;
     create_local_queues f i qs tt }"

fun create_locals :: "thread_fn \<Rightarrow> nat \<Rightarrow> nat list \<Rightarrow> thread_table \<Rightarrow> thread_table option" where
  "create_locals f i [] tt = Some tt"
| "create_locals f i (n # ns) tt = do { tt \<leftarrow> create_local_queues f i [0..<n] tt; create_locals f (i + 1) ns tt }"

text \<open>WAN side; these threads are also numbered.\<close>

fun create_wan_queues :: "thread_fn \<Rightarrow> nat \<Rightarrow> nat list \<Rightarrow> thread_table \<Rightarrow> thread_table option" where
  "create_wan_queues f i [] tt = Some tt"
| "create_wan_queues f i (q # qs) tt = do {
     tt \<leftarrow> pthread_create_at (f, Some \<lparr> qa_iface_idx = int i, qa_queue_idx = int q, qa_tx_queue_base = int q,
                                      qa_wan_worker_index = int (tt_wan_worker tt) \<rparr>) tt;
     create_wan_queues f i qs (tt\<lparr> tt_wan_worker := tt_wan_worker tt + 1 \<rparr>) }"

fun create_wans :: "thread_fn \<Rightarrow> nat \<Rightarrow> nat list \<Rightarrow> thread_table \<Rightarrow> thread_table option" where
  "create_wans f i [] tt = Some tt"
| "create_wans f i (n # ns) tt = do { tt \<leftarrow> create_wan_queues f i [0..<n] tt; create_wans f (i + 1) ns tt }"

definition forwarder_run_no_crypto :: "bool \<Rightarrow> nat list \<Rightarrow> nat list \<Rightarrow> thread option list option" where
  "forwarder_run_no_crypto alloc ls ws =
     (if \<not> alloc then Some []
      else do {
        tt \<leftarrow> create_locals local_queue_thread_no_crypto 0 ls (thread_table_init (sum_list ls + sum_list ws));
        tt \<leftarrow> create_wans wan_queue_thread_no_crypto 0 ws tt;
        Some (tt_threads tt) })"

definition forwarder_run_l2 :: "bool \<Rightarrow> nat list \<Rightarrow> nat list \<Rightarrow> thread option list option" where
  "forwarder_run_l2 alloc ls ws =
     (if \<not> alloc then Some []
      else do {
        tt \<leftarrow> create_locals local_queue_thread_l2 0 ls (thread_table_init (sum_list ls + sum_list ws));
        tt \<leftarrow> create_wans wan_queue_thread_l2 0 ws tt;
        Some (tt_threads tt) })"

text \<open>Also returns the worker ring.\<close>

definition forwarder_run_l3 :: "bool \<Rightarrow> nat list \<Rightarrow> nat list \<Rightarrow> worker_ring \<Rightarrow> (thread option list \<times> worker_ring) option" where
  "forwarder_run_l3 alloc ls ws ring =
     (if \<not> alloc then Some ([], ring)
      else do {
        let ring = ring\<lparr> wr_head := 0, wr_tail := 0 \<rparr>;
        tt \<leftarrow> create_locals local_queue_thread_l3l4 0 ls (thread_table_init (sum_list ls + sum_list ws + 1));
        tt \<leftarrow> create_wans wan_queue_thread_l3l4 0 ws tt;
        tt \<leftarrow> pthread_create_at (worker_thread, None) tt;
        Some (tt_threads tt, ring) })"

definition forwarder_run_l4 :: "bool \<Rightarrow> nat list \<Rightarrow> nat list \<Rightarrow> worker_ring \<Rightarrow> (thread option list \<times> worker_ring) option" where
  "forwarder_run_l4 alloc ls ws ring =
     (if \<not> alloc then Some ([], ring)
      else do {
        let ring = ring\<lparr> wr_head := 0, wr_tail := 0 \<rparr>;
        tt \<leftarrow> create_locals local_queue_thread_l3l4 0 ls (thread_table_init (sum_list ls + sum_list ws + 1));
        tt \<leftarrow> create_wans wan_queue_thread_l3l4 0 ws tt;
        tt \<leftarrow> pthread_create_at (worker_thread, None) tt;
        Some (tt_threads tt, ring) })"

text \<open>The result is the value of \<open>running\<close>, the threads and the ring; \<open>stop\<close> is \<open>forwarder_should_stop\<close>.\<close>

definition forwarder_run ::
  "bool \<Rightarrow> bool \<Rightarrow> bool \<Rightarrow> int \<Rightarrow> nat list \<Rightarrow> nat list \<Rightarrow> worker_ring \<Rightarrow> (bool \<times> thread option list \<times> worker_ring) option" where
  "forwarder_run stop alloc enabled layer ls ws ring =
     (if stop then Some (False, [], ring)
      else if \<not> enabled then do { ts \<leftarrow> forwarder_run_no_crypto alloc ls ws; Some (True, ts, ring) }
      else if layer = 2 then do { ts \<leftarrow> forwarder_run_l2 alloc ls ws; Some (True, ts, ring) }
      else if layer = 3 then do { (ts, ring) \<leftarrow> forwarder_run_l3 alloc ls ws ring; Some (True, ts, ring) }
      else if layer = 4 then do { (ts, ring) \<leftarrow> forwarder_run_l4 alloc ls ws ring; Some (True, ts, ring) }
      else do { (ts, ring) \<leftarrow> forwarder_run_l3 alloc ls ws ring; Some (True, ts, ring) })"

section \<open>The tables of the threads\<close>

record tables =
  tb_flows :: flow_table
  tb_pins :: pin_table
  tb_frag_l2 :: frag_table
  tb_frag_l3 :: frag_table
  tb_frag_l4 :: frag_table

text \<open>Their part of \<open>forwarder_init\<close>, with the sequence number of the round robin, and of \<open>forwarder_cleanup\<close>.\<close>

definition wan_windows :: "app_config \<Rightarrow> u32 list" where
  "wan_windows cfg =
     compute_profile_weighted_wan_windows (length (ac_wans cfg)) (ac_profiles cfg)
       (map wc_window_size (take MAX_INTERFACES (ac_wans cfg)) @ replicate (MAX_INTERFACES - length (ac_wans cfg)) 0)"

definition init_tables :: "app_config \<Rightarrow> tables \<Rightarrow> tables \<times> u64" where
  "init_tables cfg tb =
     (let (ft, seq) = flow_table_init (Some (wan_windows cfg)) (int (length (ac_wans cfg))) in
      (\<lparr> tb_flows = ft, tb_pins = tcp_policy_pin_init (tb_pins tb), tb_frag_l2 = frag_table_init, tb_frag_l3 = frag_table_init,
         tb_frag_l4 = frag_table_init \<rparr>, seq))"

definition cleanup_tables :: "tables \<Rightarrow> tables" where
  "cleanup_tables tb =
     tb\<lparr> tb_flows := flow_table_cleanup (tb_flows tb), tb_pins := tcp_policy_pin_cleanup (tb_pins tb) \<rparr>"

text \<open>A forwarder that is started again begins with empty tables; only pins of a table that was never cleaned survive.\<close>

lemma restart_tables:
  "fst (init_tables cfg (cleanup_tables tb)) = fst (init_tables cfg tb)\<lparr> tb_pins := tcp_policy_pin_init (tcp_policy_pin_cleanup (tb_pins tb)) \<rparr>"
  "pins_inited (tb_pins tb) \<Longrightarrow> pins (tb_pins (fst (init_tables cfg (cleanup_tables tb)))) = (\<lambda>_. [])"
  "ft_buckets (tb_flows (fst (init_tables cfg tb))) = (\<lambda>_. [])"
  by (simp_all add: init_tables_def cleanup_tables_def flow_table_init_def tcp_policy_pin_init_def tcp_policy_pin_cleanup_def)

text \<open>One round of \<open>gc_thread\<close>; the times are those that each call reads.\<close>

definition gc_round :: "bool \<Rightarrow> 64 word \<Rightarrow> 64 word \<Rightarrow> 64 word \<Rightarrow> tables \<Rightarrow> tables" where
  "gc_round enabled t_flow t_pin t_frag tb =
     \<lparr> tb_flows = flow_table_gc t_flow (tb_flows tb), tb_pins = tcp_policy_pin_gc enabled t_pin (tb_pins tb),
       tb_frag_l2 = frag_table_gc t_frag (tb_frag_l2 tb), tb_frag_l3 = frag_table_gc t_frag (tb_frag_l3 tb),
       tb_frag_l4 = frag_table_gc t_frag (tb_frag_l4 tb) \<rparr>"

section \<open>Every queue has one thread\<close>

definition started :: "thread_table \<Rightarrow> bool" where
  "started tt \<longleftrightarrow> (\<forall>j < tt_idx tt. tt_threads tt ! j \<noteq> None) \<and> tt_idx tt \<le> length (tt_threads tt)"

text \<open>What a thread serves: its function, its interface and its queue.\<close>

definition serves :: "thread \<Rightarrow> thread_fn \<times> int \<times> int" where
  "serves t = (fst t, case snd t of None \<Rightarrow> (-1, -1) | Some a \<Rightarrow> (qa_iface_idx a, qa_queue_idx a))"

definition started_list :: "thread_table \<Rightarrow> (thread_fn \<times> int \<times> int) list" where
  "started_list tt = map (serves \<circ> the) (take (tt_idx tt) (tt_threads tt))"

lemma create_law:
  assumes "started tt" "tt_idx tt < length (tt_threads tt)"
  obtains tt' where "pthread_create_at t tt = Some tt'" "started tt'" "started_list tt' = started_list tt @ [serves t]"
    "length (tt_threads tt') = length (tt_threads tt)" "tt_idx tt' = tt_idx tt + 1" "tt_wan_worker tt' = tt_wan_worker tt"
proof -
  have "\<exists>tt'. pthread_create_at t tt = Some tt' \<and> started tt' \<and> started_list tt' = started_list tt @ [serves t] \<and>
      length (tt_threads tt') = length (tt_threads tt) \<and> tt_idx tt' = tt_idx tt + 1 \<and> tt_wan_worker tt' = tt_wan_worker tt"
    using assms by (auto simp: pthread_create_at_def started_def started_list_def take_Suc_conv_app_nth nth_list_update)
  with that show ?thesis by blast
qed

text \<open>The loops start exactly these.\<close>

definition reaches_table :: "thread_table \<Rightarrow> (thread_fn \<times> int \<times> int) list \<Rightarrow> thread_table option \<Rightarrow> bool" where
  "reaches_table tt xs r \<longleftrightarrow> (\<exists>tt'. r = Some tt' \<and> started tt' \<and> started_list tt' = started_list tt @ xs \<and>
     length (tt_threads tt') = length (tt_threads tt) \<and> tt_idx tt' = tt_idx tt + length xs)"

lemma create_queues_law:
  assumes "started tt" "tt_idx tt + length qs \<le> length (tt_threads tt)"
  shows "reaches_table tt (map (\<lambda>q. (f, int i, int q)) qs) (create_local_queues f i qs tt)"
    "reaches_table tt (map (\<lambda>q. (f, int i, int q)) qs) (create_wan_queues f i qs tt)"
proof -
  show "reaches_table tt (map (\<lambda>q. (f, int i, int q)) qs) (create_local_queues f i qs tt)"
    using assms
  proof (induction qs arbitrary: tt)
    case (Cons q qs)
    let ?t = "(f, Some \<lparr> qa_iface_idx = int i, qa_queue_idx = int q, qa_tx_queue_base = int q, qa_wan_worker_index = -1 \<rparr>)"
    obtain t1 where t1: "pthread_create_at ?t tt = Some t1" "started t1" "started_list t1 = started_list tt @ [serves ?t]"
      "length (tt_threads t1) = length (tt_threads tt)" "tt_idx t1 = tt_idx tt + 1" "tt_wan_worker t1 = tt_wan_worker tt"
      by (rule create_law [of tt ?t]) (use Cons.prems in auto)
    have "reaches_table t1 (map (\<lambda>q. (f, int i, int q)) qs) (create_local_queues f i qs t1)"
      using Cons.IH [OF t1(2)] t1(4,5) Cons.prems(2) by simp
    then show ?case using t1 by (simp add: reaches_table_def serves_def) 
  qed (simp add: reaches_table_def)
  show "reaches_table tt (map (\<lambda>q. (f, int i, int q)) qs) (create_wan_queues f i qs tt)"
    using assms
  proof (induction qs arbitrary: tt)
    case (Cons q qs)
    let ?t = "(f, Some \<lparr> qa_iface_idx = int i, qa_queue_idx = int q, qa_tx_queue_base = int q, qa_wan_worker_index = int (tt_wan_worker tt) \<rparr>)"
    obtain t1 where t1: "pthread_create_at ?t tt = Some t1" "started t1" "started_list t1 = started_list tt @ [serves ?t]"
      "length (tt_threads t1) = length (tt_threads tt)" "tt_idx t1 = tt_idx tt + 1" "tt_wan_worker t1 = tt_wan_worker tt"
      by (rule create_law [of tt ?t]) (use Cons.prems in auto)
    let ?t1 = "t1\<lparr> tt_wan_worker := tt_wan_worker t1 + 1 \<rparr>"
    have "started ?t1" using t1(2) by (simp add: started_def)
    then have "reaches_table ?t1 (map (\<lambda>q. (f, int i, int q)) qs) (create_wan_queues f i qs ?t1)"
      using Cons.IH [of ?t1] t1(4,5) Cons.prems(2) by simp
    then show ?case using t1 by (simp add: reaches_table_def serves_def started_list_def)
  qed (simp add: reaches_table_def)
qed

fun queues_of :: "thread_fn \<Rightarrow> nat \<Rightarrow> nat list \<Rightarrow> (thread_fn \<times> int \<times> int) list" where
  "queues_of f i [] = []"
| "queues_of f i (n # ns) = map (\<lambda>q. (f, int i, int q)) [0..<n] @ queues_of f (i + 1) ns"

lemma length_queues_of [simp]: "length (queues_of f i ns) = sum_list ns"
  by (induction ns arbitrary: i) simp_all

lemma set_queues_of: "set (queues_of f i ns) = {(f, int (i + k), int q) | k q. k < length ns \<and> q < ns ! k}"
proof (induction ns arbitrary: i)
  case (Cons n ns)
  have "{(f, int (i + k), int q) | k q. k < length (n # ns) \<and> q < (n # ns) ! k} =
      {(f, int i, int q) | q. q < n} \<union> {(f, int (i + 1 + k), int q) | k q. k < length ns \<and> q < ns ! k}"
    by (auto simp: less_Suc_eq_0_disj) (metis add_Suc_right nth_Cons_Suc Suc_less_eq of_nat_Suc)
  then show ?case by (auto simp: Cons.IH)
qed simp

lemma distinct_queues_of: "distinct (queues_of f i ns)"
  by (induction ns arbitrary: i) (auto simp: set_queues_of distinct_map inj_on_def)

lemma reaches_bind:
  assumes "reaches_table tt xs r" "\<And>t1. started t1 \<Longrightarrow> length (tt_threads t1) = length (tt_threads tt) \<Longrightarrow>
    tt_idx t1 = tt_idx tt + length xs \<Longrightarrow> reaches_table t1 ys (g t1)"
  shows "reaches_table tt (xs @ ys) (r \<bind> g)"
proof -
  obtain t1 where t1: "r = Some t1" "started t1" "started_list t1 = started_list tt @ xs" "length (tt_threads t1) = length (tt_threads tt)"
    "tt_idx t1 = tt_idx tt + length xs"
    using assms(1) by (auto simp: reaches_table_def)
  from assms(2) [OF t1(2,4,5)] t1 show ?thesis by (auto simp: reaches_table_def)
qed

lemma create_ifaces_law:
  assumes "started tt" "tt_idx tt + sum_list ns \<le> length (tt_threads tt)"
  shows "reaches_table tt (queues_of f i ns) (create_locals f i ns tt)" "reaches_table tt (queues_of f i ns) (create_wans f i ns tt)"
proof -
  show "reaches_table tt (queues_of f i ns) (create_locals f i ns tt)"
    using assms
  proof (induction ns arbitrary: i tt)
    case (Cons n ns)
    have "reaches_table tt (map (\<lambda>q. (f, int i, int q)) [0..<n]) (create_local_queues f i [0..<n] tt)"
      using Cons.prems by (intro create_queues_law) simp_all
    then show ?case unfolding queues_of.simps create_locals.simps
      by (rule reaches_bind) (rule Cons.IH, use Cons.prems in simp_all)
  qed (simp add: reaches_table_def)
  show "reaches_table tt (queues_of f i ns) (create_wans f i ns tt)"
    using assms
  proof (induction ns arbitrary: i tt)
    case (Cons n ns)
    have "reaches_table tt (map (\<lambda>q. (f, int i, int q)) [0..<n]) (create_wan_queues f i [0..<n] tt)"
      using Cons.prems by (intro create_queues_law) simp_all
    then show ?case unfolding queues_of.simps create_wans.simps
      by (rule reaches_bind) (rule Cons.IH, use Cons.prems in simp_all)
  qed (simp add: reaches_table_def)
qed

lemma create_one_law:
  assumes "started tt" "tt_idx tt < length (tt_threads tt)"
  shows "reaches_table tt [serves t] (pthread_create_at t tt)"
proof -
  obtain tt' where "pthread_create_at t tt = Some tt'" "started tt'" "started_list tt' = started_list tt @ [serves t]"
    "length (tt_threads tt') = length (tt_threads tt)" "tt_idx tt' = tt_idx tt + 1" "tt_wan_worker tt' = tt_wan_worker tt"
    by (rule create_law [OF assms])
  then show ?thesis by (simp add: reaches_table_def)
qed

text \<open>A full table.\<close>

lemma reaches_full:
  assumes "reaches_table (thread_table_init n) xs r" "length xs = n"
  shows "\<exists>tt. r = Some tt \<and> None \<notin> set (tt_threads tt) \<and> map (serves \<circ> the) (tt_threads tt) = xs"
proof -
  obtain tt where tt: "r = Some tt" "started tt" "started_list tt = started_list (thread_table_init n) @ xs"
    "length (tt_threads tt) = n" "tt_idx tt = length xs"
    using assms(1) by (auto simp: reaches_table_def thread_table_init_def)
  then have "map (serves \<circ> the) (tt_threads tt) = xs" using assms(2) by (simp add: started_list_def thread_table_init_def)
  moreover have "None \<notin> set (tt_threads tt)" using tt assms(2) by (auto simp: started_def in_set_conv_nth)
  ultimately show ?thesis using tt(1) by blast
qed

lemma started_init: "started (thread_table_init n)" "tt_idx (thread_table_init n) = 0" "length (tt_threads (thread_table_init n)) = n"
  by (simp_all add: started_def thread_table_init_def)

definition worker_list :: "(thread_fn \<times> int \<times> int) list" where "worker_list = [(worker_thread, -1, -1)]"

lemma plain_threads:
  "\<exists>tt. (create_locals f 0 ls (thread_table_init (sum_list ls + sum_list ws)) \<bind> create_wans g 0 ws) = Some tt \<and> None \<notin> set (tt_threads tt) \<and>
     map (serves \<circ> the) (tt_threads tt) = queues_of f 0 ls @ queues_of g 0 ws"
  by (rule reaches_full) (auto intro!: reaches_bind create_ifaces_law simp: started_init)

lemma worker_threads:
  "\<exists>tt. (create_locals f 0 ls (thread_table_init (sum_list ls + sum_list ws + 1)) \<bind>
       (\<lambda>tt. create_wans g 0 ws tt \<bind> pthread_create_at (worker_thread, None))) = Some tt \<and> None \<notin> set (tt_threads tt) \<and>
     map (serves \<circ> the) (tt_threads tt) = queues_of f 0 ls @ queues_of g 0 ws @ worker_list"
proof -
  have w: "worker_list = [serves (worker_thread, None)]" by (simp add: worker_list_def serves_def)
  show ?thesis unfolding w
    by (rule reaches_full) (auto intro!: reaches_bind create_ifaces_law create_one_law simp: started_init)
qed

lemma run_threads:
  "\<exists>ts. forwarder_run_no_crypto True ls ws = Some ts \<and> None \<notin> set ts \<and>
     map (serves \<circ> the) ts = queues_of local_queue_thread_no_crypto 0 ls @ queues_of wan_queue_thread_no_crypto 0 ws"
  "\<exists>ts. forwarder_run_l2 True ls ws = Some ts \<and> None \<notin> set ts \<and>
     map (serves \<circ> the) ts = queues_of local_queue_thread_l2 0 ls @ queues_of wan_queue_thread_l2 0 ws"
  "\<exists>ts. forwarder_run_l3 True ls ws ring = Some (ts, ring\<lparr> wr_head := 0, wr_tail := 0 \<rparr>) \<and> None \<notin> set ts \<and>
     map (serves \<circ> the) ts = queues_of local_queue_thread_l3l4 0 ls @ queues_of wan_queue_thread_l3l4 0 ws @ worker_list"
  "forwarder_run_l4 True ls ws ring = forwarder_run_l3 True ls ws ring"
proof -
  show "\<exists>ts. forwarder_run_no_crypto True ls ws = Some ts \<and> None \<notin> set ts \<and>
      map (serves \<circ> the) ts = queues_of local_queue_thread_no_crypto 0 ls @ queues_of wan_queue_thread_no_crypto 0 ws"
    using plain_threads [of local_queue_thread_no_crypto ls ws wan_queue_thread_no_crypto]
    by (auto simp: forwarder_run_no_crypto_def bind_eq_Some_conv)
  show "\<exists>ts. forwarder_run_l2 True ls ws = Some ts \<and> None \<notin> set ts \<and>
      map (serves \<circ> the) ts = queues_of local_queue_thread_l2 0 ls @ queues_of wan_queue_thread_l2 0 ws"
    using plain_threads [of local_queue_thread_l2 ls ws wan_queue_thread_l2]
    by (auto simp: forwarder_run_l2_def bind_eq_Some_conv)
  show "\<exists>ts. forwarder_run_l3 True ls ws ring = Some (ts, ring\<lparr> wr_head := 0, wr_tail := 0 \<rparr>) \<and> None \<notin> set ts \<and>
      map (serves \<circ> the) ts = queues_of local_queue_thread_l3l4 0 ls @ queues_of wan_queue_thread_l3l4 0 ws @ worker_list"
    using worker_threads [of local_queue_thread_l3l4 ls ws wan_queue_thread_l3l4]
    by (auto simp: forwarder_run_l3_def bind_eq_Some_conv)
  show "forwarder_run_l4 True ls ws ring = forwarder_run_l3 True ls ws ring"
    by (simp add: forwarder_run_l4_def forwarder_run_l3_def)
qed

section \<open>Properties\<close>

definition local_fn :: "bool \<Rightarrow> int \<Rightarrow> thread_fn" where
  "local_fn enabled layer = (if \<not> enabled then local_queue_thread_no_crypto else if layer = 2 then local_queue_thread_l2 else local_queue_thread_l3l4)"

definition wan_fn :: "bool \<Rightarrow> int \<Rightarrow> thread_fn" where
  "wan_fn enabled layer = (if \<not> enabled then wan_queue_thread_no_crypto else if layer = 2 then wan_queue_thread_l2 else wan_queue_thread_l3l4)"

text \<open>C19: When the arrays can be allocated, \<open>forwarder_run\<close> writes only inside them and fills every entry, and the threads it
  starts serve every queue of every local and WAN interface exactly once, with the functions for the layer in force; at
  layers other than 2 there is one worker, and its ring is emptied.\<close>

theorem every_queue_served:
  "\<exists>ts ring'. forwarder_run False True enabled layer ls ws ring = Some (True, ts, ring') \<and> None \<notin> set ts \<and>
     distinct (map (serves \<circ> the) ts) \<and>
     set (map (serves \<circ> the) ts) =
       {(local_fn enabled layer, int i, int q) | i q. i < length ls \<and> q < ls ! i} \<union>
       {(wan_fn enabled layer, int i, int q) | i q. i < length ws \<and> q < ws ! i} \<union>
       (if enabled \<and> layer \<noteq> 2 then {(worker_thread, -1, -1)} else {}) \<and>
     ring' = (if enabled \<and> layer \<noteq> 2 then ring\<lparr> wr_head := 0, wr_tail := 0 \<rparr> else ring)"
proof -
  let ?f = "local_fn enabled layer" and ?g = "wan_fn enabled layer"
  let ?w = "if enabled \<and> layer \<noteq> 2 then worker_list else []"
  have "\<exists>ts ring'. forwarder_run False True enabled layer ls ws ring = Some (True, ts, ring') \<and> None \<notin> set ts \<and>
      map (serves \<circ> the) ts = queues_of ?f 0 ls @ queues_of ?g 0 ws @ ?w \<and> ring' = (if enabled \<and> layer \<noteq> 2 then ring\<lparr> wr_head := 0, wr_tail := 0 \<rparr> else ring)"
    using run_threads(1) [of ls ws] run_threads(2) [of ls ws] run_threads(3) [of ls ws ring] run_threads(4) [of ls ws ring]
    by (cases enabled; cases "layer = 2"; elim exE conjE; simp add: forwarder_run_def local_fn_def wan_fn_def ring_dequeue_def)
  then obtain ts ring' where ts: "forwarder_run False True enabled layer ls ws ring = Some (True, ts, ring')" "None \<notin> set ts"
    "map (serves \<circ> the) ts = queues_of ?f 0 ls @ queues_of ?g 0 ws @ ?w" "ring' = (if enabled \<and> layer \<noteq> 2 then ring\<lparr> wr_head := 0, wr_tail := 0 \<rparr> else ring)"
    by blast
  have "?f \<noteq> ?g" "?f \<noteq> worker_thread" "?g \<noteq> worker_thread" by (simp_all add: local_fn_def wan_fn_def)
  then have "distinct (map (serves \<circ> the) ts)" unfolding ts(3)
    by (auto simp: distinct_queues_of set_queues_of worker_list_def)
  moreover have "set (map (serves \<circ> the) ts) =
       {(?f, int i, int q) | i q. i < length ls \<and> q < ls ! i} \<union> {(?g, int i, int q) | i q. i < length ws \<and> q < ws ! i} \<union>
       (if enabled \<and> layer \<noteq> 2 then {(worker_thread, -1, -1)} else {})"
  proof -
    have "set ?w = (if enabled \<and> layer \<noteq> 2 then {(worker_thread, -1, -1)} else {})" by (simp add: worker_list_def)
    then show ?thesis unfolding ts(3) set_append set_queues_of add_0 Un_assoc by (simp only:)
  qed
  ultimately show ?thesis using ts(1,2,4) by blast
qed

text \<open>A round of collection keeps the tables well formed and the entries that are young enough.\<close>

lemma gc_round_ok:
  assumes "flow_table_ok (tb_flows tb)" "frag_table_ok (tb_frag_l2 tb)" "frag_table_ok (tb_frag_l3 tb)" "frag_table_ok (tb_frag_l4 tb)"
  shows "flow_table_ok (tb_flows (gc_round enabled a b c tb)) \<and> frag_table_ok (tb_frag_l2 (gc_round enabled a b c tb)) \<and>
    frag_table_ok (tb_frag_l3 (gc_round enabled a b c tb)) \<and> frag_table_ok (tb_frag_l4 (gc_round enabled a b c tb))"
  using assms by (simp add: gc_round_def gc_ok frag_table_gc_ok)

end
