(* ===== verification/RingIO.thy ===== *)
theory RingIO
  imports Interface
begin

unbundle bit_operations_syntax

text \<open>
  Receiving frames, and the other senders of \<open>src/core/interface.c\<close>: \<open>interface_recv\<close> and \<open>interface_recv_release\<close>, which
  serve all queues of an interface and put the number of the queue into the upper byte of an address,
  \<open>interface_recv_single_queue\<close>, and \<open>interface_send\<close>, \<open>interface_send_to_local\<close>, \<open>interface_send_batch\<close> and
  \<open>interface_send_to_local_batch\<close> with their flushes. A receive ring is the list of the descriptors (address and
  length) that the kernel has put into it.
\<close>

section \<open>Receiving\<close>

type_synonym desc = "u64 \<times> nat"

definition ADDR_ENCODE :: "nat \<Rightarrow> u64 \<Rightarrow> u64" where
  "ADDR_ENCODE q addr = push_bit 56 (of_nat q) OR (addr AND 0x00FFFFFFFFFFFFFF)"

definition ADDR_QUEUE :: "u64 \<Rightarrow> nat" where
  "ADDR_QUEUE e = unat (drop_bit 56 e)"

definition ADDR_OFFSET :: "u64 \<Rightarrow> u64" where
  "ADDR_OFFSET e = e AND 0x00FFFFFFFFFFFFFF"

text \<open>One pass over the queues in the given order; \<open>ready\<close> are those that are looked at.\<close>

fun recv_pass :: "nat \<Rightarrow> (nat \<Rightarrow> bool) \<Rightarrow> nat list \<Rightarrow> desc list \<times> desc list list \<Rightarrow> desc list \<times> desc list list" where
  "recv_pass max_pkts ready [] s = s"
| "recv_pass max_pkts ready (q # qs) (out, rings) =
     (if \<not> length out < max_pkts then (out, rings)
      else if \<not> ready q then recv_pass max_pkts ready qs (out, rings)
      else let n = max_pkts - length out in
        recv_pass max_pkts ready qs (out @ map (\<lambda>d. (ADDR_ENCODE q (fst d), snd d)) (take n (rings ! q)),
                                     rings[q := drop n (rings ! q)]))"

text \<open>\<open>arrived\<close>: what comes in while polling, \<open>poll_ok\<close>: \<open>poll\<close> reports something, \<open>pollin\<close>: the queues with \<open>POLLIN\<close>.
  The second component is \<open>current_queue\<close>.\<close>

definition interface_recv ::
  "bool \<Rightarrow> (nat \<Rightarrow> bool) \<Rightarrow> desc list list \<Rightarrow> nat \<Rightarrow> nat \<Rightarrow> desc list list \<Rightarrow> desc list \<times> nat \<times> desc list list" where
  "interface_recv poll_ok pollin arrived max_pkts current rings =
     (let count = length rings in
      if count = 0 then ([], current, rings)
      else
        let (out, rings) = recv_pass max_pkts (\<lambda>_. True) (map (\<lambda>i. (current + i) mod count) [0..<count]) ([], rings);
            current = (current + 1) mod count
        in if out \<noteq> [] then (out, current, rings)
        else
          let rings = map2 (@) rings arrived in
          if \<not> poll_ok then ([], current, rings)
          else let (out, rings) = recv_pass max_pkts pollin [0..<count] ([], rings) in (out, current, rings))"

text \<open>Returning frames to the fill rings; \<open>room\<close> as in \<open>release_frames\<close>.\<close>

fun interface_recv_release :: "(nat \<Rightarrow> nat \<Rightarrow> bool) \<Rightarrow> nat \<Rightarrow> u64 list \<Rightarrow> u64 list list \<Rightarrow> u64 list list" where
  "interface_recv_release room i [] fills = fills"
| "interface_recv_release room i (a # as) fills =
     (let q = ADDR_QUEUE a in
      if q \<ge> length fills then interface_recv_release room (i + 1) as fills
      else interface_recv_release room (i + 1) as
             (if reserve_fill room i then fills[q := fills ! q @ [ADDR_OFFSET a]] else fills))"

text \<open>What the threads use: one queue. The result is what was received and what is left in the ring.\<close>

definition interface_recv_single_queue :: "nat \<Rightarrow> int \<Rightarrow> bool \<Rightarrow> desc list \<Rightarrow> nat \<Rightarrow> desc list \<Rightarrow> desc list \<times> desc list" where
  "interface_recv_single_queue count queue_idx poll_ok arrived max_pkts ring =
     (if queue_idx \<ge> int count then ([], ring)
      else if take max_pkts ring \<noteq> [] then (take max_pkts ring, drop max_pkts ring)
      else let ring = ring @ arrived in
        if \<not> poll_ok then ([], ring) else (take max_pkts ring, drop max_pkts ring))"

section \<open>The other senders\<close>

text \<open>A transmit frame by ring size, where the functions above use the size of the UMEM.\<close>

definition ring_addr :: "xsk_interface \<Rightarrow> u64 \<Rightarrow> nat option" where
  "ring_addr iface slot =
     (if xi_ring_size iface = 0 then None
      else Some ((unat slot mod xi_ring_size iface + xi_ring_size iface) * xi_frame_size iface))"

definition half_addr :: "xsk_interface \<Rightarrow> u64 \<Rightarrow> nat option" where
  "half_addr iface slot =
     (if xi_frame_size iface = 0 then None
      else let frame_count = xi_umem_size iface div xi_frame_size iface in
        if frame_count div 2 = 0 then None
        else Some ((unat slot mod (frame_count div 2) + frame_count div 2) * xi_frame_size iface))"

definition kick :: "xsk_queue \<Rightarrow> xsk_queue" where
  "kick q = q\<lparr> xq_kicks := xq_kicks q + 1 \<rparr>"

definition kick_pending :: "xsk_queue \<Rightarrow> xsk_queue" where
  "kick_pending q = (if xq_pending q > 0 then q\<lparr> xq_kicks := xq_kicks q + 1, xq_pending := 0 \<rparr> else q)"

text \<open>Copying the packet into the frame at \<open>addr\<close>, addresses and descriptor.\<close>

definition put_frame :: "u8 list \<Rightarrow> u8 list \<Rightarrow> nat option \<Rightarrow> buf \<Rightarrow> nat \<Rightarrow> xsk_queue \<Rightarrow> xsk_queue option" where
  "put_frame dst_mac src_mac addr pkt pkt_len q = do {
     addr \<leftarrow> addr;
     d \<leftarrow> rdn pkt 0 pkt_len;
     bufs \<leftarrow> wrn (xq_bufs q) addr d;
     bufs \<leftarrow> eth_rewrite dst_mac src_mac addr bufs;
     Some (q\<lparr> xq_bufs := bufs, xq_tx := xq_tx q @ [(addr, pkt_len)], xq_slot := xq_slot q + 1 \<rparr>) }"

text \<open>\<open>room k\<close>: the k-th attempt to reserve an entry succeeds.\<close>

definition interface_send :: "xsk_interface \<Rightarrow> (nat \<Rightarrow> bool) \<Rightarrow> buf \<Rightarrow> nat \<Rightarrow> xsk_queue \<Rightarrow> (int \<times> xsk_queue) option" where
  "interface_send iface room pkt pkt_len q =
     (let q = (if room 0 then q else kick q) in
      if \<not> list_ex room [0..<2] then Some (-1, q)
      else do {
        q \<leftarrow> put_frame (xi_dst_mac iface) (xi_src_mac iface) (ring_addr iface (xq_slot q)) pkt pkt_len q;
        Some (0, kick q) })"

definition interface_send_to_local ::
  "xsk_interface \<Rightarrow> (nat \<Rightarrow> bool) \<Rightarrow> local_config \<Rightarrow> buf \<Rightarrow> nat \<Rightarrow> xsk_queue \<Rightarrow> (int \<times> xsk_queue) option" where
  "interface_send_to_local iface room cfg pkt pkt_len q =
     (if xi_queue_count iface = 0 then Some (-1, q)
      else let q = (if room 0 then q else kick q) in
        if \<not> list_ex room [0..<2] then Some (-1, q)
        else do {
          q \<leftarrow> put_frame (lc_dst_mac cfg) (lc_src_mac cfg) (half_addr iface (xq_slot q)) pkt pkt_len q;
          Some (0, kick q) })"

text \<open>Counting pending descriptors, with a call to the kernel after \<open>batch\<close> of them.\<close>

definition count_pending :: "int \<Rightarrow> xsk_queue \<Rightarrow> xsk_queue" where
  "count_pending batch q =
     (let q = q\<lparr> xq_pending := xq_pending q + 1 \<rparr> in
      if xq_pending q \<ge> batch then q\<lparr> xq_kicks := xq_kicks q + 1, xq_pending := 0 \<rparr> else q)"

definition interface_send_batch :: "xsk_interface \<Rightarrow> (nat \<Rightarrow> bool) \<Rightarrow> buf \<Rightarrow> nat \<Rightarrow> xsk_queue \<Rightarrow> (int \<times> xsk_queue) option" where
  "interface_send_batch iface room pkt pkt_len q =
     (let q = (if room 0 then q else kick_pending q) in
      if \<not> list_ex room [0..<4] then Some (-1, q)
      else do {
        q \<leftarrow> put_frame (xi_dst_mac iface) (xi_src_mac iface) (ring_addr iface (xq_slot q)) pkt pkt_len q;
        Some (0, count_pending 64 q) })"

definition interface_send_to_local_batch ::
  "xsk_interface \<Rightarrow> (nat \<Rightarrow> bool) \<Rightarrow> local_config \<Rightarrow> buf \<Rightarrow> nat \<Rightarrow> xsk_queue \<Rightarrow> (int \<times> xsk_queue) option" where
  "interface_send_to_local_batch iface room cfg pkt pkt_len q =
     (if xi_queue_count iface = 0 then Some (-1, q)
      else let q = (if room 0 then q else kick_pending q) in
        if \<not> list_ex room [0..<9] then Some (-1, q)
        else do {
          q \<leftarrow> put_frame (lc_dst_mac cfg) (lc_src_mac cfg) (ring_addr iface (xq_slot q)) pkt pkt_len q;
          Some (0, count_pending 16 q) })"

text \<open>\<open>interface_send_flush\<close>, and \<open>interface_send_to_local_flush\<close> for the queue that \<open>tx_queue\<close> selects.\<close>

definition interface_send_flush :: "xsk_queue \<Rightarrow> xsk_queue" where
  "interface_send_flush q = kick_pending q"

definition interface_send_to_local_flush :: "nat \<Rightarrow> xsk_queue list \<Rightarrow> xsk_queue list" where
  "interface_send_to_local_flush tx_queue qs =
     (if qs = [] then qs else let q = tx_queue mod length qs in qs[q := kick_pending (qs ! q)])"

section \<open>Received frames come back\<close>

lemma addr_roundtrip:
  assumes "q < 256" "a AND 0x00FFFFFFFFFFFFFF = a"
  shows "ADDR_QUEUE (ADDR_ENCODE q a) = q" "ADDR_OFFSET (ADDR_ENCODE q a) = a"
proof -
  have m: "(0x00FFFFFFFFFFFFFF :: u64) = mask 56" by (simp add: mask_eq_exp_minus_1)
  have h: "drop_bit 56 (mask 56 :: u64) = 0" by (simp add: bit_eq_iff bit_simps)
  have "drop_bit 56 (push_bit 56 (of_nat q :: u64) OR (a AND mask 56)) = take_bit 8 (of_nat q)"
    by (rule bit_word_eqI) (auto simp: bit_simps)
  also have "\<dots> = of_nat q" using assms(1) by (simp add: take_bit_of_nat take_bit_nat_eq_self)
  finally show "ADDR_QUEUE (ADDR_ENCODE q a) = q"
    using assms(1) by (simp add: ADDR_QUEUE_def ADDR_ENCODE_def m unat_of_nat)
  have "(push_bit 56 (of_nat q :: u64) OR a) AND mask 56 = a AND mask 56"
    by (rule bit_word_eqI) (auto simp: bit_simps)
  then show "ADDR_OFFSET (ADDR_ENCODE q a) = a"
    using assms(2) by (simp add: ADDR_OFFSET_def ADDR_ENCODE_def m)
qed

text \<open>The addresses of queue \<open>q\<close> in what was received, in order.\<close>

definition from_queue :: "nat \<Rightarrow> desc list \<Rightarrow> u64 list" where
  "from_queue q out = map ADDR_OFFSET (filter (\<lambda>a. ADDR_QUEUE a = q) (map fst out))"

definition rings_ok :: "desc list list \<Rightarrow> bool" where
  "rings_ok rings \<longleftrightarrow> length rings \<le> 64 \<and> (\<forall>r \<in> set rings. \<forall>d \<in> set r. fst d AND 0x00FFFFFFFFFFFFFF = fst d)"

lemma from_queue_append [simp]: "from_queue q (xs @ ys) = from_queue q xs @ from_queue q ys"
  by (simp add: from_queue_def)

lemma from_queue_encoded:
  assumes "p < 64" "\<forall>d \<in> set ds. fst d AND 0x00FFFFFFFFFFFFFF = fst d"
  shows "from_queue q (map (\<lambda>d. (ADDR_ENCODE p (fst d), snd d)) ds) = (if p = q then map fst ds else [])"
  using assms(2) by (induction ds) (use assms(1) in \<open>simp_all add: from_queue_def addr_roundtrip\<close>)

lemma rings_ok_update: "rings_ok rings \<Longrightarrow> q < length rings \<Longrightarrow> rings_ok (rings[q := drop n (rings ! q)])"
  unfolding rings_ok_def by (auto dest!: set_update_subset_insert [THEN subsetD] in_set_dropD)

lemma recv_pass_law:
  assumes "recv_pass m ready qs (out, rings) = (out', rings')" "rings_ok rings" "\<forall>q \<in> set qs. q < length rings" "length out \<le> m"
  shows "length rings' = length rings \<and> rings_ok rings' \<and> length out' \<le> m \<and>
    (\<forall>q < length rings. from_queue q out' @ map fst (rings' ! q) = from_queue q out @ map fst (rings ! q))"
  using assms
proof (induction qs arbitrary: out rings)
  case (Cons p qs)
  show ?case
  proof (cases "length out < m \<and> ready p")
    case False
    then show ?thesis using Cons by (auto split: if_splits)
  next
    case True
    let ?n = "m - length out"
    let ?out = "out @ map (\<lambda>d. (ADDR_ENCODE p (fst d), snd d)) (take ?n (rings ! p))"
    let ?rings = "rings[p := drop ?n (rings ! p)]"
    have r: "recv_pass m ready qs (?out, ?rings) = (out', rings')" using Cons.prems(1) True by (simp add: Let_def)
    have p: "p < length rings" "p < 64" "\<forall>d \<in> set (take ?n (rings ! p)). fst d AND 0x00FFFFFFFFFFFFFF = fst d"
      using Cons.prems(2,3) by (auto simp: rings_ok_def dest!: in_set_takeD nth_mem)
    have "length rings' = length ?rings \<and> rings_ok rings' \<and> length out' \<le> m \<and>
      (\<forall>q < length ?rings. from_queue q out' @ map fst (rings' ! q) = from_queue q ?out @ map fst (?rings ! q))"
      by (rule Cons.IH [OF r]) (use Cons.prems p(1) rings_ok_update in auto)
    moreover have "from_queue q ?out @ map fst (?rings ! q) = from_queue q out @ map fst (rings ! q)" for q
      using p by (auto simp: from_queue_encoded nth_list_update simp flip: map_append)
    ultimately show ?thesis by simp
  qed
qed simp

text \<open>The frames of a batch for which an entry of the fill ring was to be had, at the first attempt or at the second.\<close>

definition given_back :: "(nat \<Rightarrow> nat \<Rightarrow> bool) \<Rightarrow> 'a list \<Rightarrow> 'a list" where
  "given_back room xs = nths xs {i. room i 0 \<or> room i 1}"

lemma given_back_map: "given_back room (map f xs) = map f (given_back room xs)"
  by (simp add: given_back_def nths_map)

lemma given_back_all: "\<forall>i < length xs. room i 0 \<or> room i 1 \<Longrightarrow> given_back room xs = xs"
  by (auto simp: given_back_def intro!: nths_all)

lemma release_law:
  "q < length fills \<Longrightarrow> interface_recv_release room i as fills ! q =
     fills ! q @ map ADDR_OFFSET (filter (\<lambda>a. ADDR_QUEUE a = q) (nths as {j. room (j + i) 0 \<or> room (j + i) 1}))"
  by (induction as arbitrary: i fills) (auto simp: Let_def nth_list_update nths_Cons reserve_fill_def)

lemma release_frames_law:
  "xq_fill (release_frames room i as q) = xq_fill q @ nths as {j. room (j + i) 0 \<or> room (j + i) 1}"
  by (induction as arbitrary: i q) (simp_all add: nths_Cons reserve_fill_def)

lemma rings_ok_arrived: "rings_ok rings \<Longrightarrow> rings_ok arrived \<Longrightarrow> rings_ok (map2 (@) rings arrived)"
  by (force simp: rings_ok_def set_zip)

text \<open>Receiving: at most \<open>max_pkts\<close> frames, and no frame vanishes.\<close>

lemma interface_recv_law:
  assumes "rings_ok rings" "rings_ok arrived" "length arrived = length rings"
    and "interface_recv poll_ok pollin arrived max_pkts current rings = (out, current', rings')"
  shows "length out \<le> max_pkts \<and> (\<exists>new. (new = arrived \<or> new = replicate (length rings) []) \<and>
    (\<forall>q < length rings. from_queue q out @ map fst (rings' ! q) = map fst (rings ! q @ new ! q)))"
proof (cases "rings = []")
  case True
  then show ?thesis using assms(4) by (auto simp: interface_recv_def)
next
  case False
  let ?order = "map (\<lambda>i. (current + i) mod length rings) [0..<length rings]"
  obtain out1 rings1 where p1: "recv_pass max_pkts (\<lambda>_. True) ?order ([], rings) = (out1, rings1)"
    by (cases "recv_pass max_pkts (\<lambda>_. True) ?order ([], rings)")
  have "length rings1 = length rings \<and> rings_ok rings1 \<and> length out1 \<le> max_pkts \<and>
      (\<forall>q < length rings. from_queue q out1 @ map fst (rings1 ! q) = from_queue q [] @ map fst (rings ! q))"
    by (rule recv_pass_law [OF p1 assms(1)]) (use False in auto)
  then have l1: "length rings1 = length rings" "rings_ok rings1" "length out1 \<le> max_pkts"
    "\<And>q. q < length rings \<Longrightarrow> from_queue q out1 @ map fst (rings1 ! q) = map fst (rings ! q)"
    by (auto simp: from_queue_def)
  show ?thesis
  proof (cases "out1 = []")
    case f: False
    then have "out = out1" "rings' = rings1" using assms(4) False p1 by (simp_all add: interface_recv_def Let_def)
    with l1 show ?thesis by (intro conjI exI [of _ "replicate (length rings) []"]) auto
  next
    case True
    let ?rings = "map2 (@) rings1 arrived"
    have ok: "rings_ok ?rings" "length ?rings = length rings" using l1 assms(2,3) rings_ok_arrived by auto
    have n: "map fst (?rings ! q) = map fst (rings ! q @ arrived ! q)" if "q < length rings" for q
      using l1(1) l1(4) [OF that] True that assms(3) by (simp add: from_queue_def)
    show ?thesis
    proof (cases poll_ok)
      case no: False
      then have "out = []" "rings' = ?rings" using assms(4) False True p1 by (simp_all add: interface_recv_def Let_def)
      with n show ?thesis by (auto simp: from_queue_def)
    next
      case yes: True
      obtain out2 rings2 where p2: "recv_pass max_pkts pollin [0..<length rings] ([], ?rings) = (out2, rings2)"
        by (cases "recv_pass max_pkts pollin [0..<length rings] ([], ?rings)")
      have "length rings2 = length ?rings \<and> rings_ok rings2 \<and> length out2 \<le> max_pkts \<and>
          (\<forall>q < length ?rings. from_queue q out2 @ map fst (rings2 ! q) = from_queue q [] @ map fst (?rings ! q))"
        by (rule recv_pass_law [OF p2 ok(1)]) (use ok(2) in auto)
      moreover have "out = out2" "rings' = rings2" using assms(4) False True yes p1 p2 by (simp_all add: interface_recv_def Let_def)
      ultimately have "length out \<le> max_pkts \<and> (\<forall>q < length rings. from_queue q out @ map fst (rings' ! q) = map fst (?rings ! q))"
        using ok(2) by (simp add: from_queue_def l1(1) assms(3))
      with n show ?thesis by (intro conjI exI [of _ arrived]) auto
    qed
  qed
qed

text \<open>The path that the threads take, of one queue.\<close>

lemma single_queue_law:
  assumes "interface_recv_single_queue count queue_idx poll_ok arrived max_pkts ring = (out, ring')" "queue_idx < int count"
  shows "length out \<le> max_pkts \<and> (\<exists>new. (new = arrived \<or> new = []) \<and> out @ ring' = ring @ new)"
  using assms by (auto simp: interface_recv_single_queue_def Let_def split: if_splits)

text \<open>C20: Which received frames return. For one queue, as the threads receive and give back: a batch has at most the size asked
  for, what was received followed by what is left in the receive ring is what was there and what arrived, and the fill ring
  gets, in the order received, exactly the frames of the batch for which one of the two attempts to reserve an entry
  succeeds; a frame for which both fail is skipped and lost to the ring. The same holds for all queues at once, where each
  frame goes to the queue that the upper byte of its address names, which is the one it was received from.\<close>

theorem received_frames_return:
  assumes "queue_idx < int count" "xi_queue_count iface = int count"
    and "interface_recv_single_queue count queue_idx poll_ok1 arrived1 max_pkts ring = (out1, ring')"
    and "rings_ok rings" "rings_ok arrived" "length arrived = length rings" "length fills = length rings"
    and "interface_recv poll_ok pollin arrived max_pkts current rings = (out, current', rings')"
  shows "(length out1 \<le> max_pkts \<and> (\<exists>new. (new = arrived1 \<or> new = []) \<and> out1 @ ring' = ring @ new) \<and>
      xq_fill (interface_recv_release_single_queue iface room queue_idx (map (unat \<circ> fst) out1) q) =
        xq_fill q @ map (unat \<circ> fst) (given_back room out1)) \<and>
    (length out \<le> max_pkts \<and> (\<exists>new. (new = arrived \<or> new = replicate (length rings) []) \<and>
      (\<forall>p < length rings. from_queue p out @ map fst (rings' ! p) = map fst (rings ! p @ new ! p) \<and>
         interface_recv_release room 0 (map fst out) fills ! p = fills ! p @ from_queue p (given_back room out))))"
proof
  have "xq_fill (release_frames room 0 (map (unat \<circ> fst) out1) q) = xq_fill q @ map (unat \<circ> fst) (given_back room out1)"
    using release_frames_law [of room 0 "map (unat \<circ> fst) out1" q] by (simp add: nths_map given_back_def)
  then show "length out1 \<le> max_pkts \<and> (\<exists>new. (new = arrived1 \<or> new = []) \<and> out1 @ ring' = ring @ new) \<and>
      xq_fill (interface_recv_release_single_queue iface room queue_idx (map (unat \<circ> fst) out1) q) =
        xq_fill q @ map (unat \<circ> fst) (given_back room out1)"
    using single_queue_law [OF assms(3,1)] assms(1,2) by (simp add: interface_recv_release_single_queue_def)
next
  have "interface_recv_release room 0 (map fst out) fills ! p = fills ! p @ from_queue p (given_back room out)" if "p < length rings" for p
    using release_law [of p fills room 0 "map fst out"] that assms(7) by (simp add: from_queue_def nths_map given_back_def)
  then show "length out \<le> max_pkts \<and> (\<exists>new. (new = arrived \<or> new = replicate (length rings) []) \<and>
      (\<forall>p < length rings. from_queue p out @ map fst (rings' ! p) = map fst (rings ! p @ new ! p) \<and>
         interface_recv_release room 0 (map fst out) fills ! p = fills ! p @ from_queue p (given_back room out)))"
    using interface_recv_law [OF assms(4,5,6,8)] by blast
qed

text \<open>When an entry is to be had for every frame, nothing is lost between the receive rings and the fill rings.\<close>

lemma all_frames_return:
  assumes "rings_ok rings" "rings_ok arrived" "length arrived = length rings" "length fills = length rings"
    and "interface_recv poll_ok pollin arrived max_pkts current rings = (out, current', rings')"
    and "\<forall>i < length out. room i 0 \<or> room i 1"
  shows "\<exists>new. (new = arrived \<or> new = replicate (length rings) []) \<and>
    (\<forall>q < length rings. interface_recv_release room 0 (map fst out) fills ! q @ map fst (rings' ! q) =
       fills ! q @ map fst (rings ! q @ new ! q))"
proof -
  have "nths (map fst out) {i. room i 0 \<or> room i 1} = map fst out"
    using given_back_all [of "map fst out" room] assms(6) by (simp add: given_back_def)
  then have r: "interface_recv_release room 0 (map fst out) fills ! q = fills ! q @ from_queue q out" if "q < length rings" for q
    using release_law [of q fills room 0 "map fst out"] that assms(4) by (simp add: from_queue_def)
  show ?thesis using interface_recv_law [OF assms(1-3,5)] r by (metis append.assoc)
qed

section \<open>The other senders keep to the transmit frames\<close>

text \<open>One frame was added to the transmit ring: it lies behind the receive frames and inside the UMEM, holds the packet with the
  given addresses, and nothing else has changed.\<close>

definition frame_added :: "xsk_interface \<Rightarrow> u8 list \<Rightarrow> u8 list \<Rightarrow> buf \<Rightarrow> nat \<Rightarrow> xsk_queue \<Rightarrow> xsk_queue \<Rightarrow> bool" where
  "frame_added iface d s pkt n q q' \<longleftrightarrow> (\<exists>addr. xq_tx q' = xq_tx q @ [(addr, n)] \<and>
     xi_ring_size iface * xi_frame_size iface \<le> addr \<and> addr + xi_frame_size iface \<le> xi_umem_size iface \<and>
     take n (drop addr (xq_bufs q')) = wire_frame d s (take n pkt) \<and>
     take addr (xq_bufs q') = take addr (xq_bufs q) \<and> drop (addr + n) (xq_bufs q') = drop (addr + n) (xq_bufs q) \<and>
     xq_fill q' = xq_fill q)"

lemma put_frame_added:
  assumes "iface_ok iface q" "14 \<le> n" "n \<le> xi_frame_size iface" "n \<le> length pkt" "length d = 6" "length s = 6"
    and "xi_ring_size iface * xi_frame_size iface \<le> addr" "addr + xi_frame_size iface \<le> xi_umem_size iface"
  shows "\<exists>q'. put_frame d s (Some addr) pkt n q = Some q' \<and> frame_added iface d s pkt n q q'"
proof -
  have l: "addr + n \<le> length (xq_bufs q)" using assms(1,3,8) by (simp add: iface_ok_def)
  have w: "wrn (xq_bufs q) addr (take n pkt) = Some (take addr (xq_bufs q) @ take n pkt @ drop (addr + n) (xq_bufs q))"
    using l assms(4) by (simp add: wrn_def)
  have e: "eth_rewrite d s addr (take addr (xq_bufs q) @ take n pkt @ drop (addr + n) (xq_bufs q))
      = Some (take addr (xq_bufs q) @ wire_frame d s (take n pkt) @ drop (addr + n) (xq_bufs q))"
    by (rule eth_rewrite_mid) (use assms l in simp_all)
  define q' where "q' = q\<lparr> xq_bufs := take addr (xq_bufs q) @ wire_frame d s (take n pkt) @ drop (addr + n) (xq_bufs q),
      xq_tx := xq_tx q @ [(addr, n)], xq_slot := xq_slot q + 1 \<rparr>"
  have "put_frame d s (Some addr) pkt n q = Some q'" using assms(4) by (simp add: put_frame_def w e q'_def)
  moreover have "length (wire_frame d s (take n pkt)) = n" using assms(4-6) by (simp add: wire_frame_length)
  then have "frame_added iface d s pkt n q q'" using assms(7,8) l by (simp add: frame_added_def q'_def)
  ultimately show ?thesis by blast
qed

lemma ring_addr_range:
  assumes "iface_ok iface q"
  obtains addr where "ring_addr iface slot = Some addr" "xi_ring_size iface * xi_frame_size iface \<le> addr"
    "addr + xi_frame_size iface \<le> xi_umem_size iface"
proof -
  let ?i = "unat slot mod xi_ring_size iface"
  have "?i + xi_ring_size iface + 1 \<le> 2 * xi_ring_size iface" using assms by (simp add: iface_ok_def Suc_leI)
  then have "(?i + xi_ring_size iface + 1) * xi_frame_size iface \<le> 2 * xi_ring_size iface * xi_frame_size iface" by (rule mult_le_mono1)
  then have "(?i + xi_ring_size iface) * xi_frame_size iface + xi_frame_size iface \<le> xi_umem_size iface"
    using assms by (simp add: iface_ok_def algebra_simps)
  then show ?thesis using assms by (intro that [of "(?i + xi_ring_size iface) * xi_frame_size iface"]) (simp_all add: ring_addr_def iface_ok_def)
qed

lemma half_addr_range:
  assumes "iface_ok iface q"
  obtains addr where "half_addr iface slot = Some addr" "xi_ring_size iface * xi_frame_size iface \<le> addr"
    "addr + xi_frame_size iface \<le> xi_umem_size iface"
proof -
  have "half_addr iface slot = Some ((unat slot mod tx_slots iface + tx_slots iface) * xi_frame_size iface)"
    using tx_addr_eq [OF assms] by (simp add: half_addr_def tx_addr_def)
  moreover have "xi_ring_size iface * xi_frame_size iface \<le> (unat slot mod tx_slots iface + tx_slots iface) * xi_frame_size iface"
    using iface_slots(1) [OF assms] by (intro mult_le_mono1) simp
  ultimately show ?thesis using tx_frame_inside [OF assms, of "unat slot mod tx_slots iface"] iface_slots(2) [OF assms]
    by (intro that) auto
qed

lemma kick_simps [simp]:
  "iface_ok iface (kick q) = iface_ok iface q" "iface_ok iface (kick_pending q) = iface_ok iface q"
  "xq_slot (kick q) = xq_slot q" "xq_slot (kick_pending q) = xq_slot q"
  "frame_added iface d s pkt n (kick q) q' = frame_added iface d s pkt n q q'"
  "frame_added iface d s pkt n (kick_pending q) q' = frame_added iface d s pkt n q q'"
  "frame_added iface d s pkt n q (kick q') = frame_added iface d s pkt n q q'"
  "frame_added iface d s pkt n q (count_pending b q') = frame_added iface d s pkt n q q'"
  "xq_bufs (kick q) = xq_bufs q" "xq_bufs (kick_pending q) = xq_bufs q" "xq_tx (kick q) = xq_tx q" "xq_tx (kick_pending q) = xq_tx q"
  by (simp_all add: kick_def kick_pending_def count_pending_def frame_added_def iface_ok_def Let_def)

text \<open>What a sender may do: add one frame and report success, or fail without touching the UMEM.\<close>

definition sends_or_fails :: "xsk_interface \<Rightarrow> u8 list \<Rightarrow> u8 list \<Rightarrow> buf \<Rightarrow> nat \<Rightarrow> xsk_queue \<Rightarrow> (int \<times> xsk_queue) option \<Rightarrow> bool" where
  "sends_or_fails iface d s pkt n q res \<longleftrightarrow> (\<exists>rc q'. res = Some (rc, q') \<and>
     (rc = 0 \<and> frame_added iface d s pkt n q q' \<or> rc = -1 \<and> xq_bufs q' = xq_bufs q \<and> xq_tx q' = xq_tx q))"

text \<open>None of the other senders writes outside the transmit frames: each adds one frame behind those of the receive ring, or
  fails and leaves the UMEM as it was.\<close>

lemma senders_isolated:
  assumes "iface_ok iface q" "14 \<le> n" "n \<le> xi_frame_size iface" "n \<le> length pkt"
    and "length (lc_dst_mac cfg) = 6" "length (lc_src_mac cfg) = 6"
  shows "sends_or_fails iface (xi_dst_mac iface) (xi_src_mac iface) pkt n q (interface_send iface room pkt n q) \<and>
    sends_or_fails iface (xi_dst_mac iface) (xi_src_mac iface) pkt n q (interface_send_batch iface room pkt n q) \<and>
    sends_or_fails iface (lc_dst_mac cfg) (lc_src_mac cfg) pkt n q (interface_send_to_local iface room cfg pkt n q) \<and>
    sends_or_fails iface (lc_dst_mac cfg) (lc_src_mac cfg) pkt n q (interface_send_to_local_batch iface room cfg pkt n q)"
proof -
  have m: "length (xi_dst_mac iface) = 6" "length (xi_src_mac iface) = 6" using assms(1) by (simp_all add: iface_ok_def)
  obtain a where a: "ring_addr iface (xq_slot q) = Some a" "xi_ring_size iface * xi_frame_size iface \<le> a" "a + xi_frame_size iface \<le> xi_umem_size iface"
    by (rule ring_addr_range [OF assms(1)])
  obtain b where b: "half_addr iface (xq_slot q) = Some b" "xi_ring_size iface * xi_frame_size iface \<le> b" "b + xi_frame_size iface \<le> xi_umem_size iface"
    by (rule half_addr_range [OF assms(1)])
  have put: "\<exists>q'. put_frame d s (Some x) pkt n p = Some q' \<and> frame_added iface d s pkt n p q'"
    if "x = a \<or> x = b" "iface_ok iface p" "length d = 6" "length s = 6" for x d s p
    using put_frame_added [OF that(2) assms(2-4) that(3,4)] that(1) a b by blast
  have 1: "sends_or_fails iface (xi_dst_mac iface) (xi_src_mac iface) pkt n q (interface_send iface room pkt n q)"
    using put [of a "if room 0 then q else kick q", OF _ _ m] assms(1) a(1)
    by (auto simp: sends_or_fails_def interface_send_def Let_def split: if_splits)
  have 2: "sends_or_fails iface (xi_dst_mac iface) (xi_src_mac iface) pkt n q (interface_send_batch iface room pkt n q)"
    using put [of a "if room 0 then q else kick_pending q", OF _ _ m] assms(1) a(1)
    by (auto simp: sends_or_fails_def interface_send_batch_def Let_def split: if_splits)
  have 3: "sends_or_fails iface (lc_dst_mac cfg) (lc_src_mac cfg) pkt n q (interface_send_to_local iface room cfg pkt n q)"
    using put [of b "if room 0 then q else kick q", OF _ _ assms(5,6)] assms(1) b(1)
    by (auto simp: sends_or_fails_def interface_send_to_local_def Let_def split: if_splits)
  have 4: "sends_or_fails iface (lc_dst_mac cfg) (lc_src_mac cfg) pkt n q (interface_send_to_local_batch iface room cfg pkt n q)"
    using put [of a "if room 0 then q else kick_pending q", OF _ _ assms(5,6)] assms(1) a(1)
    by (auto simp: sends_or_fails_def interface_send_to_local_batch_def Let_def split: if_splits)
  show ?thesis using 1 2 3 4 by blast
qed

section \<open>Instances\<close>

definition sample_rings :: "desc list list" where
  "sample_rings = [[(0, 60), (4096, 60)], [(8192, 64)]]"

text \<open>The first frame gets its entry at the second attempt, the second frame gets none.\<close>

definition sample_room :: "nat \<Rightarrow> nat \<Rightarrow> bool" where
  "sample_room i k \<longleftrightarrow> i = 0 \<and> k = 1"

theorem received_frames_return_witness:
  "xq_fill (interface_recv_release_single_queue sample_iface sample_room 0
      (map (unat \<circ> fst) (fst (interface_recv_single_queue 1 0 True [] 2 (sample_rings ! 0)))) sample_queue) = [0, 64, 0] \<and>
   interface_recv True (\<lambda>_. True) [[], []] 2 1 sample_rings =
     ([(ADDR_ENCODE 1 8192, 64), (ADDR_ENCODE 0 0, 60)], 0, [[(4096, 60)], []]) \<and>
   interface_recv_release sample_room 0 [ADDR_ENCODE 1 8192, ADDR_ENCODE 0 0] [[], []] ! 1 = [8192] \<and>
   interface_recv_release sample_room 0 [ADDR_ENCODE 1 8192, ADDR_ENCODE 0 0] [[], []] ! 0 = []"
proof -
  let ?out = "[(ADDR_ENCODE 1 8192, 64), (ADDR_ENCODE 0 0, 60)]"
  have s: "interface_recv_single_queue 1 0 True [] 2 (sample_rings ! 0) = ([(0, 60), (4096, 60)], [])"
    by (simp add: interface_recv_single_queue_def sample_rings_def)
  have r: "interface_recv True (\<lambda>_. True) [[], []] 2 1 sample_rings = (?out, 0, [[(4096, 60)], []])"
    by (simp add: interface_recv_def sample_rings_def numeral_2_eq_2)
  have ok: "rings_ok sample_rings" "rings_ok [[], []]" by (simp_all add: rings_ok_def sample_rings_def)
  have gb: "given_back sample_room [a, b] = [a]" for a b :: "u64 \<times> nat"
    by (simp add: given_back_def sample_room_def nths_Cons)
  have enc: "ADDR_QUEUE (ADDR_ENCODE 1 8192) = 1" "ADDR_OFFSET (ADDR_ENCODE 1 8192) = 8192" by (simp_all add: addr_roundtrip)
  note props = received_frames_return [OF _ _ s ok, where fills = "[[], []]" and iface = sample_iface and q = sample_queue
      and room = sample_room, OF _ _ _ _ r]
  show ?thesis
    using props s r enc by (simp add: sample_iface_def sample_queue_def sample_rings_def gb from_queue_def All_less_Suc numeral_2_eq_2)
qed

end
