(* ===== verification/Diag.thy ===== *)
theory Diag
  imports PeerMac CPrint DbLoaded
begin

text \<open>
  \<open>src/core/main_diag.c\<close>: what the program logs about the configuration it has loaded and about the addresses of its links.
  Also the TCP diagnostics of \<open>src/core/forwarder.c\<close>, \<open>run_db_check\<close> of \<open>src/db/db_runtime.c\<close>, and the line of
  \<open>src/core/bridge_mac.c\<close> about a peer. A function that prints yields the text that it writes to the standard error. The buffers of \<open>snprintf\<close> have the
  sizes of the code.
\<close>

section \<open>Fields\<close>

definition policy_action_name :: "int \<Rightarrow> string" where
  "policy_action_name action =
     (if action = POLICY_ACTION_BYPASS then ''bypass''
      else if action = POLICY_ACTION_ENCRYPT_L2 then ''L2''
      else if action = POLICY_ACTION_ENCRYPT_L3 then ''L3''
      else if action = POLICY_ACTION_ENCRYPT_L4 then ''L4''
      else ''?'')"

definition policy_proto_str :: "u8 \<Rightarrow> string" where
  "policy_proto_str proto =
     (if proto = POLICY_PROTO_ANY then ''any''
      else if proto = 6 then ''tcp''
      else if proto = 17 then ''udp''
      else if proto = 1 then ''icmp''
      else snprintf 16 (''proto'' @ show_u proto))"

definition crypto_mode_str :: "int \<Rightarrow> string" where
  "crypto_mode_str mode = (if mode = CRYPTO_MODE_GCM then ''gcm'' else ''ctr'')"

text \<open>The loop of \<open>ipv4_netmask_to_prefix\<close>: while the highest bit is set, the mask moves to the left.\<close>

lemma top_bit: "(m :: u32) AND 0x80000000 \<noteq> 0 \<longleftrightarrow> bit m 31"
proof -
  have "(0x80000000 :: u32) = 2 ^ 31" by simp
  then show ?thesis by (simp only: and_exp_eq_0_iff_not_bit not_not)
qed

lemma shift_decreases:
  assumes "(m :: u32) AND 0x80000000 \<noteq> 0"
  shows "unat (push_bit 1 m) < unat m"
proof -
  have "bit (unat m) 31" using assms unfolding top_bit by (simp add: bit_unsigned_iff)
  then have "odd (unat m div 2 ^ 31)" unfolding bit_iff_odd .
  then have "2 ^ 31 \<le> unat m" by (metis div_less even_zero not_le)
  moreover have "unat m < 2 ^ 32" using unsigned_less [of m, where ?'a = nat] by simp
  moreover have "unat (push_bit 1 m) = (2 * unat m) mod 2 ^ 32"
    by (simp add: push_bit_eq_mult unat_word_ariths mult.commute)
  moreover have "(2 * unat m) mod 2 ^ 32 = 2 * unat m - 2 ^ 32"
    using calculation(1,2) by (simp add: le_mod_geq)
  ultimately show ?thesis by simp
qed

function netmask_bits :: "u32 \<Rightarrow> nat \<Rightarrow> nat" where
  "netmask_bits m p = (if m AND 0x80000000 \<noteq> 0 then netmask_bits (push_bit 1 m) (p + 1) else p)"
  by auto
termination by (relation "measure (unat \<circ> fst)") (simp, simp only: in_measure comp_def fst_conv, rule shift_decreases)

declare netmask_bits.simps [simp del]

definition ipv4_netmask_to_prefix :: "u32 \<Rightarrow> nat" where
  "ipv4_netmask_to_prefix mask_be = netmask_bits (htonl mask_be) 0"

definition ipv4_format_cidr :: "nat \<Rightarrow> u32 \<Rightarrow> u32 \<Rightarrow> string" where
  "ipv4_format_cidr outsz net_be mask_be =
     snprintf outsz (inet_ntop net_be @ CHR ''/'' # show_nat (ipv4_netmask_to_prefix mask_be))"

definition policy_port_str :: "nat \<Rightarrow> int \<Rightarrow> int \<Rightarrow> string" where
  "policy_port_str outsz from_port to_port =
     (if from_port < 0 \<or> to_port < 0 then snprintf outsz ''any''
      else if from_port = to_port then snprintf outsz (show_int from_port)
      else snprintf outsz (show_int from_port @ CHR ''-'' # show_int to_port))"

definition policy_cidr_field :: "nat \<Rightarrow> bool \<Rightarrow> bool \<Rightarrow> u32 \<Rightarrow> u32 \<Rightarrow> string" where
  "policy_cidr_field outsz is_any negate net_be mask_be =
     (if is_any then snprintf outsz ''any''
      else let cidr = ipv4_format_cidr 48 net_be mask_be in
        if negate then snprintf outsz (CHR ''!'' # cidr) else snprintf outsz cidr)"

definition fmt_mac :: "nat \<Rightarrow> u8 list \<Rightarrow> string" where
  "fmt_mac outsz mac =
     (if \<forall>b \<in> set mac. b = 0 then snprintf outsz ''(none)'' else snprintf outsz (show_mac mac))"

section \<open>Output\<close>

text \<open>The elements of a list with commas between them.\<close>

fun comma_list :: "string list \<Rightarrow> string" where
  "comma_list [] = []"
| "comma_list [x] = x"
| "comma_list (x # y # xs) = x @ '', '' @ comma_list (y # xs)"

definition log_interface_names :: "app_config \<Rightarrow> string" where
  "log_interface_names cfg =
     ''[WAN] '' @ comma_list (map wc_ifname (ac_wans cfg)) @ [newline] @
     ''[LAN] '' @ comma_list (map lc_ifname (ac_locals cfg)) @ [newline]"

definition log_wan_peer_macs :: "app_config \<Rightarrow> string" where
  "log_wan_peer_macs cfg =
     concat (map (\<lambda>w. ''[WAN] '' @ wc_ifname w @ '' peer_mac='' @ fmt_mac 32 (wc_dst_mac w) @ [newline]) (ac_wans cfg))"

definition log_local_peer_macs :: "app_config \<Rightarrow> string" where
  "log_local_peer_macs cfg =
     concat (map (\<lambda>l. ''[LAN] '' @ lc_ifname l @ '' peer_mac='' @ fmt_mac 32 (lc_dst_mac l) @ [newline]) (ac_locals cfg))"

text \<open>The filters of a policy as they are printed: protocol, source and destination network, source and destination port.\<close>

definition filter_text :: "crypto_policy \<Rightarrow> string" where
  "filter_text cp =
     policy_proto_str (cp_protocol cp) @
     ''  src='' @ policy_cidr_field 72 (cp_src_any cp) (cp_src_negate cp) (cp_src_net cp) (cp_src_mask cp) @
     '' dst='' @ policy_cidr_field 72 (cp_dst_any cp) (cp_dst_negate cp) (cp_dst_net cp) (cp_dst_mask cp) @
     ''  sport='' @ policy_port_str 24 (cp_src_port_from cp) (cp_src_port_to cp) @
     '' dport='' @ policy_port_str 24 (cp_dst_port_from cp) (cp_dst_port_to cp) @ [newline]"

definition policy_text :: "crypto_policy \<Rightarrow> string" where
  "policy_text cp =
     (if cp_action cp = POLICY_ACTION_BYPASS then
        ''  policy db_id='' @ show_int (cp_db_id cp) @ '' prio='' @ show_int (cp_priority cp) @ '' bypass  '' @ filter_text cp
      else
        ''  policy db_id='' @ show_int (cp_db_id cp) @ '' wire_id='' @ show_int (cp_id cp) @
        '' prio='' @ show_int (cp_priority cp) @ '' '' @ policy_action_name (cp_action cp) @ ''  '' @
        crypto_mode_str (cp_crypto_mode cp) @ ''-'' @ show_u (word_of_int (cp_aes_bits cp) :: u32) @
        '' nonce='' @ show_int (cp_nonce_size cp) @ [newline] @
        ''    match: '' @ filter_text cp)"

definition profile_text :: "app_config \<Rightarrow> profile_config \<Rightarrow> string" where
  "profile_text cfg p =
     ''[PROFILE] id='' @ show_int (pf_id p) @ '' name='' @ [CHR 0x22] @ pf_name p @ [CHR 0x22, newline] @
     concat (map (\<lambda>pix. if pix < 0 \<or> pix \<ge> int (length (ac_policies cfg)) then []
                        else policy_text (ac_policies cfg ! nat pix)) (pf_policy_indices p))"

definition log_profile_policies :: "app_config \<Rightarrow> string" where
  "log_profile_policies cfg = concat (map (profile_text cfg) (ac_profiles cfg))"

definition main_diag_log_loaded_config :: "app_config option \<Rightarrow> string" where
  "main_diag_log_loaded_config cfg =
     (case cfg of None \<Rightarrow> [] | Some cfg \<Rightarrow> log_interface_names cfg @ log_profile_policies cfg)"

definition main_diag_log_link_macs :: "app_config option \<Rightarrow> string" where
  "main_diag_log_link_macs cfg =
     (case cfg of None \<Rightarrow> [] | Some cfg \<Rightarrow> log_wan_peer_macs cfg @ log_local_peer_macs cfg)"

section \<open>The TCP diagnostics of the forwarder\<close>

text \<open>The texts of \<open>log_tcp_diag_*\<close> in \<open>src/core/forwarder.c\<close>; \<open>enabled\<close> is the environment variable that turns them on. There the
  action has another name, and a packet without policy prints \<open>-1\<close> and \<open>none\<close>.\<close>

definition fwd_policy_action_name :: "int \<Rightarrow> string" where
  "fwd_policy_action_name action =
     (if action = POLICY_ACTION_BYPASS then ''bypass''
      else if action = POLICY_ACTION_ENCRYPT_L2 then ''enc_l2''
      else if action = POLICY_ACTION_ENCRYPT_L3 then ''enc_l3''
      else if action = POLICY_ACTION_ENCRYPT_L4 then ''enc_l4''
      else ''unknown'')"

definition endpoints_text :: "string \<Rightarrow> u32 \<Rightarrow> u16 \<Rightarrow> u32 \<Rightarrow> u16 \<Rightarrow> string" where
  "endpoints_text tag src_ip src_port dst_ip dst_port =
     ''[TCP-DIAG]['' @ tag @ ''] '' @ inet_ntop src_ip @ CHR '':'' # show_u src_port @ '' -> '' @
     inet_ntop dst_ip @ CHR '':'' # show_u dst_port"

definition log_tcp_diag_policy_select ::
  "bool \<Rightarrow> string \<Rightarrow> u32 \<Rightarrow> u16 \<Rightarrow> u32 \<Rightarrow> u16 \<Rightarrow> crypto_policy option \<Rightarrow> bool \<Rightarrow> string" where
  "log_tcp_diag_policy_select enabled tag src_ip src_port dst_ip dst_port cp bypass_crypto =
     (if \<not> enabled then []
      else endpoints_text tag src_ip src_port dst_ip dst_port @
        '' policy_id='' @ show_int (case cp of None \<Rightarrow> -1 | Some p \<Rightarrow> cp_id p) @
        '' action='' @ (case cp of None \<Rightarrow> ''none'' | Some p \<Rightarrow> fwd_policy_action_name (cp_action p)) @
        '' bypass='' @ show_int (of_bool bypass_crypto) @ [newline])"

definition log_tcp_diag_decrypt ::
  "bool \<Rightarrow> string \<Rightarrow> u32 \<Rightarrow> u16 \<Rightarrow> u32 \<Rightarrow> u16 \<Rightarrow> int \<Rightarrow> int \<Rightarrow> int \<Rightarrow> int \<Rightarrow> int \<Rightarrow> int \<Rightarrow> int \<Rightarrow> string" where
  "log_tcp_diag_decrypt enabled tag src_ip src_port dst_ip dst_port action_layer l3_extract_ok l3_policy_id
       l4_extract_ok l4_policy_id l4_nonce decrypt_rc =
     (if \<not> enabled then []
      else endpoints_text tag src_ip src_port dst_ip dst_port @
        '' action='' @ fwd_policy_action_name action_layer @ '' rc='' @ show_int decrypt_rc @
        '' l3_ok='' @ show_int l3_extract_ok @ '' l3_pid='' @ show_int l3_policy_id @
        '' l4_ok='' @ show_int l4_extract_ok @ '' l4_pid='' @ show_int l4_policy_id @
        '' l4_nonce='' @ show_int l4_nonce @ [newline])"

definition log_tcp_diag_decrypt_len ::
  "bool \<Rightarrow> string \<Rightarrow> u32 \<Rightarrow> u16 \<Rightarrow> u32 \<Rightarrow> u16 \<Rightarrow> u32 \<Rightarrow> u32 \<Rightarrow> int \<Rightarrow> u8 \<Rightarrow> u16 \<Rightarrow> u16 \<Rightarrow> string" where
  "log_tcp_diag_decrypt_len enabled tag src_ip src_port dst_ip dst_port old_len new_len post_parse_ok post_proto post_sport post_dport =
     (if \<not> enabled then []
      else endpoints_text tag src_ip src_port dst_ip dst_port @
        '' len='' @ show_u old_len @ ''->'' @ show_u new_len @ '' post_parse='' @ show_int post_parse_ok @
        '' post_proto='' @ show_u post_proto @ '' post_ports='' @ show_u post_sport @ CHR ''/'' # show_u post_dport @ [newline])"

section \<open>The check of the database\<close>

text \<open>\<open>run_db_check\<close> of \<open>src/db/db_runtime.c\<close>: the condition on the id, the C value, the standard output and the standard error. A
  query that fails is \<open>None\<close>; \<open>err\<close> is the message of libpq.\<close>

definition check_where :: "int \<Rightarrow> string" where
  "check_where only_id = (if only_id \<ge> 0 then snprintf 64 (''WHERE p.id = '' @ show_int only_id) else [])"

definition summary_line :: "string \<times> string \<times> string \<times> string \<Rightarrow> string" where
  "summary_line r = (case r of (i, pol, lan, wan) \<Rightarrow>
     ''  profile_id='' @ i @ '' policies='' @ pol @ '' lan='' @ lan @ '' wan='' @ wan @ [newline])"

definition duplicate_line :: "string \<times> string \<Rightarrow> string" where
  "duplicate_line r = ''  id='' @ fst r @ '' count='' @ snd r @ [newline]"

definition run_db_check ::
  "bool \<Rightarrow> string \<Rightarrow> int \<Rightarrow> (string \<Rightarrow> (string \<times> string \<times> string \<times> string) list option) \<Rightarrow> (string \<times> string) list option
     \<Rightarrow> int \<times> string \<times> string" where
  "run_db_check connected err only_id summary duplicates =
     (if \<not> connected then (1, [], ''[CHECK] DB connection failed: '' @ err)
      else case summary (check_where only_id) of
        None \<Rightarrow> (1, [], ''[CHECK] summary query failed: '' @ err)
      | Some rows \<Rightarrow>
          if rows = [] then
            (1, [], ''[CHECK] no ne_profiles row'' @ (if only_id \<ge> 0 then '' for requested id'' else []) @ [newline])
          else
            let out = ''[CHECK] NE profile summary (ne_profiles / ne_lan / ne_wan / ne_policies):'' @ [newline] @
                      concat (map summary_line rows)
            in case duplicates of
              None \<Rightarrow> (1, out, ''[CHECK] duplicate ne_policies.id query failed: '' @ err)
            | Some ds \<Rightarrow>
                (0, out @ (if ds \<noteq> [] then ''[CHECK][WARN] duplicated ne_policies.id:'' @ [newline] @ concat (map duplicate_line ds)
                           else ''[CHECK] ne_policies.id uniqueness: OK'' @ [newline]), []))"

section \<open>The peers of the bridge\<close>

text \<open>\<open>src/core/bridge_mac.c\<close>; \<open>hw\<close> is the answer to \<open>SIOCGIFHWADDR\<close> with the type of the hardware.\<close>

definition read_local_iface_hwaddr :: "bool \<Rightarrow> (u16 \<times> u8 list) option \<Rightarrow> u8 list option" where
  "read_local_iface_hwaddr sock hw =
     (if \<not> sock then None
      else case hw of None \<Rightarrow> None | Some (family, mac) \<Rightarrow> if family \<noteq> 1 then None else Some mac)"

definition log_local_peer_mac :: "string \<Rightarrow> u8 list option \<Rightarrow> u8 list \<Rightarrow> string" where
  "log_local_peer_mac ifname loc peer =
     (case loc of
        Some m \<Rightarrow> ''[LOCAL-MAC] '' @ ifname @ '' local '' @ show_mac m @ '' peer '' @ show_mac peer @ [newline]
      | None \<Rightarrow> ''[LOCAL-MAC] '' @ ifname @ '' peer '' @ show_mac peer @ [newline])"

section \<open>Masks and prefix lengths\<close>

lemma nat_and_Suc_pow: "(x :: nat) AND (x + 1) = 0 \<Longrightarrow> \<exists>n. x + 1 = 2 ^ n"
proof (induction x rule: less_induct)
  case (less x)
  consider "x = 0" | y where "x = 2 * y" "0 < y" | y where "x = 2 * y + 1" by (metis oddE evenE gr0I mult_0_right)
  then show ?case
  proof cases
    case 1
    then show ?thesis by (intro exI [of _ 0]) simp
  next
    case (2 y)
    have "(2 * y) AND (2 * y + 1) = 2 * (y AND y)" by (subst and_rec) simp
    with less.prems 2 show ?thesis by simp
  next
    case (3 y)
    have "(2 * y + 1) AND (2 * y + 1 + 1) = 2 * (y AND (y + 1))" by (subst and_rec) simp
    then have "y AND (y + 1) = 0" "y < x" using less.prems 3 by simp_all
    with less.IH obtain n where "y + 1 = 2 ^ n" by blast
    then show ?thesis using 3 by (intro exI [of _ "Suc n"]) simp
  qed
qed

lemma contiguous_prefix:
  assumes "ipv4_mask_be_is_contiguous m"
  obtains n where "n \<le> 32" "htonl m = push_bit (32 - n) (- 1 :: u32)"
proof (cases "htonl m = 0")
  case True
  have "push_bit (32 - 0) (- 1 :: u32) = 0" by (rule bit_word_eqI) (simp add: bit_simps)
  with True show ?thesis by (intro that [of 0]) simp_all
next
  case False
  define w where "w = NOT (htonl m)"
  have w: "w AND (w + 1) = 0" using assms False by (simp add: ipv4_mask_be_is_contiguous_def w_def Let_def)
  have ne: "w \<noteq> - 1"
  proof
    assume "w = - 1"
    then have "NOT w = 0" by simp
    then show False using False by (simp add: w_def)
  qed
  have "unat w \<noteq> 4294967295"
  proof
    assume "unat w = 4294967295"
    then have "word_of_nat (unat w) = (4294967295 :: u32)" by simp
    then show False using ne by simp
  qed
  moreover have "unat w < 4294967296" using unsigned_less [of w, where ?'a = nat] by simp
  ultimately have u: "unat (w + 1) = unat w + 1" by (simp add: unat_word_ariths)
  have "unat w AND (unat w + 1) = 0" using arg_cong [OF w, of unat] by (simp add: unsigned_and_eq u)
  then obtain k where k: "unat w + 1 = 2 ^ k" using nat_and_Suc_pow by blast
  have "unat w + 1 < 2 ^ 32" using u unsigned_less [of "w + 1", where ?'a = nat] by simp
  then have k32: "k < 32" unfolding k by (metis power_less_imp_less_exp one_less_numeral_iff semiring_norm(76))
  have "w + 1 = word_of_nat (unat (w + 1))" by simp
  also have "\<dots> = 2 ^ k" unfolding u k by simp
  finally have "w + 1 = 2 ^ k" .
  then have "w = mask k" by (simp add: mask_eq_exp_minus_1 eq_diff_eq)
  then have "htonl m = NOT (mask k)" unfolding w_def by (metis bit.double_compl)
  also have "\<dots> = push_bit (32 - (32 - k)) (- 1)"
    using k32 by (simp add: push_bit_minus_one_eq_not_mask)
  finally show ?thesis by (intro that [of "32 - k"]) simp_all
qed

lemma netmask_bits_prefix: "n \<le> 32 \<Longrightarrow> netmask_bits (push_bit (32 - n) (- 1 :: u32)) p = p + n"
proof (induction n arbitrary: p)
  case 0
  have "push_bit 32 (- 1 :: u32) = 0" by (rule bit_word_eqI) (simp add: bit_simps)
  then show ?case by (simp add: netmask_bits.simps)
next
  case (Suc n)
  let ?m = "push_bit (32 - Suc n) (- 1 :: u32)"
  have "bit ?m 31" using Suc.prems by (simp add: bit_simps)
  then have "netmask_bits ?m p = netmask_bits (push_bit 1 ?m) (p + 1)" unfolding top_bit [symmetric] by (subst netmask_bits.simps) simp
  also have "push_bit 1 ?m = push_bit (1 + (32 - Suc n)) (- 1)" by (rule push_bit_push_bit)
  also have "1 + (32 - Suc n) = 32 - n" using Suc.prems by simp
  finally show ?case using Suc by simp
qed

lemma prefix_mask_push: "n \<le> 32 \<Longrightarrow> ipv4_prefix_to_mask_be (int n) = htonl (push_bit (32 - n) (- 1))"
proof -
  have z: "htonl 0 = 0" by (simp add: htonl_def)
  have e: "push_bit 32 (- 1 :: u32) = 0" by (rule bit_word_eqI) (simp add: bit_simps)
  assume "n \<le> 32"
  then consider "n = 0 \<or> n = 32" | "nat (32 - int n) = 32 - n" "0 < n" "n < 32" by linarith
  then show ?thesis
  proof cases
    case 1
    then show ?thesis using z e by (auto simp: ipv4_prefix_to_mask_be_def)
  next
    case 2
    then show ?thesis unfolding ipv4_prefix_to_mask_be_def all_ones by simp
  qed
qed

text \<open>The printed prefix length names the mask again.\<close>

lemma netmask_to_prefix_inverse:
  assumes "ipv4_mask_be_is_contiguous m"
  shows "ipv4_netmask_to_prefix m \<le> 32 \<and> ipv4_prefix_to_mask_be (int (ipv4_netmask_to_prefix m)) = m"
proof -
  obtain n where n: "n \<le> 32" "htonl m = push_bit (32 - n) (- 1 :: u32)" by (rule contiguous_prefix [OF assms])
  have p: "ipv4_netmask_to_prefix m = n" using netmask_bits_prefix [OF n(1), of 0] n(2) by (simp add: ipv4_netmask_to_prefix_def)
  have m: "m = htonl (push_bit (32 - n) (- 1))" using n(2) by (metis htonl_htonl)
  have "ipv4_prefix_to_mask_be (int n) = m" using m prefix_mask_push [OF n(1)] by simp
  with n(1) show ?thesis unfolding p by simp
qed

section \<open>The log names the filters\<close>

lemma printed_not_any:
  assumes "t = c # r" "is_digit c \<or> c = CHR ''!''"
  shows "\<not> str_is_any (Some t)" "skip_blanks t = t"
proof -
  have c: "\<not> is_blank c" "lower_char c \<noteq> CHR ''a''" "c \<noteq> CHR ''*''"
    using assms(2) by (auto simp: is_digit_def is_blank_def lower_char_def code_def)
  then show "skip_blanks t = t" by (simp add: assms(1) skip_blanks_def)
  moreover have "lower_char CHR ''a'' = CHR ''a''" by (simp add: lower_char_def code_def)
  ultimately show "\<not> str_is_any (Some t)" using c by (auto simp: str_is_any_def strcaseeq_def assms(1))
qed

lemma inet_ntop_Cons: obtains c r where "inet_ntop a = c # r" "is_digit c"
proof -
  obtain c r where c: "show_nat (unat (ucast a :: u8)) = c # r" "is_digit c"
    using show_nat_hd [of "unat (ucast a :: u8)"] by (cases "show_nat (unat (ucast a :: u8))") auto
  show ?thesis by (rule that [of c "drop 1 (inet_ntop a)"]) (use c in \<open>simp_all add: inet_ntop_def show_u_def\<close>)
qed

lemma show_nat_Cons: obtains c r where "show_nat n = c # r" "is_digit c"
  using show_nat_hd [of n] by (cases "show_nat n") auto

lemma length_show_nat_small: "n \<le> 32 \<Longrightarrow> length (show_nat n) \<le> 2"
  using length_show_nat [of n 2] by simp

lemma cidr_text_length: "p \<le> 32 \<Longrightarrow> length (inet_ntop net @ CHR ''/'' # show_nat p) \<le> 18"
  using length_inet_ntop [of net] length_show_nat_small [of p] by simp

lemma format_cidr_whole:
  assumes "ipv4_mask_be_is_contiguous m" "19 \<le> outsz"
  shows "ipv4_format_cidr outsz net m = inet_ntop net @ CHR ''/'' # show_nat (ipv4_netmask_to_prefix m)"
    "length (ipv4_format_cidr outsz net m) \<le> 18"
proof -
  note l = cidr_text_length [of "ipv4_netmask_to_prefix m" net]
  show f: "ipv4_format_cidr outsz net m = inet_ntop net @ CHR ''/'' # show_nat (ipv4_netmask_to_prefix m)"
    unfolding ipv4_format_cidr_def by (rule snprintf_fits) (use l netmask_to_prefix_inverse [OF assms(1)] assms(2) in linarith)
  show "length (ipv4_format_cidr outsz net m) \<le> 18"
    unfolding f using l netmask_to_prefix_inverse [OF assms(1)] by simp
qed

lemma slash_facts: "\<not> is_digit CHR ''/''" "CHR ''/'' \<noteq> CHR ''.''" "\<not> is_digit CHR ''.''"
  by (simp_all add: is_digit_def code_def)

lemma parse_printed_cidr:
  assumes "ipv4_mask_be_is_contiguous m"
  shows "parse_ip_cidr (inet_ntop net @ CHR ''/'' # show_nat (ipv4_netmask_to_prefix m)) = Some (net, m, net AND m)"
proof -
  let ?p = "ipv4_netmask_to_prefix m" and ?t = "inet_ntop net @ CHR ''/'' # show_nat (ipv4_netmask_to_prefix m)"
  note i = netmask_to_prefix_inverse [OF assms]
  have t: "take 127 ?t = ?t" by (rule take_all) (use cidr_text_length [of ?p net] i in linarith)
  have "CHR ''/'' \<notin> set (inet_ntop net)" using inet_ntop_chars [of "CHR ''/''" net] slash_facts by auto
  then have s: "before_char CHR ''/'' ?t = inet_ntop net" "after_char CHR ''/'' ?t = Some (show_nat ?p)"
    by (auto simp: before_char_def after_char_def takeWhile_append dropWhile_append)
  obtain c r where c: "inet_ntop net = c # r" "is_digit c" by (rule inet_ntop_Cons)
  obtain d q where d: "show_nat ?p = d # q" "is_digit d" by (rule show_nat_Cons)
  have b: "skip_blanks (inet_ntop net) = inet_ntop net" "skip_blanks (show_nat ?p) = show_nat ?p"
    using printed_not_any(2) [OF c(1)] printed_not_any(2) [OF d(1)] c(2) d(2) by simp_all
  have "CHR ''.'' \<notin> set (show_nat ?p)" using show_nat_chars [of "CHR ''.''" ?p] slash_facts by auto
  moreover have "scan_long (show_nat ?p) = Some (int ?p, [])"
    using scan_long_show [of "[]" ?p] i by (simp add: no_digit_next_def)
  ultimately have "parse_mask_suffix (show_nat ?p) = Some m" using i by (simp add: parse_mask_suffix_def)
  then show ?thesis unfolding parse_ip_cidr_def t Let_def s by (simp add: b inet_pton_ntop)
qed

text \<open>What the loader puts into the fields of a policy.\<close>

definition net_typed :: "bool \<Rightarrow> bool \<Rightarrow> u32 \<Rightarrow> u32 \<Rightarrow> bool" where
  "net_typed is_any neg net m \<longleftrightarrow>
     (if is_any then \<not> neg \<and> net = 0 \<and> m = 0 else ipv4_mask_be_is_contiguous m \<and> net AND m = net)"

definition ports_typed :: "int \<times> int \<Rightarrow> bool" where
  "ports_typed p \<longleftrightarrow> p = (-1, -1) \<or> (0 \<le> fst p \<and> fst p \<le> snd p \<and> snd p \<le> 65535)"

lemma any_text_parses: "parse_cidr_any_or_negated ''any'' = Some (True, False, 0, 0)" "parse_port_range ''any'' = Some (-1, -1)"
proof -
  have "str_is_any (Some ''any'')" by (simp add: str_is_any_def skip_blanks_def strcaseeq_def is_blank_def code_def)
  then show "parse_cidr_any_or_negated ''any'' = Some (True, False, 0, 0)" "parse_port_range ''any'' = Some (-1, -1)"
    by (simp_all add: parse_cidr_any_or_negated_def parse_port_range_def)
qed

lemma cidr_field_parses:
  assumes "net_typed a neg net m"
  shows "parse_cidr_any_or_negated (policy_cidr_field 72 a neg net m) = Some (a, neg, net, m)"
proof (cases a)
  case True
  then show ?thesis using assms by (simp add: policy_cidr_field_def net_typed_def snprintf_def any_text_parses)
next
  case False
  then have m: "ipv4_mask_be_is_contiguous m" "net AND m = net" using assms by (simp_all add: net_typed_def)
  let ?t = "inet_ntop net @ CHR ''/'' # show_nat (ipv4_netmask_to_prefix m)"
  note w = format_cidr_whole [OF m(1), of 48 net]
  obtain c r where c: "inet_ntop net = c # r" "is_digit c" by (rule inet_ntop_Cons)
  have n: "\<not> str_is_any (Some ?t)" "skip_blanks ?t = ?t" "c \<noteq> CHR ''!''"
    using printed_not_any [of ?t c] c by (auto simp: is_digit_def code_def)
  have x: "\<not> str_is_any (Some (CHR ''!'' # ?t))" "skip_blanks (CHR ''!'' # ?t) = CHR ''!'' # ?t"
    using printed_not_any [of "CHR ''!'' # ?t"] by simp_all
  show ?thesis
  proof (cases neg)
    case True
    then have f: "policy_cidr_field 72 a neg net m = CHR ''!'' # ?t" using w False by (simp add: policy_cidr_field_def snprintf_def)
    show ?thesis unfolding f by (simp add: parse_cidr_any_or_negated_def x n(2) parse_printed_cidr [OF m(1)] m(2) True False)
  next
    case neg: False
    then have f: "policy_cidr_field 72 a neg net m = ?t" using w False by (simp add: policy_cidr_field_def snprintf_def)
    have "hd ?t \<noteq> CHR ''!''" using c n(3) by simp
    then show ?thesis unfolding f using parse_printed_cidr [OF m(1), of net]
      by (simp add: parse_cidr_any_or_negated_def n(1,2) m(2) neg False)
  qed
qed

lemma port_field_parses:
  assumes "ports_typed (a, b)"
  shows "parse_port_range (policy_port_str 24 a b) = Some (a, b)"
proof (cases "a < 0")
  case True
  then show ?thesis using assms by (auto simp: ports_typed_def policy_port_str_def snprintf_def any_text_parses)
next
  case False
  then have ab: "0 \<le> a" "a \<le> b" "b \<le> 65535" using assms by (auto simp: ports_typed_def)
  obtain n where n: "a = int n" using ab(1) nonneg_int_cases by blast
  obtain k where k: "b = int k" using ab nonneg_int_cases [of b] by auto
  obtain c r where c: "show_nat n = c # r" "is_digit c" by (rule show_nat_Cons)
  have l: "length (show_nat n) \<le> 5" "length (show_nat k) \<le> 5" using ab length_show_nat [of n 5] length_show_nat [of k 5] by (simp_all add: n k)
  have small: "c_int (int n) = int n" "c_int (int k) = int k" using ab by (simp_all add: n k c_int_def)
  show ?thesis
  proof (cases "a = b")
    case True
    then have f: "policy_port_str 24 a b = show_nat n" using l by (simp add: policy_port_str_def show_int_def n snprintf_def flip: True)
    have "scan_long (show_nat n) = Some (int n, [])" using scan_long_show [of "[]" n] ab by (simp add: no_digit_next_def n)
    then show ?thesis unfolding f using printed_not_any(1) [OF c(1)] c(2) ab True
      by (simp add: parse_port_range_def scan_d_def small expect_def n k)
  next
    case False
    then have f: "policy_port_str 24 a b = show_nat n @ CHR ''-'' # show_nat k"
      using l by (simp add: policy_port_str_def show_int_def n k snprintf_def)
    have "no_digit_next (CHR ''-'' # show_nat k)" by (simp add: no_digit_next_def is_digit_def)
    then have s: "scan_long (show_nat n @ CHR ''-'' # show_nat k) = Some (int n, CHR ''-'' # show_nat k)" "scan_long (show_nat k) = Some (int k, [])"
      using scan_long_show [of _ n] scan_long_show [of "[]" k] ab by (simp_all add: no_digit_next_def n k)
    have "\<not> str_is_any (Some (show_nat n @ CHR ''-'' # show_nat k))" using printed_not_any(1) [of _ c] c by simp
    then show ?thesis unfolding f using ab by (simp add: parse_port_range_def scan_d_def s small expect_def n k)
  qed
qed

lemma parse_ip_cidr_typed: "parse_ip_cidr t = Some (ip, m, net) \<Longrightarrow> ipv4_mask_be_is_contiguous m \<and> net AND m = net"
  by (auto simp: parse_ip_cidr_def parse_mask_suffix_def parse_ipv4_netmask_be_def prefix_mask_contiguous Let_def and.assoc
      split: option.splits if_splits)

lemma parse_cidr_typed: "parse_cidr_any_or_negated t = Some (a, neg, net, m) \<Longrightarrow> net_typed a neg net m"
  by (auto simp: parse_cidr_any_or_negated_def net_typed_def Let_def dest: parse_ip_cidr_typed split: option.splits if_splits)

lemma net_typed_any: "net_typed True False 0 0"
  by (simp add: net_typed_def)

lemma port_item_typed: "ports_typed (port_item t)"
  by (auto simp: port_item_def parse_port_range_def ports_typed_def split: option.splits if_splits prod.splits)

definition filters_typed :: "crypto_policy \<Rightarrow> bool" where
  "filters_typed cp \<longleftrightarrow> net_typed (cp_src_any cp) (cp_src_negate cp) (cp_src_net cp) (cp_src_mask cp) \<and>
     net_typed (cp_dst_any cp) (cp_dst_negate cp) (cp_dst_net cp) (cp_dst_mask cp) \<and>
     ports_typed (cp_src_port_from cp, cp_src_port_to cp) \<and> ports_typed (cp_dst_port_from cp, cp_dst_port_to cp)"

lemma expanded_filters: "filters_typed (expanded_policy r b item)"
  using port_item_typed parse_cidr_typed net_typed_any
  by (auto simp: filters_typed_def expanded_policy_def set_src_def set_dst_def split: prod.split option.split)

lemma loaded_filters:
  assumes "config_load_from_db sha256 conn profile_id = Some cfg" "cp \<in> set (ac_policies cfg)"
  shows "filters_typed cp"
proof -
  obtain rows bs where "ac_policies cfg = row_policies bs" by (rule loaded_policies [OF assms(1)])
  with assms(2) show ?thesis using expanded_filters by (auto simp: row_policies_set)
qed

section \<open>Properties\<close>

text \<open>C29: The log of a loaded configuration names the filters exactly: every network and every port range that is printed for
  a policy, read by the parsers that load the database, gives the fields of the policy again; no buffer cuts them off.\<close>

theorem logged_filters_reparse:
  assumes "config_load_from_db sha256 conn profile_id = Some cfg" "cp \<in> set (ac_policies cfg)"
  shows "parse_cidr_any_or_negated (policy_cidr_field 72 (cp_src_any cp) (cp_src_negate cp) (cp_src_net cp) (cp_src_mask cp))
      = Some (cp_src_any cp, cp_src_negate cp, cp_src_net cp, cp_src_mask cp) \<and>
    parse_cidr_any_or_negated (policy_cidr_field 72 (cp_dst_any cp) (cp_dst_negate cp) (cp_dst_net cp) (cp_dst_mask cp))
      = Some (cp_dst_any cp, cp_dst_negate cp, cp_dst_net cp, cp_dst_mask cp) \<and>
    parse_port_range (policy_port_str 24 (cp_src_port_from cp) (cp_src_port_to cp)) = Some (cp_src_port_from cp, cp_src_port_to cp) \<and>
    parse_port_range (policy_port_str 24 (cp_dst_port_from cp) (cp_dst_port_to cp)) = Some (cp_dst_port_from cp, cp_dst_port_to cp)"
  using loaded_filters [OF assms] by (simp add: filters_typed_def cidr_field_parses port_field_parses)

theorem logged_filters_reparse_witness:
  "\<exists>cfg cp. config_load_from_db sample_sha256 sample_conn 1 = Some cfg \<and> cp \<in> set (ac_policies cfg) \<and>
     parse_cidr_any_or_negated (policy_cidr_field 72 (cp_src_any cp) (cp_src_negate cp) (cp_src_net cp) (cp_src_mask cp))
       = Some (cp_src_any cp, cp_src_negate cp, cp_src_net cp, cp_src_mask cp)"
proof -
  obtain cfg where c: "config_load_from_db sample_sha256 sample_conn 1 = Some cfg" "ac_policies cfg \<noteq> []"
    using sample_load by auto
  then have "hd (ac_policies cfg) \<in> set (ac_policies cfg)" by simp
  with logged_filters_reparse [OF c(1) this] c(1) show ?thesis by blast
qed

text \<open>The peer address of a link is printed so that \<open>parse_mac\<close> reads it, unless it is zero.\<close>

lemma fmt_mac_parses:
  assumes "length mac = 6" "\<exists>b \<in> set mac. b \<noteq> 0"
  shows "parse_mac (fmt_mac 32 mac) = Some mac"
proof -
  have "mac \<noteq> []" using assms(1) by auto
  then have "fmt_mac 32 mac = show_mac mac"
    using show_mac_length [of mac] assms by (auto simp: fmt_mac_def intro: snprintf_fits)
  then show ?thesis using parse_mac_show [OF assms(1)] by simp
qed

end
