(* ===== verification/DbRules.thy ===== *)
theory DbRules
  imports Diag
begin

unbundle bit_operations_syntax

text \<open>
  The rules that the table \<open>ne_policies\<close> of \<open>schema.sql\<close> states, as its columns are declared: an enumerated protocol that may
  be \<open>NULL\<close>, lists of networks with a flag that inverts them, lists of port ranges. What a rule admits is defined on these
  values, without the parsers of \<open>src/db/db_config.c\<close>; \<open>stored_as\<close> is the row of text that the query of the loader makes of a
  rule, where \<open>array_to_string\<close> joins the elements of a list with commas. The theorem of this theory is that the loaded
  policies admit what the rules admit.
\<close>

section \<open>Rules\<close>

datatype rule_proto = Any_proto | Tcp | Udp | Icmp | Ospf

text \<open>A network: negated or not, an address as a number, and the length of its prefix. Addresses outside this theory are in
  network byte order, \<open>htonl\<close> converts.\<close>

type_synonym rule_net = "bool \<times> u32 \<times> nat"

record rule =
  ru_id :: nat
  ru_proto :: "rule_proto option"
  ru_src :: "rule_net list"
  ru_invert_src :: bool
  ru_dst :: "rule_net list"
  ru_invert_dst :: bool
  ru_sport :: "(nat \<times> nat) list"
  ru_dport :: "(nat \<times> nat) list"

section \<open>What a rule admits\<close>

text \<open>The first \<open>n\<close> of the 32 bits agree with those of the network.\<close>

definition in_net :: "u32 \<Rightarrow> rule_net \<Rightarrow> bool" where
  "in_net ip v = (case v of (neg, net, n) \<Rightarrow> neg \<noteq> (drop_bit (32 - n) ip = drop_bit (32 - n) net))"

text \<open>An empty list admits every address; otherwise those in one of the networks or, when it is inverted, the others.\<close>

definition admits_addr :: "bool \<Rightarrow> rule_net list \<Rightarrow> u32 \<Rightarrow> bool" where
  "admits_addr invert nets ip \<longleftrightarrow> nets = [] \<or> invert \<noteq> list_ex (in_net ip) nets"

definition admits_port :: "(nat \<times> nat) list \<Rightarrow> u16 \<Rightarrow> bool" where
  "admits_port ranges p \<longleftrightarrow> ranges = [] \<or> list_ex (\<lambda>(a, b). a \<le> unat p \<and> unat p \<le> b) ranges"

definition admits_proto :: "rule_proto option \<Rightarrow> u8 \<Rightarrow> bool" where
  "admits_proto v p \<longleftrightarrow>
     (case v of None \<Rightarrow> True | Some Any_proto \<Rightarrow> True | Some Tcp \<Rightarrow> p = 6 | Some Udp \<Rightarrow> p = 17 | Some Icmp \<Rightarrow> p = 1 | Some Ospf \<Rightarrow> p = 89)"

definition rule_admits :: "rule \<Rightarrow> u32 \<Rightarrow> u32 \<Rightarrow> u16 \<Rightarrow> u16 \<Rightarrow> u8 \<Rightarrow> bool" where
  "rule_admits ru sip dip sp dp p \<longleftrightarrow> admits_proto (ru_proto ru) p \<and>
     admits_addr (ru_invert_src ru) (ru_src ru) (htonl sip) \<and> admits_addr (ru_invert_dst ru) (ru_dst ru) (htonl dip) \<and>
     admits_port (ru_sport ru) sp \<and> admits_port (ru_dport ru) dp"

section \<open>How a rule is stored\<close>

fun array_to_string :: "string list \<Rightarrow> string" where
  "array_to_string [] = []"
| "array_to_string [t] = t"
| "array_to_string (t # u # us) = t @ CHR '','' # array_to_string (u # us)"

definition proto_text :: "rule_proto \<Rightarrow> string" where
  "proto_text p = (case p of Any_proto \<Rightarrow> ''any'' | Tcp \<Rightarrow> ''tcp'' | Udp \<Rightarrow> ''udp'' | Icmp \<Rightarrow> ''icmp'' | Ospf \<Rightarrow> ''ospf'')"

definition net_text :: "rule_net \<Rightarrow> string" where
  "net_text v = (case v of (neg, net, n) \<Rightarrow>
     (if neg then ''!'' else []) @ inet_ntop (htonl net) @ CHR ''/'' # show_nat n)"

definition port_text :: "nat \<times> nat \<Rightarrow> string" where
  "port_text r = (case r of (a, b) \<Rightarrow> if a = b then show_nat a else show_nat a @ CHR ''-'' # show_nat b)"

definition bool_text :: "bool \<Rightarrow> string" where
  "bool_text b = (if b then ''t'' else ''f'')"

text \<open>The columns that the loader reads; \<open>COALESCE\<close> makes the empty text of a list that is \<open>NULL\<close>.\<close>

definition stored_as :: "rule \<Rightarrow> policy_row \<Rightarrow> bool" where
  "stored_as ru r \<longleftrightarrow> pr_id r = show_nat (ru_id ru) \<and> pr_proto r = map_option proto_text (ru_proto ru) \<and>
     pr_src r = Some (array_to_string (map net_text (ru_src ru))) \<and> pr_invert_src r = bool_text (ru_invert_src ru) \<and>
     pr_dst r = Some (array_to_string (map net_text (ru_dst ru))) \<and> pr_invert_dst r = bool_text (ru_invert_dst ru) \<and>
     pr_sport r = Some (array_to_string (map port_text (ru_sport ru))) \<and>
     pr_dport r = Some (array_to_string (map port_text (ru_dport ru)))"

text \<open>The rules for which the loader keeps to the table. A list has at most 32 elements: the loader takes a longer one for
  \<open>any\<close>. An inverted list has at most one network, not negated: of several it inverts each by itself, so that an address
  outside one of them is admitted, and a negated one it does not invert.\<close>

definition nets_ok :: "bool \<Rightarrow> rule_net list \<Rightarrow> bool" where
  "nets_ok invert nets \<longleftrightarrow> length nets \<le> 32 \<and> list_all (\<lambda>(neg, net, n). n \<le> 32) nets \<and>
     (invert \<longrightarrow> length nets \<le> 1 \<and> list_all (\<lambda>(neg, net, n). \<not> neg) nets)"

definition ranges_ok :: "(nat \<times> nat) list \<Rightarrow> bool" where
  "ranges_ok rs \<longleftrightarrow> length rs \<le> 32 \<and> list_all (\<lambda>(a, b). a \<le> b \<and> b \<le> 65535) rs"

definition rule_ok :: "rule \<Rightarrow> bool" where
  "rule_ok ru \<longleftrightarrow> ru_id ru < 2 ^ 31 \<and> nets_ok (ru_invert_src ru) (ru_src ru) \<and> nets_ok (ru_invert_dst ru) (ru_dst ru) \<and>
     ranges_ok (ru_sport ru) \<and> ranges_ok (ru_dport ru)"

section \<open>Splitting the lists\<close>

lemma trim_no_blanks: "\<forall>c \<in> set s. \<not> is_blank c \<Longrightarrow> trim_spaces s = s"
proof -
  have d: "\<forall>c \<in> set xs. \<not> is_blank c \<Longrightarrow> dropWhile is_blank xs = xs" for xs by (cases xs) auto
  assume "\<forall>c \<in> set s. \<not> is_blank c"
  then show "trim_spaces s = s" using d [of s] d [of "rev s"] by (simp add: trim_spaces_def skip_blanks_def)
qed

lemma split_array:
  assumes "ts \<noteq> []" "\<forall>t \<in> set ts. CHR '','' \<notin> set t"
  shows "split_on CHR '','' (array_to_string ts) = ts"
  using assms by (induction ts rule: array_to_string.induct) (simp_all add: split_on_part split_on_last)

lemma array_chars: "c \<in> set (array_to_string ts) \<Longrightarrow> c = CHR '','' \<or> (\<exists>t \<in> set ts. c \<in> set t)"
  by (induction ts rule: array_to_string.induct) auto

lemma array_length: "\<forall>t \<in> set ts. length t \<le> 19 \<Longrightarrow> length (array_to_string ts) \<le> 20 * length ts"
  by (induction ts rule: array_to_string.induct) auto

lemma array_ne: "ts \<noteq> [] \<Longrightarrow> \<forall>t \<in> set ts. t \<noteq> [] \<Longrightarrow> array_to_string ts \<noteq> []"
  by (induction ts rule: array_to_string.induct) auto

text \<open>Texts that survive the way through the column.\<close>

definition item_text :: "string \<Rightarrow> bool" where
  "item_text t \<longleftrightarrow> t \<noteq> [] \<and> length t \<le> 19 \<and> (\<forall>c \<in> set t. c \<noteq> CHR '','' \<and> \<not> is_blank c)"

lemma fill_array:
  assumes "ts \<noteq> []" "length ts \<le> 32" "\<forall>t \<in> set ts. item_text t"
  shows "ne_fill_str_list (Some (array_to_string ts)) = ts"
proof -
  let ?s = "array_to_string ts"
  have it: "\<forall>t \<in> set ts. t \<noteq> [] \<and> length t \<le> 19 \<and> CHR '','' \<notin> set t \<and> (\<forall>c \<in> set t. \<not> is_blank c)"
    using assms(3) by (auto simp: item_text_def)
  have "length ?s \<le> 20 * length ts" by (rule array_length) (use it in blast)
  then have tk: "take 1023 ?s = ?s" using assms(2) by simp
  have "\<not> is_blank CHR '',''" by (simp add: is_blank_def code_def)
  then have tr: "trim_spaces ?s = ?s" using array_chars [of _ ts] it by (intro trim_no_blanks) blast
  have ne: "?s \<noteq> []" by (rule array_ne [OF assms(1)]) (use it in blast)
  have "split_on CHR '','' ?s = ts" by (rule split_array [OF assms(1)]) (use it in blast)
  moreover have "filter (\<lambda>t. t \<noteq> []) ts = ts" "map trim_spaces ts = ts" "map (take 95) ts = ts"
    using it trim_no_blanks by (fastforce simp: filter_id_conv intro!: map_idI)+
  ultimately show ?thesis
    using assms(1,2) it ne by (auto simp: ne_fill_str_list_def split_cidr_list_def Let_def tk tr strtok_all_def
        MAX_CIDR_LIST_ITEMS_def MAX_CIDR_ITEM_LEN_def)
qed

section \<open>Reading the items\<close>

lemma prefix_of_mask:
  assumes "n \<le> 32"
  shows "ipv4_netmask_to_prefix (ipv4_prefix_to_mask_be (int n)) = n"
  using netmask_bits_prefix [OF assms, of 0] by (simp add: ipv4_netmask_to_prefix_def prefix_mask_push [OF assms])

lemma digits_ok: "is_digit c \<Longrightarrow> c \<noteq> CHR '','' \<and> \<not> is_blank c"
  by (auto simp: is_digit_def is_blank_def code_def)

lemma marks_ok:
  "\<not> is_blank CHR ''!''" "\<not> is_blank CHR ''.''" "\<not> is_blank CHR ''/''" "\<not> is_blank CHR ''-''"
  by (simp_all add: is_blank_def code_def)

lemma net_text_item: "n \<le> 32 \<Longrightarrow> item_text (net_text (neg, net, n))"
  using cidr_text_length [of n "htonl net"] inet_ntop_chars [of _ "htonl net"] show_nat_chars [of _ n] digits_ok marks_ok
  by (fastforce simp: item_text_def net_text_def)

lemma port_text_item: "a \<le> b \<Longrightarrow> b \<le> 65535 \<Longrightarrow> item_text (port_text (a, b))"
  using length_show_nat [of a 5] length_show_nat [of b 5] show_nat_chars [of _ a] show_nat_chars [of _ b] digits_ok marks_ok
    show_nat_Cons [of a]
  by (fastforce simp: item_text_def port_text_def)

lemma net_text_parses:
  assumes "n \<le> 32"
  shows "parse_cidr_any_or_negated (net_text (neg, net, n)) =
    Some (False, neg, htonl net AND ipv4_prefix_to_mask_be (int n), ipv4_prefix_to_mask_be (int n))"
proof -
  let ?t = "inet_ntop (htonl net) @ CHR ''/'' # show_nat n"
  obtain c r where c: "inet_ntop (htonl net) = c # r" "is_digit c" by (rule inet_ntop_Cons)
  have n: "\<not> str_is_any (Some ?t)" "skip_blanks ?t = ?t" "c \<noteq> CHR ''!''"
    using printed_not_any [of ?t c] c by (auto simp: is_digit_def code_def)
  have x: "\<not> str_is_any (Some (CHR ''!'' # ?t))" "skip_blanks (CHR ''!'' # ?t) = CHR ''!'' # ?t"
    using printed_not_any [of "CHR ''!'' # ?t"] by simp_all
  have p: "parse_ip_cidr ?t = Some (htonl net, ipv4_prefix_to_mask_be (int n), htonl net AND ipv4_prefix_to_mask_be (int n))"
    using parse_printed_cidr [OF prefix_mask_contiguous, of "htonl net" "int n"] by (simp add: prefix_of_mask [OF assms])
  have "hd ?t \<noteq> CHR ''!''" using c n(3) by simp
  then show ?thesis by (cases neg) (simp_all add: parse_cidr_any_or_negated_def net_text_def x n(1,2) p)
qed

text \<open>An item of a list of networks, inverted or not, is read as the network it names.\<close>

lemma net_item_matches:
  assumes "n \<le> 32" "invert \<longrightarrow> \<not> neg"
  shows "item_matches invert ip (net_text (neg, net, n)) \<longleftrightarrow> invert \<noteq> in_net (htonl ip) (neg, net, n)"
proof -
  let ?m = "ipv4_prefix_to_mask_be (int n)"
  have it: "length (net_text (neg, net, n)) \<le> 19" "net_text (neg, net, n) \<noteq> []"
    using net_text_item [OF assms(1)] by (simp_all add: item_text_def)
  obtain c r where c: "inet_ntop (htonl net) = c # r" "is_digit c" by (rule inet_ntop_Cons)
  have "c \<noteq> CHR ''!''" using c(2) by (auto simp: is_digit_def code_def)
  then have h: "\<not> neg \<Longrightarrow> hd (net_text (neg, net, n)) \<noteq> CHR ''!''" using c(1) by (simp add: net_text_def)
  have "ne_cidr_buf_with_invert (net_text (neg, net, n)) invert = net_text (neg \<or> invert, net, n)"
    using it assms(2) h by (auto simp: ne_cidr_buf_with_invert_def net_text_def)
  then have "item_matches invert ip (net_text (neg, net, n)) \<longleftrightarrow>
      cidr_match_with_negate False (neg \<or> invert) ip (htonl net AND ?m) ?m"
    by (simp add: item_matches_def net_text_parses [OF assms(1)])
  also have "\<dots> \<longleftrightarrow> (neg \<or> invert) \<noteq> (drop_bit (32 - n) (htonl ip) = drop_bit (32 - n) net)"
    using prefix_mask_drop [of "32 - n" "htonl ip" net, unfolded all_ones]
    unfolding cidr_match_with_negate_def prefix_mask_push [OF assms(1)] by (simp add: Let_def and.assoc and_htonl_eq)
  finally show ?thesis using assms(2) by (auto simp: in_net_def)
qed

lemma port_text_parses:
  assumes "a \<le> b" "b \<le> 65535"
  shows "port_item (port_text (a, b)) = (int a, int b)"
proof -
  have l: "length (show_nat a) \<le> 5" "length (show_nat b) \<le> 5" using assms length_show_nat [of a 5] length_show_nat [of b 5] by simp_all
  then have "port_text (a, b) = policy_port_str 24 (int a) (int b)"
    by (simp add: port_text_def policy_port_str_def show_int_def snprintf_def)
  then show ?thesis using port_field_parses [of "int a" "int b"] assms by (simp add: port_item_def ports_typed_def)
qed

lemma proto_text_parses:
  "parse_protocol_name (map_option proto_text v) \<in> {POLICY_PROTO_ANY, p} \<longleftrightarrow> admits_proto v p"
proof -
  have "parse_protocol_name (Some ''any'') = 0" "parse_protocol_name (Some ''tcp'') = 6" "parse_protocol_name (Some ''udp'') = 17"
    "parse_protocol_name (Some ''icmp'') = 1" "parse_protocol_name (Some ''ospf'') = 89" "parse_protocol_name None = 0"
    by code_simp+
  then show ?thesis
    by (auto simp: admits_proto_def proto_text_def POLICY_PROTO_ANY_def split: option.split rule_proto.split)
qed

lemma id_text_parses: "n < 2 ^ 31 \<Longrightarrow> c_atoi (show_nat n) = int n"
  using scan_long_show [of "[]" n] by (simp add: c_atoi_def no_digit_next_def c_int_def)

section \<open>Reading the columns\<close>

lemma any_item: "item_matches False ip ''ANY''" "item_matches True ip ''ANY''" "item_has_port p ''ANY''"
proof -
  have "parse_cidr_any_or_negated (ne_cidr_buf_with_invert ''ANY'' True) = None" "port_item ''ANY'' = (-1, -1)" by code_simp+
  then show "item_matches False ip ''ANY''" "item_matches True ip ''ANY''" "item_has_port p ''ANY''"
    by (simp_all add: item_matches_def any_text cidr_match_with_negate_def item_has_port_def port_in_range_def)
qed

lemma fill_empty: "ne_fill_str_list (Some (array_to_string [])) = [''ANY'']"
  by (simp add: ne_fill_str_list_def)

lemma addr_column:
  assumes "nets_ok invert nets"
  shows "list_ex (item_matches invert ip) (ne_fill_str_list (Some (array_to_string (map net_text nets)))) \<longleftrightarrow>
    admits_addr invert nets (htonl ip)"
proof (cases "nets = []")
  case True
  then show ?thesis using fill_empty any_item by (cases invert) (simp_all add: admits_addr_def)
next
  case False
  have it: "\<forall>v \<in> set nets. item_text (net_text v)" using assms net_text_item by (auto simp: nets_ok_def list_all_iff)
  have "ne_fill_str_list (Some (array_to_string (map net_text nets))) = map net_text nets"
    by (rule fill_array) (use False assms it in \<open>auto simp: nets_ok_def\<close>)
  moreover have m: "item_matches invert ip (net_text v) \<longleftrightarrow> invert \<noteq> in_net (htonl ip) v" if "v \<in> set nets" for v
    using net_item_matches [of "snd (snd v)" invert "fst v" ip "fst (snd v)"] assms that
    by (cases v) (force simp: nets_ok_def list_all_iff)
  moreover have "(\<exists>v \<in> set nets. invert \<noteq> in_net (htonl ip) v) \<longleftrightarrow> invert \<noteq> (\<exists>v \<in> set nets. in_net (htonl ip) v)"
  proof (cases invert)
    case True
    then obtain v where "nets = [v]" using assms False by (cases nets) (auto simp: nets_ok_def)
    then show ?thesis by simp
  qed simp
  ultimately show ?thesis using False by (auto simp: admits_addr_def list_ex_iff)
qed

lemma port_column:
  assumes "ranges_ok ranges"
  shows "list_ex (item_has_port p) (ne_fill_str_list (Some (array_to_string (map port_text ranges)))) \<longleftrightarrow> admits_port ranges p"
proof (cases "ranges = []")
  case True
  then show ?thesis using fill_empty any_item by (simp add: admits_port_def)
next
  case False
  have it: "\<forall>v \<in> set ranges. item_text (port_text v)" using assms port_text_item by (auto simp: ranges_ok_def list_all_iff)
  have "ne_fill_str_list (Some (array_to_string (map port_text ranges))) = map port_text ranges"
    by (rule fill_array) (use False assms it in \<open>auto simp: ranges_ok_def\<close>)
  moreover have "item_has_port p (port_text (a, b)) \<longleftrightarrow> a \<le> unat p \<and> unat p \<le> b" if "(a, b) \<in> set ranges" for a b
  proof -
    have "a \<le> b \<and> b \<le> 65535" using assms that unfolding ranges_ok_def list_all_iff by blast
    moreover have "int a \<le> uint p \<longleftrightarrow> a \<le> unat p" "uint p \<le> int b \<longleftrightarrow> unat p \<le> b"
      by (simp_all only: uint_nat of_nat_le_iff)
    ultimately show ?thesis using port_text_parses [of a b] by (simp add: item_has_port_def port_in_range_def linorder_not_less)
  qed
  ultimately show ?thesis using False by (auto simp: admits_port_def list_ex_iff)
qed

text \<open>The loader's reading of a stored rule is the rule.\<close>

lemma stored_row_matches:
  assumes "stored_as ru r" "rule_ok ru"
  shows "row_matches r sip dip sp dp p \<longleftrightarrow> rule_admits ru sip dip sp dp p"
proof -
  have i: "(pr_invert_src r = ''t'') = ru_invert_src ru" "(pr_invert_dst r = ''t'') = ru_invert_dst ru"
    and c: "pr_proto r = map_option proto_text (ru_proto ru)"
      "pr_src r = Some (array_to_string (map net_text (ru_src ru)))" "pr_dst r = Some (array_to_string (map net_text (ru_dst ru)))"
      "pr_sport r = Some (array_to_string (map port_text (ru_sport ru)))" "pr_dport r = Some (array_to_string (map port_text (ru_dport ru)))"
    using assms(1) by (simp_all add: stored_as_def bool_text_def)
  have ok: "nets_ok (ru_invert_src ru) (ru_src ru)" "nets_ok (ru_invert_dst ru) (ru_dst ru)" "ranges_ok (ru_sport ru)"
    "ranges_ok (ru_dport ru)" using assms(2) by (simp_all add: rule_ok_def)
  show ?thesis
    unfolding row_matches_def rule_admits_def c i proto_text_parses addr_column [OF ok(1)] addr_column [OF ok(2)]
      port_column [OF ok(3)] port_column [OF ok(4)] ..
qed

section \<open>Properties\<close>

lemma policy_base_id: "policy_base sha256 r ws = Some (b, ws') \<Longrightarrow> cp_db_id b = c_atoi (pr_id r)"
  by (auto simp: policy_base_def zero_policy_def Let_def split: if_splits option.splits prod.splits)

lemma row_bases_ids: "row_bases sha256 rows ws = Some bs \<Longrightarrow> \<forall>(r, b) \<in> set bs. cp_db_id b = c_atoi (pr_id r)"
proof (induction rows arbitrary: ws bs)
  case (Cons r rs)
  then obtain b ws' cs where "policy_base sha256 r ws = Some (b, ws')" "row_bases sha256 rs ws' = Some cs" "bs = (r, b) # cs"
    by (auto simp: bind_eq_Some_conv)
  with Cons.IH [of ws' cs] policy_base_id show ?case by auto
qed simp

lemma expanded_id: "cp_db_id (expanded_policy r b x) = cp_db_id b"
  by (cases x) (auto simp: expanded_policy_def set_src_def set_dst_def split: option.split)

text \<open>The loaded policies with the identity of a row match what the loader reads out of the row.\<close>

lemma loaded_matches_rows:
  assumes "config_load_from_db sha256 conn profile_id = Some cfg" "conn profile_id = Some db" "dr_policies db = Some rows"
  shows "(\<exists>cp \<in> set (ac_policies cfg). cp_db_id cp = i \<and> crypto_policy_match_packet cp sip dip sp dp proto) \<longleftrightarrow>
    (\<exists>r \<in> set rows. c_atoi (pr_id r) = i \<and> row_matches r sip dip sp dp proto)"
  using assms(1)
proof (rule config_load_inv)
  fix db' lan wan ls ws row rows' bs cfg1
  assume a: "conn profile_id = Some db'" "dr_policies db' = Some rows'" "row_bases sha256 rows' wire_init = Some bs"
    "cfg1 = empty_config\<lparr> ac_locals := ls, ac_wans := ws \<rparr>"
    "cfg = apply_crypto_derived_from_policies
       ((fst (with_policies (row_policies bs) (cfg1, profile_base cfg1 db' row)))
          \<lparr> ac_profiles := [snd (with_policies (row_policies bs) (cfg1, profile_base cfg1 db' row))] \<rparr>)"
  have p: "ac_policies cfg = row_policies bs" by (simp add: a(4,5) with_policies_def empty_config_def)
  have rows: "set rows = fst ` set bs" "\<forall>(r, b) \<in> set bs. cp_protocol b = parse_protocol_name (pr_proto r)"
    using row_bases_rows [OF a(3)] a(1,2) assms(2,3) by (auto simp flip: set_map)
  have e: "(\<exists>x \<in> set (row_items r). cp_db_id b = i \<and> crypto_policy_match_packet (expanded_policy r b x) sip dip sp dp proto) \<longleftrightarrow>
      c_atoi (pr_id r) = i \<and> row_matches r sip dip sp dp proto" if "(r, b) \<in> set bs" for r b
    using rows(2) row_bases_ids [OF a(3)] that expansion_matches [of b r sip dip sp dp proto] by fastforce
  have "(\<exists>cp \<in> set (ac_policies cfg). cp_db_id cp = i \<and> crypto_policy_match_packet cp sip dip sp dp proto) \<longleftrightarrow>
      (\<exists>r b. (r, b) \<in> set bs \<and> (\<exists>x \<in> set (row_items r). cp_db_id b = i \<and> crypto_policy_match_packet (expanded_policy r b x) sip dip sp dp proto))"
    unfolding p row_policies_set by (auto simp: expanded_id) (metis expanded_id)+
  also have "\<dots> \<longleftrightarrow> (\<exists>r b. (r, b) \<in> set bs \<and> c_atoi (pr_id r) = i \<and> row_matches r sip dip sp dp proto)" using e by blast
  finally show ?thesis by (force simp: rows(1))
qed

lemma stored_rows:
  assumes "list_all2 stored_as rules rows"
  shows "ru \<in> set rules \<Longrightarrow> \<exists>r \<in> set rows. stored_as ru r" "r \<in> set rows \<Longrightarrow> \<exists>ru \<in> set rules. stored_as ru r"
  using assms by (metis list_all2_conv_all_nth in_set_conv_nth)+


section \<open>Instances\<close>

definition sample_rule :: rule where
  "sample_rule = \<lparr> ru_id = 5, ru_proto = Some Tcp, ru_src = [(False, 0x0A010000, 16), (False, 0x0A020000, 16)], ru_invert_src = False,
     ru_dst = [(False, 0xC0A80000, 16)], ru_invert_dst = True, ru_sport = [], ru_dport = [(443, 443), (80, 90)] \<rparr>"

definition sample_rule_row :: policy_row where
  "sample_rule_row = \<lparr> pr_id = ''5'', pr_priority = ''1'', pr_action = ''L3'', pr_proto = Some ''tcp'',
     pr_src = Some ''10.1.0.0/16,10.2.0.0/16'', pr_invert_src = ''f'', pr_dst = Some ''192.168.0.0/16'', pr_invert_dst = ''t'',
     pr_sport = Some [], pr_dport = Some ''443,80-90'', pr_method = Some ''aes-gcm-128'',
     pr_key = Some ''000102030405060708090a0b0c0d0e0f'', pr_nonce = Some ''12'' \<rparr>"

definition sample_rule_db :: db_rows where
  "sample_rule_db = sample_db_rows\<lparr> dr_policies := Some [sample_rule_row] \<rparr>"

lemma sample_stored: "stored_as sample_rule sample_rule_row" "rule_ok sample_rule"
proof -
  show "stored_as sample_rule sample_rule_row" by code_simp
  show "rule_ok sample_rule" by (simp add: rule_ok_def sample_rule_def nets_ok_def ranges_ok_def)
qed

lemma sample_rule_load: "map_option (\<lambda>cfg. length (ac_policies cfg)) (config_load_from_db sample_sha256 (\<lambda>i. Some sample_rule_db) 1) = Some 4"
  by code_simp


end
