(* ===== verification/MainArgs.thy ===== *)
theory MainArgs
  imports Daemon DbEnv CPrint
begin

text \<open>
  The beginning of \<open>main\<close> of \<open>src/main.c\<close>: the options, the short run that notifies the daemon about a profile, and the
  conditions for the daemon to start. A run yields what \<open>main.c\<close> itself writes to the standard error with its exit code, or goes on
  to the loop (\<open>MainLoop\<close>). \<open>prog\<close> is \<open>argv[0]\<close> and \<open>args\<close> the rest; the libpq calls answer as the parameters say.
\<close>

definition NOTIFY_CHANNEL :: string where "NOTIFY_CHANNEL = ''xdp_start''"
definition NE_ENV_FILE :: string where "NE_ENV_FILE = ''/opt/SEP/be/.env''"

definition line_text :: "string \<Rightarrow> string" where "line_text s = s @ [newline]"

definition usage :: "string \<Rightarrow> string" where
  "usage prog = line_text ''Usage:'' @
     line_text (''  '' @ prog @ ''                    daemon, wait NOTIFY xdp_start'') @
     line_text (''  '' @ prog @ '' -id <profile_id>   notify daemon (load / unload / no-op)'')"

text \<open>What the surroundings answer: the environment file, the lookup of a profile, the connection for the notification, the
  \<open>SELECT pg_notify\<close>, and the connection that listens.\<close>

record main_env =
  me_readable :: bool
  me_file :: "string option"
  me_environ :: environ
  me_rows :: "int \<Rightarrow> db_rows option"
  me_connected :: bool
  me_conn_error :: string
  me_notified :: bool
  me_query_error :: string
  me_listening :: bool
  me_calloc :: bool

text \<open>\<open>ne_profile_id_exists\<close> with its first step.\<close>

definition profile_exists :: "environ \<Rightarrow> (int \<Rightarrow> db_rows option) \<Rightarrow> int \<Rightarrow> int" where
  "profile_exists env conn i = (case ne_postgres_conn_fill env of None \<Rightarrow> -1 | Some _ \<Rightarrow> ne_profile_id_exists conn i)"

text \<open>The statement that is executed, and its payload.\<close>

definition notify_sql :: "int \<Rightarrow> string" where
  "notify_sql profile_id = snprintf 96 (''SELECT pg_notify('' @ CHR 0x27 # NOTIFY_CHANNEL @ CHR 0x27 # '', '' @
     CHR 0x27 # show_int profile_id @ [CHR 0x27, CHR '')''])"

text \<open>The C value, the output and the statement that PostgreSQL has executed.\<close>

definition notify_profile_load :: "main_env \<Rightarrow> environ \<Rightarrow> int \<Rightarrow> int \<times> string \<times> string option" where
  "notify_profile_load e env profile_id =
     (case ne_postgres_conn_fill env of
        None \<Rightarrow> (-1, [], None)
      | Some _ \<Rightarrow>
          if \<not> me_connected e then (-1, ''[ERR] DB: '' @ me_conn_error e, None)
          else if \<not> me_notified e then (-1, ''[ERR] pg_notify failed: '' @ me_query_error e, None)
          else (0, [], Some (notify_sql profile_id)))"

text \<open>The output of \<open>parse_startup_profile_id\<close> when it fails.\<close>

fun startup_option_error :: "string list \<Rightarrow> int \<Rightarrow> string" where
  "startup_option_error [] out_id = []"
| "startup_option_error (arg # args) out_id =
     (if arg = ''-id'' \<or> arg = ''--id'' then
        (if out_id \<ge> 0 then line_text ''[FATAL] -id specified more than once''
         else case args of
           [] \<Rightarrow> line_text ''[FATAL] -id requires ne_profiles.id''
         | tok # args \<Rightarrow>
             (case parse_profile_id_token tok of
                None \<Rightarrow> line_text (''[FATAL] invalid ne_profiles.id: '' @ tok)
              | Some v \<Rightarrow> startup_option_error args v))
      else if take 4 arg = ''-id='' \<or> take 5 arg = ''--id='' then
        (if out_id \<ge> 0 then line_text ''[FATAL] -id specified more than once''
         else let id_str = (if arg ! 1 = CHR ''-'' then tl (dropWhile (\<lambda>c. c \<noteq> CHR ''='') arg) else drop 4 arg) in
           case parse_profile_id_token id_str of
             None \<Rightarrow> line_text (''[FATAL] invalid ne_profiles.id: '' @ id_str)
           | Some v \<Rightarrow> startup_option_error args v)
      else line_text (''[FATAL] unknown option: '' @ arg))"

datatype run = Exit int "string option" | Listen "(string \<times> string) list"

text \<open>The statement of the notification is the second component of \<open>Exit\<close>.\<close>

definition env_missing :: string where
  "env_missing = line_text (''[FATAL] DB env not loaded from '' @ NE_ENV_FILE)"

definition notify_run :: "main_env \<Rightarrow> int \<Rightarrow> run \<times> string" where
  "notify_run e profile_id =
     (let (r, env) = load_ne_env (me_readable e) (me_file e) (me_environ e) in
      if r \<noteq> 0 then (Exit 1 None, env_missing)
      else
        let exists = (profile_exists env (me_rows e) profile_id = 0);
            (r, out, sql) = notify_profile_load e env profile_id
        in if r \<noteq> 0 then (Exit 1 None, out)
        else (Exit 0 sql, line_text (if exists then ''[LOAD] notify profile '' @ show_int profile_id
                                     else ''[DELETE] notify profile '' @ show_int profile_id @ '' (not in DB)'')))"

definition listening_text :: "string \<Rightarrow> string" where
  "listening_text prog = line_text (''[DAEMON] listening '' @ NOTIFY_CHANNEL @ '' '' @ [CHR 0xE2, CHR 0x80, CHR 0x94] @ '' use '' @
     prog @ '' -id <id>'')"

definition listen_run :: "main_env \<Rightarrow> string \<Rightarrow> run \<times> string" where
  "listen_run e prog =
     (let (r, env) = load_ne_env (me_readable e) (me_file e) (me_environ e) in
      if r \<noteq> 0 then (Exit 1 None, env_missing)
      else case ne_postgres_conn_fill env of
        None \<Rightarrow> (Exit 1 None, line_text (''[FATAL] Missing POSTGRES_SERVER/PORT/USER/DB/PASSWORD in '' @ NE_ENV_FILE))
      | Some pg \<Rightarrow>
          if \<not> me_listening e then
            (Exit 1 None, ''[FATAL] DB connection failed: '' @ me_conn_error e @
               line_text (''[DB] tried host='' @ snd (pg ! 0) @ '' port='' @ snd (pg ! 1) @ '' dbname='' @ snd (pg ! 2) @
                          '' user='' @ snd (pg ! 3) @ '' (from '' @ NE_ENV_FILE @ '')''))
          else if \<not> me_calloc e then
            (Exit 1 None, listening_text prog @ line_text ''[FATAL] out of memory for runtime state'')
          else (Listen pg, listening_text prog))"

definition main_run :: "main_env \<Rightarrow> string \<Rightarrow> string list \<Rightarrow> run \<times> string" where
  "main_run e prog args =
     (if args = [''-h''] \<or> args = [''--help''] then (Exit 0 None, usage prog)
      else if args = [''--version''] then (Exit 0 None, line_text ''network-encryptor'')
      else case parse_startup_profile_id args (-1) of
        None \<Rightarrow> (Exit 1 None, startup_option_error args (-1) @ usage prog)
      | Some profile_id \<Rightarrow>
          if profile_id \<ge> 0 then notify_run e profile_id
          else if args \<noteq> [] then
            (Exit 1 None, line_text (''[FATAL] unknown arguments (got '' @ show_int (int (length args)) @ '')'') @ usage prog)
          else listen_run e prog)"

section \<open>From the option to the daemon\<close>

lemma scan_long_nat: "n < 2 ^ 63 \<Longrightarrow> scan_long (show_nat n) = Some (int n, [])"
  using scan_long_show [of "[]" n] by (simp add: no_digit_next_def)

text \<open>The payload of the notification is the id in decimal; the daemon reads the same id from it.\<close>

lemma notify_payload_roundtrip:
  assumes "0 < i" "i \<le> 2147483647"
  shows "parse_notify_profile_id (show_int i) = i"
proof -
  obtain n where n: "i = int n" using assms(1) by (metis int_nat_eq less_imp_le nonneg_int_cases)
  have "scan_long (show_nat n) = Some (int n, [])" using assms(2) by (intro scan_long_nat) (simp add: n)
  then show ?thesis using assms by (simp add: parse_notify_profile_id_def show_int_def n)
qed

lemma token_range: "parse_profile_id_token t = Some v \<Longrightarrow> 0 < v \<and> v \<le> 2147483647"
  by (auto simp: parse_profile_id_token_def split: option.splits if_splits)

lemma startup_id_range: "parse_startup_profile_id args out = Some v \<Longrightarrow> v = out \<or> 0 < v \<and> v \<le> 2147483647"
proof (induction args out rule: parse_startup_profile_id.induct)
  case (2 arg args out)
  then show ?case
    by (auto simp: Let_def dest: token_range split: if_splits list.splits option.splits) (blast dest: token_range)+
qed simp

lemma statement_whole:
  assumes "0 < i" "i \<le> 2147483647"
  shows "notify_sql i = ''SELECT pg_notify('' @ CHR 0x27 # NOTIFY_CHANNEL @ CHR 0x27 # '', '' @ CHR 0x27 # show_int i @ [CHR 0x27, CHR '')'']"
proof -
  have "nat i < 10 ^ 10" using assms(2) by simp
  then have "length (show_nat (nat i)) \<le> 10" by (rule length_show_nat) simp
  then show ?thesis unfolding notify_sql_def using assms(1)
    by (intro snprintf_fits) (simp add: NOTIFY_CHANNEL_def show_int_def)
qed

text \<open>Only the short run executes a statement.\<close>

lemma main_run_statement:
  assumes "main_run e prog args = (Exit c (Some sql), out)"
  shows "\<exists>i. parse_startup_profile_id args (-1) = Some i \<and> 0 < i \<and> i \<le> 2147483647 \<and> c = 0 \<and> sql = notify_sql i"
proof -
  obtain i where i: "parse_startup_profile_id args (-1) = Some i" "0 \<le> i" "notify_run e i = (Exit c (Some sql), out)"
    using assms by (auto simp: main_run_def listen_run_def Let_def split: if_splits option.splits prod.splits)
  have "0 < i" "i \<le> 2147483647" using startup_id_range [OF i(1)] i(2) by auto
  moreover have "c = 0 \<and> sql = notify_sql i"
    using i(3) by (auto simp: notify_run_def notify_profile_load_def Let_def split: if_splits option.splits prod.splits)
  ultimately show ?thesis using i(1) by blast
qed

section \<open>Properties\<close>

text \<open>C28: What the short run with \<open>-id\<close> sends is what the daemon handles: the one statement that a run of the program ever
  executes notifies the channel with the id of the option in decimal, not cut off, the run exits with 0, and the daemon
  that gets this payload handles the profile with that id.\<close>

theorem notification_names_profile:
  assumes "main_run e prog args = (Exit c (Some sql), out)"
  shows "\<exists>i payload. parse_startup_profile_id args (-1) = Some i \<and> c = 0 \<and>
    sql = ''SELECT pg_notify('' @ CHR 0x27 # NOTIFY_CHANNEL @ CHR 0x27 # '', '' @ CHR 0x27 # payload @ [CHR 0x27, CHR '')''] \<and>
    (\<forall>de d. main_notify de payload d = snd (handle_profile_notify de i d))"
proof -
  obtain i where i: "parse_startup_profile_id args (-1) = Some i" "0 < i" "i \<le> 2147483647" "c = 0" "sql = notify_sql i"
    using main_run_statement [OF assms] by blast
  have "main_notify de (show_int i) d = snd (handle_profile_notify de i d)" for de d
    using i(2) notify_payload_roundtrip [OF i(2,3)] by (simp add: main_notify_def)
  with i statement_whole [OF i(2,3)] show ?thesis by blast
qed

text \<open>A complete environment file, and a database that accepts everything.\<close>

definition sample_main_env :: main_env where
  "sample_main_env = \<lparr> me_readable = True, me_file = Some [],
     me_environ = (\<lambda>_. None)(''POSTGRES_SERVER'' \<mapsto> ''db'', ''POSTGRES_PORT'' \<mapsto> ''5432'', ''POSTGRES_USER'' \<mapsto> ''ne'',
                            ''POSTGRES_DB'' \<mapsto> ''ne'', ''POSTGRES_PASSWORD'' \<mapsto> ''x''),
     me_rows = sample_conn, me_connected = True, me_conn_error = [], me_notified = True, me_query_error = [],
     me_listening = True, me_calloc = True \<rparr>"

lemma sample_run: "fst (main_run sample_main_env ''ne'' [''-id'', ''7'']) = Exit 0 (Some (notify_sql 7))"
  by code_simp

theorem notification_names_profile_witness:
  "\<exists>i payload. parse_startup_profile_id [''-id'', ''7''] (-1) = Some i \<and>
     (\<forall>de d. main_notify de payload d = snd (handle_profile_notify de i d)) \<and> i = 7"
proof -
  obtain out where "main_run sample_main_env ''ne'' [''-id'', ''7''] = (Exit 0 (Some (notify_sql 7)), out)"
    using sample_run by (metis prod.collapse)
  from notification_names_profile [OF this] obtain i payload where i: "parse_startup_profile_id [''-id'', ''7''] (-1) = Some i"
    "\<forall>de d. main_notify de payload d = snd (handle_profile_notify de i d)" by blast
  moreover have "parse_startup_profile_id [''-id'', ''7''] (-1) = Some 7" by code_simp
  ultimately show ?thesis by auto
qed

end
