(* ===== verification/MainLoop.thy ===== *)
theory MainLoop
  imports MainArgs Startup ReloadGate
begin

text \<open>
  The loop of \<open>main\<close> in \<open>src/main.c\<close> together with the forwarder thread and the kernel: the daemon of \<open>Daemon\<close>, the sockets,
  programs and memory of \<open>Startup\<close>, the signal handler, and the end of the process. The loop waits at \<open>select\<close>, handles the
  notifications one by one, and reads the stop flag before it waits again. The start of the thread is one step; a result
  \<open>None\<close> is a second release of the same handle.
\<close>

section \<open>State\<close>

datatype pc = At_select | Draining | Exited int

text \<open>\<open>mn_started\<close>: what a started forwarder holds. \<open>mn_peers\<close> and \<open>mn_ready\<close>: the file with the peer addresses of the bridge and
  \<open>g_peer_macs_ready\<close>.\<close>

record main_state =
  mn_d :: daemon
  mn_kernel :: kernel
  mn_started :: "startup option"
  mn_peers :: "string option"
  mn_ready :: bool
  mn_pc :: pc
  mn_stop :: bool
  mn_logged :: bool

text \<open>One round of the loop up to the notifications: what \<open>PQsocket\<close> and \<open>select\<close> answer, and whether \<open>errno\<close> is \<open>EINTR\<close>.\<close>

datatype poll = No_socket | Select_failed bool | Timed_out | Not_set | Input

definition poll_step :: "poll \<Rightarrow> main_state \<Rightarrow> main_state" where
  "poll_step p m = (case p of Input \<Rightarrow> m\<lparr> mn_pc := Draining \<rparr> | _ \<Rightarrow> m)"

definition stop_signal :: "main_state \<Rightarrow> main_state \<times> string" where
  "stop_signal m =
     (m\<lparr> mn_stop := True, mn_d := on_stop_signal (mn_d m), mn_logged := True \<rparr>,
      if mn_logged m then [] else newline # line_text ''[STOP] shutting down (Ctrl+C / SIGTERM)'')"

section \<open>Stopping the forwarder\<close>

definition runtime_detach_xdp_from_config :: "(string \<Rightarrow> nat) \<Rightarrow> daemon \<Rightarrow> kernel \<Rightarrow> kernel" where
  "runtime_detach_xdp_from_config nametoindex d k =
     (let cfg = dm_slots d ! dm_active_slot d in
      if ac_locals cfg = [] \<and> ac_wans cfg = [] then k else interface_xdp_detach_all_from_config nametoindex cfg k)"

text \<open>\<open>pthread_join\<close>: the thread ends with \<open>forwarder_cleanup\<close> if it has been started.\<close>

definition join_thread :: "main_state \<Rightarrow> kernel option" where
  "join_thread m = (case mn_started m of None \<Rightarrow> Some (mn_kernel m)
     | Some s \<Rightarrow> cleanup_interfaces (s\<lparr> su_kernel := mn_kernel m \<rparr>))"

definition stop_forwarder :: "(string \<Rightarrow> nat) \<Rightarrow> main_state \<Rightarrow> main_state option" where
  "stop_forwarder nametoindex m =
     (if \<not> dm_has_thread (mn_d m) then Some m
      else do {
        k \<leftarrow> join_thread m;
        Some (m\<lparr> mn_d := snd (runtime_stop_forwarder (mn_d m)), mn_started := None,
                 mn_kernel := runtime_detach_xdp_from_config nametoindex (mn_d m) k \<rparr>) })"

section \<open>Steps\<close>

text \<open>A notification ends the thread exactly by \<open>runtime_stop_forwarder\<close>.\<close>

definition notify_step :: "(string \<Rightarrow> nat) \<Rightarrow> daemon_env \<Rightarrow> string \<Rightarrow> main_state \<Rightarrow> main_state option" where
  "notify_step nametoindex e extra m =
     (let d = main_notify e extra (mn_d m) in
      if dm_has_thread (mn_d m) \<and> \<not> dm_has_thread d then do {
        m \<leftarrow> stop_forwarder nametoindex m;
        Some (m\<lparr> mn_d := d \<rparr>) }
      else Some (m\<lparr> mn_d := d \<rparr>))"

text \<open>The forwarder thread up to its loop: \<open>forwarder_init\<close> with the sockets.\<close>

definition thread_step :: "(string \<Rightarrow> nat) \<Rightarrow> start_env \<Rightarrow> evp_lib \<Rightarrow> bool \<Rightarrow> u64 \<Rightarrow> main_state \<Rightarrow> main_state option" where
  "thread_step nametoindex se lib alloc now m =
     (let d = mn_d m in
      if \<not> dm_running d then Some (m\<lparr> mn_d := forwarder_thread_main lib alloc now (\<lambda>_. None) d \<rparr>)
      else
        let cfg = dm_slots d ! dm_active_slot d;
            k = interface_reset_redirect_maps (interface_xdp_detach_all_from_config nametoindex cfg (mn_kernel m));
            (r, cfg, _) = forwarder_init_crypto lib alloc now (set_queue_counts cfg) (dm_rt d) (dm_st d)
        in if r \<noteq> 0 then Some (m\<lparr> mn_d := forwarder_thread_main lib alloc now (\<lambda>_. None) d, mn_kernel := k \<rparr>)
        else do {
          ((r, s), file, ready) \<leftarrow> forwarder_init_sockets se (mn_ready m) (mn_peers m) cfg k;
          Some (m\<lparr> mn_d := forwarder_thread_main lib alloc now (\<lambda>_. if r = 0 then Some (su_cfg s) else None) d,
                   mn_kernel := su_kernel s, mn_peers := file, mn_ready := ready, mn_started := (if r = 0 then Some s else None) \<rparr>) })"

definition thread_end_step :: "main_state \<Rightarrow> main_state option" where
  "thread_end_step m = do {
     k \<leftarrow> join_thread m;
     Some (m\<lparr> mn_d := forwarder_thread_end (mn_d m), mn_kernel := k, mn_started := None \<rparr>) }"

text \<open>After the loop.\<close>

definition exit_step :: "(string \<Rightarrow> nat) \<Rightarrow> main_state \<Rightarrow> main_state option" where
  "exit_step nametoindex m = do { m \<leftarrow> stop_forwarder nametoindex m; Some (m\<lparr> mn_pc := Exited 0 \<rparr>) }"

text \<open>\<open>possible\<close> restricts what the kernel may answer while the thread starts.\<close>

inductive main_step :: "(start_env \<Rightarrow> bool) \<Rightarrow> (string \<Rightarrow> nat) \<Rightarrow> main_state \<Rightarrow> main_state \<Rightarrow> bool"
  for possible :: "start_env \<Rightarrow> bool" and nametoindex :: "string \<Rightarrow> nat" where
  polled: "mn_pc m = At_select \<Longrightarrow> \<not> mn_stop m \<Longrightarrow> main_step possible nametoindex m (poll_step p m)"
| notified: "mn_pc m = Draining \<Longrightarrow> notify_step nametoindex e extra m = Some m' \<Longrightarrow> main_step possible nametoindex m m'"
| drained: "mn_pc m = Draining \<Longrightarrow> main_step possible nametoindex m (m\<lparr> mn_pc := At_select \<rparr>)"
| exits: "mn_pc m = At_select \<Longrightarrow> mn_stop m \<Longrightarrow> exit_step nametoindex m = Some m' \<Longrightarrow> main_step possible nametoindex m m'"
| signalled: "main_step possible nametoindex m (fst (stop_signal m))"
| thread_starts: "dm_thread_new (mn_d m) \<Longrightarrow> possible se \<Longrightarrow> thread_step nametoindex se lib alloc now m = Some m' \<Longrightarrow>
    main_step possible nametoindex m m'"
| thread_ends: "dm_rt_running (mn_d m) \<Longrightarrow> \<not> dm_running (mn_d m) \<Longrightarrow> thread_end_step m = Some m' \<Longrightarrow>
    main_step possible nametoindex m m'"

inductive_cases main_stepE: "main_step possible nametoindex m m'"

definition main_begin :: "daemon \<Rightarrow> kernel \<Rightarrow> string option \<Rightarrow> main_state" where
  "main_begin d k peers = \<lparr> mn_d = d, mn_kernel = k, mn_started = None, mn_peers = peers, mn_ready = False, mn_pc = At_select,
     mn_stop = False, mn_logged = False \<rparr>"

section \<open>Programs left on interfaces\<close>

text \<open>Outside \<open>A\<close> every interface has the program that \<open>X\<close> names, or none.\<close>

definition xdp_within :: "(nat \<Rightarrow> nat option) \<Rightarrow> nat set \<Rightarrow> kernel \<Rightarrow> bool" where
  "xdp_within X A k \<longleftrightarrow> (\<forall>n. n \<notin> A \<longrightarrow> kn_xdp k n = None \<or> kn_xdp k n = X n)"

definition su_indices :: "startup \<Rightarrow> nat set" where
  "su_indices s = ir_ifindex ` (set (su_locals s) \<union> set (su_wans s))"

definition attached_only :: "(nat \<Rightarrow> nat option) \<Rightarrow> startup \<Rightarrow> bool" where
  "attached_only X s \<longleftrightarrow> 0 \<notin> su_indices s \<and> xdp_within X (su_indices s) (su_kernel s)"

lemma release_xdp: "release r h k = Some k' \<Longrightarrow> kn_xdp k' = kn_xdp k"
  by (auto simp: release_def split: if_splits)

lemma release_opt_xdp: "release_opt r p k = Some k' \<Longrightarrow> kn_xdp k' = kn_xdp k"
  by (auto simp: release_opt_def release_xdp split: option.splits)

lemma release_queue_xdp: "release_queue x k = Some k' \<Longrightarrow> kn_xdp k' = kn_xdp k"
  by (auto simp: release_queue_def dest!: release_opt_xdp split: bind_splits)

lemma release_queues_xdp: "release_queues xs k = Some k' \<Longrightarrow> kn_xdp k' = kn_xdp k"
  by (induction xs arbitrary: k) (auto dest!: release_queue_xdp split: bind_splits)

lemma cleanup_xdp:
  "interface_cleanup i k = Some (j, k') \<Longrightarrow> kn_xdp k' = (if ir_ifindex i = 0 then kn_xdp k else (kn_xdp k)(ir_ifindex i := None))"
  by (auto simp: interface_cleanup_def Let_def dest!: release_queues_xdp release_queue_xdp split: bind_splits if_splits)

lemma cleanup_all_xdp:
  "cleanup_all is k = Some k' \<Longrightarrow> kn_xdp k' n = (if n \<noteq> 0 \<and> n \<in> ir_ifindex ` set is then None else kn_xdp k n)"
  by (induction "is" arbitrary: k) (auto split: bind_splits dest!: cleanup_xdp)

lemma cleanup_both_within:
  assumes "cleanup_all is k = Some k1" "cleanup_all js k1 = Some k2" "xdp_within X (ir_ifindex ` (set is \<union> set js)) k"
    and "0 \<notin> ir_ifindex ` (set is \<union> set js)"
  shows "xdp_within X {} k2"
  unfolding xdp_within_def
proof (intro allI impI)
  fix n
  show "kn_xdp k2 n = None \<or> kn_xdp k2 n = X n"
  proof (cases "n \<in> ir_ifindex ` (set is \<union> set js)")
    case True
    then have "n \<noteq> 0" "n \<in> ir_ifindex ` set is \<or> n \<in> ir_ifindex ` set js" using assms(4) by auto
    then show ?thesis by (simp add: cleanup_all_xdp [OF assms(2)] cleanup_all_xdp [OF assms(1)]) blast
  next
    case False
    then have "kn_xdp k n = None \<or> kn_xdp k n = X n" using assms(3) unfolding xdp_within_def by blast
    then show ?thesis unfolding cleanup_all_xdp [OF assms(2)] cleanup_all_xdp [OF assms(1)] by auto
  qed
qed

lemma err_wans_within:
  assumes "err_wans s = Some (r, s')" "attached_only X s"
  shows "r = -1 \<and> xdp_within X {} (su_kernel s')"
proof -
  obtain k1 where k: "cleanup_all (su_wans s) (su_kernel s) = Some k1" "cleanup_all (su_locals s) k1 = Some (su_kernel s')" "r = -1"
    using assms(1) by (auto simp: err_wans_def split: bind_splits)
  with cleanup_both_within [OF k(1,2), of X] assms(2) show ?thesis by (simp add: attached_only_def su_indices_def Un_commute)
qed

lemma cleanup_interfaces_within:
  assumes "cleanup_interfaces s = Some k" "attached_only X s"
  shows "xdp_within X {} k"
proof -
  obtain k1 where k: "cleanup_all (su_locals s) (su_kernel s) = Some k1" "cleanup_all (su_wans s) k1 = Some k"
    using assms(1) by (auto simp: cleanup_interfaces_def split: bind_splits)
  with cleanup_both_within [OF k, of X] assms(2) show ?thesis by (simp add: attached_only_def su_indices_def)
qed

text \<open>Opening one more interface, and failing to.\<close>

lemma opened_within:
  assumes "opened e k (r, i, k')" "xdp_within X A k"
  shows "r = 0 \<Longrightarrow> xdp_within X (insert (ir_ifindex i) A) k'" "r \<noteq> 0 \<Longrightarrow> xdp_within X A k'"
  using assms by (auto simp: opened_def xdp_within_def)

lemma init_local_index: "interface_init_local e cfg k = Some (0, i, k') \<Longrightarrow> ir_ifindex i \<noteq> 0"
  using init_local_opened [of e cfg k] init_local_result [of e cfg k 0 i k'] by (auto simp: opened_def reaches_attach_def)

lemma init_wan_rx_index:
  assumes "interface_init_wan_rx e cfg k = Some (0, i, k')"
  shows "ir_ifindex i \<noteq> 0"
proof -
  have "ie_ifindex e \<noteq> 0" using assms by (auto simp: interface_init_wan_rx_def Let_def split: if_splits)
  then show ?thesis using init_wan_rx_opened [of e cfg k] assms by (auto simp: opened_def)
qed

text \<open>The steps of the start, one by one.\<close>

lemma init_locals_within:
  assumes "init_locals e is s = Some (ok, s')" "attached_only X s"
  shows "attached_only X s'"
  using assms
proof (induction "is" arbitrary: s)
  case (Cons i "is")
  show ?case
  proof (cases "se_stop_local e i")
    case False
    then obtain r j k where j: "interface_init_local (se_local e i) (ac_locals (su_cfg s) ! i) (su_kernel s) = Some (r, j, k)"
      using Cons.prems(1) by (auto split: bind_splits)
    have o: "opened (se_local e i) (su_kernel s) (r, j, k)" using init_local_opened j by (metis option.inject)
    note w = opened_within [OF o, of X "su_indices s"]
    show ?thesis
    proof (cases "r = 0")
      case True
      let ?s = "s\<lparr> su_locals := su_locals s @ [j], su_kernel := k \<rparr>"
      have "su_indices ?s = insert (ir_ifindex j) (su_indices s)" by (auto simp: su_indices_def)
      then have "attached_only X ?s" using w(1) True Cons.prems(2) init_local_index [of "se_local e i"] j by (simp add: attached_only_def)
      with Cons.IH [of ?s] Cons.prems(1) False j True show ?thesis by simp
    next
      case r: False
      then obtain k1 j1 where k1: "interface_cleanup j k = Some (j1, k1)" "s' = s\<lparr> su_kernel := k1 \<rparr>"
        using Cons.prems(1) False j by (auto split: bind_splits)
      have "xdp_within X (su_indices s) k1"
        using w(2) [OF _ r] Cons.prems(2) cleanup_xdp [OF k1(1)] by (auto simp: xdp_within_def attached_only_def)
      then show ?thesis using Cons.prems(2) k1(2) by (simp add: attached_only_def su_indices_def)
    qed
  qed (use Cons.prems in auto)
qed simp

lemma init_wans_within:
  assumes "init_wans e is s = Some (ok, s')" "attached_only X s"
  shows "attached_only X s'"
  using assms
proof (induction "is" arbitrary: s)
  case (Cons i "is")
  show ?case
  proof (cases "se_stop_wan e i")
    case False
    then obtain r j k where j: "interface_init_wan_rx (se_wan e i) (ac_wans (su_cfg s) ! i) (su_kernel s) = Some (r, j, k)"
      using Cons.prems(1) by (auto split: bind_splits)
    have o: "opened (se_wan e i) (su_kernel s) (r, j, k)" using init_wan_rx_opened j by (metis option.inject)
    note w = opened_within [OF o, of X "su_indices s"]
    show ?thesis
    proof (cases "r = 0")
      case True
      define j' where "j' = (if wc_dst_ip (ac_wans (su_cfg s) ! i) \<noteq> 0 then j\<lparr> ir_dst_mac := replicate 6 0, ir_src_mac := replicate 6 0 \<rparr> else j)"
      let ?s = "s\<lparr> su_wans := su_wans s @ [j'], su_kernel := k \<rparr>"
      have "ir_ifindex j' = ir_ifindex j" by (simp add: j'_def)
      then have "su_indices ?s = insert (ir_ifindex j) (su_indices s)" by (auto simp: su_indices_def)
      then have "attached_only X ?s" using w(1) True Cons.prems(2) init_wan_rx_index [of "se_wan e i"] j by (simp add: attached_only_def)
      with Cons.IH [of ?s] Cons.prems(1) False j True show ?thesis by (simp add: j'_def)
    next
      case r: False
      then show ?thesis using w(2) [OF _ r] Cons.prems False j by (auto simp: attached_only_def su_indices_def)
    qed
  qed (use Cons.prems in auto)
qed simp

text \<open>Steps that only change addresses.\<close>

lemma arp_init_xdp: "arp_init_for_local e k = Some (c, k') \<Longrightarrow> kn_xdp k' = kn_xdp k"
  by (auto simp: arp_init_for_local_def acquire_def release_def Let_def split: option.splits if_splits bind_splits prod.splits)

lemma same_indices:
  assumes "map ir_ifindex (su_locals s') = map ir_ifindex (su_locals s)" "map ir_ifindex (su_wans s') = map ir_ifindex (su_wans s)"
    and "kn_xdp (su_kernel s') = kn_xdp (su_kernel s)"
  shows "attached_only X s' = attached_only X s"
proof -
  have "ir_ifindex ` set (su_locals s') = ir_ifindex ` set (su_locals s)" "ir_ifindex ` set (su_wans s') = ir_ifindex ` set (su_wans s)"
    using arg_cong [OF assms(1), of set] arg_cong [OF assms(2), of set] by simp_all
  then show ?thesis by (simp add: attached_only_def xdp_within_def su_indices_def image_Un assms(3))
qed

lemma map_index_update: "ir_ifindex j = ir_ifindex (is ! i) \<Longrightarrow> map ir_ifindex (is[i := j]) = map ir_ifindex is"
  by (cases "i < length is") (simp_all add: map_update list_update_same_conv list_update_beyond not_less)

lemma start_local_arp_within:
  assumes "start_local_arp e i s = Some s'" "attached_only X s"
  shows "attached_only X s'"
proof -
  obtain c k where c: "arp_init_for_local (se_arp e i) (su_kernel s) = Some (c, k)"
    using assms(1) by (auto simp: start_local_arp_def split: bind_splits)
  have "attached_only X s' = attached_only X s"
    by (rule same_indices; use assms(1) c arp_init_xdp [OF c] in
        \<open>auto simp: start_local_arp_def Let_def map_index_update split: option.splits\<close>)
  with assms(2) show ?thesis by simp
qed

lemma start_wan_arp_within:
  assumes "start_wan_arp e i s = Some s'" "attached_only X s"
  shows "attached_only X s'"
proof -
  obtain c k where c: "arp_init_for_local (se_wan_arp e i) (su_kernel s) = Some (c, k)"
    using assms(1) by (auto simp: start_wan_arp_def split: bind_splits)
  have "attached_only X s' = attached_only X s"
    by (rule same_indices; use assms(1) c arp_init_xdp [OF c] in
        \<open>auto simp: start_wan_arp_def Let_def map_index_update split: option.splits\<close>)
  with assms(2) show ?thesis by simp
qed

lemma attached_arp_lists [simp]:
  "attached_only X (s\<lparr> su_arp := a \<rparr>) = attached_only X s" "attached_only X (s\<lparr> su_wan_arp := a \<rparr>) = attached_only X s"
  by (simp_all add: attached_only_def su_indices_def)

lemma start_arps_within:
  "start_local_arps e is s = Some (ok, s') \<Longrightarrow> attached_only X s \<Longrightarrow> attached_only X s'"
  "start_wan_arps e is s = Some (ok, s') \<Longrightarrow> attached_only X s \<Longrightarrow> attached_only X s'"
  by (induction "is" arbitrary: s) (auto split: if_splits bind_splits dest: start_local_arp_within start_wan_arp_within)

lemma bridge_install_within: "attached_only X s \<Longrightarrow> attached_only X (bridge_mac_install s)"
proof -
  have "map ir_ifindex (map2 (\<lambda>i l. i\<lparr> ir_src_mac := lc_src_mac l, ir_dst_mac := lc_dst_mac l \<rparr>) is ls @ drop (length ls) is)
      = map ir_ifindex is" for "is" ls
  proof (induction "is" arbitrary: ls)
    case (Cons i "is")
    then show ?case by (cases ls) simp_all
  qed simp
  then have "attached_only X (bridge_mac_install s) = attached_only X s"
    by (intro same_indices) (simp_all add: bridge_mac_install_def)
  then show "attached_only X s \<Longrightarrow> ?thesis" by simp
qed

section \<open>What the process holds\<close>

text \<open>Compared with the kernel at the beginning: only BPF objects and raw sockets more, and no program attached that was not there.\<close>

definition kernel_clean :: "kernel \<Rightarrow> kernel \<Rightarrow> bool" where
  "kernel_clean k0 k \<longleftrightarrow> xdp_within (kn_xdp k0) {} k \<and> (\<exists>Y. kn_live k = kn_live k0 + Y \<and> kept_open Y)"

definition resources_ok :: "kernel \<Rightarrow> main_state \<Rightarrow> bool" where
  "resources_ok k0 m \<longleftrightarrow> (case mn_started m of None \<Rightarrow> kernel_clean k0 (mn_kernel m)
     | Some s \<Rightarrow> balanced (kn_live k0) (s\<lparr> su_kernel := mn_kernel m \<rparr>) \<and> attached_only (kn_xdp k0) (s\<lparr> su_kernel := mn_kernel m \<rparr>))"

definition main_inv :: "kernel \<Rightarrow> main_state \<Rightarrow> bool" where
  "main_inv k0 m \<longleftrightarrow> resources_ok k0 m \<and> (dm_thread_new (mn_d m) \<longrightarrow> dm_has_thread (mn_d m)) \<and>
     (mn_started m \<noteq> None \<longrightarrow> dm_has_thread (mn_d m) \<and> \<not> dm_thread_new (mn_d m)) \<and>
     (\<forall>c. mn_pc m = Exited c \<longrightarrow> \<not> dm_has_thread (mn_d m) \<and> mn_stop m)"

lemma xdp_within_subset: "(\<And>n. kn_xdp k' n = None \<or> kn_xdp k' n = kn_xdp k n) \<Longrightarrow> xdp_within X A k \<Longrightarrow> xdp_within X A k'"
  unfolding xdp_within_def by metis

lemma detach_one:
  "kn_live (detach_named f a k) = kn_live k" "kn_xdp (detach_named f a k) n = None \<or> kn_xdp (detach_named f a k) n = kn_xdp k n"
  by (auto simp: detach_named_def)

lemma fold_detach:
  "kn_live (fold (detach_named f) ns k) = kn_live k"
  "kn_xdp (fold (detach_named f) ns k) n = None \<or> kn_xdp (fold (detach_named f) ns k) n = kn_xdp k n"
proof (induction ns arbitrary: k)
  case (Cons a ns)
  { case 1 then show ?case using Cons(1) detach_one(1) by simp }
  { case 2 then show ?case using Cons(2) [of "detach_named f a k"] detach_one(2) [of f a k n] by auto }
qed simp_all

lemma detach_all:
  "kn_live (interface_xdp_detach_all_from_config f cfg k) = kn_live k"
  "kn_xdp (interface_xdp_detach_all_from_config f cfg k) n = None \<or> kn_xdp (interface_xdp_detach_all_from_config f cfg k) n = kn_xdp k n"
  unfolding interface_xdp_detach_all_from_config_def using fold_detach by (simp_all, metis)

lemma detach_all_clean: "kernel_clean k0 k \<Longrightarrow> kernel_clean k0 (interface_xdp_detach_all_from_config f cfg k)"
  using xdp_within_subset [OF detach_all(2)] by (simp add: kernel_clean_def detach_all(1))

lemma reset_maps_clean: "kernel_clean k0 k \<Longrightarrow> kernel_clean k0 (interface_reset_redirect_maps k)"
  by (simp add: kernel_clean_def xdp_within_def interface_reset_redirect_maps_def)

lemma runtime_detach_clean: "kernel_clean k0 k \<Longrightarrow> kernel_clean k0 (runtime_detach_xdp_from_config f d k)"
  by (simp add: runtime_detach_xdp_from_config_def Let_def detach_all_clean)

lemma join_clean:
  assumes "resources_ok k0 m"
  shows "\<exists>k. join_thread m = Some k \<and> kernel_clean k0 k"
proof (cases "mn_started m")
  case (Some s)
  let ?s = "s\<lparr> su_kernel := mn_kernel m \<rparr>"
  have b: "balanced (kn_live k0) ?s" "attached_only (kn_xdp k0) ?s" using assms Some by (simp_all add: resources_ok_def)
  obtain k Y where k: "cleanup_interfaces ?s = Some k" "kn_live k = kn_live k0 + Y" "kept_open Y" using cleanup_interfaces_law [OF b(1)] by blast
  with cleanup_interfaces_within [OF k(1) b(2)] Some show ?thesis by (auto simp: join_thread_def kernel_clean_def)
qed (use assms in \<open>simp add: join_thread_def resources_ok_def\<close>)

lemma stop_forwarder_inv:
  assumes "main_inv k0 m"
  shows "\<exists>m'. stop_forwarder f m = Some m' \<and> kernel_clean k0 (mn_kernel m') \<and> mn_started m' = None \<and> \<not> dm_has_thread (mn_d m') \<and>
    \<not> dm_thread_new (mn_d m') \<and> mn_pc m' = mn_pc m \<and> mn_stop m' = mn_stop m"
proof (cases "dm_has_thread (mn_d m)")
  case True
  have "resources_ok k0 m" using assms by (simp add: main_inv_def)
  then obtain k where "join_thread m = Some k" "kernel_clean k0 k" using join_clean by blast
  with True show ?thesis by (simp add: stop_forwarder_def runtime_stop_forwarder_def runtime_detach_clean)
next
  case False
  then have "mn_started m = None" using assms by (auto simp: main_inv_def)
  then show ?thesis using assms False by (auto simp: stop_forwarder_def main_inv_def resources_ok_def)
qed

section \<open>The flags of the thread\<close>

lemma apply_thread:
  assumes "apply_active_configs e d = (r, d')"
  shows "if dm_has_thread d then dm_has_thread d' \<and> dm_thread_new d' = dm_thread_new d
    else dm_has_thread d' \<and> dm_thread_new d' \<or> \<not> dm_has_thread d' \<and> dm_thread_new d' = dm_thread_new d"
  by (cases rule: apply_cases [OF assms]) (auto dest: reload_forwarder_ids)

lemma main_notify_thread:
  assumes "dm_thread_new d \<longrightarrow> dm_has_thread d" "main_notify e extra d = d'"
  shows "dm_thread_new d' \<longrightarrow> dm_has_thread d'" "dm_has_thread d \<Longrightarrow> dm_has_thread d' \<Longrightarrow> dm_thread_new d' = dm_thread_new d"
proof -
  define i where "i = parse_notify_profile_id extra"
  have "(dm_thread_new d' \<longrightarrow> dm_has_thread d') \<and> (dm_has_thread d \<longrightarrow> dm_has_thread d' \<longrightarrow> dm_thread_new d' = dm_thread_new d)"
  proof (cases "i \<le> 0")
    case True
    then show ?thesis using assms by (auto simp: main_notify_def i_def)
  next
    case False
    obtain r where r: "handle_profile_notify e i d = (r, d')" using assms(2) False by (cases "handle_profile_notify e i d") (auto simp: main_notify_def i_def)
    show ?thesis
      using r
    proof (cases rule: notify_cases)
      case (load ids d1 r1)
      from apply_thread [OF load(2)] load(3) assms(1) show ?thesis by (auto split: if_splits)
    next
      case (unload ids d1 r1)
      from apply_thread [OF unload(2)] unload(3) assms(1) show ?thesis by (auto simp: runtime_stop_forwarder_def split: if_splits)
    qed
  qed
  then show "dm_thread_new d' \<longrightarrow> dm_has_thread d'" "dm_has_thread d \<Longrightarrow> dm_has_thread d' \<Longrightarrow> dm_thread_new d' = dm_thread_new d" by auto
qed

section \<open>The start of the thread\<close>

lemma startup_clean:
  assumes "local_attach_ok e" "kernel_clean k0 k"
  shows "\<exists>r s fl rd. forwarder_init_sockets e ready peers cfg k = Some ((r, s), fl, rd) \<and>
    (if r = 0 then balanced (kn_live k0) s \<and> attached_only (kn_xdp k0) s else kernel_clean k0 (su_kernel s))"
proof -
  obtain r cfg1 fl rd where b: "(if config_wan_bridge_mode cfg \<and> ac_locals cfg \<noteq> []
      then bridge_mac_prepare_impl (se_bridge e) ready peers cfg else (0, cfg, peers, ready)) = (r, cfg1, fl, rd)"
    by (metis prod_cases4)
  let ?P = "\<lambda>s. balanced (kn_live k0) s \<and> attached_only (kn_xdp k0) s"
  have i: "?P \<lparr> su_cfg = cfg1, su_locals = [], su_wans = [], su_arp = [], su_wan_arp = [], su_kernel = k \<rparr>"
    using assms(2) by (auto simp: kernel_clean_def balanced_def attached_only_def su_indices_def)
  have l: "?P s \<Longrightarrow> \<exists>ok s'. init_locals e is s = Some (ok, s') \<and> ?P s'" for "is" s
    using init_locals_law [OF assms(1), of _ s "is"] init_locals_within [of e "is" s] by blast
  have a: "?P s \<Longrightarrow> \<exists>ok s'. start_local_arps e is s = Some (ok, s') \<and> ?P s'" for "is" s
    using start_local_arps_law [of _ s e "is"] start_arps_within(1) [of e "is" s] by blast
  have w: "?P s \<Longrightarrow> \<exists>ok s'. init_wans e is s = Some (ok, s') \<and> ?P s'" for "is" s
    using init_wans_law [of _ s e "is"] init_wans_within [of e "is" s] by blast
  have wa: "?P s \<Longrightarrow> \<exists>ok s'. start_wan_arps e is s = Some (ok, s') \<and> ?P s'" for "is" s
    using start_wan_arps_law [of _ s e "is"] start_arps_within(2) [of e "is" s] by blast
  have m: "?P s \<Longrightarrow> ?P (bridge_mac_install s)" for s by (simp add: bridge_mac_install_law bridge_install_within)
  have x: "?P s \<Longrightarrow> \<exists>s'. err_wans s = Some (-1, s') \<and> (if (-1 :: int) = 0 then ?P s' else kernel_clean k0 (su_kernel s'))" for s
    using err_wans_law [of "kn_live k0" s] err_wans_within [of s "-1"] by (auto simp: kernel_clean_def)
  have "\<exists>r s. forwarder_init_sockets e ready peers cfg k = Some ((r, s), fl, rd) \<and> (if r = 0 then ?P s else kernel_clean k0 (su_kernel s))"
    by (rule forwarder_init_stages [where P = ?P and Q = "\<lambda>r s. if r = 0 then ?P s else kernel_clean k0 (su_kernel s)", OF i b l m a w wa x]) simp_all
  then show ?thesis by blast
qed

lemma thread_main_flags:
  "dm_has_thread (forwarder_thread_main lib alloc now prep d) = dm_has_thread d"
  "\<not> dm_thread_new (forwarder_thread_main lib alloc now prep d)"
  by (auto simp: forwarder_thread_main_def forwarder_init_def Let_def split: prod.splits option.splits if_splits)

lemma thread_step_inv:
  assumes "main_inv k0 m" "dm_thread_new (mn_d m)" "local_attach_ok se"
  shows "\<exists>m'. thread_step f se lib alloc now m = Some m' \<and> main_inv k0 m'"
proof -
  let ?d = "mn_d m" and ?D = "forwarder_thread_main lib alloc now"
  have m: "kernel_clean k0 (mn_kernel m)" "mn_started m = None" "dm_has_thread ?d" "\<And>c. mn_pc m \<noteq> Exited c"
    using assms(1,2) by (auto simp: main_inv_def resources_ok_def split: option.splits)
  have inv: "main_inv k0 (m\<lparr> mn_d := ?D prep ?d, mn_kernel := k, mn_peers := fl, mn_ready := rd, mn_started := st \<rparr>)"
    if "case st of None \<Rightarrow> kernel_clean k0 k | Some s \<Rightarrow> balanced (kn_live k0) (s\<lparr> su_kernel := k \<rparr>) \<and> attached_only (kn_xdp k0) (s\<lparr> su_kernel := k \<rparr>)"
    for prep k fl rd st
    using that m by (simp add: main_inv_def resources_ok_def thread_main_flags split: option.splits)
  have same: "main_inv k0 (m\<lparr> mn_d := ?D prep ?d \<rparr>)" "kernel_clean k0 k \<Longrightarrow> main_inv k0 (m\<lparr> mn_d := ?D prep ?d, mn_kernel := k \<rparr>)" for prep k
    using m by (simp_all add: main_inv_def resources_ok_def thread_main_flags)
  show ?thesis
  proof (cases "dm_running ?d")
    case False
    then show ?thesis using same(1) by (simp add: thread_step_def)
  next
    case True
    let ?cfg = "dm_slots ?d ! dm_active_slot ?d"
    define k where "k = interface_reset_redirect_maps (interface_xdp_detach_all_from_config f ?cfg (mn_kernel m))"
    have k: "kernel_clean k0 k" unfolding k_def by (intro reset_maps_clean detach_all_clean m(1))
    obtain r cfg rest where c: "forwarder_init_crypto lib alloc now (set_queue_counts ?cfg) (dm_rt ?d) (dm_st ?d) = (r, cfg, rest)"
      by (metis prod_cases3)
    show ?thesis
    proof (cases "r = 0")
      case r: False
      then show ?thesis using True c same(2) [OF k] by (simp add: thread_step_def Let_def k_def [symmetric])
    next
      case r: True
      obtain r' s fl rd where i: "forwarder_init_sockets se (mn_ready m) (mn_peers m) cfg k = Some ((r', s), fl, rd)"
        "if r' = 0 then balanced (kn_live k0) s \<and> attached_only (kn_xdp k0) s else kernel_clean k0 (su_kernel s)"
        using startup_clean [OF assms(3) k] by blast
      have "s\<lparr> su_kernel := su_kernel s \<rparr> = s" by simp
      then have "main_inv k0 (m\<lparr> mn_d := ?D (\<lambda>_. if r' = 0 then Some (su_cfg s) else None) ?d, mn_kernel := su_kernel s, mn_peers := fl,
          mn_ready := rd, mn_started := if r' = 0 then Some s else None \<rparr>)"
        using i(2) by (intro inv) (simp split: if_splits)
      then show ?thesis using True c r i(1) by (simp add: thread_step_def Let_def k_def [symmetric])
    qed
  qed
qed

section \<open>All steps\<close>

lemma resources_ok_other [simp]:
  "resources_ok k0 (m\<lparr> mn_pc := p \<rparr>) = resources_ok k0 m" "resources_ok k0 (m\<lparr> mn_d := d \<rparr>) = resources_ok k0 m"
  "resources_ok k0 (m\<lparr> mn_stop := b, mn_d := d, mn_logged := l \<rparr>) = resources_ok k0 m"
  by (simp_all add: resources_ok_def split: option.split)

lemma exit_step_inv:
  assumes "main_inv k0 m" "mn_stop m"
  shows "\<exists>m'. exit_step f m = Some m' \<and> main_inv k0 m'"
proof -
  obtain m' where s: "stop_forwarder f m = Some m'" "kernel_clean k0 (mn_kernel m')" "mn_started m' = None" "\<not> dm_has_thread (mn_d m')"
    "\<not> dm_thread_new (mn_d m')" "mn_stop m' = mn_stop m"
    using stop_forwarder_inv [OF assms(1), of f] by blast
  with assms(2) show ?thesis by (simp add: exit_step_def main_inv_def resources_ok_def)
qed

lemma notify_step_inv:
  assumes "main_inv k0 m" "mn_pc m = Draining"
  shows "\<exists>m'. notify_step f e extra m = Some m' \<and> main_inv k0 m' \<and> mn_d m' = main_notify e extra (mn_d m)"
proof -
  define d where "d = main_notify e extra (mn_d m)"
  have "dm_thread_new (mn_d m) \<longrightarrow> dm_has_thread (mn_d m)" using assms(1) by (simp add: main_inv_def)
  note n = main_notify_thread [OF this d_def [symmetric]]
  show ?thesis
  proof (cases "dm_has_thread (mn_d m) \<and> \<not> dm_has_thread d")
    case True
    obtain m' where s: "stop_forwarder f m = Some m'" "kernel_clean k0 (mn_kernel m')" "mn_started m' = None" "mn_pc m' = mn_pc m"
      using stop_forwarder_inv [OF assms(1), of f] by blast
    with True n(1) assms(2) show ?thesis by (simp add: notify_step_def d_def [symmetric] main_inv_def resources_ok_def)
  next
    case False
    then have "main_inv k0 (m\<lparr> mn_d := d \<rparr>)" using assms n by (auto simp: main_inv_def)
    with False show ?thesis by (auto simp: notify_step_def d_def [symmetric])
  qed
qed

lemma thread_end_inv:
  assumes "main_inv k0 m"
  shows "\<exists>m'. thread_end_step m = Some m' \<and> main_inv k0 m'"
proof -
  have "resources_ok k0 m" using assms by (simp add: main_inv_def)
  then obtain k where "join_thread m = Some k" "kernel_clean k0 k" using join_clean by blast
  with assms show ?thesis by (simp add: thread_end_step_def main_inv_def resources_ok_def forwarder_thread_end_def)
qed

lemma poll_inv: "main_inv k0 m \<Longrightarrow> mn_pc m = At_select \<Longrightarrow> main_inv k0 (poll_step p m)"
  by (cases p) (simp_all add: poll_step_def main_inv_def)

lemma signal_inv: "main_inv k0 m \<Longrightarrow> main_inv k0 (fst (stop_signal m))"
  by (simp add: stop_signal_def main_inv_def on_stop_signal_def)

lemma main_step_inv:
  assumes "main_inv k0 m" "main_step local_attach_ok f m m'"
  shows "main_inv k0 m'"
  using assms(2)
proof (cases rule: main_step.cases)
  case (polled p)
  then show ?thesis using poll_inv [OF assms(1)] by simp
next
  case (notified e extra)
  then show ?thesis using notify_step_inv [OF assms(1)] by (metis option.inject)
next
  case drained
  then show ?thesis using assms(1) by (simp add: main_inv_def)
next
  case exits
  then show ?thesis using exit_step_inv [OF assms(1)] by (metis option.inject)
next
  case signalled
  then show ?thesis using signal_inv [OF assms(1)] by simp
next
  case (thread_starts se lib alloc now)
  then show ?thesis using thread_step_inv [OF assms(1)] by (metis option.inject)
next
  case thread_ends
  then show ?thesis using thread_end_inv [OF assms(1)] by (metis option.inject)
qed

lemma main_begin_inv: "main_inv k0 (main_begin (daemon_start rt st pt) k0 peers)"
  by (auto simp: main_inv_def main_begin_def resources_ok_def kernel_clean_def xdp_within_def daemon_start_def intro: exI [of _ "{#}"])

interpretation main_sc: step_invariant "main_begin (daemon_start rt st pt) k0 peers" "main_step local_attach_ok f" "main_inv k0"
  for rt st pt k0 peers f
  by unfold_locales (simp_all add: main_begin_inv main_step_inv)

text \<open>Until it exits, the process moves its daemon only as \<open>Daemon\<close> does.\<close>

lemma thread_step_daemon:
  "thread_step f se lib alloc now m = Some m' \<Longrightarrow> \<exists>prep. mn_d m' = forwarder_thread_main lib alloc now prep (mn_d m)"
  by (auto simp: thread_step_def Let_def split: if_splits prod.splits bind_splits)

lemma main_step_daemon:
  assumes "main_step p f m m'" "\<forall>c. mn_pc m' \<noteq> Exited c"
  shows "daemon_step\<^sup>=\<^sup>= (mn_d m) (mn_d m')"
  using assms(1)
proof (cases rule: main_step.cases)
  case (polled q)
  then show ?thesis by (cases q) (simp_all add: poll_step_def)
next
  case (notified e extra)
  then have "mn_d m' = main_notify e extra (mn_d m)" by (auto simp: notify_step_def Let_def split: if_splits bind_splits)
  then show ?thesis by (simp add: daemon_step.notified)
next
  case exits
  then show ?thesis using assms(2) by (auto simp: exit_step_def split: bind_splits)
next
  case signalled
  then show ?thesis by (simp add: stop_signal_def daemon_step.signalled)
next
  case (thread_starts se lib alloc now)
  with thread_step_daemon show ?thesis by (metis daemon_step.thread_starts sup2I1)
next
  case thread_ends
  then have "mn_d m' = forwarder_thread_end (mn_d m)" by (auto simp: thread_end_step_def split: bind_splits)
  with thread_ends show ?thesis by (simp add: daemon_step.thread_ends)
qed simp

section \<open>Properties\<close>

text \<open>C16: In a run in which attaching a program to a local interface never fails, the process gives back its memory, UMEMs and
  sockets when it exits. Whatever notifications, signals, other failures of the start and ends of the thread came in which
  order: no step releases a handle twice, stopping is always possible, and after the exit the memory, UMEMs and AF_XDP sockets
  in use are those from before, only BPF objects and raw sockets stay open, no interface has a program that it did not have
  before, and no forwarder thread is left. A run in which attaching does fail is not covered: its clean-up releases the
  sockets of the interface a second time (\<open>failed_local_cleanup\<close> in \<open>SocketLife\<close>).\<close>

theorem main_exit_releases:
  assumes "(main_step local_attach_ok nametoindex)\<^sup>*\<^sup>* (main_begin (daemon_start rt st pt) k0 peers) m"
  shows "stop_forwarder nametoindex m \<noteq> None \<and> thread_end_step m \<noteq> None \<and>
    (mn_pc m = Draining \<longrightarrow> notify_step nametoindex e extra m \<noteq> None) \<and>
    (dm_thread_new (mn_d m) \<longrightarrow> local_attach_ok se \<longrightarrow> thread_step nametoindex se lib alloc now m \<noteq> None) \<and>
    (mn_pc m = Exited c \<longrightarrow> \<not> dm_has_thread (mn_d m) \<and>
       (\<exists>X. kn_live (mn_kernel m) = kn_live k0 + X \<and> (\<forall>(h, r) \<in># X. r = Bpf \<or> r = RawSocket)) \<and>
       (\<forall>n. kn_xdp (mn_kernel m) n = None \<or> kn_xdp (mn_kernel m) n = kn_xdp k0 n))"
proof -
  have i: "main_inv k0 m" by (rule main_sc.reachable_inv [OF assms])
  have "kernel_clean k0 (mn_kernel m) \<and> \<not> dm_has_thread (mn_d m)" if "mn_pc m = Exited c"
    using i that by (auto simp: main_inv_def resources_ok_def split: option.splits)
  with i stop_forwarder_inv [OF i, of nametoindex] thread_end_inv [OF i] notify_step_inv [OF i, of nametoindex e extra]
    thread_step_inv [OF i, of se nametoindex lib alloc now]
  show ?thesis by (auto simp: kernel_clean_def kept_open_def xdp_within_def)
qed

text \<open>Until the exit the daemon inside the process is reachable in \<open>Daemon\<close>, so its invariant holds.\<close>

lemma main_reaches_daemon:
  assumes "(main_step p f)\<^sup>*\<^sup>* (main_begin d0 k0 peers) m" "\<forall>c. mn_pc m \<noteq> Exited c"
  shows "daemon_step\<^sup>*\<^sup>* d0 (mn_d m)"
  using assms
proof (induction rule: rtranclp_induct)
  case base
  then show ?case by (simp add: main_begin_def)
next
  case (step m1 m2)
  have n: "\<forall>c. mn_pc m1 \<noteq> Exited c"
  proof (intro allI notI)
    fix c assume e: "mn_pc m1 = Exited c"
    have "mn_pc m2 = Exited c"
      using step.hyps(2)
      by (cases rule: main_step.cases)
        (use e in \<open>auto simp: stop_signal_def thread_step_def thread_end_step_def Let_def split: if_splits bind_splits prod.splits\<close>)
    then show False using step.prems by blast
  qed
  from step.IH [OF n] main_step_daemon [OF step.hyps(2) step.prems] show ?case by (auto intro: rtranclp.rtrancl_into_rtrancl)
qed

lemma main_daemon_ok:
  assumes "(main_step p f)\<^sup>*\<^sup>* (main_begin (daemon_start rt st pt) k0 peers) m" "\<forall>c. mn_pc m \<noteq> Exited c"
  shows "daemon_ok (mn_d m)"
  by (rule daemon_invariant [OF main_reaches_daemon [OF assms]])

text \<open>A profile is loaded, the thread starts, a signal arrives, and the process exits.\<close>

lemma process_loads: "\<exists>d. main_notify (sample_env sample_conn) ''1'' (daemon_start rt st pt) = d \<and> dm_thread_new d \<and> dm_active_ids d = [1]"
proof -
  obtain m where m: "build_merged_config (config_load_from_db sample_sha256 sample_conn) [1] = Some m"
    using sample_merge by auto
  have "parse_notify_profile_id ''1'' = 1" by code_simp
  then show ?thesis using m
    by (simp add: main_notify_def handle_profile_notify_def ne_profile_id_exists_def sample_conn_def [of 1] sample_db_rows_def
        load_profile_and_run_def active_ids_add_def MAX_ACTIVE_PROFILE_IDS_def apply_active_configs_def runtime_start_def
        sample_env_def daemon_start_def)
qed

theorem main_exit_releases_witness:
  "\<exists>m k0. (main_step local_attach_ok (\<lambda>_. 3))\<^sup>*\<^sup>* (main_begin sample_start k0 None) m \<and> mn_pc m = Exited 0 \<and>
     dm_active_ids (mn_d m) = [1] \<and> \<not> dm_has_thread (mn_d m) \<and>
     (\<forall>n. kn_xdp (mn_kernel m) n = None \<or> kn_xdp (mn_kernel m) n = kn_xdp k0 n)"
proof -
  let ?step = "main_step local_attach_ok (\<lambda>_. 3)" and ?m0 = "main_begin sample_start boot_kernel None"
  define d where "d = main_notify (sample_env sample_conn) ''1'' sample_start"
  have d: "dm_thread_new d" "dm_active_ids d = [1]" using process_loads unfolding d_def sample_start_def by blast+
  note inv = main_sc.reachable_inv [of "\<lambda>_. 3" crypto_runtime_init "sample_crypto 1" "\<lparr> pins_inited = False, pins = \<lambda>_. [] \<rparr>" boot_kernel None,
      folded sample_start_def]
  define m1 where "m1 = ?m0\<lparr> mn_pc := Draining \<rparr>"
  have "?step ?m0 (poll_step Input ?m0)" by (rule polled) (simp_all add: main_begin_def)
  then have s1: "?step\<^sup>*\<^sup>* ?m0 m1" by (simp add: m1_def poll_step_def r_into_rtranclp)
  have e: "main_inv boot_kernel m1" "mn_pc m1 = Draining" using inv [OF s1] by (simp_all add: m1_def)
  have md: "mn_d m1 = sample_start" by (simp add: m1_def main_begin_def)
  obtain m2 where m2: "notify_step (\<lambda>_. 3) (sample_env sample_conn) ''1'' m1 = Some m2" "mn_d m2 = d"
    using notify_step_inv [OF e, of "\<lambda>_. 3" "sample_env sample_conn" "''1''"] unfolding d_def md by blast
  have p2: "mn_pc m2 = Draining" using m2(1) e(2) by (auto simp: notify_step_def stop_forwarder_def Let_def split: if_splits bind_splits)
  have s2: "?step\<^sup>*\<^sup>* ?m0 m2" by (rule rtranclp.rtrancl_into_rtrancl [OF s1 notified [OF e(2) m2(1)]])
  have n: "dm_thread_new (mn_d m2)" using d(1) m2(2) by simp
  obtain m3 where m3: "thread_step (\<lambda>_. 3) sample_start_env toy_lib True 1 m2 = Some m3"
    using thread_step_inv [OF inv [OF s2] n sample_reaches(3), of "\<lambda>_. 3" toy_lib True 1] by blast
  have s3: "?step\<^sup>*\<^sup>* ?m0 m3" by (rule rtranclp.rtrancl_into_rtrancl [OF s2 thread_starts [where possible = local_attach_ok, OF n sample_reaches(3) m3]])
  have p3: "mn_pc m3 = Draining" "dm_active_ids (mn_d m3) = [1]"
    using m3 p2 d(2) m2(2)
    by (auto simp: thread_step_def forwarder_thread_main_def forwarder_init_def Let_def split: if_splits bind_splits prod.splits option.splits)
  define m4 where "m4 = fst (stop_signal (m3\<lparr> mn_pc := At_select \<rparr>))"
  have s4: "?step\<^sup>*\<^sup>* ?m0 m4"
    unfolding m4_def by (rule rtranclp.rtrancl_into_rtrancl [OF rtranclp.rtrancl_into_rtrancl [OF s3 drained [OF p3(1)]] signalled])
  have p4: "mn_pc m4 = At_select" "mn_stop m4" "dm_active_ids (mn_d m4) = [1]" using p3 by (simp_all add: m4_def stop_signal_def on_stop_signal_def)
  obtain m5 where m5: "exit_step (\<lambda>_. 3) m4 = Some m5" using exit_step_inv [OF inv [OF s4] p4(2), of "\<lambda>_. 3"] by blast
  have s5: "?step\<^sup>*\<^sup>* ?m0 m5" by (rule rtranclp.rtrancl_into_rtrancl [OF s4 exits [OF p4(1,2) m5]])
  have p5: "mn_pc m5 = Exited 0" "dm_active_ids (mn_d m5) = [1]"
    using m5 p4(3) by (auto simp: exit_step_def stop_forwarder_def runtime_stop_forwarder_def split: if_splits bind_splits)
  note main_exit_releases [OF s5 [unfolded sample_start_def]]
  with p5 s5 show ?thesis by (intro exI [of _ m5] exI [of _ boot_kernel]) blast
qed

end
