(* ===== verification/Rounds.thy ===== *)
theory Rounds
  imports Uplink Downlink "HOL-Library.Multiset"
begin

text \<open>
  One round of the loop of every packet thread in \<open>src/core/forwarder.c\<close>: the packets of a received batch (or the next job of
  the worker), the flush of the transmit queues that were used, and the return of the frames. A batch is a list of packets with
  their lengths and addresses; an empty one is the \<open>continue\<close> after a receive that gave nothing. A flush is the interface and the
  queue for which \<open>interface_send_flush_queue\<close> or \<open>interface_send_to_local_flush_queue\<close> is called. The gate that a round
  passes is \<open>ReloadGate\<close>. At the end any interleaving of local threads and the worker.
\<close>

section \<open>Uplink\<close>

type_synonym batch = "(buf \<times> nat \<times> u64) list"

text \<open>\<open>int wan_used[MAX_INTERFACES] = {0}\<close> at the start of a round; \<open>ul_send\<close> sets a flag, the flush at the end reads them.\<close>

definition clear_wan_used :: "uplink \<Rightarrow> uplink" where
  "clear_wan_used s = s\<lparr> ul_used := (\<lambda>_. False) \<rparr>"

definition flush_wans :: "uplink_env \<Rightarrow> int \<Rightarrow> uplink \<Rightarrow> (nat \<times> nat) list" where
  "flush_wans env tx_base s =
     map (\<lambda>w. (w, ul_tx_queue env tx_base w)) (filter (ul_used s) [0..<length (ac_wans (ue_cfg env))])"

definition local_round ::
  "(buf \<times> nat \<Rightarrow> uplink \<Rightarrow> uplink option) \<Rightarrow> uplink_env \<Rightarrow> int \<Rightarrow> int \<Rightarrow> int \<Rightarrow> batch \<Rightarrow> uplink \<Rightarrow> (uplink \<times> (nat \<times> nat) list) option" where
  "local_round body env local_idx queue_idx tx_base ps s =
     (if ps = [] then Some (s, [])
      else do {
        t \<leftarrow> uplink_batch body (map (\<lambda>p. (fst p, fst (snd p))) ps) (clear_wan_used s);
        Some (t\<lparr> ul_released := ul_released t @ map (\<lambda>p. (local_idx, queue_idx, snd (snd p))) ps \<rparr>,
              flush_wans env tx_base t) })"

definition local_no_crypto_round ::
  "uplink_env \<Rightarrow> int \<Rightarrow> int \<Rightarrow> int \<Rightarrow> batch \<Rightarrow> uplink \<Rightarrow> (uplink \<times> (nat \<times> nat) list) option" where
  "local_no_crypto_round env local_idx queue_idx tx_base =
     local_round (\<lambda>p. local_no_crypto_packet env local_idx tx_base (fst p) (snd p)) env local_idx queue_idx tx_base"

definition local_l2_round ::
  "uplink_env \<Rightarrow> int \<Rightarrow> int \<Rightarrow> int \<Rightarrow> batch \<Rightarrow> uplink \<Rightarrow> (uplink \<times> (nat \<times> nat) list) option" where
  "local_l2_round env local_idx queue_idx tx_base =
     local_round (\<lambda>p. local_l2_packet env local_idx tx_base (fst p) (snd p)) env local_idx queue_idx tx_base"

definition batch_job :: "int \<Rightarrow> int \<Rightarrow> int \<Rightarrow> buf \<times> nat \<times> u64 \<Rightarrow> packet_job" where
  "batch_job local_idx queue_idx tx_base p =
     \<lparr> pj_has_fwd = True, pj_local_idx = local_idx, pj_queue_idx = queue_idx, pj_tx_queue_base = tx_base,
       pj_pkt = fst p, pj_pkt_len = fst (snd p), pj_addr = snd (snd p) \<rparr>"

fun local_l3l4_round :: "int \<Rightarrow> int \<Rightarrow> int \<Rightarrow> batch \<Rightarrow> worker_ring \<times> uplink \<Rightarrow> worker_ring \<times> uplink" where
  "local_l3l4_round local_idx queue_idx tx_base [] rs = rs"
| "local_l3l4_round local_idx queue_idx tx_base (p # ps) rs =
     local_l3l4_round local_idx queue_idx tx_base ps
       (local_enqueue_packet (batch_job local_idx queue_idx tx_base p) (fst rs) (snd rs))"

text \<open>The worker jumps over the flush (\<open>goto release_local\<close>) only where no flag can be set, so the flush is not
  conditional here.\<close>

definition worker_round :: "uplink_env \<Rightarrow> worker_ring \<times> uplink \<Rightarrow> ((worker_ring \<times> uplink) \<times> (nat \<times> nat) list) option" where
  "worker_round env rs =
     (case ring_dequeue (fst rs) of
        (None, ring) \<Rightarrow> Some ((ring, snd rs), [])
      | (Some job, ring) \<Rightarrow> do {
          s \<leftarrow> worker_packet env job (clear_wan_used (snd rs));
          Some ((ring, s), flush_wans env (pj_tx_queue_base job) s) })"

section \<open>Downlink\<close>

text \<open>\<open>uint32_t local_used_queues[MAX_INTERFACES] = {0}\<close> at the start; \<open>dl_transmit\<close> sets the bit of a queue.\<close>

definition clear_local_used :: "downlink \<Rightarrow> downlink" where
  "clear_local_used s = s\<lparr> dl_used := (\<lambda>_. 0) \<rparr>"

definition flush_locals :: "downlink_env \<Rightarrow> downlink \<Rightarrow> (nat \<times> nat) list" where
  "flush_locals env s =
     concat (map (\<lambda>l. map (Pair l) (filter (bit (dl_used s l)) [0..<min 32 (nat (de_local_queues env ! l))]))
               [0..<length (ac_locals (de_cfg env))])"

definition wan_round ::
  "(downlink_env \<Rightarrow> batch \<Rightarrow> downlink \<Rightarrow> (downlink \<times> u64 list) option) \<Rightarrow> downlink_env \<Rightarrow> batch \<Rightarrow> downlink
     \<Rightarrow> (downlink \<times> u64 list \<times> (nat \<times> nat) list) option" where
  "wan_round thread env ps s =
     (if ps = [] then Some (s, [], [])
      else do { (t, released) \<leftarrow> thread env ps (clear_local_used s); Some (t, released, flush_locals env t) })"

definition wan_no_crypto_round :: "downlink_env \<Rightarrow> batch \<Rightarrow> downlink \<Rightarrow> (downlink \<times> u64 list \<times> (nat \<times> nat) list) option" where
  "wan_no_crypto_round = wan_round wan_queue_thread_no_crypto"

definition wan_l2_round :: "downlink_env \<Rightarrow> batch \<Rightarrow> downlink \<Rightarrow> (downlink \<times> u64 list \<times> (nat \<times> nat) list) option" where
  "wan_l2_round = wan_round wan_queue_thread_l2"

definition wan_l3l4_round :: "downlink_env \<Rightarrow> batch \<Rightarrow> downlink \<Rightarrow> (downlink \<times> u64 list \<times> (nat \<times> nat) list) option" where
  "wan_l3l4_round = wan_round wan_queue_thread_l3l4"

section \<open>Local threads and worker together\<close>

text \<open>One round of a local thread or of the worker; the worker's environment may change from round to round, as after a reload.\<close>

datatype uplink_event = Received int int int batch | Work uplink_env

fun uplink_event_round ::
  "uplink_event \<Rightarrow> worker_ring \<times> uplink \<Rightarrow> ((worker_ring \<times> uplink) \<times> (nat \<times> nat) list) option" where
  "uplink_event_round (Received local_idx queue_idx tx_base ps) rs = Some (local_l3l4_round local_idx queue_idx tx_base ps rs, [])"
| "uplink_event_round (Work env) rs = worker_round env rs"

fun uplink_run ::
  "uplink_event list \<Rightarrow> worker_ring \<times> uplink \<Rightarrow> ((worker_ring \<times> uplink) \<times> (nat \<times> nat) list) option" where
  "uplink_run [] rs = Some (rs, [])"
| "uplink_run (e # es) rs = do {
     (rs, fs) \<leftarrow> uplink_event_round e rs;
     (rs, gs) \<leftarrow> uplink_run es rs;
     Some (rs, fs @ gs) }"

section \<open>Which queues are used\<close>

definition sends_on :: "nat \<Rightarrow> nat \<Rightarrow> uplink \<Rightarrow> uplink \<Rightarrow> bool" where
  "sends_on wan tq s s' \<longleftrightarrow> (\<exists>fs. ul_sent s' = ul_sent s @ fs \<and> list_all (\<lambda>x. fst x = wan \<and> fst (snd x) = tq) fs \<and>
     ul_used s' = (if fs = [] then ul_used s else (ul_used s)(wan := True)))"

text \<open>Neither a frame was sent nor a flag set.\<close>

definition quiet :: "uplink \<Rightarrow> uplink \<Rightarrow> bool" where
  "quiet s s' \<longleftrightarrow> ul_sent s' = ul_sent s \<and> ul_used s' = ul_used s"

lemma sends_on_none: "quiet s s' \<Longrightarrow> sends_on wan tq s s'"
  by (simp add: sends_on_def quiet_def)

lemma sends_on_trans:
  assumes "sends_on wan tq s t" "sends_on wan tq t u"
  shows "sends_on wan tq s u"
proof -
  obtain fs gs where "ul_sent t = ul_sent s @ fs" "list_all (\<lambda>x. fst x = wan \<and> fst (snd x) = tq) fs"
    "ul_used t = (if fs = [] then ul_used s else (ul_used s)(wan := True))"
    "ul_sent u = ul_sent t @ gs" "list_all (\<lambda>x. fst x = wan \<and> fst (snd x) = tq) gs"
    "ul_used u = (if gs = [] then ul_used t else (ul_used t)(wan := True))"
    using assms by (auto simp: sends_on_def)
  then show ?thesis unfolding sends_on_def by (intro exI [of _ "fs @ gs"]) auto
qed

lemma sends_on_quiet: "quiet s t \<Longrightarrow> sends_on wan tq t u = sends_on wan tq s u"
  by (simp add: sends_on_def quiet_def)

lemma quiet_drop [simp]: "quiet s (ul_drop t) = quiet s t"
  by (simp add: quiet_def ul_drop_def)

lemma quiet_st [simp]: "quiet s (t\<lparr> ul_st := st \<rparr>) = quiet s t" "quiet s (t\<lparr> ul_frag_id := c \<rparr>) = quiet s t" "quiet s s"
  "quiet (s\<lparr> ul_st := st \<rparr>) t = quiet s t" "quiet (s\<lparr> ul_frag_id := c \<rparr>) t = quiet s t"
  by (simp_all add: quiet_def)

lemma quiet_trans [trans]: "quiet s t \<Longrightarrow> quiet t u \<Longrightarrow> quiet s u"
  by (simp add: quiet_def)

lemma ul_set_wan_quiet: "ul_set_wan env wan pkt s = Some (rc, pkt', s') \<Longrightarrow> quiet s s'"
  by (auto simp: ul_set_wan_def quiet_def bind_eq_Some_conv split: option.splits)

lemma ul_select_wan_quiet: "ul_select_wan env i pkt n fl s = Some (wan, s') \<Longrightarrow> quiet s s'"
  by (auto simp: ul_select_wan_def quiet_def bind_eq_Some_conv)

lemma worker_select_quiet: "quiet s (snd (worker_select env i fl s))"
  by (simp add: quiet_def worker_select_def worker_policy_def worker_pin_def Let_def case_prod_beta split: option.split verdict.split)

lemma ul_send_on: "quiet s t \<Longrightarrow> sends_on wan tq s (ul_send env wan tq frame t)"
  by (auto simp: sends_on_def quiet_def ul_send_def ul_drop_def Let_def)

lemma ul_send_plain_on: "ul_send_plain env wan tq pkt n s = Some s' \<Longrightarrow> sends_on wan tq s s'"
  by (auto simp: ul_send_plain_def sends_on_none ul_send_on dest!: ul_set_wan_quiet split: bind_splits if_splits)

lemma ul_send_pieces_on:
  assumes "ul_send_pieces env wan tq r s = Some (sent, s')"
  shows "sends_on wan tq s s'"
proof -
  obtain rc c st f1 l1 f2 l2 where r: "r = (rc, c, st, (f1, l1), (f2, l2))" by (metis prod.collapse)
  have two: "sends_on wan tq s (ul_send env wan tq p2 (ul_send env wan tq p1 t))" if "quiet s t" for p1 p2 t
    by (rule sends_on_trans [OF ul_send_on [OF that] ul_send_on]) (rule quiet_st(3))
  show ?thesis
    using assms
    by (auto simp: ul_send_pieces_def r Let_def dest!: ul_set_wan_quiet split: bind_splits if_splits)
      (auto intro: two quiet_trans sends_on_none [OF quiet_drop [THEN iffD2]])
qed

lemma worker_seal_on:
  assumes "worker_seal env pi wan tq pkt n s = Some (sent, s')"
  shows "sends_on wan tq s s'"
proof -
  obtain rc p t where t: "ul_set_wan env wan pkt s = Some (rc, p, t)"
    using assms by (auto simp: worker_seal_def split: bind_splits)
  have one: "sends_on wan tq t (ul_send env wan tq frame (t\<lparr> ul_st := st \<rparr>))" for frame st
    by (rule ul_send_on) simp
  have "sends_on wan tq t s'"
    using assms one
    by (auto simp: worker_seal_def t Let_def sends_on_none dest: ul_send_pieces_on split: bind_splits if_splits option.splits)
  with sends_on_quiet [OF ul_set_wan_quiet [OF t]] show ?thesis by simp
qed

lemma worker_dispatch_on:
  assumes "worker_dispatch env job fl flags wan tq s = Some s'"
  shows "sends_on wan tq s s'"
proof (cases "rt_enabled (ue_rt env)")
  case True
  obtain v t where t: "worker_select env (pj_local_idx job) fl s = (v, t)" by fastforce
  have unpin: "sends_on wan tq t (worker_unpin fl flags u) = sends_on wan tq t u" for u
    by (simp add: sends_on_def worker_unpin_def split: option.split)
  have "sends_on wan tq t s'"
    using assms True
    by (auto simp: worker_dispatch_def t unpin sends_on_none dest: ul_send_plain_on worker_seal_on
        split: bind_splits verdict.splits if_splits)
  moreover have "quiet s t" using worker_select_quiet [of s env "pj_local_idx job" fl] t by simp
  ultimately show ?thesis by (simp add: sends_on_quiet)
qed (use assms ul_send_plain_on in \<open>auto simp: worker_dispatch_def\<close>)

section \<open>Everything sent is announced\<close>

text \<open>The frames of a step lie in queues of the thread, one per WAN.\<close>

definition sends_flushed :: "uplink_env \<Rightarrow> int \<Rightarrow> uplink \<Rightarrow> uplink \<Rightarrow> bool" where
  "sends_flushed env tx_base s s' \<longleftrightarrow>
     (\<exists>fs. ul_sent s' = ul_sent s @ fs \<and>
           (\<forall>x \<in> set fs. fst x < length (ac_wans (ue_cfg env)) \<and> fst (snd x) = ul_tx_queue env tx_base (fst x)) \<and>
           (\<forall>w. ul_used s' w \<longleftrightarrow> ul_used s w \<or> w \<in> fst ` set fs))"

lemma sends_flushed_refl: "quiet s s' \<Longrightarrow> sends_flushed env tx_base s s'"
  by (simp add: sends_flushed_def quiet_def)

lemma sends_flushed_trans:
  assumes "sends_flushed env tx_base s t" "sends_flushed env tx_base t u"
  shows "sends_flushed env tx_base s u"
proof -
  obtain fs gs where "ul_sent t = ul_sent s @ fs" "ul_sent u = ul_sent t @ gs"
    "\<forall>x \<in> set fs. fst x < length (ac_wans (ue_cfg env)) \<and> fst (snd x) = ul_tx_queue env tx_base (fst x)"
    "\<forall>x \<in> set gs. fst x < length (ac_wans (ue_cfg env)) \<and> fst (snd x) = ul_tx_queue env tx_base (fst x)"
    "\<forall>w. ul_used t w \<longleftrightarrow> ul_used s w \<or> w \<in> fst ` set fs" "\<forall>w. ul_used u w \<longleftrightarrow> ul_used t w \<or> w \<in> fst ` set gs"
    using assms unfolding sends_flushed_def by blast
  then show ?thesis unfolding sends_flushed_def by (intro exI [of _ "fs @ gs"]) auto
qed

lemma sends_on_flushed:
  assumes "wan < length (ac_wans (ue_cfg env))" "sends_on wan (ul_tx_queue env tx_base wan) s s'"
  shows "sends_flushed env tx_base s s'"
proof -
  obtain fs where "ul_sent s' = ul_sent s @ fs" "\<forall>x \<in> set fs. fst x = wan \<and> fst (snd x) = ul_tx_queue env tx_base wan"
    "ul_used s' = (if fs = [] then ul_used s else (ul_used s)(wan := True))"
    using assms(2) by (auto simp: sends_on_def list_all_iff)
  then show ?thesis
    unfolding sends_flushed_def using assms(1) by (intro exI [of _ fs]) (cases fs, auto)
qed

text \<open>What the flags make \<open>flush_wans\<close> cover: the rings that were used in the round, and no other.\<close>

lemma flush_wans_covers:
  assumes "sends_flushed env tx_base (clear_wan_used s) s'"
  shows "\<exists>fs. ul_sent s' = ul_sent s @ fs \<and> set (flush_wans env tx_base s') = (\<lambda>x. (fst x, fst (snd x))) ` set fs"
proof -
  obtain fs where fs: "ul_sent s' = ul_sent s @ fs"
    "\<forall>x \<in> set fs. fst x < length (ac_wans (ue_cfg env)) \<and> fst (snd x) = ul_tx_queue env tx_base (fst x)"
    "\<forall>w. ul_used s' w \<longleftrightarrow> w \<in> fst ` set fs"
    using assms by (auto simp: sends_flushed_def clear_wan_used_def)
  then have "set (flush_wans env tx_base s') = (\<lambda>x. (fst x, fst (snd x))) ` set fs"
    by (force simp: flush_wans_def)
  with fs(1) show ?thesis by blast
qed

lemma clear_wan_used_sel [simp]:
  "ul_sent (clear_wan_used s) = ul_sent s" "ul_released (clear_wan_used s) = ul_released s" "ul_dropped (clear_wan_used s) = ul_dropped s"
  "ul_local_to_wan (clear_wan_used s) = ul_local_to_wan s"
  by (simp_all add: clear_wan_used_def)

lemma selected_flushed:
  assumes "uplink_env_ok env" "ul_select_wan env i pkt n fl s = Some (wan, t)" "sends_on wan (ul_tx_queue env tx_base wan) t s'"
  shows "sends_flushed env tx_base s s'"
proof -
  have "sends_on wan (ul_tx_queue env tx_base wan) s s'"
    using assms(3) sends_on_quiet [OF ul_select_wan_quiet [OF assms(2)]] by simp
  with ul_select_wan_range [OF assms(1,2)] show ?thesis by (rule sends_on_flushed)
qed

lemma worker_packet_flushed:
  assumes "uplink_env_ok env" "worker_packet env job s = Some s'"
  shows "sends_flushed env (pj_tx_queue_base job) s s'"
proof (cases "pj_has_fwd job")
  case True
  from worker_packet_split [OF assms(2) True] obtain fl flags wan s1 t where
    r: "ul_select_wan env (pj_local_idx job) (pj_pkt job) (pj_pkt_len job) fl s = Some (wan, s1)"
       "worker_dispatch env job fl flags wan (ul_tx_queue env (pj_tx_queue_base job) wan) s1 = Some t"
       "s' = ul_release env job t" by metis
  have "sends_on wan (ul_tx_queue env (pj_tx_queue_base job) wan) s1 s'"
    using worker_dispatch_on [OF r(2)] by (simp add: sends_on_def r(3) ul_release_def)
  with assms(1) r(1) show ?thesis by (rule selected_flushed)
qed (use assms in \<open>simp add: worker_packet_def sends_flushed_refl\<close>)

lemma local_no_crypto_packet_flushed:
  assumes "uplink_env_ok env" "local_no_crypto_packet env i tx_base pkt n s = Some s'"
  shows "sends_flushed env tx_base s s'"
proof -
  obtain fl wan t where t: "ul_select_wan env i pkt n fl s = Some (wan, t)"
    "ul_send_plain env wan (ul_tx_queue env tx_base wan) pkt n t = Some s'"
    using assms(2) by (auto simp: local_no_crypto_packet_def split: bind_splits)
  show ?thesis by (rule selected_flushed [OF assms(1) t(1) ul_send_plain_on [OF t(2)]])
qed

lemma encrypt_sends:
  assumes "do {
      (rc, st, pkt, n) \<leftarrow> encrypt_packet_with_ctx lib en ctx st0 pkt pkt_len;
      if rc \<noteq> 0 then Some (ul_drop (v\<lparr> ul_st := st \<rparr>))
      else do { frame \<leftarrow> rdn pkt 0 n; Some (ul_send env wan tq frame (v\<lparr> ul_st := st \<rparr>)) } } = Some s'"
    and "quiet s v"
  shows "sends_on wan tq s s'"
  using assms by (auto simp: sends_on_none ul_send_on split: bind_splits if_splits)

lemma local_l2_packet_flushed:
  assumes "uplink_env_ok env" "local_l2_packet env i tx_base pkt n s = Some s'"
  shows "sends_flushed env tx_base s s'"
proof -
  obtain fl wan t where f: "parse_flow pkt n = Some fl" and t: "ul_select_wan env i pkt n fl s = Some (wan, t)"
    using assms(2) by (auto simp: local_l2_packet_def bind_eq_Some_conv)
  define tq where "tq = ul_tx_queue env tx_base wan"
  obtain rc p u where u: "ul_set_wan env wan pkt t = Some (rc, p, u)"
    using assms(2) f t by (cases "ul_set_wan env wan pkt t") (auto simp: local_l2_packet_def Let_def)
  note run = assms(2) [unfolded local_l2_packet_def f t u bind.bind_lunit prod.case Let_def, folded tq_def]
  have e: "quiet t u" by (rule ul_set_wan_quiet [OF u])
  have "sends_on wan tq t s'"
  proof (cases "rc = 0")
    case True
    note run' = run [unfolded True, simplified]
    show ?thesis
    proof (cases "l2_verdict env fl (case fl of None \<Rightarrow> None | Some f \<Rightarrow> crypto_select_policy_for_local (ue_cfg env) i
        (fw_src_ip f) (fw_dst_ip f) (fw_src_port f) (fw_dst_port f) (fw_protocol f))")
      case (Inl v)
      show ?thesis
      proof (cases v)
        case (Seal pi)
        let ?st = "crypto_apply_from_policy (ac_policies (ue_cfg env) ! pi) (ul_st u)"
        show ?thesis
        proof (cases "frag_need_split_l2 ?st n")
          case True
          then obtain r sent where r: "ul_send_pieces env wan tq r (u\<lparr> ul_st := ?st \<rparr>) = Some (sent, s')"
            using run' Inl Seal by (auto simp: bind_eq_Some_conv)
          show ?thesis using ul_send_pieces_on [OF r] e sends_on_quiet [of t "u\<lparr> ul_st := ?st \<rparr>"] by simp
        next
          case False
          then show ?thesis using run' Inl Seal e by (intro encrypt_sends [where v = "u\<lparr> ul_st := ?st \<rparr>"]) simp_all
        qed
      qed (use run' Inl e in \<open>auto simp: sends_on_none ul_send_on bind_eq_Some_conv\<close>)
    next
      case (Inr v)
      then have "v = ()" by simp
      with Inr show ?thesis using run' e by (intro encrypt_sends [where v = u]) (simp_all add: case_unit_Unity)
    qed
  qed (use run e in \<open>auto simp: sends_on_none\<close>)
  then show ?thesis unfolding tq_def by (rule selected_flushed [OF assms(1) t])
qed

lemma uplink_batch_flushed:
  assumes "\<And>p s t. body p s = Some t \<Longrightarrow> sends_flushed env tx_base s t"
  shows "uplink_batch body ps s = Some t \<Longrightarrow> sends_flushed env tx_base s t"
proof (induction ps arbitrary: s)
  case (Cons p ps)
  then obtain u where "body p s = Some u" "uplink_batch body ps u = Some t" by (auto split: bind_splits)
  with Cons.IH assms sends_flushed_trans show ?case by blast
qed (simp add: sends_flushed_refl)

text \<open>Every frame of a local round is announced, and the frames of the batch return in order.\<close>

lemma local_round_announces:
  assumes "\<And>p s t. body p s = Some t \<Longrightarrow> sends_flushed env tx_base s t"
    and "local_round body env local_idx queue_idx tx_base ps s = Some (s', flushed)"
  shows "\<exists>fs. ul_sent s' = ul_sent s @ fs \<and> set flushed = (\<lambda>x. (fst x, fst (snd x))) ` set fs"
proof (cases "ps = []")
  case False
  then obtain t where t: "uplink_batch body (map (\<lambda>p. (fst p, fst (snd p))) ps) (clear_wan_used s) = Some t" "ul_sent s' = ul_sent t"
    "flushed = flush_wans env tx_base t"
    using assms(2) by (auto simp: local_round_def split: bind_splits)
  from flush_wans_covers [OF uplink_batch_flushed [OF assms(1) t(1)]] show ?thesis by (simp add: t(2,3))
qed (use assms(2) in \<open>simp add: local_round_def\<close>)

lemmas local_no_crypto_round_announces =
  local_round_announces [OF local_no_crypto_packet_flushed, folded local_no_crypto_round_def]

lemmas local_l2_round_announces = local_round_announces [OF local_l2_packet_flushed, folded local_l2_round_def]

section \<open>The run of local threads and worker\<close>

abbreviation frame_of :: "packet_job \<Rightarrow> int \<times> int \<times> u64" where
  "frame_of job \<equiv> (pj_local_idx job, pj_queue_idx job, pj_addr job)"

text \<open>The frames that an event receives.\<close>

fun received :: "uplink_event \<Rightarrow> (int \<times> int \<times> u64) list" where
  "received (Received local_idx queue_idx tx_base ps) = map (\<lambda>p. (local_idx, queue_idx, snd (snd p))) ps"
| "received (Work env) = []"

text \<open>A job of one of the first \<open>n\<close> local interfaces; a worker knows at least these.\<close>

definition job_ok :: "nat \<Rightarrow> packet_job \<Rightarrow> bool" where
  "job_ok n job \<longleftrightarrow> pj_has_fwd job \<and> 0 \<le> pj_local_idx job \<and> pj_local_idx job < int n"

fun event_ok :: "nat \<Rightarrow> uplink_event \<Rightarrow> bool" where
  "event_ok n (Received local_idx queue_idx tx_base ps) \<longleftrightarrow> 0 \<le> local_idx \<and> local_idx < int n"
| "event_ok n (Work env) \<longleftrightarrow> uplink_env_ok env \<and> n \<le> length (ac_locals (ue_cfg env))"

text \<open>Between two states: \<open>k\<close> more frames have been returned, of which each was sent, at least in part, or counted as dropped.\<close>

definition uplink_accounts :: "(nat \<times> nat \<times> u8 list) list \<Rightarrow> (int \<times> int \<times> u64) list \<Rightarrow> uplink \<Rightarrow> uplink \<Rightarrow> bool" where
  "uplink_accounts fs as s s' \<longleftrightarrow>
     ul_sent s' = ul_sent s @ fs \<and> ul_released s' = ul_released s @ as \<and>
     ul_local_to_wan s' = ul_local_to_wan s + of_nat (length fs) \<and>
     (\<exists>d. ul_dropped s' = ul_dropped s + of_nat d \<and> length as \<le> length fs + d \<and> length fs + d \<le> 2 * length as)"

lemma uplink_accounts_trans:
  assumes "uplink_accounts fs as s t" "uplink_accounts gs bs t u"
  shows "uplink_accounts (fs @ gs) (as @ bs) s u"
proof -
  obtain d e where "ul_dropped t = ul_dropped s + of_nat d" "length as \<le> length fs + d" "length fs + d \<le> 2 * length as"
    "ul_dropped u = ul_dropped t + of_nat e" "length bs \<le> length gs + e" "length gs + e \<le> 2 * length bs"
    using assms by (auto simp: uplink_accounts_def)
  then have "ul_dropped u = ul_dropped s + of_nat (d + e) \<and> length (as @ bs) \<le> length (fs @ gs) + (d + e) \<and>
      length (fs @ gs) + (d + e) \<le> 2 * length (as @ bs)" by simp
  with assms show ?thesis unfolding uplink_accounts_def by (intro conjI exI [of _ "d + e"]) simp_all
qed

lemma uplink_accounts_refl: "uplink_accounts [] [] s s"
  by (simp add: uplink_accounts_def)

lemma local_enqueue_law:
  assumes "ring_ok ring" "\<forall>j \<in> set (ring_list ring). job_ok n j" "job_ok n job" "local_enqueue_packet job ring s = (ring', s')"
  shows "ring_ok ring' \<and> (\<forall>j \<in> set (ring_list ring'). job_ok n j) \<and>
    (\<exists>as. uplink_accounts [] as s s' \<and> mset as + mset (map frame_of (ring_list ring')) =
       add_mset (frame_of job) (mset (map frame_of (ring_list ring))))"
proof (cases "ring_enqueue job ring")
  case (Pair ok r)
  note l = job_ring.enq_law [OF assms(1), of job, unfolded Pair, simplified]
  show ?thesis
  proof (cases ok)
    case True
    then have e: "ring' = r" "s' = s" using assms(4) Pair by (simp_all add: local_enqueue_packet_def)
    show ?thesis
      unfolding e using l True assms(2,3) uplink_accounts_refl [of s] by (intro conjI exI [of _ "[]"]) auto
  next
    case False
    then have e: "ring' = r" "s' = (ul_drop s)\<lparr> ul_released := ul_released s @ [frame_of job] \<rparr>"
      using assms(4) Pair by (simp_all add: local_enqueue_packet_def ul_drop_def)
    have "uplink_accounts [] [frame_of job] s s'"
      by (auto simp: uplink_accounts_def e ul_drop_def intro!: exI [of _ 1])
    with l False assms(2) show ?thesis by (intro conjI exI [of _ "[frame_of job]"]) (simp_all add: e(1))
  qed
qed

lemma local_l3l4_round_law:
  assumes "ring_ok (fst rs)" "\<forall>j \<in> set (ring_list (fst rs)). job_ok n j" "0 \<le> li" "li < int n"
  shows "\<exists>ring' s' as. local_l3l4_round li qi tb ps rs = (ring', s') \<and> ring_ok ring' \<and> (\<forall>j \<in> set (ring_list ring'). job_ok n j) \<and>
    uplink_accounts [] as (snd rs) s' \<and> mset as + mset (map frame_of (ring_list ring')) =
      mset (map (\<lambda>p. (li, qi, snd (snd p))) ps) + mset (map frame_of (ring_list (fst rs)))"
  using assms(1,2)
proof (induction ps arbitrary: rs)
  case Nil
  then show ?case by (intro exI [of _ "fst rs"] exI [of _ "snd rs"] exI [of _ "[]"]) (simp add: uplink_accounts_refl)
next
  case (Cons p ps)
  let ?job = "batch_job li qi tb p"
  obtain r1 s1 where e: "local_enqueue_packet ?job (fst rs) (snd rs) = (r1, s1)" by fastforce
  have j: "job_ok n ?job" using assms(3,4) by (simp add: job_ok_def batch_job_def)
  from local_enqueue_law [OF Cons.prems j e] obtain as where a: "ring_ok r1" "\<forall>j \<in> set (ring_list r1). job_ok n j"
    "uplink_accounts [] as (snd rs) s1" "mset as + mset (map frame_of (ring_list r1)) =
       add_mset (li, qi, snd (snd p)) (mset (map frame_of (ring_list (fst rs))))"
    by (auto simp: batch_job_def)
  from Cons.IH [of "(r1, s1)"] a(1,2) obtain ring' s' bs where b: "local_l3l4_round li qi tb ps (r1, s1) = (ring', s')" "ring_ok ring'"
    "\<forall>j \<in> set (ring_list ring'). job_ok n j" "uplink_accounts [] bs s1 s'" "mset bs + mset (map frame_of (ring_list ring')) =
      mset (map (\<lambda>p. (li, qi, snd (snd p))) ps) + mset (map frame_of (ring_list r1))" by auto
  have "mset (as @ bs) + mset (map frame_of (ring_list ring')) = mset as + (mset bs + mset (map frame_of (ring_list ring')))" by simp
  also have "\<dots> = mset (map (\<lambda>p. (li, qi, snd (snd p))) ps) + (mset as + mset (map frame_of (ring_list r1)))"
    unfolding b(5) by (simp only: ac_simps)
  finally show ?case
    using b e uplink_accounts_trans [OF a(3) b(4)] unfolding a(4)
    by (intro exI [of _ ring'] exI [of _ s'] exI [of _ "as @ bs"]) simp
qed

lemma worker_round_law:
  assumes "ring_ok ring" "\<forall>j \<in> set (ring_list ring). job_ok n j" "event_ok n (Work env)"
    and "worker_round env (ring, s) = Some ((ring', s'), flushed)"
  shows "ring_ok ring' \<and> (\<forall>j \<in> set (ring_list ring'). job_ok n j) \<and>
    (\<exists>fs as. uplink_accounts fs as s s' \<and> (\<forall>x \<in> set fs. (fst x, fst (snd x)) \<in> set flushed) \<and>
       mset as + mset (map frame_of (ring_list ring')) = mset (map frame_of (ring_list ring)))"
proof -
  note l = ring_dequeue_law [OF assms(1)]
  show ?thesis
  proof (cases "ring_list ring")
    case Nil
    then have "ring_dequeue ring = (None, ring')" "s' = s"
      using l assms(4) by (auto simp: worker_round_def split: prod.splits option.splits)
    then show ?thesis using l Nil uplink_accounts_refl [of s] by auto
  next
    case (Cons job jobs)
    then obtain r where d: "ring_dequeue ring = (Some job, r)" "ring_ok r" "ring_list r = jobs"
      using l by (cases "ring_dequeue ring") auto
    have w: "worker_packet env job (clear_wan_used s) = Some s'" "ring' = r" "flushed = flush_wans env (pj_tx_queue_base job) s'"
      using assms(4) by (auto simp: worker_round_def d split: bind_splits)
    have j: "pj_has_fwd job" "0 \<le> pj_local_idx job" "pj_local_idx job < int (length (ac_locals (ue_cfg env)))" "uplink_env_ok env"
      using assms(2,3) Cons by (auto simp: job_ok_def)
    from worker_accounts [OF j(4,1) w(1) j(2,3), unfolded clear_wan_used_sel] obtain k fs where k: "k \<in> {1, 2}" "ul_sent s' = ul_sent s @ fs" "length fs \<le> k"
      "ul_local_to_wan s' = ul_local_to_wan s + of_nat (length fs)" "ul_dropped s' = ul_dropped s + of_nat (k - length fs)"
      "ul_released s' = ul_released s @ [frame_of job]" by blast
    have "1 \<le> length fs + (k - length fs) \<and> length fs + (k - length fs) \<le> 2" using k(1,3) by auto
    with k have "uplink_accounts fs [frame_of job] s s'" by (auto simp: uplink_accounts_def intro!: exI [of _ "k - length fs"])
    moreover have "\<forall>x \<in> set fs. (fst x, fst (snd x)) \<in> set flushed"
      using flush_wans_covers [OF worker_packet_flushed [OF j(4) w(1)]] k(2) w(3) by auto
    ultimately show ?thesis using d(2,3) assms(2) Cons w(2) by (intro conjI exI [of _ fs] exI [of _ "[frame_of job]"]) auto
  qed
qed

lemma uplink_run_law:
  assumes "ring_ok (fst rs)" "\<forall>j \<in> set (ring_list (fst rs)). job_ok n j" "\<forall>e \<in> set es. event_ok n e"
    and "uplink_run es rs = Some ((ring', s'), flushed)"
  shows "\<exists>fs as. uplink_accounts fs as (snd rs) s' \<and> (\<forall>x \<in> set fs. (fst x, fst (snd x)) \<in> set flushed) \<and>
    mset as + mset (map frame_of (ring_list ring')) = mset (concat (map received es)) + mset (map frame_of (ring_list (fst rs)))"
  using assms
proof (induction es arbitrary: rs flushed)
  case Nil
  then show ?case by (intro exI [of _ "[]"]) (auto simp: uplink_accounts_refl)
next
  case (Cons e es)
  obtain r1 s1 f1 f2 where e: "uplink_event_round e rs = Some ((r1, s1), f1)" "uplink_run es (r1, s1) = Some ((ring', s'), f2)"
    "flushed = f1 @ f2" using Cons.prems(4) by (auto split: bind_splits)
  have "ring_ok r1 \<and> (\<forall>j \<in> set (ring_list r1). job_ok n j) \<and>
    (\<exists>fs as. uplink_accounts fs as (snd rs) s1 \<and> (\<forall>x \<in> set fs. (fst x, fst (snd x)) \<in> set f1) \<and>
       mset as + mset (map frame_of (ring_list r1)) = mset (received e) + mset (map frame_of (ring_list (fst rs))))"
  proof (cases e)
    case (Received li qi tb ps)
    then have "0 \<le> li" "li < int n" "local_l3l4_round li qi tb ps rs = (r1, s1)" using Cons.prems(3) e(1) by auto
    with local_l3l4_round_law [OF Cons.prems(1,2), of li qi tb ps] obtain as where "ring_ok r1" "\<forall>j \<in> set (ring_list r1). job_ok n j"
      "uplink_accounts [] as (snd rs) s1" "mset as + mset (map frame_of (ring_list r1)) =
        mset (map (\<lambda>p. (li, qi, snd (snd p))) ps) + mset (map frame_of (ring_list (fst rs)))" by auto
    then show ?thesis using Received by (intro conjI exI [of _ "[]"] exI [of _ as]) simp_all
  next
    case (Work env)
    then have "event_ok n (Work env)" "worker_round env (fst rs, snd rs) = Some ((r1, s1), f1)" using Cons.prems(3) e(1) by simp_all
    from worker_round_law [OF Cons.prems(1,2) this] Work show ?thesis by simp
  qed
  then obtain fs as where a: "ring_ok r1" "\<forall>j \<in> set (ring_list r1). job_ok n j" "uplink_accounts fs as (snd rs) s1"
    "\<forall>x \<in> set fs. (fst x, fst (snd x)) \<in> set f1"
    "mset as + mset (map frame_of (ring_list r1)) = mset (received e) + mset (map frame_of (ring_list (fst rs)))" by blast
  from Cons.IH [of "(r1, s1)" f2] a(1,2) Cons.prems(3) e(2) obtain gs bs where b: "uplink_accounts gs bs s1 s'"
    "\<forall>x \<in> set gs. (fst x, fst (snd x)) \<in> set f2"
    "mset bs + mset (map frame_of (ring_list ring')) = mset (concat (map received es)) + mset (map frame_of (ring_list r1))" by auto
  have "mset (as @ bs) + mset (map frame_of (ring_list ring')) = mset as + (mset bs + mset (map frame_of (ring_list ring')))" by simp
  also have "\<dots> = mset (concat (map received es)) + (mset as + mset (map frame_of (ring_list r1)))" unfolding b(3) by (simp only: ac_simps)
  also have "\<dots> = mset (concat (map received (e # es))) + mset (map frame_of (ring_list (fst rs)))" unfolding a(5) by simp
  finally show ?case
    using a(4) b(2) e(3) uplink_accounts_trans [OF a(3) b(1)] by (intro exI [of _ "fs @ gs"] exI [of _ "as @ bs"]) auto
qed

section \<open>Downlink: everything sent is announced\<close>

definition dl_flushed :: "downlink_env \<Rightarrow> downlink \<Rightarrow> downlink \<Rightarrow> bool" where
  "dl_flushed env s s' \<longleftrightarrow> (\<exists>fs. dl_out s' = dl_out s @ fs \<and>
     (\<forall>x \<in> set fs. fst x < length (ac_locals (de_cfg env)) \<and> 0 \<le> fst (snd x) \<and> fst (snd x) < max 1 (de_local_queues env ! fst x)) \<and>
     (\<forall>l q. bit (dl_used s' l) q \<longleftrightarrow> bit (dl_used s l) q \<or> q < 32 \<and> (\<exists>x \<in> set fs. fst x = l \<and> fst (snd x) = int q)))"

text \<open>Neither a frame was sent nor a bit set.\<close>

definition dl_quiet :: "downlink \<Rightarrow> downlink \<Rightarrow> bool" where
  "dl_quiet s s' \<longleftrightarrow> dl_out s' = dl_out s \<and> dl_used s' = dl_used s"

lemma dl_flushed_kept: "dl_quiet s s' \<Longrightarrow> dl_flushed env s s'"
  by (simp add: dl_flushed_def dl_quiet_def)

lemma dl_flushed_trans:
  assumes "dl_flushed env s t" "dl_flushed env t u"
  shows "dl_flushed env s u"
proof -
  let ?P = "\<lambda>x. fst x < length (ac_locals (de_cfg env)) \<and> 0 \<le> fst (snd x) \<and> fst (snd x) < max 1 (de_local_queues env ! fst x)"
  obtain fs gs where "dl_out t = dl_out s @ fs" "\<forall>x \<in> set fs. ?P x" "dl_out u = dl_out t @ gs" "\<forall>x \<in> set gs. ?P x"
    "\<forall>l q. bit (dl_used t l) q \<longleftrightarrow> bit (dl_used s l) q \<or> q < 32 \<and> (\<exists>x \<in> set fs. fst x = l \<and> fst (snd x) = int q)"
    "\<forall>l q. bit (dl_used u l) q \<longleftrightarrow> bit (dl_used t l) q \<or> q < 32 \<and> (\<exists>x \<in> set gs. fst x = l \<and> fst (snd x) = int q)"
    using assms unfolding dl_flushed_def by blast
  then show ?thesis unfolding dl_flushed_def by (intro exI [of _ "fs @ gs"]) auto
qed

lemma dl_flushed_from: "dl_quiet s t \<Longrightarrow> dl_flushed env t u \<Longrightarrow> dl_flushed env s u"
  by (simp add: dl_flushed_def dl_quiet_def)

lemma dl_quiet_upd [simp]:
  "dl_quiet s (t\<lparr> dl_st := st \<rparr>) = dl_quiet s t" "dl_quiet s (t\<lparr> dl_frag_l2 := ft \<rparr>) = dl_quiet s t"
  "dl_quiet s (t\<lparr> dl_frag_l3 := ft \<rparr>) = dl_quiet s t" "dl_quiet s (t\<lparr> dl_frag_l4 := ft \<rparr>) = dl_quiet s t"
  "dl_quiet s (t\<lparr> dl_pins := p \<rparr>) = dl_quiet s t" "dl_quiet s (t\<lparr> dl_bad_ip := c \<rparr>) = dl_quiet s t"
  "dl_quiet s (t\<lparr> dl_no_local := c \<rparr>) = dl_quiet s t" "dl_quiet s (t\<lparr> dl_arp_requests := r \<rparr>) = dl_quiet s t"
  "dl_quiet s (dl_drop t) = dl_quiet s t" "dl_quiet s s" "dl_quiet (s\<lparr> dl_st := st \<rparr>) t = dl_quiet s t"
  by (simp_all add: dl_quiet_def dl_drop_def)

lemma kept_quiet: "kept s t \<Longrightarrow> dl_quiet s t"
  by (simp add: kept_def dl_quiet_def)

lemma dl_quiet_trans: "dl_quiet s t \<Longrightarrow> dl_quiet t u \<Longrightarrow> dl_quiet s u"
  by (simp add: dl_quiet_def)

lemma first_index_length: "0 \<le> first_index P 0 xs \<Longrightarrow> nat (first_index P 0 xs) < length xs"
  using first_index_some [of 0 P xs] by force

lemma pick_local_range:
  assumes "forwarder_rx_pick_local cfg st pkt n ip = Some (i, pkt')" "0 \<le> i"
  shows "nat i < length (ac_locals cfg)"
proof -
  have "i = -1 \<or> (\<exists>P. i = first_index P 0 (ac_locals cfg))"
    using assms(1)
    by (auto simp: forwarder_rx_pick_local_def bridge_mac_local_for_dmac_def config_find_local_for_ip_def split: bind_splits if_splits)
  with assms(2) show ?thesis using first_index_length by auto
qed

lemma dl_tx_queue_range: "0 \<le> dl_tx_queue env i fl \<and> dl_tx_queue env i fl < max 1 (de_local_queues env ! i)"
  by (auto simp: dl_tx_queue_def Let_def max_def split: option.split)

lemma dl_transmit_flushed:
  assumes "i < length (ac_locals (de_cfg env))"
  shows "dl_flushed env s (dl_transmit env i fl data s)"
proof -
  define tq where "tq = dl_tx_queue env i fl"
  note r = dl_tx_queue_range [of env i fl, folded tq_def]
  have b: "bit (2 ^ nat tq :: u32) q \<longleftrightarrow> int q = tq" if "tq < 32" for q
    using that r by (auto simp: bit_exp_iff possible_bit_def)
  have off: "\<not> bit (w :: u32) q" if "32 \<le> q" for w q using that bit_imp_le_length [of w q] by auto
  show ?thesis
    unfolding dl_flushed_def dl_transmit_def dl_drop_def Let_def tq_def [symmetric]
    using assms r b off by (auto simp: bit_or_iff)
qed

lemma dl_deliver_flushed:
  assumes "dl_deliver env pkt n s = Some (miss, s')"
  shows "dl_flushed env s s'"
proof -
  obtain ip i p where i: "forwarder_rx_pick_local (de_cfg env) (dl_st s) pkt n ip = Some (i, p)"
    "(if i < 0 then Some (False, dl_no_interface env ip s) else dl_to_local env (nat i) ip p n s) = Some (miss, s')"
    using assms by (auto simp: dl_deliver_def bind_eq_Some_conv)
  show ?thesis
  proof (cases "i < 0")
    case True
    then show ?thesis using i(2) by (auto simp: dl_no_interface_def intro!: dl_flushed_kept)
  next
    case False
    then have r: "nat i < length (ac_locals (de_cfg env))" by (intro pick_local_range [OF i(1)]) simp
    have "dl_flushed env s (dl_transmit env (nat i) fl data t)" if "dl_quiet s t" for fl data t
      by (rule dl_flushed_from [OF that dl_transmit_flushed [OF r]])
    then show ?thesis using i(2) False
      by (auto simp: dl_to_local_def Let_def dl_flushed_kept split: bind_splits if_splits option.splits)
  qed
qed

text \<open>The stages send nothing.\<close>

lemma dl_join_quiet: "dl_join r put_table pkt s = Some (out, t) \<Longrightarrow> (\<And>ft. dl_quiet s (put_table ft s)) \<Longrightarrow> dl_quiet s t"
  by (auto simp: dl_join_def Let_def bind_eq_Some_conv split: prod.splits if_splits)

lemma stage_l2_quiet:
  assumes "stage_l2 env pkt n s = Some (out, t)"
  shows "dl_quiet s t"
proof -
  have "dl_quiet v u" if "dl_join x (\<lambda>ft s. s\<lparr> dl_frag_l2 := ft \<rparr>) p v = Some (o', u)" for x p v o' u
    using dl_join_quiet [OF that] by simp
  note j = this [where v = "s\<lparr> dl_st := st \<rparr>" for st]
  show ?thesis
    using assms by (auto dest!: j simp: stage_l2_def bind_eq_Some_conv Let_def split: option.splits if_splits)
qed

lemma stage_l3_quiet:
  assumes "stage_l3 env wire_len pkt n s = Some ((out, t), i)"
  shows "dl_quiet s t"
proof -
  have "dl_quiet v u" if "dl_join x (\<lambda>ft s. s\<lparr> dl_frag_l3 := ft \<rparr>) p v = Some (o', u)" for x p v o' u
    using dl_join_quiet [OF that] by simp
  note j = this [where v = "s\<lparr> dl_st := st \<rparr>" for st]
  show ?thesis
    using assms by (auto dest!: j simp: stage_l3_def bind_eq_Some_conv Let_def split: option.splits if_splits)
qed

lemma stage_l4_quiet:
  assumes "stage_l4 env wire_ssh wire_len inbound pkt n s = Some ((out, t), i)"
  shows "dl_quiet s t"
proof -
  have "dl_quiet v u" if "dl_join x (\<lambda>ft s. s\<lparr> dl_frag_l4 := ft \<rparr>) p v = Some (o', u)" for x p v o' u
    using dl_join_quiet [OF that] by simp
  note j = this [where v = "s\<lparr> dl_st := st \<rparr>" for st]
  show ?thesis
    using assms by (auto dest!: j simp: stage_l4_def bind_eq_Some_conv Let_def split: option.splits if_splits)
qed

lemma stage_l2_marked_quiet: "stage_l2_marked env pkt n s = Some (out, t) \<Longrightarrow> dl_quiet s t"
  by (auto simp: stage_l2_marked_def bind_eq_Some_conv stage_l2_quiet split: if_splits)

lemma stages_l3l4_quiet:
  assumes "stages_l3l4 env wire_ssh wire_len pkt n s = Some ((out, t), i)"
  shows "dl_quiet s t"
  using assms dl_quiet_trans
  by (fastforce simp: stages_l3l4_def bind_eq_Some_conv dest: stage_l3_quiet stage_l4_quiet split: if_splits option.splits)

lemma stage_then_deliver:
  assumes "dl_quiet s t"
    and "(case out of None \<Rightarrow> Some t | Some (pkt, n) \<Rightarrow> deliver pkt n) = Some s'"
    and "\<And>pkt n u. deliver pkt n = Some u \<Longrightarrow> dl_flushed env t u"
  shows "dl_flushed env s s'"
  using assms by (cases out) (auto intro: dl_flushed_kept dl_flushed_from)

lemma wan_l2_packet_flushed:
  assumes "wan_l2_packet env pkt n s = Some s'"
  shows "dl_flushed env s s'"
proof -
  obtain out t where t: "stage_l2 env pkt n s = Some (out, t)"
    "(case out of None \<Rightarrow> Some t | Some (pkt, n) \<Rightarrow> map_option snd (dl_deliver env pkt n t)) = Some s'"
    using assms by (auto simp: wan_l2_packet_def bind_eq_Some_conv)
  show ?thesis
    by (rule stage_then_deliver [where deliver = "\<lambda>p m. map_option snd (dl_deliver env p m t)", OF stage_l2_quiet [OF t(1)] t(2)])
      (auto dest: dl_deliver_flushed)
qed

lemma pinned_deliver_flushed:
  assumes "do { fl \<leftarrow> (if i \<ge> 0 then parse_flow pkt n else Some None); map_option snd (dl_deliver env pkt n (dl_pin env i fl t)) } = Some u"
  shows "dl_flushed env t u"
proof -
  obtain fl miss where "dl_deliver env pkt n (dl_pin env i fl t) = Some (miss, u)" using assms by (auto simp: bind_eq_Some_conv)
  moreover have "dl_quiet t (dl_pin env i fl t)" by (rule kept_quiet [OF dl_pin_kept])
  ultimately show ?thesis using dl_flushed_from dl_deliver_flushed by blast
qed

lemma wan_l3l4_packet_flushed:
  assumes "wan_l3l4_packet env pkt n s = Some s'"
  shows "dl_flushed env s s'"
proof -
  obtain wire s1 out2 s2 where a: "parse_flow pkt n = Some wire" "stage_l3_params env pkt n s = Some s1"
    "stage_l2_marked env pkt n s1 = Some (out2, s2)"
    using assms by (auto simp: wan_l3l4_packet_def bind_eq_Some_conv)
  have ok: "dl_quiet s s2"
    using dl_quiet_trans [OF kept_quiet stage_l2_marked_quiet [OF a(3)]] stage_l3_params_kept [OF a(2)] by blast
  define rest where "rest = (\<lambda>p m. stages_l3l4 env (wire_is_ssh wire) n p m s2 \<bind> (\<lambda>((out, s), inbound).
      case out of None \<Rightarrow> Some s | Some (pkt, n) \<Rightarrow>
        (if 0 \<le> inbound then parse_flow pkt n else Some None) \<bind> (\<lambda>fl. map_option snd (dl_deliver env pkt n (dl_pin env inbound fl s)))))"
  have run: "(case out2 of None \<Rightarrow> Some s2 | Some (p, m) \<Rightarrow> rest p m) = Some s'"
    using assms unfolding wan_l3l4_packet_def rest_def by (simp add: a)
  have "dl_flushed env s2 u" if u: "rest p m = Some u" for p m u
  proof -
    obtain out3 s3 i where r: "stages_l3l4 env (wire_is_ssh wire) n p m s2 = Some ((out3, s3), i)"
      "(case out3 of None \<Rightarrow> Some s3 | Some (pkt, n) \<Rightarrow>
          (if 0 \<le> i then parse_flow pkt n else Some None) \<bind> (\<lambda>fl. map_option snd (dl_deliver env pkt n (dl_pin env i fl s3)))) = Some u"
      using u by (auto simp: rest_def bind_eq_Some_conv simp del: if_split)
    show ?thesis
      by (rule stage_then_deliver [where deliver = "\<lambda>p m. (if 0 \<le> i then parse_flow p m else Some None) \<bind>
            (\<lambda>fl. map_option snd (dl_deliver env p m (dl_pin env i fl s3)))", OF stages_l3l4_quiet [OF r(1)] r(2)])
        (rule pinned_deliver_flushed)
  qed
  then show ?thesis by (rule stage_then_deliver [where deliver = rest, OF ok run])
qed

lemma wan_batch_flushed:
  assumes "\<And>p r r'. body p r = Some r' \<Longrightarrow> dl_flushed env (fst r) (fst r')"
  shows "wan_batch body ps r = Some r' \<Longrightarrow> dl_flushed env (fst r) (fst r')"
proof (induction ps arbitrary: r)
  case (Cons p ps)
  then obtain q where "body p r = Some q" "wan_batch body ps q = Some r'" by (auto split: bind_splits)
  with Cons.IH assms dl_flushed_trans show ?case by blast
qed (simp add: dl_flushed_kept)

lemma packet_batch_flushed:
  assumes "\<And>pkt n s t. f pkt n s = Some t \<Longrightarrow> dl_flushed env s t"
    and "map_option (release_batch ps)
      (wan_batch (\<lambda>p r. map_option (\<lambda>s. (s, snd r)) (f (fst p) (fst (snd p)) (fst r))) ps (s, [])) = Some (s', rel)"
  shows "dl_flushed env s s'"
proof -
  obtain r' where "wan_batch (\<lambda>p r. map_option (\<lambda>s. (s, snd r)) (f (fst p) (fst (snd p)) (fst r))) ps (s, []) = Some r'" "fst r' = s'"
    using assms(2) by (auto simp: release_batch_def)
  with wan_batch_flushed [OF _ this(1), of env] assms(1) show ?thesis by auto
qed

lemma wan_threads_flushed:
  "wan_queue_thread_no_crypto env ps s = Some (s', rel) \<Longrightarrow> dl_flushed env s s'"
  "wan_queue_thread_l2 env ps s = Some (s', rel) \<Longrightarrow> dl_flushed env s s'"
  "wan_queue_thread_l3l4 env ps s = Some (s', rel) \<Longrightarrow> dl_flushed env s s'"
proof -
  have "dl_flushed env (fst r) (fst r')" if "wan_no_crypto_packet env p r = Some r'" for p r r'
    using that by (auto simp: wan_no_crypto_packet_def split: bind_splits dest: dl_deliver_flushed)
  from wan_batch_flushed [OF this, where ps = ps and r = "(s, [])"]
  show "wan_queue_thread_no_crypto env ps s = Some (s', rel) \<Longrightarrow> dl_flushed env s s'"
    by (auto simp: wan_queue_thread_no_crypto_def release_batch_def)
  have same: "dl_flushed env (s\<lparr> dl_frag_l2 := a \<rparr>) s' = dl_flushed env s s'"
    "dl_flushed env (s\<lparr> dl_frag_l3 := a, dl_frag_l4 := b \<rparr>) s' = dl_flushed env s s'" for a b
    by (simp_all add: dl_flushed_def)
  show "dl_flushed env s s'" if a: "wan_queue_thread_l2 env ps s = Some (s', rel)"
    using packet_batch_flushed [where f = "wan_l2_packet env" and env = env, OF wan_l2_packet_flushed a [unfolded wan_queue_thread_l2_def]]
    by (simp only: same)
  show "dl_flushed env s s'" if a: "wan_queue_thread_l3l4 env ps s = Some (s', rel)"
    using packet_batch_flushed [where f = "wan_l3l4_packet env" and env = env, OF wan_l3l4_packet_flushed a [unfolded wan_queue_thread_l3l4_def]]
    by (simp only: same)
qed

text \<open>The flush at the end of a WAN round reaches every queue that was used, as long as an interface has between 1 and 32 queues.\<close>

lemma flush_locals_covers:
  assumes "dl_flushed env (clear_local_used s) s'"
    and "\<forall>i < length (ac_locals (de_cfg env)). 1 \<le> de_local_queues env ! i \<and> de_local_queues env ! i \<le> 32"
  shows "\<exists>fs. dl_out s' = dl_out s @ fs \<and> (\<forall>x \<in> set fs. (fst x, nat (fst (snd x))) \<in> set (flush_locals env s'))"
proof -
  obtain fs where fs: "dl_out s' = dl_out s @ fs" "\<forall>x \<in> set fs. fst x < length (ac_locals (de_cfg env)) \<and> 0 \<le> fst (snd x) \<and>
      fst (snd x) < max 1 (de_local_queues env ! fst x)"
    "\<forall>l q. bit (dl_used s' l) q \<longleftrightarrow> q < 32 \<and> (\<exists>x \<in> set fs. fst x = l \<and> fst (snd x) = int q)"
    using assms(1) by (auto simp: dl_flushed_def clear_local_used_def)
  have "(fst x, nat (fst (snd x))) \<in> set (flush_locals env s')" if "x \<in> set fs" for x
  proof -
    have x: "fst x < length (ac_locals (de_cfg env))" "0 \<le> fst (snd x)" "fst (snd x) < max 1 (de_local_queues env ! fst x)"
      using fs(2) that by auto
    then have "nat (fst (snd x)) < min 32 (nat (de_local_queues env ! fst x))" using assms(2) by fastforce
    moreover from this have "bit (dl_used s' (fst x)) (nat (fst (snd x)))"
      using that x(2) fs(3) by (auto intro!: bexI [of _ x])
    ultimately show ?thesis using x(1) unfolding flush_locals_def by (auto intro!: bexI [of _ "fst x"])
  qed
  with fs(1) show ?thesis by blast
qed

lemma wan_rounds_announce:
  assumes "\<forall>i < length (ac_locals (de_cfg env)). 1 \<le> de_local_queues env ! i \<and> de_local_queues env ! i \<le> 32"
    and "wan_no_crypto_round env ps s = Some (s', released, flushed) \<or> wan_l2_round env ps s = Some (s', released, flushed) \<or>
      wan_l3l4_round env ps s = Some (s', released, flushed)"
  shows "\<exists>fs. dl_out s' = dl_out s @ fs \<and> (\<forall>x \<in> set fs. (fst x, nat (fst (snd x))) \<in> set flushed)"
proof -
  have "dl_flushed env (clear_local_used s) s' \<and> flushed = flush_locals env s' \<or> s' = s"
    using assms(2)
    by (auto simp: wan_no_crypto_round_def wan_l2_round_def wan_l3l4_round_def wan_round_def dl_flushed_kept
        dest: wan_threads_flushed split: bind_splits if_splits)
  with flush_locals_covers [OF _ assms(1)] show ?thesis by auto
qed

text \<open>A flush leaves nothing waiting in its queue.\<close>

lemma flush_empties:
  "queue_idx < xi_queue_count iface \<Longrightarrow> 0 \<le> xq_pending q \<Longrightarrow> xq_pending (interface_send_flush_queue iface queue_idx q) = 0"
  by (simp add: interface_send_flush_queue_def)

section \<open>Properties\<close>

text \<open>C37: Between the local receive threads and the worker no frame is lost, returned twice or left waiting, whatever the
  interleaving and however often the configuration changes: the frames that were received, and those of the jobs in the ring
  before, are those that have been returned to their receive rings and those of the jobs still in the ring; every returned frame
  was sent, at least in part, or counted as dropped; and every frame in a transmit ring is in a queue that is flushed.\<close>

theorem uplink_frames_accounted:
  assumes "ring_ok ring" "\<forall>j \<in> set (ring_list ring). job_ok n j" "\<forall>e \<in> set es. event_ok n e"
    and "uplink_run es (ring, s) = Some ((ring', s'), flushed)"
  shows "\<exists>fs as d. ul_sent s' = ul_sent s @ fs \<and> ul_released s' = ul_released s @ as \<and>
    mset as + mset (map frame_of (ring_list ring')) = mset (concat (map received es)) + mset (map frame_of (ring_list ring)) \<and>
    ul_local_to_wan s' = ul_local_to_wan s + of_nat (length fs) \<and> ul_dropped s' = ul_dropped s + of_nat d \<and>
    length as \<le> length fs + d \<and> length fs + d \<le> 2 * length as \<and> (\<forall>x \<in> set fs. (fst x, fst (snd x)) \<in> set flushed)"
  using uplink_run_law [where rs = "(ring, s)" and n = n and es = es] assms unfolding uplink_accounts_def by fastforce

lemma empty_ring: "ring_ok sample_ring" "ring_list sample_ring = []"
  by (simp_all add: ring_ok_def ring_list_def ring_count_def sample_ring_def WORKER_RING_SIZE_def)

text \<open>A packet is received and the worker sends it.\<close>

theorem uplink_frames_accounted_witness:
  "\<exists>ring s flushed. uplink_run [Received 0 0 0 [(sample_uplink_packet, 54, 4096)], Work unready_uplink_env] (sample_ring, sample_uplink)
      = Some ((ring, s), flushed) \<and> ul_released s = [(0, 0, 4096)] \<and> ring_list ring = []"
proof -
  let ?es = "[Received 0 0 0 [(sample_uplink_packet, 54, 4096)], Work unready_uplink_env]"
  have job: "batch_job 0 0 0 (sample_uplink_packet, 54, 4096) = sample_uplink_job" by (simp add: batch_job_def sample_uplink_job_def)
  obtain r1 where r1: "ring_enqueue sample_uplink_job sample_ring = (True, r1)" "ring_ok r1" "ring_list r1 = [sample_uplink_job]"
    using ring_enqueue_law [OF empty_ring(1), of sample_uplink_job] empty_ring(2)
    by (cases "ring_enqueue sample_uplink_job sample_ring") (auto simp: WORKER_RING_SIZE_def)
  obtain r2 where r2: "ring_dequeue r1 = (Some sample_uplink_job, r2)" "ring_list r2 = []"
    using ring_dequeue_law [OF r1(2)] r1(3) by (cases "ring_dequeue r1") auto
  obtain s where s: "worker_packet unready_uplink_env sample_uplink_job sample_uplink = Some s" using unready_run by blast
  have clear: "clear_wan_used sample_uplink = sample_uplink" by (simp add: clear_wan_used_def sample_uplink_def)
  obtain flushed where run: "uplink_run ?es (sample_ring, sample_uplink) = Some ((r2, s), flushed)"
    by (simp add: local_enqueue_packet_def job r1(1) worker_round_def r2(1) clear s)
  have "\<forall>e \<in> set ?es. event_ok 1 e"
    using sample_env_ok(2) by (simp add: sample_env_cfg sample_config1_def sample_config_def)
  with uplink_frames_accounted [OF empty_ring(1) _ _ run, of 1] obtain as where "ul_released s = ul_released sample_uplink @ as"
    "mset as + mset (map frame_of (ring_list r2)) = mset (concat (map received ?es)) + mset (map frame_of (ring_list sample_ring))"
    using empty_ring(2) by auto
  then have "ul_released s = [(0, 0, 4096)]" using r2(2) empty_ring(2) by (simp add: sample_uplink_def)
  with run r2(2) show ?thesis by blast
qed

end
