(* ===== verification/Spec2Isabelle.thy ===== *)
theory Spec2Isabelle
  imports Config PacketCrypto Checksum LayerCommon Layer2 Layer3 Layer4 Dispatch Fragment
    BucketMap FlowTable PolicyPin ArpCache CryptoRuntime WorkerRing ReloadGate DbMerge Flow
    Interface Uplink Sender Downlink EndToEnd CText DbConfig DbLoaded Xdp Daemon
    CFile PeerMac DbEnv SocketLife Startup Threads RingIO
    CPrint ArpFile Diag DbRules MainArgs MainLoop Rounds
begin

text \<open>
  The datapath of an encrypting forwarder between several local and several WAN interfaces. Two gateways
  face each other over the WANs. A gateway receives frames of its local interfaces over AF_XDP sockets,
  finds the policy of the flow, seals the packet at layer 2, 3 or 4 (splitting it when it would
  exceed the MTU), chooses a WAN and sends; in the other direction it recognises sealed packets by their
  markers and wire ids, opens and reassembles them and delivers them to a local interface. Policies,
  interfaces and profiles come from a database and can be replaced while packets flow.

  \<^bold>\<open>How the parts correspond to the code.\<close>

  \<^item> \<open>Prelude\<close>: buffers as byte lists with access that fails out of bounds, big- and little-endian
    fields, C integer conversions, searches. \<open>BucketMap\<close>: hash tables with chained entries, and the
    locales \<open>keyed_store\<close> and \<open>deleting_store\<close> that state their contract.
  \<^item> \<open>Config\<close>: \<open>inc/core/config.h\<close> and the selections of \<open>src/db/config.c\<close> (profile, WAN, policy) with the
    validation.
  \<^item> \<open>PacketCrypto\<close>: \<open>src/crypto/packet_crypto.c\<close>, the thread's crypto state, key derivation, nonces, AES-CTR
    and AES-GCM around OpenSSL. \<open>Checksum\<close>: the IPv4, TCP and UDP checksums. \<open>LayerCommon\<close>, \<open>Layer2\<close>, \<open>Layer3\<close>,
    \<open>Layer4\<close>: the three encapsulations of \<open>src/crypto/crypto_layer2.c\<close>, \<open>crypto_layer3.c\<close> and \<open>crypto_layer4.c\<close>, for
    whole packets and fragments. \<open>Dispatch\<close>: \<open>crypto_dispatch.c\<close> and \<open>crypto_policy_utils.c\<close>.
  \<^item> \<open>Fragment\<close>: \<open>src/core/fragment.c\<close>, splitting and the reassembly tables.
  \<^item> \<open>FlowTable\<close>: \<open>src/core/flow_table.c\<close>, the WAN of a flow and the round robin. \<open>PolicyPin\<close>: the TCP policy
    pins of \<open>src/core/forwarder.c\<close>. \<open>ArpCache\<close>: the cache of \<open>src/core/wan_arp.c\<close>; \<open>ArpFile\<close>: its text file,
    \<open>arp_listener_thread\<close> and the requests for the peers.
  \<^item> \<open>CryptoRuntime\<close>: the table of policy contexts in \<open>src/core/forwarder.c\<close> with \<open>rebuild_crypto_runtime\<close> and
    \<open>forwarder_reload_config\<close>. \<open>ReloadGate\<close>: the gate between packet threads and a reload. \<open>WorkerRing\<close>: the
    ring between receive threads and worker. \<open>DbMerge\<close>: \<open>src/db/db_runtime.c\<close>.
  \<^item> \<open>CText\<close>: the C library's text functions and the parsers of \<open>src/db/config.c\<close>. \<open>DbConfig\<close>:
    \<open>src/db/db_config.c\<close>, from the rows of the database to a configuration; \<open>DbLoaded\<close>: what every loaded configuration
    satisfies; \<open>DbRules\<close>: the rules that the table states, what they admit, and that the loaded policies admit the same. \<open>Daemon\<close>: \<open>src/main.c\<close>, notifications, active profiles, the two configuration slots and the
    forwarder thread. \<open>Xdp\<close>: the XDP programs in \<open>bpf/\<close> and the filter maps of \<open>src/core/interface.c\<close>.
    \<open>CFile\<close> and \<open>DbEnv\<close>: reading text files, and the environment file of \<open>src/db/db_env.c\<close>. \<open>CPrint\<close>: printing
    numbers and addresses. \<open>Diag\<close>: what \<open>src/core/main_diag.c\<close>, the TCP diagnostics of the forwarder and \<open>run_db_check\<close> print.
  \<^item> \<open>MainArgs\<close>: \<open>main\<close> up to its loop, with the options and the short run that notifies the daemon. \<open>MainLoop\<close>: the loop as
    a step relation with the signal handler, the start and the end of the forwarder thread (\<open>Daemon\<close> and \<open>Startup\<close>
    together), and the exit.
  \<^item> \<open>PeerMac\<close>: the addresses of the peers of a bridge, \<open>src/core/bridge_mac.c\<close>. \<open>SocketLife\<close>: opening and closing the
    interfaces in \<open>src/core/interface.c\<close>, with the handles in use. \<open>Startup\<close>: \<open>forwarder_init\<close> from the bridge to the end,
    its error labels and the clean-up; \<open>Threads\<close>: the threads of \<open>forwarder_run\<close> and the round of \<open>gc_thread\<close>.
  \<^item> \<open>Flow\<close>: the packet inspection of \<open>src/core/forwarder.c\<close> and \<open>src/core/bridge_mac.c\<close>. \<open>Interface\<close>
    and \<open>RingIO\<close>: the rings and the shared memory of \<open>src/core/interface.c\<close>, sending and receiving. \<open>Uplink\<close> and \<open>Downlink\<close>: the threads
    of \<open>src/core/forwarder.c\<close>, one packet or batch at a time; \<open>Rounds\<close>: whole rounds of their loops with the flags that choose what is flushed, and the
    returned frames, and local threads and worker in any interleaving. \<open>Sender\<close>: what the worker makes of a packet under the policy
    of its flow. \<open>EndToEnd\<close>: a packet through both gateways.

  \<^bold>\<open>Conventions.\<close> A buffer is a list of bytes; a read or write outside it makes the whole operation \<open>None\<close>, so
  a result \<open>Some\<close> is also a statement of memory safety. Return codes are \<open>int\<close> as in C. Fixed-width integers
  are words. Global and thread-local variables of the source are fields of the record the operation
  threads. The clock, the result of \<open>malloc\<close>, and what the kernel rings accept are parameters. OpenSSL is the
  record \<open>evp_lib\<close>; the laws that the proofs use (CTR is an involution, GCM opens what it sealed under the
  same key and nonce, lengths) are the premise \<open>evp_ok\<close>, which a small cipher satisfies, so that
  every property has a concrete instance.

  \<^bold>\<open>What the lemmas show.\<close> The layers restore what they sealed, keep within the buffer and have the wire
  layout both gateways assume; fragments are joined only with a live first piece; nonces do not repeat
  within a counter period unless the crypto core is initialised again; the key cache is transparent while the key width stays;
  selection of policies and WANs is deterministic, symmetric, proportional, and in range for the first \<open>2^31\<close> lookups; pins and ARP entries survive until they expire; a rebuild installs
  exactly the configured policies; merging keeps every profile; the gate excludes packets from a
  rebuild in a sequentially consistent memory; frames under transmission do not meet frames under
  reception; every packet is accounted for in both directions (sent, counted as dropped, or stored as a first piece in a
  reassembly table), and whatever a round puts into a transmit ring it announces to the
  kernel; and a packet that one gateway seals is
  delivered by the other. A configuration loaded from the database is well typed, its policies match what the
  rules of the table admit, where lists have at most 32 elements and inverted lists one network, and its wire ids name keys; the set of active profiles stays well formed whatever notifications
  arrive; the XDP programs hand the datapath frames it can parse and sealed frames of the peer. Several theorems
  show where the code does not do what it should: payload bytes that pass for a header, nonces after a reload, policies without a context,
  inverted lists, addresses forgotten by a reload, sockets closed twice, and a database outage that stops forwarding for good, and a reload that waits for ever when a worker
  has skipped a job without leaving the gate. A start that succeeds leaves interfaces and configuration in step, names and addresses,
  a start that fails gives back its memory, UMEMs and AF_XDP sockets, every queue has one thread, received frames come back to their
  ring whenever an entry of it can be reserved, and the peers of a bridge are found and saved. The ARP
  cache survives a restart through its text file, the logged filters are read back by the parsers of the loader, the short run
  reaches the profile that its option names, and the process gives back what it took however it comes to its exit. The last and the start need that attaching a program to a
  local interface does not fail, and BPF objects and raw sockets are never given back.

  \<^bold>\<open>Interfaces.\<close> The locales are \<open>keyed_store\<close> and \<open>deleting_store\<close> (pins, flow table, ARP cache),
  \<open>bounded_fifo\<close> (worker ring), \<open>step_invariant\<close> (reload gate, main loop) and \<open>unique_append\<close> (merging); each is
  interpreted in the theory of the component that provides it.

  \<^bold>\<open>Bounds.\<close> No definition uses fuel: loops over lists and indices are structural, the waiting loop of a
  local transmit ends at the bound of the code, the loop over the bits of a netmask ends because the mask decreases when its highest
  bit is shifted out, and the scan of the ARP file ends because every line that is scanned shortens the rest. Sizes (128 policies, 4096 ring slots, 4096-byte pieces,
  8192 bytes of decryption scratch) are those of the source.

  \<^bold>\<open>Not modelled.\<close> The system calls themselves (their answers are parameters), the SQL of the queries that load a profile, pinning to
  a CPU, and log lines apart from those of \<open>Diag\<close> and of the start of \<open>main\<close>. The vendored headers of libbpf and libxdp only
  declare. Threads are interleaved in \<open>ReloadGate\<close>, one step per atomic access, in \<open>Rounds\<close>, one
  round per step, and in \<open>MainLoop\<close>, where the start of the forwarder thread is one step (so a stop that comes between
  the check and the store of \<open>running\<close> in \<open>forwarder_run\<close> is not shown); everywhere else the code holds a lock or the state is thread-local, except for the crypto
  parameters that every packet sets process-wide (\<open>g_encrypt_layer\<close> and its companions) and the
  collection of expired fragments by \<open>gc_thread\<close>, which takes no lock.
\<close>

end
